(* ===== verification/Handoff_Prelude.thy ===== *)
theory Handoff_Prelude
  imports Complex_Main
begin

text \<open>
  The vocabulary the component theories share: the collections their proofs use, results of
  fallible operations, JavaScript numbers, strings and untyped values, the character classes of
  the source's regular expressions, UTF-8 and the constant-time comparison.

  Numbers. A JavaScript number is a double. Every finite double is a rational, so a number is a
  rational or one of the three special values; comparison, \<open>Number.isInteger\<close>,
  \<open>Number.isSafeInteger\<close> and \<open>Number.isFinite\<close> are exact on that type.
  Rounding of arithmetic is not modelled.

  Strings. A string is a list of code units; the model covers the Latin-1 range (code units below
  256), where \<open>length\<close> is the source's \<open>.length\<close> and every unit is one code point.
\<close>

named_theorems op_defs \<open>definitions of the operations of a component\<close>
named_theorems guard_simps \<open>equations for the guards of an operation\<close>
named_theorems wf_intros \<open>introduction rules for well-formedness invariants\<close>

section \<open>Results\<close>

text \<open>A thrown error is \<open>Inl\<close>, a returned value \<open>Inr\<close>.\<close>

abbreviation is_ok :: "'e + 'a \<Rightarrow> bool" where
  "is_ok r \<equiv> \<not> isl r"

lemma is_ok_Inr_iff: "is_ok r \<longleftrightarrow> (\<exists>a. r = Inr a)"
  by (cases r) auto

lemma not_Inl_iff: "(\<forall>e. r \<noteq> Inl e) \<longleftrightarrow> is_ok r"
  by (cases r) auto

lemma unit_result_cases: "(r :: 'e + unit) = Inr () \<longleftrightarrow> is_ok r"
  by (cases r) auto

section \<open>Numbers\<close>

datatype jsnum = Fin rat | PosInf | NegInf | NaN

abbreviation num_of_int :: "int \<Rightarrow> jsnum" where
  "num_of_int n \<equiv> Fin (of_int n)"

definition max_safe_integer :: int where
  "max_safe_integer = 9007199254740991"

fun num_finite :: "jsnum \<Rightarrow> bool" where
  "num_finite (Fin _) = True"
| "num_finite _ = False"

fun num_integer :: "jsnum \<Rightarrow> bool" where
  "num_integer (Fin q) = (of_int \<lfloor>q\<rfloor> = q)"
| "num_integer _ = False"

fun num_to_int :: "jsnum \<Rightarrow> int" where
  "num_to_int (Fin q) = \<lfloor>q\<rfloor>"
| "num_to_int _ = 0"

definition safe_int :: "int \<Rightarrow> bool" where
  "safe_int n \<longleftrightarrow> \<bar>n\<bar> \<le> max_safe_integer"

definition num_safe_integer :: "jsnum \<Rightarrow> bool" where
  "num_safe_integer n \<longleftrightarrow> num_integer n \<and> safe_int (num_to_int n)"

text \<open>The relational operators: every comparison with NaN is false.\<close>

fun num_le :: "jsnum \<Rightarrow> jsnum \<Rightarrow> bool" where
  "num_le NaN _ = False"
| "num_le _ NaN = False"
| "num_le NegInf _ = True"
| "num_le _ PosInf = True"
| "num_le (Fin a) (Fin b) = (a \<le> b)"
| "num_le _ _ = False"

fun num_lt :: "jsnum \<Rightarrow> jsnum \<Rightarrow> bool" where
  "num_lt NaN _ = False"
| "num_lt _ NaN = False"
| "num_lt (Fin a) (Fin b) = (a < b)"
| "num_lt NegInf (Fin _) = True"
| "num_lt NegInf PosInf = True"
| "num_lt (Fin _) PosInf = True"
| "num_lt _ _ = False"

text \<open>\<open>===\<close> on numbers: NaN is equal to nothing.\<close>

fun num_eq :: "jsnum \<Rightarrow> jsnum \<Rightarrow> bool" where
  "num_eq NaN _ = False"
| "num_eq _ NaN = False"
| "num_eq a b = (a = b)"

fun num_plus :: "jsnum \<Rightarrow> jsnum \<Rightarrow> jsnum" where
  "num_plus (Fin a) (Fin b) = Fin (a + b)"
| "num_plus NaN _ = NaN"
| "num_plus _ NaN = NaN"
| "num_plus PosInf NegInf = NaN"
| "num_plus NegInf PosInf = NaN"
| "num_plus PosInf _ = PosInf"
| "num_plus _ PosInf = PosInf"
| "num_plus NegInf _ = NegInf"
| "num_plus _ NegInf = NegInf"

lemma num_plus_of_int [simp]: "num_plus (num_of_int a) (num_of_int b) = num_of_int (a + b)"
  by simp

lemma num_integer_of_int [simp]: "num_integer (num_of_int n)"
  by simp

lemma num_safe_of_int [simp]: "num_safe_integer (num_of_int n) \<longleftrightarrow> safe_int n"
  by (simp add: num_safe_integer_def)

lemma num_safe_integerD: "num_safe_integer n \<Longrightarrow> n = num_of_int (num_to_int n)"
  by (cases n) (auto simp: num_safe_integer_def)

lemma num_integerD: "num_integer n \<Longrightarrow> n = num_of_int (num_to_int n)"
  by (cases n) auto

lemma num_safe_integer_special [simp]:
  "\<not> num_safe_integer PosInf" "\<not> num_safe_integer NegInf" "\<not> num_safe_integer NaN"
  by (simp_all add: num_safe_integer_def)

lemma safe_int_simps [simp]:
  "safe_int 0" "safe_int 1"
  "safe_int (numeral k) \<longleftrightarrow> numeral k \<le> (9007199254740991 :: int)"
  "safe_int (- numeral k) \<longleftrightarrow> numeral k \<le> (9007199254740991 :: int)"
  by (simp_all add: safe_int_def max_safe_integer_def)

lemma num_safe_numeral [simp]:
  "num_safe_integer (Fin 0)" "num_safe_integer (Fin 1)"
  "num_safe_integer (Fin (numeral k)) \<longleftrightarrow> numeral k \<le> (9007199254740991 :: int)"
  using num_safe_of_int [of 0] num_safe_of_int [of 1] num_safe_of_int [of "numeral k"] safe_int_simps
  by (simp_all only: of_int_0 of_int_1 of_int_numeral)

section \<open>Untyped values\<close>

text \<open>
  The values that cross a trust boundary as \<open>unknown\<close>: what \<open>JSON.parse\<close> yields, and the
  byte arrays frames carry. An object is its own properties in order.
\<close>

type_synonym byte_list = "nat list"

datatype jsval =
    JUndefined
  | JNull
  | JBool bool
  | JNum jsnum
  | JStr string
  | JArr "jsval list"
  | JBytes byte_list
  | JObj "(string \<times> jsval) list"

abbreviation jint :: "int \<Rightarrow> jsval" where
  "jint n \<equiv> JNum (num_of_int n)"

text \<open>\<open>record[key]\<close>: a missing property reads as undefined.\<close>

definition get_prop :: "(string \<times> jsval) list \<Rightarrow> string \<Rightarrow> jsval" where
  "get_prop ps k = (case map_of ps k of None \<Rightarrow> JUndefined | Some v \<Rightarrow> v)"

definition object_keys :: "(string \<times> jsval) list \<Rightarrow> string list" where
  "object_keys ps = remdups (map fst ps)"

text \<open>\<open>Object.keys(record).every((key) => allowed.has(key))\<close>.\<close>

definition keys_within :: "(string \<times> jsval) list \<Rightarrow> string list \<Rightarrow> bool" where
  "keys_within ps allowed \<longleftrightarrow> list_all (\<lambda>k. k \<in> set allowed) (object_keys ps)"

text \<open>The same, and exactly as many keys as are allowed.\<close>

definition keys_exactly :: "(string \<times> jsval) list \<Rightarrow> string list \<Rightarrow> bool" where
  "keys_exactly ps allowed \<longleftrightarrow>
     length (object_keys ps) = length allowed \<and> keys_within ps allowed"

lemma keys_within_iff: "keys_within ps allowed \<longleftrightarrow> fst ` set ps \<subseteq> set allowed"
  by (auto simp: keys_within_def object_keys_def list_all_iff)

lemma get_prop_simps [simp]:
  "get_prop [] k = JUndefined"
  "get_prop ((k', v) # ps) k = (if k' = k then v else get_prop ps k)"
  by (simp_all add: get_prop_def)

lemma get_prop_append_absent: "k \<notin> fst ` set ps \<Longrightarrow> get_prop (ps @ qs) k = get_prop qs k"
  by (induction ps) auto

fun is_safe_num :: "jsval \<Rightarrow> bool" where
  "is_safe_num (JNum n) = num_safe_integer n"
| "is_safe_num _ = False"

fun is_integer_num :: "jsval \<Rightarrow> bool" where
  "is_integer_num (JNum n) = num_integer n"
| "is_integer_num _ = False"

fun int_of_val :: "jsval \<Rightarrow> int" where
  "int_of_val (JNum n) = num_to_int n"
| "int_of_val _ = 0"

fun str_of_val :: "jsval \<Rightarrow> string" where
  "str_of_val (JStr s) = s"
| "str_of_val _ = []"

text \<open>\<open>Number.isSafeInteger(v) && Number(v) >= lo\<close>.\<close>

definition safe_int_from :: "int \<Rightarrow> jsval \<Rightarrow> bool" where
  "safe_int_from lo v \<longleftrightarrow> is_safe_num v \<and> lo \<le> int_of_val v"

lemma is_safe_numD: "is_safe_num v \<Longrightarrow> v = jint (int_of_val v) \<and> safe_int (int_of_val v)"
  by (cases v) (auto simp: num_safe_integer_def dest: num_integerD)

lemma safe_int_from_jint [simp]: "safe_int_from lo (jint n) \<longleftrightarrow> safe_int n \<and> lo \<le> n"
  by (simp add: safe_int_from_def)

text \<open>A spread of an optional property: \<open>...(x ? { key: x } : {})\<close>.\<close>

fun opt_prop :: "string \<Rightarrow> jsval option \<Rightarrow> (string \<times> jsval) list" where
  "opt_prop k None = []"
| "opt_prop k (Some v) = [(k, v)]"

text \<open>An optional string property of a validated record.\<close>

fun opt_str :: "jsval \<Rightarrow> string option" where
  "opt_str (JStr s) = Some s"
| "opt_str _ = None"

text \<open>
  What \<open>JSON.parse\<close> reads back from \<open>JSON.stringify\<close>: undefined properties are dropped,
  undefined array elements and non-finite numbers become null, a byte array is an object (kept
  as it is here: no byte array is ever serialised).
\<close>

fun json_clean :: "jsval \<Rightarrow> jsval" where
  "json_clean (JNum n) = (if num_finite n then JNum n else JNull)"
| "json_clean (JArr vs) = JArr (map (\<lambda>v. if v = JUndefined then JNull else json_clean v) vs)"
| "json_clean (JObj ps) =
     JObj (map (\<lambda>(k, v). (k, json_clean v)) (filter (\<lambda>(k, v). v \<noteq> JUndefined) ps))"
| "json_clean v = v"

section \<open>Character classes, trimming, bounded strings\<close>

definition char_code :: "char \<Rightarrow> nat" where
  "char_code c = of_char c"

definition is_alnum :: "char \<Rightarrow> bool" where
  "is_alnum c \<longleftrightarrow> (let n = char_code c in
     (48 \<le> n \<and> n \<le> 57) \<or> (65 \<le> n \<and> n \<le> 90) \<or> (97 \<le> n \<and> n \<le> 122))"

text \<open>\<open>[A-Za-z0-9_-]\<close>, the alphabet of base64url and of the client bindings.\<close>

definition is_url_char :: "char \<Rightarrow> bool" where
  "is_url_char c \<longleftrightarrow> is_alnum c \<or> c = CHR ''_'' \<or> c = CHR ''-''"

text \<open>\<open>[A-Za-z0-9._:-]\<close>, the alphabet of opaque session ids.\<close>

definition is_session_char :: "char \<Rightarrow> bool" where
  "is_session_char c \<longleftrightarrow>
     is_alnum c \<or> c = CHR ''.'' \<or> c = CHR ''_'' \<or> c = CHR '':'' \<or> c = CHR ''-''"

text \<open>\<open>[a-f0-9]\<close>.\<close>

definition is_lower_hex :: "char \<Rightarrow> bool" where
  "is_lower_hex c \<longleftrightarrow> (let n = char_code c in (48 \<le> n \<and> n \<le> 57) \<or> (97 \<le> n \<and> n \<le> 102))"

definition nul :: char where
  "nul = CHR 0x00"

definition is_line_break :: "char \<Rightarrow> bool" where
  "is_line_break c \<longleftrightarrow> char_code c = 10 \<or> char_code c = 13"

text \<open>\<open>/[\0\r\n]/.test(value)\<close> holds when some character is one of the three.\<close>

definition has_control :: "string \<Rightarrow> bool" where
  "has_control s \<longleftrightarrow> list_ex (\<lambda>c. c = nul \<or> is_line_break c) s"

definition bounded_text :: "nat \<Rightarrow> nat \<Rightarrow> string \<Rightarrow> bool" where
  "bounded_text lo hi s \<longleftrightarrow> lo \<le> length s \<and> length s \<le> hi \<and> \<not> has_control s"

text \<open>The \<open>boundedString\<close> guard that the core modules repeat.\<close>

fun bounded_string :: "jsval \<Rightarrow> nat \<Rightarrow> nat \<Rightarrow> bool" where
  "bounded_string (JStr s) lo hi = bounded_text lo hi s"
| "bounded_string _ lo hi = False"

lemma bounded_stringD:
  "bounded_string v lo hi \<Longrightarrow> v = JStr (str_of_val v) \<and> bounded_text lo hi (str_of_val v)"
  by (cases v) auto

text \<open>The facts that evaluate these classes on literals.\<close>

lemmas text_eval = bounded_text_def has_control_def is_line_break_def nul_def char_code_def

text \<open>The white space \<open>String.prototype.trim\<close> removes, in the Latin-1 range.\<close>

definition is_space :: "char \<Rightarrow> bool" where
  "is_space c \<longleftrightarrow> char_code c \<in> {9, 10, 11, 12, 13, 32, 160}"

definition trim :: "string \<Rightarrow> string" where
  "trim s = rev (dropWhile is_space (rev (dropWhile is_space s)))"

lemma dropWhile_idem_rev:
  assumes "dropWhile P xs = xs"
  shows "dropWhile P (rev (dropWhile P (rev xs))) = rev (dropWhile P (rev xs))"
proof (cases xs)
  case Nil
  then show ?thesis by simp
next
  case (Cons x ys)
  with assms have x: "\<not> P x" by (auto split: if_splits dest: arg_cong [where f = length] intro: ccontr)
      (metis dropWhile.simps(2) dropWhile_eq_self_iff list.sel(1) list.discI)
  have "rev (dropWhile P (rev ys @ [x])) = x # rev (dropWhile P (rev ys))"
    using x by (induction "rev ys") (simp_all add: dropWhile_append)
  with Cons x show ?thesis by simp
qed

lemma trim_idem [simp]: "trim (trim s) = trim s"
proof -
  let ?t = "dropWhile is_space s"
  have "dropWhile is_space ?t = ?t" by simp
  then have "dropWhile is_space (trim s) = trim s"
    unfolding trim_def by (rule dropWhile_idem_rev)
  moreover have "rev (trim s) = dropWhile is_space (rev ?t)" by (simp add: trim_def)
  ultimately show ?thesis by (simp add: trim_def)
qed

section \<open>UTF-8 and constant-time comparison\<close>

definition utf8_char :: "char \<Rightarrow> nat list" where
  "utf8_char c = (let n = char_code c in
     if n < 128 then [n] else [192 + n div 64, 128 + n mod 64])"

definition utf8 :: "string \<Rightarrow> nat list" where
  "utf8 s = concat (map utf8_char s)"

definition utf8_length :: "string \<Rightarrow> nat" where
  "utf8_length s = length (utf8 s)"

text \<open>
  The \<open>same\<close> helper of the source: both strings as UTF-8 buffers, equal lengths and then
  \<open>timingSafeEqual\<close>.
\<close>

definition same_bytes :: "string \<Rightarrow> string \<Rightarrow> bool" where
  "same_bytes l r \<longleftrightarrow> length (utf8 l) = length (utf8 r) \<and> utf8 l = utf8 r"

lemma char_code_inj [simp]: "char_code c = char_code d \<longleftrightarrow> c = d"
  by (simp add: char_code_def)

lemma char_code_less: "char_code c < 256"
  by (simp add: char_code_def of_char_eq_iff)

lemma utf8_char_append_cancel:
  "utf8_char c @ xs = utf8_char d @ ys \<longleftrightarrow> c = d \<and> xs = ys"
proof
  assume eq: "utf8_char c @ xs = utf8_char d @ ys"
  have "char_code c = char_code d"
  proof (cases "char_code c < 128")
    case True
    with eq show ?thesis by (auto simp: utf8_char_def Let_def split: if_splits)
  next
    case False
    with eq have d: "\<not> char_code d < 128"
      and "char_code c div 64 = char_code d div 64" "char_code c mod 64 = char_code d mod 64"
      by (auto simp: utf8_char_def Let_def split: if_splits)
    then show ?thesis by (metis div_mult_mod_eq)
  qed
  with eq show "c = d \<and> xs = ys" by auto
qed auto

lemma utf8_inj: "utf8 l = utf8 r \<longleftrightarrow> l = r"
proof (induction l arbitrary: r)
  case Nil
  then show ?case by (cases r) (auto simp: utf8_def utf8_char_def Let_def)
next
  case (Cons c l)
  then show ?case
    by (cases r)
      (auto simp: utf8_def utf8_char_append_cancel, simp add: utf8_char_def Let_def split: if_splits)
qed

lemma same_bytes_iff [simp]: "same_bytes l r \<longleftrightarrow> l = r"
  by (auto simp: same_bytes_def utf8_inj)

end
