(* ===== verification/Fencing.thy ===== *)
theory Fencing
  imports Handoff_Prelude
begin

text \<open>
  The contract every generation-fenced component of the program keeps: a state with a generation
  (resource epoch, worker generation, viewer generation, transport generation) that no operation
  decreases, and operations that accept a caller only at the current generation. The lemmas are
  proved once here; each component interprets the locale on its own step function.
\<close>

abbreviation run :: "('s \<Rightarrow> 'e \<Rightarrow> 's) \<Rightarrow> 's \<Rightarrow> 'e list \<Rightarrow> 's" where
  "run step \<equiv> foldl step"

section \<open>Machines with an invariant and a generation\<close>

locale guarded_machine =
  fixes step :: "'s \<Rightarrow> 'e \<Rightarrow> 's"
    and good :: "'s \<Rightarrow> bool"
  assumes good_step: "good s \<Longrightarrow> good (step s e)"
begin

lemma good_run: "good s \<Longrightarrow> good (run step s es)"
  by (induction es arbitrary: s) (simp_all add: good_step)

end

locale generation_machine = guarded_machine step good
  for step :: "'s \<Rightarrow> 'e \<Rightarrow> 's" and good :: "'s \<Rightarrow> bool" +
  fixes generation :: "'s \<Rightarrow> int"
  assumes generation_step: "good s \<Longrightarrow> generation s \<le> generation (step s e)"
begin

lemma generation_run: "good s \<Longrightarrow> generation s \<le> generation (run step s es)"
proof (induction es arbitrary: s)
  case Nil
  then show ?case by simp
next
  case (Cons e es)
  then have "generation s \<le> generation (step s e)" by (simp add: generation_step)
  also have "\<dots> \<le> generation (run step (step s e) es)"
    using Cons by (simp add: good_step)
  finally show ?case by simp
qed

lemma stale_stays_stale: "good s \<Longrightarrow> g < generation s \<Longrightarrow> g < generation (run step s es)"
  using generation_run [of s es] by simp

end

text \<open>Operations that admit a caller by its generation.\<close>

locale fenced_machine = generation_machine step good generation
  for step :: "'s \<Rightarrow> 'e \<Rightarrow> 's" and good :: "'s \<Rightarrow> bool" and generation :: "'s \<Rightarrow> int" +
  fixes admits :: "'s \<Rightarrow> int \<Rightarrow> bool"
  assumes admits_current: "good s \<Longrightarrow> admits s g \<Longrightarrow> g = generation s"
begin

lemma stale_never_admitted:
  assumes "good s" and "g < generation s"
  shows "\<not> admits (run step s es) g"
proof
  assume "admits (run step s es) g"
  with assms(1) have "g = generation (run step s es)"
    by (intro admits_current good_run)
  with stale_stays_stale [OF assms, of es] show False by simp
qed

lemma admitted_unique: "good s \<Longrightarrow> admits s g \<Longrightarrow> admits s h \<Longrightarrow> g = h"
  using admits_current by metis

end

end
