(* ===== verification/Lifecycle.thy ===== *)
theory Lifecycle
  imports Fencing "HOL-Library.Sublist"
begin

text \<open>
  \<open>src/core/lifecycle.ts\<close>: the Agent/Human authority machine \<open>ExecutionHandoffState\<close>. The
  state is the resource epoch and the one active intervention. The clock \<open>now\<close> and the id
  source \<open>createId\<close> are injected in the code; here a call receives the value they return. The
  epoch is an unbounded integer: the code adds one to a double, exact up to \<open>2 ^ 53\<close>.
\<close>

section \<open>Data\<close>

datatype resume_policy = Replay_safe | Revalidate | Confirm_before_execute | Never_replay

datatype execution_authority = Agent | Human | None_authority

datatype intervention_status = Awaiting_human | Human_active | Verifying | Ready_to_resume

datatype handoff_error =
  INTERVENTION_NOT_FOUND | INTERVENTION_STATE_CHANGED | AGENT_AUTHORITY_SUSPENDED

record ('act, 'rsn) intervention =
  iv_id :: string
  iv_reason :: 'rsn
  iv_status :: intervention_status
  iv_authority :: execution_authority
  iv_epoch :: int
  iv_action :: "'act option"
  iv_policy :: resume_policy
  iv_created :: int
  iv_updated :: int

record 'act resume_decision =
  rd_action :: "'act option"
  rd_policy :: resume_policy
  rd_epoch :: int

record ('act, 'rsn) handoff_state =
  hs_epoch :: int
  hs_active :: "('act, 'rsn) intervention option"

definition initial_handoff :: "('act, 'rsn) handoff_state" where
  "initial_handoff = \<lparr>hs_epoch = 0, hs_active = None\<rparr>"

section \<open>Operations\<close>

definition get_authority :: "('act, 'rsn) handoff_state \<Rightarrow> execution_authority" where
  "get_authority s = (case hs_active s of
       None \<Rightarrow> Agent
     | Some a \<Rightarrow> (if iv_status a = Human_active then Human else None_authority))"

definition advance_epoch :: "('act, 'rsn) handoff_state \<Rightarrow> ('act, 'rsn) handoff_state" where
  "advance_epoch s = s\<lparr>hs_epoch := hs_epoch s + 1\<rparr>"

text \<open>\<open>begin\<close>: an active intervention is returned as it is; otherwise a new one is opened.\<close>

definition begin_intervention ::
  "'rsn \<Rightarrow> 'act option \<Rightarrow> resume_policy \<Rightarrow> string \<Rightarrow> int \<Rightarrow> ('act, 'rsn) handoff_state \<Rightarrow>
   ('act, 'rsn) intervention \<times> ('act, 'rsn) handoff_state" where
  "begin_intervention reason action policy new_id t s =
     (case hs_active s of
        Some a \<Rightarrow> (a, s)
      | None \<Rightarrow>
          (let s1 = advance_epoch s;
               a = \<lparr>iv_id = new_id, iv_reason = reason, iv_status = Awaiting_human,
                    iv_authority = None_authority, iv_epoch = hs_epoch s1, iv_action = action,
                    iv_policy = policy, iv_created = t, iv_updated = t\<rparr>
           in (a, s1\<lparr>hs_active := Some a\<rparr>)))"

definition require_active ::
  "string \<Rightarrow> ('act, 'rsn) handoff_state \<Rightarrow> handoff_error + ('act, 'rsn) intervention" where
  "require_active i s = (case hs_active s of
       None \<Rightarrow> Inl INTERVENTION_NOT_FOUND
     | Some a \<Rightarrow> (if iv_id a = i then Inr a else Inl INTERVENTION_NOT_FOUND))"

definition claim_human ::
  "string \<Rightarrow> int \<Rightarrow> ('act, 'rsn) handoff_state \<Rightarrow>
   (handoff_error + ('act, 'rsn) intervention) \<times> ('act, 'rsn) handoff_state" where
  "claim_human i t s = (case require_active i s of
       Inl e \<Rightarrow> (Inl e, s)
     | Inr a \<Rightarrow>
         if iv_status a = Human_active then (Inr a, s)
         else if iv_status a \<noteq> Awaiting_human \<and> iv_status a \<noteq> Verifying
         then (Inl INTERVENTION_STATE_CHANGED, s)
         else (let b = a\<lparr>iv_status := Human_active, iv_authority := Human, iv_updated := t\<rparr>
               in (Inr b, s\<lparr>hs_active := Some b\<rparr>)))"

definition mark_human_complete ::
  "string \<Rightarrow> int \<Rightarrow> ('act, 'rsn) handoff_state \<Rightarrow>
   (handoff_error + ('act, 'rsn) intervention) \<times> ('act, 'rsn) handoff_state" where
  "mark_human_complete i t s = (case require_active i s of
       Inl e \<Rightarrow> (Inl e, s)
     | Inr a \<Rightarrow>
         if iv_status a \<noteq> Human_active then (Inl INTERVENTION_STATE_CHANGED, s)
         else (let s1 = advance_epoch s;
                   b = a\<lparr>iv_status := Verifying, iv_authority := None_authority,
                         iv_epoch := hs_epoch s1, iv_updated := t\<rparr>
               in (Inr b, s1\<lparr>hs_active := Some b\<rparr>)))"

definition return_to_human ::
  "string \<Rightarrow> int \<Rightarrow> ('act, 'rsn) handoff_state \<Rightarrow>
   (handoff_error + ('act, 'rsn) intervention) \<times> ('act, 'rsn) handoff_state" where
  "return_to_human i t s = (case require_active i s of
       Inl e \<Rightarrow> (Inl e, s)
     | Inr a \<Rightarrow>
         if iv_status a \<noteq> Verifying then (Inl INTERVENTION_STATE_CHANGED, s)
         else (let b = a\<lparr>iv_status := Human_active, iv_authority := Human, iv_updated := t\<rparr>
               in (Inr b, s\<lparr>hs_active := Some b\<rparr>)))"

definition mark_verified ::
  "string \<Rightarrow> int \<Rightarrow> ('act, 'rsn) handoff_state \<Rightarrow>
   (handoff_error + ('act, 'rsn) intervention) \<times> ('act, 'rsn) handoff_state" where
  "mark_verified i t s = (case require_active i s of
       Inl e \<Rightarrow> (Inl e, s)
     | Inr a \<Rightarrow>
         if iv_status a \<noteq> Verifying then (Inl INTERVENTION_STATE_CHANGED, s)
         else (let b = a\<lparr>iv_status := Ready_to_resume, iv_updated := t\<rparr>
               in (Inr b, s\<lparr>hs_active := Some b\<rparr>)))"

definition resume_agent ::
  "string \<Rightarrow> ('act, 'rsn) handoff_state \<Rightarrow>
   (handoff_error + 'act resume_decision) \<times> ('act, 'rsn) handoff_state" where
  "resume_agent i s = (case require_active i s of
       Inl e \<Rightarrow> (Inl e, s)
     | Inr a \<Rightarrow>
         if iv_status a \<noteq> Ready_to_resume then (Inl INTERVENTION_STATE_CHANGED, s)
         else (Inr \<lparr>rd_action = iv_action a, rd_policy = iv_policy a, rd_epoch = iv_epoch a\<rparr>,
               s\<lparr>hs_active := None\<rparr>))"

definition cancel_intervention ::
  "string \<Rightarrow> ('act, 'rsn) handoff_state \<Rightarrow>
   (handoff_error + unit) \<times> ('act, 'rsn) handoff_state" where
  "cancel_intervention i s = (case require_active i s of
       Inl e \<Rightarrow> (Inl e, s)
     | Inr a \<Rightarrow> (Inr (), advance_epoch (s\<lparr>hs_active := None\<rparr>)))"

definition assert_agent_authority :: "('act, 'rsn) handoff_state \<Rightarrow> handoff_error + unit" where
  "assert_agent_authority s = (case hs_active s of
       None \<Rightarrow> Inr () | Some a \<Rightarrow> Inl AGENT_AUTHORITY_SUSPENDED)"

lemmas lifecycle_ops =
  begin_intervention_def claim_human_def mark_human_complete_def return_to_human_def
  mark_verified_def resume_agent_def cancel_intervention_def require_active_def
  advance_epoch_def get_authority_def assert_agent_authority_def

declare lifecycle_ops [op_defs]

section \<open>Runs\<close>

text \<open>A call of the public interface, with the values the clock and the id source return to it.\<close>

datatype ('act, 'rsn) lc_call =
    Begin 'rsn "'act option" resume_policy string int
  | Claim string int
  | Complete string int
  | Return string int
  | Verified string int
  | Resume string
  | Cancel string
  | Advance

fun lc_step :: "('act, 'rsn) handoff_state \<Rightarrow> ('act, 'rsn) lc_call \<Rightarrow> ('act, 'rsn) handoff_state"
where
  "lc_step s (Begin r a p i t) = snd (begin_intervention r a p i t s)"
| "lc_step s (Claim i t) = snd (claim_human i t s)"
| "lc_step s (Complete i t) = snd (mark_human_complete i t s)"
| "lc_step s (Return i t) = snd (return_to_human i t s)"
| "lc_step s (Verified i t) = snd (mark_verified i t s)"
| "lc_step s (Resume i) = snd (resume_agent i s)"
| "lc_step s (Cancel i) = snd (cancel_intervention i s)"
| "lc_step s Advance = advance_epoch s"

text \<open>The invariant: the stored authority agrees with the status, and no intervention is ahead
  of the resource epoch.\<close>

definition lc_good :: "('act, 'rsn) handoff_state \<Rightarrow> bool" where
  "lc_good s \<longleftrightarrow> 0 \<le> hs_epoch s \<and> (case hs_active s of
       None \<Rightarrow> True
     | Some a \<Rightarrow> iv_authority a = (if iv_status a = Human_active then Human else None_authority)
         \<and> 0 < iv_epoch a \<and> iv_epoch a \<le> hs_epoch s)"

lemma lc_good_initial [wf_intros, simp]: "lc_good initial_handoff"
  by (simp add: lc_good_def initial_handoff_def)

lemma lc_good_step [wf_intros]: "lc_good s \<Longrightarrow> lc_good (lc_step s c)"
  by (cases c) (auto simp: lc_good_def lifecycle_ops Let_def split: option.splits)

lemma lc_epoch_step: "hs_epoch s \<le> hs_epoch (lc_step s c)"
  by (cases c) (auto simp: lifecycle_ops Let_def split: option.splits)


interpretation lc: generation_machine lc_step lc_good hs_epoch
  by unfold_locales (auto intro: lc_good_step lc_epoch_step)

text \<open>
  What each call did, in order: the successful claims, completions, verifications, resumes and
  cancellations of a run.
\<close>

datatype lc_effect = E_claim | E_complete | E_return | E_verified | E_resume | E_cancel

fun call_effect :: "('act, 'rsn) handoff_state \<Rightarrow> ('act, 'rsn) lc_call \<Rightarrow> lc_effect list" where
  "call_effect s (Claim i t) = (if is_ok (fst (claim_human i t s)) then [E_claim] else [])"
| "call_effect s (Complete i t) =
     (if is_ok (fst (mark_human_complete i t s)) then [E_complete] else [])"
| "call_effect s (Return i t) = (if is_ok (fst (return_to_human i t s)) then [E_return] else [])"
| "call_effect s (Verified i t) = (if is_ok (fst (mark_verified i t s)) then [E_verified] else [])"
| "call_effect s (Resume i) = (if is_ok (fst (resume_agent i s)) then [E_resume] else [])"
| "call_effect s (Cancel i) = (if is_ok (fst (cancel_intervention i s)) then [E_cancel] else [])"
| "call_effect s _ = []"

fun effects :: "('act, 'rsn) handoff_state \<Rightarrow> ('act, 'rsn) lc_call list \<Rightarrow> lc_effect list" where
  "effects s [] = []"
| "effects s (c # cs) = call_effect s c @ effects (lc_step s c) cs"

text \<open>What still has to happen, from a status, before the agent may run again.\<close>

fun required_effects :: "intervention_status \<Rightarrow> lc_effect list" where
  "required_effects Awaiting_human = [E_claim, E_complete, E_verified, E_resume]"
| "required_effects Human_active = [E_complete, E_verified, E_resume]"
| "required_effects Verifying = [E_verified, E_resume]"
| "required_effects Ready_to_resume = [E_resume]"

lemma step_required:
  assumes "hs_active s = Some a" and "E_cancel \<notin> set (call_effect s c)"
  shows "case hs_active (lc_step s c) of
      None \<Rightarrow> call_effect s c = [E_resume] \<and> iv_status a = Ready_to_resume
    | Some b \<Rightarrow> subseq (required_effects (iv_status a))
        (call_effect s c @ required_effects (iv_status b))"
  using assms
  by (cases c; cases "iv_status a")
    (auto simp: lifecycle_ops Let_def)

lemma no_shortcut_to_agent:
  assumes "hs_active s = Some a" and "hs_active (run lc_step s cs) = None"
    and "E_cancel \<notin> set (effects s cs)"
  shows "subseq (required_effects (iv_status a)) (effects s cs)"
  using assms
proof (induction cs arbitrary: s a)
  case Nil
  then show ?case by simp
next
  case (Cons c cs)
  note step = step_required [OF Cons.prems(1), of c]
  show ?case
  proof (cases "hs_active (lc_step s c)")
    case None
    with step Cons.prems(3) show ?thesis by auto
  next
    case (Some b)
    with Cons have "subseq (required_effects (iv_status b)) (effects (lc_step s c) cs)" by simp
    then have "subseq (call_effect s c @ required_effects (iv_status b)) (effects s (c # cs))"
      by (simp add: list_emb_append_mono)
    with step Some Cons.prems(3) show ?thesis by (auto intro: subseq_order.order_trans)
  qed
qed

text \<open>
  What an intervention was opened with stays with it, and its epoch is past the opening one
  once a human period has ended.
\<close>

definition opened_with ::
  "string \<Rightarrow> 'rsn \<Rightarrow> 'act option \<Rightarrow> resume_policy \<Rightarrow> int \<Rightarrow> ('act, 'rsn) handoff_state \<Rightarrow> bool" where
  "opened_with i r act p e s \<longleftrightarrow> e \<le> hs_epoch s \<and> (case hs_active s of
       None \<Rightarrow> False
     | Some a \<Rightarrow> iv_id a = i \<and> iv_reason a = r \<and> iv_action a = act \<and> iv_policy a = p
         \<and> e \<le> iv_epoch a
         \<and> (iv_status a = Verifying \<or> iv_status a = Ready_to_resume \<longrightarrow> e < iv_epoch a))"

lemma opened_with_begin:
  "hs_active s = None \<Longrightarrow> opened_with i r act p (hs_epoch s + 1) (lc_step s (Begin r act p i t))"
  by (simp add: opened_with_def lifecycle_ops Let_def)

lemma opened_with_step:
  assumes "opened_with i r act p e s"
    and "E_resume \<notin> set (call_effect s c)" and "E_cancel \<notin> set (call_effect s c)"
  shows "opened_with i r act p e (lc_step s c)"
  using assms
  by (cases c)
    (auto simp: opened_with_def lifecycle_ops Let_def split: option.splits if_splits)

lemma opened_with_run:
  assumes "opened_with i r act p e s"
    and "E_resume \<notin> set (effects s cs)" and "E_cancel \<notin> set (effects s cs)"
  shows "opened_with i r act p e (run lc_step s cs)"
  using assms by (induction cs arbitrary: s) (auto intro: opened_with_step)

lemma resume_agentD:
  assumes "fst (resume_agent j s) = Inr d"
  obtains a where "hs_active s = Some a" and "iv_id a = j" and "iv_status a = Ready_to_resume"
    and "d = \<lparr>rd_action = iv_action a, rd_policy = iv_policy a, rd_epoch = iv_epoch a\<rparr>"
  using assms by (auto simp: lifecycle_ops split: option.splits if_splits)

lemma resume_returns_opening:
  assumes "opened_with i r act p e s" and "fst (resume_agent j s) = Inr d"
  shows "j = i \<and> rd_action d = act \<and> rd_policy d = p \<and> e < rd_epoch d"
  using assms by (auto elim!: resume_agentD simp: opened_with_def)

lemma agent_iff_assert: "get_authority s = Agent \<longleftrightarrow> is_ok (assert_agent_authority s)"
  by (auto simp: lifecycle_ops split: option.splits)

lemma agent_iff_no_active: "get_authority s = Agent \<longleftrightarrow> hs_active s = None"
  by (auto simp: lifecycle_ops split: option.splits)

text \<open>The exact effect of each successful operation on the epoch.\<close>

lemma completion_advances_epoch:
  "fst (mark_human_complete i t s) = Inr b \<Longrightarrow>
     hs_epoch (snd (mark_human_complete i t s)) = hs_epoch s + 1 \<and> iv_epoch b = hs_epoch s + 1
     \<and> get_authority (snd (mark_human_complete i t s)) = None_authority"
  by (auto simp: lifecycle_ops Let_def split: option.splits if_splits)

lemma cancel_advances_epoch:
  "fst (cancel_intervention i s) = Inr () \<Longrightarrow>
     hs_epoch (snd (cancel_intervention i s)) = hs_epoch s + 1
     \<and> get_authority (snd (cancel_intervention i s)) = Agent"
  by (auto simp: lifecycle_ops split: option.splits if_splits)

lemma require_active_ok_iff:
  "require_active i s = Inr a \<longleftrightarrow> hs_active s = Some a \<and> iv_id a = i"
  by (auto simp: require_active_def split: option.splits)

text \<open>A failed call changes nothing.\<close>

lemma failed_call_inert:
  assumes "isl (fst (claim_human i t s))"
  shows "snd (claim_human i t s) = s"
  using assms by (auto simp: lifecycle_ops Let_def split: option.splits if_splits)

section \<open>Properties\<close>

text \<open>C1. The agent gets control back in order only. After an intervention is opened on an idle
  state, whatever calls follow and in whatever order, if no cancellation succeeded and no
  intervention is active any more, then a claim by the human, a completion, a verification and a
  resume succeeded, in this order; until then the agent's authority check fails.\<close>

theorem control_returns_in_order:
  assumes "hs_active s = None"
    and "s' = run lc_step (lc_step s (Begin r act p i t)) cs"
    and "E_cancel \<notin> set (effects (lc_step s (Begin r act p i t)) cs)"
  shows "if is_ok (assert_agent_authority s')
    then subseq [E_claim, E_complete, E_verified, E_resume]
           (effects (lc_step s (Begin r act p i t)) cs)
    else get_authority s' \<noteq> Agent"
proof -
  have begun: "\<exists>a. hs_active (lc_step s (Begin r act p i t)) = Some a \<and> iv_status a = Awaiting_human"
    using assms(1) by (simp add: lifecycle_ops Let_def)
  have "is_ok (assert_agent_authority s') \<longleftrightarrow> hs_active s' = None"
    by (simp add: agent_iff_assert [symmetric] agent_iff_no_active)
  then show ?thesis
    using begun no_shortcut_to_agent assms(2,3) by (fastforce simp: agent_iff_no_active)
qed

text \<open>A full intervention, as the host drives it.\<close>

definition sample_calls :: "(string, string) lc_call list" where
  "sample_calls = [Claim ''i1'' 2, Resume ''i1'', Complete ''i1'' 3, Return ''i1'' 4, Complete ''i1'' 5,
     Verified ''i1'' 6, Resume ''i1'']"

definition sample_opened :: "(string, string) handoff_state" where
  "sample_opened =
     lc_step initial_handoff (Begin ''captcha'' (Some ''submit'') Revalidate ''i1'' 1)"

lemma sample_run:
  "effects sample_opened sample_calls =
     [E_claim, E_complete, E_return, E_complete, E_verified, E_resume]"
  "hs_active (run lc_step sample_opened sample_calls) = None"
  "effects sample_opened (butlast sample_calls) =
     [E_claim, E_complete, E_return, E_complete, E_verified]"
  by (simp_all add: sample_opened_def sample_calls_def initial_handoff_def lifecycle_ops Let_def)

theorem control_returns_in_order_witness:
  "subseq [E_claim, E_complete, E_verified, E_resume] (effects sample_opened sample_calls)"
proof -
  have "is_ok (assert_agent_authority (run lc_step sample_opened sample_calls))"
    using sample_run(2) by (simp add: assert_agent_authority_def)
  then show ?thesis
    using control_returns_in_order [of initial_handoff _ "''captcha''" "Some ''submit''" Revalidate
        "''i1''" 1 sample_calls, OF _ refl] sample_run(1)
    by (simp add: initial_handoff_def sample_opened_def del: lc_step.simps)
qed

text \<open>A resume returns what the intervention was opened with: the pending action and the resume
  policy given to \<open>begin\<close>, for the id it was opened under, whatever successful or failing calls came
  between, and with an epoch past the one the intervention was opened at. A work item recorded at
  the opening epoch is therefore never taken for current.\<close>

theorem resume_returns_what_was_opened:
  assumes "hs_active s = None"
    and "s' = run lc_step (lc_step s (Begin r act p i t)) cs"
    and "E_resume \<notin> set (effects (lc_step s (Begin r act p i t)) cs)"
    and "E_cancel \<notin> set (effects (lc_step s (Begin r act p i t)) cs)"
    and "fst (resume_agent j s') = Inr d"
  shows "j = i \<and> rd_action d = act \<and> rd_policy d = p \<and> hs_epoch s + 1 < rd_epoch d"
proof -
  have "opened_with i r act p (hs_epoch s + 1) s'"
    using opened_with_run [OF opened_with_begin [OF assms(1)] assms(3,4)] assms(2) by blast
  then show ?thesis using assms(5) by (rule resume_returns_opening)
qed

theorem resume_returns_what_was_opened_witness:
  "fst (resume_agent ''i1'' (run lc_step sample_opened (butlast sample_calls))) =
     Inr \<lparr>rd_action = Some ''submit'', rd_policy = Revalidate, rd_epoch = 3\<rparr>
   \<and> hs_epoch initial_handoff + 1 < (3 :: int)"
proof -
  have "fst (resume_agent ''i1'' (run lc_step sample_opened (butlast sample_calls))) =
      Inr \<lparr>rd_action = Some ''submit'', rd_policy = Revalidate, rd_epoch = 3\<rparr>" (is ?resumed)
    by (simp add: sample_opened_def sample_calls_def initial_handoff_def lifecycle_ops Let_def)
  moreover have "hs_epoch (initial_handoff :: (string, string) handoff_state) + 1 < 3"
    using resume_returns_what_was_opened [of initial_handoff _ "''captcha''" "Some ''submit''"
        Revalidate "''i1''" 1 "butlast sample_calls", OF _ refl, folded sample_opened_def]
      \<open>?resumed\<close> sample_run(3)
    by (fastforce simp: initial_handoff_def)
  ultimately show ?thesis by (simp add: initial_handoff_def)
qed

text \<open>A completion or a cancellation makes every earlier epoch past: the resource epoch after it,
  and after any calls that follow, is greater than the epoch before it, so nothing observed during the
  human period has the current epoch afterwards.\<close>

theorem completed_epoch_is_past:
  assumes "s = run lc_step initial_handoff cs"
    and "s' = snd (mark_human_complete i t s) \<and> is_ok (fst (mark_human_complete i t s))
      \<or> s' = snd (cancel_intervention i s) \<and> is_ok (fst (cancel_intervention i s))"
  shows "hs_epoch s < hs_epoch (run lc_step s' ds)
    \<and> (case hs_active s of None \<Rightarrow> False | Some a \<Rightarrow> iv_epoch a < hs_epoch (run lc_step s' ds))"
proof -
  have good: "lc_good s" using assms(1) lc.good_run [OF lc_good_initial] by blast
  have step: "s' = lc_step s (Complete i t) \<or> s' = lc_step s (Cancel i)" and "hs_epoch s' = hs_epoch s + 1"
    and "hs_active s \<noteq> None"
    using assms(2) by (auto simp: lifecycle_ops Let_def split: option.splits if_splits)
  moreover have "lc_good s'" using step good by (auto intro: lc_good_step simp del: lc_step.simps)
  ultimately show ?thesis
    using lc.generation_run [of s' ds] good by (auto simp: lc_good_def split: option.splits)
qed

theorem completed_epoch_is_past_witness:
  "hs_epoch (run lc_step initial_handoff
       [Begin ''captcha'' (Some ''submit'') Revalidate ''i1'' 1, Claim ''i1'' (2 :: int)])
     < hs_epoch (lc_step (run lc_step initial_handoff
         [Begin ''captcha'' (Some ''submit'') Revalidate ''i1'' 1, Claim ''i1'' 2]) (Complete ''i1'' 3))"
  using completed_epoch_is_past [OF refl, of
      "lc_step (run lc_step initial_handoff
         [Begin ''captcha'' (Some ''submit'') Revalidate ''i1'' 1, Claim ''i1'' 2]) (Complete ''i1'' 3)"
      "''i1''" 3 "[Begin ''captcha'' (Some ''submit'') Revalidate ''i1'' 1, Claim ''i1'' 2]" "[]"]
  by (simp add: initial_handoff_def lifecycle_ops Let_def)

end
