(* ===== verification/Ownership.thy ===== *)
theory Ownership
  imports Lifecycle "HOL-Library.List_Lexorder" "HOL-Library.Char_ord"
begin

text \<open>
  Who may act on an intervention: \<open>src/core/invocation.ts\<close> (canonical JSON and the invocation
  digest), \<open>src/core/owner.ts\<close> (the owner table), \<open>src/core/adapter.ts\<close> and
  \<open>src/mcp/mrtr.ts\<close> (the request state handed to the MCP client).

  SHA-256 and the text of a number are parameters: \<open>sha\<close> maps the hashed text to its hex
  digest, \<open>nt\<close> is what \<open>JSON.stringify\<close> prints for a number.
\<close>

section \<open>Canonical JSON\<close>

fun join_with :: "string \<Rightarrow> string list \<Rightarrow> string" where
  "join_with sep [] = []"
| "join_with sep [x] = x"
| "join_with sep (x # xs) = x @ sep @ join_with sep xs"

fun hex_digit :: "nat \<Rightarrow> char" where
  "hex_digit n = char_of (if n < 10 then 48 + n else 87 + n)"

text \<open>The escapes of \<open>JSON.stringify\<close> on one code unit.\<close>

definition json_escape :: "char \<Rightarrow> string" where
  "json_escape c = (let n = char_code c in
     if c = CHR 0x22 then [CHR 0x5C, CHR 0x22]
     else if c = CHR 0x5C then [CHR 0x5C, CHR 0x5C]
     else if n = 8 then [CHR 0x5C, CHR ''b'']
     else if n = 9 then [CHR 0x5C, CHR ''t'']
     else if n = 10 then [CHR 0x5C, CHR ''n'']
     else if n = 12 then [CHR 0x5C, CHR ''f'']
     else if n = 13 then [CHR 0x5C, CHR ''r'']
     else if n < 32 then [CHR 0x5C, CHR ''u'', CHR ''0'', CHR ''0'', hex_digit (n div 16), hex_digit (n mod 16)]
     else [c])"

definition json_quote :: "string \<Rightarrow> string" where
  "json_quote s = [CHR 0x22] @ concat (map json_escape s) @ [CHR 0x22]"

fun nat_text :: "nat \<Rightarrow> string" where
  "nat_text n = (if n < 10 then [char_of (48 + n)] else nat_text (n div 10) @ [char_of (48 + n mod 10)])"

declare nat_text.simps [simp del]

text \<open>A template literal prints an undefined text as \<open>undefined\<close>; \<open>join\<close> prints it as nothing.\<close>

fun template_text :: "string option \<Rightarrow> string" where
  "template_text None = ''undefined''"
| "template_text (Some t) = t"

fun join_text :: "string option \<Rightarrow> string" where
  "join_text None = []"
| "join_text (Some t) = t"

definition object_text :: "(string \<times> string option) list \<Rightarrow> string" where
  "object_text ts = ''{'' @ join_with '',''
     (map (\<lambda>k. json_quote k @ '':'' @ template_text (case map_of ts k of None \<Rightarrow> None | Some t \<Rightarrow> t))
       (sort (remdups (map fst ts)))) @ ''}''"

text \<open>\<open>canonicalJson\<close>; \<open>None\<close> is the value undefined that \<open>JSON.stringify(undefined)\<close> returns. A
  byte array is an object with its indices as keys.\<close>

fun canonical_json :: "(jsnum \<Rightarrow> string) \<Rightarrow> jsval \<Rightarrow> string option" where
  "canonical_json nt JUndefined = None"
| "canonical_json nt JNull = Some ''null''"
| "canonical_json nt (JBool b) = Some (if b then ''true'' else ''false'')"
| "canonical_json nt (JNum n) = Some (if num_finite n then nt n else ''null'')"
| "canonical_json nt (JStr s) = Some (json_quote s)"
| "canonical_json nt (JArr vs) =
     Some (''['' @ join_with '','' (map (\<lambda>v. join_text (canonical_json nt v)) vs) @ '']'')"
| "canonical_json nt (JBytes bs) =
     Some (object_text (map (\<lambda>(i, b). (nat_text i, Some (nt (num_of_int (int b))))) (enumerate 0 bs)))"
| "canonical_json nt (JObj ps) =
     Some (object_text (map (\<lambda>(k, v). (k, canonical_json nt v)) ps))"

text \<open>\<open>digestToolInvocation\<close>: hashing undefined throws (\<open>None\<close>).\<close>

definition digest_tool_invocation ::
  "(string \<Rightarrow> string) \<Rightarrow> (jsnum \<Rightarrow> string) \<Rightarrow> string \<Rightarrow> jsval \<Rightarrow> string option" where
  "digest_tool_invocation sha nt tool args =
     map_option (\<lambda>t. sha (tool @ [nul] @ t)) (canonical_json nt args)"

text \<open>The text a digest is taken of.\<close>

definition hashed_text :: "(jsnum \<Rightarrow> string) \<Rightarrow> string \<Rightarrow> jsval \<Rightarrow> string option" where
  "hashed_text nt tool args = map_option (\<lambda>t. tool @ [nul] @ t) (canonical_json nt args)"

text \<open>The hash has no collision between two invocations.\<close>

definition separated_by ::
  "(string \<Rightarrow> string) \<Rightarrow> (jsnum \<Rightarrow> string) \<Rightarrow> string \<times> jsval \<Rightarrow> string \<times> jsval \<Rightarrow> bool" where
  "separated_by sha nt a b \<longleftrightarrow>
     map_option sha (hashed_text nt (fst a) (snd a)) \<noteq> map_option sha (hashed_text nt (fst b) (snd b))
     \<or> hashed_text nt (fst a) (snd a) = hashed_text nt (fst b) (snd b)"

section \<open>Canonical text and the NUL separator\<close>

definition nul_free :: "string \<Rightarrow> bool" where
  "nul_free s \<longleftrightarrow> list_all (\<lambda>c. char_code c \<noteq> 0) s"

lemma nul_free_simps [simp]:
  "nul_free []"
  "nul_free (c # s) \<longleftrightarrow> char_code c \<noteq> 0 \<and> nul_free s"
  "nul_free (s @ t) \<longleftrightarrow> nul_free s \<and> nul_free t"
  "nul_free (concat ss) \<longleftrightarrow> (\<forall>s \<in> set ss. nul_free s)"
  by (auto simp: nul_free_def list_all_iff)

lemma char_code_char_of [simp]: "char_code (char_of n) = n mod 256"
  by (simp add: char_code_def of_char_of)

lemma nul_free_iff: "nul_free s \<longleftrightarrow> nul \<notin> set s"
proof -
  have "char_code c = 0 \<longleftrightarrow> c = nul" for c
  proof -
    have "char_code nul = 0" by (simp add: char_code_def nul_def)
    then show ?thesis by (metis char_code_inj)
  qed
  then show ?thesis by (induction s) (auto simp: nul_free_def)
qed

lemma nul_free_join: "nul_free (join_with sep xs)" if "nul_free sep" "\<forall>x \<in> set xs. nul_free x"
  using that by (induction sep xs rule: join_with.induct) auto

lemma hex_digit_code: "n < 16 \<Longrightarrow> char_code (hex_digit n) \<noteq> 0"
  by simp

lemma nul_free_escape: "nul_free (json_escape c)"
proof -
  have "char_code c div 16 < 16" and "char_code c mod 16 < 16"
    using char_code_less [of c] by simp_all
  note digits = this [THEN hex_digit_code]
  show ?thesis
  proof (cases "char_code c < 32")
    case True
    with digits show ?thesis
      by (simp add: json_escape_def Let_def del: hex_digit.simps) (simp add: char_code_def)
  next
    case False
    then show ?thesis by (simp add: json_escape_def Let_def) (simp add: char_code_def)
  qed
qed

lemma nul_free_quote: "nul_free (json_quote s)"
  using nul_free_escape by (simp add: json_quote_def) (simp add: char_code_def)

lemma nul_free_template: "(\<And>t. r = Some t \<Longrightarrow> nul_free t) \<Longrightarrow> nul_free (template_text r)"
  by (cases r) (simp_all add: char_code_def)

lemma nul_free_join_text: "(\<And>t. r = Some t \<Longrightarrow> nul_free t) \<Longrightarrow> nul_free (join_text r)"
  by (cases r) simp_all

lemma nul_free_object_text:
  assumes "\<And>k t. (k, Some t) \<in> set ts \<Longrightarrow> nul_free t"
  shows "nul_free (object_text ts)"
proof -
  let ?val = "\<lambda>k. case map_of ts k of None \<Rightarrow> None | Some t \<Rightarrow> t"
  have "nul_free (template_text (?val k))" for k
  proof (rule nul_free_template)
    fix t assume "?val k = Some t"
    then have "map_of ts k = Some (Some t)" by (auto split: option.splits)
    then show "nul_free t" by (intro assms map_of_SomeD)
  qed
  then have "nul_free (join_with '','' (map (\<lambda>k. json_quote k @ '':'' @ template_text (?val k))
      (sort (remdups (map fst ts)))))"
    by (intro nul_free_join) (simp_all add: nul_free_quote char_code_def)
  then show ?thesis by (simp add: object_text_def char_code_def)
qed

lemma canonical_json_nul_free:
  "\<forall>n. nul_free (nt n) \<Longrightarrow> canonical_json nt v = Some t \<Longrightarrow> nul_free t"
proof (induction nt v arbitrary: t rule: canonical_json.induct)
  case (6 nt vs)
  then have "\<forall>x \<in> set (map (\<lambda>v. join_text (canonical_json nt v)) vs). nul_free x"
    by (auto intro: nul_free_join_text)
  then have "nul_free (join_with '','' (map (\<lambda>v. join_text (canonical_json nt v)) vs))"
    by (intro nul_free_join) (simp_all add: char_code_def)
  with "6.prems" show ?case by (auto simp: char_code_def)
next
  case (7 nt bs)
  then show ?case by (auto intro!: nul_free_object_text)
next
  case (8 nt ps)
  then show ?case by (auto intro!: nul_free_object_text)
qed (auto simp: nul_free_quote char_code_def)

text \<open>The last NUL of the hashed text is the separator, so the text determines both parts.\<close>

lemma split_at_last:
  assumes "xs @ [c] @ ys = xs' @ [c] @ ys'" and "c \<notin> set ys" and "c \<notin> set ys'"
  shows "xs = xs' \<and> ys = ys'"
  using assms
proof (induction xs arbitrary: xs')
  case Nil
  then show ?case by (cases xs') auto
next
  case (Cons x xs)
  then show ?case by (cases xs') auto
qed

lemma digest_separates:
  assumes nt: "\<forall>n. nul_free (nt n)" and sha: "separated_by sha nt (tool, args) (tool', args')"
    and d: "digest_tool_invocation sha nt tool args = Some d"
    and d': "digest_tool_invocation sha nt tool' args' = Some d"
  shows "tool = tool' \<and> canonical_json nt args = canonical_json nt args'"
proof -
  obtain t t' where t: "canonical_json nt args = Some t" "canonical_json nt args' = Some t'"
    and "sha (tool @ [nul] @ t) = sha (tool' @ [nul] @ t')"
    using d d' by (auto simp: digest_tool_invocation_def)
  with sha have "tool @ [nul] @ t = tool' @ [nul] @ t'"
    by (simp add: separated_by_def hashed_text_def)
  moreover have "nul \<notin> set t" "nul \<notin> set t'"
    using canonical_json_nul_free [OF nt] t by (auto simp: nul_free_iff)
  ultimately have "tool = tool' \<and> t = t'" by (rule split_at_last)
  with t show ?thesis by simp
qed

text \<open>The order of an object's properties is not part of its canonical text.\<close>

lemma object_text_cong:
  assumes "map_of ts = map_of us"
  shows "object_text ts = object_text us"
proof -
  have "fst ` set ts = fst ` set us"
    using assms by (metis dom_map_of_conv_image_fst)
  then have "sort (remdups (map fst ts)) = sort (remdups (map fst us))"
    by (metis list.set_map sorted_list_of_set_sort_remdups)
  with assms show ?thesis by (simp add: object_text_def)
qed

lemma map_of_map_values: "map_of (map (\<lambda>(k, v). (k, f v)) ps) = (\<lambda>k. map_option f (map_of ps k))"
  by (induction ps) auto

lemma canonical_object_cong:
  "map_of ps = map_of qs \<Longrightarrow> canonical_json nt (JObj ps) = canonical_json nt (JObj qs)"
  by (auto intro!: object_text_cong simp: map_of_map_values)

section \<open>Owners\<close>

datatype resume_strategy = Retry_original | Require_fresh_semantic_action

record handoff_owner =
  ow_principal :: string
  ow_tool :: string
  ow_digest :: string
  ow_strategy :: resume_strategy

definition create_handoff_owner ::
  "(string \<Rightarrow> string) \<Rightarrow> (jsnum \<Rightarrow> string) \<Rightarrow> string \<Rightarrow> string \<Rightarrow> jsval \<Rightarrow> resume_strategy \<Rightarrow>
   handoff_owner option" where
  "create_handoff_owner sha nt pb tool args strategy =
     map_option (\<lambda>d. \<lparr>ow_principal = pb, ow_tool = tool, ow_digest = d, ow_strategy = strategy\<rparr>)
       (digest_tool_invocation sha nt tool args)"

definition handoff_owner_matches :: "handoff_owner \<Rightarrow> handoff_owner \<Rightarrow> bool" where
  "handoff_owner_matches l r \<longleftrightarrow> ow_principal l = ow_principal r \<and> ow_tool l = ow_tool r
     \<and> ow_digest l = ow_digest r \<and> ow_strategy l = ow_strategy r"

type_synonym owner_table = "string \<rightharpoonup> handoff_owner"

definition claim_handoff_owner ::
  "owner_table \<Rightarrow> string \<Rightarrow> intervention_status \<Rightarrow> handoff_owner \<Rightarrow>
   handoff_owner option \<times> owner_table" where
  "claim_handoff_owner owners i status candidate = (case owners i of
       Some existing \<Rightarrow>
         (if handoff_owner_matches existing candidate then Some existing else None, owners)
     | None \<Rightarrow>
         if status \<noteq> Awaiting_human then (None, owners)
         else (Some candidate, owners(i \<mapsto> candidate)))"

lemma handoff_owner_matches_iff [simp]: "handoff_owner_matches l r \<longleftrightarrow> l = r"
  by (cases l; cases r) (auto simp: handoff_owner_matches_def)

text \<open>A sequence of claims on the table, by any callers.\<close>

fun claim_all :: "owner_table \<Rightarrow> (string \<times> intervention_status \<times> handoff_owner) list \<Rightarrow> owner_table"
where
  "claim_all owners [] = owners"
| "claim_all owners ((i, st, c) # cs) = claim_all (snd (claim_handoff_owner owners i st c)) cs"

lemma claim_keeps_owner:
  "owners i = Some ow \<Longrightarrow> snd (claim_handoff_owner owners j st c) i = Some ow"
  by (auto simp: claim_handoff_owner_def split: option.splits)

lemma claim_all_keeps_owner: "owners i = Some ow \<Longrightarrow> claim_all owners cs i = Some ow"
  by (induction owners cs rule: claim_all.induct) (auto simp: claim_keeps_owner)

lemma claim_result:
  "fst (claim_handoff_owner owners i st c) = Some ow \<longleftrightarrow>
     ow = c \<and> (owners i = Some c \<or> owners i = None \<and> st = Awaiting_human)"
  by (auto simp: claim_handoff_owner_def split: option.splits if_splits)

lemma claim_records:
  "fst (claim_handoff_owner owners i st c) = Some ow \<Longrightarrow>
     snd (claim_handoff_owner owners i st c) i = Some c"
  by (auto simp: claim_handoff_owner_def split: option.splits if_splits)

section \<open>Request state of the MCP bridge\<close>

definition handoff_state_ttl_seconds :: int where
  "handoff_state_ttl_seconds = 10 * 60"

record handoff_request_state =
  rq_version :: int
  rq_phase :: string
  rq_tool :: string
  rq_digest :: string
  rq_intervention :: string
  rq_epoch :: int
  rq_strategy :: resume_strategy
  rq_principal :: string

definition create_handoff_request_state ::
  "(string \<Rightarrow> string) \<Rightarrow> (jsnum \<Rightarrow> string) \<Rightarrow> string \<Rightarrow> jsval \<Rightarrow> string \<Rightarrow> int \<Rightarrow> resume_strategy \<Rightarrow>
   string \<Rightarrow> handoff_request_state option" where
  "create_handoff_request_state sha nt tool args i e strategy pb =
     map_option (\<lambda>d. \<lparr>rq_version = 2, rq_phase = ''awaiting_human'', rq_tool = tool, rq_digest = d,
         rq_intervention = i, rq_epoch = e, rq_strategy = strategy, rq_principal = pb\<rparr>)
       (digest_tool_invocation sha nt tool args)"

text \<open>\<open>&&\<close> evaluates the digest only when the first three tests pass; hashing undefined throws.\<close>

definition handoff_state_matches_invocation ::
  "(string \<Rightarrow> string) \<Rightarrow> (jsnum \<Rightarrow> string) \<Rightarrow> handoff_request_state \<Rightarrow> string \<Rightarrow> jsval \<Rightarrow> string \<Rightarrow>
   bool option" where
  "handoff_state_matches_invocation sha nt st tool args pb =
     (if rq_version st = 2 \<and> rq_phase st = ''awaiting_human'' \<and> rq_tool st = tool
      then map_option (\<lambda>d. rq_digest st = d \<and> rq_principal st = pb)
             (digest_tool_invocation sha nt tool args)
      else Some False)"

definition intervention_prompt :: "string \<Rightarrow> string option \<Rightarrow> string" where
  "intervention_prompt subject instruction = join_with '' ''
     [subject @ '' requires a manual step.'',
      (case instruction of
         None \<Rightarrow> ''Complete that step directly in the controlled application.'' | Some i \<Rightarrow> i),
      ''Do not paste passwords, OTP/MFA codes, CAPTCHA answers, cookies, payment data, or other credentials into the MCP prompt.'',
      ''Choose Continue only after the manual step is complete, or Cancel to stop the operation.'']"

lemma request_state_accepts_own:
  "create_handoff_request_state sha nt tool args i e str p = Some st \<Longrightarrow>
     handoff_state_matches_invocation sha nt st tool args p = Some True"
  by (auto simp: create_handoff_request_state_def handoff_state_matches_invocation_def)

lemma request_state_matchesD:
  assumes "create_handoff_request_state sha nt tool args i e str p = Some st"
    and "handoff_state_matches_invocation sha nt st tool' args' p' = Some True"
    and "separated_by sha nt (tool, args) (tool', args')" and "\<forall>n. nul_free (nt n)"
  shows "tool' = tool \<and> canonical_json nt args' = canonical_json nt args \<and> p' = p"
  using assms digest_separates [OF assms(4,3)]
  by (auto simp: create_handoff_request_state_def handoff_state_matches_invocation_def
      split: if_splits)

section \<open>Registered adapters\<close>

text \<open>\<open>defineExecutionAdapter\<close>: the kind, normalised; \<open>'c\<close> is the adapter's control object.\<close>

record 'c registered_adapter =
  ad_kind :: string
  ad_control :: 'c

datatype adapter_error = ADAPTER_KIND_INVALID

definition define_execution_adapter :: "string \<Rightarrow> 'c \<Rightarrow> adapter_error + 'c registered_adapter" where
  "define_execution_adapter kind control = (let normalized = trim kind in
     if normalized = [] \<or> 80 < length normalized then Inl ADAPTER_KIND_INVALID
     else Inr \<lparr>ad_kind = normalized, ad_control = control\<rparr>)"

lemma define_execution_adapter_kind:
  "define_execution_adapter kind c = Inr a \<Longrightarrow>
     ad_kind a = trim kind \<and> trim (ad_kind a) = ad_kind a \<and> 1 \<le> length (ad_kind a)
     \<and> length (ad_kind a) \<le> 80"
  by (auto simp: define_execution_adapter_def Let_def Suc_le_eq split: if_splits)

section \<open>Properties\<close>

text \<open>A hash that keeps its text, and one digit for every number.\<close>

definition sample_request :: handoff_request_state where
  "sample_request = \<lparr>rq_version = 2, rq_phase = ''awaiting_human'', rq_tool = ''pay'', rq_digest = ''pay'' @ [nul] @ ''[0]'',
     rq_intervention = ''i1'', rq_epoch = 1, rq_strategy = Retry_original, rq_principal = ''alice''\<rparr>"

lemma sample_request_created:
  "create_handoff_request_state id (\<lambda>_. ''0'') ''pay'' (JArr [jint 7]) ''i1'' 1 Retry_original ''alice'' = Some sample_request"
  by (simp add: create_handoff_request_state_def digest_tool_invocation_def sample_request_def)

text \<open>The request state the bridge hands to a client answers for one invocation. It is accepted exactly from the
  principal it was made for, calling the same tool with arguments of the same canonical JSON; any other principal, tool
  or argument is refused. The hash only has to keep these two invocations apart.\<close>

theorem request_state_exact:
  assumes "create_handoff_request_state sha nt tool args i e str p = Some st"
    and "separated_by sha nt (tool, args) (tool', args')" and "\<forall>n. nul_free (nt n)"
  shows "handoff_state_matches_invocation sha nt st tool' args' p' = Some True
     \<longleftrightarrow> tool' = tool \<and> canonical_json nt args' = canonical_json nt args \<and> p' = p"
proof
  assume "handoff_state_matches_invocation sha nt st tool' args' p' = Some True"
  with assms show "tool' = tool \<and> canonical_json nt args' = canonical_json nt args \<and> p' = p"
    by (blast dest: request_state_matchesD)
next
  assume "tool' = tool \<and> canonical_json nt args' = canonical_json nt args \<and> p' = p"
  moreover from this have "digest_tool_invocation sha nt tool' args' = digest_tool_invocation sha nt tool args"
    by (simp add: digest_tool_invocation_def)
  ultimately show "handoff_state_matches_invocation sha nt st tool' args' p' = Some True"
    using assms(1) by (auto simp: create_handoff_request_state_def handoff_state_matches_invocation_def)
qed

theorem request_state_exact_witness:
  "handoff_state_matches_invocation id (\<lambda>_. ''0'') sample_request ''pay'' (JArr [jint 7]) ''alice'' = Some True
   \<and> handoff_state_matches_invocation id (\<lambda>_. ''0'') sample_request ''pay'' (JArr [JNull]) ''alice'' \<noteq> Some True"
proof -
  have nt: "\<forall>n. nul_free ((\<lambda>_ :: jsnum. ''0'') n)" by (simp add: char_code_def)
  have "separated_by id (\<lambda>_. ''0'') (''pay'', JArr [jint 7]) (''pay'', args)" for args
    by (auto simp: separated_by_def hashed_text_def option.map_id)
  from request_state_exact [OF sample_request_created this nt] show ?thesis by simp
qed

end
