(* ===== verification/Checkpoint.thy ===== *)
theory Checkpoint
  imports Ownership
begin

text \<open>
  \<open>src/core/checkpoint.ts\<close> and \<open>src/core/hosted-recovery.ts\<close>: the strict schema of a
  durable checkpoint, recovery with expiry, and the signed file store.

  HMAC-SHA-256 is the parameter \<open>hmac\<close> (key, message to base64url text). A file's content is
  the JSON value its text parses to, or \<open>Unparsable\<close>; \<open>json_clean\<close> is what a written value
  reads back as. Each file system call may fail, decided by the environment \<open>env\<close>.
\<close>

section \<open>Schema\<close>

datatype checkpoint_error = CHECKPOINT_INVALID | CHECKPOINT_EXPIRED

fun status_text :: "intervention_status \<Rightarrow> string" where
  "status_text Awaiting_human = ''awaiting_human''"
| "status_text Human_active = ''human_active''"
| "status_text Verifying = ''verifying''"
| "status_text Ready_to_resume = ''ready_to_resume''"

fun policy_text :: "resume_policy \<Rightarrow> string" where
  "policy_text Replay_safe = ''replay_safe''"
| "policy_text Revalidate = ''revalidate''"
| "policy_text Confirm_before_execute = ''confirm_before_execute''"
| "policy_text Never_replay = ''never_replay''"

definition read_status :: "jsval \<Rightarrow> intervention_status option" where
  "read_status v = List.find (\<lambda>st. v = JStr (status_text st))
     [Awaiting_human, Human_active, Verifying, Ready_to_resume]"

definition read_policy :: "jsval \<Rightarrow> resume_policy option" where
  "read_policy v = List.find (\<lambda>p. v = JStr (policy_text p))
     [Replay_safe, Revalidate, Confirm_before_execute, Never_replay]"

lemma read_status_text [simp]: "read_status (JStr (status_text st)) = Some st"
  by (cases st) (simp_all add: read_status_def)

lemma read_policy_text [simp]: "read_policy (JStr (policy_text p)) = Some p"
  by (cases p) (simp_all add: read_policy_def)

record checkpoint =
  cp_adapter :: string
  cp_intervention :: string
  cp_status :: intervention_status
  cp_epoch :: int
  cp_policy :: resume_policy
  cp_principal :: string
  cp_digest :: "string option"
  cp_updated :: int
  cp_expires :: int

definition checkpoint_keys :: "string list" where
  "checkpoint_keys = [''version'', ''adapterKind'', ''interventionId'', ''status'', ''epoch'',
     ''resumePolicy'', ''principalBinding'', ''actionDigest'', ''updatedAt'', ''expiresAt'']"

text \<open>\<open>typeof v === "string"\<close> with a length between the bounds.\<close>

fun sized_string :: "jsval \<Rightarrow> nat \<Rightarrow> nat \<Rightarrow> bool" where
  "sized_string (JStr s) lo hi = (lo \<le> length s \<and> length s \<le> hi)"
| "sized_string _ lo hi = False"

definition checkpoint_fields_ok :: "(string \<times> jsval) list \<Rightarrow> bool" where
  "checkpoint_fields_ok ps \<longleftrightarrow>
     get_prop ps ''version'' = jint 1
     \<and> sized_string (get_prop ps ''adapterKind'') 1 80
     \<and> sized_string (get_prop ps ''interventionId'') 1 160
     \<and> read_status (get_prop ps ''status'') \<noteq> None
     \<and> safe_int_from 0 (get_prop ps ''epoch'')
     \<and> read_policy (get_prop ps ''resumePolicy'') \<noteq> None
     \<and> sized_string (get_prop ps ''principalBinding'') 16 160
     \<and> (get_prop ps ''actionDigest'' = JUndefined
        \<or> sized_string (get_prop ps ''actionDigest'') 16 160)
     \<and> is_safe_num (get_prop ps ''updatedAt'') \<and> is_safe_num (get_prop ps ''expiresAt'')"

text \<open>The typed view of an object that passed the schema.\<close>

definition checkpoint_of :: "(string \<times> jsval) list \<Rightarrow> checkpoint" where
  "checkpoint_of ps =
     \<lparr>cp_adapter = str_of_val (get_prop ps ''adapterKind''),
      cp_intervention = str_of_val (get_prop ps ''interventionId''),
      cp_status = the (read_status (get_prop ps ''status'')),
      cp_epoch = int_of_val (get_prop ps ''epoch''),
      cp_policy = the (read_policy (get_prop ps ''resumePolicy'')),
      cp_principal = str_of_val (get_prop ps ''principalBinding''),
      cp_digest = opt_str (get_prop ps ''actionDigest''),
      cp_updated = int_of_val (get_prop ps ''updatedAt''),
      cp_expires = int_of_val (get_prop ps ''expiresAt'')\<rparr>"

definition parse_handoff_checkpoint :: "jsval \<Rightarrow> checkpoint_error + checkpoint" where
  "parse_handoff_checkpoint v = (case v of
       JObj ps \<Rightarrow>
         if \<not> keys_within ps checkpoint_keys then Inl CHECKPOINT_INVALID
         else if \<not> checkpoint_fields_ok ps then Inl CHECKPOINT_INVALID
         else Inr (checkpoint_of ps)
     | _ \<Rightarrow> Inl CHECKPOINT_INVALID)"

text \<open>A recovery record is the checkpoint with the mark \<open>reissue_and_revalidate\<close>.\<close>

record recovery_record = checkpoint +
  rr_recovery :: string

definition mark_recovery :: "checkpoint \<Rightarrow> recovery_record" where
  "mark_recovery c = checkpoint.extend c (recovery_record.fields ''reissue_and_revalidate'')"

lemma mark_recovery_fields [simp]:
  "checkpoint.truncate (mark_recovery c) = c"
  "rr_recovery (mark_recovery c) = ''reissue_and_revalidate''"
  "cp_adapter (mark_recovery c) = cp_adapter c"
  "cp_intervention (mark_recovery c) = cp_intervention c"
  "cp_status (mark_recovery c) = cp_status c" "cp_epoch (mark_recovery c) = cp_epoch c"
  "cp_policy (mark_recovery c) = cp_policy c" "cp_principal (mark_recovery c) = cp_principal c"
  "cp_digest (mark_recovery c) = cp_digest c" "cp_expires (mark_recovery c) = cp_expires c"
  by (cases c; simp add: mark_recovery_def recovery_record.defs checkpoint.defs)+

definition recover_handoff_checkpoint :: "jsval \<Rightarrow> jsnum \<Rightarrow> checkpoint_error + recovery_record" where
  "recover_handoff_checkpoint v now = (case parse_handoff_checkpoint v of
       Inl e \<Rightarrow> Inl e
     | Inr c \<Rightarrow>
         if \<not> num_safe_integer now then Inl CHECKPOINT_INVALID
         else if num_le (num_of_int (cp_expires c)) now then Inl CHECKPOINT_EXPIRED
         else Inr (mark_recovery c))"

text \<open>The object the runtime builds for a checkpoint.\<close>

definition checkpoint_object :: "checkpoint \<Rightarrow> (string \<times> jsval) list" where
  "checkpoint_object c =
     [(''version'', jint 1), (''adapterKind'', JStr (cp_adapter c)),
      (''interventionId'', JStr (cp_intervention c)), (''status'', JStr (status_text (cp_status c))),
      (''epoch'', jint (cp_epoch c)), (''resumePolicy'', JStr (policy_text (cp_policy c))),
      (''principalBinding'', JStr (cp_principal c))]
     @ opt_prop ''actionDigest'' (map_option JStr (cp_digest c))
     @ [(''updatedAt'', jint (cp_updated c)), (''expiresAt'', jint (cp_expires c))]"

definition checkpoint_valid :: "checkpoint \<Rightarrow> bool" where
  "checkpoint_valid c \<longleftrightarrow>
     1 \<le> length (cp_adapter c) \<and> length (cp_adapter c) \<le> 80
     \<and> 1 \<le> length (cp_intervention c) \<and> length (cp_intervention c) \<le> 160
     \<and> 0 \<le> cp_epoch c \<and> safe_int (cp_epoch c)
     \<and> 16 \<le> length (cp_principal c) \<and> length (cp_principal c) \<le> 160
     \<and> (case cp_digest c of None \<Rightarrow> True | Some d \<Rightarrow> 16 \<le> length d \<and> length d \<le> 160)
     \<and> safe_int (cp_updated c) \<and> safe_int (cp_expires c)"

lemma sized_stringD:
  "sized_string v lo hi \<Longrightarrow> v = JStr (str_of_val v) \<and> lo \<le> length (str_of_val v) \<and> length (str_of_val v) \<le> hi"
  by (cases v) auto

lemma parse_checkpoint_object:
  "checkpoint_valid c \<Longrightarrow> parse_handoff_checkpoint (JObj (checkpoint_object c)) = Inr c"
  by (cases "cp_digest c")
    (auto simp: checkpoint_valid_def parse_handoff_checkpoint_def checkpoint_object_def
      checkpoint_fields_ok_def checkpoint_of_def keys_within_iff checkpoint_keys_def)

lemma parse_checkpoint_valid: "parse_handoff_checkpoint v = Inr c \<Longrightarrow> checkpoint_valid c"
proof -
  assume parse: "parse_handoff_checkpoint v = Inr c"
  then obtain ps where ps: "v = JObj ps" "checkpoint_fields_ok ps" "c = checkpoint_of ps"
    by (auto simp: parse_handoff_checkpoint_def split: jsval.splits if_splits)
  have "case opt_str (get_prop ps ''actionDigest'') of None \<Rightarrow> True
      | Some d \<Rightarrow> 16 \<le> length d \<and> length d \<le> 160"
    using ps(2) by (cases "get_prop ps ''actionDigest''") (auto simp: checkpoint_fields_ok_def)
  with ps show ?thesis
    by (auto simp: checkpoint_valid_def checkpoint_fields_ok_def checkpoint_of_def safe_int_from_def
        dest: sized_stringD is_safe_numD)
qed

text \<open>Recovery accepts exactly the well-formed, unexpired checkpoints, and changes none of them.\<close>

lemma recover_ok_iff:
  "recover_handoff_checkpoint v now = Inr r \<longleftrightarrow>
     (\<exists>c. parse_handoff_checkpoint v = Inr c \<and> r = mark_recovery c \<and> num_safe_integer now
        \<and> num_lt now (num_of_int (cp_expires c)))"
  by (cases now)
    (auto simp: recover_handoff_checkpoint_def split: sum.splits if_splits)

section \<open>Hosted recovery\<close>

text \<open>\<open>recoverHostedControlPlane\<close>: the hint carries no worker, channel or operator state.\<close>

record recovery_hint =
  rh_version :: int
  rh_intervention :: string
  rh_epoch :: int
  rh_principal :: string
  rh_policy :: resume_policy
  rh_digest :: "string option"
  rh_recovery :: string
  rh_worker_route :: string
  rh_operator_session :: string

definition recover_hosted_control_plane :: "jsval \<Rightarrow> jsnum \<Rightarrow> checkpoint_error + recovery_hint" where
  "recover_hosted_control_plane v now = (case recover_handoff_checkpoint v now of
       Inl e \<Rightarrow> Inl e
     | Inr c \<Rightarrow> Inr \<lparr>rh_version = 1, rh_intervention = cp_intervention c, rh_epoch = cp_epoch c,
         rh_principal = cp_principal c, rh_policy = cp_policy c, rh_digest = cp_digest c,
         rh_recovery = ''reissue_and_revalidate'', rh_worker_route = ''reconnect_required'',
         rh_operator_session = ''reissue_required''\<rparr>)"

section \<open>The signed file store\<close>

text \<open>\<open>JSON.stringify\<close> on an object without nested arrays or objects of its own text rules:
  undefined properties are skipped.\<close>

fun json_text :: "(jsnum \<Rightarrow> string) \<Rightarrow> jsval \<Rightarrow> string" where
  "json_text nt (JBool b) = (if b then ''true'' else ''false'')"
| "json_text nt (JNum n) = (if num_finite n then nt n else ''null'')"
| "json_text nt (JStr s) = json_quote s"
| "json_text nt (JArr vs) = ''['' @ join_with '','' (map (json_text nt) vs) @ '']''"
| "json_text nt (JObj ps) = ''{'' @ join_with '',''
     (map (\<lambda>(k, v). json_quote k @ '':'' @ json_text nt v) (filter (\<lambda>(k, v). v \<noteq> JUndefined) ps)) @ ''}''"
| "json_text nt v = ''null''"

datatype file_content = Json_file jsval | Unparsable

datatype file_call = Make_directory | Write_temp | Chmod_temp | Sync_temp | Rename_temp | Sync_directory

datatype store_error = Schema_error checkpoint_error | Io_error file_call | Unlink_error

text \<open>What the operating system does: which calls of a write fail, the error code of opening and
  of syncing the directory, and whether \<open>unlink\<close> of an existing file fails.\<close>

record file_env =
  env_fails :: "file_call \<Rightarrow> bool"
  env_windows :: bool
  env_open_error :: "string option"
  env_fsync_error :: "string option"
  env_unlink_fails :: bool

definition unsupported_directory_fsync_codes :: "string set" where
  "unsupported_directory_fsync_codes = {''EINVAL'', ''ENOTSUP'', ''EOPNOTSUPP''}"

text \<open>\<open>syncCheckpointDirectoryIfSupported\<close>: whether it returns.\<close>

definition sync_directory_ok :: "file_env \<Rightarrow> bool" where
  "sync_directory_ok env =
     (if env_windows env then True
      else case env_open_error env of
          Some code \<Rightarrow> code \<in> unsupported_directory_fsync_codes
        | None \<Rightarrow> (case env_fsync_error env of
              None \<Rightarrow> True
            | Some code \<Rightarrow> code \<in> unsupported_directory_fsync_codes))"

definition checkpoint_mac ::
  "(string \<Rightarrow> string \<Rightarrow> string) \<Rightarrow> (jsnum \<Rightarrow> string) \<Rightarrow> string \<Rightarrow> (string \<times> jsval) list \<Rightarrow> string" where
  "checkpoint_mac hmac nt key ps =
     hmac key (''mcp-execution-handoff/checkpoint/v1'' @ [nul] @ json_text nt (JObj ps))"

definition store_envelope ::
  "(string \<Rightarrow> string \<Rightarrow> string) \<Rightarrow> (jsnum \<Rightarrow> string) \<Rightarrow> string \<Rightarrow> (string \<times> jsval) list \<Rightarrow> jsval" where
  "store_envelope hmac nt key ps =
     JObj [(''checkpoint'', JObj ps), (''mac'', JStr (checkpoint_mac hmac nt key ps))]"

text \<open>The files: the checkpoint file and the temporary file of a write.\<close>

record files =
  fl_target :: "file_content option"
  fl_temp :: "file_content option"

fun file_effect :: "file_content \<Rightarrow> file_call \<Rightarrow> files \<Rightarrow> files" where
  "file_effect c Write_temp f = f\<lparr>fl_temp := Some c\<rparr>"
| "file_effect c Rename_temp f = \<lparr>fl_target = fl_temp f, fl_temp = None\<rparr>"
| "file_effect c _ f = f"

definition call_fails :: "file_env \<Rightarrow> file_call \<Rightarrow> bool" where
  "call_fails env call = (if call = Sync_directory then \<not> sync_directory_ok env else env_fails env call)"

text \<open>The calls run in order; the first that fails ends the sequence with its error.\<close>

fun run_calls :: "file_env \<Rightarrow> file_content \<Rightarrow> file_call list \<Rightarrow> files \<Rightarrow> file_call option \<times> files" where
  "run_calls env c [] f = (None, f)"
| "run_calls env c (call # calls) f =
     (if call_fails env call then (Some call, f) else run_calls env c calls (file_effect c call f))"

definition write_calls :: "file_call list" where
  "write_calls = [Make_directory, Write_temp, Chmod_temp, Sync_temp, Rename_temp, Sync_directory]"

text \<open>The \<open>finally\<close> block removes the temporary file; it is a no-op after the rename.\<close>

definition store_write ::
  "(string \<Rightarrow> string \<Rightarrow> string) \<Rightarrow> (jsnum \<Rightarrow> string) \<Rightarrow> string \<Rightarrow> file_env \<Rightarrow> jsval \<Rightarrow> files \<Rightarrow>
   (store_error + unit) \<times> files" where
  "store_write hmac nt key env v f = (case v of
       JObj ps \<Rightarrow> (case parse_handoff_checkpoint v of
           Inl e \<Rightarrow> (Inl (Schema_error e), f)
         | Inr c \<Rightarrow>
             (case run_calls env (Json_file (json_clean (store_envelope hmac nt key ps))) write_calls f of
                (failed, f1) \<Rightarrow>
                  (case failed of None \<Rightarrow> Inr () | Some call \<Rightarrow> Inl (Io_error call), f1\<lparr>fl_temp := None\<rparr>)))
     | _ \<Rightarrow> (Inl (Schema_error CHECKPOINT_INVALID), f))"

text \<open>\<open>loadVerified\<close>: the value is returned as the object it is in the file.\<close>

definition load_verified ::
  "(string \<Rightarrow> string \<Rightarrow> string) \<Rightarrow> (jsnum \<Rightarrow> string) \<Rightarrow> string \<Rightarrow> files \<Rightarrow>
   checkpoint_error + (string \<times> jsval) list option" where
  "load_verified hmac nt key f = (case fl_target f of
       None \<Rightarrow> Inr None
     | Some Unparsable \<Rightarrow> Inl CHECKPOINT_INVALID
     | Some (Json_file v) \<Rightarrow> (case v of
           JObj env \<Rightarrow> (case get_prop env ''mac'' of
               JStr mac \<Rightarrow> (case get_prop env ''checkpoint'' of
                   JObj ps \<Rightarrow> (case parse_handoff_checkpoint (JObj ps) of
                       Inl e \<Rightarrow> Inl e
                     | Inr c \<Rightarrow> if same_bytes (checkpoint_mac hmac nt key ps) mac then Inr (Some ps)
                                else Inl CHECKPOINT_INVALID)
                 | _ \<Rightarrow> Inl CHECKPOINT_INVALID)
             | _ \<Rightarrow> Inl CHECKPOINT_INVALID)
         | _ \<Rightarrow> Inl CHECKPOINT_INVALID))"

definition store_read ::
  "(string \<Rightarrow> string \<Rightarrow> string) \<Rightarrow> (jsnum \<Rightarrow> string) \<Rightarrow> string \<Rightarrow> files \<Rightarrow> checkpoint_error + jsval option" where
  "store_read hmac nt key f = map_sum id (map_option JObj) (load_verified hmac nt key f)"

definition store_load ::
  "(string \<Rightarrow> string \<Rightarrow> string) \<Rightarrow> (jsnum \<Rightarrow> string) \<Rightarrow> string \<Rightarrow> jsnum \<Rightarrow> files \<Rightarrow>
   checkpoint_error + checkpoint option" where
  "store_load hmac nt key now f = (case load_verified hmac nt key f of
       Inl e \<Rightarrow> Inl e
     | Inr None \<Rightarrow> Inr None
     | Inr (Some ps) \<Rightarrow>
         if num_le (num_of_int (cp_expires (checkpoint_of ps))) now then Inl CHECKPOINT_EXPIRED
         else Inr (Some (checkpoint_of ps)))"

definition store_recover ::
  "(string \<Rightarrow> string \<Rightarrow> string) \<Rightarrow> (jsnum \<Rightarrow> string) \<Rightarrow> string \<Rightarrow> jsnum \<Rightarrow> files \<Rightarrow>
   checkpoint_error + recovery_record option" where
  "store_recover hmac nt key now f = (case load_verified hmac nt key f of
       Inl e \<Rightarrow> Inl e
     | Inr None \<Rightarrow> Inr None
     | Inr (Some ps) \<Rightarrow> map_sum id Some (recover_handoff_checkpoint (JObj ps) now))"

definition store_recover_for_operator ::
  "(string \<Rightarrow> string \<Rightarrow> string) \<Rightarrow> (jsnum \<Rightarrow> string) \<Rightarrow> string \<Rightarrow> files \<Rightarrow>
   checkpoint_error + recovery_record option" where
  "store_recover_for_operator hmac nt key f =
     map_sum id (map_option (\<lambda>ps. mark_recovery (checkpoint_of ps))) (load_verified hmac nt key f)"

text \<open>\<open>clear\<close>: a missing file (\<open>ENOENT\<close>) is fine; after a removal the directory is
  synced.\<close>

definition store_clear :: "file_env \<Rightarrow> files \<Rightarrow> (store_error + unit) \<times> files" where
  "store_clear env f =
     (if fl_target f = None then (Inr (), f)
      else if env_unlink_fails env then (Inl Unlink_error, f)
      else (if sync_directory_ok env then Inr () else Inl (Io_error Sync_directory),
            f\<lparr>fl_target := None\<rparr>))"

text \<open>The constructor's checks, for POSIX paths.\<close>

definition file_store_config_ok :: "string \<Rightarrow> string \<Rightarrow> bool" where
  "file_store_config_ok path key \<longleftrightarrow> (\<exists>rest. path = CHR ''/'' # rest) \<and> 32 \<le> length key"

section \<open>Properties of the store\<close>

lemma checkpoint_object_clean: "json_clean (JObj (checkpoint_object c)) = JObj (checkpoint_object c)"
  by (cases "cp_digest c"; cases "cp_status c"; cases "cp_policy c")
    (simp_all add: checkpoint_object_def)

lemma checkpoint_of_object: "checkpoint_of (checkpoint_object c) = c"
  by (cases "cp_digest c") (simp_all add: checkpoint_of_def checkpoint_object_def)

lemma parse_object_cases:
  "parse_handoff_checkpoint (JObj (checkpoint_object c)) =
     (if checkpoint_valid c then Inr c else Inl CHECKPOINT_INVALID)"
proof (cases "checkpoint_valid c")
  case True
  then show ?thesis by (simp add: parse_checkpoint_object)
next
  case False
  show ?thesis
  proof (cases "parse_handoff_checkpoint (JObj (checkpoint_object c))")
    case (Inl e)
    with False show ?thesis by (auto simp: parse_handoff_checkpoint_def split: if_splits)
  next
    case (Inr d)
    then have "d = c"
      by (auto simp: parse_handoff_checkpoint_def checkpoint_of_object split: if_splits)
    with Inr False parse_checkpoint_valid show ?thesis by blast
  qed
qed

text \<open>A write replaces the target in one step: whatever call it stops at (a failure, or a crash
  after any number of calls), the target is the old content or the complete new one.\<close>

lemma run_calls_append:
  "run_calls env c (xs @ ys) f = (case run_calls env c xs f of
      (None, f1) \<Rightarrow> run_calls env c ys f1 | (Some e, f1) \<Rightarrow> (Some e, f1))"
  by (induction xs arbitrary: f) (simp_all)

lemma write_calls_target:
  "fl_target (snd (run_calls env c (take n write_calls) f)) \<in> {fl_target f, Some c}"
proof -
  have "n = 0 \<or> n = 1 \<or> n = 2 \<or> n = 3 \<or> n = 4 \<or> n = 5 \<or> 6 \<le> n" by arith
  then show ?thesis
    by (elim disjE) (simp_all add: write_calls_def call_fails_def)
qed

lemma write_calls_all:
  "run_calls env c write_calls f = (None, f1) \<Longrightarrow> fl_target f1 = Some c"
  by (auto simp: write_calls_def split: if_splits)

lemma write_calls_failed:
  "run_calls env c write_calls f = (Some e, f1) \<Longrightarrow>
     fl_target f1 = (if e = Sync_directory then Some c else fl_target f)"
  by (auto simp: write_calls_def call_fails_def split: if_splits)

lemma load_own_envelope:
  assumes "checkpoint_valid c"
    and "fl_target f = Some (Json_file (json_clean (store_envelope hmac nt key (checkpoint_object c))))"
  shows "load_verified hmac nt key f = Inr (Some (checkpoint_object c))"
proof -
  have "json_clean (store_envelope hmac nt key (checkpoint_object c))
      = store_envelope hmac nt key (checkpoint_object c)"
    using checkpoint_object_clean by (simp add: store_envelope_def)
  with assms show ?thesis
    by (simp add: load_verified_def store_envelope_def parse_object_cases)
qed

lemma load_verifiedD:
  assumes "load_verified hmac nt key f = Inr (Some ps)"
  shows "\<exists>env. fl_target f = Some (Json_file (JObj env)) \<and> get_prop env ''checkpoint'' = JObj ps
     \<and> get_prop env ''mac'' = JStr (checkpoint_mac hmac nt key ps)
     \<and> parse_handoff_checkpoint (JObj ps) = Inr (checkpoint_of ps)"
proof -
  obtain env mac where env: "fl_target f = Some (Json_file (JObj env))"
      "get_prop env ''mac'' = JStr mac" "get_prop env ''checkpoint'' = JObj ps"
      "mac = checkpoint_mac hmac nt key ps" and "\<exists>c. parse_handoff_checkpoint (JObj ps) = Inr c"
    using assms
    by (auto simp: load_verified_def split: option.splits file_content.splits jsval.splits sum.splits
        if_splits)
  moreover from this(5) have "parse_handoff_checkpoint (JObj ps) = Inr (checkpoint_of ps)"
    by (auto simp: parse_handoff_checkpoint_def split: if_splits)
  ultimately show ?thesis by auto
qed

section \<open>The store interface\<close>

text \<open>What the runtime asks of a \<open>HandoffCheckpointStore\<close>.\<close>

locale checkpoint_store =
  fixes put :: "jsval \<Rightarrow> 'f \<Rightarrow> (store_error + unit) \<times> 'f"
    and fetch :: "'f \<Rightarrow> checkpoint_error + jsval option"
    and erase :: "'f \<Rightarrow> (store_error + unit) \<times> 'f"
  assumes write_valid: "put (JObj (checkpoint_object c)) f = (Inr (), f') \<Longrightarrow> checkpoint_valid c"
    and fetch_put: "put (JObj (checkpoint_object c)) f = (Inr (), f') \<Longrightarrow>
          fetch f' = Inr (Some (JObj (checkpoint_object c)))"
    and read_erase: "erase f = (Inr (), f') \<Longrightarrow> fetch f' = Inr None"
begin

lemma recover_written:
  assumes "put (JObj (checkpoint_object c)) f = (Inr (), f')"
  shows "\<exists>v. fetch f' = Inr (Some v) \<and> parse_handoff_checkpoint v = Inr c"
  using fetch_put [OF assms] write_valid [OF assms] by (simp add: parse_object_cases)

end

lemma store_write_object:
  "store_write hmac nt key env (JObj (checkpoint_object c)) f =
     (if \<not> checkpoint_valid c then (Inl (Schema_error CHECKPOINT_INVALID), f)
      else (case run_calls env (Json_file (json_clean (store_envelope hmac nt key (checkpoint_object c))))
              write_calls f of
          (failed, f1) \<Rightarrow> (case failed of None \<Rightarrow> Inr () | Some call \<Rightarrow> Inl (Io_error call),
                          f1\<lparr>fl_temp := None\<rparr>)))"
  by (simp add: store_write_def parse_object_cases)

lemma load_temp_irrelevant [simp]:
  "load_verified hmac nt key (f\<lparr>fl_temp := t\<rparr>) = load_verified hmac nt key f"
  by (simp add: load_verified_def)

interpretation file_store: checkpoint_store
  "store_write hmac nt key env" "store_read hmac nt key" "store_clear env" for hmac nt key env
proof unfold_locales
  fix c f f'
  assume w: "store_write hmac nt key env (JObj (checkpoint_object c)) f = (Inr (), f')"
  show valid: "checkpoint_valid c"
    using w by (auto simp: store_write_object split: if_splits)
  from w valid show "store_read hmac nt key f' = Inr (Some (JObj (checkpoint_object c)))"
    by (auto simp: store_write_object store_read_def load_own_envelope write_calls_all
        split: prod.splits option.splits)
qed (auto simp: store_clear_def store_read_def load_verified_def split: if_splits)

section \<open>Properties\<close>

definition sample_checkpoint :: checkpoint where
  "sample_checkpoint = \<lparr>cp_adapter = ''browser'', cp_intervention = ''i1'', cp_status = Human_active, cp_epoch = 2,
     cp_policy = Revalidate, cp_principal = ''principal-binding-1'', cp_digest = None, cp_updated = 7,
     cp_expires = 900\<rparr>"

lemma sample_checkpoint_valid [simp]: "checkpoint_valid sample_checkpoint"
  by (simp add: checkpoint_valid_def sample_checkpoint_def)

text \<open>A file system on which everything works.\<close>

definition sound_files :: file_env where
  "sound_files = \<lparr>env_fails = \<lambda>_. False, env_windows = False, env_open_error = None, env_fsync_error = Some ''EINVAL'',
     env_unlink_fails = False\<rparr>"

lemma sound_write:
  "checkpoint_valid c \<Longrightarrow> store_write hmac nt key sound_files (JObj (checkpoint_object c)) f = (Inr (),
     \<lparr>fl_target = Some (Json_file (json_clean (store_envelope hmac nt key (checkpoint_object c)))), fl_temp = None\<rparr>)"
  by (simp add: store_write_object write_calls_def call_fails_def sync_directory_ok_def sound_files_def
      unsupported_directory_fsync_codes_def)

text \<open>C28. A checkpoint is exactly what its object says. Parsing the object of a checkpoint gives the checkpoint back
  if its fields are within their bounds and is an error otherwise; whatever parses is within the bounds and is the
  parse of its own object; and recovery adds nothing but the mark and accepts exactly before the expiry.\<close>

theorem checkpoint_round_trip:
  shows "(parse_handoff_checkpoint (JObj (checkpoint_object c)) =
      (if checkpoint_valid c then Inr c else Inl CHECKPOINT_INVALID))
    \<and> (case parse_handoff_checkpoint v of
        Inl _ \<Rightarrow> \<not> (\<exists>r. recover_handoff_checkpoint v now = Inr r)
      | Inr d \<Rightarrow> checkpoint_valid d \<and> parse_handoff_checkpoint (JObj (checkpoint_object d)) = Inr d
          \<and> (recover_handoff_checkpoint v now = Inr (mark_recovery d) \<longleftrightarrow>
               num_safe_integer now \<and> num_lt now (num_of_int (cp_expires d))))"
  using parse_checkpoint_valid [of v]
  by (auto simp: parse_object_cases recover_ok_iff split: sum.split dest: arg_cong [where f = checkpoint.truncate])

text \<open>C29. A write replaces the checkpoint in one step. Wherever the sequence of file operations stops, by a failure or
  by a crash after any number of them, the checkpoint file holds its old content or the complete new one; a write that
  returns holds the new one, and a write that throws has changed nothing, unless it is the sync of the directory
  after the rename that failed.\<close>

theorem write_replaces_in_one_step:
  shows "fl_target (snd (run_calls env c (take n write_calls) f)) \<in> {fl_target f, Some c}
    \<and> (case store_write hmac nt key env v f of
        (Inr _, f') \<Rightarrow> (\<exists>ps. v = JObj ps
          \<and> fl_target f' = Some (Json_file (json_clean (store_envelope hmac nt key ps)))) \<and> fl_temp f' = None
      | (Inl e, f') \<Rightarrow> (if e = Io_error Sync_directory
          then (\<exists>ps. v = JObj ps \<and> fl_target f' = Some (Json_file (json_clean (store_envelope hmac nt key ps))))
          else fl_target f' = fl_target f))"
proof -
  have "case store_write hmac nt key env v f of
        (Inr _, f') \<Rightarrow> (\<exists>ps. v = JObj ps
          \<and> fl_target f' = Some (Json_file (json_clean (store_envelope hmac nt key ps)))) \<and> fl_temp f' = None
      | (Inl e, f') \<Rightarrow> (if e = Io_error Sync_directory
          then (\<exists>ps. v = JObj ps \<and> fl_target f' = Some (Json_file (json_clean (store_envelope hmac nt key ps))))
          else fl_target f' = fl_target f)"
  proof (cases "\<exists>ps d. v = JObj ps \<and> parse_handoff_checkpoint v = Inr d")
    case True
    then obtain ps d where v: "v = JObj ps" "parse_handoff_checkpoint (JObj ps) = Inr d" by blast
    obtain failed f1 where run: "run_calls env (Json_file (json_clean (store_envelope hmac nt key ps))) write_calls f
        = (failed, f1)" by fastforce
    with v show ?thesis
      using write_calls_all [of env _ f f1] write_calls_failed [of env _ f _ f1]
      by (cases failed) (auto simp: store_write_def)
  next
    case False
    then show ?thesis by (auto simp: store_write_def split: jsval.split sum.split)
  qed
  then show ?thesis using write_calls_target by blast
qed

text \<open>A loaded checkpoint is the signed one. If \<open>recover\<close> gives a record, then the file held an envelope whose
  code is the keyed hash of the canonical text of its checkpoint, that checkpoint passed the schema and had not
  expired, and the record is that checkpoint with the revalidation mark; the hint for operators makes the same
  demands but the expiry. An unreadable file, a missing or wrong code, and a checkpoint outside the schema are
  errors, never records.\<close>

theorem recovered_checkpoint_is_signed:
  assumes "store_recover hmac nt key now f = Inr (Some r)"
  shows "\<exists>env ps c. fl_target f = Some (Json_file (JObj env)) \<and> get_prop env ''checkpoint'' = JObj ps
    \<and> get_prop env ''mac'' = JStr (checkpoint_mac hmac nt key ps) \<and> parse_handoff_checkpoint (JObj ps) = Inr c
    \<and> checkpoint_valid c \<and> num_lt now (num_of_int (cp_expires c)) \<and> r = mark_recovery c
    \<and> store_recover_for_operator hmac nt key f = Inr (Some r)"
proof -
  obtain ps where ps: "load_verified hmac nt key f = Inr (Some ps)"
      "recover_handoff_checkpoint (JObj ps) now = Inr r"
    using assms by (auto simp: store_recover_def map_sum_def split: sum.splits option.splits)
  obtain env where env: "fl_target f = Some (Json_file (JObj env))" "get_prop env ''checkpoint'' = JObj ps"
      "get_prop env ''mac'' = JStr (checkpoint_mac hmac nt key ps)"
      "parse_handoff_checkpoint (JObj ps) = Inr (checkpoint_of ps)"
    using load_verifiedD [OF ps(1)] by blast
  moreover have "r = mark_recovery (checkpoint_of ps)" "num_lt now (num_of_int (cp_expires (checkpoint_of ps)))"
    using ps(2) env(4) by (auto simp: recover_ok_iff)
  ultimately show ?thesis
    using parse_checkpoint_valid ps(1) by (auto simp: store_recover_for_operator_def)
qed

theorem recovered_checkpoint_is_signed_witness:
  "\<exists>f. store_recover (\<lambda>k t. k @ t) (\<lambda>_. ''0'') (replicate 32 CHR ''k'') (Fin 10) f
       = Inr (Some (mark_recovery sample_checkpoint))
     \<and> store_recover_for_operator (\<lambda>k t. k @ t) (\<lambda>_. ''0'') (replicate 32 CHR ''k'') f
       = Inr (Some (mark_recovery sample_checkpoint))"
proof -
  let ?h = "\<lambda>k t. k @ t :: string" and ?nt = "\<lambda>_ :: jsnum. ''0''" and ?k = "replicate 32 CHR ''k''"
  let ?f = "\<lparr>fl_target = Some (Json_file (json_clean (store_envelope ?h ?nt ?k (checkpoint_object sample_checkpoint)))),
      fl_temp = None\<rparr>"
  have "load_verified ?h ?nt ?k ?f = Inr (Some (checkpoint_object sample_checkpoint))"
    by (rule load_own_envelope) simp_all
  moreover have "recover_handoff_checkpoint (JObj (checkpoint_object sample_checkpoint)) (Fin 10)
      = Inr (mark_recovery sample_checkpoint)"
    by (simp add: recover_ok_iff parse_object_cases) (simp add: sample_checkpoint_def)
  ultimately have "store_recover ?h ?nt ?k (Fin 10) ?f = Inr (Some (mark_recovery sample_checkpoint))"
    by (simp add: store_recover_def)
  with recovered_checkpoint_is_signed [OF this] show ?thesis by blast
qed

end
