(* ===== verification/Audit_Events.thy ===== *)
theory Audit_Events
  imports Checkpoint
begin

text \<open>
  \<open>src/core/audit.ts\<close>: the strict v1 audit events, the bounded in-memory sink, and the
  delivery of an event to a sink that may throw (\<open>recordAudit\<close> of \<open>src/core/runtime.ts\<close>).
\<close>

datatype audit_type = Checkpoint_written | Checkpoint_cleared | Recovery_requested

fun audit_type_text :: "audit_type \<Rightarrow> string" where
  "audit_type_text Checkpoint_written = ''checkpoint_written''"
| "audit_type_text Checkpoint_cleared = ''checkpoint_cleared''"
| "audit_type_text Recovery_requested = ''recovery_requested''"

definition read_audit_type :: "jsval \<Rightarrow> audit_type option" where
  "read_audit_type v = List.find (\<lambda>t. v = JStr (audit_type_text t))
     [Checkpoint_written, Checkpoint_cleared, Recovery_requested]"

lemma read_audit_type_text [simp]: "read_audit_type (JStr (audit_type_text t)) = Some t"
  by (cases t) (simp_all add: read_audit_type_def)

text \<open>An event; the properties an event type does not have are \<open>None\<close>.\<close>

record audit_event =
  ae_type :: audit_type
  ae_adapter :: string
  ae_time :: int
  ae_intervention :: "string option"
  ae_epoch :: "int option"
  ae_principal :: "string option"
  ae_digest :: "string option"

fun audit_event_keys :: "audit_type \<Rightarrow> string list" where
  "audit_event_keys Checkpoint_cleared =
     [''version'', ''type'', ''adapterKind'', ''timestamp'', ''principalBinding'']"
| "audit_event_keys _ =
     [''version'', ''type'', ''adapterKind'', ''timestamp'', ''interventionId'', ''epoch'',
      ''principalBinding'', ''actionDigest'']"

definition valid_common :: "(string \<times> jsval) list \<Rightarrow> bool" where
  "valid_common ps \<longleftrightarrow>
     get_prop ps ''version'' = jint 1
     \<and> read_audit_type (get_prop ps ''type'') \<noteq> None
     \<and> bounded_string (get_prop ps ''adapterKind'') 1 80
     \<and> safe_int_from 0 (get_prop ps ''timestamp'')"

definition optional_bounded :: "jsval \<Rightarrow> nat \<Rightarrow> nat \<Rightarrow> bool" where
  "optional_bounded v lo hi \<longleftrightarrow> v = JUndefined \<or> bounded_string v lo hi"

text \<open>\<open>parseExecutionAuditEvent\<close>; \<open>None\<close> is the thrown error.\<close>

definition parse_execution_audit_event :: "jsval \<Rightarrow> audit_event option" where
  "parse_execution_audit_event v = (case v of
       JObj ps \<Rightarrow>
         if \<not> valid_common ps then None
         else (let t = the (read_audit_type (get_prop ps ''type'')) in
           if \<not> keys_within ps (audit_event_keys t) then None
           else if t = Checkpoint_cleared then
             (if \<not> optional_bounded (get_prop ps ''principalBinding'') 16 160 then None
              else Some \<lparr>ae_type = t, ae_adapter = str_of_val (get_prop ps ''adapterKind''),
                ae_time = int_of_val (get_prop ps ''timestamp''), ae_intervention = None,
                ae_epoch = None, ae_principal = opt_str (get_prop ps ''principalBinding''),
                ae_digest = None\<rparr>)
           else
             (if \<not> (bounded_string (get_prop ps ''interventionId'') 1 160
                 \<and> safe_int_from 0 (get_prop ps ''epoch'')
                 \<and> bounded_string (get_prop ps ''principalBinding'') 16 160
                 \<and> optional_bounded (get_prop ps ''actionDigest'') 16 160) then None
              else Some \<lparr>ae_type = t, ae_adapter = str_of_val (get_prop ps ''adapterKind''),
                ae_time = int_of_val (get_prop ps ''timestamp''),
                ae_intervention = Some (str_of_val (get_prop ps ''interventionId'')),
                ae_epoch = Some (int_of_val (get_prop ps ''epoch'')),
                ae_principal = Some (str_of_val (get_prop ps ''principalBinding'')),
                ae_digest = opt_str (get_prop ps ''actionDigest'')\<rparr>))
     | _ \<Rightarrow> None)"

text \<open>The object form of an event.\<close>

definition audit_object :: "audit_event \<Rightarrow> jsval" where
  "audit_object e = JObj (
     [(''version'', jint 1), (''type'', JStr (audit_type_text (ae_type e))),
      (''adapterKind'', JStr (ae_adapter e)), (''timestamp'', jint (ae_time e))]
     @ opt_prop ''interventionId'' (map_option JStr (ae_intervention e))
     @ opt_prop ''epoch'' (map_option jint (ae_epoch e))
     @ opt_prop ''principalBinding'' (map_option JStr (ae_principal e))
     @ opt_prop ''actionDigest'' (map_option JStr (ae_digest e)))"

definition audit_event_valid :: "audit_event \<Rightarrow> bool" where
  "audit_event_valid e \<longleftrightarrow> bounded_text 1 80 (ae_adapter e) \<and> 0 \<le> ae_time e \<and> safe_int (ae_time e)
     \<and> (case ae_principal e of None \<Rightarrow> True | Some p \<Rightarrow> bounded_text 16 160 p)
     \<and> (if ae_type e = Checkpoint_cleared
        then ae_intervention e = None \<and> ae_epoch e = None \<and> ae_digest e = None
        else ae_principal e \<noteq> None
          \<and> (case ae_intervention e of None \<Rightarrow> False | Some i \<Rightarrow> bounded_text 1 160 i)
          \<and> (case ae_epoch e of None \<Rightarrow> False | Some n \<Rightarrow> 0 \<le> n \<and> safe_int n)
          \<and> (case ae_digest e of None \<Rightarrow> True | Some d \<Rightarrow> bounded_text 16 160 d))"

lemma parse_audit_object: "audit_event_valid e \<Longrightarrow> parse_execution_audit_event (audit_object e) = Some e"
  by (cases "ae_type e"; cases "ae_intervention e"; cases "ae_epoch e"; cases "ae_principal e";
      cases "ae_digest e")
    (simp_all add: audit_event_valid_def parse_execution_audit_event_def audit_object_def
      valid_common_def keys_within_iff optional_bounded_def read_audit_type_def)

lemma optional_boundedD:
  "optional_bounded v lo hi \<Longrightarrow> case opt_str v of None \<Rightarrow> True | Some s \<Rightarrow> bounded_text lo hi s"
  by (cases v) (auto simp: optional_bounded_def)

lemma parse_audit_valid:
  assumes "parse_execution_audit_event v = Some e"
  shows "audit_event_valid e"
proof -
  obtain ps where v: "v = JObj ps" and common: "valid_common ps"
    using assms by (auto simp: parse_execution_audit_event_def split: jsval.splits if_splits)
  have adapter: "bounded_text 1 80 (str_of_val (get_prop ps ''adapterKind''))"
    and time: "0 \<le> int_of_val (get_prop ps ''timestamp'')" "safe_int (int_of_val (get_prop ps ''timestamp''))"
    using common by (auto simp: valid_common_def safe_int_from_def dest: bounded_stringD is_safe_numD)
  show ?thesis
  proof (cases "the (read_audit_type (get_prop ps ''type'')) = Checkpoint_cleared")
    case True
    with assms v common have "optional_bounded (get_prop ps ''principalBinding'') 16 160"
      by (auto simp: parse_execution_audit_event_def Let_def split: if_splits)
    note optional_boundedD [OF this]
    with assms v common True adapter time show ?thesis
      by (auto simp: parse_execution_audit_event_def audit_event_valid_def Let_def split: if_splits)
  next
    case False
    with assms v common have *: "bounded_string (get_prop ps ''interventionId'') 1 160"
        "safe_int_from 0 (get_prop ps ''epoch'')"
        "bounded_string (get_prop ps ''principalBinding'') 16 160"
        "optional_bounded (get_prop ps ''actionDigest'') 16 160"
      by (auto simp: parse_execution_audit_event_def Let_def split: if_splits)
    note * = *(1,3) [THEN bounded_stringD] *(2) [unfolded safe_int_from_def] optional_boundedD [OF *(4)]
    with assms v common False adapter time show ?thesis
      by (auto simp: parse_execution_audit_event_def audit_event_valid_def Let_def split: if_splits
          dest: is_safe_numD)
  qed
qed

section \<open>The memory sink\<close>

definition max_memory_audit_events :: nat where
  "max_memory_audit_events = 256"

text \<open>\<open>MemoryExecutionAuditSink.record\<close>: \<open>None\<close> when the event does not parse (it throws).\<close>

definition memory_sink_record :: "jsval \<Rightarrow> audit_event list \<Rightarrow> audit_event list option" where
  "memory_sink_record v events = map_option
     (\<lambda>e. (let events' = events @ [e] in drop (length events' - max_memory_audit_events) events'))
     (parse_execution_audit_event v)"

definition memory_sink_snapshot :: "audit_event list \<Rightarrow> audit_event list" where
  "memory_sink_snapshot events = events"

fun memory_sink_run :: "audit_event list \<Rightarrow> jsval list \<Rightarrow> audit_event list" where
  "memory_sink_run events [] = events"
| "memory_sink_run events (v # vs) =
     memory_sink_run (case memory_sink_record v events of None \<Rightarrow> events | Some es \<Rightarrow> es) vs"

lemma drop_excess_snoc:
  "drop (length (drop (length xs - k) xs @ [e]) - k) (drop (length xs - k) xs @ [e])
     = drop (length (xs @ [e]) - k) (xs @ [e])" if "0 < k"
  using that by (cases "length xs < k") (auto simp: Suc_diff_le)

lemma memory_sink_run_last:
  "memory_sink_run (drop (length es - max_memory_audit_events) es) vs =
     (let all = es @ List.map_filter parse_execution_audit_event vs
      in drop (length all - max_memory_audit_events) all)"
proof (induction vs arbitrary: es)
  case Nil
  then show ?case by (simp add: List.map_filter_simps)
next
  case (Cons v vs)
  show ?case
  proof (cases "parse_execution_audit_event v")
    case None
    with Cons show ?thesis by (simp add: memory_sink_record_def List.map_filter_simps)
  next
    case (Some e)
    with Cons [of "es @ [e]"] show ?thesis
      by (simp add: memory_sink_record_def List.map_filter_simps Let_def max_memory_audit_events_def
          drop_excess_snoc [of 256 es e, simplified])
  qed
qed

section \<open>Delivery\<close>

text \<open>A sink and its failure handler run on a state of their own and may throw (\<open>False\<close>).\<close>

record 'u audit_ops =
  au_record :: "jsval \<Rightarrow> 'u \<Rightarrow> bool \<times> 'u"
  au_failure :: "(jsval \<Rightarrow> 'u \<Rightarrow> bool \<times> 'u) option"

definition sink_failure_object :: "audit_event \<Rightarrow> jsval" where
  "sink_failure_object e =
     JObj [(''version'', jint 1), (''eventType'', JStr (audit_type_text (ae_type e)))]"

definition record_audit :: "'u audit_ops \<Rightarrow> audit_event \<Rightarrow> 'u \<Rightarrow> 'u" where
  "record_audit ops e u = (case au_record ops (audit_object e) u of
       (True, u1) \<Rightarrow> u1
     | (False, u1) \<Rightarrow> (case au_failure ops of
           None \<Rightarrow> u1
         | Some handler \<Rightarrow> snd (handler (sink_failure_object e) u1)))"

end
