(* ===== verification/Handoff_Runtime.thy ===== *)
theory Handoff_Runtime
  imports Audit_Events
begin

text \<open>
  \<open>src/core/runtime.ts\<close>: \<open>ExecutionHandoffRuntime\<close>, which writes a checkpoint for the
  adapter's active intervention and reads one back after a restart. The store and the adapter are
  interfaces; the runtime's lemmas are proved from their laws and then interpreted on the file
  store and on \<open>ExecutionHandoffState\<close>. A call is given the readings its clock returns.
\<close>

section \<open>The adapter interface\<close>

record checkpointable =
  ci_id :: string
  ci_status :: intervention_status
  ci_epoch :: int
  ci_policy :: resume_policy
  ci_updated :: int

record ('a, 'x) adapter_ops =
  ao_kind :: string
  ao_active :: "'a \<Rightarrow> checkpointable option"
  ao_cancel :: "string \<Rightarrow> 'a \<Rightarrow> ('x + unit) \<times> 'a"

record 'f store_ops =
  so_write :: "jsval \<Rightarrow> 'f \<Rightarrow> (store_error + unit) \<times> 'f"
  so_read :: "'f \<Rightarrow> checkpoint_error + jsval option"
  so_clear :: "'f \<Rightarrow> (store_error + unit) \<times> 'f"

datatype 'x runtime_error =
    Store_failed store_error
  | Checkpoint_failed checkpoint_error
  | Cancel_failed 'x

section \<open>Construction\<close>

definition default_checkpoint_ttl :: int where
  "default_checkpoint_ttl = 15 * 60000"

text \<open>The constructor's check of \<open>checkpointTtlMs\<close>; the value it keeps.\<close>

definition runtime_ttl :: "jsnum option \<Rightarrow> int option" where
  "runtime_ttl given = (let ttl = (case given of None \<Rightarrow> num_of_int default_checkpoint_ttl | Some n \<Rightarrow> n) in
     if \<not> num_integer ttl \<or> num_lt ttl (num_of_int 60000) \<or> num_lt (num_of_int (24 * 60 * 60000)) ttl
     then None else Some (num_to_int ttl))"

section \<open>Operations\<close>

definition present_digest :: "string option \<Rightarrow> string option" where
  "present_digest d = (case d of None \<Rightarrow> None | Some s \<Rightarrow> if s = [] then None else Some s)"

definition checkpoint_for ::
  "('a, 'x) adapter_ops \<Rightarrow> int \<Rightarrow> string \<Rightarrow> string option \<Rightarrow> int \<Rightarrow> checkpointable \<Rightarrow> checkpoint" where
  "checkpoint_for ad ttl pb digest now active =
     \<lparr>cp_adapter = ao_kind ad, cp_intervention = ci_id active, cp_status = ci_status active,
      cp_epoch = ci_epoch active, cp_policy = ci_policy active, cp_principal = pb,
      cp_digest = present_digest digest, cp_updated = ci_updated active, cp_expires = now + ttl\<rparr>"

definition cleared_event :: "('a, 'x) adapter_ops \<Rightarrow> int \<Rightarrow> string option \<Rightarrow> audit_event" where
  "cleared_event ad now pb =
     \<lparr>ae_type = Checkpoint_cleared, ae_adapter = ao_kind ad, ae_time = now, ae_intervention = None,
      ae_epoch = None, ae_principal = pb, ae_digest = None\<rparr>"

definition intervention_event ::
  "audit_type \<Rightarrow> ('a, 'x) adapter_ops \<Rightarrow> int \<Rightarrow> string \<Rightarrow> int \<Rightarrow> string \<Rightarrow> string option \<Rightarrow> audit_event" where
  "intervention_event t ad now i e pb digest =
     \<lparr>ae_type = t, ae_adapter = ao_kind ad, ae_time = now, ae_intervention = Some i,
      ae_epoch = Some e, ae_principal = Some pb, ae_digest = present_digest digest\<rparr>"

definition runtime_checkpoint ::
  "('a, 'x) adapter_ops \<Rightarrow> 'f store_ops option \<Rightarrow> 'u audit_ops \<Rightarrow> int \<Rightarrow> string \<Rightarrow> string option \<Rightarrow> int \<Rightarrow>
   'a \<Rightarrow> 'f \<Rightarrow> 'u \<Rightarrow> ('x runtime_error + unit) \<times> 'a \<times> 'f \<times> 'u" where
  "runtime_checkpoint ad store au ttl pb digest now a f u = (case store of
       None \<Rightarrow> (Inr (), a, f, u)
     | Some st \<Rightarrow> (case ao_active ad a of
           None \<Rightarrow> (case so_clear st f of
               (Inl e, f1) \<Rightarrow> (Inl (Store_failed e), a, f1, u)
             | (Inr _, f1) \<Rightarrow> (Inr (), a, f1, record_audit au (cleared_event ad now (Some pb)) u))
         | Some active \<Rightarrow>
             (case so_write st (JObj (checkpoint_object (checkpoint_for ad ttl pb digest now active))) f of
               (Inl e, f1) \<Rightarrow> (case ao_cancel ad (ci_id active) a of
                   (Inl x, a1) \<Rightarrow> (Inl (Cancel_failed x), a1, f1, u)
                 | (Inr _, a1) \<Rightarrow> (Inl (Store_failed e), a1, f1, u))
             | (Inr _, f1) \<Rightarrow> (Inr (), a, f1,
                 record_audit au (intervention_event Checkpoint_written ad now (ci_id active)
                   (ci_epoch active) pb digest) u))))"

definition runtime_clear ::
  "('a, 'x) adapter_ops \<Rightarrow> 'f store_ops option \<Rightarrow> 'u audit_ops \<Rightarrow> string option \<Rightarrow> int \<Rightarrow> 'f \<Rightarrow> 'u \<Rightarrow>
   ('x runtime_error + unit) \<times> 'f \<times> 'u" where
  "runtime_clear ad store au pb now f u =
     (case (case store of None \<Rightarrow> (Inr (), f) | Some st \<Rightarrow> so_clear st f) of
        (Inl e, f1) \<Rightarrow> (Inl (Store_failed e), f1, u)
      | (Inr _, f1) \<Rightarrow> (Inr (), f1, record_audit au (cleared_event ad now (present_digest pb)) u))"

text \<open>\<open>recover\<close> reads the clock for the expiry check and again for the audit event.\<close>

definition runtime_recover ::
  "('a, 'x) adapter_ops \<Rightarrow> 'f store_ops option \<Rightarrow> 'u audit_ops \<Rightarrow> string \<Rightarrow> jsnum \<Rightarrow> int \<Rightarrow> 'f \<Rightarrow> 'u \<Rightarrow>
   ('x runtime_error + recovery_record option) \<times> 'u" where
  "runtime_recover ad store au pb now now' f u =
     (case (case store of None \<Rightarrow> Inr None | Some st \<Rightarrow> so_read st f) of
        Inl e \<Rightarrow> (Inl (Checkpoint_failed e), u)
      | Inr None \<Rightarrow> (Inr None, u)
      | Inr (Some raw) \<Rightarrow> (case recover_handoff_checkpoint raw now of
            Inl e \<Rightarrow> (Inl (Checkpoint_failed e), u)
          | Inr r \<Rightarrow>
              if cp_adapter r \<noteq> ao_kind ad \<or> \<not> same_bytes (cp_principal r) pb then (Inr None, u)
              else (Inr (Some r), record_audit au (intervention_event Recovery_requested ad now'
                     (cp_intervention r) (cp_epoch r) pb (cp_digest r)) u)))"

text \<open>The audit sink is observe-only: the outcome, the adapter and the store do not depend on it.\<close>

lemma checkpoint_ignores_sink:
  "fst (runtime_checkpoint ad st au ttl pb d now a f u) = fst (runtime_checkpoint ad st au' ttl pb d now a f u')"
  "fst (snd (runtime_checkpoint ad st au ttl pb d now a f u))
     = fst (snd (runtime_checkpoint ad st au' ttl pb d now a f u'))"
  "fst (snd (snd (runtime_checkpoint ad st au ttl pb d now a f u)))
     = fst (snd (snd (runtime_checkpoint ad st au' ttl pb d now a f u')))"
  by (simp_all add: runtime_checkpoint_def split: option.split sum.split prod.split)

lemma recover_ignores_sink:
  "fst (runtime_recover ad st au pb now t f u) = fst (runtime_recover ad st au' pb now t' f u')"
  by (auto simp: runtime_recover_def split: option.split sum.split)

section \<open>The runtime over its interfaces\<close>

text \<open>Cancelling the active intervention of an adapter ends it.\<close>

locale execution_adapter =
  fixes active :: "'a \<Rightarrow> checkpointable option"
    and cancel :: "string \<Rightarrow> 'a \<Rightarrow> ('x + unit) \<times> 'a"
  assumes cancel_active: "active a = Some i \<Longrightarrow> \<exists>a'. cancel (ci_id i) a = (Inr (), a') \<and> active a' = None"

locale checkpointed_adapter =
  checkpoint_store put fetch erase + execution_adapter active cancel
  for put :: "jsval \<Rightarrow> 'f \<Rightarrow> (store_error + unit) \<times> 'f"
    and fetch :: "'f \<Rightarrow> checkpoint_error + jsval option"
    and erase :: "'f \<Rightarrow> (store_error + unit) \<times> 'f"
    and active :: "'a \<Rightarrow> checkpointable option"
    and cancel :: "string \<Rightarrow> 'a \<Rightarrow> ('x + unit) \<times> 'a"
begin

text \<open>A checkpoint that could not be written takes the Human's authority away.\<close>

lemma failed_write_fences:
  assumes "runtime_checkpoint \<lparr>ao_kind = k, ao_active = active, ao_cancel = cancel\<rparr>
      (Some \<lparr>so_write = put, so_read = fetch, so_clear = erase\<rparr>) au ttl pb d now a f u
      = (Inl e, a', f', u')"
    and "active a = Some i"
  shows "active a' = None \<and> (\<exists>x. e = Store_failed x)"
  using assms cancel_active [OF assms(2)]
  by (auto simp: runtime_checkpoint_def split: sum.splits prod.splits)

text \<open>After a restart, a successful checkpoint is recovered by the same kind of adapter and the
  same principal until it expires, and by nobody else.\<close>

lemma checkpoint_recovers:
  assumes "runtime_checkpoint \<lparr>ao_kind = k, ao_active = active, ao_cancel = cancel\<rparr>
      (Some \<lparr>so_write = put, so_read = fetch, so_clear = erase\<rparr>) au ttl pb d now a f u
      = (Inr (), a', f', u')"
    and i: "active a = Some i"
    and "num_safe_integer t" and "num_lt t (num_of_int (now + ttl))"
  shows "a' = a \<and> fst (runtime_recover \<lparr>ao_kind = k', ao_active = active', ao_cancel = cancel'\<rparr>
      (Some \<lparr>so_write = put, so_read = fetch, so_clear = erase\<rparr>) au' pb' t t' f' u'')
    = Inr (if k = k' \<and> pb = pb'
        then Some (mark_recovery (checkpoint_for \<lparr>ao_kind = k, ao_active = active, ao_cancel = cancel\<rparr>
          ttl pb d now i)) else None)"
proof -
  let ?c = "checkpoint_for \<lparr>ao_kind = k, ao_active = active, ao_cancel = cancel\<rparr> ttl pb d now i"
  have w: "put (JObj (checkpoint_object ?c)) f = (Inr (), f')" and a': "a' = a"
    using assms(1) i by (auto simp: runtime_checkpoint_def split: sum.splits prod.splits)
  from recover_written [OF w] obtain v
    where "fetch f' = Inr (Some v)" and "parse_handoff_checkpoint v = Inr ?c" by blast
  moreover have "cp_expires ?c = now + ttl" "cp_adapter ?c = k" "cp_principal ?c = pb"
    by (simp_all add: checkpoint_for_def)
  ultimately have "fetch f' = Inr (Some v)"
    and "recover_handoff_checkpoint v t = Inr (mark_recovery ?c)"
    using assms(3,4) by (simp_all add: recover_ok_iff)
  with a' \<open>cp_adapter ?c = k\<close> \<open>cp_principal ?c = pb\<close> show ?thesis
    by (auto simp: runtime_recover_def)
qed

lemma cleared_recovers_nothing:
  assumes "runtime_checkpoint \<lparr>ao_kind = k, ao_active = active, ao_cancel = cancel\<rparr>
      (Some \<lparr>so_write = put, so_read = fetch, so_clear = erase\<rparr>) au ttl pb d now a f u
      = (Inr (), a', f', u')"
    and "active a = None"
  shows "fst (runtime_recover ad
      (Some \<lparr>so_write = put, so_read = fetch, so_clear = erase\<rparr>) au' pb' t t' f' u'') = Inr None"
proof -
  have "erase f = (Inr (), f')"
    using assms by (auto simp: runtime_checkpoint_def split: sum.splits prod.splits)
  then have "fetch f' = Inr None" by (rule read_erase)
  then show ?thesis by (simp add: runtime_recover_def)
qed

end

section \<open>The reference adapter and the file store\<close>

text \<open>\<open>ExecutionHandoffState\<close> seen through the adapter interface.\<close>

definition handoff_checkpointable :: "('act, 'rsn) handoff_state \<Rightarrow> checkpointable option" where
  "handoff_checkpointable s = map_option
     (\<lambda>a. \<lparr>ci_id = iv_id a, ci_status = iv_status a, ci_epoch = iv_epoch a, ci_policy = iv_policy a,
           ci_updated = iv_updated a\<rparr>) (hs_active s)"

definition handoff_adapter :: "string \<Rightarrow> (('act, 'rsn) handoff_state, handoff_error) adapter_ops" where
  "handoff_adapter kind = \<lparr>ao_kind = kind, ao_active = handoff_checkpointable, ao_cancel = cancel_intervention\<rparr>"

definition file_store_ops ::
  "(string \<Rightarrow> string \<Rightarrow> string) \<Rightarrow> (jsnum \<Rightarrow> string) \<Rightarrow> string \<Rightarrow> file_env \<Rightarrow> files store_ops" where
  "file_store_ops hmac nt key env =
     \<lparr>so_write = store_write hmac nt key env, so_read = store_read hmac nt key, so_clear = store_clear env\<rparr>"

interpretation handoff_control: execution_adapter handoff_checkpointable cancel_intervention
  by unfold_locales (auto simp: handoff_checkpointable_def lifecycle_ops)

interpretation stored_handoff: checkpointed_adapter
  "store_write hmac nt key env" "store_read hmac nt key" "store_clear env"
  handoff_checkpointable cancel_intervention for hmac nt key env
  by unfold_locales

section \<open>Properties\<close>

text \<open>A checkpoint that cannot be kept ends the Human's control. Over the signed file store and the lifecycle, when
  \<open>checkpoint\<close> throws while an intervention is active, the intervention has been cancelled: nobody is left holding
  control that a restart would not know of, and the epoch it ran under is past. When it returns, the lifecycle is
  as it was.\<close>

theorem failed_checkpoint_ends_control:
  assumes "runtime_checkpoint (handoff_adapter kind) (Some (file_store_ops hmac nt key env)) au ttl pb d now s f u
      = (result, s', f', u')"
    and "hs_active s = Some a"
  shows "case result of
      Inl e \<Rightarrow> hs_active s' = None \<and> hs_epoch s' = hs_epoch s + 1 \<and> (\<exists>x. e = Store_failed x)
    | Inr _ \<Rightarrow> s' = s"
proof (cases result)
  case (Inl e)
  have active: "handoff_checkpointable s = Some \<lparr>ci_id = iv_id a, ci_status = iv_status a, ci_epoch = iv_epoch a,
      ci_policy = iv_policy a, ci_updated = iv_updated a\<rparr>"
    using assms(2) by (simp add: handoff_checkpointable_def)
  from stored_handoff.failed_write_fences [OF _ active] assms(1) Inl
  have "handoff_checkpointable s' = None \<and> (\<exists>x. e = Store_failed x)"
    by (simp add: handoff_adapter_def file_store_ops_def)
  moreover have "s' = snd (cancel_intervention (iv_id a) s)"
    using assms(1) Inl active
    by (auto simp: runtime_checkpoint_def handoff_adapter_def split: sum.splits prod.splits)
  ultimately show ?thesis
    using Inl assms(2) by (simp add: handoff_checkpointable_def lifecycle_ops)
next
  case (Inr x)
  with assms show ?thesis
    by (auto simp: runtime_checkpoint_def handoff_adapter_def split: sum.splits prod.splits option.splits)
qed

text \<open>The lifecycle with a human in control, and a sink that only counts.\<close>

definition sample_held :: "(string, string) handoff_state" where
  "sample_held = \<lparr>hs_epoch = 2, hs_active = Some \<lparr>iv_id = ''i1'', iv_reason = ''captcha'', iv_status = Human_active,
     iv_authority = Human, iv_epoch = 2, iv_action = None, iv_policy = Revalidate, iv_created = 1, iv_updated = 7\<rparr>\<rparr>"

definition counting_sink :: "nat audit_ops" where
  "counting_sink = \<lparr>au_record = \<lambda>_ n. (True, n + 1), au_failure = None\<rparr>"

definition plain_store :: "file_env \<Rightarrow> files store_ops" where
  "plain_store = file_store_ops (\<lambda>k t. k @ t) (\<lambda>_. ''0'') (replicate 32 CHR ''k'')"

definition no_files :: files where
  "no_files = \<lparr>fl_target = None, fl_temp = None\<rparr>"

theorem failed_checkpoint_ends_control_witness:
  "hs_active (fst (snd (runtime_checkpoint (handoff_adapter ''browser'')
     (Some (plain_store (sound_files\<lparr>env_fails := \<lambda>c. c = Sync_temp\<rparr>)))
     counting_sink 60000 ''principal-binding-1'' None 10 sample_held no_files 0))) = None"
proof -
  let ?x = "runtime_checkpoint (handoff_adapter ''browser'')
     (Some (plain_store (sound_files\<lparr>env_fails := \<lambda>c. c = Sync_temp\<rparr>)))
     counting_sink 60000 ''principal-binding-1'' None 10 sample_held no_files (0 :: nat)"
  obtain result s' f' u' where x: "?x = (result, s', f', u')" by (metis prod_cases4)
  have "isl (fst ?x)"
    by (simp add: runtime_checkpoint_def handoff_adapter_def handoff_checkpointable_def sample_held_def plain_store_def
        file_store_ops_def store_write_object write_calls_def call_fails_def sound_files_def
        split: sum.split prod.split)
  moreover have "hs_active sample_held \<noteq> None" by (simp add: sample_held_def)
  ultimately show ?thesis
    using failed_checkpoint_ends_control [OF x [unfolded plain_store_def]] x by (auto simp: isl_def)
qed

text \<open>C30. A checkpoint comes back to its owner only. After a checkpoint returned, and after any restart that kept the
  file, \<open>recover\<close> gives its exact record, marked for revalidation, to a runtime of the same adapter kind asked by
  the same principal before the expiry, and nothing to any other kind or principal. After a checkpoint taken with
  nothing active, it gives nothing to anybody. What the audit sinks do changes none of it.\<close>

theorem checkpoint_comes_back_to_owner:
  assumes "runtime_checkpoint (handoff_adapter kind) (Some (file_store_ops hmac nt key env)) au ttl pb d now s f u
      = (Inr (), s', f', u')"
    and "num_safe_integer t" and "num_lt t (num_of_int (now + ttl))"
  shows "fst (runtime_recover (handoff_adapter kind') (Some (file_store_ops hmac nt key env')) au' pb' t t' f' u'')
    = Inr (case hs_active s of
        None \<Rightarrow> None
      | Some a \<Rightarrow> if kind = kind' \<and> pb = pb' then Some (mark_recovery
          \<lparr>cp_adapter = kind, cp_intervention = iv_id a, cp_status = iv_status a, cp_epoch = iv_epoch a,
           cp_policy = iv_policy a, cp_principal = pb, cp_digest = present_digest d, cp_updated = iv_updated a,
           cp_expires = now + ttl\<rparr>) else None)"
proof -
  have env: "runtime_recover ad (Some (file_store_ops hmac nt key env')) au' pb' t t' f' u''
      = runtime_recover ad (Some (file_store_ops hmac nt key env)) au' pb' t t' f' u''" for ad
    by (simp add: runtime_recover_def file_store_ops_def)
  show ?thesis
  proof (cases "hs_active s")
    case None
    then have "handoff_checkpointable s = None" by (simp add: handoff_checkpointable_def)
    from stored_handoff.cleared_recovers_nothing [OF _ this] assms(1) None
    show ?thesis unfolding env by (simp add: handoff_adapter_def file_store_ops_def)
  next
    case (Some a)
    then have "handoff_checkpointable s = Some \<lparr>ci_id = iv_id a, ci_status = iv_status a, ci_epoch = iv_epoch a,
        ci_policy = iv_policy a, ci_updated = iv_updated a\<rparr>" by (simp add: handoff_checkpointable_def)
    note recovers = stored_handoff.checkpoint_recovers
      [OF assms(1) [unfolded handoff_adapter_def file_store_ops_def] this assms(2,3)]
    show ?thesis
      unfolding env unfolding handoff_adapter_def file_store_ops_def
      by (rule trans [OF conjunct2 [OF recovers]]) (simp add: Some checkpoint_for_def)
  qed
qed

theorem checkpoint_comes_back_to_owner_witness:
  "\<exists>f'. runtime_checkpoint (handoff_adapter ''browser'') (Some (plain_store sound_files)) counting_sink 60000
       ''principal-binding-1'' None 10 sample_held no_files 0 = (Inr (), sample_held, f', 1)
     \<and> fst (runtime_recover (handoff_adapter ''browser'' :: ((string, string) handoff_state, handoff_error) adapter_ops)
         (Some (plain_store sound_files)) counting_sink ''principal-binding-2'' (Fin 20) 20 f' 0) = Inr None"
proof -
  define c where "c = \<lparr>cp_adapter = ''browser'', cp_intervention = ''i1'', cp_status = Human_active, cp_epoch = 2,
    cp_policy = Revalidate, cp_principal = ''principal-binding-1'', cp_digest = None, cp_updated = 7,
    cp_expires = 60010\<rparr>"
  have "checkpoint_valid c" by (simp add: c_def checkpoint_valid_def)
  then obtain f' where "store_write (\<lambda>k t. k @ t) (\<lambda>_. ''0'') (replicate 32 CHR ''k'') sound_files
      (JObj (checkpoint_object c)) no_files = (Inr (), f')"
    using sound_write by blast
  then have run: "runtime_checkpoint (handoff_adapter ''browser'') (Some (plain_store sound_files)) counting_sink 60000
       ''principal-binding-1'' None 10 sample_held no_files 0 = (Inr (), sample_held, f', 1)"
    by (simp add: runtime_checkpoint_def handoff_adapter_def handoff_checkpointable_def sample_held_def plain_store_def
        file_store_ops_def checkpoint_for_def present_digest_def c_def record_audit_def counting_sink_def)
  have "num_safe_integer (Fin 20)" "num_lt (Fin 20) (num_of_int (10 + 60000))" by simp_all
  from checkpoint_comes_back_to_owner [OF run [unfolded plain_store_def] this, of "''browser''" sound_files
      counting_sink "''principal-binding-2''" 20 0] run
  show ?thesis by (auto simp: sample_held_def plain_store_def)
qed

end
