(* ===== verification/Worker_Registry.thy ===== *)
theory Worker_Registry
  imports Fencing "HOL-Library.AList"
begin

text \<open>
  \<open>src/core/hosted-worker.ts\<close>: \<open>HostedWorkerRegistry\<close>, which fences worker generations and
  routes interventions to workers. The routes keep the insertion order of the JavaScript map.
\<close>

section \<open>Data\<close>

datatype registry_error =
    HOSTED_WORKER_INVALID
  | HOSTED_WORKER_IDENTITY_CONFLICT
  | HOSTED_WORKER_ALREADY_CONNECTED
  | HOSTED_WORKER_NOT_CONNECTED
  | HOSTED_WORKER_STALE_GENERATION
  | HOSTED_WORKER_PRINCIPAL_MISMATCH
  | HOSTED_WORKER_ROUTE_CONFLICT
  | HOSTED_WORKER_ROUTE_NOT_FOUND

record registration_request =
  rq_worker_id :: string
  rq_principal_binding :: string
  rq_channel :: string

record registration =
  rg_worker :: string
  rg_principal :: string
  rg_generation :: int
  rg_at :: int

record route_lease =
  rt_intervention :: string
  rt_epoch :: int
  rt_principal :: string
  rt_worker :: string
  rt_generation :: int

record active_worker =
  aw_registration :: registration
  aw_channel :: string

record route_history =
  ro_lease :: route_lease
  ro_active :: bool

record registry =
  wr_active :: "string \<rightharpoonup> active_worker"
  wr_principals :: "string \<rightharpoonup> string"
  wr_generations :: "string \<rightharpoonup> int"
  wr_routes :: "(string \<times> route_history) list"

definition empty_registry :: registry where
  "empty_registry = \<lparr>wr_active = Map.empty, wr_principals = Map.empty, wr_generations = Map.empty,
     wr_routes = []\<rparr>"

section \<open>Request parsing\<close>

definition parse_registration_request :: "jsval \<Rightarrow> registry_error + registration_request" where
  "parse_registration_request v = (case v of
       JObj ps \<Rightarrow>
         if \<not> keys_within ps [''workerId'', ''principalBinding'', ''channelBinding'']
           \<or> \<not> bounded_string (get_prop ps ''workerId'') 1 160
           \<or> \<not> bounded_string (get_prop ps ''principalBinding'') 16 160
           \<or> \<not> bounded_string (get_prop ps ''channelBinding'') 16 160
         then Inl HOSTED_WORKER_INVALID
         else Inr \<lparr>rq_worker_id = str_of_val (get_prop ps ''workerId''),
                   rq_principal_binding = str_of_val (get_prop ps ''principalBinding''),
                   rq_channel = str_of_val (get_prop ps ''channelBinding'')\<rparr>
     | _ \<Rightarrow> Inl HOSTED_WORKER_INVALID)"

definition parse_route_request :: "jsval \<Rightarrow> registry_error + route_lease" where
  "parse_route_request v = (case v of
       JObj ps \<Rightarrow>
         if \<not> keys_within ps [''interventionId'', ''epoch'', ''principalBinding'', ''workerId'',
               ''workerGeneration'']
           \<or> \<not> bounded_string (get_prop ps ''interventionId'') 1 160
           \<or> \<not> safe_int_from 0 (get_prop ps ''epoch'')
           \<or> \<not> bounded_string (get_prop ps ''principalBinding'') 16 160
           \<or> \<not> bounded_string (get_prop ps ''workerId'') 1 160
           \<or> \<not> safe_int_from 1 (get_prop ps ''workerGeneration'')
         then Inl HOSTED_WORKER_INVALID
         else Inr \<lparr>rt_intervention = str_of_val (get_prop ps ''interventionId''),
                   rt_epoch = int_of_val (get_prop ps ''epoch''),
                   rt_principal = str_of_val (get_prop ps ''principalBinding''),
                   rt_worker = str_of_val (get_prop ps ''workerId''),
                   rt_generation = int_of_val (get_prop ps ''workerGeneration'')\<rparr>
     | _ \<Rightarrow> Inl HOSTED_WORKER_INVALID)"

text \<open>A typed lease or request as the object the code passes around.\<close>

definition route_object :: "route_lease \<Rightarrow> jsval" where
  "route_object l = JObj [(''interventionId'', JStr (rt_intervention l)), (''epoch'', jint (rt_epoch l)),
     (''principalBinding'', JStr (rt_principal l)), (''workerId'', JStr (rt_worker l)),
     (''workerGeneration'', jint (rt_generation l))]"

definition registration_object :: "registration_request \<Rightarrow> jsval" where
  "registration_object r = JObj [(''workerId'', JStr (rq_worker_id r)),
     (''principalBinding'', JStr (rq_principal_binding r)), (''channelBinding'', JStr (rq_channel r))]"

definition route_valid :: "route_lease \<Rightarrow> bool" where
  "route_valid l \<longleftrightarrow> bounded_text 1 160 (rt_intervention l) \<and> 0 \<le> rt_epoch l \<and> safe_int (rt_epoch l)
     \<and> bounded_text 16 160 (rt_principal l) \<and> bounded_text 1 160 (rt_worker l)
     \<and> 0 < rt_generation l \<and> safe_int (rt_generation l)"

lemma parse_route_object [simp]:
  "parse_route_request (route_object l) = (if route_valid l then Inr l else Inl HOSTED_WORKER_INVALID)"
  by (auto simp: parse_route_request_def route_object_def route_valid_def keys_within_iff)

lemma parse_route_valid: "parse_route_request v = Inr l \<Longrightarrow> route_valid l"
  by (auto simp: parse_route_request_def route_valid_def safe_int_from_def
      split: jsval.splits if_splits dest: bounded_stringD is_safe_numD)

section \<open>Operations\<close>

definition register_worker ::
  "jsnum \<Rightarrow> jsval \<Rightarrow> registry \<Rightarrow> (registry_error + registration) \<times> registry" where
  "register_worker now v s = (case parse_registration_request v of
       Inl e \<Rightarrow> (Inl e, s)
     | Inr p \<Rightarrow>
         if (case wr_principals s (rq_worker_id p) of
               None \<Rightarrow> False | Some pinned \<Rightarrow> pinned \<noteq> rq_principal_binding p)
         then (Inl HOSTED_WORKER_IDENTITY_CONFLICT, s)
         else (case wr_active s (rq_worker_id p) of
           Some aw \<Rightarrow>
             if rg_principal (aw_registration aw) = rq_principal_binding p \<and> aw_channel aw = rq_channel p
             then (Inr (aw_registration aw), s)
             else (Inl HOSTED_WORKER_ALREADY_CONNECTED, s)
         | None \<Rightarrow>
             (let previous = (case wr_generations s (rq_worker_id p) of None \<Rightarrow> 0 | Some g \<Rightarrow> g) in
              if \<not> safe_int previous \<or> max_safe_integer \<le> previous then (Inl HOSTED_WORKER_INVALID, s)
              else if \<not> num_safe_integer now \<or> num_lt now (num_of_int 0)
              then (Inl HOSTED_WORKER_INVALID, s)
              else (let r = \<lparr>rg_worker = rq_worker_id p, rg_principal = rq_principal_binding p,
                             rg_generation = previous + 1, rg_at = num_to_int now\<rparr>
                in (Inr r, s\<lparr>wr_principals := (wr_principals s)(rq_worker_id p \<mapsto> rq_principal_binding p),
                       wr_generations := (wr_generations s)(rq_worker_id p \<mapsto> previous + 1),
                       wr_active := (wr_active s)(rq_worker_id p \<mapsto>
                         \<lparr>aw_registration = r, aw_channel = rq_channel p\<rparr>)\<rparr>)))))"

definition get_worker :: "string \<Rightarrow> registry \<Rightarrow> registration option" where
  "get_worker w s = (if \<not> bounded_text 1 160 w then None else map_option aw_registration (wr_active s w))"

definition require_worker :: "string \<Rightarrow> registry \<Rightarrow> registry_error + active_worker" where
  "require_worker w s =
     (if \<not> bounded_text 1 160 w then Inl HOSTED_WORKER_INVALID
      else case wr_active s w of None \<Rightarrow> Inl HOSTED_WORKER_NOT_CONNECTED | Some aw \<Rightarrow> Inr aw)"

definition route_of_worker :: "string \<Rightarrow> int \<Rightarrow> route_history \<Rightarrow> bool" where
  "route_of_worker w g r \<longleftrightarrow>
     ro_active r \<and> rt_worker (ro_lease r) = w \<and> rt_generation (ro_lease r) = g"

definition disconnect_worker ::
  "string \<Rightarrow> jsnum \<Rightarrow> string \<Rightarrow> registry \<Rightarrow> (registry_error + route_lease list) \<times> registry" where
  "disconnect_worker w g ch s = (case require_worker w s of
       Inl e \<Rightarrow> (Inl e, s)
     | Inr aw \<Rightarrow>
         if \<not> num_safe_integer g \<or> num_le g (num_of_int 0)
           \<or> \<not> num_eq (num_of_int (rg_generation (aw_registration aw))) g
         then (Inl HOSTED_WORKER_STALE_GENERATION, s)
         else if \<not> bounded_text 16 160 ch \<or> aw_channel aw \<noteq> ch
         then (Inl HOSTED_WORKER_STALE_GENERATION, s)
         else (Inr (map (ro_lease \<circ> snd) (filter (route_of_worker w (num_to_int g) \<circ> snd) (wr_routes s))),
               s\<lparr>wr_active := (wr_active s)(w := None),
                 wr_routes := map (\<lambda>(i, r). (i, if route_of_worker w (num_to_int g) r
                     then r\<lparr>ro_active := False\<rparr> else r)) (wr_routes s)\<rparr>))"

definition bind_intervention :: "jsval \<Rightarrow> registry \<Rightarrow> (registry_error + route_lease) \<times> registry" where
  "bind_intervention v s = (case parse_route_request v of
       Inl e \<Rightarrow> (Inl e, s)
     | Inr p \<Rightarrow> (case require_worker (rt_worker p) s of
           Inl e \<Rightarrow> (Inl e, s)
         | Inr aw \<Rightarrow>
             if rg_generation (aw_registration aw) \<noteq> rt_generation p
             then (Inl HOSTED_WORKER_STALE_GENERATION, s)
             else if rg_principal (aw_registration aw) \<noteq> rt_principal p
             then (Inl HOSTED_WORKER_PRINCIPAL_MISMATCH, s)
             else (case map_of (wr_routes s) (rt_intervention p) of
                 Some r \<Rightarrow>
                   if rt_principal (ro_lease r) \<noteq> rt_principal p \<or> rt_worker (ro_lease r) \<noteq> rt_worker p
                   then (Inl HOSTED_WORKER_ROUTE_CONFLICT, s)
                   else if rt_epoch p < rt_epoch (ro_lease r)
                   then (Inl HOSTED_WORKER_ROUTE_CONFLICT, s)
                   else if rt_epoch (ro_lease r) = rt_epoch p \<and> ro_active r
                   then (if rt_generation (ro_lease r) \<noteq> rt_generation p
                         then (Inl HOSTED_WORKER_ROUTE_CONFLICT, s)
                         else (Inr (ro_lease r), s))
                   else (let l = (ro_lease r)\<lparr>rt_epoch := rt_epoch p, rt_generation := rt_generation p\<rparr>
                     in (Inr l, s\<lparr>wr_routes := AList.update (rt_intervention p)
                           \<lparr>ro_lease = l, ro_active = True\<rparr> (wr_routes s)\<rparr>))
               | None \<Rightarrow> (Inr p, s\<lparr>wr_routes := AList.update (rt_intervention p)
                           \<lparr>ro_lease = p, ro_active = True\<rparr> (wr_routes s)\<rparr>))))"

definition assert_current :: "jsval \<Rightarrow> registry \<Rightarrow> registry_error + unit" where
  "assert_current v s = (case parse_route_request v of
       Inl e \<Rightarrow> Inl e
     | Inr p \<Rightarrow> (case (wr_active s (rt_worker p), map_of (wr_routes s) (rt_intervention p)) of
           (Some aw, Some r) \<Rightarrow>
             if rg_generation (aw_registration aw) \<noteq> rt_generation p
               \<or> rg_principal (aw_registration aw) \<noteq> rt_principal p
               \<or> \<not> ro_active r \<or> rt_epoch (ro_lease r) \<noteq> rt_epoch p
               \<or> rt_principal (ro_lease r) \<noteq> rt_principal p \<or> rt_worker (ro_lease r) \<noteq> rt_worker p
               \<or> rt_generation (ro_lease r) \<noteq> rt_generation p
             then Inl HOSTED_WORKER_STALE_GENERATION else Inr ()
         | _ \<Rightarrow> Inl HOSTED_WORKER_STALE_GENERATION))"

definition release_intervention :: "jsval \<Rightarrow> registry \<Rightarrow> (registry_error + unit) \<times> registry" where
  "release_intervention v s = (case parse_route_request v of
       Inl e \<Rightarrow> (Inl e, s)
     | Inr p \<Rightarrow> (case map_of (wr_routes s) (rt_intervention p) of
           None \<Rightarrow> (Inl HOSTED_WORKER_ROUTE_NOT_FOUND, s)
         | Some r \<Rightarrow>
             if \<not> ro_active r then (Inl HOSTED_WORKER_ROUTE_NOT_FOUND, s)
             else if rt_epoch (ro_lease r) \<noteq> rt_epoch p \<or> rt_principal (ro_lease r) \<noteq> rt_principal p
               \<or> rt_worker (ro_lease r) \<noteq> rt_worker p \<or> rt_generation (ro_lease r) \<noteq> rt_generation p
             then (Inl HOSTED_WORKER_STALE_GENERATION, s)
             else (Inr (), s\<lparr>wr_routes := AList.update (rt_intervention p)
                     (r\<lparr>ro_active := False\<rparr>) (wr_routes s)\<rparr>)))"

section \<open>The invariant\<close>

definition route_of :: "registry \<Rightarrow> string \<Rightarrow> route_history option" where
  "route_of s i = map_of (wr_routes s) i"

definition worker_good :: "registry \<Rightarrow> bool" where
  "worker_good s \<longleftrightarrow>
     (\<forall>w aw. wr_active s w = Some aw \<longrightarrow> rg_worker (aw_registration aw) = w
        \<and> wr_principals s w = Some (rg_principal (aw_registration aw))
        \<and> wr_generations s w = Some (rg_generation (aw_registration aw)))
     \<and> (\<forall>w g. wr_generations s w = Some g \<longrightarrow> 0 < g \<and> safe_int g \<and> wr_principals s w \<noteq> None)"

text \<open>An active route is held by the connected worker of its own generation and principal.\<close>

definition held :: "registry \<Rightarrow> route_lease \<Rightarrow> bool" where
  "held s l \<longleftrightarrow> (\<exists>aw. wr_active s (rt_worker l) = Some aw
     \<and> rg_generation (aw_registration aw) = rt_generation l
     \<and> rg_principal (aw_registration aw) = rt_principal l)"

definition routes_good :: "registry \<Rightarrow> bool" where
  "routes_good s \<longleftrightarrow> distinct (map fst (wr_routes s))
     \<and> (\<forall>i r. route_of s i = Some r \<longrightarrow> rt_intervention (ro_lease r) = i \<and> route_valid (ro_lease r)
          \<and> (ro_active r \<longrightarrow> held s (ro_lease r)))"

definition registry_good :: "registry \<Rightarrow> bool" where
  "registry_good s \<longleftrightarrow> worker_good s \<and> routes_good s"

lemma route_of_update [simp]:
  "route_of (s\<lparr>wr_routes := AList.update i r (wr_routes s)\<rparr>) j = (if j = i then Some r else route_of s j)"
  by (simp add: route_of_def update_conv')

lemma registry_good_empty [wf_intros, simp]: "registry_good empty_registry"
  by (simp add: registry_good_def worker_good_def routes_good_def empty_registry_def route_of_def)

text \<open>The successful registrations: the same channel again, or a fresh generation.\<close>

lemma register_cases:
  obtains (same) "snd (register_worker now v s) = s"
  | (fresh) p where "parse_registration_request v = Inr p" "wr_active s (rq_worker_id p) = None"
      "\<forall>pb. wr_principals s (rq_worker_id p) = Some pb \<longrightarrow> pb = rq_principal_binding p"
      "register_worker now v s =
        (let previous = (case wr_generations s (rq_worker_id p) of None \<Rightarrow> 0 | Some g \<Rightarrow> g);
             r = \<lparr>rg_worker = rq_worker_id p, rg_principal = rq_principal_binding p,
                  rg_generation = previous + 1, rg_at = num_to_int now\<rparr>
         in (Inr r, s\<lparr>wr_principals := (wr_principals s)(rq_worker_id p \<mapsto> rq_principal_binding p),
               wr_generations := (wr_generations s)(rq_worker_id p \<mapsto> previous + 1),
               wr_active := (wr_active s)(rq_worker_id p \<mapsto>
                 \<lparr>aw_registration = r, aw_channel = rq_channel p\<rparr>)\<rparr>))"
      "(case wr_generations s (rq_worker_id p) of None \<Rightarrow> 0 | Some g \<Rightarrow> g) < max_safe_integer"
proof (cases "snd (register_worker now v s) = s")
  case True
  then show thesis by (rule same)
next
  case False
  then obtain p where p: "parse_registration_request v = Inr p" "wr_active s (rq_worker_id p) = None"
      "\<forall>pb. wr_principals s (rq_worker_id p) = Some pb \<longrightarrow> pb = rq_principal_binding p"
      "\<not> max_safe_integer \<le> (case wr_generations s (rq_worker_id p) of None \<Rightarrow> 0 | Some g \<Rightarrow> g)"
      "safe_int (case wr_generations s (rq_worker_id p) of None \<Rightarrow> 0 | Some g \<Rightarrow> g)"
      "num_safe_integer now \<and> \<not> num_lt now (num_of_int 0)"
    by (auto simp: register_worker_def Let_def split: sum.splits option.splits if_splits)
  show thesis
    by (rule fresh [OF p(1-3)])
      (use p in \<open>auto simp: register_worker_def Let_def split: option.splits\<close>)
qed

lemma register_good:
  assumes "registry_good s"
  shows "registry_good (snd (register_worker now v s))"
proof (cases rule: register_cases [of now v s])
  case same
  with assms show ?thesis by simp
next
  case (fresh p)
  let ?w = "rq_worker_id p"
  have pos: "0 \<le> (case wr_generations s ?w of None \<Rightarrow> 0 | Some g \<Rightarrow> g)"
    using assms by (auto simp: registry_good_def worker_good_def split: option.splits)
      (metis less_imp_le)
  with fresh(5) have "safe_int ((case wr_generations s ?w of None \<Rightarrow> 0 | Some g \<Rightarrow> g) + 1)"
    by (simp add: safe_int_def)
  with assms fresh pos have "worker_good (snd (register_worker now v s))"
    by (auto simp: registry_good_def worker_good_def Let_def)
  moreover have "held (snd (register_worker now v s)) l" if "held s l" for l
    using that fresh by (auto simp: held_def Let_def)
  moreover have "wr_routes (snd (register_worker now v s)) = wr_routes s"
    using fresh by (simp add: Let_def)
  ultimately show ?thesis
    using assms by (auto simp: registry_good_def routes_good_def route_of_def)
qed

definition deactivate :: "string \<Rightarrow> int \<Rightarrow> route_history \<Rightarrow> route_history" where
  "deactivate w g r = (if route_of_worker w g r then r\<lparr>ro_active := False\<rparr> else r)"

lemma disconnect_ok:
  assumes "fst (disconnect_worker w g ch s) = Inr ls"
  obtains aw where "wr_active s w = Some aw" "g = num_of_int (rg_generation (aw_registration aw))"
    "aw_channel aw = ch"
    "ls = map (ro_lease \<circ> snd) (filter (route_of_worker w (rg_generation (aw_registration aw)) \<circ> snd) (wr_routes s))"
    "snd (disconnect_worker w g ch s) = s\<lparr>wr_active := (wr_active s)(w := None),
       wr_routes := map (\<lambda>(i, r). (i, deactivate w (rg_generation (aw_registration aw)) r)) (wr_routes s)\<rparr>"
proof -
  obtain aw where aw: "wr_active s w = Some aw" "bounded_text 1 160 w"
    using assms by (auto simp: disconnect_worker_def require_worker_def split: option.splits if_splits)
  have g: "g = num_of_int (rg_generation (aw_registration aw))"
    using assms aw by (cases g) (auto simp: disconnect_worker_def require_worker_def split: if_splits)
  show thesis
    by (rule that [OF aw(1) g])
      (use assms aw g in \<open>auto simp: disconnect_worker_def require_worker_def deactivate_def split: if_splits\<close>)
qed

lemma disconnect_failed: "fst (disconnect_worker w g ch s) = Inl e \<Longrightarrow> snd (disconnect_worker w g ch s) = s"
  by (auto simp: disconnect_worker_def split: sum.splits if_splits)

lemma route_of_deactivated:
  "route_of (s\<lparr>wr_active := m, wr_routes := map (\<lambda>(i, r). (i, deactivate w g r)) (wr_routes s)\<rparr>) i
     = map_option (deactivate w g) (route_of s i)"
  by (simp add: route_of_def map_of_map)

lemma disconnect_good:
  assumes good: "registry_good s"
  shows "registry_good (snd (disconnect_worker w g ch s))"
proof (cases "fst (disconnect_worker w g ch s)")
  case (Inl e)
  with good show ?thesis by (simp add: disconnect_failed)
next
  case (Inr ls)
  then obtain aw where aw: "wr_active s w = Some aw"
      and s': "snd (disconnect_worker w g ch s) = s\<lparr>wr_active := (wr_active s)(w := None),
         wr_routes := map (\<lambda>(i, r). (i, deactivate w (rg_generation (aw_registration aw)) r)) (wr_routes s)\<rparr>"
    by (rule disconnect_ok)
  have "held (snd (disconnect_worker w g ch s)) (ro_lease (deactivate w (rg_generation (aw_registration aw)) r))"
    if "route_of s i = Some r" and "ro_active (deactivate w (rg_generation (aw_registration aw)) r)" for i r
  proof -
    have "ro_active r" and other: "\<not> route_of_worker w (rg_generation (aw_registration aw)) r"
      using that by (auto simp: deactivate_def split: if_splits)
    with good that have "held s (ro_lease r)" by (auto simp: registry_good_def routes_good_def)
    with aw other \<open>ro_active r\<close> have "rt_worker (ro_lease r) \<noteq> w"
      by (auto simp: held_def route_of_worker_def)
    with \<open>held s (ro_lease r)\<close> other show ?thesis by (simp add: s' held_def deactivate_def)
  qed
  moreover have "route_of (snd (disconnect_worker w g ch s)) i
      = map_option (deactivate w (rg_generation (aw_registration aw))) (route_of s i)" for i
    by (simp add: s' route_of_deactivated)
  moreover have "map fst (wr_routes (snd (disconnect_worker w g ch s))) = map fst (wr_routes s)"
    by (auto simp: s')
  moreover have "rt_intervention (ro_lease (deactivate w k r)) = rt_intervention (ro_lease r)"
      "route_valid (ro_lease (deactivate w k r)) = route_valid (ro_lease r)" for k r
    by (auto simp: deactivate_def)
  moreover have "worker_good (snd (disconnect_worker w g ch s))"
    using good by (simp add: s' registry_good_def worker_good_def)
  ultimately show ?thesis
    using good by (auto simp: registry_good_def routes_good_def)
qed

text \<open>Binding and releasing change one route.\<close>

lemma bind_cases:
  obtains (same) "snd (bind_intervention v s) = s"
    | (bound) p where "parse_route_request v = Inr p" "held s p"
        "fst (bind_intervention v s) = Inr p"
        "snd (bind_intervention v s) = s\<lparr>wr_routes := AList.update (rt_intervention p)
           \<lparr>ro_lease = p, ro_active = True\<rparr> (wr_routes s)\<rparr>"
        "\<forall>r. route_of s (rt_intervention p) = Some r \<longrightarrow>
           rt_principal (ro_lease r) = rt_principal p \<and> rt_worker (ro_lease r) = rt_worker p
           \<and> rt_epoch (ro_lease r) \<le> rt_epoch p"
    | (bad_key) r where "route_of s (rt_intervention (projr (parse_route_request v))) = Some r"
        "rt_intervention (ro_lease r) \<noteq> rt_intervention (projr (parse_route_request v))"
proof (cases "snd (bind_intervention v s) = s")
  case True
  then show thesis by (rule same)
next
  case False
  then obtain p aw where p: "parse_route_request v = Inr p" "require_worker (rt_worker p) s = Inr aw"
      "rg_generation (aw_registration aw) = rt_generation p"
      "rg_principal (aw_registration aw) = rt_principal p"
    by (auto simp: bind_intervention_def split: sum.splits if_splits)
  then have "held s p"
    by (auto simp: held_def require_worker_def split: if_splits option.splits)
  show thesis
  proof (cases "route_of s (rt_intervention p)")
    case None
    with p \<open>held s p\<close> show thesis
      by (intro bound [of p]) (auto simp: bind_intervention_def route_of_def)
  next
    case (Some r)
    show thesis
    proof (cases "rt_intervention (ro_lease r) = rt_intervention p")
      case True
      with False p Some have "rt_principal (ro_lease r) = rt_principal p"
          "rt_worker (ro_lease r) = rt_worker p" "rt_epoch (ro_lease r) \<le> rt_epoch p"
          "\<not> (rt_epoch (ro_lease r) = rt_epoch p \<and> ro_active r)"
        by (auto simp: bind_intervention_def route_of_def split: if_splits)
      moreover from this True
      have "(ro_lease r)\<lparr>rt_epoch := rt_epoch p, rt_generation := rt_generation p\<rparr> = p" by simp
      ultimately show thesis
        using p Some \<open>held s p\<close>
        by (intro bound [of p]) (auto simp: bind_intervention_def route_of_def Let_def)
    next
      case False
      with p Some show thesis by (intro bad_key) auto
    qed
  qed
qed

lemma bind_good:
  assumes good: "registry_good s"
  shows "registry_good (snd (bind_intervention v s))"
proof (cases rule: bind_cases [of v s])
  case same
  with good show ?thesis by simp
next
  case (bound p)
  have "route_valid p" using bound(1) by (rule parse_route_valid)
  moreover have "held (s\<lparr>wr_routes := rs\<rparr>) l = held s l" for rs l by (simp add: held_def)
  ultimately show ?thesis
    using good bound
    by (auto simp: registry_good_def worker_good_def routes_good_def distinct_update)
next
  case (bad_key r)
  with good show ?thesis by (auto simp: registry_good_def routes_good_def)
qed

lemma release_cases:
  obtains (same) "snd (release_intervention v s) = s"
    | (released) p r where "parse_route_request v = Inr p" "route_of s (rt_intervention p) = Some r"
        "ro_active r" "rt_worker (ro_lease r) = rt_worker p" "rt_epoch (ro_lease r) = rt_epoch p"
        "fst (release_intervention v s) = Inr ()"
        "snd (release_intervention v s) = s\<lparr>wr_routes := AList.update (rt_intervention p)
           (r\<lparr>ro_active := False\<rparr>) (wr_routes s)\<rparr>"
proof (cases "snd (release_intervention v s) = s")
  case False
  then obtain p r where "parse_route_request v = Inr p" "route_of s (rt_intervention p) = Some r"
      "ro_active r" "rt_worker (ro_lease r) = rt_worker p" "rt_epoch (ro_lease r) = rt_epoch p"
      "rt_principal (ro_lease r) = rt_principal p" "rt_generation (ro_lease r) = rt_generation p"
    by (auto simp: release_intervention_def route_of_def split: sum.splits option.splits if_splits)
  then show thesis
    by (intro released [of p r]) (auto simp: release_intervention_def route_of_def)
qed (rule same)

lemma release_good:
  assumes good: "registry_good s"
  shows "registry_good (snd (release_intervention v s))"
proof (cases rule: release_cases [of v s])
  case same
  with good show ?thesis by simp
next
  case (released p r)
  with good show ?thesis
    by (auto simp: registry_good_def worker_good_def routes_good_def distinct_update held_def)
qed

section \<open>Runs of the registry\<close>

datatype registry_call =
    Register jsnum jsval
  | Disconnect string jsnum string
  | Bind_route jsval
  | Release_route jsval

fun registry_step :: "registry \<Rightarrow> registry_call \<Rightarrow> registry" where
  "registry_step s (Register now v) = snd (register_worker now v s)"
| "registry_step s (Disconnect w g ch) = snd (disconnect_worker w g ch s)"
| "registry_step s (Bind_route v) = snd (bind_intervention v s)"
| "registry_step s (Release_route v) = snd (release_intervention v s)"

lemma registry_good_step [wf_intros]: "registry_good s \<Longrightarrow> registry_good (registry_step s c)"
  by (cases c) (simp_all add: register_good disconnect_good bind_good release_good)

text \<open>A bind that returns leaves the route it returns stored and active; one that throws changes
  nothing; no other intervention's route is touched.\<close>

lemma bind_failed: "fst (bind_intervention v s) = Inl e \<Longrightarrow> snd (bind_intervention v s) = s"
  by (auto simp: bind_intervention_def Let_def split: sum.splits option.splits if_splits)

lemma bind_stored:
  assumes good: "registry_good s" and l: "fst (bind_intervention v s) = Inr l"
  shows "parse_route_request v = Inr l
    \<and> route_of (snd (bind_intervention v s)) (rt_intervention l) = Some \<lparr>ro_lease = l, ro_active = True\<rparr>"
proof -
  obtain p where p: "parse_route_request v = Inr p"
    using l by (cases "parse_route_request v") (simp_all add: bind_intervention_def)
  then obtain aw where aw: "require_worker (rt_worker p) s = Inr aw"
    using l by (cases "require_worker (rt_worker p) s") (simp_all add: bind_intervention_def)
  show ?thesis
  proof (cases "route_of s (rt_intervention p)")
    case None
    with l p aw show ?thesis
      by (auto simp: bind_intervention_def route_of_def update_conv' split: if_splits)
  next
    case (Some r)
    then have "rt_intervention (ro_lease r) = rt_intervention p"
      using good by (auto simp: registry_good_def routes_good_def)
    with Some l p aw show ?thesis
      by (cases r; cases "ro_lease r"; cases p)
        (auto simp: bind_intervention_def route_of_def Let_def update_conv' split: if_splits)
  qed
qed

lemma bind_other_routes:
  assumes "registry_good s" and "fst (bind_intervention v s) = Inr l" and "rt_intervention l' \<noteq> rt_intervention l"
  shows "assert_current (route_object l') (snd (bind_intervention v s)) = assert_current (route_object l') s"
proof (cases rule: bind_cases [of v s])
  case (bound p)
  with assms show ?thesis by (simp add: assert_current_def update_conv')
next
  case (bad_key r)
  with assms show ?thesis by (auto simp: registry_good_def routes_good_def)
qed simp

definition worker_generation :: "string \<Rightarrow> registry \<Rightarrow> int" where
  "worker_generation w s = (case wr_generations s w of None \<Rightarrow> 0 | Some g \<Rightarrow> g)"

lemma generations_unchanged:
  "wr_generations (snd (disconnect_worker w g ch s)) = wr_generations s"
  "wr_generations (snd (bind_intervention v s)) = wr_generations s"
  "wr_generations (snd (release_intervention v s)) = wr_generations s"
  by (simp add: disconnect_worker_def split: sum.split)
    (simp add: bind_intervention_def Let_def split: sum.split option.split,
     simp add: release_intervention_def split: sum.split option.split)

lemma register_generation:
  "worker_generation w s \<le> worker_generation w (snd (register_worker now v s))"
proof (cases rule: register_cases [of now v s])
  case (fresh p)
  then show ?thesis by (auto simp: worker_generation_def Let_def split: option.splits)
qed simp

lemma worker_generation_step: "worker_generation w s \<le> worker_generation w (registry_step s c)"
proof (cases c)
  case (Register now v)
  then show ?thesis by (simp add: register_generation)
qed (simp_all add: worker_generation_def generations_unchanged)

text \<open>For a good registry, a route is current exactly when it is the stored active one.\<close>

lemma assert_current_iff:
  assumes "registry_good s"
  shows "assert_current (route_object l) s = Inr () \<longleftrightarrow>
    (\<exists>r. route_of s (rt_intervention l) = Some r \<and> ro_active r \<and> ro_lease r = l)"
proof
  assume current: "assert_current (route_object l) s = Inr ()"
  then obtain r where r: "route_of s (rt_intervention l) = Some r" "ro_active r"
      "rt_epoch (ro_lease r) = rt_epoch l" "rt_principal (ro_lease r) = rt_principal l"
      "rt_worker (ro_lease r) = rt_worker l" "rt_generation (ro_lease r) = rt_generation l"
    by (auto simp: assert_current_def route_of_def split: sum.splits option.splits if_splits)
  moreover have "rt_intervention (ro_lease r) = rt_intervention l"
    using assms r(1) by (auto simp: registry_good_def routes_good_def)
  ultimately show "\<exists>r. route_of s (rt_intervention l) = Some r \<and> ro_active r \<and> ro_lease r = l" by auto
next
  assume "\<exists>r. route_of s (rt_intervention l) = Some r \<and> ro_active r \<and> ro_lease r = l"
  then obtain r where r: "route_of s (rt_intervention l) = Some r" "ro_active r" "ro_lease r = l" by blast
  with assms have "route_valid l" "held s l" by (auto simp: registry_good_def routes_good_def)
  with r show "assert_current (route_object l) s = Inr ()"
    by (auto simp: assert_current_def held_def route_of_def)
qed

lemma current_generation:
  assumes "registry_good s" and "assert_current (route_object l) s = Inr ()"
  shows "rt_generation l = worker_generation (rt_worker l) s"
proof -
  from assms have "held s l"
    by (auto simp: assert_current_iff registry_good_def routes_good_def)
  with assms(1) show ?thesis
    by (auto simp: held_def registry_good_def worker_good_def worker_generation_def)
qed

definition admits_route :: "string \<Rightarrow> registry \<Rightarrow> int \<Rightarrow> bool" where
  "admits_route w s g \<longleftrightarrow>
     (\<exists>l. rt_worker l = w \<and> rt_generation l = g \<and> assert_current (route_object l) s = Inr ())"

interpretation worker_fence: fenced_machine registry_step registry_good
  "worker_generation w" "admits_route w" for w
  by unfold_locales
    (auto simp: registry_good_step worker_generation_step admits_route_def current_generation)

text \<open>A fresh registration takes a generation above every earlier one.\<close>

lemma register_fresh_generation:
  assumes "registry_good s" and "wr_active s w = None" and "fst (register_worker now v s) = Inr r" and "rg_worker r = w"
  shows "rg_generation r = worker_generation w s + 1
    \<and> worker_generation w (snd (register_worker now v s)) = rg_generation r"
proof -
  obtain p where p: "parse_registration_request v = Inr p"
    using assms(3) by (cases "parse_registration_request v") (simp_all add: register_worker_def)
  have "rq_worker_id p = w"
  proof (cases "wr_active s (rq_worker_id p)")
    case None
    with assms p show ?thesis by (simp add: register_worker_def Let_def split: if_split_asm) auto
  next
    case (Some aw)
    with assms(3) p have "r = aw_registration aw"
      by (simp add: register_worker_def split: if_split_asm)
    with assms(1,4) Some show ?thesis by (auto simp: registry_good_def worker_good_def)
  qed
  with assms p have "r = \<lparr>rg_worker = w, rg_principal = rq_principal_binding p,
      rg_generation = worker_generation w s + 1, rg_at = num_to_int now\<rparr>
    \<and> worker_generation w (snd (register_worker now v s)) = worker_generation w s + 1"
    by (simp add: register_worker_def Let_def worker_generation_def split: if_split_asm)
  then show ?thesis by simp
qed

text \<open>An intervention keeps its worker and principal for the registry's lifetime, and its epoch
  never goes back.\<close>

definition pinned_route :: "string \<Rightarrow> string \<Rightarrow> string \<Rightarrow> int \<Rightarrow> registry \<Rightarrow> bool" where
  "pinned_route i w pb e s \<longleftrightarrow> registry_good s \<and> (\<exists>r. route_of s i = Some r
     \<and> rt_worker (ro_lease r) = w \<and> rt_principal (ro_lease r) = pb \<and> e \<le> rt_epoch (ro_lease r))"

lemma pinned_bind:
  assumes "pinned_route i w pb e s"
  shows "pinned_route i w pb e (snd (bind_intervention v s))"
proof (cases rule: bind_cases [of v s])
  case (bound p)
  then show ?thesis
    using assms bind_good [of s v] unfolding pinned_route_def by (simp split: if_split) force
next
  case (bad_key r)
  with assms show ?thesis by (auto simp: pinned_route_def registry_good_def routes_good_def)
qed (use assms in simp)

lemma pinned_release:
  assumes "pinned_route i w pb e s"
  shows "pinned_route i w pb e (snd (release_intervention v s))"
proof (cases rule: release_cases [of v s])
  case (released p r)
  then show ?thesis
    using assms release_good [of s v] unfolding pinned_route_def by (simp split: if_split) force
qed (use assms in simp)

lemma pinned_disconnect:
  assumes "pinned_route i w pb e s"
  shows "pinned_route i w pb e (snd (disconnect_worker w' g ch s))"
proof (cases "fst (disconnect_worker w' g ch s)")
  case (Inr ls)
  then obtain aw :: active_worker where s': "snd (disconnect_worker w' g ch s) = s\<lparr>wr_active := (wr_active s)(w' := None),
      wr_routes := map (\<lambda>(i, r). (i, deactivate w' (rg_generation (aw_registration aw)) r)) (wr_routes s)\<rparr>"
    by (elim disconnect_ok)
  have "ro_lease (deactivate w' k r) = ro_lease r" for k r by (simp add: deactivate_def)
  then show ?thesis
    using assms disconnect_good [of s w' g ch]
    by (auto simp: pinned_route_def s' route_of_deactivated)
qed (use assms in \<open>simp add: disconnect_failed\<close>)

lemma pinned_register:
  assumes "pinned_route i w pb e s"
  shows "pinned_route i w pb e (snd (register_worker now v s))"
proof (cases rule: register_cases [of now v s])
  case (fresh p)
  then have "wr_routes (snd (register_worker now v s)) = wr_routes s" by (simp add: Let_def)
  with assms register_good [of s now v] show ?thesis
    by (auto simp: pinned_route_def route_of_def)
qed (use assms in simp)

interpretation pinned: guarded_machine registry_step "pinned_route i w pb e" for i w pb e
proof unfold_locales
  fix s c
  assume "pinned_route i w pb e s"
  then show "pinned_route i w pb e (registry_step s c)"
    by (cases c) (simp_all add: pinned_bind pinned_release pinned_disconnect pinned_register)
qed

text \<open>Another worker, or another principal, is refused whatever epoch it brings.\<close>

lemma bind_other_worker_conflicts:
  assumes "pinned_route i w pb e s" and "parse_route_request v = Inr p" and "rt_intervention p = i"
    and "rt_worker p \<noteq> w \<or> rt_principal p \<noteq> pb"
  shows "isl (fst (bind_intervention v s)) \<and> snd (bind_intervention v s) = s"
  using assms by (auto simp: pinned_route_def bind_intervention_def route_of_def split: sum.splits)

section \<open>Dead generations\<close>

text \<open>A worker generation that was disconnected: the worker is away or connected under another
  generation, and the generation counter is past it.\<close>

definition dead_generation :: "string \<Rightarrow> int \<Rightarrow> registry \<Rightarrow> bool" where
  "dead_generation w g s \<longleftrightarrow> registry_good s \<and> g \<le> worker_generation w s
     \<and> (\<forall>aw. wr_active s w = Some aw \<longrightarrow> rg_generation (aw_registration aw) \<noteq> g)"

lemma active_unchanged:
  "wr_active (snd (bind_intervention v s)) = wr_active s"
  "wr_active (snd (release_intervention v s)) = wr_active s"
  by (simp add: bind_intervention_def Let_def split: sum.split option.split)
    (simp add: release_intervention_def split: sum.split option.split)

lemma disconnect_active:
  "wr_active (snd (disconnect_worker w g ch s)) w' = Some aw \<Longrightarrow> wr_active s w' = Some aw"
  by (simp add: disconnect_worker_def split: sum.splits if_splits)

lemma register_active:
  assumes "wr_active (snd (register_worker now v s)) w = Some aw"
  shows "wr_active s w = Some aw \<or> (wr_active s w = None
    \<and> rg_generation (aw_registration aw) = worker_generation w s + 1)"
proof (cases rule: register_cases [of now v s])
  case (fresh p)
  with assms show ?thesis by (auto simp: Let_def worker_generation_def split: if_splits)
qed (use assms in simp)

lemma dead_generation_step: "dead_generation w g s \<Longrightarrow> dead_generation w g (registry_step s c)"
proof -
  assume dead: "dead_generation w g s"
  have "rg_generation (aw_registration aw) \<noteq> g" if "wr_active (registry_step s c) w = Some aw" for aw
  proof (cases c)
    case (Register now v)
    with that register_active [of now v s w aw] dead show ?thesis
      by (auto simp: dead_generation_def)
  next
    case (Disconnect w' g' ch)
    with that disconnect_active [of w' g' ch s w aw] dead show ?thesis
      by (auto simp: dead_generation_def)
  qed (use that dead in \<open>auto simp: dead_generation_def active_unchanged\<close>)
  with dead worker_generation_step [of w s c] show ?thesis
    by (auto simp: dead_generation_def registry_good_step)
qed

interpretation dead: guarded_machine registry_step "dead_generation w g" for w g
  by unfold_locales (rule dead_generation_step)

lemma dead_not_current:
  assumes "dead_generation w g s" and "rt_worker l = w" and "rt_generation l = g"
  shows "assert_current (route_object l) s \<noteq> Inr ()"
proof
  assume "assert_current (route_object l) s = Inr ()"
  with assms have "held s l"
    by (auto simp: assert_current_iff dead_generation_def registry_good_def routes_good_def)
  with assms show False by (auto simp: held_def dead_generation_def)
qed

lemma disconnected_dead:
  assumes "registry_good s" and "fst (disconnect_worker w g ch s) = Inr ls"
  shows "dead_generation w (num_to_int g) (snd (disconnect_worker w g ch s))"
proof -
  obtain aw :: active_worker where aw: "wr_active s w = Some aw" "g = num_of_int (rg_generation (aw_registration aw))"
      "snd (disconnect_worker w g ch s) = s\<lparr>wr_active := (wr_active s)(w := None),
      wr_routes := map (\<lambda>(i, r). (i, deactivate w (rg_generation (aw_registration aw)) r)) (wr_routes s)\<rparr>"
    using assms(2) by (elim disconnect_ok)
  moreover have "wr_generations s w = Some (rg_generation (aw_registration aw))"
    using assms(1) aw(1) by (auto simp: registry_good_def worker_good_def)
  ultimately show ?thesis
    using disconnect_good [OF assms(1), of w g ch]
    by (simp add: dead_generation_def worker_generation_def)
qed

lemma disconnect_refused:
  assumes "fst (disconnect_worker w (num_of_int g) ch s) = Inl e" and "bounded_text 1 160 w"
    and "bounded_text 16 160 ch" and "safe_int g" and "0 < g" and "wr_active s w = Some aw"
  shows "rg_generation (aw_registration aw) \<noteq> g \<or> aw_channel aw \<noteq> ch"
  using assms by (auto simp: disconnect_worker_def require_worker_def)

text \<open>An inactive route comes back only by binding the intervention again.\<close>

definition inactive_route :: "string \<Rightarrow> registry \<Rightarrow> bool" where
  "inactive_route i s \<longleftrightarrow> registry_good s \<and> (\<forall>r. route_of s i = Some r \<longrightarrow> \<not> ro_active r)"

definition rebinds :: "string \<Rightarrow> registry_call \<Rightarrow> bool" where
  "rebinds i c \<longleftrightarrow> (case c of
     Bind_route v \<Rightarrow> (case parse_route_request v of Inr p \<Rightarrow> rt_intervention p = i | Inl _ \<Rightarrow> False)
   | _ \<Rightarrow> False)"

lemma inactive_bind:
  assumes "inactive_route i s" and "\<not> rebinds i (Bind_route v)"
  shows "inactive_route i (snd (bind_intervention v s))"
proof (cases rule: bind_cases [of v s])
  case (bound p)
  with assms bind_good [of s v] show ?thesis by (auto simp: inactive_route_def rebinds_def)
next
  case (bad_key r)
  with assms show ?thesis by (auto simp: inactive_route_def registry_good_def routes_good_def)
qed (use assms in simp)

lemma inactive_release:
  assumes "inactive_route i s"
  shows "inactive_route i (snd (release_intervention v s))"
proof (cases rule: release_cases [of v s])
  case (released p r)
  with assms release_good [of s v] show ?thesis by (auto simp: inactive_route_def)
qed (use assms in simp)

lemma inactive_disconnect:
  assumes "inactive_route i s"
  shows "inactive_route i (snd (disconnect_worker w g ch s))"
proof (cases "fst (disconnect_worker w g ch s)")
  case (Inr ls)
  then obtain aw :: active_worker where "snd (disconnect_worker w g ch s) = s\<lparr>wr_active := (wr_active s)(w := None),
      wr_routes := map (\<lambda>(i, r). (i, deactivate w (rg_generation (aw_registration aw)) r)) (wr_routes s)\<rparr>"
    by (elim disconnect_ok)
  moreover have "ro_active (deactivate w k r) \<Longrightarrow> ro_active r" for k r
    by (simp add: deactivate_def split: if_splits)
  ultimately show ?thesis
    using assms disconnect_good [of s w g ch] by (auto simp: inactive_route_def route_of_deactivated)
qed (use assms in \<open>simp add: disconnect_failed\<close>)

lemma inactive_step:
  assumes "inactive_route i s" and "\<not> rebinds i c"
  shows "inactive_route i (registry_step s c)"
proof (cases c)
  case (Register now v)
  have "wr_routes (snd (register_worker now v s)) = wr_routes s"
    by (cases rule: register_cases [of now v s]) (simp_all add: Let_def)
  with assms register_good [of s now v] Register show ?thesis
    by (simp add: inactive_route_def route_of_def)
qed (use assms in \<open>simp_all add: inactive_bind inactive_release inactive_disconnect\<close>)

lemma inactive_run:
  "inactive_route i s \<Longrightarrow> list_all (\<lambda>k. \<not> rebinds i k) ks \<Longrightarrow> inactive_route i (run registry_step s ks)"
  by (induction ks arbitrary: s) (auto intro: inactive_step)

lemma inactive_not_current:
  "inactive_route (rt_intervention l) s \<Longrightarrow> assert_current (route_object l) s \<noteq> Inr ()"
  by (auto simp: inactive_route_def assert_current_iff)

lemma released_inactive:
  assumes "registry_good s" and "fst (release_intervention (route_object l) s) = Inr ()"
  shows "inactive_route (rt_intervention l) (snd (release_intervention (route_object l) s))"
  using assms release_good [of s "route_object l"]
  by (auto simp: release_intervention_def inactive_route_def split: option.splits if_splits)

text \<open>A registration that returns leaves the worker connected through the caller's channel.\<close>

lemma register_connects:
  assumes "registry_good s" and "parse_registration_request v = Inr p"
    and "fst (register_worker now v s) = Inr r"
  shows "wr_active (snd (register_worker now v s)) (rq_worker_id p)
      = Some \<lparr>aw_registration = r, aw_channel = rq_channel p\<rparr>"
proof (cases "wr_active s (rq_worker_id p)")
  case None
  with assms(2,3) show ?thesis by (simp add: register_worker_def Let_def split: if_split_asm)
next
  case (Some aw)
  with assms(2,3) have "snd (register_worker now v s) = s" "r = aw_registration aw"
      "aw_channel aw = rq_channel p"
    by (simp_all add: register_worker_def split: if_split_asm)
  with Some show ?thesis by simp
qed

lemma parse_registration_bounds:
  "parse_registration_request v = Inr p \<Longrightarrow> bounded_text 1 160 (rq_worker_id p)
     \<and> bounded_text 16 160 (rq_principal_binding p) \<and> bounded_text 16 160 (rq_channel p)"
  by (auto simp: parse_registration_request_def split: jsval.splits if_splits dest: bounded_stringD)

section \<open>Properties\<close>

text \<open>A worker, a route and a registry that holds both.\<close>

definition sample_request :: registration_request where
  "sample_request = \<lparr>rq_worker_id = ''worker-1'', rq_principal_binding = ''principal-binding-1'',
     rq_channel = ''channel-binding-01''\<rparr>"

definition sample_lease :: route_lease where
  "sample_lease = \<lparr>rt_intervention = ''i1'', rt_epoch = 2, rt_principal = ''principal-binding-1'',
     rt_worker = ''worker-1'', rt_generation = 1\<rparr>"

definition sample_setup :: "registry_call list" where
  "sample_setup = [Register (Fin 5) (registration_object sample_request),
     Bind_route (route_object sample_lease)]"

definition sample_registry :: registry where
  "sample_registry = run registry_step empty_registry sample_setup"

definition sample_worker :: active_worker where
  "sample_worker = \<lparr>aw_registration = \<lparr>rg_worker = ''worker-1'', rg_principal = ''principal-binding-1'',
     rg_generation = 1, rg_at = 5\<rparr>, aw_channel = ''channel-binding-01''\<rparr>"

lemma sample_request_fields [simp]:
  "rq_worker_id sample_request = ''worker-1''"
  "rq_principal_binding sample_request = ''principal-binding-1''"
  "rq_channel sample_request = ''channel-binding-01''"
  by (simp_all add: sample_request_def)

lemma sample_request_parses [simp]:
  "parse_registration_request (registration_object sample_request) = Inr sample_request"
  by (simp add: parse_registration_request_def registration_object_def sample_request_def
      keys_within_iff text_eval)

lemma sample_lease_valid [simp]: "route_valid sample_lease"
  by (simp add: route_valid_def sample_lease_def text_eval)

lemma sample_lease_fields:
  "rt_intervention sample_lease = ''i1''" "rt_epoch sample_lease = 2"
  "rt_principal sample_lease = ''principal-binding-1''" "rt_worker sample_lease = ''worker-1''"
  "rt_generation sample_lease = 1"
  by (simp_all add: sample_lease_def)

lemma sample_worker_fields:
  "rg_generation (aw_registration sample_worker) = 1"
  "rg_principal (aw_registration sample_worker) = ''principal-binding-1''"
  "aw_channel sample_worker = ''channel-binding-01''"
  by (simp_all add: sample_worker_def)

lemma sample_registry_value:
  "sample_registry = \<lparr>wr_active = [''worker-1'' \<mapsto> sample_worker],
     wr_principals = [''worker-1'' \<mapsto> ''principal-binding-1''], wr_generations = [''worker-1'' \<mapsto> 1],
     wr_routes = [(''i1'', \<lparr>ro_lease = sample_lease, ro_active = True\<rparr>)]\<rparr>"
proof -
  have registered: "snd (register_worker (Fin 5) (registration_object sample_request) empty_registry)
      = \<lparr>wr_active = [''worker-1'' \<mapsto> sample_worker],
          wr_principals = [''worker-1'' \<mapsto> ''principal-binding-1''], wr_generations = [''worker-1'' \<mapsto> 1],
          wr_routes = []\<rparr>"
    by (simp add: register_worker_def empty_registry_def Let_def max_safe_integer_def sample_worker_def)
  have "bounded_text 1 160 ''worker-1''"
    using sample_lease_valid by (simp only: route_valid_def) (simp add: sample_lease_def)
  then have "require_worker ''worker-1'' \<lparr>wr_active = [''worker-1'' \<mapsto> sample_worker],
      wr_principals = ps, wr_generations = gs, wr_routes = rs\<rparr> = Inr sample_worker" for ps gs rs
    by (simp add: require_worker_def)
  then show ?thesis
    by (simp add: sample_registry_def sample_setup_def registered bind_intervention_def
        sample_lease_fields sample_worker_fields)
qed

lemma sample_registry_good: "registry_good sample_registry"
  unfolding sample_registry_def by (rule worker_fence.good_run [OF registry_good_empty])

lemma sample_lease_current: "assert_current (route_object sample_lease) sample_registry = Inr ()"
  by (simp add: assert_current_iff [OF sample_registry_good])
    (simp add: sample_registry_value route_of_def sample_lease_def)

lemma sample_disconnect:
  "disconnect_worker ''worker-1'' (Fin 1) ''channel-binding-01'' sample_registry
     = (Inr [sample_lease], sample_registry\<lparr>wr_active := Map.empty,
         wr_routes := [(''i1'', \<lparr>ro_lease = sample_lease, ro_active = False\<rparr>)]\<rparr>)"
proof -
  have "bounded_text 1 160 ''worker-1''" and "bounded_text 16 160 ''channel-binding-01''"
    by (simp_all add: text_eval)
  then show ?thesis
    by (simp add: disconnect_worker_def require_worker_def sample_registry_value)
      (simp add: sample_worker_def sample_lease_def route_of_worker_def)
qed

lemma sample_disconnects:
  "fst (disconnect_worker ''worker-1'' (Fin 1) ''channel-binding-01'' sample_registry)
     = Inr [sample_lease]"
  by (simp only: sample_disconnect fst_conv)

text \<open>C13. A disconnected worker generation is fenced for good: once \<open>disconnect\<close> has succeeded for a
  worker's generation, no route of that generation passes \<open>assertCurrent\<close> again, whatever
  registrations, disconnections, binds and releases follow.\<close>

theorem disconnected_generation_fenced:
  assumes "s = run registry_step empty_registry cs"
    and "fst (disconnect_worker w (num_of_int g) ch s) = Inr ls"
    and "rt_worker l = w" and "rt_generation l = g"
  shows "assert_current (route_object l)
      (run registry_step (snd (disconnect_worker w (num_of_int g) ch s)) ks) \<noteq> Inr ()"
proof -
  have "registry_good s" using assms(1) worker_fence.good_run [OF registry_good_empty] by blast
  from dead.good_run [OF disconnected_dead [OF this assms(2)]] show ?thesis
    using dead_not_current assms(3,4) by fastforce
qed

theorem disconnected_generation_fenced_witness:
  "assert_current (route_object sample_lease)
     (run registry_step
       (snd (disconnect_worker ''worker-1'' (Fin 1) ''channel-binding-01'' sample_registry))
       sample_setup) \<noteq> Inr ()
   \<and> assert_current (route_object sample_lease) sample_registry = Inr ()"
  using disconnected_generation_fenced [of sample_registry sample_setup "''worker-1''" 1
      "''channel-binding-01''" "[sample_lease]" sample_lease sample_setup] sample_lease_current
  by (simp add: sample_registry_def [symmetric] sample_disconnects sample_lease_fields)

text \<open>C14. Reconnection takes a greater generation: any registration of the same worker that returns after
  a successful disconnection, however many calls later, carries a generation above the disconnected
  one.\<close>

theorem reconnection_raises_generation:
  assumes "s = run registry_step empty_registry cs"
    and "fst (disconnect_worker w (num_of_int g) ch s) = Inr ls"
    and "s' = run registry_step (snd (disconnect_worker w (num_of_int g) ch s)) ks"
    and "fst (register_worker now v s') = Inr r" and "rg_worker r = w"
  shows "g < rg_generation r"
proof -
  have "registry_good s" using assms(1) worker_fence.good_run [OF registry_good_empty] by blast
  from dead.good_run [OF disconnected_dead [OF this assms(2)]] have dead: "dead_generation w g s'"
    by (simp add: assms(3))
  then have good: "registry_good s'" by (simp add: dead_generation_def)
  show ?thesis
  proof (cases "wr_active s' w")
    case None
    with register_fresh_generation [OF good _ assms(4,5)] dead show ?thesis
      by (simp add: dead_generation_def)
  next
    case (Some aw)
    obtain p where p: "parse_registration_request v = Inr p"
      using assms(4) by (cases "parse_registration_request v") (simp_all add: register_worker_def)
    have after: "wr_active (snd (register_worker now v s')) (rq_worker_id p)
        = Some \<lparr>aw_registration = r, aw_channel = rq_channel p\<rparr>"
      by (rule register_connects [OF good p assms(4)])
    moreover have "rq_worker_id p = w"
      using after register_good [OF good, of now v] assms(5)
      by (fastforce simp: registry_good_def worker_good_def)
    ultimately have "dead_generation w g (snd (register_worker now v s'))"
      and "wr_active (snd (register_worker now v s')) w = Some \<lparr>aw_registration = r, aw_channel = rq_channel p\<rparr>"
      using dead_generation_step [OF dead, of "Register now v"] by simp_all
    then show ?thesis
      by (fastforce simp: dead_generation_def registry_good_def worker_good_def worker_generation_def)
  qed
qed

theorem reconnection_raises_generation_witness:
  "\<exists>r. fst (register_worker (Fin 9) (registration_object sample_request)
       (snd (disconnect_worker ''worker-1'' (Fin 1) ''channel-binding-01'' sample_registry))) = Inr r
     \<and> 1 < rg_generation r"
proof -
  let ?s' = "snd (disconnect_worker ''worker-1'' (Fin 1) ''channel-binding-01'' sample_registry)"
  have "wr_active ?s' ''worker-1'' = None" "wr_principals ?s' ''worker-1'' = Some ''principal-binding-1''"
      "wr_generations ?s' ''worker-1'' = Some 1"
    by (simp_all only: sample_disconnect) (simp_all add: sample_registry_value)
  then obtain r where r: "fst (register_worker (Fin 9) (registration_object sample_request) ?s') = Inr r"
      "rg_worker r = ''worker-1''"
    by (simp add: register_worker_def Let_def max_safe_integer_def)
  then show ?thesis
    using reconnection_raises_generation [of sample_registry sample_setup "''worker-1''" 1
        "''channel-binding-01''" "[sample_lease]" ?s' "[]" "Fin 9" "registration_object sample_request" r]
    by (simp add: sample_registry_def [symmetric] sample_disconnects)
qed

text \<open>C15. \<open>assertCurrent\<close> is exact. After any calls, it accepts a route exactly when that route,
  in all five fields, is the stored one and is still active; and then the worker is connected under the
  route's principal and the generation is the latest one handed to it.\<close>

theorem current_lease_exact:
  assumes "s = run registry_step empty_registry cs"
  shows "(assert_current (route_object l) s = Inr () \<longleftrightarrow>
      (\<exists>r. route_of s (rt_intervention l) = Some r \<and> ro_active r \<and> ro_lease r = l))
    \<and> (assert_current (route_object l) s = Inr () \<longrightarrow>
      rt_generation l = worker_generation (rt_worker l) s
      \<and> (\<exists>g. get_worker (rt_worker l) s = Some g \<and> rg_principal g = rt_principal l
            \<and> rg_generation g = rt_generation l \<and> rg_worker g = rt_worker l))"
proof -
  have good: "registry_good s" using assms(1) worker_fence.good_run [OF registry_good_empty] by blast
  have "\<exists>g. get_worker (rt_worker l) s = Some g \<and> rg_principal g = rt_principal l
      \<and> rg_generation g = rt_generation l \<and> rg_worker g = rt_worker l"
    if current: "assert_current (route_object l) s = Inr ()"
  proof -
    obtain r where r: "route_of s (rt_intervention l) = Some r" "ro_active r" "ro_lease r = l"
      using current by (auto simp: assert_current_iff [OF good])
    with good have l: "held s l" "route_valid l" by (auto simp: registry_good_def routes_good_def)
    then obtain aw :: active_worker where aw: "wr_active s (rt_worker l) = Some aw"
        "rg_generation (aw_registration aw) = rt_generation l"
        "rg_principal (aw_registration aw) = rt_principal l"
      by (auto simp: held_def)
    moreover have "rg_worker (aw_registration aw) = rt_worker l"
      using good aw(1) by (auto simp: registry_good_def worker_good_def)
    ultimately show ?thesis using l(2) by (simp add: get_worker_def route_valid_def)
  qed
  with good show ?thesis using current_generation [OF good] by (simp add: assert_current_iff)
qed

theorem current_lease_exact_witness:
  "worker_generation (rt_worker sample_lease) sample_registry = rt_generation sample_lease"
  using current_lease_exact [OF sample_registry_def, of sample_lease] sample_lease_current by simp

text \<open>A bind makes exactly the route it returns current. The returned route is the request's, it
  passes \<open>assertCurrent\<close> at once, and the verdict on the routes of every other intervention is
  unchanged; a bind that throws changes nothing at all.\<close>

theorem bind_makes_route_current:
  assumes "s = run registry_step empty_registry cs"
  shows "case bind_intervention v s of
      (Inl e, s') \<Rightarrow> s' = s
    | (Inr l, s') \<Rightarrow> parse_route_request v = Inr l \<and> assert_current (route_object l) s' = Inr ()
        \<and> (\<forall>l'. rt_intervention l' \<noteq> rt_intervention l \<longrightarrow>
             assert_current (route_object l') s' = assert_current (route_object l') s)"
proof -
  have good: "registry_good s" using assms(1) worker_fence.good_run [OF registry_good_empty] by blast
  show ?thesis
  proof (cases "bind_intervention v s")
    case (Pair x s')
    show ?thesis
    proof (cases x)
      case (Inl e)
      with Pair bind_failed [of v s e] show ?thesis by simp
    next
      case (Inr l)
      with Pair bind_stored [OF good, of v l] bind_other_routes [OF good, of v l] bind_good [OF good, of v]
      show ?thesis by (simp add: assert_current_iff)
    qed
  qed
qed

theorem bind_makes_route_current_witness:
  "snd (bind_intervention (route_object (sample_lease\<lparr>rt_epoch := 1\<rparr>)) sample_registry) = sample_registry"
proof -
  have "require_worker ''worker-1'' sample_registry = Inr sample_worker"
    by (simp add: require_worker_def sample_registry_value text_eval)
  moreover have "route_valid (sample_lease\<lparr>rt_epoch := 1\<rparr>)"
    using sample_lease_valid by (simp add: route_valid_def)
  ultimately have "\<exists>e. fst (bind_intervention (route_object (sample_lease\<lparr>rt_epoch := 1\<rparr>)) sample_registry) = Inl e"
    by (simp add: bind_intervention_def sample_lease_fields sample_worker_fields)
      (simp add: sample_registry_value sample_lease_fields)
  then show ?thesis
    using bind_makes_route_current [OF sample_registry_def, of "route_object (sample_lease\<lparr>rt_epoch := 1\<rparr>)"]
    by (auto simp: case_prod_beta)
qed

text \<open>C16. An intervention never moves: any two binds of one intervention that succeed, with any calls
  between them, name the same worker and the same principal, and the later one has no smaller epoch. So a
  greater epoch does not move an intervention to another worker.\<close>

theorem intervention_never_moves:
  assumes "s = run registry_step empty_registry cs"
    and "fst (bind_intervention v s) = Inr l"
    and "fst (bind_intervention v' (run registry_step (snd (bind_intervention v s)) ks)) = Inr l'"
    and "rt_intervention l' = rt_intervention l"
  shows "rt_worker l' = rt_worker l \<and> rt_principal l' = rt_principal l \<and> rt_epoch l \<le> rt_epoch l'"
proof -
  have good: "registry_good s" using assms(1) worker_fence.good_run [OF registry_good_empty] by blast
  let ?s1 = "snd (bind_intervention v s)" and ?s2 = "run registry_step (snd (bind_intervention v s)) ks"
  have "pinned_route (rt_intervention l) (rt_worker l) (rt_principal l) (rt_epoch l) ?s1"
    using bind_stored [OF good assms(2)] bind_good [OF good, of v] by (simp add: pinned_route_def)
  then have "pinned_route (rt_intervention l) (rt_worker l) (rt_principal l) (rt_epoch l)
      (snd (bind_intervention v' ?s2))"
    using pinned.good_run pinned_bind by blast
  moreover have "registry_good ?s2" by (rule worker_fence.good_run [OF bind_good [OF good]])
  ultimately show ?thesis
    using bind_stored [OF _ assms(3)] assms(4) by (auto simp: pinned_route_def)
qed

theorem intervention_never_moves_witness:
  "rt_epoch sample_lease \<le> rt_epoch (projr (fst (bind_intervention
     (route_object (sample_lease\<lparr>rt_epoch := 7\<rparr>)) sample_registry)))"
proof -
  let ?s0 = "run registry_step empty_registry [Register (Fin 5) (registration_object sample_request)]"
  have s0: "sample_registry = snd (bind_intervention (route_object sample_lease) ?s0)"
    by (simp add: sample_registry_def sample_setup_def)
  have worker: "require_worker ''worker-1'' sample_registry = Inr sample_worker"
    by (simp add: require_worker_def sample_registry_value text_eval)
  have "wr_active ?s0 = wr_active sample_registry" by (simp add: s0 active_unchanged)
  then have "require_worker ''worker-1'' ?s0 = Inr sample_worker"
    using worker by (simp add: require_worker_def split: if_split_asm)
  moreover have "map_of (wr_routes ?s0) = Map.empty"
    by (cases rule: register_cases [of "Fin 5" "registration_object sample_request" empty_registry])
      (simp_all add: empty_registry_def Let_def)
  ultimately have first: "fst (bind_intervention (route_object sample_lease) ?s0) = Inr sample_lease"
    by (simp add: bind_intervention_def sample_lease_fields sample_worker_fields del: foldl_Cons)
  have "route_valid (sample_lease\<lparr>rt_epoch := 7\<rparr>)"
    using sample_lease_valid by (simp add: route_valid_def)
  with worker have second: "fst (bind_intervention (route_object (sample_lease\<lparr>rt_epoch := 7\<rparr>)) sample_registry)
      = Inr (sample_lease\<lparr>rt_epoch := 7\<rparr>)"
    by (simp add: bind_intervention_def sample_lease_fields sample_worker_fields)
      (simp add: sample_registry_value sample_lease_fields sample_lease_def Let_def)
  show ?thesis
    using intervention_never_moves [OF refl first, of "route_object (sample_lease\<lparr>rt_epoch := 7\<rparr>)" "[]"
        "sample_lease\<lparr>rt_epoch := 7\<rparr>"] second s0
    by simp
qed

end
