(* ===== verification/Worker_Channel.thy ===== *)
theory Worker_Channel
  imports Worker_Registry
begin

text \<open>
  \<open>src/core/hosted-worker-channel.ts\<close>: \<open>HostedWorkerControlChannel\<close>, the control plane's
  side of one worker connection. Every \<open>await\<close> is an effect: it is appended to the channel's
  log together with the registry it was made under, its outcome is an input, and so is what the
  other parties do to the registry and to the channel until it settles.
\<close>

section \<open>State, effects and environment\<close>

datatype control_message =
    Registered int
  | Bind_message string int int
  | Revoke_message string int int

datatype invalidation_reason =
    Bind_delivery_failure | Explicit_revoke | Revoke_delivery_failure | Worker_disconnect

datatype channel_effect =
    Send control_message
  | Routes_invalidated "route_lease list" invalidation_reason
  | Close_peer

datatype channel_error =
    HOSTED_WORKER_CHANNEL_UNAVAILABLE
  | HOSTED_WORKER_CHANNEL_CLOSED
  | HOSTED_WORKER_REVOCATION_PROPAGATION_FAILED
  | Registry_error registry_error

record channel =
  cc_registry :: registry
  cc_registration :: registration
  cc_binding :: string
  cc_closed :: bool
  cc_log :: "(channel_effect \<times> registry) list"

abbreviation cc_worker :: "channel \<Rightarrow> string" where
  "cc_worker c \<equiv> rg_worker (cc_registration c)"

abbreviation cc_generation :: "channel \<Rightarrow> int" where
  "cc_generation c \<equiv> rg_generation (cc_registration c)"

text \<open>\<open>#fenceLocal\<close>: closing comes first, the registry's answer second.\<close>

definition fence_local :: "channel \<Rightarrow> (channel_error + route_lease list) \<times> channel" where
  "fence_local c =
     (if cc_closed c then (Inr [], c)
      else (case disconnect_worker (cc_worker c) (num_of_int (cc_generation c)) (cc_binding c) (cc_registry c) of
          (Inl e, g) \<Rightarrow> (Inl (Registry_error e), c\<lparr>cc_closed := True, cc_registry := g\<rparr>)
        | (Inr ls, g) \<Rightarrow> (Inr ls, c\<lparr>cc_closed := True, cc_registry := g\<rparr>)))"

text \<open>What may happen while an effect is awaited: calls of the shared registry, and the fencing
  of this channel by another of its operations.\<close>

datatype interference = Registry_call registry_call | Fence_channel

fun interfere :: "channel \<Rightarrow> interference \<Rightarrow> channel" where
  "interfere c (Registry_call k) = c\<lparr>cc_registry := registry_step (cc_registry c) k\<rparr>"
| "interfere c Fence_channel = snd (fence_local c)"

text \<open>The \<open>k\<close>-th effect's outcome (\<open>False\<close>: it throws or rejects), what happens
  meanwhile, and which optional parts of peer and hooks are there.\<close>

record channel_env =
  ce_succeeds :: "nat \<Rightarrow> bool"
  ce_meanwhile :: "nat \<Rightarrow> interference list"
  ce_hook :: bool
  ce_close :: bool

definition await_effect :: "channel_env \<Rightarrow> channel_effect \<Rightarrow> channel \<Rightarrow> bool \<times> channel" where
  "await_effect env x c = (let k = length (cc_log c) in
     (ce_succeeds env k,
      foldl interfere (c\<lparr>cc_log := cc_log c @ [(x, cc_registry c)]\<rparr>) (ce_meanwhile env k)))"

section \<open>Operations\<close>

definition notify_invalidated ::
  "channel_env \<Rightarrow> route_lease list \<Rightarrow> invalidation_reason \<Rightarrow> channel \<Rightarrow> bool \<times> channel" where
  "notify_invalidated env routes reason c =
     (if routes = [] \<or> \<not> ce_hook env then (True, c)
      else await_effect env (Routes_invalidated routes reason) c)"

definition close_peer :: "channel_env \<Rightarrow> channel \<Rightarrow> channel" where
  "close_peer env c = (if ce_close env then snd (await_effect env Close_peer c) else c)"

datatype opened =
    Not_constructed registry_error registry
  | Open_failed channel_error channel
  | Opened channel

definition open_channel :: "channel_env \<Rightarrow> jsnum \<Rightarrow> jsval \<Rightarrow> registry \<Rightarrow> opened" where
  "open_channel env now authenticated g =
     (case (register_worker now authenticated g, parse_registration_request authenticated) of
        ((Inr r, g'), Inr p) \<Rightarrow>
          (let c = \<lparr>cc_registry = g', cc_registration = r, cc_binding = rq_channel p,
                   cc_closed = False, cc_log = []\<rparr>;
               (sent, c1) = await_effect env (Send (Registered (rg_generation r))) c
           in if sent then Opened c1
              else (case fence_local c1 of
                  (Inl e, c2) \<Rightarrow> Open_failed e c2
                | (Inr ls, c2) \<Rightarrow> Open_failed HOSTED_WORKER_CHANNEL_UNAVAILABLE (close_peer env c2)))
      | ((Inl e, g'), _) \<Rightarrow> Not_constructed e g'
      | ((Inr r, g'), Inl e) \<Rightarrow> Not_constructed e g')"

definition bind_channel ::
  "channel_env \<Rightarrow> (string \<times> jsval) list \<Rightarrow> channel \<Rightarrow> (channel_error + route_lease) \<times> channel" where
  "bind_channel env request c =
     (if cc_closed c then (Inl HOSTED_WORKER_CHANNEL_CLOSED, c)
      else (case bind_intervention
          (JObj (AList.update ''workerGeneration'' (jint (cc_generation c))
             (AList.update ''workerId'' (JStr (cc_worker c)) request))) (cc_registry c) of
          (Inl e, g) \<Rightarrow> (Inl (Registry_error e), c\<lparr>cc_registry := g\<rparr>)
        | (Inr l, g) \<Rightarrow>
            (let (sent, c1) = await_effect env
                (Send (Bind_message (rt_intervention l) (rt_epoch l) (rt_generation l))) (c\<lparr>cc_registry := g\<rparr>)
             in if sent then (Inr l, c1)
                else (case fence_local c1 of
                    (Inl e, c2) \<Rightarrow> (Inl e, c2)
                  | (Inr revoked, c2) \<Rightarrow>
                      (let (told, c3) = notify_invalidated env revoked Bind_delivery_failure c2
                       in (Inl (if \<not> told then HOSTED_WORKER_REVOCATION_PROPAGATION_FAILED
                                else HOSTED_WORKER_CHANNEL_UNAVAILABLE), close_peer env c3))))))"

definition channel_assert_current :: "route_lease \<Rightarrow> channel \<Rightarrow> channel_error + unit" where
  "channel_assert_current l c =
     (if cc_closed c then Inl HOSTED_WORKER_CHANNEL_CLOSED
      else (case assert_current (route_object l) (cc_registry c) of
          Inl e \<Rightarrow> Inl (Registry_error e)
        | Inr _ \<Rightarrow>
            if rt_worker l \<noteq> cc_worker c \<or> rt_generation l \<noteq> cc_generation c
            then Inl (Registry_error HOSTED_WORKER_STALE_GENERATION) else Inr ()))"

definition revoke_verdict :: "bool \<Rightarrow> bool \<Rightarrow> channel_error + unit" where
  "revoke_verdict propagation_ok delivery_failed =
     (if \<not> propagation_ok then Inl HOSTED_WORKER_REVOCATION_PROPAGATION_FAILED
      else if delivery_failed then Inl HOSTED_WORKER_CHANNEL_UNAVAILABLE else Inr ())"

definition revoke_channel ::
  "channel_env \<Rightarrow> route_lease \<Rightarrow> channel \<Rightarrow> (channel_error + unit) \<times> channel" where
  "revoke_channel env l c =
     (if cc_closed c then (Inl HOSTED_WORKER_CHANNEL_CLOSED, c)
      else (case channel_assert_current l c of
          Inl e \<Rightarrow> (Inl e, c)
        | Inr _ \<Rightarrow>
            (case release_intervention (route_object l) (cc_registry c) of
              (Inl e, g) \<Rightarrow> (Inl (Registry_error e), c\<lparr>cc_registry := g\<rparr>)
            | (Inr _, g) \<Rightarrow>
                (let (propagated, c1) = notify_invalidated env [l] Explicit_revoke (c\<lparr>cc_registry := g\<rparr>);
                     (sent, c2) = await_effect env
                       (Send (Revoke_message (rt_intervention l) (rt_epoch l) (rt_generation l))) c1
                 in if sent then (revoke_verdict propagated False, c2)
                    else (case fence_local c2 of
                        (Inl e, c3) \<Rightarrow> (Inl e, c3)
                      | (Inr further, c3) \<Rightarrow>
                          (revoke_verdict propagated True,
                           close_peer env (snd (notify_invalidated env further Revoke_delivery_failure c3))))))))"

definition disconnect_channel ::
  "channel_env \<Rightarrow> channel \<Rightarrow> (channel_error + route_lease list) \<times> channel" where
  "disconnect_channel env c =
     (if cc_closed c then (Inr [], c)
      else (case fence_local c of
          (Inl e, c1) \<Rightarrow> (Inl e, c1)
        | (Inr revoked, c1) \<Rightarrow>
            (let (told, c2) = notify_invalidated env revoked Worker_disconnect c1
             in (if \<not> told then Inl HOSTED_WORKER_REVOCATION_PROPAGATION_FAILED else Inr revoked,
                 close_peer env c2))))"

section \<open>The invariant\<close>

text \<open>The channel's own generation is connected through its own binding or not at all, and is
  dead once the channel is closed.\<close>

definition channel_good :: "channel \<Rightarrow> bool" where
  "channel_good c \<longleftrightarrow> registry_good (cc_registry c) \<and> bounded_text 1 160 (cc_worker c)
     \<and> bounded_text 16 160 (cc_binding c) \<and> safe_int (cc_generation c) \<and> 0 < cc_generation c
     \<and> cc_generation c \<le> worker_generation (cc_worker c) (cc_registry c)
     \<and> (\<forall>aw. wr_active (cc_registry c) (cc_worker c) = Some aw
          \<and> rg_generation (aw_registration aw) = cc_generation c \<longrightarrow> aw_channel aw = cc_binding c)
     \<and> (cc_closed c \<longrightarrow> dead_generation (cc_worker c) (cc_generation c) (cc_registry c))"

lemma channel_identity [simp]:
  "cc_registration (snd (fence_local c)) = cc_registration c"
  "cc_binding (snd (fence_local c)) = cc_binding c"
  "cc_log (snd (fence_local c)) = cc_log c"
  "cc_closed (snd (fence_local c))"
  by (simp_all add: fence_local_def split: prod.split sum.split)

lemma fence_registry: "cc_registry (snd (fence_local c)) =
    (if cc_closed c then cc_registry c
     else snd (disconnect_worker (cc_worker c) (num_of_int (cc_generation c)) (cc_binding c) (cc_registry c)))"
  by (simp add: fence_local_def split: prod.split sum.split)

lemma fence_local_dead:
  assumes "channel_good c"
  shows "dead_generation (cc_worker c) (cc_generation c) (cc_registry (snd (fence_local c)))"
proof (cases "cc_closed c")
  case True
  with assms show ?thesis by (simp add: fence_local_def channel_good_def)
next
  case False
  let ?d = "disconnect_worker (cc_worker c) (num_of_int (cc_generation c)) (cc_binding c) (cc_registry c)"
  have reg: "cc_registry (snd (fence_local c)) = snd ?d"
    using False by (simp add: fence_registry)
  show ?thesis
  proof (cases "fst ?d")
    case (Inl e)
    with assms disconnect_refused [OF Inl] disconnect_failed [OF Inl] show ?thesis
      by (auto simp: reg dead_generation_def channel_good_def)
  next
    case (Inr ls)
    with assms disconnected_dead [OF _ Inr] show ?thesis by (simp add: reg channel_good_def)
  qed
qed

lemma fence_local_good [wf_intros]: "channel_good c \<Longrightarrow> channel_good (snd (fence_local c))"
  using fence_local_dead [of c] by (auto simp: channel_good_def dead_generation_def)

lemma registry_call_good:
  assumes "channel_good c"
  shows "channel_good (c\<lparr>cc_registry := registry_step (cc_registry c) k\<rparr>)"
proof -
  have "wr_active (cc_registry c) (cc_worker c) = Some aw"
    if "wr_active (registry_step (cc_registry c) k) (cc_worker c) = Some aw"
      and "rg_generation (aw_registration aw) = cc_generation c" for aw
  proof (cases k)
    case (Register now v)
    with that register_active [of now v "cc_registry c" "cc_worker c" aw] assms show ?thesis
      by (auto simp: channel_good_def)
  next
    case (Disconnect w' g' ch)
    with that disconnect_active [of w' g' ch "cc_registry c" "cc_worker c" aw] show ?thesis by simp
  qed (use that in \<open>simp_all add: active_unchanged\<close>)
  with assms worker_generation_step [of "cc_worker c" "cc_registry c" k] show ?thesis
    by (auto simp: channel_good_def registry_good_step dead_generation_step)
qed

lemma interfere_good [wf_intros]: "channel_good c \<Longrightarrow> channel_good (interfere c i)"
  by (cases i) (simp_all add: registry_call_good fence_local_good)

section \<open>What an await keeps\<close>

text \<open>A property of the channel that logging an effect and the allowed interference keep is kept
  by every awaited effect.\<close>

locale await_invariant =
  fixes allowed :: "interference \<Rightarrow> bool" and holds :: "channel \<Rightarrow> bool"
  assumes holds_interfere: "holds c \<Longrightarrow> allowed i \<Longrightarrow> holds (interfere c i)"
    and holds_log: "holds c \<Longrightarrow> holds (c\<lparr>cc_log := cc_log c @ [(x, cc_registry c)]\<rparr>)"
begin

lemma interfered: "holds c \<Longrightarrow> list_all allowed is \<Longrightarrow> holds (foldl interfere c is)"
  by (induction "is" arbitrary: c) (simp_all add: holds_interfere)

lemma awaited:
  assumes "holds c" and "\<forall>k. list_all allowed (ce_meanwhile env k)"
  shows "holds (snd (await_effect env x c))"
  using assms by (simp add: await_effect_def Let_def interfered holds_log)

lemma notified:
  assumes "holds c" and "\<forall>k. list_all allowed (ce_meanwhile env k)"
  shows "holds (snd (notify_invalidated env ls reason c))"
  using assms by (simp add: notify_invalidated_def awaited)

lemma peer_closed:
  assumes "holds c" and "\<forall>k. list_all allowed (ce_meanwhile env k)"
  shows "holds (close_peer env c)"
  using assms by (simp add: close_peer_def awaited)

end

text \<open>The channel invariant, and everything an operation does once it is fenced.\<close>

definition logged_since :: "nat \<Rightarrow> (registry \<Rightarrow> bool) \<Rightarrow> channel \<Rightarrow> bool" where
  "logged_since n P c \<longleftrightarrow> n \<le> length (cc_log c) \<and> list_all (\<lambda>(x, g). P g) (drop n (cc_log c))"

lemma logged_since_log: "logged_since n P c \<Longrightarrow> P (cc_registry c)
    \<Longrightarrow> logged_since n P (c\<lparr>cc_log := cc_log c @ [(x, cc_registry c)]\<rparr>)"
  by (simp add: logged_since_def)

lemma logged_since_now [simp]: "logged_since (length (cc_log c)) P c"
  by (simp add: logged_since_def)

lemma logged_since_cong: "cc_log c = cc_log c' \<Longrightarrow> logged_since n P c = logged_since n P c'"
  by (simp add: logged_since_def)

lemma interfere_simps [simp]:
  "cc_registration (interfere c i) = cc_registration c"
  "cc_log (interfere c i) = cc_log c"
  "cc_closed c \<Longrightarrow> cc_closed (interfere c i)"
  by (cases i; simp)+

definition fenced_since :: "registration \<Rightarrow> nat \<Rightarrow> channel \<Rightarrow> bool" where
  "fenced_since r n c \<longleftrightarrow> channel_good c \<and> cc_closed c \<and> cc_registration c = r
     \<and> logged_since n (dead_generation (rg_worker r) (rg_generation r)) c"

definition revoked_since :: "string \<Rightarrow> nat \<Rightarrow> channel \<Rightarrow> bool" where
  "revoked_since i n c \<longleftrightarrow> channel_good c \<and> inactive_route i (cc_registry c)
     \<and> logged_since n (inactive_route i) c"

definition keeps_revoked :: "string \<Rightarrow> interference \<Rightarrow> bool" where
  "keeps_revoked i x \<longleftrightarrow> (case x of Registry_call k \<Rightarrow> \<not> rebinds i k | Fence_channel \<Rightarrow> True)"

interpretation any: await_invariant "\<lambda>_. True" channel_good
  by unfold_locales (simp add: interfere_good, simp add: channel_good_def)

interpretation fenced: await_invariant "\<lambda>_. True" "fenced_since r n" for r n
proof unfold_locales
  fix c i x
  assume c: "fenced_since r n c"
  then show "fenced_since r n (interfere c i)"
    by (simp add: fenced_since_def interfere_good logged_since_def)
  from c show "fenced_since r n (c\<lparr>cc_log := cc_log c @ [(x, cc_registry c)]\<rparr>)"
    by (auto simp: fenced_since_def channel_good_def logged_since_def)
qed

lemma fence_inactive:
  assumes "inactive_route i (cc_registry c)"
  shows "inactive_route i (cc_registry (snd (fence_local c)))"
  using assms by (simp add: fence_registry inactive_disconnect)

interpretation revoked: await_invariant "keeps_revoked i" "revoked_since i n" for i n
proof unfold_locales
  fix c x e
  assume c: "revoked_since i n c"
  show "revoked_since i n (interfere c x)" if "keeps_revoked i x"
    using c that
    by (cases x) (simp_all add: revoked_since_def keeps_revoked_def interfere_good registry_call_good
        fence_local_good fence_inactive inactive_step logged_since_def)
  from c show "revoked_since i n (c\<lparr>cc_log := cc_log c @ [(e, cc_registry c)]\<rparr>)"
    by (auto simp: revoked_since_def channel_good_def logged_since_def)
qed

lemma fence_starts:
  assumes "channel_good c"
  shows "fenced_since (cc_registration c) (length (cc_log c)) (snd (fence_local c))"
  using assms fence_local_good [OF assms] by (simp add: fenced_since_def logged_since_def)

section \<open>The operations\<close>

text \<open>Opening: the channel satisfies the invariant, and is fenced when the delivery fails.\<close>

lemma register_channel_good:
  assumes "registry_good g" and "register_worker now v g = (Inr r, g')"
    and "parse_registration_request v = Inr p"
  shows "channel_good \<lparr>cc_registry = g', cc_registration = r, cc_binding = rq_channel p,
    cc_closed = False, cc_log = []\<rparr>"
proof -
  have active: "wr_active g' (rq_worker_id p) = Some \<lparr>aw_registration = r, aw_channel = rq_channel p\<rparr>"
    using register_connects [OF assms(1,3), of now r] assms(2) by simp
  have good: "registry_good g'" using register_good [OF assms(1), of now v] assms(2) by simp
  with active have r: "rg_worker r = rq_worker_id p" "wr_generations g' (rq_worker_id p) = Some (rg_generation r)"
    by (force simp: registry_good_def worker_good_def)+
  with good have "0 < rg_generation r \<and> safe_int (rg_generation r)"
    by (auto simp: registry_good_def worker_good_def)
  with good active r parse_registration_bounds [OF assms(3)] show ?thesis
    by (simp add: channel_good_def worker_generation_def)
qed

lemma open_channel_good:
  assumes "registry_good g"
  shows "open_channel env now v g = Opened c \<Longrightarrow> channel_good c"
    and "open_channel env now v g = Open_failed e c \<Longrightarrow> channel_good c \<and> cc_closed c"
proof -
  obtain res g' where reg: "register_worker now v g = (res, g')" by fastforce
  have "(open_channel env now v g = Opened c \<longrightarrow> channel_good c)
      \<and> (open_channel env now v g = Open_failed e c \<longrightarrow> channel_good c \<and> cc_closed c)"
  proof (cases res)
    case (Inl err)
    with reg show ?thesis by (simp add: open_channel_def)
  next
    case (Inr r)
    then obtain p where p: "parse_registration_request v = Inr p"
      using reg by (cases "parse_registration_request v") (simp_all add: register_worker_def)
    let ?c0 = "\<lparr>cc_registry = g', cc_registration = r, cc_binding = rq_channel p,
      cc_closed = False, cc_log = []\<rparr>"
    obtain sent c1 where sent: "await_effect env (Send (Registered (rg_generation r))) ?c0 = (sent, c1)"
      by fastforce
    have c0: "channel_good ?c0"
      using register_channel_good [OF assms _ p, of now r g'] reg Inr by simp
    have "channel_good c1"
      using any.awaited [OF c0, of env "Send (Registered (rg_generation r))"] sent
      by (simp add: list.pred_True)
    moreover obtain r2 c2 where fence: "fence_local c1 = (r2, c2)" by fastforce
    ultimately have "fenced_since (cc_registration c1) (length (cc_log c1)) c2"
      using fence_starts [of c1] by simp
    then have "fenced_since (cc_registration c1) (length (cc_log c1)) (close_peer env c2)"
      by (intro fenced.peer_closed) (simp_all add: list.pred_True)
    with \<open>channel_good c1\<close> \<open>fenced_since _ _ c2\<close> show ?thesis
      by (cases r2) (auto simp: open_channel_def reg Inr p sent fence fenced_since_def Let_def)
  qed
  then show "open_channel env now v g = Opened c \<Longrightarrow> channel_good c"
    and "open_channel env now v g = Open_failed e c \<Longrightarrow> channel_good c \<and> cc_closed c"
    by simp_all
qed

text \<open>A failed bind delivery fences the channel before anyone is told.\<close>

lemma await_log:
  "length (cc_log (snd (await_effect env x c))) = Suc (length (cc_log c))"
  "cc_registration (snd (await_effect env x c)) = cc_registration c"
proof -
  have "cc_log (foldl interfere c is) = cc_log c
      \<and> cc_registration (foldl interfere c is) = cc_registration c" for c :: channel and "is"
    by (induction "is" arbitrary: c) simp_all
  then show "length (cc_log (snd (await_effect env x c))) = Suc (length (cc_log c))"
    "cc_registration (snd (await_effect env x c)) = cc_registration c"
    by (simp_all add: await_effect_def Let_def)
qed

lemma bind_result_good:
  assumes "channel_good c"
  shows "channel_good (c\<lparr>cc_registry := snd (bind_intervention v (cc_registry c))\<rparr>)"
  using registry_call_good [OF assms, of "Bind_route v"] by simp

lemma release_result_good:
  assumes "channel_good c"
  shows "channel_good (c\<lparr>cc_registry := snd (release_intervention v (cc_registry c))\<rparr>)"
  using registry_call_good [OF assms, of "Release_route v"] by simp

lemma bind_channel_good:
  assumes good: "channel_good c"
  shows "channel_good (snd (bind_channel env request c))
    \<and> (fst (bind_channel env request c)
          \<in> {Inl HOSTED_WORKER_CHANNEL_UNAVAILABLE, Inl HOSTED_WORKER_REVOCATION_PROPAGATION_FAILED} \<longrightarrow>
        fenced_since (cc_registration c) (Suc (length (cc_log c))) (snd (bind_channel env request c)))"
proof (cases "cc_closed c")
  case True
  with good show ?thesis by (simp add: bind_channel_def)
next
  case False
  let ?v = "JObj (AList.update ''workerGeneration'' (jint (cc_generation c))
    (AList.update ''workerId'' (JStr (cc_worker c)) request))"
  obtain res g where b: "bind_intervention ?v (cc_registry c) = (res, g)" by fastforce
  have c1: "channel_good (c\<lparr>cc_registry := g\<rparr>)" using bind_result_good [OF good, of ?v] b by simp
  show ?thesis
  proof (cases res)
    case (Inl e)
    with False b c1 show ?thesis by (simp add: bind_channel_def)
  next
    case (Inr l)
    let ?m = "Send (Bind_message (rt_intervention l) (rt_epoch l) (rt_generation l))"
    obtain sent c2 where s: "await_effect env ?m (c\<lparr>cc_registry := g\<rparr>) = (sent, c2)" by fastforce
    have c2: "channel_good c2" "length (cc_log c2) = Suc (length (cc_log c))"
        "cc_registration c2 = cc_registration c"
      using any.awaited [OF c1, of env ?m] await_log [of env ?m "c\<lparr>cc_registry := g\<rparr>"] s
      by (simp_all add: list.pred_True)
    obtain r3 c3 where f: "fence_local c2 = (r3, c3)" by fastforce
    have c3: "fenced_since (cc_registration c) (Suc (length (cc_log c))) c3"
      using fence_starts [OF c2(1)] f c2 by simp
    have c4: "fenced_since (cc_registration c) (Suc (length (cc_log c)))
        (close_peer env (snd (notify_invalidated env ls Bind_delivery_failure c3)))" for ls
      by (intro fenced.peer_closed fenced.notified c3) (simp_all add: list.pred_True)
    show ?thesis
    proof (cases sent)
      case True
      with False b Inr s c2 show ?thesis by (simp add: bind_channel_def)
    next
      case False
      note open_ = \<open>\<not> cc_closed c\<close>
      show ?thesis
      proof (cases r3)
        case (Inl e)
        with open_ b Inr s f False c3 show ?thesis by (simp add: bind_channel_def fenced_since_def)
      next
        fix ls assume r3: "r3 = Inr ls"
        have "snd (bind_channel env request c)
            = close_peer env (snd (notify_invalidated env ls Bind_delivery_failure c3))"
          using open_ b Inr s f False r3 by (simp add: bind_channel_def split: prod.split)
        with c4 [of ls] show ?thesis by (simp add: fenced_since_def)
      qed
    qed
  qed
qed

text \<open>Disconnecting fences first, tells the surfaces second, and stays fenced whatever fails.\<close>

lemma disconnect_channel_fenced:
  assumes "channel_good c" and "\<not> cc_closed c"
  shows "fenced_since (cc_registration c) (length (cc_log c)) (snd (disconnect_channel env c))"
proof -
  obtain r1 c1 where f: "fence_local c = (r1, c1)" by fastforce
  have c1: "fenced_since (cc_registration c) (length (cc_log c)) c1"
    using fence_starts [OF assms(1)] f by simp
  then have "fenced_since (cc_registration c) (length (cc_log c))
      (close_peer env (snd (notify_invalidated env ls Worker_disconnect c1)))" for ls
    by (intro fenced.peer_closed fenced.notified) (simp_all add: list.pred_True)
  with c1 assms(2) f show ?thesis
    by (cases r1) (simp_all add: disconnect_channel_def case_prod_beta)
qed

lemma disconnect_channel_closed: "cc_closed c \<Longrightarrow> disconnect_channel env c = (Inr [], c)"
  by (simp add: disconnect_channel_def)

text \<open>Revoking releases the route before the surfaces and the worker hear of it.\<close>

lemma revoke_channel_revoked:
  assumes good: "channel_good c" and current: "channel_assert_current l c = Inr ()"
    and quiet: "\<forall>k. list_all (keeps_revoked (rt_intervention l)) (ce_meanwhile env k)"
  shows "revoked_since (rt_intervention l) (length (cc_log c)) (snd (revoke_channel env l c))"
proof -
  let ?i = "rt_intervention l" and ?n = "length (cc_log c)"
  let ?m = "Send (Revoke_message ?i (rt_epoch l) (rt_generation l))"
  have open_: "\<not> cc_closed c" and cur: "assert_current (route_object l) (cc_registry c) = Inr ()"
    using current by (auto simp: channel_assert_current_def split: if_splits sum.splits)
  have rel: "fst (release_intervention (route_object l) (cc_registry c)) = Inr ()"
    using cur by (auto simp: release_intervention_def assert_current_def
        split: sum.splits option.splits if_splits)
  then obtain g where g: "release_intervention (route_object l) (cc_registry c) = (Inr (), g)"
    by (metis prod.collapse)
  have start: "revoked_since ?i ?n (c\<lparr>cc_registry := g\<rparr>)"
    using released_inactive [OF _ rel] release_result_good [OF good, of "route_object l"] good g
    by (simp add: revoked_since_def logged_since_def channel_good_def)
  obtain told c1 where n: "notify_invalidated env [l] Explicit_revoke (c\<lparr>cc_registry := g\<rparr>) = (told, c1)"
    by fastforce
  obtain sent c2 where s: "await_effect env ?m c1 = (sent, c2)" by fastforce
  obtain r3 c3 where f: "fence_local c2 = (r3, c3)" by fastforce
  have c1: "revoked_since ?i ?n c1" using revoked.notified [OF start quiet] n by (metis snd_conv)
  have c2: "revoked_since ?i ?n c2" using revoked.awaited [OF c1 quiet] s by (metis snd_conv)
  have c3: "revoked_since ?i ?n c3"
    using revoked.holds_interfere [OF c2, of Fence_channel] f by (simp add: keeps_revoked_def)
  have c4: "revoked_since ?i ?n (close_peer env (snd (notify_invalidated env ls Revoke_delivery_failure c3)))"
    for ls using c3 quiet by (intro revoked.peer_closed revoked.notified)
  show ?thesis
    using open_ current g n s f c2 c3 c4
    by (cases sent; cases r3) (simp_all add: revoke_channel_def)
qed

text \<open>A revocation that reports a delivery failure has also fenced the whole channel.\<close>

lemma revoke_channel_unavailable:
  assumes good: "channel_good c"
    and failed: "fst (revoke_channel env l c) = Inl HOSTED_WORKER_CHANNEL_UNAVAILABLE"
  shows "cc_closed (snd (revoke_channel env l c)) \<and> channel_good (snd (revoke_channel env l c))"
proof -
  let ?m = "Send (Revoke_message (rt_intervention l) (rt_epoch l) (rt_generation l))"
  have current: "channel_assert_current l c = Inr ()" and open_: "\<not> cc_closed c"
    using failed by (auto simp: revoke_channel_def channel_assert_current_def split: sum.splits if_splits)
  obtain r g where g: "release_intervention (route_object l) (cc_registry c) = (r, g)" by fastforce
  then obtain u where r: "r = Inr u"
    using failed current open_ by (cases r) (auto simp: revoke_channel_def)
  obtain told c1 where n: "notify_invalidated env [l] Explicit_revoke (c\<lparr>cc_registry := g\<rparr>) = (told, c1)"
    by fastforce
  obtain sent c2 where s: "await_effect env ?m c1 = (sent, c2)" by fastforce
  obtain r3 c3 where f: "fence_local c2 = (r3, c3)" by fastforce
  have "channel_good (c\<lparr>cc_registry := g\<rparr>)"
    using release_result_good [OF good, of "route_object l"] g by simp
  then have "channel_good c1"
    using any.notified n by (metis (mono_tags, lifting) list.pred_True snd_conv)
  then have c2: "channel_good c2"
    using any.awaited s by (metis (mono_tags, lifting) list.pred_True snd_conv)
  have "fenced_since (cc_registration c2) (length (cc_log c2)) c3"
    using fence_starts [OF c2] f by simp
  then have c4: "fenced_since (cc_registration c2) (length (cc_log c2))
      (close_peer env (snd (notify_invalidated env ls Revoke_delivery_failure c3)))" for ls
    by (intro fenced.peer_closed fenced.notified) (simp_all add: list.pred_True)
  from failed have "\<not> sent"
    using open_ current g r n s by (auto simp: revoke_channel_def revoke_verdict_def split: if_splits)
  with failed c4 show ?thesis
    using open_ current g r n s f \<open>fenced_since _ _ c3\<close>
    by (cases r3) (auto simp: revoke_channel_def fenced_since_def)
qed

text \<open>Nothing of a closed channel is ever current again, whatever the registry is asked later.\<close>

lemma closed_channel_dead:
  assumes "channel_good c" and "cc_closed c" and "rt_worker l = cc_worker c"
    and "rt_generation l = cc_generation c"
  shows "assert_current (route_object l) (run registry_step (cc_registry c) ks) \<noteq> Inr ()"
proof -
  have "dead_generation (cc_worker c) (cc_generation c) (run registry_step (cc_registry c) ks)"
    using assms by (intro dead.good_run) (simp add: channel_good_def)
  with assms(3,4) show ?thesis by (intro dead_not_current)
qed

section \<open>Runs of a channel\<close>

text \<open>Operations of an opened channel, one after the other, and what others do in between.\<close>

datatype channel_call =
    Bind_call channel_env "(string \<times> jsval) list"
  | Revoke_call channel_env route_lease
  | Disconnect_call channel_env
  | Outside interference

fun channel_step :: "channel \<Rightarrow> channel_call \<Rightarrow> channel" where
  "channel_step c (Bind_call env request) = snd (bind_channel env request c)"
| "channel_step c (Revoke_call env l) = snd (revoke_channel env l c)"
| "channel_step c (Disconnect_call env) = snd (disconnect_channel env c)"
| "channel_step c (Outside i) = interfere c i"

lemma any_awaited: "channel_good c \<Longrightarrow> channel_good (snd (await_effect env x c))"
  by (rule any.awaited) (simp_all add: list.pred_True)

lemma any_notified: "channel_good c \<Longrightarrow> channel_good (snd (notify_invalidated env ls reason c))"
  by (rule any.notified) (simp_all add: list.pred_True)

lemma any_closed: "channel_good c \<Longrightarrow> channel_good (close_peer env c)"
  by (rule any.peer_closed) (simp_all add: list.pred_True)

lemma revoke_channel_good:
  assumes "channel_good c"
  shows "channel_good (snd (revoke_channel env l c))"
proof -
  obtain r g where g: "release_intervention (route_object l) (cc_registry c) = (r, g)" by fastforce
  obtain told c1 where n: "notify_invalidated env [l] Explicit_revoke (c\<lparr>cc_registry := g\<rparr>) = (told, c1)"
    by fastforce
  obtain sent c2 where s: "await_effect env
      (Send (Revoke_message (rt_intervention l) (rt_epoch l) (rt_generation l))) c1 = (sent, c2)"
    by fastforce
  obtain r3 c3 where f: "fence_local c2 = (r3, c3)" by fastforce
  have released: "channel_good (c\<lparr>cc_registry := g\<rparr>)"
    using release_result_good [OF assms, of "route_object l"] g by simp
  then have "channel_good c2"
    using any_notified [of _ env "[l]" Explicit_revoke] any_awaited n s by (metis snd_conv)
  moreover from this have "channel_good c3" using fence_local_good f by (metis snd_conv)
  ultimately show ?thesis
    using assms released g n s f
    by (cases r; cases r3) (simp_all add: revoke_channel_def any_closed any_notified split: sum.split)
qed

lemma channel_good_step [wf_intros]: "channel_good c \<Longrightarrow> channel_good (channel_step c x)"
proof (cases x)
  case (Disconnect_call env)
  assume good: "channel_good c"
  with Disconnect_call show ?thesis
    using disconnect_channel_fenced [OF good, of env]
    by (cases "cc_closed c") (simp_all add: disconnect_channel_closed fenced_since_def)
qed (simp_all add: bind_channel_good revoke_channel_good interfere_good)

interpretation channel: guarded_machine channel_step channel_good
  by unfold_locales (rule channel_good_step)

section \<open>Properties\<close>

text \<open>A channel whose peer and hooks answer as \<open>ok\<close> says, with nothing happening meanwhile.\<close>

definition quiet_env :: "bool \<Rightarrow> channel_env" where
  "quiet_env ok = \<lparr>ce_succeeds = \<lambda>_. ok, ce_meanwhile = \<lambda>_. [], ce_hook = True, ce_close = True\<rparr>"

definition sample_request_props :: "(string \<times> jsval) list" where
  "sample_request_props = [(''interventionId'', JStr ''i1''), (''epoch'', jint 2),
     (''principalBinding'', JStr ''principal-binding-1'')]"

definition registered_registry :: registry where
  "registered_registry = snd (register_worker (Fin 5) (registration_object sample_request) empty_registry)"

definition sample_channel :: channel where
  "sample_channel = \<lparr>cc_registry = registered_registry, cc_registration = aw_registration sample_worker,
     cc_binding = ''channel-binding-01'', cc_closed = False,
     cc_log = [(Send (Registered 1), registered_registry)]\<rparr>"

definition sample_bound_channel :: channel where
  "sample_bound_channel = run channel_step sample_channel [Bind_call (quiet_env True) sample_request_props]"

lemma quiet_await [simp]:
  "await_effect (quiet_env ok) x c = (ok, c\<lparr>cc_log := cc_log c @ [(x, cc_registry c)]\<rparr>)"
  by (simp add: await_effect_def quiet_env_def)

lemma sample_registers:
  "register_worker (Fin 5) (registration_object sample_request) empty_registry
     = (Inr (aw_registration sample_worker), registered_registry)"
  by (simp add: registered_registry_def register_worker_def empty_registry_def Let_def
      max_safe_integer_def sample_worker_def)

lemma registered_registry_value:
  "registered_registry = \<lparr>wr_active = [''worker-1'' \<mapsto> sample_worker],
     wr_principals = [''worker-1'' \<mapsto> ''principal-binding-1''], wr_generations = [''worker-1'' \<mapsto> 1],
     wr_routes = []\<rparr>"
  by (simp add: registered_registry_def register_worker_def empty_registry_def Let_def
      max_safe_integer_def sample_worker_def)

lemma sample_opened_channel:
  "open_channel (quiet_env True) (Fin 5) (registration_object sample_request) (run registry_step empty_registry [])
     = Opened sample_channel"
  by (simp add: sample_channel_def open_channel_def sample_registers sample_worker_fields)

lemma sample_bind_object:
  "JObj (AList.update ''workerGeneration'' (jint (cc_generation sample_channel))
      (AList.update ''workerId'' (JStr (cc_worker sample_channel)) sample_request_props))
    = JObj [(''interventionId'', JStr ''i1''), (''epoch'', jint 2),
       (''principalBinding'', JStr ''principal-binding-1''), (''workerId'', JStr ''worker-1''),
       (''workerGeneration'', jint 1)]"
  by (simp add: sample_channel_def sample_request_props_def sample_worker_def)

lemma sample_bind:
  "bind_intervention (JObj (AList.update ''workerGeneration'' (jint (cc_generation sample_channel))
      (AList.update ''workerId'' (JStr (cc_worker sample_channel)) sample_request_props)))
      (cc_registry sample_channel) = (Inr sample_lease, sample_registry)"
proof -
  have object: "JObj (AList.update ''workerGeneration'' (jint (cc_generation sample_channel))
      (AList.update ''workerId'' (JStr (cc_worker sample_channel)) sample_request_props)) = route_object sample_lease"
    unfolding sample_bind_object by (simp add: route_object_def sample_lease_fields)
  have "snd (bind_intervention (route_object sample_lease) registered_registry) = sample_registry"
    by (simp add: sample_registry_def sample_setup_def registered_registry_def)
  moreover have "fst (bind_intervention (route_object sample_lease) registered_registry) = Inr sample_lease"
    by (simp add: bind_intervention_def require_worker_def sample_lease_fields registered_registry_value
        text_eval sample_worker_fields)
  ultimately show ?thesis
    unfolding object by (simp add: sample_channel_def prod_eq_iff)
qed

lemma sample_bound_channel_value:
  "sample_bound_channel = \<lparr>cc_registry = sample_registry, cc_registration = aw_registration sample_worker,
     cc_binding = ''channel-binding-01'', cc_closed = False,
     cc_log = [(Send (Registered 1), registered_registry), (Send (Bind_message ''i1'' 2 1), sample_registry)]\<rparr>"
  using sample_bind
  by (simp add: sample_bound_channel_def bind_channel_def sample_channel_def sample_lease_fields)

text \<open>C17. Disconnecting fences before anybody hears of it. On an opened channel, after any calls and any
  interference, \<open>disconnect\<close> closes the channel, and at every effect it then emits (the invalidation hook, the
  close of the peer) the registry already refuses every route of the channel's worker generation; it refuses
  them at the end too, whatever the hook and the peer do.\<close>

theorem disconnect_fences_before_notifying:
  assumes "open_channel env0 now v (run registry_step empty_registry cs) = Opened c0"
    and "c = run channel_step c0 xs" and "\<not> cc_closed c" and "c' = snd (disconnect_channel env c)"
    and "rt_worker l = cc_worker c" and "rt_generation l = cc_generation c"
  shows "cc_closed c' \<and> assert_current (route_object l) (cc_registry c') \<noteq> Inr ()
    \<and> list_all (\<lambda>(x, g). assert_current (route_object l) g \<noteq> Inr ()) (drop (length (cc_log c)) (cc_log c'))"
proof -
  have "channel_good c"
    using open_channel_good(1) [OF worker_fence.good_run [OF registry_good_empty] assms(1)] assms(2)
    by (auto intro: channel.good_run)
  from disconnect_channel_fenced [OF this assms(3), of env]
  show ?thesis
    using assms(4-6)
    by (auto simp: fenced_since_def logged_since_def channel_good_def list_all_iff dest: dead_not_current)
qed

theorem disconnect_fences_before_notifying_witness:
  "cc_closed (snd (disconnect_channel (quiet_env False) sample_bound_channel))
   \<and> map fst (drop 2 (cc_log (snd (disconnect_channel (quiet_env False) sample_bound_channel)))) =
       [Routes_invalidated [sample_lease] Worker_disconnect, Close_peer]"
proof -
  have "map fst (drop 2 (cc_log (snd (disconnect_channel (quiet_env False) sample_bound_channel)))) =
       [Routes_invalidated [sample_lease] Worker_disconnect, Close_peer]"
    by (simp add: disconnect_channel_def fence_local_def sample_bound_channel_value sample_disconnect
        notify_invalidated_def close_peer_def sample_worker_def)
      (simp add: quiet_env_def)
  then show ?thesis
    using disconnect_fences_before_notifying [OF sample_opened_channel sample_bound_channel_def _ refl,
        of sample_lease "quiet_env False"]
    by (simp add: sample_bound_channel_value sample_lease_fields) (simp add: sample_worker_def)
qed

text \<open>A bind the worker did not receive fences the whole channel. If \<open>bindIntervention\<close> reports that
  delivery or propagation failed, the channel is closed, every effect after the undelivered bind message is
  emitted with all of this generation's routes already refused, and they are refused for good.\<close>

theorem failed_bind_fences:
  assumes "open_channel env0 now v (run registry_step empty_registry cs) = Opened c0"
    and "c = run channel_step c0 xs" and "c' = snd (bind_channel env request c)"
    and "fst (bind_channel env request c)
      \<in> {Inl HOSTED_WORKER_CHANNEL_UNAVAILABLE, Inl HOSTED_WORKER_REVOCATION_PROPAGATION_FAILED}"
    and "rt_worker l = cc_worker c" and "rt_generation l = cc_generation c"
  shows "cc_closed c' \<and> assert_current (route_object l) (run registry_step (cc_registry c') ks) \<noteq> Inr ()
    \<and> list_all (\<lambda>(x, g). assert_current (route_object l) g \<noteq> Inr ())
        (drop (Suc (length (cc_log c))) (cc_log c'))"
proof -
  have "channel_good c"
    using open_channel_good(1) [OF worker_fence.good_run [OF registry_good_empty] assms(1)] assms(2)
    by (auto intro: channel.good_run)
  from bind_channel_good [OF this, of env request] assms(3,4)
  have "channel_good c'" "fenced_since (cc_registration c) (Suc (length (cc_log c))) c'" by auto
  then show ?thesis
    using assms(5,6) closed_channel_dead [of c' l ks]
    by (auto simp: fenced_since_def logged_since_def list_all_iff dest: dead_not_current)
qed

theorem failed_bind_fences_witness:
  "fst (bind_channel (quiet_env False) sample_request_props sample_channel)
     = Inl HOSTED_WORKER_REVOCATION_PROPAGATION_FAILED
   \<and> cc_closed (snd (bind_channel (quiet_env False) sample_request_props sample_channel))"
proof -
  have "cc_closed sample_channel = False" "cc_registration sample_channel = aw_registration sample_worker"
      "cc_binding sample_channel = ''channel-binding-01''"
    by (simp_all add: sample_channel_def)
  moreover have "ce_hook (quiet_env False)" by (simp add: quiet_env_def)
  moreover have "rg_worker (aw_registration sample_worker) = ''worker-1''" by (simp add: sample_worker_def)
  ultimately have "fst (bind_channel (quiet_env False) sample_request_props sample_channel)
      = Inl HOSTED_WORKER_REVOCATION_PROPAGATION_FAILED"
    using sample_bind
    by (simp add: bind_channel_def fence_local_def sample_disconnect sample_worker_fields
        notify_invalidated_def)
  then show ?thesis
    using failed_bind_fences [OF sample_opened_channel, of sample_channel "[]" _ "quiet_env False"
        sample_request_props "\<lparr>rt_intervention = [], rt_epoch = 0, rt_principal = [],
          rt_worker = cc_worker sample_channel, rt_generation = cc_generation sample_channel\<rparr>" "[]"]
    by simp
qed

text \<open>C18. Revoking takes the route away before it is announced. When \<open>revokeIntervention\<close> is called on a
  current route and nobody rebinds the intervention meanwhile, the registry refuses the route at every effect the
  call emits (the invalidation hook, the revoke message, the close of the peer), at its end, and under any later
  calls that do not bind the intervention again, whether or not the hook and the worker answered.\<close>

theorem revoke_precedes_announcement:
  assumes "open_channel env0 now v (run registry_step empty_registry cs) = Opened c0"
    and "c = run channel_step c0 xs" and "c' = snd (revoke_channel env l c)"
    and "channel_assert_current l c = Inr ()"
    and "\<forall>k. list_all (keeps_revoked (rt_intervention l)) (ce_meanwhile env k)"
    and "list_all (\<lambda>k. \<not> rebinds (rt_intervention l) k) ks"
  shows "assert_current (route_object l) (run registry_step (cc_registry c') ks) \<noteq> Inr ()
    \<and> list_all (\<lambda>(x, g). assert_current (route_object l) g \<noteq> Inr ()) (drop (length (cc_log c)) (cc_log c'))"
proof -
  have "channel_good c"
    using open_channel_good(1) [OF worker_fence.good_run [OF registry_good_empty] assms(1)] assms(2)
    by (auto intro: channel.good_run)
  from revoke_channel_revoked [OF this assms(4,5)] assms(3)
  have revoked: "revoked_since (rt_intervention l) (length (cc_log c)) c'" by simp
  then have "inactive_route (rt_intervention l) (run registry_step (cc_registry c') ks)"
    using assms(6) by (intro inactive_run) (simp_all add: revoked_since_def)
  with revoked show ?thesis
    by (auto simp: revoked_since_def logged_since_def list_all_iff dest: inactive_not_current)
qed

theorem revoke_precedes_announcement_witness:
  "assert_current (route_object sample_lease)
     (cc_registry (snd (revoke_channel (quiet_env False) sample_lease sample_bound_channel))) \<noteq> Inr ()
   \<and> channel_assert_current sample_lease sample_bound_channel = Inr ()"
proof -
  have "channel_assert_current sample_lease sample_bound_channel = Inr ()"
    using sample_lease_current
    by (simp add: channel_assert_current_def sample_bound_channel_value sample_lease_fields)
      (simp add: sample_worker_def)
  then show ?thesis
    using revoke_precedes_announcement [OF sample_opened_channel sample_bound_channel_def refl,
        of sample_lease "quiet_env False" "[]"]
    by (simp add: quiet_env_def)
qed

text \<open>A closed channel admits nothing. Once a channel is closed, by its own operations or by another of
  its users, no route of its worker generation is current again under any later registry calls, and none of its
  operations does anything any more.\<close>

theorem closed_channel_admits_nothing:
  assumes "open_channel env0 now v (run registry_step empty_registry cs) = Opened c0"
    and "c = run channel_step c0 xs" and "cc_closed c"
    and "rt_worker l = cc_worker c" and "rt_generation l = cc_generation c"
  shows "assert_current (route_object l) (run registry_step (cc_registry c) ks) \<noteq> Inr ()
    \<and> bind_channel env request c = (Inl HOSTED_WORKER_CHANNEL_CLOSED, c)
    \<and> revoke_channel env l c = (Inl HOSTED_WORKER_CHANNEL_CLOSED, c)
    \<and> disconnect_channel env c = (Inr [], c) \<and> channel_assert_current l c = Inl HOSTED_WORKER_CHANNEL_CLOSED"
proof -
  have "channel_good c"
    using open_channel_good(1) [OF worker_fence.good_run [OF registry_good_empty] assms(1)] assms(2)
    by (auto intro: channel.good_run)
  from closed_channel_dead [OF this assms(3-5)] assms(3) show ?thesis
    by (simp add: bind_channel_def revoke_channel_def disconnect_channel_def channel_assert_current_def)
qed

theorem closed_channel_admits_nothing_witness:
  "assert_current (route_object sample_lease)
     (run registry_step (cc_registry (run channel_step sample_channel [Outside Fence_channel])) sample_setup)
     \<noteq> Inr ()"
proof -
  have "cc_registration (run channel_step sample_channel [Outside Fence_channel]) = aw_registration sample_worker"
    by (simp add: sample_channel_def)
  then show ?thesis
    using closed_channel_admits_nothing [OF sample_opened_channel refl, of "[Outside Fence_channel]"
        sample_lease sample_setup "quiet_env True" "[]"]
    by (simp add: sample_lease_fields sample_worker_fields) (simp add: sample_worker_def)
qed

end
