(* ===== verification/Operator_Binding.thy ===== *)
theory Operator_Binding
  imports Worker_Registry
begin

text \<open>
  \<open>src/core/hosted-operator-binding.ts\<close>: the composition of one operator session with one
  worker route, checked against both at binding time and again before every use.
\<close>

section \<open>Session references\<close>

datatype operator_error =
    HOSTED_OPERATOR_SESSION_INVALID
  | HOSTED_OPERATOR_SESSION_EXPIRED
  | HOSTED_OPERATOR_SESSION_MISMATCH
  | HOSTED_OPERATOR_VIEWER_STALE
  | Operator_registry_error registry_error

record operator_session =
  os_session :: string
  os_intervention :: string
  os_epoch :: int
  os_principal :: string
  os_expires :: int
  os_viewer :: int

record route_binding =
  rb_operator :: operator_session
  rb_worker :: route_lease

definition parse_operator_session :: "jsval \<Rightarrow> operator_error + operator_session" where
  "parse_operator_session v = (case v of
       JObj ps \<Rightarrow>
         if \<not> keys_within ps [''sessionId'', ''interventionId'', ''epoch'', ''principalBinding'',
               ''expiresAt'', ''viewerGeneration'']
           \<or> \<not> bounded_string (get_prop ps ''sessionId'') 1 160
           \<or> \<not> bounded_string (get_prop ps ''interventionId'') 1 160
           \<or> \<not> safe_int_from 0 (get_prop ps ''epoch'')
           \<or> \<not> bounded_string (get_prop ps ''principalBinding'') 16 160
           \<or> \<not> safe_int_from 0 (get_prop ps ''expiresAt'')
           \<or> \<not> safe_int_from 1 (get_prop ps ''viewerGeneration'')
         then Inl HOSTED_OPERATOR_SESSION_INVALID
         else Inr \<lparr>os_session = str_of_val (get_prop ps ''sessionId''),
                   os_intervention = str_of_val (get_prop ps ''interventionId''),
                   os_epoch = int_of_val (get_prop ps ''epoch''),
                   os_principal = str_of_val (get_prop ps ''principalBinding''),
                   os_expires = int_of_val (get_prop ps ''expiresAt''),
                   os_viewer = int_of_val (get_prop ps ''viewerGeneration'')\<rparr>
     | _ \<Rightarrow> Inl HOSTED_OPERATOR_SESSION_INVALID)"

definition session_object :: "operator_session \<Rightarrow> jsval" where
  "session_object s = JObj [(''sessionId'', JStr (os_session s)),
     (''interventionId'', JStr (os_intervention s)), (''epoch'', jint (os_epoch s)),
     (''principalBinding'', JStr (os_principal s)), (''expiresAt'', jint (os_expires s)),
     (''viewerGeneration'', jint (os_viewer s))]"

definition session_valid :: "operator_session \<Rightarrow> bool" where
  "session_valid s \<longleftrightarrow> bounded_text 1 160 (os_session s) \<and> bounded_text 1 160 (os_intervention s)
     \<and> 0 \<le> os_epoch s \<and> safe_int (os_epoch s) \<and> bounded_text 16 160 (os_principal s)
     \<and> 0 \<le> os_expires s \<and> safe_int (os_expires s) \<and> 0 < os_viewer s \<and> safe_int (os_viewer s)"

lemma parse_session_object [simp]:
  "parse_operator_session (session_object s) =
     (if session_valid s then Inr s else Inl HOSTED_OPERATOR_SESSION_INVALID)"
  by (auto simp: parse_operator_session_def session_object_def session_valid_def keys_within_iff)

lemma parse_session_valid: "parse_operator_session v = Inr s \<Longrightarrow> session_valid s"
  by (auto simp: parse_operator_session_def session_valid_def safe_int_from_def
      split: jsval.splits if_splits dest: bounded_stringD is_safe_numD)

section \<open>Binding and revalidation\<close>

definition same_session_identity :: "operator_session \<Rightarrow> operator_session \<Rightarrow> bool" where
  "same_session_identity a b \<longleftrightarrow> os_session a = os_session b \<and> os_intervention a = os_intervention b
     \<and> os_epoch a = os_epoch b \<and> os_principal a = os_principal b"

definition assert_session_live :: "operator_session \<Rightarrow> jsnum \<Rightarrow> operator_error + unit" where
  "assert_session_live s now =
     (if \<not> num_safe_integer now \<or> num_lt now (num_of_int 0) then Inl HOSTED_OPERATOR_SESSION_INVALID
      else if num_le (num_of_int (os_expires s)) now then Inl HOSTED_OPERATOR_SESSION_EXPIRED
      else Inr ())"

definition bind_operator_session ::
  "jsval \<Rightarrow> route_lease \<Rightarrow> registry \<Rightarrow> jsnum \<Rightarrow> operator_error + route_binding" where
  "bind_operator_session v l g now = (case parse_operator_session v of
       Inl e \<Rightarrow> Inl e
     | Inr s \<Rightarrow> (case assert_session_live s now of
           Inl e \<Rightarrow> Inl e
         | Inr _ \<Rightarrow> (case assert_current (route_object l) g of
               Inl e \<Rightarrow> Inl (Operator_registry_error e)
             | Inr _ \<Rightarrow>
                 if os_intervention s \<noteq> rt_intervention l \<or> os_epoch s \<noteq> rt_epoch l
                   \<or> os_principal s \<noteq> rt_principal l
                 then Inl HOSTED_OPERATOR_SESSION_MISMATCH
                 else Inr \<lparr>rb_operator = s, rb_worker = l\<rparr>)))"

definition assert_binding_current ::
  "route_binding \<Rightarrow> jsval \<Rightarrow> registry \<Rightarrow> jsnum \<Rightarrow> operator_error + unit" where
  "assert_binding_current b v g now = (case parse_operator_session (session_object (rb_operator b)) of
       Inl e \<Rightarrow> Inl e
     | Inr bound \<Rightarrow> (case parse_operator_session v of
         Inl e \<Rightarrow> Inl e
       | Inr current \<Rightarrow> (case assert_session_live current now of
           Inl e \<Rightarrow> Inl e
         | Inr _ \<Rightarrow>
             if \<not> same_session_identity bound current \<or> os_expires bound \<noteq> os_expires current
             then Inl HOSTED_OPERATOR_SESSION_MISMATCH
             else if os_viewer bound \<noteq> os_viewer current then Inl HOSTED_OPERATOR_VIEWER_STALE
             else (case assert_current (route_object (rb_worker b)) g of
                 Inl e \<Rightarrow> Inl (Operator_registry_error e)
               | Inr _ \<Rightarrow>
                   if rt_intervention (rb_worker b) \<noteq> os_intervention current
                     \<or> rt_epoch (rb_worker b) \<noteq> os_epoch current
                     \<or> rt_principal (rb_worker b) \<noteq> os_principal current
                   then Inl HOSTED_OPERATOR_SESSION_MISMATCH else Inr ()))))"

text \<open>What the two checks admit, with the session's clock and the registry spelled out.\<close>

definition session_live :: "operator_session \<Rightarrow> jsnum \<Rightarrow> bool" where
  "session_live s now \<longleftrightarrow> num_safe_integer now \<and> 0 \<le> num_to_int now \<and> num_to_int now < os_expires s"

lemma assert_session_live_iff [guard_simps]: "assert_session_live s now = Inr () \<longleftrightarrow> session_live s now"
  by (cases now) (auto simp: assert_session_live_def session_live_def num_safe_integer_def floor_less_iff
      le_floor_iff not_less not_le)

definition binding_agrees :: "route_binding \<Rightarrow> bool" where
  "binding_agrees b \<longleftrightarrow> os_intervention (rb_operator b) = rt_intervention (rb_worker b)
     \<and> os_epoch (rb_operator b) = rt_epoch (rb_worker b)
     \<and> os_principal (rb_operator b) = rt_principal (rb_worker b)"

lemma bind_operator_session_iff:
  "bind_operator_session v l g now = Inr b \<longleftrightarrow>
     parse_operator_session v = Inr (rb_operator b) \<and> rb_worker b = l \<and> binding_agrees b
     \<and> session_live (rb_operator b) now \<and> assert_current (route_object l) g = Inr ()"
  by (cases b)
    (auto simp: bind_operator_session_def binding_agrees_def assert_session_live_iff [symmetric]
      split: sum.splits if_splits)

text \<open>The current session equals the bound one in every field: no rotation is accepted.\<close>

lemma assert_binding_current_iff:
  "assert_binding_current b v g now = Inr () \<longleftrightarrow>
     parse_operator_session v = Inr (rb_operator b) \<and> session_live (rb_operator b) now
     \<and> assert_current (route_object (rb_worker b)) g = Inr () \<and> binding_agrees b"
proof (cases "parse_operator_session v")
  case (Inl e)
  then show ?thesis by (simp add: assert_binding_current_def)
next
  case (Inr s)
  have "same_session_identity (rb_operator b) s \<and> os_expires (rb_operator b) = os_expires s
      \<and> os_viewer (rb_operator b) = os_viewer s \<longleftrightarrow> s = rb_operator b"
    by (auto simp: same_session_identity_def)
  with Inr parse_session_valid [OF Inr] show ?thesis
    by (auto simp: assert_binding_current_def binding_agrees_def assert_session_live_iff [symmetric]
        split: sum.splits if_splits)
qed

text \<open>A binding is dead once its worker generation is, and once its viewer is replaced.\<close>

lemma binding_stale_worker:
  assumes "dead_generation (rt_worker (rb_worker b)) (rt_generation (rb_worker b)) g"
  shows "assert_binding_current b v (run registry_step g ks) now \<noteq> Inr ()"
  using dead_not_current [OF dead.good_run [OF assms, of ks] refl refl]
  by (simp add: assert_binding_current_iff)

lemma binding_stale_viewer:
  "parse_operator_session v = Inr s \<Longrightarrow> os_viewer s \<noteq> os_viewer (rb_operator b) \<Longrightarrow>
     assert_binding_current b v g now \<noteq> Inr ()"
  by (auto simp: assert_binding_current_iff)

section \<open>Properties\<close>

definition sample_session :: operator_session where
  "sample_session = \<lparr>os_session = ''s1'', os_intervention = ''i1'', os_epoch = 2,
     os_principal = ''principal-binding-1'', os_expires = 100, os_viewer = 1\<rparr>"

definition sample_binding :: route_binding where
  "sample_binding = \<lparr>rb_operator = sample_session, rb_worker = sample_lease\<rparr>"

lemma sample_session_valid [simp]: "session_valid sample_session"
  by (simp add: session_valid_def sample_session_def text_eval)

lemma sample_session_live: "session_live sample_session (Fin 10)"
  by (simp add: session_live_def sample_session_def)

lemma sample_binds:
  "bind_operator_session (session_object sample_session) sample_lease sample_registry (Fin 10)
     = Inr sample_binding"
  by (simp add: bind_operator_session_iff sample_session_live sample_lease_current sample_binding_def
      binding_agrees_def) (simp add: sample_session_def sample_lease_fields)

lemma sample_binding_current:
  "assert_binding_current sample_binding (session_object sample_session) sample_registry (Fin 10) = Inr ()"
  using sample_binds by (auto simp: bind_operator_session_iff assert_binding_current_iff sample_binding_def)

text \<open>An operator binding is exact. A session binds to a route exactly when it parses, its clock reading is
  a safe integer before its expiry, it names the route's intervention, epoch and principal, and the registry holds
  the route current. From then on the binding is accepted exactly while the presented session is the bound one
  in every field (viewer generation and expiry included), has not expired, and the same route is current: no
  rotated session and no other route continues it.\<close>

theorem operator_binding_exact:
  assumes "bind_operator_session v l g now = Inr b"
  shows "(bind_operator_session v l g' now' = Inr b \<longleftrightarrow>
      session_live (rb_operator b) now' \<and> assert_current (route_object l) g' = Inr ())
    \<and> (assert_binding_current b v' g' now' = Inr () \<longleftrightarrow> parse_operator_session v' = parse_operator_session v
        \<and> session_live (rb_operator b) now' \<and> assert_current (route_object l) g' = Inr ())
    \<and> os_intervention (rb_operator b) = rt_intervention l \<and> os_epoch (rb_operator b) = rt_epoch l
    \<and> os_principal (rb_operator b) = rt_principal l"
  using assms by (auto simp: bind_operator_session_iff assert_binding_current_iff binding_agrees_def)

theorem operator_binding_exact_witness:
  "assert_binding_current sample_binding (session_object (sample_session\<lparr>os_viewer := 2\<rparr>))
     sample_registry (Fin 10) \<noteq> Inr ()
   \<and> assert_binding_current sample_binding (session_object sample_session) sample_registry (Fin 99) = Inr ()
   \<and> assert_binding_current sample_binding (session_object sample_session) sample_registry (Fin 100) \<noteq> Inr ()"
proof -
  have "session_live sample_session (Fin 99)" "\<not> session_live sample_session (Fin 100)"
    by (simp_all add: session_live_def sample_session_def)
  moreover have "sample_session\<lparr>os_viewer := 2\<rparr> \<noteq> sample_session" by (simp add: sample_session_def)
  moreover have "session_valid (sample_session\<lparr>os_viewer := 2\<rparr>)"
    using sample_session_valid by (simp add: session_valid_def)
  ultimately show ?thesis
    using operator_binding_exact [OF sample_binds, of sample_registry] sample_lease_current
    by (simp add: sample_binding_def)
qed

end
