(* ===== verification/Frame_Bridge.thy ===== *)
theory Frame_Bridge
  imports Operator_Binding "HOL-Library.Multiset" "HOL-Library.Sublist"
begin

text \<open>
  \<open>src/core/hosted-latest-frame-bridge.ts\<close>: \<open>HostedLatestFrameBridge\<close>, which holds at
  most one frame in flight and one pending. An asynchronous method runs without interruption up to
  its \<open>await\<close>; the settling of \<open>peer.sendFrame\<close> is a step of its own.
\<close>

section \<open>Frames\<close>

datatype bridge_error =
    HOSTED_FRAME_INVALID
  | HOSTED_FRAME_BRIDGE_CLOSED
  | HOSTED_FRAME_TRANSPORT_FAILURE
  | Bridge_operator_error operator_error

record frame =
  fr_data :: byte_list
  fr_width :: int
  fr_height :: int
  fr_mime :: string

definition bounded_limit :: "jsnum option \<Rightarrow> int \<Rightarrow> int \<Rightarrow> bridge_error + int" where
  "bounded_limit v fallback maximum =
     (let r = (case v of None \<Rightarrow> num_of_int fallback | Some n \<Rightarrow> n) in
      if \<not> num_integer r \<or> num_to_int r < 1 \<or> maximum < num_to_int r
      then Inl HOSTED_FRAME_INVALID else Inr (num_to_int r))"

definition bytes_length :: "jsval \<Rightarrow> int" where
  "bytes_length v = (case v of JBytes bs \<Rightarrow> int (length bs) | _ \<Rightarrow> 0)"

definition dimension_ok :: "jsval \<Rightarrow> bool" where
  "dimension_ok v \<longleftrightarrow> is_integer_num v \<and> 1 \<le> int_of_val v \<and> int_of_val v \<le> 16384"

definition parse_frame :: "jsval \<Rightarrow> jsnum \<Rightarrow> bridge_error + frame" where
  "parse_frame v max_bytes = (case bounded_limit (Some max_bytes) 4194304 8388608 of
       Inl e \<Rightarrow> Inl e
     | Inr bounded_max \<Rightarrow> (case v of
         JObj ps \<Rightarrow>
           if \<not> keys_exactly ps [''data'', ''width'', ''height'', ''mimeType'']
             \<or> bytes_length (get_prop ps ''data'') < 1
             \<or> bounded_max < bytes_length (get_prop ps ''data'')
             \<or> \<not> dimension_ok (get_prop ps ''width'') \<or> \<not> dimension_ok (get_prop ps ''height'')
             \<or> get_prop ps ''mimeType'' \<notin> {JStr ''image/jpeg'', JStr ''image/png''}
           then Inl HOSTED_FRAME_INVALID
           else Inr \<lparr>fr_data = (case get_prop ps ''data'' of JBytes bs \<Rightarrow> bs | _ \<Rightarrow> []),
                     fr_width = int_of_val (get_prop ps ''width''),
                     fr_height = int_of_val (get_prop ps ''height''),
                     fr_mime = str_of_val (get_prop ps ''mimeType'')\<rparr>
       | _ \<Rightarrow> Inl HOSTED_FRAME_INVALID))"

definition frame_valid :: "int \<Rightarrow> frame \<Rightarrow> bool" where
  "frame_valid limit f \<longleftrightarrow> fr_data f \<noteq> [] \<and> int (length (fr_data f)) \<le> limit
     \<and> 1 \<le> fr_width f \<and> fr_width f \<le> 16384 \<and> 1 \<le> fr_height f \<and> fr_height f \<le> 16384
     \<and> fr_mime f \<in> {''image/jpeg'', ''image/png''}"

definition frame_object :: "frame \<Rightarrow> jsval" where
  "frame_object f = JObj [(''data'', JBytes (fr_data f)), (''width'', jint (fr_width f)),
     (''height'', jint (fr_height f)), (''mimeType'', JStr (fr_mime f))]"

lemma parse_frame_valid:
  "parse_frame v n = Inr f \<Longrightarrow> frame_valid (num_to_int n) f \<and> num_to_int n \<le> 8388608"
  by (auto simp: parse_frame_def bounded_limit_def frame_valid_def dimension_ok_def bytes_length_def Let_def
      split: jsval.splits if_splits option.splits)

lemma parse_frame_object [simp]:
  "1 \<le> m \<Longrightarrow> m \<le> 8388608 \<Longrightarrow> parse_frame (frame_object f) (num_of_int m) =
     (if frame_valid m f then Inr f else Inl HOSTED_FRAME_INVALID)"
  by (auto simp: parse_frame_def bounded_limit_def frame_object_def frame_valid_def dimension_ok_def
      bytes_length_def keys_exactly_def keys_within_iff object_keys_def Let_def)

section \<open>The bridge\<close>

text \<open>
  What one segment reads from outside: the registry, the operator reference, the clock and the
  transport's buffered amount (\<open>None\<close>: the reading throws).
\<close>

record bridge_reading =
  br_registry :: registry
  br_operator :: jsval
  br_now :: jsnum
  br_buffered :: "jsnum option"

text \<open>The fields of the class, the frame the send loop is awaiting, and two histories: the
  frames accepted by \<open>publish\<close> and those handed to the peer with the readings they were checked
  against.\<close>

record bridge =
  fb_binding :: route_binding
  fb_max_frame :: int
  fb_max_buffered :: int
  fb_closed :: bool
  fb_sending :: bool
  fb_pending :: "frame option"
  fb_in_flight :: "frame option"
  fb_sent :: nat
  fb_dropped :: nat
  fb_backpressure :: nat
  fb_accepted :: "frame list"
  fb_delivered :: "(frame \<times> bridge_reading) list"

definition create_bridge ::
  "route_binding \<Rightarrow> jsnum option \<Rightarrow> jsnum option \<Rightarrow> bridge_error + bridge" where
  "create_bridge b max_frame max_buffered = (case bounded_limit max_frame 4194304 8388608 of
       Inl e \<Rightarrow> Inl e
     | Inr mf \<Rightarrow> (case bounded_limit max_buffered 524288 4194304 of
           Inl e \<Rightarrow> Inl e
         | Inr mb \<Rightarrow> Inr \<lparr>fb_binding = b, fb_max_frame = mf, fb_max_buffered = mb, fb_closed = False,
             fb_sending = False, fb_pending = None, fb_in_flight = None, fb_sent = 0, fb_dropped = 0,
             fb_backpressure = 0, fb_accepted = [], fb_delivered = []\<rparr>))"

definition bridge_current :: "bridge_reading \<Rightarrow> bridge \<Rightarrow> bridge_error + unit" where
  "bridge_current x b =
     (case assert_binding_current (fb_binding b) (br_operator x) (br_registry x) (br_now x) of
        Inl e \<Rightarrow> Inl (Bridge_operator_error e) | Inr _ \<Rightarrow> Inr ())"

definition replace_pending :: "frame \<Rightarrow> bridge \<Rightarrow> bridge" where
  "replace_pending f b = (if fb_pending b \<noteq> None then b\<lparr>fb_dropped := fb_dropped b + 1, fb_pending := Some f\<rparr>
     else b\<lparr>fb_pending := Some f\<rparr>)"

definition fail_transport :: "bridge \<Rightarrow> bridge" where
  "fail_transport b = b\<lparr>fb_closed := True, fb_pending := None\<rparr>"

definition is_backpressured :: "bridge_reading \<Rightarrow> bridge \<Rightarrow> (bridge_error + bool) \<times> bridge" where
  "is_backpressured x b = (case br_buffered x of
       None \<Rightarrow> (Inl HOSTED_FRAME_TRANSPORT_FAILURE, fail_transport b)
     | Some n \<Rightarrow>
         if \<not> num_finite n \<or> num_lt n (num_of_int 0) \<or> num_lt (num_of_int max_safe_integer) n
         then (Inl HOSTED_FRAME_TRANSPORT_FAILURE, fail_transport b)
         else if num_lt (num_of_int (fb_max_buffered b)) n
         then (Inr True, b\<lparr>fb_backpressure := fb_backpressure b + 1\<rparr>)
         else (Inr False, b))"

text \<open>One turn of the send loop, up to the \<open>await\<close>; every other exit runs the
  \<open>finally\<close> block.\<close>

definition loop_done :: "bridge \<Rightarrow> bridge" where
  "loop_done b = b\<lparr>fb_sending := False, fb_in_flight := None\<rparr>"

definition loop_turn ::
  "bridge_reading \<Rightarrow> frame option \<Rightarrow> bridge \<Rightarrow> (bridge_error + unit) \<times> bridge" where
  "loop_turn x current b = (case current of
       None \<Rightarrow> (Inr (), loop_done b)
     | Some f \<Rightarrow>
         if fb_closed b then (Inr (), loop_done b)
         else (case bridge_current x b of
             Inl e \<Rightarrow> (Inl e, loop_done b)
           | Inr _ \<Rightarrow> (case is_backpressured x b of
                 (Inl e, b1) \<Rightarrow> (Inl e, loop_done b1)
               | (Inr True, b1) \<Rightarrow> (Inr (), loop_done (replace_pending f b1))
               | (Inr False, b1) \<Rightarrow>
                   (Inr (), b1\<lparr>fb_in_flight := Some f, fb_delivered := fb_delivered b1 @ [(f, x)]\<rparr>))))"

definition send_loop :: "bridge_reading \<Rightarrow> frame \<Rightarrow> bridge \<Rightarrow> (bridge_error + unit) \<times> bridge" where
  "send_loop x f b = loop_turn x (Some f) (b\<lparr>fb_sending := True\<rparr>)"

text \<open>The promise of \<open>sendFrame\<close> settles.\<close>

definition settle :: "bool \<Rightarrow> bridge_reading \<Rightarrow> bridge \<Rightarrow> (bridge_error + unit) \<times> bridge" where
  "settle ok x b =
     (if fb_in_flight b = None then (Inr (), b)
      else if \<not> ok then (Inl HOSTED_FRAME_TRANSPORT_FAILURE, loop_done (fail_transport b))
      else loop_turn x (fb_pending b)
             (b\<lparr>fb_sent := fb_sent b + 1, fb_pending := None, fb_in_flight := None\<rparr>))"

definition publish ::
  "jsval \<Rightarrow> bridge_reading \<Rightarrow> bridge_reading \<Rightarrow> bridge \<Rightarrow> (bridge_error + unit) \<times> bridge" where
  "publish v x y b =
     (if fb_closed b then (Inl HOSTED_FRAME_BRIDGE_CLOSED, b)
      else (case parse_frame v (num_of_int (fb_max_frame b)) of
          Inl e \<Rightarrow> (Inl e, b)
        | Inr f \<Rightarrow> (case bridge_current x b of
            Inl e \<Rightarrow> (Inl e, b)
          | Inr _ \<Rightarrow>
              (let b0 = b\<lparr>fb_accepted := fb_accepted b @ [f]\<rparr> in
               if fb_sending b0 then (Inr (), replace_pending f b0)
               else (case is_backpressured x b0 of
                   (Inl e, b1) \<Rightarrow> (Inl e, b1)
                 | (Inr True, b1) \<Rightarrow> (Inr (), replace_pending f b1)
                 | (Inr False, b1) \<Rightarrow> send_loop y f b1)))))"

definition drain :: "bridge_reading \<Rightarrow> bridge_reading \<Rightarrow> bridge \<Rightarrow> (bridge_error + unit) \<times> bridge" where
  "drain x y b =
     (if fb_closed b then (Inl HOSTED_FRAME_BRIDGE_CLOSED, b)
      else (case bridge_current x b of
          Inl e \<Rightarrow> (Inl e, b)
        | Inr _ \<Rightarrow> (case (fb_sending b, fb_pending b) of
            (False, Some f) \<Rightarrow> (case is_backpressured x b of
                (Inl e, b1) \<Rightarrow> (Inl e, b1)
              | (Inr True, b1) \<Rightarrow> (Inr (), b1)
              | (Inr False, b1) \<Rightarrow> send_loop y f (b1\<lparr>fb_pending := None\<rparr>))
          | _ \<Rightarrow> (Inr (), b))))"

definition close_bridge :: "bridge \<Rightarrow> bridge" where
  "close_bridge b = b\<lparr>fb_closed := True, fb_pending := None\<rparr>"

datatype bridge_call =
    Publish jsval bridge_reading bridge_reading
  | Drain bridge_reading bridge_reading
  | Settle bool bridge_reading
  | Close_bridge

fun bridge_step :: "bridge \<Rightarrow> bridge_call \<Rightarrow> bridge" where
  "bridge_step b (Publish v x y) = snd (publish v x y b)"
| "bridge_step b (Drain x y) = snd (drain x y b)"
| "bridge_step b (Settle ok x) = snd (settle ok x b)"
| "bridge_step b Close_bridge = close_bridge b"

section \<open>The invariant\<close>

text \<open>A frame was handed over lawfully: valid, under a current binding, to a transport that was
  not backpressured.\<close>

definition delivery_ok :: "route_binding \<Rightarrow> int \<Rightarrow> int \<Rightarrow> frame \<times> bridge_reading \<Rightarrow> bool" where
  "delivery_ok bd mf mb d \<longleftrightarrow> frame_valid mf (fst d)
     \<and> assert_binding_current bd (br_operator (snd d)) (br_registry (snd d)) (br_now (snd d)) = Inr ()
     \<and> (\<exists>n. br_buffered (snd d) = Some n \<and> num_le n (num_of_int mb))"

definition option_count :: "'a option \<Rightarrow> nat" where
  "option_count x = (case x of None \<Rightarrow> 0 | Some _ \<Rightarrow> 1)"

definition option_mset :: "'a option \<Rightarrow> 'a multiset" where
  "option_mset x = (case x of None \<Rightarrow> {#} | Some a \<Rightarrow> {#a#})"

lemma option_counts [simp]:
  "option_count None = 0" "option_count (Some a) = 1" "option_mset None = {#}" "option_mset (Some a) = {#a#}"
  by (simp_all add: option_count_def option_mset_def)

text \<open>The invariant while the loop holds \<open>current\<close> and has not handed it over yet.\<close>

definition loop_good :: "frame option \<Rightarrow> bridge \<Rightarrow> bool" where
  "loop_good current b \<longleftrightarrow> (fb_closed b \<longrightarrow> fb_pending b = None) \<and> fb_in_flight b = None
     \<and> list_all (delivery_ok (fb_binding b) (fb_max_frame b) (fb_max_buffered b)) (fb_delivered b)
     \<and> pred_option (frame_valid (fb_max_frame b)) current
     \<and> pred_option (frame_valid (fb_max_frame b)) (fb_pending b)
     \<and> mset (map fst (fb_delivered b)) + option_mset current + option_mset (fb_pending b)
         \<subseteq># mset (fb_accepted b)
     \<and> fb_dropped b + length (fb_delivered b) + option_count current + option_count (fb_pending b)
         \<le> length (fb_accepted b)
     \<and> fb_sent b \<le> length (fb_delivered b)"

definition bridge_good :: "bridge \<Rightarrow> bool" where
  "bridge_good b \<longleftrightarrow> (fb_closed b \<longrightarrow> fb_pending b = None)
     \<and> (fb_sending b \<longleftrightarrow> fb_in_flight b \<noteq> None)
     \<and> list_all (delivery_ok (fb_binding b) (fb_max_frame b) (fb_max_buffered b)) (fb_delivered b)
     \<and> pred_option (frame_valid (fb_max_frame b)) (fb_pending b)
     \<and> mset (map fst (fb_delivered b)) + option_mset (fb_pending b) \<subseteq># mset (fb_accepted b)
     \<and> fb_dropped b + length (fb_delivered b) + option_count (fb_pending b) \<le> length (fb_accepted b)
     \<and> fb_sent b + option_count (fb_in_flight b) \<le> length (fb_delivered b)"

lemma backpressure_cases:
  obtains (failed) "is_backpressured x b = (Inl HOSTED_FRAME_TRANSPORT_FAILURE, fail_transport b)"
    | (full) "is_backpressured x b = (Inr True, b\<lparr>fb_backpressure := fb_backpressure b + 1\<rparr>)"
    | (free) n where "is_backpressured x b = (Inr False, b)" "br_buffered x = Some n"
        "num_le n (num_of_int (fb_max_buffered b))"
proof (cases "br_buffered x")
  case None
  then show thesis by (intro failed) (simp add: is_backpressured_def)
next
  case (Some n)
  show thesis
  proof (cases "\<not> num_finite n \<or> num_lt n (num_of_int 0) \<or> num_lt (num_of_int max_safe_integer) n")
    case True
    with Some show thesis by (intro failed) (auto simp: is_backpressured_def)
  next
    case False
    then obtain q where q: "n = Fin q" by (cases n) auto
    show thesis
    proof (cases "num_lt (num_of_int (fb_max_buffered b)) n")
      case True
      with False Some show thesis by (intro full) (simp add: is_backpressured_def)
    next
      case less: False
      with False Some q show thesis by (intro free [of n]) (simp_all add: is_backpressured_def)
    qed
  qed
qed

lemma subset_drop_middle: "A + B + C \<subseteq># D \<Longrightarrow> A + C \<subseteq># (D :: 'a multiset)"
  by (metis mset_subset_eq_add_left subset_mset.order_trans add.assoc add.commute)

lemma subset_drop_last: "A + B \<subseteq># D \<Longrightarrow> A \<subseteq># (D :: 'a multiset)"
  by (metis mset_subset_eq_add_left subset_mset.order_trans)

lemma subset_drop_added: "add_mset f (A + B) \<subseteq># D \<Longrightarrow> add_mset f A \<subseteq># (D :: 'a multiset)"
  using subset_drop_last [of "add_mset f A" B D] by simp

lemma loop_done_good: "loop_good current b \<Longrightarrow> bridge_good (loop_done b)"
  using subset_drop_middle by (auto simp: loop_good_def bridge_good_def loop_done_def)

lemma fail_transport_good: "loop_good current b \<Longrightarrow> loop_good current (fail_transport b)"
  using subset_drop_last by (fastforce simp: loop_good_def fail_transport_def)

lemma replace_pending_good:
  assumes "loop_good (Some f) b" and "\<not> fb_closed b"
  shows "loop_good None (replace_pending f b)"
proof -
  from assms(1) have "add_mset f (image_mset fst (mset (fb_delivered b))) \<subseteq># mset (fb_accepted b)"
    by (auto simp: loop_good_def dest: subset_drop_added)
  with assms show ?thesis
    by (cases "fb_pending b") (simp_all add: loop_good_def replace_pending_def)
qed

lemma loop_good_backpressure [simp]: "loop_good f (b\<lparr>fb_backpressure := n\<rparr>) = loop_good f b"
  by (simp add: loop_good_def)

lemma loop_turn_good:
  assumes good: "loop_good current b" and sending: "fb_sending b"
  shows "bridge_good (snd (loop_turn x current b))"
proof (cases current)
  case None
  with good show ?thesis by (simp add: loop_turn_def loop_done_good)
next
  case (Some f)
  note good_f = good [unfolded Some]
  show ?thesis
  proof (cases "fb_closed b \<or> isl (bridge_current x b)")
    case True
    with Some good show ?thesis by (auto simp: loop_turn_def loop_done_good split: sum.split)
  next
    case False
    then obtain u where open_: "\<not> fb_closed b" and cur: "bridge_current x b = Inr u" by (auto simp: is_ok_Inr_iff)
    show ?thesis
    proof (cases rule: backpressure_cases [of x b])
      case failed
      with Some open_ cur good show ?thesis
        by (simp add: loop_turn_def) (rule loop_done_good, erule fail_transport_good)
    next
      case full
      with Some open_ cur good_f show ?thesis
        by (simp add: loop_turn_def) (rule loop_done_good, rule replace_pending_good, simp_all)
    next
      case (free n)
      with cur good_f have "delivery_ok (fb_binding b) (fb_max_frame b) (fb_max_buffered b) (f, x)"
        by (auto simp: delivery_ok_def loop_good_def bridge_current_def split: sum.splits)
      with free Some open_ cur sending good_f show ?thesis
        by (simp add: loop_turn_def bridge_good_def loop_good_def)
    qed
  qed
qed

lemma settle_good: "bridge_good b \<Longrightarrow> bridge_good (snd (settle ok x b))"
proof -
  assume good: "bridge_good b"
  show ?thesis
  proof (cases "fb_in_flight b")
    case None
    with good show ?thesis by (simp add: settle_def)
  next
    case (Some f)
    let ?b = "b\<lparr>fb_sent := fb_sent b + 1, fb_pending := None, fb_in_flight := None\<rparr>"
    have b: "loop_good (fb_pending b) ?b" "fb_sending ?b"
      using good Some by (auto simp: bridge_good_def loop_good_def)
    have "bridge_good (loop_done (fail_transport b))"
      using good Some subset_drop_last
      by (fastforce simp: bridge_good_def loop_done_def fail_transport_def)
    with Some loop_turn_good [OF b, of x] show ?thesis by (simp add: settle_def)
  qed
qed

lemma send_loop_good:
  assumes "loop_good (Some f) b"
  shows "bridge_good (snd (send_loop y f b))"
  using assms unfolding send_loop_def by (intro loop_turn_good) (simp_all add: loop_good_def)

lemma fail_transport_idle: "bridge_good b \<Longrightarrow> bridge_good (fail_transport b)"
  using subset_drop_last by (fastforce simp: bridge_good_def fail_transport_def)

lemma accepted_loop_good:
  assumes "bridge_good b" and "\<not> fb_sending b" and "frame_valid (fb_max_frame b) f"
  shows "loop_good (Some f) (b\<lparr>fb_accepted := fb_accepted b @ [f]\<rparr>)"
  using assms by (auto simp: bridge_good_def loop_good_def)

lemma bridge_good_frame [simp]:
  "bridge_good (b\<lparr>fb_backpressure := n\<rparr>) = bridge_good b"
  by (simp add: bridge_good_def)

lemma publish_sending_good:
  assumes "bridge_good b" and "frame_valid (fb_max_frame b) f" and "\<not> fb_closed b"
  shows "bridge_good (replace_pending f (b\<lparr>fb_accepted := fb_accepted b @ [f], fb_backpressure := n\<rparr>))"
proof -
  from assms(1) have "mset (map fst (fb_delivered b)) \<subseteq># mset (fb_accepted b)"
    using subset_drop_last by (auto simp: bridge_good_def)
  with assms show ?thesis
    by (cases "fb_pending b") (simp_all add: bridge_good_def replace_pending_def)
qed

lemma publish_good:
  assumes good: "bridge_good b"
  shows "bridge_good (snd (publish v x y b))"
proof (cases "fb_closed b \<or> isl (parse_frame v (num_of_int (fb_max_frame b))) \<or> isl (bridge_current x b)")
  case True
  with good show ?thesis by (auto simp: publish_def split: sum.split)
next
  case False
  then obtain f u where open_: "\<not> fb_closed b" and f: "parse_frame v (num_of_int (fb_max_frame b)) = Inr f"
    and cur: "bridge_current x b = Inr u" by (auto simp: is_ok_Inr_iff)
  have valid: "frame_valid (fb_max_frame b) f" using parse_frame_valid [OF f] by simp
  let ?b = "b\<lparr>fb_accepted := fb_accepted b @ [f]\<rparr>"
  have accepted: "bridge_good ?b"
    using good subset_mset.order_trans by (fastforce simp: bridge_good_def)
  show ?thesis
  proof (cases "fb_sending b")
    case True
    with open_ f cur publish_sending_good [OF good valid open_, of "fb_backpressure b"]
    show ?thesis by (simp add: publish_def)
  next
    case False
    show ?thesis
    proof (cases rule: backpressure_cases [of x ?b])
      case failed
      with open_ f cur False fail_transport_idle [OF accepted] show ?thesis by (simp add: publish_def)
    next
      case full
      with open_ f cur False publish_sending_good [OF good valid open_, of "fb_backpressure b + 1"]
      show ?thesis by (simp add: publish_def)
    next
      case (free n)
      with open_ f cur False send_loop_good [OF accepted_loop_good [OF good False valid]]
      show ?thesis by (simp add: publish_def)
    qed
  qed
qed

lemma drain_good:
  assumes good: "bridge_good b"
  shows "bridge_good (snd (drain x y b))"
proof (cases "fb_closed b \<or> isl (bridge_current x b) \<or> fb_sending b \<or> fb_pending b = None")
  case True
  with good show ?thesis by (auto simp: drain_def split: sum.split option.split bool.split)
next
  case False
  then obtain f u where open_: "\<not> fb_closed b" and cur: "bridge_current x b = Inr u"
    and idle: "\<not> fb_sending b" and f: "fb_pending b = Some f" by (auto simp: is_ok_Inr_iff)
  have loop: "loop_good (Some f) (b\<lparr>fb_pending := None\<rparr>)"
    using good idle f by (auto simp: bridge_good_def loop_good_def)
  show ?thesis
  proof (cases rule: backpressure_cases [of x b])
    case failed
    with open_ cur idle f fail_transport_idle [OF good] show ?thesis by (simp add: drain_def)
  next
    case full
    with open_ cur idle f good show ?thesis by (simp add: drain_def)
  next
    case (free n)
    with open_ cur idle f send_loop_good [OF loop, of y] show ?thesis by (simp add: drain_def)
  qed
qed

lemma close_bridge_good: "bridge_good b \<Longrightarrow> bridge_good (close_bridge b)"
  using subset_drop_last by (fastforce simp: bridge_good_def close_bridge_def)

lemma bridge_good_step [wf_intros]: "bridge_good b \<Longrightarrow> bridge_good (bridge_step b c)"
  by (cases c) (simp_all add: publish_good drain_good settle_good close_bridge_good)

lemma create_bridge_good: "create_bridge bd mf mb = Inr b \<Longrightarrow> bridge_good b"
  by (auto simp: create_bridge_def bridge_good_def split: sum.splits)

interpretation frame_bridge: guarded_machine bridge_step bridge_good
  by unfold_locales (rule bridge_good_step)

section \<open>A closed bridge delivers nothing\<close>

definition closed_with :: "(frame \<times> bridge_reading) list \<Rightarrow> bridge \<Rightarrow> bool" where
  "closed_with ds b \<longleftrightarrow> fb_closed b \<and> fb_pending b = None \<and> fb_delivered b = ds"

lemma closed_with_step: "closed_with ds b \<Longrightarrow> closed_with ds (bridge_step b c)"
  by (cases c) (auto simp: closed_with_def publish_def drain_def settle_def loop_turn_def loop_done_def
      fail_transport_def close_bridge_def)

interpretation closed_bridge: guarded_machine bridge_step "closed_with ds" for ds
  by unfold_locales (rule closed_with_step)

section \<open>Order of delivery\<close>

text \<open>\<open>publish\<close> on an idle bridge that still holds a pending frame hands the new frame over
  at once and leaves the older one pending.\<close>

fun overtakes :: "bridge \<Rightarrow> bridge_call \<Rightarrow> bool" where
  "overtakes b (Publish v x y) = (\<not> fb_sending b \<and> fb_pending b \<noteq> None)"
| "overtakes b _ = False"

fun never_overtakes :: "bridge \<Rightarrow> bridge_call list \<Rightarrow> bool" where
  "never_overtakes b [] = True"
| "never_overtakes b (c # cs) = (\<not> overtakes b c \<and> never_overtakes (bridge_step b c) cs)"

definition option_list :: "'a option \<Rightarrow> 'a list" where
  "option_list x = (case x of None \<Rightarrow> [] | Some a \<Rightarrow> [a])"

lemma option_list_simps [simp]: "option_list None = []" "option_list (Some a) = [a]"
  by (simp_all add: option_list_def)

definition ordered :: "frame option \<Rightarrow> bridge \<Rightarrow> bool" where
  "ordered current b \<longleftrightarrow> (current \<noteq> None \<longrightarrow> fb_pending b = None)
     \<and> subseq (map fst (fb_delivered b) @ option_list current @ option_list (fb_pending b)) (fb_accepted b)"

lemma subseq_drop_last: "subseq (xs @ ys) zs \<Longrightarrow> subseq xs zs"
  using list_emb_append2 [of "(=)" xs xs ys] subseq_order.trans
  by (metis append_Nil2 list_emb_append_mono list_emb_Nil subseq_order.refl)

lemma subseq_then: "subseq (xs @ ys) zs \<Longrightarrow> subseq (xs @ [f]) (zs @ [f])"
  using subseq_drop_last by (metis list_emb_append_mono subseq_order.refl)

lemma ordered_loop_turn: "ordered current b \<Longrightarrow> ordered None (snd (loop_turn x current b))"
proof (cases current)
  case (Some f)
  assume ord: "ordered current b"
  then have "subseq (map fst (fb_delivered b)) (fb_accepted b)"
    by (auto simp: ordered_def dest: subseq_drop_last)
  then show ?thesis
    using ord Some
    by (cases rule: backpressure_cases [of x b])
      (auto simp: loop_turn_def ordered_def loop_done_def fail_transport_def replace_pending_def
        split: sum.split)
qed (simp add: loop_turn_def ordered_def loop_done_def)

lemma ordered_cong:
  assumes "fb_pending b = fb_pending b'" "fb_delivered b = fb_delivered b'" "fb_accepted b = fb_accepted b'"
  shows "ordered c b = ordered c b'"
  using assms by (simp add: ordered_def)

lemma ordered_step:
  assumes ord: "ordered None b" and no: "\<not> overtakes b c"
  shows "ordered None (bridge_step b c)"
proof -
  have sub: "subseq (map fst (fb_delivered b)) (fb_accepted b)"
    using ord by (auto simp: ordered_def dest: subseq_drop_last)
  have new: "subseq (map fst (fb_delivered b) @ [f]) (fb_accepted b @ [f])" for f
    using subseq_then [of "map fst (fb_delivered b)" "[]"] sub by simp
  have old: "subseq (map fst (fb_delivered b)) (fb_accepted b @ fs)" for fs
    using sub by (metis append_Nil2 list_emb_append_mono list_emb_Nil)
  show ?thesis
  proof (cases c)
    case (Publish v x y)
    have turn: "ordered None (snd (send_loop y f (b\<lparr>fb_accepted := fb_accepted b @ [f]\<rparr>)))"
      if "fb_pending b = None" for f
      unfolding send_loop_def
      by (rule ordered_loop_turn) (use that new [of f] in \<open>simp add: ordered_def\<close>)
    have keep: "ordered None (replace_pending f (b\<lparr>fb_accepted := fb_accepted b @ [f], fb_backpressure := n\<rparr>))"
      for f n using new [of f] by (simp add: ordered_def replace_pending_def)
    have fail: "ordered None (fail_transport (b\<lparr>fb_accepted := fb_accepted b @ [f]\<rparr>))" for f
      using old [of "[f]"] by (simp add: ordered_def fail_transport_def)
    have keep': "ordered None (replace_pending f (b\<lparr>fb_accepted := fb_accepted b @ [f]\<rparr>))" for f
      using new [of f] by (simp add: ordered_def replace_pending_def)
    show ?thesis
    proof (cases "parse_frame v (num_of_int (fb_max_frame b))")
      case (Inr f)
      show ?thesis
        by (cases rule: backpressure_cases [of x "b\<lparr>fb_accepted := fb_accepted b @ [f]\<rparr>"])
          (use ord no Inr Publish turn keep keep' fail in \<open>auto simp: publish_def Let_def split: sum.split\<close>)
    qed (use ord Publish in \<open>simp add: publish_def\<close>)
  next
    case (Drain x y)
    have turn: "ordered None (snd (send_loop y f (b\<lparr>fb_pending := None\<rparr>)))" if "fb_pending b = Some f" for f
      unfolding send_loop_def
      by (rule ordered_loop_turn) (use that ord in \<open>simp add: ordered_def\<close>)
    have fail: "ordered None (fail_transport b)" using sub by (simp add: ordered_def fail_transport_def)
    have full: "ordered None (b\<lparr>fb_backpressure := n\<rparr>)" for n using ord by (simp add: ordered_def)
    show ?thesis
      by (cases rule: backpressure_cases [of x b])
        (use ord Drain turn fail full in \<open>auto simp: drain_def split: sum.split option.split bool.split\<close>)
  next
    case (Settle ok x)
    have "ordered None (snd (loop_turn x (fb_pending b)
        (b\<lparr>fb_sent := fb_sent b + 1, fb_pending := None, fb_in_flight := None\<rparr>)))"
      by (rule ordered_loop_turn) (use ord in \<open>auto simp: ordered_def\<close>)
    moreover have "ordered None (loop_done (fail_transport b))"
      using sub by (simp add: ordered_def loop_done_def fail_transport_def)
    ultimately show ?thesis using ord Settle by (simp add: settle_def)
  next
    case Close_bridge
    with sub show ?thesis by (simp add: ordered_def close_bridge_def)
  qed
qed

lemma ordered_run: "ordered None b \<Longrightarrow> never_overtakes b cs \<Longrightarrow> ordered None (run bridge_step b cs)"
  by (induction cs arbitrary: b) (simp_all add: ordered_step)

text \<open>The overtaking itself: the newer frame is handed over first, the older one after it.\<close>

definition reading_free :: "bridge_reading \<Rightarrow> bridge \<Rightarrow> bool" where
  "reading_free x b \<longleftrightarrow> bridge_current x b = Inr () \<and> is_backpressured x b = (Inr False, b)"

lemma reading_free_iff: "reading_free x b \<longleftrightarrow>
    assert_binding_current (fb_binding b) (br_operator x) (br_registry x) (br_now x) = Inr ()
    \<and> (\<exists>n. br_buffered x = Some n \<and> num_finite n \<and> \<not> num_lt n (num_of_int 0)
         \<and> \<not> num_lt (num_of_int max_safe_integer) n \<and> \<not> num_lt (num_of_int (fb_max_buffered b)) n)"
  by (auto simp: reading_free_def bridge_current_def is_backpressured_def
      split: sum.splits option.splits if_splits)

lemma reading_free_backpressure:
  assumes "reading_free x b" and "fb_max_buffered b' = fb_max_buffered b"
  shows "is_backpressured x b' = (Inr False, b')"
  using assms by (auto simp: reading_free_iff is_backpressured_def)

lemma reading_free_current:
  assumes "reading_free x b" and "fb_binding b' = fb_binding b"
  shows "bridge_current x b' = Inr ()"
  using assms by (auto simp: reading_free_iff bridge_current_def)

lemma overtaking_run:
  assumes "fb_pending b = Some old" and "\<not> fb_sending b" and "\<not> fb_closed b"
    and "parse_frame v (num_of_int (fb_max_frame b)) = Inr f"
    and "reading_free x b" and "reading_free y b" and "reading_free z b"
  shows "map fst (fb_delivered (run bridge_step b [Publish v x y, Settle True z]))
    = map fst (fb_delivered b) @ [f, old]"
  using assms(1-4)
  by (simp add: publish_def settle_def send_loop_def loop_turn_def Let_def
      reading_free_backpressure [OF assms(5)] reading_free_backpressure [OF assms(6)]
      reading_free_backpressure [OF assms(7)] reading_free_current [OF assms(5)]
      reading_free_current [OF assms(6)] reading_free_current [OF assms(7)])

section \<open>Properties\<close>

definition sample_frame :: "nat \<Rightarrow> frame" where
  "sample_frame n = \<lparr>fr_data = [n], fr_width = 640, fr_height = 480, fr_mime = ''image/png''\<rparr>"

definition sample_bridge :: bridge where
  "sample_bridge = \<lparr>fb_binding = sample_binding, fb_max_frame = 4194304, fb_max_buffered = 524288,
     fb_closed = False, fb_sending = False, fb_pending = None, fb_in_flight = None, fb_sent = 0,
     fb_dropped = 0, fb_backpressure = 0, fb_accepted = [], fb_delivered = []\<rparr>"

text \<open>A reading under the current binding, with so many bytes buffered.\<close>

definition sample_reading :: "int \<Rightarrow> bridge_reading" where
  "sample_reading n = \<lparr>br_registry = sample_registry, br_operator = session_object sample_session,
     br_now = Fin 10, br_buffered = Some (num_of_int n)\<rparr>"

lemma sample_bridge_created: "create_bridge sample_binding None None = Inr sample_bridge"
  by (simp add: create_bridge_def bounded_limit_def sample_bridge_def)

lemma sample_frame_parses [simp]: "parse_frame (frame_object (sample_frame n)) (Fin 4194304) = Inr (sample_frame n)"
  using parse_frame_object [of 4194304 "sample_frame n"] by (simp add: frame_valid_def sample_frame_def)

lemma sample_reading_current [simp]: "fb_binding b = sample_binding \<Longrightarrow> bridge_current (sample_reading n) b = Inr ()"
  using sample_binding_current by (simp add: bridge_current_def sample_reading_def)

lemma sample_reading_load [simp]:
  "fb_max_buffered b = 524288 \<Longrightarrow> is_backpressured (sample_reading 0) b = (Inr False, b)"
  "fb_max_buffered b = 524288 \<Longrightarrow>
     is_backpressured (sample_reading 999999) b = (Inr True, b\<lparr>fb_backpressure := fb_backpressure b + 1\<rparr>)"
  by (simp_all add: is_backpressured_def sample_reading_def max_safe_integer_def)

text \<open>C19. What the operator's peer is handed. For any sequence of calls on a new bridge, every frame handed to the
  peer has a valid size, dimensions and type, was handed over while the binding passed its full revalidation against
  the registry, session and clock of that very moment, and to a transport whose buffer was within the limit. No
  frame is handed over that \<open>publish\<close> did not accept, and none more often than it was accepted.\<close>

theorem handed_frames_are_authorised:
  assumes "create_bridge bd mf mb = Inr b0" and "b = run bridge_step b0 cs"
  shows "list_all (\<lambda>(f, x). frame_valid (fb_max_frame b) f
      \<and> assert_binding_current (fb_binding b) (br_operator x) (br_registry x) (br_now x) = Inr ()
      \<and> (\<exists>n. br_buffered x = Some n \<and> num_le n (num_of_int (fb_max_buffered b)))) (fb_delivered b)
    \<and> mset (map fst (fb_delivered b)) \<subseteq># mset (fb_accepted b)
    \<and> fb_sent b \<le> length (fb_delivered b)
    \<and> fb_dropped b + length (fb_delivered b) \<le> length (fb_accepted b)"
proof -
  have "bridge_good b" using frame_bridge.good_run [OF create_bridge_good [OF assms(1)]] assms(2) by simp
  then show ?thesis
    by (auto simp: bridge_good_def delivery_ok_def list_all_iff dest: subset_drop_last split: prod.splits)
qed

theorem handed_frames_are_authorised_witness:
  "map fst (fb_delivered (run bridge_step sample_bridge
      [Publish (frame_object (sample_frame 1)) (sample_reading 0) (sample_reading 0)])) = [sample_frame 1]
   \<and> mset [sample_frame 1] \<subseteq># mset (fb_accepted (run bridge_step sample_bridge
      [Publish (frame_object (sample_frame 1)) (sample_reading 0) (sample_reading 0)]))"
proof -
  have "map fst (fb_delivered (run bridge_step sample_bridge
      [Publish (frame_object (sample_frame 1)) (sample_reading 0) (sample_reading 0)])) = [sample_frame 1]"
    by (simp add: publish_def send_loop_def loop_turn_def sample_bridge_def)
  then show ?thesis
    using handed_frames_are_authorised [OF sample_bridge_created refl, of "[Publish (frame_object
      (sample_frame 1)) (sample_reading 0) (sample_reading 0)]"] by simp
qed

text \<open>C20. Frames are handed over in the order in which they were accepted, with frames left out but none
  repeated or exchanged, as long as \<open>publish\<close> is not called on an idle bridge that still holds a pending
  frame (C21 says what happens then).\<close>

theorem frames_keep_order:
  assumes "create_bridge bd mf mb = Inr b0" and "never_overtakes b0 cs"
  shows "subseq (map fst (fb_delivered (run bridge_step b0 cs))) (fb_accepted (run bridge_step b0 cs))"
proof -
  have "ordered None b0" using assms(1) by (auto simp: create_bridge_def ordered_def split: sum.splits)
  from ordered_run [OF this assms(2)] show ?thesis by (auto simp: ordered_def dest: subseq_drop_last)
qed

definition sample_frames_run :: "bridge_call list" where
  "sample_frames_run =
     [Publish (frame_object (sample_frame 1)) (sample_reading 0) (sample_reading 0),
      Publish (frame_object (sample_frame 2)) (sample_reading 0) (sample_reading 0),
      Publish (frame_object (sample_frame 3)) (sample_reading 0) (sample_reading 0),
      Settle True (sample_reading 0)]"

theorem frames_keep_order_witness:
  "map fst (fb_delivered (run bridge_step sample_bridge sample_frames_run)) = [sample_frame 1, sample_frame 3]
   \<and> subseq [sample_frame 1, sample_frame 3] (fb_accepted (run bridge_step sample_bridge sample_frames_run))"
proof -
  have "map fst (fb_delivered (run bridge_step sample_bridge sample_frames_run)) = [sample_frame 1, sample_frame 3]"
    by (simp add: sample_frames_run_def publish_def send_loop_def loop_turn_def settle_def replace_pending_def
        sample_bridge_def)
  moreover have "never_overtakes sample_bridge sample_frames_run"
    by (simp add: sample_frames_run_def publish_def send_loop_def loop_turn_def replace_pending_def
        sample_bridge_def)
  ultimately show ?thesis using frames_keep_order [OF sample_bridge_created] by fastforce
qed

text \<open>C21. Publishing on an idle bridge with a pending frame sends the newer frame first and the stale one after it.
  A frame is left pending because the buffer was full; the next frame is published when the buffer has room: it is
  handed over at once, and when its send completes the older pending frame follows, although a newer frame is meant
  to replace the pending one.\<close>

theorem idle_publish_sends_stale_frame:
  assumes "fb_pending b = None" and "\<not> fb_sending b" and "\<not> fb_closed b"
    and "parse_frame v (num_of_int (fb_max_frame b)) = Inr old"
    and "parse_frame v' (num_of_int (fb_max_frame b)) = Inr new"
    and "bridge_current x b = Inr ()"
    and "is_backpressured x b = (Inr True, b\<lparr>fb_backpressure := fb_backpressure b + 1\<rparr>)"
    and "reading_free y b"
  shows "fb_accepted (run bridge_step b [Publish v x x, Publish v' y y, Settle True y]) = fb_accepted b @ [old, new]
    \<and> map fst (fb_delivered (run bridge_step b [Publish v x x, Publish v' y y, Settle True y]))
        = map fst (fb_delivered b) @ [new, old]"
proof -
  have full: "is_backpressured x b' = (Inr True, b'\<lparr>fb_backpressure := fb_backpressure b' + 1\<rparr>)"
    if "fb_max_buffered b' = fb_max_buffered b" for b'
    using assms(7) that by (auto simp: is_backpressured_def split: option.splits if_splits)
  define b1 where "b1 = bridge_step b (Publish v x x)"
  have b1: "fb_pending b1 = Some old" "\<not> fb_sending b1" "\<not> fb_closed b1" "fb_max_frame b1 = fb_max_frame b"
      "fb_max_buffered b1 = fb_max_buffered b" "fb_binding b1 = fb_binding b" "fb_delivered b1 = fb_delivered b"
      "fb_accepted b1 = fb_accepted b @ [old]"
    using assms(1-4,6) full [of "b\<lparr>fb_accepted := fb_accepted b @ [old]\<rparr>"]
    by (simp_all add: b1_def publish_def replace_pending_def Let_def)
  then have free: "reading_free y b1" using assms(8) by (simp add: reading_free_iff)
  have "fb_accepted (run bridge_step b1 [Publish v' y y, Settle True y]) = fb_accepted b1 @ [new]"
    using b1(1-3) assms(5) b1(4)
    by (simp add: publish_def settle_def send_loop_def loop_turn_def Let_def
        reading_free_backpressure [OF free] reading_free_current [OF free])
  then show ?thesis
    using overtaking_run [OF b1(1-3) _ free free free, of v' new] assms(5) b1
    by (simp add: b1_def del: bridge_step.simps)
qed

theorem idle_publish_sends_stale_frame_witness:
  "map fst (fb_delivered (run bridge_step sample_bridge
     [Publish (frame_object (sample_frame 1)) (sample_reading 999999) (sample_reading 999999),
      Publish (frame_object (sample_frame 2)) (sample_reading 0) (sample_reading 0),
      Settle True (sample_reading 0)])) = [sample_frame 2, sample_frame 1]"
  using idle_publish_sends_stale_frame [of sample_bridge "frame_object (sample_frame 1)" "sample_frame 1"
      "frame_object (sample_frame 2)" "sample_frame 2" "sample_reading 999999" "sample_reading 0"]
  by (simp add: sample_bridge_def reading_free_def del: bridge_step.simps)

text \<open>A closed bridge is silent. Once it is closed, by \<open>close\<close>, by a rejected send or by a failed reading of
  the transport, no call hands a frame over again, and no frame is kept for later.\<close>

theorem closed_bridge_is_silent:
  assumes "create_bridge bd mf mb = Inr b0" and "b = run bridge_step b0 cs" and "fb_closed b"
  shows "fb_delivered (run bridge_step b ds) = fb_delivered b \<and> fb_pending (run bridge_step b ds) = None
    \<and> fb_closed (run bridge_step b ds)"
proof -
  have "bridge_good b" using frame_bridge.good_run [OF create_bridge_good [OF assms(1)]] assms(2) by simp
  with assms(3) have "closed_with (fb_delivered b) b" by (simp add: closed_with_def bridge_good_def)
  from closed_bridge.good_run [OF this, of ds] show ?thesis by (simp add: closed_with_def)
qed

theorem closed_bridge_is_silent_witness:
  "fb_delivered (run bridge_step (run bridge_step sample_bridge [Close_bridge])
     [Publish (frame_object (sample_frame 1)) (sample_reading 0) (sample_reading 0)]) = []"
  using closed_bridge_is_silent [OF sample_bridge_created refl, of "[Close_bridge]"
      "[Publish (frame_object (sample_frame 1)) (sample_reading 0) (sample_reading 0)]"]
  by (simp add: close_bridge_def sample_bridge_def)

end
