(* ===== verification/Worker_Data.thy ===== *)
theory Worker_Data
  imports Frame_Bridge Worker_Channel
begin

text \<open>
  \<open>src/core/hosted-worker-data.ts\<close>: Human input and frames between the control plane and a
  worker: the input parser, the control-plane input bridge, the frame ingress and the worker-side
  route gate.
\<close>

section \<open>Human input\<close>

datatype input_error =
    HOSTED_INPUT_INVALID
  | HOSTED_INPUT_BUSY
  | HOSTED_INPUT_CLOSED
  | HOSTED_INPUT_TRANSPORT_FAILURE
  | HOSTED_INPUT_STALE_ROUTE
  | Input_operator_error operator_error

datatype human_input = Tap rat rat | Scroll int | Text_input string | Key_input string

fun unit_interval :: "jsval \<Rightarrow> bool" where
  "unit_interval (JNum (Fin q)) = (0 \<le> q \<and> q \<le> 1)"
| "unit_interval _ = False"

fun rat_of_val :: "jsval \<Rightarrow> rat" where
  "rat_of_val (JNum (Fin q)) = q"
| "rat_of_val _ = 0"

fun is_string :: "jsval \<Rightarrow> bool" where
  "is_string (JStr _) = True"
| "is_string _ = False"

definition parse_human_input :: "jsval \<Rightarrow> input_error + human_input" where
  "parse_human_input v = (case v of
       JObj ps \<Rightarrow>
         if get_prop ps ''kind'' = JStr ''tap'' then
           (if \<not> keys_exactly ps [''kind'', ''x'', ''y'']
              \<or> \<not> unit_interval (get_prop ps ''x'') \<or> \<not> unit_interval (get_prop ps ''y'')
            then Inl HOSTED_INPUT_INVALID
            else Inr (Tap (rat_of_val (get_prop ps ''x'')) (rat_of_val (get_prop ps ''y''))))
         else if get_prop ps ''kind'' = JStr ''scroll'' then
           (if \<not> keys_exactly ps [''kind'', ''deltaY'']
              \<or> \<not> is_integer_num (get_prop ps ''deltaY'')
              \<or> int_of_val (get_prop ps ''deltaY'') < -2000 \<or> 2000 < int_of_val (get_prop ps ''deltaY'')
            then Inl HOSTED_INPUT_INVALID else Inr (Scroll (int_of_val (get_prop ps ''deltaY''))))
         else if get_prop ps ''kind'' = JStr ''text'' then
           (if \<not> keys_exactly ps [''kind'', ''text''] \<or> \<not> is_string (get_prop ps ''text'')
              \<or> 4096 < utf8_length (str_of_val (get_prop ps ''text''))
            then Inl HOSTED_INPUT_INVALID else Inr (Text_input (str_of_val (get_prop ps ''text''))))
         else if get_prop ps ''kind'' = JStr ''key'' then
           (if \<not> keys_exactly ps [''kind'', ''key''] \<or> \<not> is_string (get_prop ps ''key'')
              \<or> length (str_of_val (get_prop ps ''key'')) = 0
              \<or> 64 < utf8_length (str_of_val (get_prop ps ''key''))
            then Inl HOSTED_INPUT_INVALID else Inr (Key_input (str_of_val (get_prop ps ''key''))))
         else Inl HOSTED_INPUT_INVALID
     | _ \<Rightarrow> Inl HOSTED_INPUT_INVALID)"

fun input_object :: "human_input \<Rightarrow> jsval" where
  "input_object (Tap x y) = JObj [(''kind'', JStr ''tap''), (''x'', JNum (Fin x)), (''y'', JNum (Fin y))]"
| "input_object (Scroll d) = JObj [(''kind'', JStr ''scroll''), (''deltaY'', jint d)]"
| "input_object (Text_input s) = JObj [(''kind'', JStr ''text''), (''text'', JStr s)]"
| "input_object (Key_input s) = JObj [(''kind'', JStr ''key''), (''key'', JStr s)]"

fun input_valid :: "human_input \<Rightarrow> bool" where
  "input_valid (Tap x y) = (0 \<le> x \<and> x \<le> 1 \<and> 0 \<le> y \<and> y \<le> 1)"
| "input_valid (Scroll d) = (-2000 \<le> d \<and> d \<le> 2000)"
| "input_valid (Text_input s) = (utf8_length s \<le> 4096)"
| "input_valid (Key_input s) = (s \<noteq> [] \<and> utf8_length s \<le> 64)"

lemma unit_intervalD: "unit_interval v \<Longrightarrow> 0 \<le> rat_of_val v \<and> rat_of_val v \<le> 1"
  by (cases v rule: unit_interval.cases) auto

lemma parse_input_valid: "parse_human_input v = Inr i \<Longrightarrow> input_valid i"
  by (auto simp: parse_human_input_def split: jsval.splits if_splits dest: unit_intervalD)

lemma parse_input_object [simp]:
  "parse_human_input (input_object i) = (if input_valid i then Inr i else Inl HOSTED_INPUT_INVALID)"
  by (cases i) (auto simp: parse_human_input_def keys_exactly_def keys_within_iff object_keys_def)

section \<open>The control-plane input bridge\<close>

record input_envelope =
  ie_version :: int
  ie_type :: string
  ie_intervention :: string
  ie_epoch :: int
  ie_generation :: int
  ie_input :: jsval

text \<open>How the promise of \<open>peer.sendInput\<close> settles: applied, refused by the worker's gate as
  stale, or failed in any other way.\<close>

datatype input_outcome = Applied | Refused_stale | Transport_failed

record input_bridge =
  ib_binding :: route_binding
  ib_busy :: bool
  ib_closed :: bool
  ib_sent :: "(input_envelope \<times> registry \<times> jsval \<times> jsnum) list"

definition create_input_bridge :: "route_binding \<Rightarrow> input_bridge" where
  "create_input_bridge bd = \<lparr>ib_binding = bd, ib_busy = False, ib_closed = False, ib_sent = []\<rparr>"

definition dispatch_input ::
  "jsval \<Rightarrow> registry \<Rightarrow> jsval \<Rightarrow> jsnum \<Rightarrow> input_bridge \<Rightarrow> (input_error + unit) \<times> input_bridge" where
  "dispatch_input v g operator now b =
     (if ib_closed b then (Inl HOSTED_INPUT_CLOSED, b)
      else if ib_busy b then (Inl HOSTED_INPUT_BUSY, b)
      else (case parse_human_input v of
          Inl e \<Rightarrow> (Inl e, b)
        | Inr i \<Rightarrow> (case assert_binding_current (ib_binding b) operator g now of
              Inl e \<Rightarrow> (Inl (Input_operator_error e), b)
            | Inr _ \<Rightarrow>
                (let l = rb_worker (ib_binding b) in
                 (Inr (), b\<lparr>ib_busy := True, ib_sent := ib_sent b @
                    [(\<lparr>ie_version = 1, ie_type = ''human_input'', ie_intervention = rt_intervention l,
                       ie_epoch = rt_epoch l, ie_generation = rt_generation l,
                       ie_input = input_object i\<rparr>, g, operator, now)]\<rparr>)))))"

definition settle_input :: "input_outcome \<Rightarrow> input_bridge \<Rightarrow> (input_error + unit) \<times> input_bridge" where
  "settle_input r b =
     (if \<not> ib_busy b then (Inr (), b)
      else (case r of
          Applied \<Rightarrow> (Inr (), b\<lparr>ib_busy := False\<rparr>)
        | Refused_stale \<Rightarrow> (Inl HOSTED_INPUT_STALE_ROUTE, b\<lparr>ib_busy := False\<rparr>)
        | Transport_failed \<Rightarrow>
            (Inl HOSTED_INPUT_TRANSPORT_FAILURE, b\<lparr>ib_closed := True, ib_busy := False\<rparr>)))"

datatype input_call =
    Dispatch jsval registry jsval jsnum
  | Settle_input input_outcome
  | Close_input

fun input_step :: "input_bridge \<Rightarrow> input_call \<Rightarrow> input_bridge" where
  "input_step b (Dispatch v g operator now) = snd (dispatch_input v g operator now b)"
| "input_step b (Settle_input r) = snd (settle_input r b)"
| "input_step b Close_input = b\<lparr>ib_closed := True\<rparr>"

section \<open>The worker's route gate\<close>

record gate_route =
  gr_intervention :: string
  gr_epoch :: int
  gr_generation :: int

record route_gate =
  wg_generation :: "int option"
  wg_routes :: "string \<rightharpoonup> gate_route"

definition empty_gate :: route_gate where
  "empty_gate = \<lparr>wg_generation = None, wg_routes = Map.empty\<rparr>"

definition apply_control ::
  "int \<Rightarrow> control_message \<Rightarrow> route_gate \<Rightarrow> (input_error + unit) \<times> route_gate" where
  "apply_control version m s =
     (if version \<noteq> 1 then (Inl HOSTED_INPUT_STALE_ROUTE, s)
      else (case m of
        Registered g \<Rightarrow>
          if \<not> safe_int g \<or> g \<le> 0 then (Inl HOSTED_INPUT_STALE_ROUTE, s)
          else if wg_generation s \<noteq> None \<and> wg_generation s \<noteq> Some g
          then (Inl HOSTED_INPUT_STALE_ROUTE, s)
          else (Inr (), s\<lparr>wg_generation := Some g\<rparr>)
      | Bind_message i e g \<Rightarrow>
          if wg_generation s = None \<or> wg_generation s \<noteq> Some g then (Inl HOSTED_INPUT_STALE_ROUTE, s)
          else if (case wg_routes s i of None \<Rightarrow> False | Some r \<Rightarrow> e < gr_epoch r)
          then (Inl HOSTED_INPUT_STALE_ROUTE, s)
          else (Inr (), s\<lparr>wg_routes := (wg_routes s)(i \<mapsto>
                  \<lparr>gr_intervention = i, gr_epoch = e, gr_generation = g\<rparr>)\<rparr>)
      | Revoke_message i e g \<Rightarrow>
          if wg_generation s = None \<or> wg_generation s \<noteq> Some g then (Inl HOSTED_INPUT_STALE_ROUTE, s)
          else (case wg_routes s i of
              None \<Rightarrow> (Inl HOSTED_INPUT_STALE_ROUTE, s)
            | Some r \<Rightarrow>
                if gr_epoch r \<noteq> e \<or> gr_generation r \<noteq> g then (Inl HOSTED_INPUT_STALE_ROUTE, s)
                else (Inr (), s\<lparr>wg_routes := (wg_routes s)(i := None)\<rparr>))))"

text \<open>The input handed to \<open>onInput\<close>.\<close>

definition apply_human_input :: "input_envelope \<Rightarrow> route_gate \<Rightarrow> input_error + human_input" where
  "apply_human_input m s =
     (if ie_version m \<noteq> 1 \<or> ie_type m \<noteq> ''human_input'' \<or> wg_generation s = None
        \<or> Some (ie_generation m) \<noteq> wg_generation s
      then Inl HOSTED_INPUT_STALE_ROUTE
      else (case wg_routes s (ie_intervention m) of
          None \<Rightarrow> Inl HOSTED_INPUT_STALE_ROUTE
        | Some r \<Rightarrow>
            if gr_epoch r \<noteq> ie_epoch m \<or> gr_generation r \<noteq> ie_generation m
            then Inl HOSTED_INPUT_STALE_ROUTE else parse_human_input (ie_input m)))"

datatype frame_error =
    HOSTED_WORKER_FRAME_INVALID
  | HOSTED_WORKER_FRAME_STALE_ROUTE
  | Frame_operator_error operator_error
  | Frame_bridge_error bridge_error

definition default_max_frame :: jsnum where
  "default_max_frame = num_of_int 4194304"

definition frame_envelope ::
  "string \<Rightarrow> int \<Rightarrow> jsval \<Rightarrow> route_gate \<Rightarrow> frame_error + (string \<times> jsval) list" where
  "frame_envelope i e v s = (case wg_generation s of
       None \<Rightarrow> Inl HOSTED_WORKER_FRAME_STALE_ROUTE
     | Some g \<Rightarrow> (case wg_routes s i of
           None \<Rightarrow> Inl HOSTED_WORKER_FRAME_STALE_ROUTE
         | Some r \<Rightarrow>
             if gr_epoch r \<noteq> e \<or> gr_generation r \<noteq> g then Inl HOSTED_WORKER_FRAME_STALE_ROUTE
             else (case parse_frame v default_max_frame of
                 Inl err \<Rightarrow> Inl (Frame_bridge_error err)
               | Inr f \<Rightarrow> Inr [(''version'', jint 1), (''type'', JStr ''frame''), (''interventionId'', JStr i),
                   (''epoch'', jint e), (''workerGeneration'', jint g), (''frame'', frame_object f)])))"

section \<open>The frame ingress\<close>

definition accept_frame ::
  "route_binding \<Rightarrow> jsval \<Rightarrow> bridge_reading \<Rightarrow> bridge_reading \<Rightarrow> bridge_reading \<Rightarrow> bridge \<Rightarrow>
   (frame_error + unit) \<times> bridge" where
  "accept_frame bd v w x y b = (case v of
       JObj ps \<Rightarrow>
         if \<not> keys_exactly ps [''version'', ''type'', ''interventionId'', ''epoch'', ''workerGeneration'', ''frame'']
           \<or> get_prop ps ''version'' \<noteq> jint 1 \<or> get_prop ps ''type'' \<noteq> JStr ''frame''
           \<or> \<not> is_string (get_prop ps ''interventionId'') \<or> \<not> is_safe_num (get_prop ps ''epoch'')
           \<or> \<not> is_safe_num (get_prop ps ''workerGeneration'')
         then (Inl HOSTED_WORKER_FRAME_INVALID, b)
         else (case assert_binding_current bd (br_operator w) (br_registry w) (br_now w) of
             Inl e \<Rightarrow> (Inl (Frame_operator_error e), b)
           | Inr _ \<Rightarrow>
               if str_of_val (get_prop ps ''interventionId'') \<noteq> rt_intervention (rb_worker bd)
                 \<or> int_of_val (get_prop ps ''epoch'') \<noteq> rt_epoch (rb_worker bd)
                 \<or> int_of_val (get_prop ps ''workerGeneration'') \<noteq> rt_generation (rb_worker bd)
               then (Inl HOSTED_WORKER_FRAME_STALE_ROUTE, b)
               else (case parse_frame (get_prop ps ''frame'') default_max_frame of
                   Inl e \<Rightarrow> (Inl (Frame_bridge_error e), b)
                 | Inr f \<Rightarrow> (case publish (frame_object f) x y b of
                       (Inl e, b1) \<Rightarrow> (Inl (Frame_bridge_error e), b1)
                     | (Inr u, b1) \<Rightarrow> (Inr (), b1))))
     | _ \<Rightarrow> (Inl HOSTED_WORKER_FRAME_INVALID, b))"

section \<open>What the input bridge sends\<close>

definition sent_ok :: "route_binding \<Rightarrow> input_envelope \<times> registry \<times> jsval \<times> jsnum \<Rightarrow> bool" where
  "sent_ok bd x = (case x of (m, g, operator, now) \<Rightarrow>
     assert_binding_current bd operator g now = Inr ()
     \<and> (\<exists>i. input_valid i \<and> m = \<lparr>ie_version = 1, ie_type = ''human_input'',
            ie_intervention = rt_intervention (rb_worker bd), ie_epoch = rt_epoch (rb_worker bd),
            ie_generation = rt_generation (rb_worker bd), ie_input = input_object i\<rparr>))"

definition input_bridge_good :: "route_binding \<Rightarrow> input_bridge \<Rightarrow> bool" where
  "input_bridge_good bd b \<longleftrightarrow> ib_binding b = bd \<and> list_all (sent_ok bd) (ib_sent b)"

lemma input_bridge_good_step: "input_bridge_good bd b \<Longrightarrow> input_bridge_good bd (input_step b c)"
proof (cases c)
  case (Dispatch v g operator now)
  assume "input_bridge_good bd b"
  then show ?thesis
    using Dispatch
    by (auto simp: input_bridge_good_def dispatch_input_def sent_ok_def Let_def
        split: sum.split dest: parse_input_valid)
next
  case (Settle_input r)
  assume "input_bridge_good bd b"
  then show ?thesis
    using Settle_input by (cases r) (auto simp: input_bridge_good_def settle_input_def)
qed (simp add: input_bridge_good_def)

interpretation human_input_bridge: guarded_machine input_step "input_bridge_good bd" for bd
  by unfold_locales (rule input_bridge_good_step)

text \<open>While one input is in flight, or after a transport failure, nothing is sent.\<close>

lemma dispatch_blocked:
  "ib_busy b \<or> ib_closed b \<Longrightarrow> isl (fst (dispatch_input v g operator now b))
     \<and> snd (dispatch_input v g operator now b) = b"
  by (auto simp: dispatch_input_def)

definition input_closed :: "nat \<Rightarrow> input_bridge \<Rightarrow> bool" where
  "input_closed n b \<longleftrightarrow> ib_closed b \<and> length (ib_sent b) = n"

lemma input_closed_step: "input_closed n b \<Longrightarrow> input_closed n (input_step b c)"
proof (cases c)
  case (Settle_input r)
  assume "input_closed n b"
  then show ?thesis using Settle_input by (cases r) (auto simp: input_closed_def settle_input_def)
qed (auto simp: input_closed_def dispatch_input_def)

interpretation closed_input: guarded_machine input_step "input_closed n" for n
  by unfold_locales (rule input_closed_step)

section \<open>What the gate admits\<close>

definition gate_good :: "route_gate \<Rightarrow> bool" where
  "gate_good s \<longleftrightarrow> (\<forall>i r. wg_routes s i = Some r \<longrightarrow>
     gr_intervention r = i \<and> wg_generation s = Some (gr_generation r))
     \<and> (\<forall>g. wg_generation s = Some g \<longrightarrow> 0 < g \<and> safe_int g)"

fun gate_step :: "route_gate \<Rightarrow> int \<times> control_message \<Rightarrow> route_gate" where
  "gate_step s (version, m) = snd (apply_control version m s)"

lemma gate_good_empty [simp]: "gate_good empty_gate"
  by (simp add: gate_good_def empty_gate_def)

lemma gate_good_bind:
  assumes "gate_good s" and "wg_generation s = Some g"
  shows "gate_good (s\<lparr>wg_routes := (wg_routes s)(i \<mapsto>
    \<lparr>gr_intervention = i, gr_epoch = e, gr_generation = g\<rparr>)\<rparr>)"
  unfolding gate_good_def
proof (intro conjI allI impI)
  fix j r
  assume "wg_routes (s\<lparr>wg_routes := (wg_routes s)(i \<mapsto>
    \<lparr>gr_intervention = i, gr_epoch = e, gr_generation = g\<rparr>)\<rparr>) j = Some r"
  with assms show "gr_intervention r = j" and "wg_generation (s\<lparr>wg_routes := (wg_routes s)(i \<mapsto>
      \<lparr>gr_intervention = i, gr_epoch = e, gr_generation = g\<rparr>)\<rparr>) = Some (gr_generation r)"
    by (auto simp: gate_good_def split: if_splits)
qed (use assms in \<open>simp_all add: gate_good_def\<close>)

lemma gate_good_delete: "gate_good s \<Longrightarrow> gate_good (s\<lparr>wg_routes := (wg_routes s)(i := None)\<rparr>)"
  by (simp add: gate_good_def)

lemma gate_good_step [wf_intros]: "gate_good s \<Longrightarrow> gate_good (gate_step s c)"
proof (cases c)
  case (Pair version m)
  assume good: "gate_good s"
  show ?thesis
  proof (cases m)
    case (Registered g)
    with good Pair show ?thesis by (auto simp: apply_control_def gate_good_def)
  next
    case (Bind_message i e g)
    with good Pair show ?thesis
      by (simp add: apply_control_def gate_good_bind split: option.split)
  next
    case (Revoke_message i e g)
    with good Pair show ?thesis by (simp add: apply_control_def gate_good_delete split: option.split)
  qed
qed

text \<open>The generation of a channel is set once.\<close>

definition gate_at :: "int \<Rightarrow> route_gate \<Rightarrow> bool" where
  "gate_at g s \<longleftrightarrow> gate_good s \<and> wg_generation s = Some g"

lemma gate_at_step: "gate_at g s \<Longrightarrow> gate_at g (gate_step s c)"
  using gate_good_step [of s c]
  by (cases c; cases "snd c") (auto simp: gate_at_def apply_control_def split: option.split)

interpretation gate: guarded_machine gate_step gate_good
  by unfold_locales (rule gate_good_step)

interpretation gate_generation: guarded_machine gate_step "gate_at g" for g
  by unfold_locales (rule gate_at_step)

lemma apply_human_input_iff:
  "apply_human_input m s = Inr i \<longleftrightarrow> ie_version m = 1 \<and> ie_type m = ''human_input''
     \<and> wg_generation s = Some (ie_generation m)
     \<and> (\<exists>r. wg_routes s (ie_intervention m) = Some r \<and> gr_epoch r = ie_epoch m
          \<and> gr_generation r = ie_generation m)
     \<and> parse_human_input (ie_input m) = Inr i"
  by (auto simp: apply_human_input_def split: option.splits if_splits)

text \<open>After a revocation, only another bind of the intervention admits its input again.\<close>

definition gate_without :: "string \<Rightarrow> route_gate \<Rightarrow> bool" where
  "gate_without i s \<longleftrightarrow> wg_routes s i = None"

definition binds_route :: "string \<Rightarrow> control_message \<Rightarrow> bool" where
  "binds_route i m \<longleftrightarrow> (case m of Bind_message j e g \<Rightarrow> j = i | _ \<Rightarrow> False)"

lemma gate_without_run:
  "gate_without i s \<Longrightarrow> list_all (\<lambda>(version, m). \<not> binds_route i m) ms \<Longrightarrow>
     gate_without i (run gate_step s ms)"
proof (induction ms arbitrary: s)
  case (Cons c ms)
  obtain version m where c: "c = (version, m)" by (cases c)
  have "gate_without i (gate_step s c)"
    using Cons.prems c
    by (cases m) (auto simp: gate_without_def apply_control_def binds_route_def split: option.split)
  with Cons show ?case by simp
qed simp

lemma revoke_empties:
  "fst (apply_control 1 (Revoke_message i e g) s) = Inr () \<Longrightarrow>
     gate_without i (snd (apply_control 1 (Revoke_message i e g) s))"
  by (auto simp: apply_control_def gate_without_def split: if_splits option.splits)

section \<open>End to end\<close>

text \<open>An input the bridge dispatched is applied unchanged by a gate that holds the binding's route,
  and refused by any other.\<close>

definition gate_holds :: "route_gate \<Rightarrow> route_lease \<Rightarrow> bool" where
  "gate_holds s l \<longleftrightarrow> wg_generation s = Some (rt_generation l)
     \<and> wg_routes s (rt_intervention l) = Some \<lparr>gr_intervention = rt_intervention l,
         gr_epoch = rt_epoch l, gr_generation = rt_generation l\<rparr>"

lemma gate_holds_iff:
  assumes "gate_good s"
  shows "gate_holds s l \<longleftrightarrow> wg_generation s = Some (rt_generation l)
     \<and> (\<exists>r. wg_routes s (rt_intervention l) = Some r \<and> gr_epoch r = rt_epoch l
         \<and> gr_generation r = rt_generation l)"
proof
  assume "gate_holds s l"
  then show "wg_generation s = Some (rt_generation l)
     \<and> (\<exists>r. wg_routes s (rt_intervention l) = Some r \<and> gr_epoch r = rt_epoch l
         \<and> gr_generation r = rt_generation l)" by (auto simp: gate_holds_def)
next
  assume asm: "wg_generation s = Some (rt_generation l)
     \<and> (\<exists>r. wg_routes s (rt_intervention l) = Some r \<and> gr_epoch r = rt_epoch l
         \<and> gr_generation r = rt_generation l)"
  then obtain r where r: "wg_routes s (rt_intervention l) = Some r" "gr_epoch r = rt_epoch l"
      "gr_generation r = rt_generation l" by blast
  with assms have "gr_intervention r = rt_intervention l" by (auto simp: gate_good_def)
  with r have "r = \<lparr>gr_intervention = rt_intervention l, gr_epoch = rt_epoch l,
      gr_generation = rt_generation l\<rparr>" by simp
  with asm r(1) show "gate_holds s l" by (simp add: gate_holds_def)
qed

lemma dispatched_input_applied:
  assumes "gate_good s" and "sent_ok bd (m, g, operator, now)"
  obtains i where "input_valid i" "ie_input m = input_object i"
    "apply_human_input m s = (if gate_holds s (rb_worker bd) then Inr i else Inl HOSTED_INPUT_STALE_ROUTE)"
proof -
  obtain i where i: "input_valid i" and m: "m = \<lparr>ie_version = 1, ie_type = ''human_input'',
      ie_intervention = rt_intervention (rb_worker bd), ie_epoch = rt_epoch (rb_worker bd),
      ie_generation = rt_generation (rb_worker bd), ie_input = input_object i\<rparr>"
    using assms(2) by (auto simp: sent_ok_def)
  show thesis
    by (rule that [OF i]) (use i in \<open>auto simp: m gate_holds_iff [OF assms(1)] apply_human_input_def
        split: option.split\<close>)
qed

text \<open>The ingress forwards only frames of exactly the binding's route; the gate's own envelopes
  pass it.\<close>

lemma accept_frame_ok:
  assumes "fst (accept_frame bd v w x y b) = Inr ()"
  obtains ps f where "v = JObj ps"
    "get_prop ps ''interventionId'' = JStr (rt_intervention (rb_worker bd))"
    "get_prop ps ''epoch'' = jint (rt_epoch (rb_worker bd))"
    "get_prop ps ''workerGeneration'' = jint (rt_generation (rb_worker bd))"
    "assert_binding_current bd (br_operator w) (br_registry w) (br_now w) = Inr ()"
    "parse_frame (get_prop ps ''frame'') default_max_frame = Inr f"
    "publish (frame_object f) x y b = (Inr (), snd (accept_frame bd v w x y b))"
proof -
  obtain ps where v: "v = JObj ps"
    using assms by (cases v) (simp_all add: accept_frame_def)
  have fields: "is_string (get_prop ps ''interventionId'')" "is_safe_num (get_prop ps ''epoch'')"
      "is_safe_num (get_prop ps ''workerGeneration'')"
      "str_of_val (get_prop ps ''interventionId'') = rt_intervention (rb_worker bd)"
      "int_of_val (get_prop ps ''epoch'') = rt_epoch (rb_worker bd)"
      "int_of_val (get_prop ps ''workerGeneration'') = rt_generation (rb_worker bd)"
      "assert_binding_current bd (br_operator w) (br_registry w) (br_now w) = Inr ()"
    using assms by (auto simp: accept_frame_def v split: if_splits sum.splits)
  have "get_prop ps ''interventionId'' = JStr (rt_intervention (rb_worker bd))"
    using fields(1,4) by (cases "get_prop ps ''interventionId''") auto
  moreover obtain f where f: "parse_frame (get_prop ps ''frame'') default_max_frame = Inr f"
    using assms by (auto simp: accept_frame_def v split: if_splits sum.splits)
  moreover have "publish (frame_object f) x y b = (Inr (), snd (accept_frame bd v w x y b))"
    using assms f by (auto simp: accept_frame_def v split: if_splits sum.splits prod.splits)
  ultimately show thesis
    using that [OF v _ _ _ fields(7) f] is_safe_numD [OF fields(2)] is_safe_numD [OF fields(3)] fields
    by simp
qed

section \<open>Properties\<close>

definition sample_gate :: route_gate where
  "sample_gate = run gate_step empty_gate [(1, Registered 1), (1, Bind_message ''i1'' 2 1)]"

lemma sample_gate_value:
  "sample_gate = \<lparr>wg_generation = Some 1, wg_routes = [''i1'' \<mapsto>
     \<lparr>gr_intervention = ''i1'', gr_epoch = 2, gr_generation = 1\<rparr>]\<rparr>"
  by (simp add: sample_gate_def empty_gate_def apply_control_def)

text \<open>C22. Human input reaches the bound route and no other. An input that \<open>dispatch\<close> sends was valid and was sent
  under a binding that passed its full revalidation at that moment; the message it becomes is applied unchanged by a
  worker's gate, in any state it may have reached, exactly when that gate holds the binding's intervention, epoch
  and worker generation, and is refused as stale by every other gate.\<close>

theorem input_reaches_bound_route_only:
  assumes "b = run input_step (create_input_bridge bd) cs" and "s = run gate_step empty_gate ms"
    and "dispatch_input v g operator now b = (Inr (), b')"
  shows "\<exists>m i. ib_sent b' = ib_sent b @ [(m, g, operator, now)] \<and> parse_human_input v = Inr i
    \<and> assert_binding_current bd operator g now = Inr ()
    \<and> apply_human_input m s =
        (if gate_holds s (rb_worker bd) then Inr i else Inl HOSTED_INPUT_STALE_ROUTE)"
proof -
  have bd: "ib_binding b = bd"
    using human_input_bridge.good_run [of bd "create_input_bridge bd" cs] assms(1)
    by (simp add: input_bridge_good_def create_input_bridge_def)
  have good: "gate_good s" using gate.good_run [OF gate_good_empty] assms(2) by simp
  obtain i where i: "parse_human_input v = Inr i" and current: "assert_binding_current bd operator g now = Inr ()"
    using assms(3) by (auto simp: dispatch_input_def bd split: if_splits sum.splits)
  let ?l = "rb_worker bd"
  let ?m = "\<lparr>ie_version = 1, ie_type = ''human_input'', ie_intervention = rt_intervention ?l,
     ie_epoch = rt_epoch ?l, ie_generation = rt_generation ?l, ie_input = input_object i\<rparr>"
  have "ib_sent b' = ib_sent b @ [(?m, g, operator, now)]"
    using assms(3) i by (auto simp: dispatch_input_def bd Let_def split: if_splits sum.splits)
  moreover have "apply_human_input ?m s = (if gate_holds s ?l then Inr i else Inl HOSTED_INPUT_STALE_ROUTE)"
    using parse_input_valid [OF i]
    by (auto simp: gate_holds_iff [OF good] apply_human_input_def split: option.split)
  ultimately show ?thesis using i current by blast
qed

theorem input_reaches_bound_route_only_witness:
  "\<exists>m. apply_human_input m sample_gate = Inr (Scroll 3)
     \<and> apply_human_input m empty_gate = Inl HOSTED_INPUT_STALE_ROUTE"
proof -
  let ?v = "input_object (Scroll 3)"
  have v: "parse_human_input ?v = Inr (Scroll 3)" by (simp del: input_object.simps)
  obtain b' where b': "dispatch_input ?v sample_registry (session_object sample_session) (Fin 10)
      (create_input_bridge sample_binding) = (Inr (), b')"
    using v sample_binding_current by (simp add: dispatch_input_def create_input_bridge_def Let_def del: input_object.simps)
  have held: "gate_holds sample_gate (rb_worker sample_binding)" "\<not> gate_holds empty_gate (rb_worker sample_binding)"
    by (simp_all add: gate_holds_def sample_gate_value empty_gate_def sample_binding_def sample_lease_fields)
  from input_reaches_bound_route_only [OF _ sample_gate_def b', of sample_binding "[]"]
    input_reaches_bound_route_only [OF _ _ b', of sample_binding "[]" empty_gate "[]"]
  show ?thesis using v held by (auto simp del: input_object.simps)
qed

text \<open>A revoked route is out at the worker. After a gate accepted a revocation, it refuses every input for the
  intervention and makes no frame message for it, through any further messages, until one binds the intervention
  again.\<close>

theorem revoked_gate_refuses:
  assumes "s = run gate_step empty_gate ms0"
    and "apply_control 1 (Revoke_message i e g) s = (Inr (), s')"
    and "list_all (\<lambda>(version, m). \<not> binds_route i m) ms"
    and "ie_intervention m = i"
  shows "apply_human_input m (run gate_step s' ms) = Inl HOSTED_INPUT_STALE_ROUTE
    \<and> frame_envelope i e' v (run gate_step s' ms) = Inl HOSTED_WORKER_FRAME_STALE_ROUTE
    \<and> wg_generation (run gate_step s' ms) = Some g"
proof -
  have "gate_without i s'" using revoke_empties [of i e g s] assms(2) by simp
  then have out: "gate_without i (run gate_step s' ms)" using assms(3) by (rule gate_without_run)
  have "gate_good s'"
    using gate_good_step [OF gate.good_run [OF gate_good_empty, of ms0], of "(1, Revoke_message i e g)"] assms(1,2)
    by simp
  moreover have "wg_generation s' = Some g"
    using assms(2) by (auto simp: apply_control_def split: if_splits option.splits)
  ultimately have "gate_at g (run gate_step s' ms)"
    by (intro gate_generation.good_run) (simp add: gate_at_def)
  with out assms(4) show ?thesis
    by (auto simp: gate_without_def gate_at_def apply_human_input_def frame_envelope_def)
qed

theorem revoked_gate_refuses_witness:
  "apply_human_input \<lparr>ie_version = 1, ie_type = ''human_input'', ie_intervention = ''i1'', ie_epoch = 2,
      ie_generation = 1, ie_input = input_object (Scroll 3)\<rparr>
     (run gate_step (snd (apply_control 1 (Revoke_message ''i1'' 2 1) sample_gate)) [(1, Bind_message ''i2'' 3 1)])
     = Inl HOSTED_INPUT_STALE_ROUTE"
proof -
  have "apply_control 1 (Revoke_message ''i1'' 2 1) sample_gate
      = (Inr (), snd (apply_control 1 (Revoke_message ''i1'' 2 1) sample_gate))"
    by (simp add: apply_control_def sample_gate_value)
  from revoked_gate_refuses [OF sample_gate_def this, of "[(1, Bind_message ''i2'' 3 1)]"]
  show ?thesis by (simp add: binds_route_def del: gate_step.simps)
qed

text \<open>A worker's frame reaches the bridge of its own route and no other. For a frame message that a gate made,
  the ingress first revalidates its binding; then, exactly if the message names the binding's intervention, epoch
  and worker generation, it publishes the very frame the worker gave, and it drops the message as stale
  otherwise, without a change of the bridge.\<close>

theorem frame_reaches_bound_bridge_only:
  assumes "s = run gate_step empty_gate ms" and "frame_envelope i e v s = Inr ps" and "safe_int e"
  shows "\<exists>f. parse_frame v default_max_frame = Inr f \<and> accept_frame bd (JObj ps) w x y b =
    (case assert_binding_current bd (br_operator w) (br_registry w) (br_now w) of
       Inl err \<Rightarrow> (Inl (Frame_operator_error err), b)
     | Inr _ \<Rightarrow>
         if i = rt_intervention (rb_worker bd) \<and> e = rt_epoch (rb_worker bd)
           \<and> wg_generation s = Some (rt_generation (rb_worker bd))
         then (case publish (frame_object f) x y b of
             (Inl err, b1) \<Rightarrow> (Inl (Frame_bridge_error err), b1) | (Inr _, b1) \<Rightarrow> (Inr (), b1))
         else (Inl HOSTED_WORKER_FRAME_STALE_ROUTE, b))"
proof -
  have good: "gate_good s" using gate.good_run [OF gate_good_empty] assms(1) by simp
  obtain g f where g: "wg_generation s = Some g" and f: "parse_frame v default_max_frame = Inr f"
    and ps: "ps = [(''version'', jint 1), (''type'', JStr ''frame''), (''interventionId'', JStr i),
      (''epoch'', jint e), (''workerGeneration'', jint g), (''frame'', frame_object f)]"
    using assms(2) by (auto simp: frame_envelope_def split: option.splits if_splits sum.splits)
  have keys: "keys_exactly ps [''version'', ''type'', ''interventionId'', ''epoch'', ''workerGeneration'', ''frame'']"
    by (simp add: ps keys_exactly_def keys_within_iff object_keys_def)
  have "safe_int g" using good g by (simp add: gate_good_def)
  moreover have "parse_frame (frame_object f) default_max_frame = Inr f"
    using parse_frame_valid [OF f] parse_frame_object [of 4194304 f] by (simp add: default_max_frame_def)
  ultimately show ?thesis
    using f keys assms(3) g
    by (auto simp: accept_frame_def ps split: sum.split)
qed

theorem frame_reaches_bound_bridge_only_witness:
  "\<exists>ps. frame_envelope ''i1'' 2 (frame_object (sample_frame 7)) sample_gate = Inr ps
     \<and> fst (accept_frame sample_binding (JObj ps) (sample_reading 0) (sample_reading 0) (sample_reading 0)
         sample_bridge) = Inr ()"
proof -
  have frame: "parse_frame (frame_object (sample_frame 7)) default_max_frame = Inr (sample_frame 7)"
    by (simp add: default_max_frame_def)
  then obtain ps where ps: "frame_envelope ''i1'' 2 (frame_object (sample_frame 7)) sample_gate = Inr ps"
    by (simp add: frame_envelope_def sample_gate_value)
  have "fst (publish (frame_object (sample_frame 7)) (sample_reading 0) (sample_reading 0) sample_bridge) = Inr ()"
    by (simp add: publish_def send_loop_def loop_turn_def sample_bridge_def)
  moreover have "assert_binding_current sample_binding (br_operator (sample_reading 0))
      (br_registry (sample_reading 0)) (br_now (sample_reading 0)) = Inr ()"
    using sample_binding_current by (simp add: sample_reading_def)
  moreover have "rt_intervention (rb_worker sample_binding) = ''i1''" "rt_epoch (rb_worker sample_binding) = 2"
      "wg_generation sample_gate = Some (rt_generation (rb_worker sample_binding))"
    by (simp_all add: sample_binding_def sample_lease_fields sample_gate_value)
  ultimately show ?thesis
    using frame_reaches_bound_bridge_only [OF sample_gate_def ps, of sample_binding "sample_reading 0"
        "sample_reading 0" "sample_reading 0" sample_bridge] frame ps
    by (auto simp: case_prod_beta split: sum.split)
qed

end
