(* ===== verification/Lifecycle_Route.thy ===== *)
theory Lifecycle_Route
  imports Lifecycle Operator_Binding Worker_Channel
begin

text \<open>
  \<open>src/core/hosted-lifecycle-route.ts\<close>: \<open>HostedInterventionRouteLifecycle\<close>, which revokes the
  worker route before Done, Cancel or the expiry of the operator session moves the lifecycle. The
  state is the lifecycle and the channel; other calls of the lifecycle may run while the revocation
  is awaited.
\<close>

section \<open>Operations\<close>

datatype route_error =
    HOSTED_LIFECYCLE_ROUTE_MISMATCH
  | HOSTED_LIFECYCLE_NOT_HUMAN_ACTIVE
  | HOSTED_OPERATOR_SESSION_NOT_EXPIRED
  | Route_channel_error channel_error
  | Route_handoff_error handoff_error

record ('act, 'rsn) route_state =
  rs_handoff :: "('act, 'rsn) handoff_state"
  rs_channel :: channel

definition require_human_active ::
  "route_binding \<Rightarrow> ('act, 'rsn) handoff_state \<Rightarrow> route_error + ('act, 'rsn) intervention" where
  "require_human_active bd h = (case hs_active h of
       None \<Rightarrow> Inl HOSTED_LIFECYCLE_ROUTE_MISMATCH
     | Some a \<Rightarrow>
         if iv_id a \<noteq> rt_intervention (rb_worker bd) \<or> iv_epoch a \<noteq> rt_epoch (rb_worker bd)
           \<or> os_intervention (rb_operator bd) \<noteq> iv_id a \<or> os_epoch (rb_operator bd) \<noteq> iv_epoch a
           \<or> os_principal (rb_operator bd) \<noteq> rt_principal (rb_worker bd)
         then Inl HOSTED_LIFECYCLE_ROUTE_MISMATCH
         else if iv_status a \<noteq> Human_active then Inl HOSTED_LIFECYCLE_NOT_HUMAN_ACTIVE
         else Inr a)"

text \<open>The environment of the awaited revocation, and the lifecycle calls made meanwhile.\<close>

definition revoked_first ::
  "channel_env \<Rightarrow> ('act, 'rsn) lc_call list \<Rightarrow> route_binding \<Rightarrow> ('act, 'rsn) route_state \<Rightarrow>
   (route_error + unit) \<times> ('act, 'rsn) route_state" where
  "revoked_first env calls bd s =
     (let (r, c) = revoke_channel env (rb_worker bd) (rs_channel s);
          s1 = \<lparr>rs_handoff = run lc_step (rs_handoff s) calls, rs_channel = c\<rparr>
      in (case r of Inl e \<Rightarrow> (Inl (Route_channel_error e), s1) | Inr _ \<Rightarrow> (Inr (), s1)))"

definition mark_human_done ::
  "channel_env \<Rightarrow> ('act, 'rsn) lc_call list \<Rightarrow> int \<Rightarrow> route_binding \<Rightarrow> ('act, 'rsn) route_state \<Rightarrow>
   (route_error + ('act, 'rsn) intervention) \<times> ('act, 'rsn) route_state" where
  "mark_human_done env calls t bd s = (case require_human_active bd (rs_handoff s) of
       Inl e \<Rightarrow> (Inl e, s)
     | Inr a \<Rightarrow> (case revoked_first env calls bd s of
         (Inl e, s1) \<Rightarrow> (Inl e, s1)
       | (Inr _, s1) \<Rightarrow>
           (let (r, h) = mark_human_complete (iv_id a) t (rs_handoff s1) in
            (case r of Inl e \<Rightarrow> Inl (Route_handoff_error e) | Inr b \<Rightarrow> Inr b, s1\<lparr>rs_handoff := h\<rparr>))))"

definition cancel_human ::
  "channel_env \<Rightarrow> ('act, 'rsn) lc_call list \<Rightarrow> route_binding \<Rightarrow> ('act, 'rsn) route_state \<Rightarrow>
   (route_error + unit) \<times> ('act, 'rsn) route_state" where
  "cancel_human env calls bd s = (case require_human_active bd (rs_handoff s) of
       Inl e \<Rightarrow> (Inl e, s)
     | Inr a \<Rightarrow> (case revoked_first env calls bd s of
         (Inl e, s1) \<Rightarrow> (Inl e, s1)
       | (Inr _, s1) \<Rightarrow>
           (let (r, h) = cancel_intervention (iv_id a) (rs_handoff s1) in
            (case r of Inl e \<Rightarrow> Inl (Route_handoff_error e) | Inr u \<Rightarrow> Inr (), s1\<lparr>rs_handoff := h\<rparr>))))"

definition expire_operator_session ::
  "channel_env \<Rightarrow> ('act, 'rsn) lc_call list \<Rightarrow> jsnum \<Rightarrow> int \<Rightarrow> route_binding \<Rightarrow> ('act, 'rsn) route_state \<Rightarrow>
   (route_error + ('act, 'rsn) intervention) \<times> ('act, 'rsn) route_state" where
  "expire_operator_session env calls now t bd s = (case require_human_active bd (rs_handoff s) of
       Inl e \<Rightarrow> (Inl e, s)
     | Inr a \<Rightarrow>
         if \<not> num_safe_integer now \<or> num_lt now (num_of_int (os_expires (rb_operator bd)))
         then (Inl HOSTED_OPERATOR_SESSION_NOT_EXPIRED, s)
         else (case revoked_first env calls bd s of
           (Inl e, s1) \<Rightarrow> (Inl e, s1)
         | (Inr _, s1) \<Rightarrow>
             (let (r, h) = mark_human_complete (iv_id a) t (rs_handoff s1) in
              (case r of Inl e \<Rightarrow> Inl (Route_handoff_error e) | Inr b \<Rightarrow> Inr b, s1\<lparr>rs_handoff := h\<rparr>))))"

section \<open>The revocation comes first\<close>

text \<open>The worker route is out before the lifecycle moves: the only way the lifecycle changes is
  through calls made by others, or after a revocation that returned.\<close>

definition route_out :: "route_binding \<Rightarrow> channel \<Rightarrow> bool" where
  "route_out bd c \<longleftrightarrow> inactive_route (rt_intervention (rb_worker bd)) (cc_registry c)"

definition quiet :: "channel_env \<Rightarrow> route_binding \<Rightarrow> bool" where
  "quiet env bd \<longleftrightarrow> (\<forall>k. list_all (keeps_revoked (rt_intervention (rb_worker bd))) (ce_meanwhile env k))"

lemma revoke_returns_current:
  "fst (revoke_channel env l c) = Inr () \<Longrightarrow> channel_assert_current l c = Inr ()"
  by (auto simp: revoke_channel_def channel_assert_current_def split: sum.splits if_splits)

lemma revoked_first_ok:
  assumes "channel_good (rs_channel s)" and "quiet env bd" and "fst (revoked_first env calls bd s) = Inr ()"
  shows "route_out bd (rs_channel (snd (revoked_first env calls bd s)))
    \<and> rs_handoff (snd (revoked_first env calls bd s)) = run lc_step (rs_handoff s) calls"
proof -
  obtain r c where rc: "revoke_channel env (rb_worker bd) (rs_channel s) = (r, c)" by fastforce
  with assms(3) have "r = Inr ()" by (auto simp: revoked_first_def Let_def split: sum.splits)
  with rc revoke_returns_current [of env "rb_worker bd" "rs_channel s"]
  have "channel_assert_current (rb_worker bd) (rs_channel s) = Inr ()" by simp
  from revoke_channel_revoked [OF assms(1) this, of env] assms(2) rc
  have "inactive_route (rt_intervention (rb_worker bd)) (cc_registry c)"
    by (auto simp: quiet_def revoked_since_def)
  with rc \<open>r = Inr ()\<close> show ?thesis by (simp add: revoked_first_def route_out_def)
qed

lemma revoked_first_handoff:
  "rs_handoff (snd (revoked_first env calls bd s)) = run lc_step (rs_handoff s) calls"
  by (simp add: revoked_first_def case_prod_beta Let_def split: sum.split)

lemma require_human_activeD:
  "require_human_active bd h = Inr a \<Longrightarrow> hs_active h = Some a \<and> iv_status a = Human_active
     \<and> iv_id a = rt_intervention (rb_worker bd) \<and> iv_epoch a = rt_epoch (rb_worker bd)"
  by (auto simp: require_human_active_def split: option.splits if_splits)

text \<open>A result of Done: verifying, without authority, and the route out. A failure: nothing of the
  lifecycle moved but by the calls of others.\<close>

lemma mark_human_done_cases:
  assumes good: "channel_good (rs_channel s)" and quiet: "quiet env bd"
  shows "(\<exists>e. fst (mark_human_done env calls t bd s) = Inl e
      \<and> rs_handoff (snd (mark_human_done env calls t bd s)) \<in> {rs_handoff s, run lc_step (rs_handoff s) calls})
    \<or> (\<exists>b. fst (mark_human_done env calls t bd s) = Inr b
      \<and> hs_active (rs_handoff (snd (mark_human_done env calls t bd s))) = Some b
      \<and> iv_status b = Verifying \<and> iv_authority b = None_authority
      \<and> route_out bd (rs_channel (snd (mark_human_done env calls t bd s))))"
proof (cases "require_human_active bd (rs_handoff s)")
  case (Inl e)
  then show ?thesis by (simp add: mark_human_done_def)
next
  case (Inr a)
  obtain r s1 where rev: "revoked_first env calls bd s = (r, s1)" by fastforce
  show ?thesis
  proof (cases r)
    case Inl
    with Inr rev revoked_first_handoff [of env calls bd s] show ?thesis by (simp add: mark_human_done_def)
  next
    case r: (Inr u)
    with revoked_first_ok [OF good quiet, of calls] rev
    have out: "route_out bd (rs_channel s1)" and h: "rs_handoff s1 = run lc_step (rs_handoff s) calls"
      by simp_all
    show ?thesis
      using Inr rev r out h
      by (auto simp: mark_human_done_def mark_human_complete_def advance_epoch_def Let_def
          split: sum.split)
  qed
qed

lemma cancel_human_cases:
  assumes good: "channel_good (rs_channel s)" and quiet: "quiet env bd"
  shows "(\<exists>e. fst (cancel_human env calls bd s) = Inl e
      \<and> rs_handoff (snd (cancel_human env calls bd s)) \<in> {rs_handoff s, run lc_step (rs_handoff s) calls})
    \<or> (fst (cancel_human env calls bd s) = Inr ()
      \<and> get_authority (rs_handoff (snd (cancel_human env calls bd s))) = Agent
      \<and> route_out bd (rs_channel (snd (cancel_human env calls bd s))))"
proof (cases "require_human_active bd (rs_handoff s)")
  case (Inl e)
  then show ?thesis by (simp add: cancel_human_def)
next
  case (Inr a)
  obtain r s1 where rev: "revoked_first env calls bd s = (r, s1)" by fastforce
  show ?thesis
  proof (cases r)
    case Inl
    with Inr rev revoked_first_handoff [of env calls bd s] show ?thesis by (simp add: cancel_human_def)
  next
    case r: (Inr u)
    with revoked_first_ok [OF good quiet, of calls] rev
    have out: "route_out bd (rs_channel s1)" and h: "rs_handoff s1 = run lc_step (rs_handoff s) calls"
      by simp_all
    show ?thesis
      using Inr rev r out h
      by (auto simp: cancel_human_def cancel_intervention_def advance_epoch_def get_authority_def Let_def
          split: sum.split)
  qed
qed

lemma expire_is_done:
  "fst (expire_operator_session env calls now t bd s) = Inr b \<Longrightarrow>
     num_safe_integer now \<and> os_expires (rb_operator bd) \<le> num_to_int now
     \<and> expire_operator_session env calls now t bd s = mark_human_done env calls t bd s"
  by (cases now) (auto simp: expire_operator_session_def mark_human_done_def num_safe_integer_def le_floor_iff
      not_less split: sum.splits if_splits)

section \<open>Properties\<close>

text \<open>Done and Cancel take the worker's route out before the lifecycle moves. When Done returns an
  intervention, it is verifying with nobody in authority, and the registry refuses the bound route; when Cancel
  returns, the agent has authority and the registry refuses the bound route. When either throws, the lifecycle has
  changed only by what other callers did while the revocation was awaited, so authority is never moved past a
  route that could not be revoked.\<close>

theorem done_and_cancel_revoke_first:
  assumes "open_channel env0 now v (run registry_step empty_registry cs) = Opened c0"
    and "rs_channel s = run channel_step c0 xs" and "quiet env bd"
  shows "(case mark_human_done env calls t bd s of
      (Inr b, s') \<Rightarrow> hs_active (rs_handoff s') = Some b \<and> iv_status b = Verifying
        \<and> get_authority (rs_handoff s') = None_authority
        \<and> assert_current (route_object (rb_worker bd)) (cc_registry (rs_channel s')) \<noteq> Inr ()
    | (Inl _, s') \<Rightarrow> rs_handoff s' \<in> {rs_handoff s, run lc_step (rs_handoff s) calls})
   \<and> (case cancel_human env calls bd s of
      (Inr _, s') \<Rightarrow> get_authority (rs_handoff s') = Agent
        \<and> assert_current (route_object (rb_worker bd)) (cc_registry (rs_channel s')) \<noteq> Inr ()
    | (Inl _, s') \<Rightarrow> rs_handoff s' \<in> {rs_handoff s, run lc_step (rs_handoff s) calls})"
proof -
  have good: "channel_good (rs_channel s)"
    using open_channel_good(1) [OF worker_fence.good_run [OF registry_good_empty] assms(1)] assms(2)
    by (auto intro: channel.good_run)
  have out: "route_out bd c \<Longrightarrow> assert_current (route_object (rb_worker bd)) (cc_registry c) \<noteq> Inr ()" for c
    by (simp add: route_out_def inactive_not_current)
  obtain r s1 where d: "mark_human_done env calls t bd s = (r, s1)" by fastforce
  obtain r' s2 where c: "cancel_human env calls bd s = (r', s2)" by fastforce
  from mark_human_done_cases [OF good assms(3), of calls t] cancel_human_cases [OF good assms(3), of calls]
  show ?thesis by (auto simp: d c get_authority_def dest!: out)
qed

text \<open>A lifecycle in which the human holds the bound intervention.\<close>

definition sample_human :: "(string, string) route_state" where
  "sample_human = \<lparr>rs_handoff = \<lparr>hs_epoch = 2, hs_active = Some \<lparr>iv_id = ''i1'', iv_reason = ''captcha'',
       iv_status = Human_active, iv_authority = Human, iv_epoch = 2, iv_action = None,
       iv_policy = Revalidate, iv_created = 1, iv_updated = 1\<rparr>\<rparr>, rs_channel = sample_bound_channel\<rparr>"

lemma sample_revokes:
  "fst (revoke_channel (quiet_env True) sample_lease sample_bound_channel) = Inr ()"
proof -
  have "channel_assert_current sample_lease sample_bound_channel = Inr ()"
    using sample_lease_current
    by (simp add: channel_assert_current_def sample_bound_channel_value sample_lease_fields)
      (simp add: sample_worker_def)
  moreover have "fst (release_intervention (route_object sample_lease) sample_registry) = Inr ()"
    by (simp add: release_intervention_def sample_registry_value sample_lease_fields)
  moreover have "cc_registry sample_bound_channel = sample_registry" "\<not> cc_closed sample_bound_channel"
    by (simp_all add: sample_bound_channel_value)
  ultimately show ?thesis
    by (simp add: revoke_channel_def notify_invalidated_def revoke_verdict_def case_prod_beta split: sum.split)
qed

theorem done_and_cancel_revoke_first_witness:
  "assert_current (route_object sample_lease) (cc_registry (rs_channel
     (snd (mark_human_done (quiet_env True) [] 9 sample_binding sample_human)))) \<noteq> Inr ()"
proof -
  have quiet: "quiet (quiet_env True) sample_binding" by (simp add: quiet_def quiet_env_def)
  have finished: "is_ok (fst (mark_human_done (quiet_env True) [] 9 sample_binding sample_human))"
    using sample_revokes
    by (simp add: mark_human_done_def require_human_active_def revoked_first_def Let_def case_prod_beta
        sample_binding_def sample_human_def sample_lease_fields mark_human_complete_def require_active_def
        split: sum.split) (simp add: sample_session_def)
  have "rs_channel sample_human = run channel_step sample_channel
      [Bind_call (quiet_env True) sample_request_props]"
    by (simp add: sample_human_def sample_bound_channel_def)
  note holds = done_and_cancel_revoke_first [OF sample_opened_channel this quiet, of "[]" 9]
  have "rb_worker sample_binding = sample_lease" by (simp add: sample_binding_def)
  with holds finished show ?thesis by (simp add: case_prod_beta split: sum.splits)
qed

end
