(* ===== verification/Human_Surface.thy ===== *)
theory Human_Surface
  imports Lifecycle
begin

text \<open>
  \<open>src/core/human-surface.ts\<close>: \<open>CredentialSafeHumanSurfaceRuntime\<close>, which owns at most one
  external Human surface and keeps automation authority busy until the provider has confirmed its
  revocation. The runtime is a step relation: a call runs up to its first \<open>await\<close>, and the two
  provider promises settle in steps of their own. A caller that waits for a promise of another call
  keeps nothing but its arguments, so that its continuation is one more call.
\<close>

section \<open>State\<close>

datatype surface_error =
    EXTERNAL_SURFACE_STATE_CHANGED
  | EXTERNAL_SURFACE_ACTIVE
  | EXTERNAL_SURFACE_EXPIRED
  | EXTERNAL_SURFACE_PROVIDER_INVALID
  | EXTERNAL_SURFACE_REVOKE_FAILED

datatype interaction_policy = Automation_adjacent | Credential_safe_external

definition select_interaction_policy :: "'rsn \<Rightarrow> 'rsn list \<Rightarrow> interaction_policy" where
  "select_interaction_policy r credential_safe =
     (if r \<in> set credential_safe then Credential_safe_external else Automation_adjacent)"

record intervention_ref =
  si_id :: string
  si_epoch :: int
  si_status :: intervention_status
  si_authority :: execution_authority

text \<open>The reference a caller takes from the lifecycle's intervention.\<close>

definition intervention_ref_of :: "('act, 'rsn) intervention \<Rightarrow> intervention_ref" where
  "intervention_ref_of a = \<lparr>si_id = iv_id a, si_epoch = iv_epoch a, si_status = iv_status a,
     si_authority = iv_authority a\<rparr>"

record surface_request =
  sq_intervention :: string
  sq_epoch :: int
  sq_principal :: string

record surface_grant =
  sg_session :: string
  sg_locator :: string
  sg_expires :: "jsnum option"

record active_surface =
  as_kind :: string
  as_intervention :: string
  as_epoch :: int
  as_principal :: string
  as_session :: string
  as_locator :: string
  as_expires :: "int option"

datatype cleanup_reason = Cleanup_expired | Cleanup_invalid_grant | Cleanup_revocation

text \<open>The last argument of \<open>Cleanup_required\<close> says whether \<open>revokePromise\<close> is set.\<close>

datatype surface_state =
    Idle
  | Starting surface_request
  | Active_surface active_surface
  | Cleanup_required surface_request string cleanup_reason bool

text \<open>The runtime and, as history, the sessions the provider granted and has not confirmed
  revoked.\<close>

record surface_runtime =
  su_kind :: string
  su_state :: surface_state
  su_live :: "string list"

definition create_surface_runtime :: "string \<Rightarrow> surface_error + surface_runtime" where
  "create_surface_runtime kind =
     (if trim kind = [] \<or> 80 < length (trim kind) then Inl EXTERNAL_SURFACE_PROVIDER_INVALID
      else Inr \<lparr>su_kind = trim kind, su_state = Idle, su_live = []\<rparr>)"

section \<open>Guards\<close>

definition surface_expired :: "active_surface \<Rightarrow> jsnum \<Rightarrow> bool" where
  "surface_expired a now = (case as_expires a of None \<Rightarrow> False | Some e \<Rightarrow> num_le (num_of_int e) now)"

definition matches_identity :: "active_surface \<Rightarrow> string \<Rightarrow> int \<Rightarrow> string \<Rightarrow> bool" where
  "matches_identity a i e pb \<longleftrightarrow>
     as_intervention a = i \<and> as_epoch a = e \<and> same_bytes (as_principal a) pb"

definition matches_request :: "surface_request \<Rightarrow> surface_request \<Rightarrow> bool" where
  "matches_request a b \<longleftrightarrow> sq_intervention a = sq_intervention b \<and> sq_epoch a = sq_epoch b
     \<and> same_bytes (sq_principal a) (sq_principal b)"

definition request_for :: "intervention_ref \<Rightarrow> string \<Rightarrow> surface_request" where
  "request_for a pb = \<lparr>sq_intervention = si_id a, sq_epoch = si_epoch a, sq_principal = pb\<rparr>"

definition entry_allowed :: "intervention_ref \<Rightarrow> bool" where
  "entry_allowed a \<longleftrightarrow> si_status a = Human_active \<and> si_authority a = Human"

definition make_cleanup :: "active_surface \<Rightarrow> cleanup_reason \<Rightarrow> bool \<Rightarrow> surface_state" where
  "make_cleanup a reason revoking = Cleanup_required \<lparr>sq_intervention = as_intervention a,
     sq_epoch = as_epoch a, sq_principal = as_principal a\<rparr> (as_session a) reason revoking"

definition normalize_grant ::
  "string \<Rightarrow> surface_grant \<Rightarrow> surface_request \<Rightarrow> jsnum \<Rightarrow> surface_error + active_surface" where
  "normalize_grant kind g q now =
     (let sid = trim (sg_session g); loc = trim (sg_locator g) in
      if sid = [] \<or> 200 < length sid \<or> \<not> list_all is_session_char sid
      then Inl EXTERNAL_SURFACE_PROVIDER_INVALID
      else if loc = [] \<or> 2048 < length loc \<or> list_ex is_line_break loc
      then Inl EXTERNAL_SURFACE_PROVIDER_INVALID
      else if (case sg_expires g of None \<Rightarrow> False
           | Some e \<Rightarrow> \<not> num_safe_integer e \<or> num_le e (num_of_int 0))
      then Inl EXTERNAL_SURFACE_PROVIDER_INVALID
      else if (case sg_expires g of None \<Rightarrow> False | Some e \<Rightarrow> num_le e now)
      then Inl EXTERNAL_SURFACE_EXPIRED
      else Inr \<lparr>as_kind = kind, as_intervention = sq_intervention q, as_epoch = sq_epoch q,
                as_principal = sq_principal q, as_session = sid, as_locator = loc,
                as_expires = map_option num_to_int (sg_expires g)\<rparr>)"

section \<open>Calls\<close>

definition get_active_surface :: "jsnum \<Rightarrow> surface_runtime \<Rightarrow> active_surface option" where
  "get_active_surface now s = (case su_state s of
       Active_surface a \<Rightarrow> if surface_expired a now then None else Some a
     | _ \<Rightarrow> None)"

definition assert_inactive :: "surface_runtime \<Rightarrow> surface_error + unit" where
  "assert_inactive s = (if su_state s = Idle then Inr () else Inl EXTERNAL_SURFACE_ACTIVE)"

text \<open>What a call of \<open>begin\<close> or \<open>revoke\<close> comes to at its first \<open>await\<close>: thrown,
  returned, or waiting for the start or for the cleanup, after which it throws the error given.\<close>

datatype call_result =
    Threw surface_error
  | Returned active_surface
  | Awaits_start
  | Awaits_cleanup "surface_error option"

text \<open>\<open>performCleanup\<close> up to its \<open>await\<close>: the provider is asked unless it already is.\<close>

definition perform_cleanup :: "surface_state \<Rightarrow> surface_state" where
  "perform_cleanup st = (case st of Cleanup_required q sid reason _ \<Rightarrow> Cleanup_required q sid reason True | x \<Rightarrow> x)"

definition begin_surface ::
  "intervention_ref \<Rightarrow> string \<Rightarrow> jsnum \<Rightarrow> surface_runtime \<Rightarrow> call_result \<times> surface_runtime" where
  "begin_surface a pb now s =
     (if \<not> entry_allowed a then (Threw EXTERNAL_SURFACE_STATE_CHANGED, s)
      else if pb = [] \<or> 512 < length pb then (Threw EXTERNAL_SURFACE_STATE_CHANGED, s)
      else (let q = request_for a pb in case su_state s of
          Starting q' \<Rightarrow>
            if \<not> matches_request q' q then (Threw EXTERNAL_SURFACE_ACTIVE, s) else (Awaits_start, s)
        | Cleanup_required q' sid reason revoking \<Rightarrow>
            (Awaits_cleanup (Some (if matches_request q' q \<and> reason = Cleanup_expired
               then EXTERNAL_SURFACE_EXPIRED else EXTERNAL_SURFACE_STATE_CHANGED)),
             s\<lparr>su_state := perform_cleanup (su_state s)\<rparr>)
        | Active_surface c \<Rightarrow>
            if surface_expired c now
            then (Awaits_cleanup (Some (if matches_identity c (si_id a) (si_epoch a) pb
                    then EXTERNAL_SURFACE_EXPIRED else EXTERNAL_SURFACE_STATE_CHANGED)),
                  s\<lparr>su_state := perform_cleanup (make_cleanup c Cleanup_expired False)\<rparr>)
            else if matches_identity c (si_id a) (si_epoch a) pb then (Returned c, s)
            else (Threw EXTERNAL_SURFACE_ACTIVE, s)
        | Idle \<Rightarrow> (Awaits_start, s\<lparr>su_state := Starting q\<rparr>)))"

definition revoke_surface ::
  "string \<Rightarrow> int \<Rightarrow> string \<Rightarrow> jsnum \<Rightarrow> surface_runtime \<Rightarrow> call_result \<times> surface_runtime" where
  "revoke_surface i e pb now s =
     (let q = \<lparr>sq_intervention = i, sq_epoch = e, sq_principal = pb\<rparr> in case su_state s of
          Starting q' \<Rightarrow>
            if \<not> matches_request q' q then (Threw EXTERNAL_SURFACE_STATE_CHANGED, s) else (Awaits_start, s)
        | Active_surface c \<Rightarrow>
            if \<not> matches_identity c i e pb then (Threw EXTERNAL_SURFACE_STATE_CHANGED, s)
            else (Awaits_cleanup None, s\<lparr>su_state := perform_cleanup
                    (make_cleanup c (if surface_expired c now then Cleanup_expired else Cleanup_revocation) False)\<rparr>)
        | Cleanup_required q' sid reason revoking \<Rightarrow>
            if \<not> matches_request q' q then (Threw EXTERNAL_SURFACE_STATE_CHANGED, s)
            else (Awaits_cleanup None, s\<lparr>su_state := perform_cleanup (su_state s)\<rparr>)
        | Idle \<Rightarrow> (Threw EXTERNAL_SURFACE_STATE_CHANGED, s))"

text \<open>\<open>provider.begin\<close> settles: a rejection, or a grant and the clock it is checked at.\<close>

definition start_settled :: "(surface_grant \<times> jsnum) option \<Rightarrow> surface_request \<Rightarrow> surface_runtime \<Rightarrow> surface_runtime" where
  "start_settled answer q s = (case answer of
       None \<Rightarrow> s\<lparr>su_state := Idle\<rparr>
     | Some (g, now) \<Rightarrow>
         (let s1 = s\<lparr>su_live := su_live s @ [sg_session g]\<rparr> in
          case normalize_grant (su_kind s) g q now of
            Inl e \<Rightarrow> s1\<lparr>su_state := perform_cleanup (Cleanup_required q (sg_session g)
                (if e = EXTERNAL_SURFACE_EXPIRED then Cleanup_expired else Cleanup_invalid_grant) False)\<rparr>
          | Inr a \<Rightarrow> s1\<lparr>su_state := Active_surface a\<rparr>))"

text \<open>\<open>provider.revoke\<close> settles. The active path passes the trimmed id, the invalid-grant path
  the id as granted; a confirmation ends the sessions it names either way.\<close>

definition revoke_settled :: "bool \<Rightarrow> surface_request \<Rightarrow> string \<Rightarrow> cleanup_reason \<Rightarrow> surface_runtime \<Rightarrow> surface_runtime"
where
  "revoke_settled confirmed q sid reason s =
     (if confirmed
      then s\<lparr>su_state := Idle, su_live := filter (\<lambda>g. g \<noteq> sid \<and> trim g \<noteq> sid) (su_live s)\<rparr>
      else s\<lparr>su_state := Cleanup_required q sid reason False\<rparr>)"

section \<open>The step relation\<close>

datatype surface_event =
    Begin_called surface_request
  | Revoke_called surface_request
  | Begin_settled bool
  | Revoke_settled bool

inductive surface_step :: "surface_runtime \<Rightarrow> surface_event \<Rightarrow> surface_runtime \<Rightarrow> bool" where
  begin_call:
    "surface_step s (Begin_called (request_for a pb)) (snd (begin_surface a pb now s))"
| revoke_call:
    "surface_step s (Revoke_called \<lparr>sq_intervention = i, sq_epoch = e, sq_principal = pb\<rparr>)
       (snd (revoke_surface i e pb now s))"
| begin_rejected:
    "su_state s = Starting q \<Longrightarrow> surface_step s (Begin_settled False) (start_settled None q s)"
| begin_granted:
    "su_state s = Starting q \<Longrightarrow>
       surface_step s (Begin_settled True) (start_settled (Some (g, now)) q s)"
| revoke_answer:
    "su_state s = Cleanup_required q sid reason True \<Longrightarrow>
       surface_step s (Revoke_settled confirmed) (revoke_settled confirmed q sid reason s)"

inductive_cases surface_stepE: "surface_step s e s'"

inductive_simps surface_step_begin_settled: "surface_step s (Begin_settled ok) s'"

inductive reachable_surface :: "string \<Rightarrow> surface_runtime \<Rightarrow> bool" for kind where
  created: "create_surface_runtime kind = Inr s \<Longrightarrow> reachable_surface kind s"
| stepped: "reachable_surface kind s \<Longrightarrow> surface_step s e s' \<Longrightarrow> reachable_surface kind s'"

section \<open>The sessions the runtime answers for\<close>

definition surface_good :: "surface_runtime \<Rightarrow> bool" where
  "surface_good s \<longleftrightarrow> (case su_state s of
       Idle \<Rightarrow> su_live s = []
     | Starting q \<Rightarrow> su_live s = []
     | Active_surface a \<Rightarrow> (\<exists>g. su_live s = [g] \<and> trim g = as_session a) \<and> as_kind a = su_kind s
         \<and> as_session a \<noteq> [] \<and> length (as_session a) \<le> 200 \<and> list_all is_session_char (as_session a)
     | Cleanup_required q sid reason revoking \<Rightarrow> \<exists>g. su_live s = [g] \<and> (g = sid \<or> trim g = sid))"

lemma begin_good: "surface_good s \<Longrightarrow> surface_good (snd (begin_surface a pb now s))"
  by (auto simp: begin_surface_def surface_good_def Let_def perform_cleanup_def make_cleanup_def
      split: surface_state.splits)

lemma revoke_good: "surface_good s \<Longrightarrow> surface_good (snd (revoke_surface i e pb now s))"
  by (auto simp: revoke_surface_def surface_good_def Let_def perform_cleanup_def make_cleanup_def
      split: surface_state.splits)

lemma normalize_ok:
  "normalize_grant k g q now = Inr a \<Longrightarrow> as_session a = trim (sg_session g) \<and> as_kind a = k
     \<and> as_session a \<noteq> [] \<and> length (as_session a) \<le> 200 \<and> list_all is_session_char (as_session a)
     \<and> as_intervention a = sq_intervention q \<and> as_epoch a = sq_epoch q \<and> as_principal a = sq_principal q
     \<and> \<not> surface_expired a now"
  by (auto simp: normalize_grant_def Let_def surface_expired_def split: if_splits option.splits
      dest: num_safe_integerD)

lemma start_settled_good:
  assumes "surface_good s" and "su_state s = Starting q"
  shows "surface_good (start_settled answer q s)"
proof (cases answer)
  case None
  with assms show ?thesis by (simp add: start_settled_def surface_good_def)
next
  case (Some ga)
  then obtain g now where ga: "answer = Some (g, now)" by (cases ga) simp
  show ?thesis
  proof (cases "normalize_grant (su_kind s) g q now")
    case (Inl e)
    with assms ga show ?thesis
      by (simp add: start_settled_def surface_good_def Let_def perform_cleanup_def)
  next
    case (Inr a)
    with assms ga normalize_ok [OF Inr] show ?thesis
      by (auto simp: start_settled_def surface_good_def Let_def)
  qed
qed

lemma revoke_settled_good:
  assumes "surface_good s" and "su_state s = Cleanup_required q sid reason True"
  shows "surface_good (revoke_settled confirmed q sid reason s)"
  using assms by (auto simp: revoke_settled_def surface_good_def)

lemma surface_good_step [wf_intros]: "surface_step s e s' \<Longrightarrow> surface_good s \<Longrightarrow> surface_good s'"
  by (erule surface_stepE)
    (auto simp: begin_good revoke_good start_settled_good revoke_settled_good)

lemma reachable_good: "reachable_surface kind s \<Longrightarrow> surface_good s"
proof (induction rule: reachable_surface.induct)
  case (created s)
  then show ?case by (auto simp: create_surface_runtime_def surface_good_def split: if_splits)
next
  case (stepped s e s')
  from surface_good_step [OF stepped.hyps(2) stepped.IH] show ?case .
qed

text \<open>Starting ends only with its own provider's answer: no call replaces or cancels it.\<close>

lemma starting_undisturbed:
  assumes "surface_step s e s'" and "su_state s = Starting q"
  shows "su_state s' = Starting q \<or> (\<exists>ok. e = Begin_settled ok)"
  using assms
  by (cases rule: surface_step.cases)
    (auto simp: begin_surface_def revoke_surface_def Let_def)

text \<open>A surface is left only for cleanup, and a cleanup only by the provider's confirmation.\<close>

lemma live_until_confirmed:
  assumes "surface_step s e s'" and "surface_good s" and "su_live s \<noteq> []"
  shows "su_live s' = su_live s \<or> (e = Revoke_settled True \<and> su_live s' = [] \<and> su_state s' = Idle)"
  using assms
proof (cases rule: surface_step.cases)
  case (begin_call a pb now)
  then show ?thesis by (auto simp: begin_surface_def Let_def split: surface_state.split)
next
  case (revoke_call i e pb now)
  then show ?thesis by (auto simp: revoke_surface_def Let_def split: surface_state.split)
next
  case (revoke_answer q sid reason confirmed)
  with assms show ?thesis by (auto simp: revoke_settled_def surface_good_def)
qed (use assms in \<open>auto simp: surface_good_def\<close>)

section \<open>Properties\<close>

definition sample_ref :: intervention_ref where
  "sample_ref = \<lparr>si_id = ''i1'', si_epoch = 2, si_status = Human_active, si_authority = Human\<rparr>"

definition sample_grant :: surface_grant where
  "sample_grant = \<lparr>sg_session = ''s1'', sg_locator = ''https://host/s1'', sg_expires = Some (Fin 50)\<rparr>"

definition sample_surface :: active_surface where
  "sample_surface = \<lparr>as_kind = ''vnc'', as_intervention = ''i1'', as_epoch = 2, as_principal = ''p1'',
     as_session = ''s1'', as_locator = ''https://host/s1'', as_expires = Some 50\<rparr>"

definition surface_at :: "surface_state \<Rightarrow> string list \<Rightarrow> surface_runtime" where
  "surface_at st live = \<lparr>su_kind = ''vnc'', su_state = st, su_live = live\<rparr>"

lemma sample_reachable:
  "reachable_surface ''vnc'' (surface_at (Active_surface sample_surface) [''s1''])"
proof -
  have "reachable_surface ''vnc'' (surface_at Idle [])"
    by (rule reachable_surface.created)
      (simp add: create_surface_runtime_def surface_at_def trim_def is_space_def char_code_def)
  moreover have "begin_surface sample_ref ''p1'' (Fin 5) (surface_at Idle [])
      = (Awaits_start, surface_at (Starting (request_for sample_ref ''p1'')) [])"
    by (simp add: begin_surface_def entry_allowed_def sample_ref_def surface_at_def)
  ultimately have "reachable_surface ''vnc'' (surface_at (Starting (request_for sample_ref ''p1'')) [])"
    using surface_step.begin_call [of "surface_at Idle []" sample_ref "''p1''" "Fin 5"]
    by (auto intro: reachable_surface.stepped)
  moreover have "normalize_grant ''vnc'' sample_grant (request_for sample_ref ''p1'') (Fin 5) = Inr sample_surface"
    by (simp add: normalize_grant_def sample_grant_def sample_surface_def sample_ref_def request_for_def Let_def
        trim_def is_space_def is_session_char_def is_alnum_def is_line_break_def char_code_def)
  then have "start_settled (Some (sample_grant, Fin 5)) (request_for sample_ref ''p1'')
      (surface_at (Starting (request_for sample_ref ''p1'')) []) = surface_at (Active_surface sample_surface) [''s1'']"
    by (simp add: start_settled_def surface_at_def sample_grant_def)
  ultimately show ?thesis
    using surface_step.begin_granted [of "surface_at (Starting (request_for sample_ref ''p1'')) []"
        "request_for sample_ref ''p1''" sample_grant "Fin 5"]
    by (auto simp: surface_at_def intro: reachable_surface.stepped)
qed

text \<open>C23. Inactive means that no provider session is left. In every reachable state, however calls, grants,
  rejections and revocations are interleaved, \<open>assertInactive\<close> passes only if every session the provider granted
  has been confirmed revoked (or never came to be); at most one is ever outstanding, and the surface
  \<open>getActive\<close> reports has not expired and is that one.\<close>

theorem inactive_means_no_session:
  assumes "reachable_surface kind s"
  shows "(assert_inactive s = Inr () \<longrightarrow> su_live s = []) \<and> length (su_live s) \<le> 1
    \<and> (case get_active_surface now s of
         None \<Rightarrow> True
       | Some a \<Rightarrow> \<not> surface_expired a now \<and> (\<exists>g. su_live s = [g] \<and> trim g = as_session a))"
  using reachable_good [OF assms]
  by (auto simp: surface_good_def assert_inactive_def get_active_surface_def split: surface_state.splits)

theorem inactive_means_no_session_witness:
  "\<exists>g. su_live (surface_at (Active_surface sample_surface) [''s1'']) = [g] \<and> trim g = ''s1''"
  using inactive_means_no_session [OF sample_reachable, of "Fin 20"]
  by (simp add: get_active_surface_def surface_at_def sample_surface_def surface_expired_def)

text \<open>C24. Only the provider releases a session. From any reachable state, a step that drops an outstanding session,
  or that turns a failing \<open>assertInactive\<close> into a passing one while a session is outstanding, is the provider's
  confirmed revocation; a rejected revocation, an expiry and every call keep the runtime fenced. A start in progress
  ends only with the provider's own answer.\<close>

theorem only_confirmation_releases:
  assumes "reachable_surface kind s" and "surface_step s e s'"
  shows "(if su_live s = [] then True else su_live s' = su_live s \<or> e = Revoke_settled True)
    \<and> (assert_inactive s = Inl x \<and> assert_inactive s' = Inr () \<longrightarrow>
         e = Revoke_settled True \<or> e = Begin_settled False \<and> su_live s = [])
    \<and> (case su_state s of Starting q \<Rightarrow> su_state s' = Starting q \<or> (\<exists>ok. e = Begin_settled ok) | _ \<Rightarrow> True)"
proof -
  have good: "surface_good s" by (rule reachable_good [OF assms(1)])
  have "e = Revoke_settled True \<or> e = Begin_settled False \<and> su_live s = []"
    if "su_state s \<noteq> Idle" "su_state s' = Idle"
    using assms(2)
  proof (cases rule: surface_step.cases)
    case (begin_call a pb now)
    with that show ?thesis
      by (auto simp: begin_surface_def Let_def perform_cleanup_def make_cleanup_def split: surface_state.splits if_splits)
  next
    case (revoke_call i e pb now)
    with that show ?thesis
      by (auto simp: revoke_surface_def Let_def perform_cleanup_def make_cleanup_def split: surface_state.splits if_splits)
  next
    case (begin_granted q g now)
    with that show ?thesis
      by (auto simp: start_settled_def Let_def perform_cleanup_def split: sum.splits)
  qed (use that good in \<open>auto simp: revoke_settled_def surface_good_def split: if_splits\<close>)
  then show ?thesis
    using live_until_confirmed [OF assms(2) good] starting_undisturbed [OF assms(2)]
    by (auto simp: assert_inactive_def split: surface_state.split)
qed

theorem only_confirmation_releases_witness:
  "surface_step (surface_at (Active_surface sample_surface) [''s1''])
     (Revoke_called \<lparr>sq_intervention = ''i1'', sq_epoch = 2, sq_principal = ''p1''\<rparr>)
     (snd (revoke_surface ''i1'' 2 ''p1'' (Fin 20) (surface_at (Active_surface sample_surface) [''s1''])))
   \<and> su_live (snd (revoke_surface ''i1'' 2 ''p1'' (Fin 20) (surface_at (Active_surface sample_surface) [''s1''])))
       = [''s1'']"
proof -
  have step: "surface_step (surface_at (Active_surface sample_surface) [''s1''])
     (Revoke_called \<lparr>sq_intervention = ''i1'', sq_epoch = 2, sq_principal = ''p1''\<rparr>)
     (snd (revoke_surface ''i1'' 2 ''p1'' (Fin 20) (surface_at (Active_surface sample_surface) [''s1''])))"
    by (rule surface_step.revoke_call)
  then show ?thesis
    using only_confirmation_releases [OF sample_reachable step] by (simp add: surface_at_def)
qed

end
