(* ===== verification/Takeover_Session.thy ===== *)
theory Takeover_Session
  imports Ownership "HOL-Library.AList"
begin

text \<open>
  \<open>src/browser-takeover/session.ts\<close>: \<open>TakeoverSessionManager\<close>. Times are the integer
  milliseconds of \<open>Date.now\<close>; every reading of the clock is an argument of its own.
  \<open>hmac\<close> maps the authenticated text to the base64url digest under the manager's key.
\<close>

section \<open>Number texts\<close>

definition int_text :: "int \<Rightarrow> string" where
  "int_text i = (if i < 0 then CHR ''-'' # nat_text (nat (- i)) else nat_text (nat i))"

lemma nat_text_digits: "list_all (\<lambda>c. 48 \<le> char_code c \<and> char_code c \<le> 57) (nat_text n)"
proof (induction n rule: nat_text.induct)
  case (1 n)
  then show ?case by (subst nat_text.simps) auto
qed

lemma nat_text_nonempty [simp]: "nat_text n \<noteq> []"
  by (subst nat_text.simps) simp

lemma nat_text_inj [simp]: "nat_text m = nat_text n \<longleftrightarrow> m = n"
proof
  show "nat_text m = nat_text n \<Longrightarrow> m = n"
  proof (induction m arbitrary: n rule: nat_text.induct)
    case (1 m)
    have last: "char_code (last (nat_text k)) = 48 + k mod 10" for k
      by (subst nat_text.simps) simp
    have "48 + m mod 10 = 48 + n mod 10" using 1(2) last [of m] last [of n] by simp
    moreover have "m div 10 = n div 10"
    proof (cases "m < 10")
      case True
      then have "nat_text m = [char_of (48 + m)]" by (subst nat_text.simps) simp
      with 1(2) have "length (nat_text n) = 1" by (metis One_nat_def length_Cons list.size(3))
      then have "n < 10" by (subst (asm) nat_text.simps) (simp split: if_splits)
      with True show ?thesis by simp
    next
      case False
      have "\<not> n < 10"
      proof
        assume "n < 10"
        then have "nat_text n = [char_of (48 + n)]" by (subst nat_text.simps) simp
        with 1(2) have "length (nat_text m) = 1" by (metis One_nat_def length_Cons list.size(3))
        with False show False by (subst (asm) nat_text.simps) (simp split: if_splits)
      qed
      with False 1(2) have "nat_text (m div 10) = nat_text (n div 10)"
        by (simp add: nat_text.simps [of m] nat_text.simps [of n])
      with 1(1) False show ?thesis by simp
    qed
    ultimately show ?case by (metis add_left_cancel div_mult_mod_eq)
  qed
qed simp

lemma nat_text_not_minus: "hd (nat_text n) \<noteq> CHR ''-''"
proof -
  have "list_all (\<lambda>c. 48 \<le> char_code c \<and> char_code c \<le> 57) (nat_text n)" by (rule nat_text_digits)
  then have "48 \<le> char_code (hd (nat_text n))"
    by (cases "nat_text n") (simp_all add: nat_text_nonempty)
  then show ?thesis by (auto simp: char_code_def)
qed

lemma int_text_inj [simp]: "int_text a = int_text b \<longleftrightarrow> a = b"
  using nat_text_not_minus by (auto simp: int_text_def) (metis list.sel(1))+

lemma nul_free_int_text [simp]: "nul_free (int_text a)"
proof -
  have "nul_free (nat_text n)" for n
    using nat_text_digits [of n] by (auto simp: nul_free_def list_all_iff)
  then show ?thesis by (simp add: int_text_def) (simp add: char_code_def)
qed

text \<open>A field followed by a separator is read back from the text.\<close>

lemma separated_inj:
  "nul_free a \<Longrightarrow> nul_free b \<Longrightarrow> a @ nul # x = b @ nul # y \<longleftrightarrow> a = b \<and> x = y"
proof (induction a arbitrary: b)
  case Nil
  then show ?case by (cases b) (auto simp: char_code_def nul_def)
next
  case (Cons c a)
  then show ?case by (cases b) (auto simp: char_code_def nul_def)
qed

section \<open>State\<close>

datatype takeover_error =
    TAKEOVER_NOT_FOUND
  | TAKEOVER_EXPIRED
  | TAKEOVER_FORBIDDEN
  | TAKEOVER_CLIENT_ACTIVE

record takeover_config =
  tc_ttl :: int
  tc_idle :: int
  tc_grace :: int

record takeover =
  tk_id :: string
  tk_intervention :: string
  tk_epoch :: int
  tk_principal :: string
  tk_expires :: int
  tk_completion_expires :: int
  tk_revoked :: bool
  tk_completed :: bool
  tk_client :: "string option"
  tk_generation :: int
  tk_last_seen :: "int option"
  tk_in_flight :: nat
  tk_released :: bool

type_synonym takeovers = "(string \<times> takeover) list"

record takeover_locator =
  tl_id :: string
  tl_intervention :: string
  tl_epoch :: int
  tl_principal :: string
  tl_expires :: int

record takeover_grant =
  tg_locator :: takeover_locator
  tg_capability :: string
  tg_reconnect :: string
  tg_client :: string
  tg_generation :: int

record takeover_use =
  us_locator :: takeover_locator
  us_client :: string
  us_generation :: int

text \<open>The constructor's checks, on the numbers the caller passes; the defaults are the code's.\<close>

definition default_idle :: "int \<Rightarrow> int" where
  "default_idle ttl = min 5000 (max 250 (ttl div 4))"

definition takeover_config_ok :: "jsnum \<Rightarrow> jsnum \<Rightarrow> jsnum \<Rightarrow> bool" where
  "takeover_config_ok ttl idle grace \<longleftrightarrow> num_integer ttl \<and> 1000 \<le> num_to_int ttl
     \<and> num_integer idle \<and> 250 \<le> num_to_int idle \<and> num_to_int idle < num_to_int ttl
     \<and> num_integer grace \<and> 1000 \<le> num_to_int grace \<and> num_to_int grace \<le> 1800000"

lemma default_config_ok:
  "1000 \<le> ttl \<Longrightarrow> ttl \<le> 1800000 \<Longrightarrow>
     takeover_config_ok (num_of_int ttl) (num_of_int (default_idle ttl)) (num_of_int ttl)"
  by (simp add: takeover_config_ok_def default_idle_def) linarith

section \<open>Helpers\<close>

definition url_text :: "nat \<Rightarrow> nat \<Rightarrow> string \<Rightarrow> bool" where
  "url_text lo hi s \<longleftrightarrow> lo \<le> length s \<and> length s \<le> hi \<and> list_all is_url_char s"

definition client_shape :: "string \<Rightarrow> bool" where
  "client_shape = url_text 24 128"

definition handle_shape :: "string \<Rightarrow> bool" where
  "handle_shape = url_text 32 128"

text \<open>\<open>!record.clientBinding || record.clientGeneration < 1\<close> negated: an empty binding is falsy.\<close>

definition claimed :: "takeover \<Rightarrow> bool" where
  "claimed r \<longleftrightarrow> tk_client r \<noteq> None \<and> tk_client r \<noteq> Some [] \<and> 1 \<le> tk_generation r"

definition locator_of :: "takeover \<Rightarrow> takeover_locator" where
  "locator_of r = \<lparr>tl_id = tk_id r, tl_intervention = tk_intervention r, tl_epoch = tk_epoch r,
     tl_principal = tk_principal r, tl_expires = tk_expires r\<rparr>"

definition bound_text :: "string \<Rightarrow> takeover \<Rightarrow> string" where
  "bound_text tag r = tag @ nul # tk_id r @ nul # tk_intervention r @ nul # int_text (tk_epoch r)
     @ nul # tk_principal r @ nul # the (tk_client r) @ nul # int_text (tk_generation r)
     @ nul # int_text (tk_expires r)"

definition capability_text :: "takeover \<Rightarrow> string" where
  "capability_text = bound_text ''mcp-execution-handoff/takeover/v2''"

definition reconnect_text :: "takeover \<Rightarrow> string" where
  "reconnect_text = bound_text ''mcp-execution-handoff/takeover-reconnect/v1''"

definition completion_text :: "takeover \<Rightarrow> string" where
  "completion_text r = ''mcp-execution-handoff/takeover-completion/v1'' @ nul # tk_id r
     @ nul # tk_intervention r @ nul # int_text (tk_epoch r) @ nul # tk_principal r
     @ nul # int_text (tk_expires r) @ nul # int_text (tk_completion_expires r)"

definition capability_for :: "(string \<Rightarrow> string) \<Rightarrow> takeover \<Rightarrow> takeover_error + string" where
  "capability_for hmac r =
     (if \<not> claimed r then Inl TAKEOVER_FORBIDDEN else Inr (hmac (capability_text r)))"

definition reconnect_handle_for :: "(string \<Rightarrow> string) \<Rightarrow> takeover \<Rightarrow> takeover_error + string" where
  "reconnect_handle_for hmac r =
     (if \<not> claimed r then Inl TAKEOVER_FORBIDDEN else Inr (hmac (reconnect_text r)))"

definition completion_capability_for :: "(string \<Rightarrow> string) \<Rightarrow> takeover \<Rightarrow> string" where
  "completion_capability_for hmac r = hmac (completion_text r)"

definition grant_of :: "(string \<Rightarrow> string) \<Rightarrow> takeover \<Rightarrow> takeover_error + takeover_grant" where
  "grant_of hmac r = (if \<not> claimed r then Inl TAKEOVER_FORBIDDEN
     else Inr \<lparr>tg_locator = locator_of r, tg_capability = hmac (capability_text r),
       tg_reconnect = hmac (reconnect_text r), tg_client = the (tk_client r),
       tg_generation = tk_generation r\<rparr>)"

definition use_of :: "takeover \<Rightarrow> takeover_use" where
  "use_of r = \<lparr>us_locator = locator_of r, us_client = the (tk_client r), us_generation = tk_generation r\<rparr>"

definition require_live :: "string \<Rightarrow> int \<Rightarrow> takeovers \<Rightarrow> takeover_error + takeover" where
  "require_live i t m = (case map_of m i of
       None \<Rightarrow> Inl TAKEOVER_NOT_FOUND
     | Some r \<Rightarrow> if tk_revoked r then Inl TAKEOVER_NOT_FOUND
         else if tk_expires r \<le> t then Inl TAKEOVER_EXPIRED else Inr r)"

definition principal_ok :: "takeover \<Rightarrow> string \<Rightarrow> bool" where
  "principal_ok r pb \<longleftrightarrow> same_bytes (tk_principal r) pb"

definition client_ok :: "takeover \<Rightarrow> string \<Rightarrow> bool" where
  "client_ok r cb \<longleftrightarrow> client_shape cb
     \<and> (case tk_client r of None \<Rightarrow> False | Some b \<Rightarrow> b \<noteq> [] \<and> same_bytes b cb)"

definition prune_expired :: "int \<Rightarrow> takeovers \<Rightarrow> takeovers" where
  "prune_expired t m = filter (\<lambda>(i, r).
     let c = (tk_client r \<noteq> None \<and> tk_client r \<noteq> Some [] \<and> 0 < tk_generation r) in
     \<not> ((tk_revoked r \<and> \<not> tk_completed r) \<or> (\<not> c \<and> tk_expires r \<le> t)
        \<or> (c \<and> tk_completion_expires r \<le> t))) m"

section \<open>Operations\<close>

definition ensure_matches :: "string \<Rightarrow> int \<Rightarrow> string \<Rightarrow> int \<Rightarrow> takeover \<Rightarrow> bool" where
  "ensure_matches i e pb t r \<longleftrightarrow> \<not> tk_revoked r \<and> t < tk_expires r \<and> tk_intervention r = i
     \<and> tk_epoch r = e \<and> tk_principal r = pb"

definition fresh_takeover :: "takeover_config \<Rightarrow> string \<Rightarrow> string \<Rightarrow> int \<Rightarrow> string \<Rightarrow> int \<Rightarrow> takeover" where
  "fresh_takeover cfg new_id i e pb t = \<lparr>tk_id = new_id, tk_intervention = i, tk_epoch = e,
     tk_principal = pb, tk_expires = t + tc_ttl cfg,
     tk_completion_expires = t + tc_ttl cfg + tc_grace cfg, tk_revoked = False, tk_completed = False,
     tk_client = None, tk_generation = 0, tk_last_seen = None, tk_in_flight = 0, tk_released = False\<rparr>"

definition ensure_takeover ::
  "takeover_config \<Rightarrow> string \<Rightarrow> int \<Rightarrow> string \<Rightarrow> string \<Rightarrow> int \<Rightarrow> int \<Rightarrow> takeovers \<Rightarrow>
   takeover_locator \<times> takeovers" where
  "ensure_takeover cfg i e pb new_id t1 t2 m =
     (let m1 = prune_expired t1 m in
      case filter (\<lambda>(k, r). ensure_matches i e pb t2 r) m1 of
        (k, r) # _ \<Rightarrow> (locator_of r, m1)
      | [] \<Rightarrow>
          (let m2 = map (\<lambda>(k, r). (k, if tk_intervention r = i \<and> t2 < tk_expires r
                 then r\<lparr>tk_revoked := True\<rparr> else r)) m1;
               r = fresh_takeover cfg new_id i e pb t2
           in (locator_of r, AList.update new_id r m2)))"

definition validate_locator ::
  "string \<Rightarrow> string \<Rightarrow> int \<Rightarrow> takeovers \<Rightarrow> takeover_error + takeover_locator" where
  "validate_locator i pb t m = (case require_live i t m of
       Inl e \<Rightarrow> Inl e
     | Inr r \<Rightarrow> if \<not> principal_ok r pb then Inl TAKEOVER_FORBIDDEN else Inr (locator_of r))"

definition issue_completion_capability ::
  "(string \<Rightarrow> string) \<Rightarrow> string \<Rightarrow> string \<Rightarrow> int \<Rightarrow> int \<Rightarrow> takeovers \<Rightarrow> takeover_error + string" where
  "issue_completion_capability hmac i pb t1 t2 m = (case map_of m i of
       None \<Rightarrow> Inl TAKEOVER_NOT_FOUND
     | Some r \<Rightarrow>
         if tk_revoked r then Inl TAKEOVER_NOT_FOUND
         else if \<not> principal_ok r pb then Inl TAKEOVER_FORBIDDEN
         else if tk_expires r \<le> t1 \<and> (\<not> claimed r \<or> tk_completion_expires r \<le> t2)
         then Inl TAKEOVER_EXPIRED
         else Inr (completion_capability_for hmac r))"

definition complete_takeover ::
  "(string \<Rightarrow> string) \<Rightarrow> string \<Rightarrow> string \<Rightarrow> string \<Rightarrow> int \<Rightarrow> int \<Rightarrow> takeovers \<Rightarrow>
   (takeover_error + takeover_locator \<times> bool) \<times> takeovers" where
  "complete_takeover hmac i cap pb t1 t2 m = (case map_of m i of
       None \<Rightarrow> (Inl TAKEOVER_NOT_FOUND, m)
     | Some r \<Rightarrow>
         if tk_revoked r \<and> \<not> tk_completed r then (Inl TAKEOVER_NOT_FOUND, m)
         else if tk_expires r \<le> t1 \<and> (\<not> claimed r \<or> tk_completion_expires r \<le> t2)
         then (Inl TAKEOVER_EXPIRED, m)
         else if \<not> principal_ok r pb then (Inl TAKEOVER_FORBIDDEN, m)
         else if \<not> handle_shape cap then (Inl TAKEOVER_FORBIDDEN, m)
         else if \<not> same_bytes (completion_capability_for hmac r) cap then (Inl TAKEOVER_FORBIDDEN, m)
         else (Inr (locator_of r, tk_completed r),
               AList.update i (r\<lparr>tk_completed := True, tk_revoked := True, tk_released := True\<rparr>) m))"

definition claim_client ::
  "(string \<Rightarrow> string) \<Rightarrow> string \<Rightarrow> string \<Rightarrow> string \<Rightarrow> int \<Rightarrow> int \<Rightarrow> takeovers \<Rightarrow>
   (takeover_error + takeover_grant) \<times> takeovers" where
  "claim_client hmac i pb cb t1 t2 m = (case require_live i t1 m of
       Inl e \<Rightarrow> (Inl e, m)
     | Inr r \<Rightarrow>
         if \<not> principal_ok r pb then (Inl TAKEOVER_FORBIDDEN, m)
         else if \<not> client_shape cb then (Inl TAKEOVER_FORBIDDEN, m)
         else (case tk_client r of
             None \<Rightarrow>
               (let r1 = r\<lparr>tk_client := Some cb, tk_generation := 1, tk_released := False,
                         tk_last_seen := Some t2\<rparr>
                in (grant_of hmac r1, AList.update i r1 m))
           | Some b \<Rightarrow>
               if tk_released r \<or> \<not> same_bytes b cb then (Inl TAKEOVER_FORBIDDEN, m)
               else (let r1 = r\<lparr>tk_last_seen := Some t2\<rparr> in (grant_of hmac r1, AList.update i r1 m))))"

definition reconnect_client ::
  "takeover_config \<Rightarrow> (string \<Rightarrow> string) \<Rightarrow> string \<Rightarrow> string \<Rightarrow> string \<Rightarrow> string \<Rightarrow> int \<Rightarrow> int \<Rightarrow> int \<Rightarrow>
   takeovers \<Rightarrow> (takeover_error + takeover_grant) \<times> takeovers" where
  "reconnect_client cfg hmac i pb handle nb t1 t2 t3 m = (case require_live i t1 m of
       Inl e \<Rightarrow> (Inl e, m)
     | Inr r \<Rightarrow>
         if \<not> principal_ok r pb then (Inl TAKEOVER_FORBIDDEN, m)
         else if \<not> client_shape nb then (Inl TAKEOVER_FORBIDDEN, m)
         else if \<not> handle_shape handle then (Inl TAKEOVER_FORBIDDEN, m)
         else if \<not> claimed r \<or> tk_last_seen r \<in> {None, Some 0} then (Inl TAKEOVER_FORBIDDEN, m)
         else if \<not> same_bytes (hmac (reconnect_text r)) handle then (Inl TAKEOVER_FORBIDDEN, m)
         else if 0 < tk_in_flight r
           \<or> (\<not> tk_released r \<and> max 0 (t2 - the (tk_last_seen r)) < tc_idle cfg)
         then (Inl TAKEOVER_CLIENT_ACTIVE, m)
         else (let r1 = r\<lparr>tk_client := Some nb, tk_generation := tk_generation r + 1,
                         tk_last_seen := Some t3, tk_released := False\<rparr>
               in (grant_of hmac r1, AList.update i r1 m)))"

definition release_client_generation ::
  "string \<Rightarrow> string \<Rightarrow> string \<Rightarrow> jsnum \<Rightarrow> int \<Rightarrow> takeovers \<Rightarrow> (takeover_error + unit) \<times> takeovers" where
  "release_client_generation i pb cb g t m = (case require_live i t m of
       Inl e \<Rightarrow> (Inl e, m)
     | Inr r \<Rightarrow>
         if \<not> principal_ok r pb \<or> \<not> client_ok r cb \<or> \<not> num_eq (num_of_int (tk_generation r)) g
         then (Inl TAKEOVER_FORBIDDEN, m)
         else (Inr (), AList.update i (r\<lparr>tk_released := True\<rparr>) m))"

definition begin_bound_use ::
  "string \<Rightarrow> string \<Rightarrow> string \<Rightarrow> jsnum \<Rightarrow> int \<Rightarrow> int \<Rightarrow> takeovers \<Rightarrow> (takeover_error + takeover_use) \<times> takeovers"
where
  "begin_bound_use i pb cb g t1 t2 m = (case require_live i t1 m of
       Inl e \<Rightarrow> (Inl e, m)
     | Inr r \<Rightarrow>
         if \<not> principal_ok r pb \<or> \<not> client_ok r cb
           \<or> tk_released r \<or> \<not> num_eq (num_of_int (tk_generation r)) g
         then (Inl TAKEOVER_FORBIDDEN, m)
         else (Inr (use_of r),
               AList.update i (r\<lparr>tk_in_flight := tk_in_flight r + 1, tk_last_seen := Some t2\<rparr>) m))"

definition verify_takeover ::
  "(string \<Rightarrow> string) \<Rightarrow> string \<Rightarrow> string \<Rightarrow> string \<Rightarrow> string \<Rightarrow> int \<Rightarrow> int \<Rightarrow> takeovers \<Rightarrow>
   (takeover_error + takeover_use) \<times> takeovers" where
  "verify_takeover hmac i cap pb cb t1 t2 m = (case require_live i t1 m of
       Inl e \<Rightarrow> (Inl e, m)
     | Inr r \<Rightarrow>
         if \<not> principal_ok r pb \<or> \<not> client_ok r cb \<or> tk_released r then (Inl TAKEOVER_FORBIDDEN, m)
         else (case capability_for hmac r of
             Inl e \<Rightarrow> (Inl e, m)
           | Inr expected \<Rightarrow>
               if \<not> same_bytes expected cap then (Inl TAKEOVER_FORBIDDEN, m)
               else (Inr (use_of r), AList.update i (r\<lparr>tk_last_seen := Some t2\<rparr>) m)))"

definition begin_use ::
  "(string \<Rightarrow> string) \<Rightarrow> string \<Rightarrow> string \<Rightarrow> string \<Rightarrow> string \<Rightarrow> int \<Rightarrow> int \<Rightarrow> int \<Rightarrow> takeovers \<Rightarrow>
   (takeover_error + takeover_use) \<times> takeovers" where
  "begin_use hmac i cap pb cb t1 t2 t3 m = (case verify_takeover hmac i cap pb cb t1 t2 m of
       (Inl e, m1) \<Rightarrow> (Inl e, m1)
     | (Inr u, m1) \<Rightarrow> (case require_live i t3 m1 of
           Inl e \<Rightarrow> (Inl e, m1)
         | Inr r \<Rightarrow> (Inr u, AList.update i (r\<lparr>tk_in_flight := tk_in_flight r + 1\<rparr>) m1)))"

definition end_use ::
  "string \<Rightarrow> string \<Rightarrow> string \<Rightarrow> jsnum \<Rightarrow> int \<Rightarrow> int \<Rightarrow> takeovers \<Rightarrow> takeovers" where
  "end_use i pb cb g t1 t2 m = (case map_of m i of
       None \<Rightarrow> m
     | Some r \<Rightarrow>
         if tk_revoked r \<or> tk_expires r \<le> t1 \<or> \<not> principal_ok r pb
           \<or> (case tk_client r of None \<Rightarrow> True | Some b \<Rightarrow> b = [] \<or> \<not> same_bytes b cb)
           \<or> \<not> num_eq (num_of_int (tk_generation r)) g
         then m
         else AList.update i (r\<lparr>tk_in_flight := tk_in_flight r - 1, tk_last_seen := Some t2\<rparr>) m)"

definition completes_now :: "string \<Rightarrow> int \<Rightarrow> int \<Rightarrow> takeover \<Rightarrow> bool" where
  "completes_now i e t r \<longleftrightarrow> tk_intervention r = i \<and> tk_epoch r = e \<and> \<not> tk_completed r
     \<and> \<not> tk_revoked r \<and> t < tk_completion_expires r"

definition complete_after_verification ::
  "takeover_config \<Rightarrow> string \<Rightarrow> int \<Rightarrow> int \<Rightarrow> int \<Rightarrow> takeovers \<Rightarrow>
   (takeover_locator \<times> bool) list \<times> takeovers" where
  "complete_after_verification cfg i e t1 t2 m =
     (let m1 = prune_expired t1 m in
      (concat (map (\<lambda>(k, r).
          if tk_intervention r = i \<and> tk_epoch r = e \<and> tk_completed r then [(locator_of r, True)]
          else if completes_now i e t2 r then [(locator_of r, False)] else []) m1),
       map (\<lambda>(k, r). (k, if completes_now i e t2 r
          then r\<lparr>tk_completed := True, tk_revoked := True, tk_released := True,
                 tk_completion_expires := t2 + tc_grace cfg\<rparr> else r)) m1))"

definition is_completed :: "string \<Rightarrow> string \<Rightarrow> int \<Rightarrow> takeovers \<Rightarrow> takeover_error + bool" where
  "is_completed i pb t m = (case map_of m i of
       None \<Rightarrow> Inr False
     | Some r \<Rightarrow> if \<not> tk_completed r \<or> tk_completion_expires r \<le> t then Inr False
         else if \<not> principal_ok r pb then Inl TAKEOVER_FORBIDDEN else Inr True)"

definition revoke_takeover :: "string \<Rightarrow> takeovers \<Rightarrow> takeovers" where
  "revoke_takeover i m = (case map_of m i of
       None \<Rightarrow> m | Some r \<Rightarrow> AList.update i (r\<lparr>tk_revoked := True\<rparr>) m)"

definition revoke_for_intervention :: "string \<Rightarrow> takeovers \<Rightarrow> takeovers" where
  "revoke_for_intervention i m =
     map (\<lambda>(k, r). (k, if tk_intervention r = i then r\<lparr>tk_revoked := True\<rparr> else r)) m"

section \<open>How records evolve\<close>

definition record_good :: "takeover \<Rightarrow> bool" where
  "record_good r \<longleftrightarrow> (case tk_client r of
       None \<Rightarrow> tk_generation r = 0 | Some b \<Rightarrow> client_shape b \<and> 1 \<le> tk_generation r)"

text \<open>What no operation undoes: the identity and the lease of a record are fixed, revocation and
  completion are permanent, the generation only grows, and a generation keeps its client.\<close>

definition record_le :: "takeover \<Rightarrow> takeover \<Rightarrow> bool" where
  "record_le r r' \<longleftrightarrow> tk_id r' = tk_id r \<and> tk_intervention r' = tk_intervention r
     \<and> tk_epoch r' = tk_epoch r \<and> tk_principal r' = tk_principal r \<and> tk_expires r' = tk_expires r
     \<and> (tk_revoked r \<longrightarrow> tk_revoked r') \<and> (tk_completed r \<longrightarrow> tk_completed r')
     \<and> tk_generation r \<le> tk_generation r'
     \<and> (tk_generation r' = tk_generation r \<longrightarrow> tk_client r' = tk_client r)
     \<and> (record_good r \<longrightarrow> record_good r')"

lemma record_le_refl [simp]: "record_le r r"
  by (simp add: record_le_def)

lemma record_le_trans: "record_le a b \<Longrightarrow> record_le b c \<Longrightarrow> record_le a c"
  by (auto simp: record_le_def)

lemma record_le_flags [simp]:
  "record_le r (r\<lparr>tk_released := b\<rparr>)"
  "record_le r (r\<lparr>tk_last_seen := x\<rparr>)"
  "record_le r (r\<lparr>tk_in_flight := n\<rparr>)"
  "record_le r (r\<lparr>tk_in_flight := n, tk_last_seen := x\<rparr>)"
  "record_le r (r\<lparr>tk_revoked := True\<rparr>)"
  "record_le r (r\<lparr>tk_completed := True, tk_revoked := True, tk_released := True\<rparr>)"
  "record_le r (r\<lparr>tk_completed := True, tk_revoked := True, tk_released := True, tk_completion_expires := t\<rparr>)"
  by (simp_all add: record_le_def record_good_def split: option.split)

definition evolves :: "takeovers \<Rightarrow> takeovers \<Rightarrow> bool" where
  "evolves m m' \<longleftrightarrow> (distinct (map fst m) \<longrightarrow> distinct (map fst m')
     \<and> (\<forall>k r'. map_of m' k = Some r' \<longrightarrow> (\<exists>r. map_of m k = Some r \<and> record_le r r')))"

lemma evolves_refl [simp]: "evolves m m"
  by (auto simp: evolves_def)

lemma evolves_trans: "evolves a b \<Longrightarrow> evolves b c \<Longrightarrow> evolves a c"
  unfolding evolves_def by (metis record_le_trans)

lemma evolves_update:
  "map_of m i = Some r \<Longrightarrow> record_le r r' \<Longrightarrow> evolves m (AList.update i r' m)"
  by (auto simp: evolves_def distinct_update update_conv')

lemma evolves_filter: "evolves m (filter P m)"
proof -
  have "distinct (map fst (filter P m))" if "distinct (map fst m)"
    using that by (rule distinct_map_filter)
  moreover have "map_of m k = Some r" if "distinct (map fst m)" "map_of (filter P m) k = Some r" for k r
    using that by (auto dest!: map_of_SomeD)
  ultimately show ?thesis by (fastforce simp: evolves_def)
qed

lemma map_fst_values [simp]: "map (fst \<circ> (\<lambda>(k, r). (k, f r))) m = map fst m"
  by (simp add: case_prod_beta comp_def)

lemma evolves_map:
  assumes "\<And>r. record_le r (f r)"
  shows "evolves m (map (\<lambda>(k, r). (k, f r)) m)"
proof -
  have "map_of (map (\<lambda>(k, r). (k, f r)) m) k = map_option f (map_of m k)" for k
    by (simp add: map_of_map)
  then show ?thesis using assms by (auto simp: evolves_def)
qed

lemma require_liveD: "require_live i t m = Inr r \<Longrightarrow> map_of m i = Some r \<and> \<not> tk_revoked r \<and> t < tk_expires r"
  by (auto simp: require_live_def split: option.splits if_splits)

lemma prune_evolves: "evolves m (prune_expired t m)"
  unfolding prune_expired_def by (rule evolves_filter)

lemma complete_evolves: "evolves m (snd (complete_takeover hmac i cap pb t1 t2 m))"
  by (auto simp: complete_takeover_def intro: evolves_update split: option.split)

lemma client_ok_shape: "client_ok r cb \<Longrightarrow> client_shape cb"
  by (simp add: client_ok_def)

lemma claim_evolves:
  assumes "\<forall>r. map_of m i = Some r \<longrightarrow> record_good r"
  shows "evolves m (snd (claim_client hmac i pb cb t1 t2 m))"
proof (cases "require_live i t1 m")
  case (Inr r)
  with assms have r: "map_of m i = Some r" "record_good r" by (auto dest: require_liveD)
  have "record_le r (r\<lparr>tk_client := Some cb, tk_generation := 1, tk_released := False, tk_last_seen := Some t2\<rparr>)"
    if "tk_client r = None" "client_shape cb"
    using r that by (simp add: record_le_def record_good_def)
  with Inr r show ?thesis
    by (auto simp: claim_client_def Let_def intro!: evolves_update split: option.split)
qed (simp add: claim_client_def)

lemma reconnect_evolves: "evolves m (snd (reconnect_client cfg hmac i pb h nb t1 t2 t3 m))"
proof (cases "require_live i t1 m")
  case (Inr r)
  then have r: "map_of m i = Some r" by (auto dest: require_liveD)
  have "record_le r (r\<lparr>tk_client := Some nb, tk_generation := tk_generation r + 1,
      tk_last_seen := Some t3, tk_released := False\<rparr>)"
    if "client_shape nb" "claimed r"
    using that by (simp add: record_le_def record_good_def claimed_def)
  with Inr r show ?thesis
    by (auto simp: reconnect_client_def Let_def intro!: evolves_update)
qed (simp add: reconnect_client_def)

lemma release_evolves: "evolves m (snd (release_client_generation i pb cb g t m))"
  by (auto simp: release_client_generation_def intro!: evolves_update dest: require_liveD split: sum.split)

lemma bound_use_evolves: "evolves m (snd (begin_bound_use i pb cb g t1 t2 m))"
  by (auto simp: begin_bound_use_def intro!: evolves_update dest: require_liveD split: sum.split)

lemma verify_evolves: "evolves m (snd (verify_takeover hmac i cap pb cb t1 t2 m))"
  by (auto simp: verify_takeover_def intro!: evolves_update dest: require_liveD split: sum.split)

lemma begin_use_evolves: "evolves m (snd (begin_use hmac i cap pb cb t1 t2 t3 m))"
proof -
  obtain res m1 where v: "verify_takeover hmac i cap pb cb t1 t2 m = (res, m1)" by fastforce
  then have first: "evolves m m1" using verify_evolves [of m hmac i cap pb cb t1 t2] by simp
  have "evolves m1 (AList.update i (r\<lparr>tk_in_flight := n\<rparr>) m1)" if "require_live i t3 m1 = Inr r" for r n
    using require_liveD [OF that] by (auto intro: evolves_update)
  with first v evolves_trans [OF first] show ?thesis
    by (simp add: begin_use_def split: sum.split)
qed

lemma end_use_evolves: "evolves m (end_use i pb cb g t1 t2 m)"
  by (auto simp: end_use_def intro!: evolves_update split: option.split)

lemma verified_evolves: "evolves m (snd (complete_after_verification cfg i e t1 t2 m))"
proof -
  have "evolves (prune_expired t1 m) (snd (complete_after_verification cfg i e t1 t2 m))"
    unfolding complete_after_verification_def Let_def by (simp, rule evolves_map) simp
  with prune_evolves show ?thesis by (rule evolves_trans)
qed

lemma revoke_evolves: "evolves m (revoke_takeover i m)"
  by (auto simp: revoke_takeover_def intro: evolves_update split: option.split)

lemma revoke_for_evolves: "evolves m (revoke_for_intervention i m)"
  unfolding revoke_for_intervention_def by (rule evolves_map) simp

text \<open>\<open>ensure\<close> prunes, and then either reuses a record or revokes the live ones of the
  intervention and adds a fresh one.\<close>

lemma ensure_cases:
  obtains (reused) k r where "snd (ensure_takeover cfg i e pb nid t1 t2 m) = prune_expired t1 m"
      "(k, r) \<in> set (prune_expired t1 m)" "ensure_matches i e pb t2 r"
      "fst (ensure_takeover cfg i e pb nid t1 t2 m) = locator_of r"
    | (fresh) m2 where "evolves m m2" "map fst m2 = map fst (prune_expired t1 m)"
      "snd (ensure_takeover cfg i e pb nid t1 t2 m) = AList.update nid (fresh_takeover cfg nid i e pb t2) m2"
      "\<forall>(k, r) \<in> set m2. tk_intervention r = i \<longrightarrow> tk_revoked r \<or> tk_expires r \<le> t2"
      "fst (ensure_takeover cfg i e pb nid t1 t2 m) = locator_of (fresh_takeover cfg nid i e pb t2)"
proof (cases "filter (\<lambda>(k, r). ensure_matches i e pb t2 r) (prune_expired t1 m)")
  case Nil
  let ?f = "\<lambda>r. if tk_intervention r = i \<and> t2 < tk_expires r then r\<lparr>tk_revoked := True\<rparr> else r"
  let ?m2 = "map (\<lambda>(k, r). (k, ?f r)) (prune_expired t1 m)"
  have "evolves (prune_expired t1 m) ?m2" by (rule evolves_map) simp
  then have "evolves m ?m2" using prune_evolves evolves_trans by blast
  moreover have "map fst ?m2 = map fst (prune_expired t1 m)" by (auto simp: case_prod_beta)
  moreover have "\<forall>(k, r) \<in> set ?m2. tk_intervention r = i \<longrightarrow> tk_revoked r \<or> tk_expires r \<le> t2"
    by (auto split: if_splits)
  ultimately show thesis
    using Nil by (intro fresh [of ?m2]) (simp_all add: ensure_takeover_def Let_def)
next
  case (Cons kr rest)
  obtain k r where kr: "kr = (k, r)" by (cases kr)
  have mem: "(k, r) \<in> set (filter (\<lambda>(k, r). ensure_matches i e pb t2 r) (prune_expired t1 m))"
    unfolding Cons kr by simp
  then have "(k, r) \<in> set (prune_expired t1 m)" "ensure_matches i e pb t2 r" by simp_all
  then show thesis
    using Cons kr by (intro reused [of k r]) (simp_all add: ensure_takeover_def Let_def)
qed

section \<open>Runs\<close>

text \<open>The manager and, as history, the ids it has used. \<open>createId\<close> (a random UUID) never
  repeats: a call with a used id does not occur.\<close>

datatype takeover_call =
    Ensure string int string string int int
  | Complete_session string string string int int
  | Claim_client string string string int int
  | Reconnect_client string string string string int int int
  | Release_generation string string string jsnum int
  | Begin_bound_use string string string jsnum int int
  | Verify_capability string string string string int int
  | Begin_use string string string string int int int
  | End_use string string string jsnum int int
  | Complete_verified string int int int
  | Revoke_session string
  | Revoke_intervention string

fun takeover_op :: "takeover_config \<Rightarrow> (string \<Rightarrow> string) \<Rightarrow> takeovers \<Rightarrow> takeover_call \<Rightarrow> takeovers" where
  "takeover_op cfg hmac m (Ensure i e pb nid t1 t2) = snd (ensure_takeover cfg i e pb nid t1 t2 m)"
| "takeover_op cfg hmac m (Complete_session i cap pb t1 t2) = snd (complete_takeover hmac i cap pb t1 t2 m)"
| "takeover_op cfg hmac m (Claim_client i pb cb t1 t2) = snd (claim_client hmac i pb cb t1 t2 m)"
| "takeover_op cfg hmac m (Reconnect_client i pb h nb t1 t2 t3) =
     snd (reconnect_client cfg hmac i pb h nb t1 t2 t3 m)"
| "takeover_op cfg hmac m (Release_generation i pb cb g t) = snd (release_client_generation i pb cb g t m)"
| "takeover_op cfg hmac m (Begin_bound_use i pb cb g t1 t2) = snd (begin_bound_use i pb cb g t1 t2 m)"
| "takeover_op cfg hmac m (Verify_capability i cap pb cb t1 t2) = snd (verify_takeover hmac i cap pb cb t1 t2 m)"
| "takeover_op cfg hmac m (Begin_use i cap pb cb t1 t2 t3) = snd (begin_use hmac i cap pb cb t1 t2 t3 m)"
| "takeover_op cfg hmac m (End_use i pb cb g t1 t2) = end_use i pb cb g t1 t2 m"
| "takeover_op cfg hmac m (Complete_verified i e t1 t2) = snd (complete_after_verification cfg i e t1 t2 m)"
| "takeover_op cfg hmac m (Revoke_session i) = revoke_takeover i m"
| "takeover_op cfg hmac m (Revoke_intervention i) = revoke_for_intervention i m"

fun new_id_of :: "takeover_call \<Rightarrow> string option" where
  "new_id_of (Ensure i e pb nid t1 t2) = Some nid"
| "new_id_of _ = None"

record takeover_world =
  tw_records :: takeovers
  tw_used :: "string list"

definition takeover_step ::
  "takeover_config \<Rightarrow> (string \<Rightarrow> string) \<Rightarrow> takeover_world \<Rightarrow> takeover_call \<Rightarrow> takeover_world" where
  "takeover_step cfg hmac s c = (case new_id_of c of
       None \<Rightarrow> s\<lparr>tw_records := takeover_op cfg hmac (tw_records s) c\<rparr>
     | Some nid \<Rightarrow>
         if nid \<in> set (tw_used s) then s
         else \<lparr>tw_records = takeover_op cfg hmac (tw_records s) c, tw_used = nid # tw_used s\<rparr>)"

definition takeovers_good :: "takeovers \<Rightarrow> bool" where
  "takeovers_good m \<longleftrightarrow> distinct (map fst m)
     \<and> (\<forall>k r. map_of m k = Some r \<longrightarrow> tk_id r = k \<and> record_good r)"

definition world_good :: "takeover_world \<Rightarrow> bool" where
  "world_good s \<longleftrightarrow> takeovers_good (tw_records s) \<and> fst ` set (tw_records s) \<subseteq> set (tw_used s)"

lemma takeovers_good_evolves: "takeovers_good m \<Longrightarrow> evolves m m' \<Longrightarrow> takeovers_good m'"
  unfolding takeovers_good_def evolves_def by (metis record_le_def)

lemma evolves_keys: "distinct (map fst m) \<Longrightarrow> evolves m m' \<Longrightarrow> fst ` set m' \<subseteq> fst ` set m"
proof
  fix k assume m: "distinct (map fst m)" "evolves m m'" and "k \<in> fst ` set m'"
  then obtain r where "map_of m' k = Some r" by (metis map_of_eq_None_iff not_None_eq)
  with m obtain r0 where "map_of m k = Some r0" unfolding evolves_def by blast
  then show "k \<in> fst ` set m" by (force dest: map_of_SomeD)
qed

lemma op_evolves:
  assumes "takeovers_good m" and "new_id_of c = None"
  shows "evolves m (takeover_op cfg hmac m c)"
  using assms
  by (cases c) (simp_all add: complete_evolves claim_evolves reconnect_evolves release_evolves
      bound_use_evolves verify_evolves begin_use_evolves end_use_evolves verified_evolves
      revoke_evolves revoke_for_evolves takeovers_good_def)

lemma takeovers_good_add:
  "takeovers_good m \<Longrightarrow> takeovers_good (AList.update nid (fresh_takeover cfg nid i e pb t) m)"
  by (auto simp: takeovers_good_def distinct_update update_conv' fresh_takeover_def record_good_def)

lemma ensure_good:
  assumes "takeovers_good m"
  shows "takeovers_good (snd (ensure_takeover cfg i e pb nid t1 t2 m))
    \<and> fst ` set (snd (ensure_takeover cfg i e pb nid t1 t2 m)) \<subseteq> insert nid (fst ` set m)"
proof (cases rule: ensure_cases [of cfg i e pb nid t1 t2 m])
  case (reused k r)
  have "fst ` set (prune_expired t1 m) \<subseteq> fst ` set m"
    using assms by (intro evolves_keys prune_evolves) (simp add: takeovers_good_def)
  with reused(1) takeovers_good_evolves [OF assms prune_evolves, of t1] show ?thesis by auto
next
  case (fresh m2)
  have "takeovers_good m2" by (rule takeovers_good_evolves [OF assms fresh(1)])
  moreover have "fst ` set m2 \<subseteq> fst ` set m"
    using assms fresh(1) by (intro evolves_keys) (simp_all add: takeovers_good_def)
  ultimately show ?thesis
    using fresh(3) by (auto simp: takeovers_good_add dom_update)
qed

lemma world_good_step [wf_intros]:
  assumes "world_good s"
  shows "world_good (takeover_step cfg hmac s c)"
proof (cases "new_id_of c")
  case None
  have ev: "evolves (tw_records s) (takeover_op cfg hmac (tw_records s) c)"
    using assms None by (intro op_evolves) (simp_all add: world_good_def)
  have "fst ` set (takeover_op cfg hmac (tw_records s) c) \<subseteq> fst ` set (tw_records s)"
    using assms by (intro evolves_keys ev) (simp add: world_good_def takeovers_good_def)
  also have "\<dots> \<subseteq> set (tw_used s)" using assms by (simp add: world_good_def)
  finally show ?thesis
    using assms None takeovers_good_evolves [OF _ ev] by (simp add: takeover_step_def world_good_def)
next
  case (Some nid)
  then obtain i e pb t1 t2 where c: "c = Ensure i e pb nid t1 t2" by (cases c) auto
  have good: "takeovers_good (tw_records s)" "fst ` set (tw_records s) \<subseteq> set (tw_used s)"
    using assms by (simp_all add: world_good_def)
  note ensured = ensure_good [OF good(1), of cfg i e pb nid t1 t2]
  then have "fst ` set (snd (ensure_takeover cfg i e pb nid t1 t2 (tw_records s))) \<subseteq> insert nid (set (tw_used s))"
    using insert_mono [OF good(2)] subset_trans by blast
  with assms ensured c show ?thesis by (simp add: takeover_step_def world_good_def)
qed

interpretation takeover_world: guarded_machine "takeover_step cfg hmac" world_good for cfg hmac
  by unfold_locales (rule world_good_step)

text \<open>What a step does to the record of a given id.\<close>

lemma step_record:
  assumes good: "world_good s" and k: "k \<in> set (tw_used s)"
    and r': "map_of (tw_records (takeover_step cfg hmac s c)) k = Some r'"
  shows "\<exists>r. map_of (tw_records s) k = Some r \<and> record_le r r'"
proof -
  have good': "takeovers_good (tw_records s)" "distinct (map fst (tw_records s))"
    using good by (simp_all add: world_good_def takeovers_good_def)
  have ev: "\<exists>r. map_of (tw_records s) k = Some r \<and> record_le r r'"
    if "evolves (tw_records s) m" "map_of m k = Some r'" for m
    using that good'(2) unfolding evolves_def by blast
  show ?thesis
  proof (cases "new_id_of c")
    case None
    show ?thesis
      by (rule ev [OF op_evolves [OF good'(1) None, of cfg hmac]])
        (use r' None in \<open>simp add: takeover_step_def\<close>)
  next
    case (Some nid)
    then obtain i e pb t1 t2 where c: "c = Ensure i e pb nid t1 t2" by (cases c) auto
    show ?thesis
    proof (cases "nid \<in> set (tw_used s)")
      case True
      then show ?thesis using ev [OF evolves_refl] r' c by (simp add: takeover_step_def)
    next
      case False
      then have "k \<noteq> nid" using k by auto
      show ?thesis
      proof (cases rule: ensure_cases [of cfg i e pb nid t1 t2 "tw_records s"])
        case reused
        show ?thesis
          by (rule ev [OF prune_evolves [of _ t1]])
            (use r' c False reused(1) in \<open>simp add: takeover_step_def\<close>)
      next
        case (fresh m2)
        show ?thesis
          by (rule ev [OF fresh(1)])
            (use r' c False fresh(3) \<open>k \<noteq> nid\<close> in \<open>simp add: takeover_step_def update_conv'\<close>)
      qed
    qed
  qed
qed

lemma used_step: "k \<in> set (tw_used s) \<Longrightarrow> k \<in> set (tw_used (takeover_step cfg hmac s c))"
  by (simp add: takeover_step_def split: option.split)

text \<open>Every later record of a used id comes from the record there was.\<close>

lemma run_record:
  "world_good s \<Longrightarrow> k \<in> set (tw_used s) \<Longrightarrow>
     map_of (tw_records (run (takeover_step cfg hmac) s cs)) k = Some r' \<Longrightarrow>
     \<exists>r. map_of (tw_records s) k = Some r \<and> record_le r r'"
proof (induction cs arbitrary: s)
  case (Cons c cs)
  then obtain q where "map_of (tw_records (takeover_step cfg hmac s c)) k = Some q" "record_le q r'"
    using Cons.IH [OF world_good_step [OF Cons.prems(1)] used_step [OF Cons.prems(2)], of cfg hmac c] by auto
  with step_record [OF Cons.prems(1,2)] record_le_trans show ?case by blast
qed simp

text \<open>A superseded client generation, and a revoked session, never come back.\<close>

definition superseded :: "string \<Rightarrow> int \<Rightarrow> takeover_world \<Rightarrow> bool" where
  "superseded k g s \<longleftrightarrow> world_good s \<and> k \<in> set (tw_used s)
     \<and> (\<forall>r. map_of (tw_records s) k = Some r \<longrightarrow> g < tk_generation r)"

definition ended :: "string \<Rightarrow> takeover_world \<Rightarrow> bool" where
  "ended k s \<longleftrightarrow> world_good s \<and> k \<in> set (tw_used s)
     \<and> (\<forall>r. map_of (tw_records s) k = Some r \<longrightarrow> tk_revoked r)"

lemma superseded_step: "superseded k g s \<Longrightarrow> superseded k g (takeover_step cfg hmac s c)"
proof -
  assume old: "superseded k g s"
  have "g < tk_generation r'" if r': "map_of (tw_records (takeover_step cfg hmac s c)) k = Some r'" for r'
  proof -
    obtain r where "map_of (tw_records s) k = Some r" "record_le r r'"
      using step_record [OF _ _ r'] old unfolding superseded_def by blast
    with old show ?thesis by (force simp: superseded_def record_le_def)
  qed
  with old show ?thesis by (simp add: superseded_def world_good_step used_step)
qed

lemma ended_step: "ended k s \<Longrightarrow> ended k (takeover_step cfg hmac s c)"
proof -
  assume old: "ended k s"
  have "tk_revoked r'" if r': "map_of (tw_records (takeover_step cfg hmac s c)) k = Some r'" for r'
  proof -
    obtain r where "map_of (tw_records s) k = Some r" "record_le r r'"
      using step_record [OF _ _ r'] old unfolding ended_def by blast
    with old show ?thesis by (force simp: ended_def record_le_def)
  qed
  with old show ?thesis by (simp add: ended_def world_good_step used_step)
qed

interpretation superseded: guarded_machine "takeover_step cfg hmac" "superseded k g" for cfg hmac k g
  by unfold_locales (rule superseded_step)

interpretation ended: guarded_machine "takeover_step cfg hmac" "ended k" for cfg hmac k
  by unfold_locales (rule ended_step)

section \<open>Capabilities\<close>

definition plain_record :: "takeover \<Rightarrow> bool" where
  "plain_record r \<longleftrightarrow> nul_free (tk_id r) \<and> nul_free (tk_intervention r) \<and> nul_free (tk_principal r)
     \<and> (\<forall>b. tk_client r = Some b \<longrightarrow> nul_free b)"

lemma url_text_nul_free: "url_text lo hi s \<Longrightarrow> nul_free s"
proof -
  assume "url_text lo hi s"
  then have "list_all is_url_char s" by (simp add: url_text_def)
  moreover have "is_url_char c \<Longrightarrow> char_code c \<noteq> 0" for c
    by (auto simp: is_url_char_def is_alnum_def Let_def char_code_def)
  ultimately show "nul_free s" by (auto simp: nul_free_def list_all_iff)
qed

lemma client_shape_nul_free: "client_shape b \<Longrightarrow> nul_free b"
  by (simp add: client_shape_def url_text_nul_free)

lemma nul_prepend: "nul # x = [] @ nul # x"
  by simp

text \<open>The authenticated text of a claimed record determines every field it names.\<close>

lemma bound_text_inj:
  assumes "plain_record r" and "plain_record r'" and "claimed r" and "claimed r'"
  shows "bound_text tag r = bound_text tag r' \<longleftrightarrow> tk_id r = tk_id r' \<and> tk_intervention r = tk_intervention r'
    \<and> tk_epoch r = tk_epoch r' \<and> tk_principal r = tk_principal r' \<and> tk_client r = tk_client r'
    \<and> tk_generation r = tk_generation r' \<and> tk_expires r = tk_expires r'"
proof -
  obtain b b' where "tk_client r = Some b" "tk_client r' = Some b'"
    using assms by (auto simp: claimed_def)
  with assms show ?thesis
    by (simp add: bound_text_def plain_record_def separated_inj)
qed

lemma plain_record_le: "record_le r r' \<Longrightarrow> record_good r \<Longrightarrow> plain_record r \<Longrightarrow> plain_record r'"
  by (auto simp: record_le_def plain_record_def record_good_def client_shape_nul_free split: option.splits)

text \<open>The three texts are separated by their tags.\<close>

lemma texts_disjoint:
  "capability_text r \<noteq> reconnect_text r'"
  "capability_text r \<noteq> completion_text r'"
  "reconnect_text r \<noteq> completion_text r'"
  by (simp_all add: capability_text_def reconnect_text_def completion_text_def bound_text_def)

lemma verify_ok:
  assumes "fst (verify_takeover hmac i cap pb cb t1 t2 m) = Inr u"
  obtains r where "map_of m i = Some r" "\<not> tk_revoked r" "t1 < tk_expires r" "\<not> tk_released r"
    "tk_principal r = pb" "tk_client r = Some cb" "claimed r" "cap = hmac (capability_text r)" "u = use_of r"
proof -
  obtain r where live: "require_live i t1 m = Inr r"
    using assms by (cases "require_live i t1 m") (simp_all add: verify_takeover_def)
  with assms have r: "principal_ok r pb" "client_ok r cb" "\<not> tk_released r"
    by (auto simp: verify_takeover_def split: if_splits)
  with live assms have "claimed r" "cap = hmac (capability_text r)" "u = use_of r"
    by (auto simp: verify_takeover_def capability_for_def split: if_splits)
  with r require_liveD [OF live] show thesis
    by (intro that [of r]) (auto simp: principal_ok_def client_ok_def split: option.splits)
qed

lemma bound_use_ok:
  assumes "fst (begin_bound_use i pb cb g t1 t2 m) = Inr u"
  obtains r where "map_of m i = Some r" "\<not> tk_revoked r" "t1 < tk_expires r" "\<not> tk_released r"
    "tk_principal r = pb" "tk_client r = Some cb" "g = num_of_int (tk_generation r)" "u = use_of r"
proof -
  obtain r where live: "require_live i t1 m = Inr r"
    using assms by (cases "require_live i t1 m") (simp_all add: begin_bound_use_def)
  with assms have r: "principal_ok r pb" "client_ok r cb" "\<not> tk_released r"
      "num_eq (num_of_int (tk_generation r)) g" "u = use_of r"
    by (auto simp: begin_bound_use_def split: if_splits)
  then have "g = num_of_int (tk_generation r)" by (cases g) auto
  with r require_liveD [OF live] show thesis
    by (intro that [of r]) (auto simp: principal_ok_def client_ok_def split: option.splits)
qed

section \<open>One live session per intervention\<close>

definition unique_live :: "int \<Rightarrow> takeovers \<Rightarrow> bool" where
  "unique_live t m \<longleftrightarrow> (\<forall>k k' r r'. map_of m k = Some r \<and> map_of m k' = Some r' \<and> k \<noteq> k'
     \<and> tk_intervention r = tk_intervention r' \<and> \<not> tk_revoked r \<and> \<not> tk_revoked r'
     \<longrightarrow> tk_expires r \<le> t \<or> tk_expires r' \<le> t)"

text \<open>The clock does not run backwards between the calls of \<open>ensure\<close>.\<close>

fun clock_monotone :: "int \<Rightarrow> takeover_call list \<Rightarrow> bool" where
  "clock_monotone t [] = True"
| "clock_monotone t (Ensure i e pb nid t1 t2 # cs) = (t \<le> t2 \<and> clock_monotone t2 cs)"
| "clock_monotone t (_ # cs) = clock_monotone t cs"

fun last_clock :: "int \<Rightarrow> takeover_call list \<Rightarrow> int" where
  "last_clock t [] = t"
| "last_clock t (Ensure i e pb nid t1 t2 # cs) = last_clock t2 cs"
| "last_clock t (_ # cs) = last_clock t cs"

lemma unique_live_evolves:
  assumes "distinct (map fst m)" and "evolves m m'" and "unique_live t m"
  shows "unique_live t m'"
  unfolding unique_live_def
proof (intro allI impI)
  fix k k' r r'
  assume *: "map_of m' k = Some r \<and> map_of m' k' = Some r' \<and> k \<noteq> k'
    \<and> tk_intervention r = tk_intervention r' \<and> \<not> tk_revoked r \<and> \<not> tk_revoked r'"
  then obtain q q' where q: "map_of m k = Some q" "record_le q r" "map_of m k' = Some q'" "record_le q' r'"
    using assms(1,2) unfolding evolves_def by blast
  with * have "tk_intervention q = tk_intervention q' \<and> \<not> tk_revoked q \<and> \<not> tk_revoked q'"
    by (auto simp: record_le_def)
  with assms(3) * q have "tk_expires q \<le> t \<or> tk_expires q' \<le> t"
    unfolding unique_live_def by blast
  with q show "tk_expires r \<le> t \<or> tk_expires r' \<le> t" by (simp add: record_le_def)
qed

lemma unique_live_later: "unique_live t m \<Longrightarrow> t \<le> t' \<Longrightarrow> unique_live t' m"
  unfolding unique_live_def by (meson order_trans)

lemma unique_live_add:
  assumes "unique_live t m"
    and "\<forall>(k, r) \<in> set m. tk_intervention r = i \<longrightarrow> tk_revoked r \<or> tk_expires r \<le> t"
    and "tk_intervention new = i"
  shows "unique_live t (AList.update nid new m)"
  unfolding unique_live_def
proof (intro allI impI)
  fix k k' r r'
  assume *: "map_of (AList.update nid new m) k = Some r \<and> map_of (AList.update nid new m) k' = Some r' \<and> k \<noteq> k'
    \<and> tk_intervention r = tk_intervention r' \<and> \<not> tk_revoked r \<and> \<not> tk_revoked r'"
  have other: "tk_expires q \<le> t" if "map_of m j = Some q" "tk_intervention q = i" "\<not> tk_revoked q" for j q
    using assms(2) map_of_SomeD [OF that(1)] that(2,3) by auto
  show "tk_expires r \<le> t \<or> tk_expires r' \<le> t"
  proof (cases "k = nid \<or> k' = nid")
    case True
    with * other assms(3) show ?thesis by (auto simp: update_conv' split: if_splits)
  next
    case False
    with * have "map_of m k = Some r" "map_of m k' = Some r'" by (auto simp: update_conv')
    with * assms(1) show ?thesis unfolding unique_live_def by blast
  qed
qed

lemma unique_live_step:
  assumes good: "world_good s" and unique: "unique_live t (tw_records s)" and clock: "clock_monotone t (c # cs)"
  shows "unique_live (last_clock t [c]) (tw_records (takeover_step cfg hmac s c))
    \<and> clock_monotone (last_clock t [c]) cs"
proof -
  have m: "takeovers_good (tw_records s)" "distinct (map fst (tw_records s))"
    using good by (simp_all add: world_good_def takeovers_good_def)
  show ?thesis
  proof (cases "new_id_of c")
    case None
    have "unique_live t (takeover_op cfg hmac (tw_records s) c)"
      using m(2) op_evolves [OF m(1) None] unique by (rule unique_live_evolves)
    with None clock show ?thesis by (cases c) (simp_all add: takeover_step_def)
  next
    case (Some nid)
    then obtain i e pb t1 t2 where c: "c = Ensure i e pb nid t1 t2" by (cases c) auto
    with clock have later: "unique_live t2 (tw_records s)" "clock_monotone t2 cs"
      using unique unique_live_later by auto
    have "unique_live t2 (snd (ensure_takeover cfg i e pb nid t1 t2 (tw_records s)))"
    proof (cases rule: ensure_cases [of cfg i e pb nid t1 t2 "tw_records s"])
      case reused
      with unique_live_evolves [OF m(2) prune_evolves later(1)] show ?thesis by simp
    next
      case (fresh m2)
      have "unique_live t2 m2" using m(2) fresh(1) later(1) by (rule unique_live_evolves)
      then show ?thesis
        unfolding fresh(3) using fresh(4) by (rule unique_live_add) (simp add: fresh_takeover_def)
    qed
    with c later show ?thesis by (simp add: takeover_step_def)
  qed
qed

lemma last_clock_cons: "last_clock (last_clock t [c]) cs = last_clock t (c # cs)"
  by (cases c) simp_all

lemma unique_live_run:
  "world_good s \<Longrightarrow> unique_live t (tw_records s) \<Longrightarrow> clock_monotone t cs \<Longrightarrow>
     unique_live (last_clock t cs) (tw_records (run (takeover_step cfg hmac) s cs))"
proof (induction cs arbitrary: s t)
  case (Cons c cs)
  note step = unique_live_step [OF Cons.prems, of cfg hmac]
  have "unique_live (last_clock (last_clock t [c]) cs)
      (tw_records (run (takeover_step cfg hmac) (takeover_step cfg hmac s c) cs))"
    using step world_good_step [OF Cons.prems(1), of cfg hmac c] by (intro Cons.IH) simp_all
  then show ?case by (simp add: last_clock_cons)
qed simp

text \<open>A reconnection moves to the next generation, for the holder of the current handle only, and
  only when no use is in flight and the client is released or idle.\<close>

lemma reconnect_ok:
  assumes "fst (reconnect_client cfg hmac i pb h nb t1 t2 t3 m) = Inr g"
  obtains r where "map_of m i = Some r" "\<not> tk_revoked r" "t1 < tk_expires r" "tk_principal r = pb"
    "claimed r" "h = hmac (reconnect_text r)" "tk_in_flight r = 0"
    "tk_released r \<or> tc_idle cfg \<le> max 0 (t2 - the (tk_last_seen r))" "client_shape nb"
    "tg_generation g = tk_generation r + 1" "tg_client g = nb"
    "snd (reconnect_client cfg hmac i pb h nb t1 t2 t3 m) = AList.update i (r\<lparr>tk_client := Some nb,
       tk_generation := tk_generation r + 1, tk_last_seen := Some t3, tk_released := False\<rparr>) m"
proof -
  obtain r where live: "require_live i t1 m = Inr r"
    using assms by (cases "require_live i t1 m") (simp_all add: reconnect_client_def)
  with assms have c: "tk_principal r = pb" "client_shape nb" "claimed r" "h = hmac (reconnect_text r)"
      "tk_in_flight r = 0" "tk_released r \<or> tc_idle cfg \<le> max 0 (t2 - the (tk_last_seen r))"
      "handle_shape h" "tk_last_seen r \<notin> {None, Some 0}"
    by (auto simp: reconnect_client_def principal_ok_def not_less split: if_splits)
  let ?r = "r\<lparr>tk_client := Some nb, tk_generation := tk_generation r + 1, tk_last_seen := Some t3,
    tk_released := False\<rparr>"
  have "reconnect_client cfg hmac i pb h nb t1 t2 t3 m = (grant_of hmac ?r, AList.update i ?r m)"
    using live c by (auto simp: reconnect_client_def principal_ok_def Let_def)
  moreover from this assms have "tg_generation g = tk_generation r + 1" "tg_client g = nb"
    by (auto simp: grant_of_def split: if_splits)
  ultimately show thesis
    using require_liveD [OF live] c by (intro that [of r]) simp_all
qed

section \<open>Properties\<close>

definition empty_world :: takeover_world where
  "empty_world = \<lparr>tw_records = [], tw_used = []\<rparr>"

lemma world_good_empty [simp]: "world_good empty_world"
  by (simp add: empty_world_def world_good_def takeovers_good_def)

text \<open>A session claimed by a client, which released it.\<close>

definition sample_config :: takeover_config where
  "sample_config = \<lparr>tc_ttl = 60000, tc_idle = 5000, tc_grace = 60000\<rparr>"

definition sample_hmac :: "string \<Rightarrow> string" where
  "sample_hmac t = replicate 40 CHR ''m''"

definition client_a :: string where "client_a = replicate 24 CHR ''a''"
definition client_b :: string where "client_b = replicate 24 CHR ''b''"

definition sample_takeover_calls :: "takeover_call list" where
  "sample_takeover_calls = [Ensure ''i1'' 2 ''p1'' ''t1'' 1 1, Claim_client ''t1'' ''p1'' client_a 2 2,
     Release_generation ''t1'' ''p1'' client_a (num_of_int 1) 3]"

definition sample_takeover :: takeover where
  "sample_takeover = \<lparr>tk_id = ''t1'', tk_intervention = ''i1'', tk_epoch = 2, tk_principal = ''p1'',
     tk_expires = 60001, tk_completion_expires = 120001, tk_revoked = False, tk_completed = False,
     tk_client = Some client_a, tk_generation = 1, tk_last_seen = Some 2, tk_in_flight = 0, tk_released = True\<rparr>"

definition sample_world :: takeover_world where
  "sample_world = \<lparr>tw_records = [(''t1'', sample_takeover)], tw_used = [''t1'']\<rparr>"

lemma sample_shapes [simp]:
  "client_shape client_a" "client_shape client_b" "handle_shape (sample_hmac t)"
  by (simp_all add: client_shape_def handle_shape_def url_text_def client_a_def client_b_def sample_hmac_def
      list_all_iff is_url_char_def is_alnum_def char_code_def)

lemma sample_clients [simp]: "client_a \<noteq> []" "client_b \<noteq> []"
  by (simp_all add: client_a_def client_b_def)

lemma sample_world_run: "sample_world = run (takeover_step sample_config sample_hmac) empty_world sample_takeover_calls"
  by (simp add: sample_world_def sample_takeover_calls_def takeover_step_def empty_world_def ensure_takeover_def
      prune_expired_def claim_client_def require_live_def fresh_takeover_def principal_ok_def
      release_client_generation_def client_ok_def sample_takeover_def sample_config_def Let_def)

lemma sample_reconnects:
  "is_ok (fst (reconnect_client sample_config sample_hmac ''t1'' ''p1'' (sample_hmac t) client_b 4 4 4
     (tw_records sample_world)))"
  by (simp add: reconnect_client_def sample_world_def require_live_def sample_takeover_def principal_ok_def
      claimed_def grant_of_def Let_def) (simp add: sample_hmac_def)

lemma reconnect_supersedes:
  assumes "world_good s" and "fst (reconnect_client cfg hmac k pb h nb t1 t2 t3 (tw_records s)) = Inr g"
    and "n < tg_generation g"
  shows "superseded k n (takeover_step cfg hmac s (Reconnect_client k pb h nb t1 t2 t3))"
proof -
  obtain r where r: "map_of (tw_records s) k = Some r" "tg_generation g = tk_generation r + 1"
      "snd (reconnect_client cfg hmac k pb h nb t1 t2 t3 (tw_records s)) = AList.update k (r\<lparr>tk_client := Some nb,
         tk_generation := tk_generation r + 1, tk_last_seen := Some t3, tk_released := False\<rparr>) (tw_records s)"
    using assms(2) by (elim reconnect_ok)
  have "k \<in> set (tw_used s)"
    using assms(1) map_of_SomeD [OF r(1)] by (force simp: world_good_def)
  with r assms(3) world_good_step [OF assms(1), of cfg hmac "Reconnect_client k pb h nb t1 t2 t3"]
  show ?thesis by (simp add: superseded_def takeover_step_def update_conv')
qed

text \<open>A reconnection supersedes every earlier client for good. After a client reconnected to a session, in any
  later state: a use or a release under an earlier generation is refused, and a capability is accepted only if it
  is the keyed hash of the session's current record, whose generation is at least the reconnected one.\<close>

theorem superseded_client_refused:
  assumes "s = run (takeover_step cfg hmac) empty_world cs"
    and "fst (reconnect_client cfg hmac k pb h nb t1 t2 t3 (tw_records s)) = Inr gr"
    and "s' = run (takeover_step cfg hmac) (takeover_step cfg hmac s (Reconnect_client k pb h nb t1 t2 t3)) ds"
    and "g < tg_generation gr"
  shows "isl (fst (begin_bound_use k pb' cb (num_of_int g) u1 u2 (tw_records s')))
    \<and> isl (fst (release_client_generation k pb' cb (num_of_int g) u1 (tw_records s')))
    \<and> (case fst (verify_takeover hmac k cap pb' cb u1 u2 (tw_records s')) of
         Inl _ \<Rightarrow> True
       | Inr u \<Rightarrow> g < us_generation u \<and> (\<exists>r. map_of (tw_records s') k = Some r
           \<and> us_generation u = tk_generation r \<and> cap = hmac (capability_text r)))"
proof -
  have "world_good s" using takeover_world.good_run [OF world_good_empty] assms(1) by blast
  from superseded.good_run [OF reconnect_supersedes [OF this assms(2,4)]]
  have later: "superseded k g s'" using assms(3) by blast
  have "isl (fst (begin_bound_use k pb' cb (num_of_int g) u1 u2 (tw_records s')))"
    using later bound_use_ok [of k pb' cb "num_of_int g" u1 u2 "tw_records s'"]
    by (cases "fst (begin_bound_use k pb' cb (num_of_int g) u1 u2 (tw_records s'))")
      (force simp: superseded_def)+
  moreover have "isl (fst (release_client_generation k pb' cb (num_of_int g) u1 (tw_records s')))"
    using later require_liveD [of k u1 "tw_records s'"]
    by (auto simp: release_client_generation_def superseded_def split: sum.split)
  moreover have "g < us_generation u \<and> (\<exists>r. map_of (tw_records s') k = Some r
      \<and> us_generation u = tk_generation r \<and> cap = hmac (capability_text r))"
    if u: "fst (verify_takeover hmac k cap pb' cb u1 u2 (tw_records s')) = Inr u" for u
  proof -
    obtain r where "map_of (tw_records s') k = Some r" "cap = hmac (capability_text r)" "u = use_of r"
      using u by (elim verify_ok)
    with later show ?thesis by (auto simp: superseded_def use_of_def)
  qed
  ultimately show ?thesis by (simp split: sum.split)
qed

theorem superseded_client_refused_witness:
  "isl (fst (begin_bound_use ''t1'' ''p1'' client_a (num_of_int 1) 5 5 (tw_records
     (takeover_step sample_config sample_hmac sample_world
        (Reconnect_client ''t1'' ''p1'' (sample_hmac []) client_b 4 4 4)))))"
proof -
  obtain gr where gr: "fst (reconnect_client sample_config sample_hmac ''t1'' ''p1'' (sample_hmac []) client_b 4 4 4
     (tw_records sample_world)) = Inr gr"
    using sample_reconnects by (metis sum.collapse(2))
  moreover from gr obtain r where "map_of (tw_records sample_world) ''t1'' = Some r"
      "tg_generation gr = tk_generation r + 1"
    by (elim reconnect_ok)
  then have "1 < tg_generation gr" by (auto simp: sample_world_def sample_takeover_def)
  ultimately show ?thesis
    using superseded_client_refused [OF sample_world_run gr, of _ "[]" 1 "''p1''" client_a 5 5] by simp
qed

text \<open>C25. An ended session never comes back. Once a session was revoked, or completed with its completion
  capability, nothing that follows makes it usable: validation, claims, reconnections, uses and verifications
  of it are refused in every later state.\<close>

theorem ended_session_stays_ended:
  assumes "s = run (takeover_step cfg hmac) empty_world cs" and "map_of (tw_records s) k = Some r"
    and "c = Revoke_session k \<or> c = Revoke_intervention (tk_intervention r)
      \<or> c = Complete_session k cap pb t1 t2 \<and> is_ok (fst (complete_takeover hmac k cap pb t1 t2 (tw_records s)))"
    and "s' = run (takeover_step cfg hmac) (takeover_step cfg hmac s c) ds"
  shows "isl (validate_locator k pb' u1 (tw_records s'))
    \<and> isl (fst (claim_client hmac k pb' cb u1 u2 (tw_records s')))
    \<and> isl (fst (reconnect_client cfg hmac k pb' h cb u1 u2 u3 (tw_records s')))
    \<and> isl (fst (begin_bound_use k pb' cb g u1 u2 (tw_records s')))
    \<and> isl (fst (begin_use hmac k cap' pb' cb u1 u2 u3 (tw_records s')))
    \<and> isl (fst (verify_takeover hmac k cap' pb' cb u1 u2 (tw_records s')))"
proof -
  have good: "world_good s" using takeover_world.good_run [OF world_good_empty] assms(1) by blast
  have "k \<in> set (tw_used s)"
    using good map_of_SomeD [OF assms(2)] by (force simp: world_good_def)
  moreover have "tk_revoked r'" if "map_of (tw_records (takeover_step cfg hmac s c)) k = Some r'" for r'
    using assms(3)
  proof (elim disjE conjE)
    assume "c = Revoke_session k"
    with that assms(2) show ?thesis
      by (auto simp: takeover_step_def revoke_takeover_def update_conv')
  next
    assume "c = Revoke_intervention (tk_intervention r)"
    with that assms(2) show ?thesis
      by (auto simp: takeover_step_def revoke_for_intervention_def map_of_map split: if_splits)
  next
    assume "c = Complete_session k cap pb t1 t2"
      and "is_ok (fst (complete_takeover hmac k cap pb t1 t2 (tw_records s)))"
    with that assms(2) show ?thesis
      by (auto simp: takeover_step_def complete_takeover_def update_conv' split: if_splits)
  qed
  ultimately have "ended k (takeover_step cfg hmac s c)"
    using world_good_step [OF good] used_step by (simp add: ended_def)
  then have "ended k s'" using ended.good_run assms(4) by blast
  then have "isl (require_live k u (tw_records s'))" for u
    by (auto simp: ended_def require_live_def split: option.split)
  then obtain e where e: "require_live k u1 (tw_records s') = Inl e" by (meson isl_def)
  show ?thesis
    by (simp add: validate_locator_def claim_client_def reconnect_client_def begin_bound_use_def begin_use_def
        verify_takeover_def e)
qed

theorem ended_session_stays_ended_witness:
  "isl (fst (reconnect_client sample_config sample_hmac ''t1'' ''p1'' (sample_hmac []) client_b 4 4 4
     (tw_records (takeover_step sample_config sample_hmac sample_world (Revoke_session ''t1'')))))"
  using ended_session_stays_ended [OF sample_world_run, where k = "''t1''" and r = sample_takeover
      and c = "Revoke_session ''t1''" and ds = "[]" and pb' = "''p1''" and cb = client_b
      and h = "sample_hmac []" and ?u1.0 = 4 and ?u2.0 = 4 and ?u3.0 = 4, OF _ _ refl]
  by (simp add: sample_world_def)

text \<open>Credentials are used up by a reconnection. If, after a reconnection, the handle it was made with is
  accepted for another reconnection, or the capability of the earlier client is accepted, in any later state, then
  the keyed hash took the same value on two different texts. With a hash that does not, every earlier handle and
  capability of the session is dead.\<close>

theorem reconnection_rotates_credentials:
  assumes "s = run (takeover_step cfg hmac) empty_world cs"
    and "map_of (tw_records s) k = Some r" and "plain_record r"
    and "is_ok (fst (reconnect_client cfg hmac k pb h nb t1 t2 t3 (tw_records s)))"
    and "s' = run (takeover_step cfg hmac) (takeover_step cfg hmac s (Reconnect_client k pb h nb t1 t2 t3)) ds"
    and "is_ok (fst (reconnect_client cfg hmac k pb' h nb' u1 u2 u3 (tw_records s')))
      \<or> is_ok (fst (verify_takeover hmac k (hmac (capability_text r)) pb' cb u1 u2 (tw_records s')))"
  shows "\<exists>tag r'. map_of (tw_records s') k = Some r' \<and> bound_text tag r \<noteq> bound_text tag r'
    \<and> hmac (bound_text tag r) = hmac (bound_text tag r')"
proof -
  have good: "world_good s" using takeover_world.good_run [OF world_good_empty] assms(1) by blast
  obtain gr where gr: "fst (reconnect_client cfg hmac k pb h nb t1 t2 t3 (tw_records s)) = Inr gr"
    using assms(4) by (metis sum.collapse(2))
  then have h: "h = hmac (reconnect_text r)" "claimed r" "tg_generation gr = tk_generation r + 1"
    using assms(2) by (auto elim!: reconnect_ok)
  let ?s1 = "takeover_step cfg hmac s (Reconnect_client k pb h nb t1 t2 t3)"
  have later: "superseded k (tk_generation r) s'"
    using superseded.good_run [OF reconnect_supersedes [OF good gr]] h(3) assms(5) by auto
  have differ: "bound_text tag r \<noteq> bound_text tag r'"
    if r': "map_of (tw_records s') k = Some r'" and "claimed r'" for r' tag
  proof -
    have used: "k \<in> set (tw_used s)"
      using map_of_SomeD [OF assms(2)] good by (force simp: world_good_def)
    have "map_of (tw_records (run (takeover_step cfg hmac) s (Reconnect_client k pb h nb t1 t2 t3 # ds))) k = Some r'"
      using r' assms(5) by simp
    from run_record [OF good used this] assms(2) have "record_le r r'" by simp
    moreover have "record_good r"
      using good assms(2) unfolding world_good_def takeovers_good_def by blast
    ultimately have "plain_record r'" using assms(3) by (rule plain_record_le)
    note texts = bound_text_inj [OF assms(3) this h(2) that(2), of tag]
    have "tk_generation r < tk_generation r'" using later r' unfolding superseded_def by blast
    with texts show ?thesis by auto
  qed
  from assms(6) show ?thesis
  proof
    assume "is_ok (fst (reconnect_client cfg hmac k pb' h nb' u1 u2 u3 (tw_records s')))"
    then obtain g where "fst (reconnect_client cfg hmac k pb' h nb' u1 u2 u3 (tw_records s')) = Inr g"
      by (metis sum.collapse(2))
    then obtain r' where "map_of (tw_records s') k = Some r'" "claimed r'" "h = hmac (reconnect_text r')"
      by (elim reconnect_ok)
    with differ h(1) show ?thesis unfolding reconnect_text_def by blast
  next
    assume "is_ok (fst (verify_takeover hmac k (hmac (capability_text r)) pb' cb u1 u2 (tw_records s')))"
    then obtain u where "fst (verify_takeover hmac k (hmac (capability_text r)) pb' cb u1 u2 (tw_records s')) = Inr u"
      by (metis sum.collapse(2))
    then obtain r' where "map_of (tw_records s') k = Some r'" "claimed r'"
        "hmac (capability_text r) = hmac (capability_text r')"
      by (elim verify_ok)
    with differ show ?thesis unfolding capability_text_def by blast
  qed
qed

theorem reconnection_rotates_credentials_witness:
  "\<exists>tag r'. bound_text tag sample_takeover \<noteq> bound_text tag r'
     \<and> sample_hmac (bound_text tag sample_takeover) = sample_hmac (bound_text tag r')"
proof -
  let ?c = "Reconnect_client ''t1'' ''p1'' (sample_hmac []) client_b 4 4 4"
  have first: "map_of (tw_records sample_world) ''t1'' = Some sample_takeover" by (simp add: sample_world_def)
  have plain: "plain_record sample_takeover"
    using client_shape_nul_free [OF sample_shapes(1)]
    by (simp add: plain_record_def sample_takeover_def char_code_def)
  have "tw_records (takeover_step sample_config sample_hmac sample_world ?c) = [(''t1'',
      sample_takeover\<lparr>tk_client := Some client_b, tk_generation := 2, tk_last_seen := Some 4, tk_released := False\<rparr>)]"
    by (simp add: takeover_step_def reconnect_client_def sample_world_def require_live_def sample_takeover_def
        principal_ok_def claimed_def Let_def) (simp add: sample_hmac_def)
  then have "is_ok (fst (reconnect_client sample_config sample_hmac ''t1'' ''p1'' (sample_hmac []) client_a
      9000 9000 9000 (tw_records (run (takeover_step sample_config sample_hmac)
        (takeover_step sample_config sample_hmac sample_world ?c) []))))"
    by (simp add: reconnect_client_def require_live_def sample_takeover_def principal_ok_def claimed_def grant_of_def
        sample_config_def Let_def) (simp add: sample_hmac_def)
  then show ?thesis
    using reconnection_rotates_credentials [OF sample_world_run first plain sample_reconnects refl] by blast
qed

text \<open>One live session per intervention. While the clock read by \<open>ensure\<close> does not run backwards, two
  sessions of one intervention are never live together: at the last clock reading, of any two different records of
  an intervention one is revoked or expired.\<close>

theorem one_live_session:
  assumes "clock_monotone 0 cs" and "m = tw_records (run (takeover_step cfg hmac) empty_world cs)"
    and "map_of m k = Some r" and "map_of m k' = Some r'" and "k \<noteq> k'"
    and "tk_intervention r = tk_intervention r'"
  shows "tk_revoked r \<or> tk_revoked r' \<or> tk_expires r \<le> last_clock 0 cs \<or> tk_expires r' \<le> last_clock 0 cs"
proof -
  have "unique_live 0 (tw_records empty_world)" by (simp add: unique_live_def empty_world_def)
  from unique_live_run [OF world_good_empty this assms(1), of cfg hmac] assms(2)
  have "unique_live (last_clock 0 cs) m" by simp
  with assms(3-6) show ?thesis unfolding unique_live_def by blast
qed

theorem one_live_session_witness:
  "\<exists>r r'. map_of (tw_records (run (takeover_step sample_config sample_hmac) empty_world
       [Ensure ''i1'' 2 ''p1'' ''t1'' 1 1, Claim_client ''t1'' ''p1'' client_a 2 2,
        Complete_session ''t1'' (sample_hmac []) ''p1'' 3 3, Ensure ''i1'' 3 ''p1'' ''t2'' 4 4])) ''t1'' = Some r
     \<and> map_of (tw_records (run (takeover_step sample_config sample_hmac) empty_world
       [Ensure ''i1'' 2 ''p1'' ''t1'' 1 1, Claim_client ''t1'' ''p1'' client_a 2 2,
        Complete_session ''t1'' (sample_hmac []) ''p1'' 3 3, Ensure ''i1'' 3 ''p1'' ''t2'' 4 4])) ''t2'' = Some r'
     \<and> (tk_revoked r \<or> tk_revoked r' \<or> tk_expires r \<le> 4 \<or> tk_expires r' \<le> 4)"
proof -
  let ?cs = "[Ensure ''i1'' 2 ''p1'' ''t1'' 1 1, Claim_client ''t1'' ''p1'' client_a 2 2,
      Complete_session ''t1'' (sample_hmac []) ''p1'' 3 3, Ensure ''i1'' 3 ''p1'' ''t2'' 4 4]"
  let ?m = "tw_records (run (takeover_step sample_config sample_hmac) empty_world ?cs)"
  have same: "sample_hmac t = sample_hmac u" for t u by (simp add: sample_hmac_def)
  obtain r r' where "map_of ?m ''t1'' = Some r" "map_of ?m ''t2'' = Some r'"
      "tk_intervention r = tk_intervention r'"
    using same [of "completion_text r" "[]" for r]
    by (simp add: takeover_step_def empty_world_def ensure_takeover_def prune_expired_def claim_client_def
        require_live_def fresh_takeover_def principal_ok_def complete_takeover_def completion_capability_for_def
        sample_config_def ensure_matches_def Let_def)
  moreover have "clock_monotone 0 ?cs" by simp
  ultimately show ?thesis using one_live_session [OF _ refl, of ?cs sample_config sample_hmac "''t1''" r "''t2''" r']
    by fastforce
qed

text \<open>What a capability authenticates. The keyed text of a claimed record determines the session, the
  intervention, the epoch, the principal, the client, the client generation and the expiry, whatever characters
  but NUL they contain, and the texts of access capabilities, reconnection handles and completion capabilities
  are never equal, so none of the three can stand for another.\<close>

theorem capability_texts_separate:
  assumes "plain_record r" and "plain_record r'" and "claimed r" and "claimed r'"
  shows "(capability_text r = capability_text r' \<longleftrightarrow> locator_of r = locator_of r'
      \<and> tk_client r = tk_client r' \<and> tk_generation r = tk_generation r')
    \<and> (reconnect_text r = reconnect_text r' \<longleftrightarrow> capability_text r = capability_text r')
    \<and> capability_text r \<noteq> reconnect_text r' \<and> capability_text r \<noteq> completion_text r'
    \<and> reconnect_text r \<noteq> completion_text r'"
  using bound_text_inj [OF assms]
  by (simp only: texts_disjoint capability_text_def [symmetric]) 
    (auto simp: capability_text_def reconnect_text_def locator_of_def texts_disjoint [unfolded capability_text_def reconnect_text_def])

theorem capability_texts_separate_witness:
  "capability_text sample_takeover \<noteq> capability_text (sample_takeover\<lparr>tk_generation := 2\<rparr>)"
proof -
  have plain: "plain_record (sample_takeover\<lparr>tk_generation := n\<rparr>)" for n
    using client_shape_nul_free [OF sample_shapes(1)]
    by (simp add: plain_record_def sample_takeover_def char_code_def)
  have "claimed (sample_takeover\<lparr>tk_generation := n\<rparr>)" if "1 \<le> n" for n
    using that by (simp add: claimed_def sample_takeover_def)
  from capability_texts_separate [OF plain [of 1] plain [of 2] this this]
  show ?thesis by (simp add: sample_takeover_def)
qed

end
