(* ===== verification/Transport.thy ===== *)
theory Transport
  imports Fencing
begin

text \<open>
  \<open>src/browser-takeover/transport-fallback-policy.ts\<close> and
  \<open>src/browser-takeover/managed-transport-coordinator.ts\<close>: the staged transport plan, and the
  coordinator that moves one intervention from one transport driver to the next. The coordinator
  serialises its operations, so an operation is one step; the drivers' answers are inputs, indexed by
  the number of driver calls made before.
\<close>

section \<open>The plan\<close>

datatype attempt = Webrtc_direct | Websocket_relay | Webrtc_relay

fun attempt_of :: "jsval \<Rightarrow> attempt option" where
  "attempt_of (JStr s) =
     (if s = ''webrtc_direct'' then Some Webrtc_direct
      else if s = ''websocket_relay'' then Some Websocket_relay
      else if s = ''webrtc_relay'' then Some Webrtc_relay else None)"
| "attempt_of _ = None"

text \<open>The loop over \<open>record.order\<close>, with the attempts seen so far in order.\<close>

fun collect_attempts :: "attempt list \<Rightarrow> jsval list \<Rightarrow> attempt list option" where
  "collect_attempts seen [] = Some seen"
| "collect_attempts seen (v # vs) = (case attempt_of v of
       None \<Rightarrow> None
     | Some a \<Rightarrow> if a \<in> set seen then None else collect_attempts (seen @ [a]) vs)"

text \<open>\<open>browserHandoffTransportAttemptOrder\<close>; \<open>None\<close> is the policy error.\<close>

definition transport_attempt_order :: "jsval \<Rightarrow> attempt list option" where
  "transport_attempt_order policy = (case policy of
       JObj ps \<Rightarrow> if length (object_keys ps) \<noteq> 1 then None
         else (case get_prop ps ''order'' of
             JArr vs \<Rightarrow> if length vs < 1 \<or> 3 < length vs then None else collect_attempts [] vs
           | _ \<Rightarrow> None)
     | _ \<Rightarrow> None)"

definition next_transport_attempt :: "attempt list \<Rightarrow> attempt \<Rightarrow> attempt option" where
  "next_transport_attempt order completed = (case dropWhile (\<lambda>a. a \<noteq> completed) order of
       _ # a # _ \<Rightarrow> Some a | _ \<Rightarrow> None)"

lemma collect_attempts_sound:
  "collect_attempts seen vs = Some order \<Longrightarrow> distinct seen \<Longrightarrow>
     distinct order \<and> (\<exists>rest. order = seen @ rest \<and> map attempt_of vs = map Some rest)"
  by (induction seen vs rule: collect_attempts.induct) (auto split: option.splits if_splits)

lemma transport_order_sound:
  assumes "transport_attempt_order policy = Some order"
  shows "distinct order" and "1 \<le> length order" and "length order \<le> 3"
    and "\<exists>ps vs. policy = JObj ps \<and> get_prop ps ''order'' = JArr vs \<and> map attempt_of vs = map Some order"
proof -
  obtain ps vs where p: "policy = JObj ps" "get_prop ps ''order'' = JArr vs"
      "collect_attempts [] vs = Some order" "vs \<noteq> []" "length vs \<le> 3"
    using assms by (auto simp: transport_attempt_order_def not_less split: jsval.splits if_splits)
  from collect_attempts_sound [OF p(3)] have "distinct order" "map attempt_of vs = map Some order" by auto
  moreover from this(2) have "length vs = length order" by (metis length_map)
  moreover from this p(4) have "1 \<le> length order" by (cases order) simp_all
  ultimately show "distinct order" "1 \<le> length order" "length order \<le> 3"
    "\<exists>ps vs. policy = JObj ps \<and> get_prop ps ''order'' = JArr vs \<and> map attempt_of vs = map Some order"
    using p by auto
qed

lemma next_attempt_later:
  "next_transport_attempt order a = Some b \<Longrightarrow> \<exists>xs ys. order = xs @ a # b # ys"
proof (induction order)
  case (Cons x order)
  show ?case
  proof (cases "x = a")
    case True
    with Cons.prems obtain ys where "order = b # ys"
      by (auto simp: next_transport_attempt_def split: list.splits)
    with True show ?thesis by auto
  next
    case False
    with Cons obtain xs ys where "order = xs @ a # b # ys"
      by (auto simp: next_transport_attempt_def)
    then have "x # order = (x # xs) @ a # b # ys" by simp
    then show ?thesis by blast
  qed
qed (simp add: next_transport_attempt_def)

section \<open>The coordinator\<close>

datatype transport_error =
    MANAGED_TRANSPORT_PLAN_INVALID
  | MANAGED_TRANSPORT_ALREADY_STARTED
  | MANAGED_TRANSPORT_NOT_ACTIVE
  | MANAGED_TRANSPORT_STALE
  | Driver_error

record transport_lease =
  ls_transport :: attempt
  ls_generation :: int
  ls_locator :: string

text \<open>A driver's answers: \<open>start\<close> gives a locator or fails; \<open>revoke\<close> resolves, rejects, or
  throws before it returns a promise.\<close>

datatype start_answer = Locator string | Start_failed

datatype revoke_answer = Revoke_done | Revoke_rejected | Revoke_threw

record driver_env =
  de_start :: "nat \<Rightarrow> start_answer"
  de_revoke :: "nat \<Rightarrow> revoke_answer"

text \<open>The last two fields are histories: the driver calls made, and the drivers started whose
  revocation has not been awaited to success since.\<close>

datatype driver_call = Started nat int | Revoked nat

record coordinator =
  co_drivers :: "attempt list"
  co_active :: "(nat \<times> transport_lease) option"
  co_started :: bool
  co_generation :: int
  co_transitions :: nat
  co_last :: "attempt option"
  co_previous :: "attempt option"
  co_fallback :: bool
  co_calls :: "driver_call list"
  co_open :: "nat list"

definition create_coordinator :: "jsval \<Rightarrow> attempt list \<Rightarrow> transport_error + coordinator" where
  "create_coordinator policy kinds = (case transport_attempt_order policy of
       None \<Rightarrow> Inl MANAGED_TRANSPORT_PLAN_INVALID
     | Some order \<Rightarrow> if kinds \<noteq> order then Inl MANAGED_TRANSPORT_PLAN_INVALID
         else Inr \<lparr>co_drivers = kinds, co_active = None, co_started = False, co_generation = 0,
           co_transitions = 0, co_last = None, co_previous = None, co_fallback = False, co_calls = [],
           co_open = []\<rparr>)"

definition call_start :: "driver_env \<Rightarrow> nat \<Rightarrow> int \<Rightarrow> coordinator \<Rightarrow> start_answer \<times> coordinator" where
  "call_start env i g c = (de_start env (length (co_calls c)),
     c\<lparr>co_calls := co_calls c @ [Started i g], co_open := co_open c @ [i]\<rparr>)"

text \<open>An awaited revocation.\<close>

definition call_revoke :: "driver_env \<Rightarrow> nat \<Rightarrow> coordinator \<Rightarrow> revoke_answer \<times> coordinator" where
  "call_revoke env i c = (let a = de_revoke env (length (co_calls c)) in
     (a, c\<lparr>co_calls := co_calls c @ [Revoked i],
           co_open := (if a = Revoke_done then filter (\<lambda>j. j \<noteq> i) (co_open c) else co_open c)\<rparr>))"

text \<open>\<open>void Promise.resolve(driver.revoke()).catch(...)\<close>: called, not awaited. A throw of the call
  itself is not caught.\<close>

definition fire_revoke :: "driver_env \<Rightarrow> nat \<Rightarrow> coordinator \<Rightarrow> bool \<times> coordinator" where
  "fire_revoke env i c = (de_revoke env (length (co_calls c)) = Revoke_threw,
     c\<lparr>co_calls := co_calls c @ [Revoked i]\<rparr>)"

definition activate ::
  "driver_env \<Rightarrow> nat \<Rightarrow> int \<Rightarrow> string \<Rightarrow> coordinator \<Rightarrow> (transport_error + transport_lease) \<times> coordinator" where
  "activate env i g locator c =
     (if trim locator = []
      then (case fire_revoke env i c of
          (True, c1) \<Rightarrow> (Inl Driver_error, c1)
        | (False, c1) \<Rightarrow> (Inl MANAGED_TRANSPORT_NOT_ACTIVE, c1\<lparr>co_generation := g\<rparr>))
      else (let l = \<lparr>ls_transport = co_drivers c ! i, ls_generation = g, ls_locator = locator\<rparr>
            in (Inr l, c\<lparr>co_generation := g, co_last := Some (co_drivers c ! i), co_active := Some (i, l)\<rparr>)))"

definition start_driver ::
  "driver_env \<Rightarrow> nat \<Rightarrow> coordinator \<Rightarrow> (transport_error + transport_lease) \<times> coordinator" where
  "start_driver env i c = (let g = co_generation c + 1 in
     case call_start env i g c of
       (Start_failed, c1) \<Rightarrow> (case call_revoke env i c1 of
           (Revoke_threw, c2) \<Rightarrow> (Inl Driver_error, c2)
         | (_, c2) \<Rightarrow> (Inl Driver_error, c2\<lparr>co_generation := g\<rparr>))
     | (Locator locator, c1) \<Rightarrow> activate env i g locator c1)"

text \<open>The synchronous start: \<open>promised\<close> says that the driver returned a promise. The error thrown
  for it is caught by the enclosing handler, which revokes once more.\<close>

definition fail_sync :: "driver_env \<Rightarrow> nat \<Rightarrow> int \<Rightarrow> transport_error \<Rightarrow> coordinator \<Rightarrow>
    (transport_error + transport_lease) \<times> coordinator" where
  "fail_sync env i g e c = (case fire_revoke env i c of
       (True, c1) \<Rightarrow> (Inl Driver_error, c1)
     | (False, c1) \<Rightarrow> (Inl e, c1\<lparr>co_generation := g\<rparr>))"

definition start_driver_sync ::
  "driver_env \<Rightarrow> bool \<Rightarrow> nat \<Rightarrow> coordinator \<Rightarrow> (transport_error + transport_lease) \<times> coordinator" where
  "start_driver_sync env promised i c = (let g = co_generation c + 1 in
     case call_start env i g c of
       (a, c1) \<Rightarrow>
         if promised
         then (case fire_revoke env i c1 of
             (True, c2) \<Rightarrow> fail_sync env i g Driver_error c2
           | (False, c2) \<Rightarrow> fail_sync env i g MANAGED_TRANSPORT_PLAN_INVALID (c2\<lparr>co_generation := g\<rparr>))
         else (case a of
             Start_failed \<Rightarrow> fail_sync env i g Driver_error c1
           | Locator locator \<Rightarrow> activate env i g locator c1))"

definition start_transport :: "driver_env \<Rightarrow> coordinator \<Rightarrow> (transport_error + transport_lease) \<times> coordinator"
where
  "start_transport env c =
     (if co_started c then (Inl MANAGED_TRANSPORT_ALREADY_STARTED, c)
      else start_driver env 0 (c\<lparr>co_started := True\<rparr>))"

definition start_transport_sync ::
  "driver_env \<Rightarrow> bool \<Rightarrow> coordinator \<Rightarrow> (transport_error + transport_lease) \<times> coordinator" where
  "start_transport_sync env promised c =
     (if co_started c then (Inl MANAGED_TRANSPORT_ALREADY_STARTED, c)
      else start_driver_sync env promised 0 (c\<lparr>co_started := True\<rparr>))"

definition assert_active_lease ::
  "attempt \<Rightarrow> int \<Rightarrow> coordinator \<Rightarrow> transport_error + nat \<times> transport_lease" where
  "assert_active_lease t g c = (case co_active c of
       None \<Rightarrow> Inl MANAGED_TRANSPORT_NOT_ACTIVE
     | Some (i, l) \<Rightarrow> if ls_transport l \<noteq> t \<or> ls_generation l \<noteq> g then Inl MANAGED_TRANSPORT_STALE
         else Inr (i, l))"

text \<open>The part the three transitions share: revoke the active driver, then forget it.\<close>

definition leave_active ::
  "driver_env \<Rightarrow> nat \<Rightarrow> transport_lease \<Rightarrow> coordinator \<Rightarrow> bool \<times> coordinator" where
  "leave_active env i l c = (case call_revoke env i c of
       (Revoke_done, c1) \<Rightarrow> (True, c1\<lparr>co_previous := Some (ls_transport l), co_active := None\<rparr>)
     | (_, c1) \<Rightarrow> (False, c1))"

definition advance_transport ::
  "driver_env \<Rightarrow> attempt \<Rightarrow> int \<Rightarrow> coordinator \<Rightarrow> (transport_error + transport_lease option) \<times> coordinator" where
  "advance_transport env t g c = (case assert_active_lease t g c of
       Inl e \<Rightarrow> (Inl e, c)
     | Inr (i, l) \<Rightarrow> (case leave_active env i l c of
         (False, c1) \<Rightarrow> (Inl Driver_error, c1)
       | (True, c1) \<Rightarrow>
           if length (co_drivers c1) \<le> i + 1
           then (Inr None, c1\<lparr>co_generation := co_generation c1 + 1\<rparr>)
           else (case start_driver env (i + 1) c1 of
               (Inl e, c2) \<Rightarrow> (Inl e, c2) | (Inr l2, c2) \<Rightarrow> (Inr (Some l2), c2))))"

text \<open>The loop of \<open>fallback\<close> over the remaining driver indices.\<close>

fun try_drivers :: "driver_env \<Rightarrow> nat list \<Rightarrow> coordinator \<Rightarrow> transport_lease option \<times> coordinator" where
  "try_drivers env [] c = (None, c)"
| "try_drivers env (i # is) c =
     (case start_driver env i (c\<lparr>co_transitions := co_transitions c + 1\<rparr>) of
        (Inr l, c1) \<Rightarrow> (Some l, c1)
      | (Inl e, c1) \<Rightarrow> try_drivers env is c1)"

definition fallback_transport ::
  "driver_env \<Rightarrow> attempt \<Rightarrow> int \<Rightarrow> coordinator \<Rightarrow> (transport_error + transport_lease option) \<times> coordinator" where
  "fallback_transport env t g c = (case assert_active_lease t g c of
       Inl e \<Rightarrow> (Inl e, c)
     | Inr (i, l) \<Rightarrow> (case leave_active env i l c of
         (False, c1) \<Rightarrow> (Inl Driver_error, c1)
       | (True, c1) \<Rightarrow>
           (let c2 = c1\<lparr>co_fallback := True\<rparr> in
            if length (co_drivers c2) \<le> i + 1
            then (Inr None, c2\<lparr>co_transitions := co_transitions c2 + 1, co_generation := co_generation c2 + 1\<rparr>)
            else (case try_drivers env [i + 1 ..< length (co_drivers c2)] c2 of (l2, c3) \<Rightarrow> (Inr l2, c3)))))"

definition revoke_transport ::
  "driver_env \<Rightarrow> (attempt \<times> int) option \<Rightarrow> coordinator \<Rightarrow> (transport_error + unit) \<times> coordinator" where
  "revoke_transport env lease c = (case co_active c of
       None \<Rightarrow> (Inr (), c)
     | Some (i, l) \<Rightarrow>
         (case (case lease of None \<Rightarrow> Inr (i, l) | Some (t, g) \<Rightarrow> assert_active_lease t g c) of
            Inl e \<Rightarrow> (Inl e, c)
          | Inr _ \<Rightarrow> (case leave_active env i l c of
              (False, c1) \<Rightarrow> (Inl Driver_error, c1)
            | (True, c1) \<Rightarrow> (Inr (), c1\<lparr>co_generation := co_generation c1 + 1\<rparr>))))"

section \<open>Runs\<close>

datatype transport_call =
    Start
  | Start_sync bool
  | Advance attempt int
  | Fallback attempt int
  | Revoke_transport "(attempt \<times> int) option"

fun transport_step :: "driver_env \<Rightarrow> coordinator \<Rightarrow> transport_call \<Rightarrow> coordinator" where
  "transport_step env c Start = snd (start_transport env c)"
| "transport_step env c (Start_sync promised) = snd (start_transport_sync env promised c)"
| "transport_step env c (Advance t g) = snd (advance_transport env t g c)"
| "transport_step env c (Fallback t g) = snd (fallback_transport env t g c)"
| "transport_step env c (Revoke_transport lease) = snd (revoke_transport env lease c)"

text \<open>The active lease carries the coordinator's generation and belongs to the plan.\<close>

definition coordinator_good :: "coordinator \<Rightarrow> bool" where
  "coordinator_good c \<longleftrightarrow> co_drivers c \<noteq> [] \<and> (case co_active c of
       None \<Rightarrow> True
     | Some (i, l) \<Rightarrow> ls_generation l = co_generation c \<and> i < length (co_drivers c)
         \<and> ls_transport l = co_drivers c ! i \<and> trim (ls_locator l) \<noteq> [] \<and> co_started c)"

lemma create_coordinator_good: "create_coordinator policy kinds = Inr c \<Longrightarrow> coordinator_good c"
  using transport_order_sound(2) [of policy]
  by (fastforce simp: create_coordinator_def coordinator_good_def split: option.splits if_splits)

text \<open>The effect of an attempt on an idle coordinator: the drivers stay, the generation grows or
  stays, and only a returned lease is active.\<close>

definition attempted :: "coordinator \<Rightarrow> (transport_error + transport_lease) \<times> coordinator \<Rightarrow> bool" where
  "attempted c x \<longleftrightarrow> co_drivers (snd x) = co_drivers c \<and> co_generation c \<le> co_generation (snd x)
     \<and> co_started (snd x) = co_started c
     \<and> (case fst x of
          Inl e \<Rightarrow> co_active (snd x) = co_active c
        | Inr l \<Rightarrow> \<exists>i. co_active (snd x) = Some (i, l) \<and> ls_generation l = co_generation (snd x)
            \<and> ls_generation l = co_generation c + 1
            \<and> ls_transport l = co_drivers c ! i \<and> trim (ls_locator l) \<noteq> [])"

lemma activate_attempted:
  assumes "g = co_generation c0 + 1" and "co_drivers c = co_drivers c0" and "co_generation c = co_generation c0"
    and "co_active c = co_active c0" and "co_started c = co_started c0"
  shows "attempted c0 (activate env i g locator c)"
  using assms by (auto simp: attempted_def activate_def fire_revoke_def Let_def split: bool.split)

lemma activate_index: "fst (activate env i g locator c) = Inr l \<Longrightarrow>
    co_active (snd (activate env i g locator c)) = Some (i, l)"
  by (auto simp: activate_def fire_revoke_def Let_def split: if_splits bool.splits)

lemma start_driver_attempted: "attempted c (start_driver env i c)"
proof (cases "de_start env (length (co_calls c))")
  case (Locator locator)
  then show ?thesis
    by (simp add: start_driver_def call_start_def Let_def activate_attempted)
next
  case Start_failed
  then show ?thesis
    by (auto simp: start_driver_def call_start_def call_revoke_def attempted_def Let_def
        split: revoke_answer.split)
qed

lemma start_driver_index:
  "fst (start_driver env i c) = Inr l \<Longrightarrow> co_active (snd (start_driver env i c)) = Some (i, l)"
  by (auto simp: start_driver_def call_start_def call_revoke_def Let_def activate_index
      split: start_answer.splits revoke_answer.splits)

lemma start_driver_sync_attempted: "attempted c (start_driver_sync env promised i c)"
proof (cases promised)
  case True
  then show ?thesis
    by (auto simp: start_driver_sync_def call_start_def fire_revoke_def fail_sync_def attempted_def Let_def
        split: bool.split)
next
  case False
  show ?thesis
  proof (cases "de_start env (length (co_calls c))")
    case (Locator locator)
    with False show ?thesis by (simp add: start_driver_sync_def call_start_def Let_def activate_attempted)
  next
    case Start_failed
    with False show ?thesis
      by (auto simp: start_driver_sync_def call_start_def fire_revoke_def fail_sync_def attempted_def Let_def
          split: bool.split)
  qed
qed

lemma start_driver_sync_index:
  "fst (start_driver_sync env promised i c) = Inr l \<Longrightarrow>
     co_active (snd (start_driver_sync env promised i c)) = Some (i, l)"
  by (auto simp: start_driver_sync_def call_start_def fire_revoke_def fail_sync_def Let_def activate_index
      split: start_answer.splits bool.splits if_splits)

lemma attempted_good:
  assumes "attempted c x" and "co_drivers c \<noteq> []" and "co_active c = None" and "co_started c"
    and "i < length (co_drivers c)" and "\<And>l. fst x = Inr l \<Longrightarrow> co_active (snd x) = Some (i, l)"
  shows "coordinator_good (snd x)"
  using assms by (cases "fst x") (auto simp: attempted_def coordinator_good_def)

lemma leave_active_facts:
  "co_drivers (snd (leave_active env i l c)) = co_drivers c"
  "co_generation (snd (leave_active env i l c)) = co_generation c"
  "co_started (snd (leave_active env i l c)) = co_started c"
  "co_active (snd (leave_active env i l c)) = (if fst (leave_active env i l c) then None else co_active c)"
  by (auto simp: leave_active_def call_revoke_def Let_def split: revoke_answer.split)

lemma try_drivers_good:
  "co_drivers c \<noteq> [] \<Longrightarrow> co_active c = None \<Longrightarrow> co_started c \<Longrightarrow> \<forall>i \<in> set is. i < length (co_drivers c) \<Longrightarrow>
     coordinator_good (snd (try_drivers env is c)) \<and> co_generation c \<le> co_generation (snd (try_drivers env is c))"
proof (induction "is" arbitrary: c)
  case (Cons i "is")
  let ?c = "c\<lparr>co_transitions := co_transitions c + 1\<rparr>"
  obtain r c1 where s: "start_driver env i ?c = (r, c1)" by fastforce
  have att: "attempted ?c (r, c1)" using start_driver_attempted [of ?c env i] s by simp
  show ?case
  proof (cases r)
    case (Inl e)
    with att have "co_drivers c1 = co_drivers c" "co_active c1 = None" "co_started c1"
        "co_generation c \<le> co_generation c1"
      using Cons.prems by (simp_all add: attempted_def)
    with Cons.IH [of c1] Cons.prems Inl s show ?thesis by auto
  next
    case (Inr l)
    with att start_driver_index [of env i ?c l] s Cons.prems show ?thesis
      by (auto simp: attempted_def coordinator_good_def)
  qed
qed (simp add: coordinator_good_def)

text \<open>Every operation keeps the invariant and never lowers the generation.\<close>

definition keeps :: "coordinator \<Rightarrow> coordinator \<Rightarrow> bool" where
  "keeps c c' \<longleftrightarrow> coordinator_good c' \<and> co_generation c \<le> co_generation c'"

lemma unstarted_idle: "coordinator_good c \<Longrightarrow> \<not> co_started c \<Longrightarrow> co_active c = None"
  by (auto simp: coordinator_good_def split: option.splits)

lemma start_keeps:
  assumes "coordinator_good c"
  shows "keeps c (snd (start_transport env c))"
proof (cases "co_started c")
  case False
  let ?c = "c\<lparr>co_started := True\<rparr>"
  have "coordinator_good (snd (start_driver env 0 ?c))"
    by (rule attempted_good [OF start_driver_attempted])
      (use assms unstarted_idle [OF assms False] start_driver_index in \<open>auto simp: coordinator_good_def\<close>)
  with False start_driver_attempted [of ?c env 0] show ?thesis
    by (simp add: keeps_def start_transport_def attempted_def)
qed (use assms in \<open>simp add: keeps_def start_transport_def\<close>)

lemma start_sync_keeps:
  assumes "coordinator_good c"
  shows "keeps c (snd (start_transport_sync env promised c))"
proof (cases "co_started c")
  case False
  let ?c = "c\<lparr>co_started := True\<rparr>"
  have "coordinator_good (snd (start_driver_sync env promised 0 ?c))"
    by (rule attempted_good [OF start_driver_sync_attempted])
      (use assms unstarted_idle [OF assms False] start_driver_sync_index in \<open>auto simp: coordinator_good_def\<close>)
  with False start_driver_sync_attempted [of ?c env promised 0] show ?thesis
    by (simp add: keeps_def start_transport_sync_def attempted_def)
qed (use assms in \<open>simp add: keeps_def start_transport_sync_def\<close>)

lemma assert_active_leaseD:
  "assert_active_lease t g c = Inr (i, l) \<Longrightarrow> co_active c = Some (i, l) \<and> ls_transport l = t \<and> ls_generation l = g"
  by (auto simp: assert_active_lease_def split: option.splits if_splits prod.splits)

lemma coordinator_good_cong:
  assumes "co_drivers c1 = co_drivers c" "co_generation c1 = co_generation c"
    "co_started c1 = co_started c" "co_active c1 = co_active c"
  shows "coordinator_good c1 = coordinator_good c"
  unfolding coordinator_good_def assms ..

lemma leave_failed_keeps:
  assumes "coordinator_good c" and "leave_active env i l c = (False, c1)"
  shows "keeps c c1"
  using assms leave_active_facts [of env i l c] coordinator_good_cong [of c1 c] by (simp add: keeps_def)

lemma advance_keeps:
  assumes good: "coordinator_good c"
  shows "keeps c (snd (advance_transport env t g c))"
proof (cases "assert_active_lease t g c")
  case (Inl e)
  with good show ?thesis by (simp add: keeps_def advance_transport_def)
next
  case (Inr il)
  then obtain i l where il: "assert_active_lease t g c = Inr (i, l)" by (cases il) simp
  from assert_active_leaseD [OF this] good have started: "co_started c" "co_drivers c \<noteq> []"
    by (auto simp: coordinator_good_def)
  obtain left c1 where leave: "leave_active env i l c = (left, c1)" by fastforce
  show ?thesis
  proof (cases left)
    case False
    with il leave leave_failed_keeps [OF good] show ?thesis by (simp add: advance_transport_def)
  next
    case True
    with leave leave_active_facts [of env i l c] have c1: "co_drivers c1 = co_drivers c"
        "co_generation c1 = co_generation c" "co_started c1 = co_started c" "co_active c1 = None" by simp_all
    show ?thesis
    proof (cases "length (co_drivers c1) \<le> i + 1")
      case last: True
      with il leave True c1 started show ?thesis
        by (simp add: advance_transport_def keeps_def coordinator_good_def)
    next
      case False
      have "coordinator_good (snd (start_driver env (i + 1) c1))"
        by (rule attempted_good [OF start_driver_attempted])
          (use c1 started False start_driver_index in \<open>auto simp: not_le\<close>)
      with il leave True False c1 start_driver_attempted [of c1 env "i + 1"] show ?thesis
        by (simp add: advance_transport_def keeps_def attempted_def case_prod_beta split: sum.split)
    qed
  qed
qed

lemma fallback_keeps:
  assumes good: "coordinator_good c"
  shows "keeps c (snd (fallback_transport env t g c))"
proof (cases "assert_active_lease t g c")
  case (Inl e)
  with good show ?thesis by (simp add: keeps_def fallback_transport_def)
next
  case (Inr il)
  then obtain i l where il: "assert_active_lease t g c = Inr (i, l)" by (cases il) simp
  from assert_active_leaseD [OF this] good have started: "co_started c" "co_drivers c \<noteq> []"
    by (auto simp: coordinator_good_def)
  obtain left c1 where leave: "leave_active env i l c = (left, c1)" by fastforce
  show ?thesis
  proof (cases left)
    case False
    with il leave leave_failed_keeps [OF good] show ?thesis by (simp add: fallback_transport_def)
  next
    case True
    let ?c = "c1\<lparr>co_fallback := True\<rparr>"
    from True leave leave_active_facts [of env i l c] have c1: "co_drivers c1 = co_drivers c"
        "co_generation c1 = co_generation c" "co_started c1 = co_started c" "co_active c1 = None" by simp_all
    have "coordinator_good (snd (try_drivers env [i + 1 ..< length (co_drivers c)] ?c))
        \<and> co_generation ?c \<le> co_generation (snd (try_drivers env [i + 1 ..< length (co_drivers c)] ?c))"
      by (rule try_drivers_good) (use c1 started in auto)
    then have tried: "keeps c (snd (try_drivers env [i + 1 ..< length (co_drivers c)] ?c))"
      using c1 by (simp add: keeps_def)
    show ?thesis
    proof (cases "length (co_drivers c) \<le> i + 1")
      case last: True
      with il leave True c1 started show ?thesis
        by (simp add: fallback_transport_def keeps_def coordinator_good_def Let_def)
    next
      case False
      with il leave True c1 tried show ?thesis
        by (simp add: fallback_transport_def Let_def case_prod_beta)
    qed
  qed
qed

lemma revoke_keeps:
  assumes good: "coordinator_good c"
  shows "keeps c (snd (revoke_transport env lease c))"
proof (cases "co_active c")
  case None
  with good show ?thesis by (simp add: keeps_def revoke_transport_def)
next
  case (Some il)
  then obtain i l where il: "co_active c = Some (i, l)" by (cases il) simp
  obtain left c1 where leave: "leave_active env i l c = (left, c1)" by fastforce
  have "keeps c (if left then c1\<lparr>co_generation := co_generation c1 + 1\<rparr> else c1)"
    using good il leave leave_active_facts [of env i l c] leave_failed_keeps [OF good, of env i l c1]
    by (cases left) (simp_all add: keeps_def coordinator_good_def)
  with good il leave show ?thesis
    by (auto simp: revoke_transport_def keeps_def split: sum.split bool.split option.split)
qed

lemma transport_step_keeps: "coordinator_good c \<Longrightarrow> keeps c (transport_step env c x)"
  by (cases x) (simp_all add: start_keeps start_sync_keeps advance_keeps fallback_keeps revoke_keeps)

text \<open>A transition or revocation is accepted for the active lease's generation only.\<close>

definition admits_lease :: "coordinator \<Rightarrow> int \<Rightarrow> bool" where
  "admits_lease c g \<longleftrightarrow> (\<exists>t. \<not> isl (assert_active_lease t g c))"

interpretation transport_fence: fenced_machine "transport_step env" coordinator_good co_generation
  admits_lease for env
proof unfold_locales
  fix c :: coordinator and x :: transport_call
  assume "coordinator_good c"
  then have "keeps c (transport_step env c x)" by (rule transport_step_keeps)
  then show "coordinator_good (transport_step env c x)"
    and "co_generation c \<le> co_generation (transport_step env c x)" by (simp_all add: keeps_def)
next
  fix c :: coordinator and g :: int
  assume "coordinator_good c" and "admits_lease c g"
  then show "g = co_generation c"
    by (auto simp: admits_lease_def assert_active_lease_def coordinator_good_def
        split: option.splits if_splits)
qed

section \<open>One open transport\<close>

text \<open>The open drivers are exactly the active one. It holds while every failed attempt is confirmed
  revoked and no driver answers with a blank locator.\<close>

definition exclusive :: "coordinator \<Rightarrow> bool" where
  "exclusive c \<longleftrightarrow> co_open c = (case co_active c of None \<Rightarrow> [] | Some (i, l) \<Rightarrow> [i])"

definition failures_revoked :: "driver_env \<Rightarrow> bool" where
  "failures_revoked env \<longleftrightarrow> (\<forall>k. case de_start env k of
       Start_failed \<Rightarrow> de_revoke env (Suc k) = Revoke_done | Locator l \<Rightarrow> trim l \<noteq> [])"

lemma failures_revokedD:
  assumes "failures_revoked env"
  shows "de_start env k = Locator l \<Longrightarrow> trim l \<noteq> []"
    and "de_start env k = Start_failed \<Longrightarrow> de_revoke env (Suc k) = Revoke_done"
proof -
  from assms have k: "case de_start env k of
       Start_failed \<Rightarrow> de_revoke env (Suc k) = Revoke_done | Locator l \<Rightarrow> trim l \<noteq> []"
    unfolding failures_revoked_def by (rule spec)
  show "de_start env k = Locator l \<Longrightarrow> trim l \<noteq> []"
    and "de_start env k = Start_failed \<Longrightarrow> de_revoke env (Suc k) = Revoke_done"
    using k by simp_all
qed

lemma start_driver_exclusive:
  assumes env: "failures_revoked env" and idle: "co_open c = []" "co_active c = None"
  shows "exclusive (snd (start_driver env i c))
    \<and> (isl (fst (start_driver env i c)) \<longrightarrow>
        co_open (snd (start_driver env i c)) = [] \<and> co_active (snd (start_driver env i c)) = None)"
proof (cases "de_start env (length (co_calls c))")
  case (Locator l)
  from failures_revokedD(1) [OF env this]
  have "trim l \<noteq> []" .
  with Locator idle show ?thesis
    by (simp add: start_driver_def call_start_def activate_def exclusive_def Let_def)
next
  case Start_failed
  from failures_revokedD(2) [OF env this]
  have "de_revoke env (Suc (length (co_calls c))) = Revoke_done" .
  with Start_failed idle show ?thesis
    by (simp add: start_driver_def call_start_def call_revoke_def exclusive_def Let_def)
qed

lemma leave_active_exclusive:
  assumes "exclusive c" and "co_active c = Some (i, l)"
  shows "exclusive (snd (leave_active env i l c))
    \<and> (fst (leave_active env i l c) \<longrightarrow> co_open (snd (leave_active env i l c)) = []
         \<and> co_active (snd (leave_active env i l c)) = None)"
  using assms by (auto simp: leave_active_def call_revoke_def exclusive_def Let_def split: revoke_answer.split)

lemma try_drivers_exclusive:
  assumes env: "failures_revoked env"
  shows "co_open c = [] \<Longrightarrow> co_active c = None \<Longrightarrow> exclusive (snd (try_drivers env is c))"
proof (induction "is" arbitrary: c)
  case (Cons i "is")
  let ?c = "c\<lparr>co_transitions := co_transitions c + 1\<rparr>"
  obtain r c1 where s: "start_driver env i ?c = (r, c1)" by fastforce
  with start_driver_exclusive [OF env, of ?c i] Cons.prems
  have "exclusive c1" "isl r \<Longrightarrow> co_open c1 = [] \<and> co_active c1 = None" by simp_all
  with Cons.IH [of c1] s show ?case by (cases r) simp_all
qed (simp add: exclusive_def)

lemma exclusive_cong: "co_open c = co_open c' \<Longrightarrow> co_active c = co_active c' \<Longrightarrow> exclusive c = exclusive c'"
  by (simp add: exclusive_def)

lemma exclusive_step:
  assumes env: "failures_revoked env" and ex: "exclusive c" and good: "coordinator_good c"
    and x: "\<not> (\<exists>p. x = Start_sync p)"
  shows "exclusive (transport_step env c x)"
proof (cases x)
  case Start
  show ?thesis
  proof (cases "co_started c")
    case False
    with unstarted_idle [OF good] ex have "co_active c = None" "co_open c = []"
      by (simp_all add: exclusive_def)
    with Start False start_driver_exclusive [OF env, of "c\<lparr>co_started := True\<rparr>" 0] show ?thesis
      by (simp add: start_transport_def)
  qed (use Start ex in \<open>simp add: start_transport_def\<close>)
next
  case (Advance t g)
  show ?thesis
  proof (cases "assert_active_lease t g c")
    case (Inr il)
    then obtain i l where il: "assert_active_lease t g c = Inr (i, l)" by (cases il) simp
    obtain left c1 where leave: "leave_active env i l c = (left, c1)" by fastforce
    with leave_active_exclusive [OF ex, of i l env] assert_active_leaseD [OF il]
    have c1: "exclusive c1" "left \<Longrightarrow> co_open c1 = [] \<and> co_active c1 = None" by simp_all
    then have next_: "exclusive (snd (start_driver env (i + 1) c1))" if left
      using start_driver_exclusive [OF env, of c1 "i + 1"] that by simp
    have last: "exclusive (c1\<lparr>co_generation := n\<rparr>)" for n
      using c1(1) exclusive_cong [of "c1\<lparr>co_generation := n\<rparr>" c1] by simp
    show ?thesis
      using Advance il leave c1 next_ last
      by (cases left) (auto simp: advance_transport_def case_prod_beta split: sum.split)
  qed (use Advance ex in \<open>simp add: advance_transport_def\<close>)
next
  case (Fallback t g)
  show ?thesis
  proof (cases "assert_active_lease t g c")
    case (Inr il)
    then obtain i l where il: "assert_active_lease t g c = Inr (i, l)" by (cases il) simp
    obtain left c1 where leave: "leave_active env i l c = (left, c1)" by fastforce
    with leave_active_exclusive [OF ex, of i l env] assert_active_leaseD [OF il]
    have c1: "exclusive c1" "left \<Longrightarrow> co_open c1 = [] \<and> co_active c1 = None" by simp_all
    then have next_: "exclusive (snd (try_drivers env is (c1\<lparr>co_fallback := True\<rparr>)))" if left for "is"
      using try_drivers_exclusive [OF env, of "c1\<lparr>co_fallback := True\<rparr>"] that by simp
    have last: "exclusive (c1\<lparr>co_fallback := True, co_transitions := m, co_generation := n\<rparr>)" for m n
      using c1(1) exclusive_cong [of "c1\<lparr>co_fallback := True, co_transitions := m, co_generation := n\<rparr>" c1]
      by simp
    show ?thesis
      using Fallback il leave c1 next_ last
      by (cases left) (simp_all add: fallback_transport_def case_prod_beta Let_def)
  qed (use Fallback ex in \<open>simp add: fallback_transport_def\<close>)
next
  case (Revoke_transport lease)
  show ?thesis
  proof (cases "co_active c")
    case (Some il)
    then obtain i l where il: "co_active c = Some (i, l)" by (cases il) simp
    obtain left c1 where leave: "leave_active env i l c = (left, c1)" by fastforce
    with leave_active_exclusive [OF ex il, of env] have c1: "exclusive c1" by simp
    have "exclusive (c1\<lparr>co_generation := n\<rparr>)" for n
      using c1 exclusive_cong [of "c1\<lparr>co_generation := n\<rparr>" c1] by simp
    with Revoke_transport il leave c1 ex show ?thesis
      by (auto simp: revoke_transport_def split: sum.split bool.split option.split)
  qed (use Revoke_transport ex in \<open>simp add: revoke_transport_def\<close>)
qed (use x in blast)

text \<open>A synchronous start that fails awaits no revocation, but it is the only start there will ever be: the coordinator has
  no active lease and is marked started, so every later call is refused.\<close>

definition stuck :: "coordinator \<Rightarrow> bool" where
  "stuck c \<longleftrightarrow> co_started c \<and> co_active c = None \<and> co_open c = [0]"

lemma stuck_step: "stuck c \<Longrightarrow> stuck (transport_step env c x)"
  by (cases x) (simp_all add: stuck_def start_transport_def start_transport_sync_def advance_transport_def fallback_transport_def
      revoke_transport_def assert_active_lease_def)

interpretation stuck: guarded_machine "transport_step env" stuck for env
  by unfold_locales (rule stuck_step)

lemma start_sync_once:
  assumes env: "failures_revoked env" and idle: "co_open c = []" "co_active c = None" "co_started c"
  shows "exclusive (snd (start_driver_sync env promised 0 c)) \<or> stuck (snd (start_driver_sync env promised 0 c))"
proof (cases "de_start env (length (co_calls c))")
  case (Locator l)
  with failures_revokedD(1) [OF env this] idle show ?thesis
    by (auto simp: start_driver_sync_def call_start_def activate_def fail_sync_def fire_revoke_def exclusive_def stuck_def Let_def
        split: bool.split)
next
  case Start_failed
  with idle show ?thesis
    by (auto simp: start_driver_sync_def call_start_def fail_sync_def fire_revoke_def stuck_def Let_def split: bool.split)
qed

lemma start_sync_step:
  assumes env: "failures_revoked env" and ex: "exclusive c" and good: "coordinator_good c"
  shows "exclusive (transport_step env c (Start_sync promised)) \<or> stuck (transport_step env c (Start_sync promised))"
proof (cases "co_started c")
  case False
  with unstarted_idle [OF good] ex have "co_active c = None" "co_open c = []" by (simp_all add: exclusive_def)
  with False start_sync_once [OF env, of "c\<lparr>co_started := True\<rparr>"] show ?thesis by (simp add: start_transport_sync_def)
qed (use ex in \<open>simp add: start_transport_sync_def\<close>)

lemma exclusive_run:
  "failures_revoked env \<Longrightarrow> coordinator_good c \<Longrightarrow> exclusive c \<Longrightarrow>
     exclusive (run (transport_step env) c xs)
     \<or> (\<exists>promised. Start_sync promised \<in> set xs) \<and> stuck (run (transport_step env) c xs)"
proof (induction xs arbitrary: c)
  case (Cons x xs)
  have good: "coordinator_good (transport_step env c x)"
    using transport_step_keeps [OF Cons.prems(2), of env x] by (simp add: keeps_def)
  show ?case
  proof (cases "exclusive (transport_step env c x)")
    case True
    then show ?thesis using Cons.IH [OF Cons.prems(1) good] by auto
  next
    case False
    then obtain promised where x: "x = Start_sync promised"
      using exclusive_step [OF Cons.prems(1,3,2), of x] by blast
    with False start_sync_step [OF Cons.prems(1,3,2)] have "stuck (transport_step env c x)" by blast
    then have "stuck (run (transport_step env) (transport_step env c x) xs)" by (rule stuck.good_run)
    with x show ?thesis by auto
  qed
qed simp

text \<open>A blank locator breaks it: the failed driver's revocation is fired but not awaited, and the
  loop of \<open>fallback\<close> starts the next driver at once.\<close>

lemma blank_start:
  assumes "de_start env (length (co_calls c)) = Locator blank" and "trim blank = []"
    and "de_revoke env (Suc (length (co_calls c))) \<noteq> Revoke_threw"
  shows "isl (fst (start_driver env i c))" and "co_open (snd (start_driver env i c)) = co_open c @ [i]"
    and "length (co_calls (snd (start_driver env i c))) = length (co_calls c) + 2"
  using assms by (simp_all add: start_driver_def call_start_def activate_def fire_revoke_def Let_def)

lemma good_start:
  assumes "de_start env (length (co_calls c)) = Locator locator" and "trim locator \<noteq> []"
  shows "\<exists>l. fst (start_driver env i c) = Inr l" and "co_open (snd (start_driver env i c)) = co_open c @ [i]"
  using assms by (simp_all add: start_driver_def call_start_def activate_def Let_def)

lemma fallback_overlap:
  assumes active: "co_active c = Some (i, l)" "exclusive c" and more: "i + 2 < length (co_drivers c)"
    and left: "de_revoke env (length (co_calls c)) = Revoke_done"
    and blank: "de_start env (length (co_calls c) + 1) = Locator blank" "trim blank = []"
      "de_revoke env (length (co_calls c) + 2) \<noteq> Revoke_threw"
    and fresh: "de_start env (length (co_calls c) + 3) = Locator locator" "trim locator \<noteq> []"
  shows "co_open (snd (fallback_transport env (ls_transport l) (ls_generation l) c)) = [i + 1, i + 2]"
proof -
  define c1 where "c1 = c\<lparr>co_calls := co_calls c @ [Revoked i], co_open := [],
    co_previous := Some (ls_transport l), co_active := None, co_fallback := True\<rparr>"
  have leave: "leave_active env i l c = (True, c\<lparr>co_calls := co_calls c @ [Revoked i], co_open := [],
      co_previous := Some (ls_transport l), co_active := None\<rparr>)"
    using active left by (simp add: leave_active_def call_revoke_def exclusive_def Let_def)
  have "i + 1 < length (co_drivers c)" using more by simp
  then have range: "[i + 1 ..< length (co_drivers c)] = (i + 1) # (i + 2) # [i + 3 ..< length (co_drivers c)]"
    using more by (simp add: upt_rec eval_nat_numeral del: upt_Suc)
  have whole: "snd (fallback_transport env (ls_transport l) (ls_generation l) c)
      = snd (try_drivers env ((i + 1) # (i + 2) # [i + 3 ..< length (co_drivers c)]) c1)"
    using active(1) more
    by (simp add: fallback_transport_def assert_active_lease_def leave c1_def case_prod_beta Let_def
        range [simplified] del: upt_Suc try_drivers.simps)
  let ?c1 = "c1\<lparr>co_transitions := co_transitions c1 + 1\<rparr>"
  obtain r2 c2 where s2: "start_driver env (i + 1) ?c1 = (r2, c2)" by fastforce
  have c2: "isl r2" "co_open c2 = [i + 1]" "length (co_calls c2) = length (co_calls c) + 3"
    using blank_start [of env ?c1 blank "i + 1"] blank s2 by (simp_all add: c1_def)
  let ?c2 = "c2\<lparr>co_transitions := co_transitions c2 + 1\<rparr>"
  obtain r3 c3 where s3: "start_driver env (i + 2) ?c2 = (r3, c3)" by fastforce
  have c3: "\<exists>l. r3 = Inr l" "co_open c3 = [i + 1, i + 2]"
    using good_start [of env ?c2 locator "i + 2"] fresh c2 s3 by simp_all
  obtain e where "r2 = Inl e" using c2(1) by (cases r2) simp_all
  with s2 s3 c3 show ?thesis unfolding whole by auto
qed

section \<open>Properties\<close>

text \<open>A lease lapses when it stops being the active one: the generation is past it, or the started coordinator is
  left without an active driver, and then it never gets one again.\<close>

definition lapsed :: "int \<Rightarrow> coordinator \<Rightarrow> bool" where
  "lapsed g c \<longleftrightarrow> coordinator_good c \<and> co_started c \<and> (g < co_generation c \<or> co_active c = None)"

lemma lapsed_refused: "lapsed g c \<Longrightarrow> isl (assert_active_lease t g c)"
  by (auto simp: lapsed_def assert_active_lease_def coordinator_good_def split: option.split)

lemma try_drivers_lapses:
  "co_active c = None \<Longrightarrow> co_started (snd (try_drivers env is c)) = co_started c
     \<and> (co_active (snd (try_drivers env is c)) = None \<or> co_generation c < co_generation (snd (try_drivers env is c)))"
proof (induction "is" arbitrary: c)
  case (Cons i "is")
  let ?c = "c\<lparr>co_transitions := co_transitions c + 1\<rparr>"
  obtain r c1 where s: "start_driver env i ?c = (r, c1)" by fastforce
  have att: "attempted ?c (r, c1)" using start_driver_attempted [of ?c env i] s by simp
  show ?case
  proof (cases r)
    case (Inl e)
    with att Cons.prems have "co_active c1 = None" "co_generation c \<le> co_generation c1" "co_started c1 = co_started c"
      by (simp_all add: attempted_def)
    with Cons.IH [of c1] Inl s show ?thesis by auto
  qed (use att s in \<open>auto simp: attempted_def\<close>)
qed simp

lemma start_driver_lapses:
  "co_active c = None \<Longrightarrow> co_started (snd (start_driver env i c)) = co_started c
     \<and> (co_active (snd (start_driver env i c)) = None \<or> co_generation c < co_generation (snd (start_driver env i c)))"
  using start_driver_attempted [of c env i] by (auto simp: attempted_def split: sum.splits)

text \<open>A step keeps the active lease, or it lapses.\<close>

lemma step_lapses:
  assumes good: "coordinator_good c" and active: "co_active c = Some (i, l)"
  shows "co_active (transport_step env c x) = Some (i, l) \<and> co_started (transport_step env c x)
    \<or> lapsed (ls_generation l) (transport_step env c x)"
proof -
  have started: "co_started c" and g: "ls_generation l = co_generation c"
    using good active by (simp_all add: coordinator_good_def)
  have good': "coordinator_good (transport_step env c x)"
    using transport_step_keeps [OF good, of env x] by (simp add: keeps_def)
  obtain left c1 where leave: "leave_active env i l c = (left, c1)" by fastforce
  have c1: "co_generation c1 = co_generation c" "co_started c1" "co_active c1 = (if left then None else Some (i, l))"
    using leave_active_facts [of env i l c] leave started active by simp_all
  have lease: "assert_active_lease t n c = (if ls_transport l \<noteq> t \<or> ls_generation l \<noteq> n
      then Inl MANAGED_TRANSPORT_STALE else Inr (i, l))" for t n
    using active by (simp add: assert_active_lease_def)
  show ?thesis
  proof (cases x)
    case (Advance t n)
    with good' leave lease c1 active started g start_driver_lapses [of c1 env "i + 1"] show ?thesis
      by (auto simp: lapsed_def advance_transport_def case_prod_beta split: if_splits bool.splits sum.split)
  next
    case (Fallback t n)
    with good' leave lease c1 active started g
      try_drivers_lapses [of "c1\<lparr>co_fallback := True\<rparr>" env "[i + 1 ..< length (co_drivers c1)]"] show ?thesis
      by (auto simp: lapsed_def fallback_transport_def case_prod_beta Let_def split: if_splits bool.splits)
  next
    case (Revoke_transport lease')
    with good' leave lease c1 active started g show ?thesis
      by (cases lease')
        (auto simp: lapsed_def revoke_transport_def case_prod_beta split: if_splits bool.splits sum.split)
  qed (use active started in \<open>simp_all add: start_transport_def start_transport_sync_def\<close>)
qed

lemma lapsed_step:
  assumes "lapsed g c"
  shows "lapsed g (transport_step env c x)"
proof (cases "co_active c")
  case None
  with assms show ?thesis
    by (cases x) (simp_all add: lapsed_def start_transport_def start_transport_sync_def advance_transport_def
        fallback_transport_def revoke_transport_def assert_active_lease_def)
next
  case (Some il)
  then obtain i l where il: "co_active c = Some (i, l)" by (cases il) simp
  have good: "coordinator_good c" and "g < co_generation c" using assms il by (simp_all add: lapsed_def)
  moreover have "co_generation c \<le> co_generation (transport_step env c x)"
      "coordinator_good (transport_step env c x)"
    using transport_step_keeps [OF good, of env x] by (simp_all add: keeps_def)
  ultimately show ?thesis
    using step_lapses [OF good il, of env x] by (auto simp: lapsed_def)
qed

interpretation lapsed: guarded_machine "transport_step env" "lapsed g" for env g
  by unfold_locales (rule lapsed_step)

lemma run_lapses:
  "coordinator_good c \<Longrightarrow> co_active c = Some (i, l) \<Longrightarrow> co_active (run (transport_step env) c xs) \<noteq> Some (i, l)
     \<Longrightarrow> lapsed (ls_generation l) (run (transport_step env) c xs)"
proof (induction xs arbitrary: c)
  case (Cons x xs)
  have good: "coordinator_good (transport_step env c x)"
    using transport_step_keeps [OF Cons.prems(1), of env x] by (simp add: keeps_def)
  from step_lapses [OF Cons.prems(1,2), of env x] show ?case
  proof
    assume "co_active (transport_step env c x) = Some (i, l) \<and> co_started (transport_step env c x)"
    with Cons good show ?thesis by simp
  next
    assume "lapsed (ls_generation l) (transport_step env c x)"
    from lapsed.good_run [OF this, of env xs] show ?thesis by simp
  qed
qed simp

text \<open>Drivers whose starts succeed and whose revocations resolve, and a plan of three.\<close>

definition sample_drivers :: driver_env where
  "sample_drivers = \<lparr>de_start = \<lambda>_. Locator ''wss'', de_revoke = \<lambda>_. Revoke_done\<rparr>"

definition sample_policy :: jsval where
  "sample_policy = JObj [(''order'', JArr [JStr ''webrtc_direct'', JStr ''websocket_relay'', JStr ''webrtc_relay''])]"

definition sample_coordinator :: coordinator where
  "sample_coordinator = \<lparr>co_drivers = [Webrtc_direct, Websocket_relay, Webrtc_relay], co_active = None,
     co_started = False, co_generation = 0, co_transitions = 0, co_last = None, co_previous = None,
     co_fallback = False, co_calls = [], co_open = []\<rparr>"

lemma sample_order: "transport_attempt_order sample_policy = Some [Webrtc_direct, Websocket_relay, Webrtc_relay]"
  by (simp add: transport_attempt_order_def sample_policy_def object_keys_def)

lemma sample_coordinator_created:
  "create_coordinator sample_policy [Webrtc_direct, Websocket_relay, Webrtc_relay] = Inr sample_coordinator"
  by (simp add: create_coordinator_def sample_order sample_coordinator_def)

lemma sample_locator [simp]: "trim ''wss'' = ''wss''"
  by (simp add: trim_def is_space_def char_code_def)

lemma sample_started: "transport_step sample_drivers sample_coordinator Start = sample_coordinator\<lparr>co_started := True,
    co_active := Some (0, \<lparr>ls_transport = Webrtc_direct, ls_generation = 1, ls_locator = ''wss''\<rparr>),
    co_generation := 1, co_last := Some Webrtc_direct, co_calls := [Started 0 1], co_open := [0]\<rparr>"
  by (simp add: start_transport_def start_driver_def call_start_def activate_def sample_drivers_def
      sample_coordinator_def Let_def)

text \<open>A transport lease that was left is refused for good. Once a lease is no longer the active one, after an
  advance, a fallback or a revocation, whether the next driver started or all of them failed, no request made with
  it is accepted again: of any request of a former holder nothing but the error comes back.\<close>

theorem former_lease_refused:
  assumes "create_coordinator policy kinds = Inr c0" and "c = run (transport_step env) c0 xs"
    and "co_active c = Some (i, l)" and "c' = run (transport_step env) c ys" and "co_active c' \<noteq> Some (i, l)"
  shows "isl (assert_active_lease (ls_transport l) (ls_generation l) (run (transport_step env') c' zs))
    \<and> isl (fst (advance_transport env' (ls_transport l) (ls_generation l) (run (transport_step env') c' zs)))
    \<and> isl (fst (fallback_transport env' (ls_transport l) (ls_generation l) (run (transport_step env') c' zs)))"
proof -
  have "coordinator_good c"
    using transport_fence.good_run [OF create_coordinator_good [OF assms(1)]] assms(2) by simp
  from run_lapses [OF this assms(3), of env ys] assms(4,5) have "lapsed (ls_generation l) c'" by simp
  from lapsed_refused [OF lapsed.good_run [OF this, of env' zs], of "ls_transport l"]
  show ?thesis
    by (auto simp: advance_transport_def fallback_transport_def isl_def split: sum.split)
qed

theorem former_lease_refused_witness:
  "isl (assert_active_lease Webrtc_direct 1 (run (transport_step sample_drivers) sample_coordinator
     [Start, Fallback Webrtc_direct 1]))"
proof -
  let ?l = "\<lparr>ls_transport = Webrtc_direct, ls_generation = 1, ls_locator = ''wss''\<rparr>"
  have "co_active (run (transport_step sample_drivers) sample_coordinator [Start]) = Some (0, ?l)"
    using sample_started by (simp del: transport_step.simps)
  moreover have "co_active (run (transport_step sample_drivers)
      (run (transport_step sample_drivers) sample_coordinator [Start]) [Fallback Webrtc_direct 1]) \<noteq> Some (0, ?l)"
    using sample_started
    by (simp add: fallback_transport_def assert_active_lease_def leave_active_def call_revoke_def start_driver_def
        call_start_def activate_def upt_rec Let_def del: transport_step.simps(1))
      (simp add: sample_drivers_def sample_coordinator_def activate_def Let_def)
  ultimately show ?thesis
    using former_lease_refused [OF sample_coordinator_created refl _ refl, of sample_drivers "[Start]" 0 ?l
        "[Fallback Webrtc_direct 1]" sample_drivers "[]"]
    by simp
qed

text \<open>C26. One transport at a time. While every awaited start that fails is confirmed revoked and no driver answers with
  a blank locator, then through any starts of either kind, advances, fallbacks and revocations at most one driver that was
  started is not confirmed revoked. It is the active one, except after a failed \<open>startSync\<close>, whose revocation is fired
  and not awaited: then it is the first driver, nothing is active, and no later call starts another driver.\<close>

theorem one_transport_at_a_time:
  assumes "create_coordinator policy kinds = Inr c0" and "failures_revoked env"
    and "c = run (transport_step env) c0 xs"
  shows "co_open c = (case co_active c of None \<Rightarrow> [] | Some (i, l) \<Rightarrow> [i])
    \<or> (\<exists>promised. Start_sync promised \<in> set xs) \<and> co_open c = [0] \<and> co_active c = None
      \<and> (\<forall>ys. co_open (run (transport_step env) c ys) = [0] \<and> co_active (run (transport_step env) c ys) = None)"
proof -
  have "exclusive c0"
    using assms(1) by (auto simp: create_coordinator_def exclusive_def split: option.splits if_splits)
  with exclusive_run [OF assms(2) create_coordinator_good [OF assms(1)], of xs] assms(3)
  have "exclusive c \<or> (\<exists>promised. Start_sync promised \<in> set xs) \<and> stuck c" by simp
  moreover have "stuck (run (transport_step env) c ys)" if "stuck c" for ys using that by (rule stuck.good_run)
  ultimately show ?thesis by (auto simp: exclusive_def stuck_def)
qed

theorem one_transport_at_a_time_witness:
  "co_open (run (transport_step sample_drivers) sample_coordinator [Start_sync False]) = [0]
   \<and> co_active (run (transport_step sample_drivers) sample_coordinator [Start_sync True]) = None
   \<and> co_open (run (transport_step sample_drivers) sample_coordinator [Start_sync True, Start, Fallback Webrtc_direct 1]) = [0]"
proof -
  have env: "failures_revoked sample_drivers" by (simp add: failures_revoked_def sample_drivers_def)
  have "co_active (run (transport_step sample_drivers) sample_coordinator [Start_sync False]) \<noteq> None"
    and none: "co_active (run (transport_step sample_drivers) sample_coordinator [Start_sync True]) = None"
    and open_: "co_open (run (transport_step sample_drivers) sample_coordinator [Start_sync True]) = [0]"
    by code_simp+
  moreover have "fst (the (co_active (run (transport_step sample_drivers) sample_coordinator [Start_sync False]))) = 0" by code_simp
  moreover note one_transport_at_a_time [OF sample_coordinator_created env refl, of "[Start_sync False]"]
  ultimately have one: "co_open (run (transport_step sample_drivers) sample_coordinator [Start_sync False]) = [0]"
    by (auto split: option.splits)
  have "\<forall>ys. co_open (run (transport_step sample_drivers) (run (transport_step sample_drivers) sample_coordinator [Start_sync True]) ys) = [0]"
    using one_transport_at_a_time [OF sample_coordinator_created env refl, of "[Start_sync True]"] none open_
    by (auto simp del: transport_step.simps foldl_Cons)
  then have "co_open (run (transport_step sample_drivers) (run (transport_step sample_drivers) sample_coordinator [Start_sync True])
      [Start, Fallback Webrtc_direct 1]) = [0]" by (rule spec)
  with one none show ?thesis by simp
qed

text \<open>C27. A blank locator lets two transports run together. If the driver that \<open>fallback\<close> starts answers with a
  blank locator, its revocation is fired and not awaited, and the next driver is started at once: at the end of the
  call two started drivers are not confirmed revoked, although the active one is only the second.\<close>

theorem blank_locator_overlaps:
  assumes "create_coordinator policy kinds = Inr c0" and "length kinds = 3"
    and "de_start env 0 = Locator a" and "trim a \<noteq> []" and "de_revoke env 1 = Revoke_done"
    and "de_start env 2 = Locator blank" and "trim blank = []" and "de_revoke env 3 \<noteq> Revoke_threw"
    and "de_start env 4 = Locator b" and "trim b \<noteq> []"
  shows "co_open (run (transport_step env) c0 [Start, Fallback (kinds ! 0) 1]) = [1, 2]"
proof -
  have c0: "co_started c0 = False" "co_generation c0 = 0" "co_calls c0 = []" "co_open c0 = []" "co_drivers c0 = kinds"
    using assms(1) by (auto simp: create_coordinator_def split: option.splits if_splits)
  let ?l = "\<lparr>ls_transport = kinds ! 0, ls_generation = 1, ls_locator = a\<rparr>"
  define c1 where "c1 = transport_step env c0 Start"
  have c1: "co_active c1 = Some (0, ?l)" "co_open c1 = [0]" "co_calls c1 = [Started 0 1]" "co_drivers c1 = kinds"
    using c0 assms(3,4)
    by (simp_all add: c1_def start_transport_def start_driver_def call_start_def activate_def Let_def)
  have "co_open (snd (fallback_transport env (ls_transport ?l) (ls_generation ?l) c1)) = [0 + 1, 0 + 2]"
    by (rule fallback_overlap [OF c1(1), of env blank b])
      (use c1 assms(2,5-10) in \<open>simp_all add: exclusive_def eval_nat_numeral\<close>)
  then show ?thesis by (simp add: c1_def)
qed

theorem blank_locator_overlaps_witness:
  "co_open (run (transport_step \<lparr>de_start = \<lambda>k. Locator (if k = 2 then '' '' else ''wss''),
      de_revoke = \<lambda>k. if k = 1 then Revoke_done else Revoke_rejected\<rparr>) sample_coordinator
     [Start, Fallback Webrtc_direct 1]) = [1, 2]"
  using blank_locator_overlaps [OF sample_coordinator_created, of "\<lparr>de_start = \<lambda>k. Locator (if k = 2 then '' '' else ''wss''),
      de_revoke = \<lambda>k. if k = 1 then Revoke_done else Revoke_rejected\<rparr>" "''wss''" "'' ''" "''wss''"]
  by (simp add: trim_def is_space_def char_code_def del: transport_step.simps foldl_Cons)

text \<open>A plan is what the policy lists. The order taken from a policy is its list, read word for word, with one
  to three transports and none twice; the successor of a completed attempt is the entry right after it, so
  following successors from any entry never returns to one already tried.\<close>

theorem attempt_order_is_the_policy:
  assumes "transport_attempt_order policy = Some order"
  shows "distinct order \<and> 1 \<le> length order \<and> length order \<le> 3
    \<and> (\<exists>ps vs. policy = JObj ps \<and> get_prop ps ''order'' = JArr vs \<and> map attempt_of vs = map Some order)
    \<and> (\<forall>i < length order. next_transport_attempt order (order ! i)
         = (if i + 1 < length order then Some (order ! (i + 1)) else None))"
proof -
  note order = transport_order_sound [OF assms]
  have "next_transport_attempt order (order ! i) = (if i + 1 < length order then Some (order ! (i + 1)) else None)"
    if "i < length order" for i
    using order(1) that
  proof (induction order arbitrary: i)
    case (Cons a order)
    show ?case
    proof (cases i)
      case 0
      then show ?thesis by (cases order) (simp_all add: next_transport_attempt_def)
    next
      case (Suc j)
      with Cons.prems have "order ! j \<noteq> a" by auto
      then have "next_transport_attempt (a # order) ((a # order) ! i) = next_transport_attempt order (order ! j)"
        using Suc by (auto simp: next_transport_attempt_def)
      with Cons.IH [of j] Cons.prems Suc show ?thesis by simp
    qed
  qed simp
  with order show ?thesis by simp
qed

theorem attempt_order_is_the_policy_witness:
  "next_transport_attempt [Webrtc_direct, Websocket_relay, Webrtc_relay] Websocket_relay = Some Webrtc_relay"
  using attempt_order_is_the_policy [OF sample_order] by (auto dest: spec [of _ 1])

end
