(* ===== verification/Doubles.thy ===== *)
theory Doubles
  imports Handoff_Prelude "HOL-Library.Log_Nat"
begin

text \<open>
  The numbers of the program are IEEE doubles. A finite \<open>jsnum\<close> is a rational; \<open>to_double\<close> rounds one to the nearest double,
  ties to even, with gradual underflow and overflow to the infinities. The operators round their exact result. The sign
  of zero is left out: no operation of the modelled code divides by a zero, and none returns one unclean.
\<close>

section \<open>Rounding\<close>

text \<open>The exponent of a positive number: \<open>2 powi e \<le> q < 2 powi (e + 1)\<close>.\<close>

definition rat_exponent :: "rat \<Rightarrow> int" where
  "rat_exponent q = (if 1 \<le> q then int (floorlog 2 (nat \<lfloor>q\<rfloor>)) - 1 else - int (floorlog 2 (nat (\<lceil>1 / q\<rceil> - 1))))"

lemma rat_exponent_bounds:
  assumes "0 < q"
  shows "2 powi rat_exponent q \<le> q \<and> q < 2 powi (rat_exponent q + 1)"
proof (cases "1 \<le> q")
  case True
  define n where "n = nat \<lfloor>q\<rfloor>"
  define l where "l = floorlog 2 n"
  have n: "0 < n" using True by (simp add: n_def)
  then have l: "2 ^ (l - 1) \<le> n" "n < 2 ^ l" using floorlog_bounds [of n 2] by (simp_all add: l_def)
  have "0 < l" using n l(2) by (cases l) simp_all
  have q: "of_nat n \<le> q" "q < of_nat n + 1" using True by (simp_all add: n_def) linarith
  have "(2 :: rat) ^ (l - 1) \<le> of_nat n" using l(1) by (metis of_nat_le_iff of_nat_numeral of_nat_power)
  moreover have "of_nat (n + 1) \<le> (2 :: rat) ^ l" using l(2) by (metis Suc_eq_plus1 Suc_leI of_nat_le_iff of_nat_numeral of_nat_power)
  moreover have "rat_exponent q = int (l - 1)" using True \<open>0 < l\<close> by (simp add: rat_exponent_def l_def n_def)
  moreover have "int (l - 1) + 1 = int l" using \<open>0 < l\<close> by simp
  ultimately have "2 powi rat_exponent q = (2 :: rat) ^ (l - 1)" "2 powi (rat_exponent q + 1) = (2 :: rat) ^ l"
      "(2 :: rat) ^ (l - 1) \<le> q" "q < 2 ^ l"
    using q by (simp_all only: power_int_of_nat)
  then show ?thesis by simp
next
  case False
  define m where "m = nat (\<lceil>1 / q\<rceil> - 1)"
  define k where "k = floorlog 2 m"
  have "1 < 1 / q" using False assms by simp
  then have c: "2 \<le> \<lceil>1 / q\<rceil>" by linarith
  then have "0 \<le> \<lceil>1 / q\<rceil> - 1" "0 < m" unfolding m_def by linarith+
  then have m: "0 < m" "of_nat m = (of_int (\<lceil>1 / q\<rceil> - 1) :: rat)" by (simp_all only: m_def of_nat_nat)
  then have k: "2 ^ (k - 1) \<le> m" "m < 2 ^ k" using floorlog_bounds [of m 2] by (simp_all add: k_def)
  have "0 < k" using m(1) k(2) by (cases k) simp_all
  have "1 / q \<le> of_nat m + 1" "of_nat m < 1 / q" using m(2) by (simp_all, linarith+)
  moreover have "of_nat (m + 1) \<le> (2 :: rat) ^ k" using k(2) by (metis Suc_eq_plus1 Suc_leI of_nat_le_iff of_nat_numeral of_nat_power)
  moreover have "(2 :: rat) ^ (k - 1) \<le> of_nat m" using k(1) by (metis of_nat_le_iff of_nat_numeral of_nat_power)
  ultimately have "1 / q \<le> 2 ^ k" "2 ^ (k - 1) < 1 / q" by (simp, linarith)
  then have "1 / 2 ^ k \<le> q" "q < 1 / 2 ^ (k - 1)" using assms by (simp_all add: field_simps)
  moreover have "rat_exponent q = - int k" using False by (simp add: rat_exponent_def k_def m_def)
  moreover have "- int k + 1 = - int (k - 1)" using \<open>0 < k\<close> by simp
  ultimately show ?thesis by (simp only: power_int_minus power_int_of_nat) (simp add: inverse_eq_divide)
qed

definition round_half_even :: "rat \<Rightarrow> int" where
  "round_half_even x = (let n = \<lfloor>x\<rfloor>; d = x - of_int n in
     if d < 1 / 2 then n else if 1 / 2 < d then n + 1 else if even n then n else n + 1)"

lemma round_half_even_error: "\<bar>of_int (round_half_even x) - x\<bar> \<le> 1 / 2"
  unfolding round_half_even_def Let_def by (auto simp: abs_if) linarith+

lemma round_half_even_of_int [simp]: "round_half_even (of_int n) = n"
  by (simp add: round_half_even_def)

lemma round_half_even_sign: "0 \<le> x \<Longrightarrow> 0 \<le> round_half_even x"
  by (auto simp: round_half_even_def Let_def)

lemma round_half_even_minus: "round_half_even (- x) = - round_half_even x"
proof (cases "x = of_int \<lfloor>x\<rfloor>")
  case True
  then show ?thesis by (metis of_int_minus round_half_even_of_int)
next
  case False
  have "\<lceil>x\<rceil> = \<lfloor>x\<rfloor> + 1" using False by linarith
  then have f: "\<lfloor>- x\<rfloor> = - \<lfloor>x\<rfloor> - 1" by (simp add: floor_minus)
  then have "- x - of_int \<lfloor>- x\<rfloor> = 1 - (x - of_int \<lfloor>x\<rfloor>)" by simp
  then show ?thesis unfolding round_half_even_def Let_def f by (auto simp: algebra_simps)
qed

definition double_ulp :: "rat \<Rightarrow> rat" where
  "double_ulp q = 2 powi (max (rat_exponent \<bar>q\<bar>) (- 1022) - 52)"

text \<open>The double nearest to a number, ties to even, with gradual underflow and overflow; the sign of zero is left out.\<close>

definition to_double :: "rat \<Rightarrow> jsnum" where
  "to_double q = (if q = 0 then Fin 0
     else let r = of_int (round_half_even (q / double_ulp q)) * double_ulp q in
       if 2 ^ 1024 \<le> r then PosInf else if r \<le> - (2 ^ 1024) then NegInf else Fin r)"

lemma double_ulp_pos: "0 < double_ulp q"
  by (simp add: double_ulp_def)

lemma rounded_error:
  assumes "q \<noteq> 0"
  shows "\<bar>of_int (round_half_even (q / double_ulp q)) * double_ulp q - q\<bar> \<le> 2 powi (- 53) * \<bar>q\<bar> + 2 powi (- 1075)"
proof -
  let ?u = "double_ulp q" and ?e = "rat_exponent \<bar>q\<bar>"
  have u: "0 < ?u" by (rule double_ulp_pos)
  have "\<bar>of_int (round_half_even (q / ?u)) * ?u - q\<bar> = \<bar>of_int (round_half_even (q / ?u)) - q / ?u\<bar> * ?u"
    using u by (simp add: abs_mult field_simps)
  also have "\<dots> \<le> 1 / 2 * ?u" using round_half_even_error [of "q / ?u"] u by (intro mult_right_mono) simp_all
  also have "\<dots> = 2 powi (max ?e (- 1022) - 53)"
    by (simp add: double_ulp_def power_int_diff)
  also have "\<dots> \<le> 2 powi (- 53) * \<bar>q\<bar> + 2 powi (- 1075)"
  proof (cases "?e \<le> - 1022")
    case True
    then show ?thesis by (simp add: max_def)
  next
    case False
    have "2 powi (?e - 53) = 2 powi (- 53) * (2 powi ?e :: rat)" by (simp add: power_int_diff power_int_minus field_simps)
    also have "\<dots> \<le> 2 powi (- 53) * \<bar>q\<bar>" using rat_exponent_bounds [of "\<bar>q\<bar>"] assms by (intro mult_left_mono) simp_all
    finally have "2 powi (?e - 53) \<le> 2 powi (- 53) * \<bar>q\<bar>" .
    moreover have "0 \<le> (2 powi (- 1075) :: rat)" by simp
    moreover have m: "max ?e (- 1022) = ?e" using False by simp
    ultimately show ?thesis unfolding m by linarith
  qed
  finally show ?thesis .
qed

lemma to_double_error:
  assumes "to_double q = Fin r"
  shows "\<bar>r - q\<bar> \<le> 2 powi (- 53) * \<bar>q\<bar> + 2 powi (- 1075)" and "\<bar>r\<bar> < 2 ^ 1024"
proof -
  show "\<bar>r - q\<bar> \<le> 2 powi (- 53) * \<bar>q\<bar> + 2 powi (- 1075)"
  proof (cases "q = 0")
    case False
    with assms have "r = of_int (round_half_even (q / double_ulp q)) * double_ulp q"
      by (simp add: to_double_def Let_def split: if_splits)
    then show ?thesis using rounded_error [OF False] by simp
  qed (use assms in \<open>simp add: to_double_def\<close>)
  show "\<bar>r\<bar> < 2 ^ 1024" using assms by (auto simp: to_double_def Let_def abs_less_iff not_le simp del: power_numeral split: if_splits)
qed

lemma to_double_finite:
  assumes "\<bar>q\<bar> + (2 powi (- 53) * \<bar>q\<bar> + 2 powi (- 1075)) < 2 ^ 1024"
  shows "\<exists>r. to_double q = Fin r"
proof (cases "q = 0")
  case False
  let ?r = "of_int (round_half_even (q / double_ulp q)) * double_ulp q"
  have "\<bar>?r\<bar> < 2 ^ 1024" using rounded_error [OF False] assms by linarith
  then show ?thesis using False by (auto simp: to_double_def Let_def abs_less_iff simp del: power_numeral)
qed (simp add: to_double_def)

lemma to_double_sign:
  assumes "0 \<le> q"
  shows "to_double q \<noteq> NegInf" and "to_double q = Fin r \<Longrightarrow> 0 \<le> r"
proof -
  have "0 \<le> of_int (round_half_even (q / double_ulp q)) * double_ulp q"
    using round_half_even_sign [of "q / double_ulp q"] assms double_ulp_pos [of q] by simp
  then show "to_double q \<noteq> NegInf" "to_double q = Fin r \<Longrightarrow> 0 \<le> r"
    by (auto simp: to_double_def Let_def simp del: power_numeral split: if_splits)
qed

fun num_negate :: "jsnum \<Rightarrow> jsnum" where
  "num_negate (Fin a) = Fin (- a)"
| "num_negate PosInf = NegInf"
| "num_negate NegInf = PosInf"
| "num_negate NaN = NaN"

lemma clip_minus:
  fixes r t :: rat
  assumes "0 < t"
  shows "(if t \<le> - r then PosInf else if - r \<le> - t then NegInf else Fin (- r))
    = num_negate (if t \<le> r then PosInf else if r \<le> - t then NegInf else Fin r)"
  using assms by auto

lemma to_double_minus: "to_double (- q) = num_negate (to_double q)"
proof (cases "q = 0")
  case False
  have "double_ulp (- q) = double_ulp q" by (simp add: double_ulp_def)
  then have "of_int (round_half_even (- q / double_ulp (- q))) * double_ulp (- q)
      = - (of_int (round_half_even (q / double_ulp q)) * double_ulp q)"
    by (simp add: round_half_even_minus)
  moreover have "(0 :: rat) < 2 ^ 1024" by (rule zero_less_power) simp
  ultimately show ?thesis using False clip_minus by (simp add: to_double_def Let_def del: power_numeral)
qed (simp add: to_double_def)

lemma to_double_NaN [simp]: "to_double q \<noteq> NaN"
  by (simp add: to_double_def Let_def)

text \<open>A number of at most 53 bits is a double.\<close>

lemma to_double_exact:
  assumes "q = of_int m * 2 powi k" and "\<bar>m\<bar> < 2 ^ 53" and "- 1074 \<le> k" and "\<bar>q\<bar> < 2 ^ 1024"
  shows "to_double q = Fin q"
proof (cases "q = 0")
  case False
  let ?e = "rat_exponent \<bar>q\<bar>" and ?u = "max (rat_exponent \<bar>q\<bar>) (- 1022) - 52"
  have "\<bar>of_int m\<bar> < (2 ^ 53 :: rat)" using assms(2) by (metis of_int_abs of_int_less_iff of_int_numeral of_int_power)
  then have "\<bar>q\<bar> < 2 ^ 53 * 2 powi k" using assms(1) by (simp add: abs_mult)
  also have "\<dots> = 2 powi (53 + k)" by (simp add: power_int_add)
  finally have "2 powi ?e < (2 powi (53 + k) :: rat)" using rat_exponent_bounds [of "\<bar>q\<bar>"] False by linarith
  then have "?e < 53 + k" using power_int_increasing [of "53 + k" ?e "2 :: rat"] by linarith
  then have u: "?u \<le> k" using assms(3) by simp
  have "q / double_ulp q = of_int m * 2 powi (k - ?u)" using assms(1) by (simp add: double_ulp_def power_int_diff)
  also have "\<dots> = of_int (m * 2 ^ nat (k - ?u))" using u by (simp add: power_int_def)
  finally have "round_half_even (q / double_ulp q) = m * 2 ^ nat (k - ?u)" by (simp only: round_half_even_of_int)
  moreover have "of_int (m * 2 ^ nat (k - ?u)) * double_ulp q = q"
    using \<open>q / double_ulp q = of_int m * 2 powi (k - ?u)\<close> u double_ulp_pos [of q]
    by (simp add: power_int_def field_simps)
  ultimately show ?thesis using False assms(4) by (simp add: to_double_def abs_less_iff del: power_numeral)
qed (simp add: to_double_def)

lemma to_double_small:
  "to_double 0 = Fin 0" "to_double 1 = Fin 1" "numeral k < (2 ^ 53 :: int) \<Longrightarrow> to_double (numeral k) = Fin (numeral k)"
  "to_double (1 / 2) = Fin (1 / 2)"
proof -
  have big: "(2 :: rat) ^ 53 < 2 ^ 1024" by (rule power_strict_increasing) simp_all
  show "to_double 0 = Fin 0" by (simp add: to_double_def)
  show "to_double 1 = Fin 1" using to_double_exact [of 1 1 0] big by (simp del: power_numeral)
  show "to_double (1 / 2) = Fin (1 / 2)"
  proof (rule to_double_exact [of _ 1 "- 1"])
    show "\<bar>1 / 2 :: rat\<bar> < 2 ^ 1024" by (rule order_less_trans [OF _ big]) simp
  qed (simp_all add: power_int_minus)
  assume k: "numeral k < (2 ^ 53 :: int)"
  then have "(numeral k :: rat) < 2 ^ 53" by (metis of_int_less_iff of_int_numeral of_int_power)
  then have "\<bar>numeral k\<bar> < (2 :: rat) ^ 1024" using order_less_trans [OF _ big] by (simp del: power_numeral)
  then show "to_double (numeral k) = Fin (numeral k)" using to_double_exact [of "numeral k" "numeral k" 0] k by (simp del: power_numeral)
qed

section \<open>Arithmetic\<close>

text \<open>\<open>+\<close>, \<open>-\<close>, \<open>*\<close> and \<open>/\<close> on doubles: the exact result, rounded. A zero divisor is taken to be the positive zero.\<close>

fun num_sign :: "jsnum \<Rightarrow> rat" where
  "num_sign (Fin a) = sgn a"
| "num_sign PosInf = 1"
| "num_sign NegInf = - 1"
| "num_sign NaN = 0"

definition infinite_of_sign :: "rat \<Rightarrow> jsnum" where
  "infinite_of_sign s = (if s = 0 then NaN else if 0 < s then PosInf else NegInf)"

fun double_plus :: "jsnum \<Rightarrow> jsnum \<Rightarrow> jsnum" where
  "double_plus (Fin a) (Fin b) = to_double (a + b)"
| "double_plus a b = num_plus a b"

definition double_minus :: "jsnum \<Rightarrow> jsnum \<Rightarrow> jsnum" where
  "double_minus a b = double_plus a (num_negate b)"

fun double_times :: "jsnum \<Rightarrow> jsnum \<Rightarrow> jsnum" where
  "double_times (Fin a) (Fin b) = to_double (a * b)"
| "double_times a b = infinite_of_sign (num_sign a * num_sign b)"

fun double_div :: "jsnum \<Rightarrow> jsnum \<Rightarrow> jsnum" where
  "double_div (Fin a) (Fin b) = (if b = 0 then infinite_of_sign a else to_double (a / b))"
| "double_div NaN b = NaN"
| "double_div a NaN = NaN"
| "double_div (Fin a) b = Fin 0"
| "double_div a (Fin b) = infinite_of_sign (num_sign a * (if b < 0 then - 1 else 1))"
| "double_div a b = NaN"

text \<open>\<open>Math.min\<close> and \<open>Math.max\<close>.\<close>

definition double_min :: "jsnum \<Rightarrow> jsnum \<Rightarrow> jsnum" where
  "double_min a b = (if a = NaN \<or> b = NaN then NaN else if num_le a b then a else b)"

definition double_max :: "jsnum \<Rightarrow> jsnum \<Rightarrow> jsnum" where
  "double_max a b = (if a = NaN \<or> b = NaN then NaN else if num_le a b then b else a)"

lemma double_min_max_Fin [simp]:
  "double_min (Fin a) (Fin b) = Fin (min a b)" "double_max (Fin a) (Fin b) = Fin (max a b)"
  by (simp_all add: double_min_def double_max_def min_def max_def)

lemma double_minus_Fin [simp]: "double_minus (Fin a) (Fin b) = to_double (a - b)"
  by (simp add: double_minus_def)

section \<open>Accuracy\<close>

text \<open>Half a unit in the last place, relative and absolute.\<close>

definition double_eps :: rat where "double_eps = 2 powi (- 53)"
definition double_tiny :: rat where "double_tiny = 2 powi (- 1075)"

lemma double_eps_tiny: "0 < double_tiny" "1024 * double_tiny \<le> double_eps" "double_eps * 1024 \<le> 1" "2 powi (- 51) = 4 * double_eps"
  by (simp_all add: double_eps_def double_tiny_def power_int_minus)

lemmas rounding_error = to_double_error(1) [folded double_eps_def double_tiny_def]
lemmas rounding_finite = to_double_finite [folded double_eps_def double_tiny_def]

lemma eps_small: "double_eps * \<bar>v\<bar> \<le> \<bar>v\<bar> / 1024"
  using mult_right_mono [of "double_eps * 1024" 1 "\<bar>v\<bar>"] double_eps_tiny(3) by simp

lemma eps_scaled: "\<bar>v\<bar> \<le> k \<Longrightarrow> double_eps * \<bar>v\<bar> \<le> double_eps * k"
  using double_eps_tiny(1,2) by (intro mult_left_mono) simp_all

text \<open>The first rounding of \<open>(a - b) / c\<close>.\<close>

lemma difference_scaled:
  assumes "to_double (a - b) = Fin d" and "1 \<le> c"
  shows "\<bar>d / c - (a - b) / c\<bar> \<le> double_eps * \<bar>(a - b) / c\<bar> + double_tiny"
proof -
  have c: "0 < c" using assms(2) by simp
  have "\<bar>d - (a - b)\<bar> / c \<le> (double_eps * \<bar>a - b\<bar> + double_tiny) / c"
    using rounding_error [OF assms(1)] c by (intro divide_right_mono) simp_all
  moreover have "\<bar>d - (a - b)\<bar> / c = \<bar>d / c - (a - b) / c\<bar>" using c by (simp add: abs_divide flip: diff_divide_distrib)
  moreover have "(double_eps * \<bar>a - b\<bar> + double_tiny) / c = double_eps * \<bar>(a - b) / c\<bar> + double_tiny / c"
    using c by (simp add: abs_divide add_divide_distrib)
  moreover have "double_tiny / c \<le> double_tiny" using assms(2) double_eps_tiny(1) by (simp add: divide_le_eq)
  ultimately show ?thesis by simp
qed

text \<open>A quotient that comes out between 0 and 1 is off by at most \<open>2 powi (- 51)\<close>.\<close>

lemma quotient_accurate:
  assumes "to_double (a - b) = Fin d" and "to_double (d / c) = Fin x" and "1 \<le> c" and "\<bar>x\<bar> \<le> 1"
  shows "\<bar>x - (a - b) / c\<bar> \<le> 2 powi (- 51)"
proof -
  define y z where "y = d / c" and "z = (a - b) / c"
  have y: "\<bar>y - z\<bar> \<le> double_eps * \<bar>z\<bar> + double_tiny" using difference_scaled [OF assms(1,3)] by (simp add: y_def z_def)
  have x: "\<bar>x - y\<bar> \<le> double_eps * \<bar>y\<bar> + double_tiny" using rounding_error [OF assms(2)] by (simp add: y_def)
  have "\<bar>y\<bar> \<le> 9 / 8" using x eps_small [of y] assms(4) double_eps_tiny(1-3) by linarith
  moreover from this have "\<bar>z\<bar> \<le> 5 / 4" using y eps_small [of z] double_eps_tiny(1-3) by linarith
  ultimately have "double_eps * \<bar>y\<bar> \<le> double_eps * (5 / 4)" "double_eps * \<bar>z\<bar> \<le> double_eps * (5 / 4)"
    by (intro eps_scaled; linarith)+
  then have "\<bar>x - z\<bar> \<le> 4 * double_eps" using x y double_eps_tiny(1,2) by linarith
  then show ?thesis unfolding z_def double_eps_tiny(4) .
qed

text \<open>A quotient that is between 0 and 1, and not within \<open>2 powi (- 51)\<close> of 1, comes out between 0 and 1.\<close>

lemma quotient_in_range:
  assumes "1 \<le> c" and "c < 2 ^ 1024" and "0 \<le> (a - b) / c" and "(a - b) / c \<le> 1 - 2 powi (- 51)"
  shows "\<exists>d x. to_double (a - b) = Fin d \<and> to_double (d / c) = Fin x \<and> 0 \<le> x \<and> x \<le> 1"
proof -
  define z where "z = (a - b) / c"
  have c: "0 < c" using assms(1) by simp
  have z: "0 \<le> z" "z \<le> 1 - 4 * double_eps" using assms(3,4) unfolding z_def double_eps_tiny(4) .
  have ab: "a - b = z * c" using c by (simp add: z_def)
  then have ab0: "0 \<le> a - b" using z(1) c by simp
  have "z * c \<le> (1 - 4 * double_eps) * c" using z(2) c by (intro mult_right_mono) simp_all
  then have small: "a - b \<le> c - 4 * (double_eps * c)" using ab by (simp add: algebra_simps)
  have "double_eps \<le> double_eps * c" using mult_left_mono [OF assms(1), of double_eps] double_eps_tiny(1,2) by simp
  moreover have "double_eps * \<bar>a - b\<bar> \<le> double_eps * c" using ab0 small \<open>double_eps \<le> double_eps * c\<close> double_eps_tiny(1,2) by (intro eps_scaled) linarith
  ultimately have "\<bar>a - b\<bar> + (double_eps * \<bar>a - b\<bar> + double_tiny) < 2 ^ 1024"
    using ab0 small double_eps_tiny(1,2) assms(2) by linarith
  then obtain d where d: "to_double (a - b) = Fin d" using rounding_finite by blast
  then have "0 \<le> d" using to_double_sign(2) [OF ab0] by simp
  then have y0: "0 \<le> d / c" using c by simp
  have "\<bar>d / c - z\<bar> \<le> double_eps * \<bar>z\<bar> + double_tiny" using difference_scaled [OF d assms(1)] by (simp add: z_def)
  moreover have "double_eps * \<bar>z\<bar> \<le> double_eps * 1" using z double_eps_tiny(1,2) by (intro eps_scaled) linarith
  ultimately have y1: "d / c \<le> 1 - 2 * double_eps" using z double_eps_tiny(1,2) by linarith
  have e: "double_eps * \<bar>d / c\<bar> \<le> double_eps * 1" using y0 y1 double_eps_tiny(1,2) by (intro eps_scaled) linarith
  have "(2 :: rat) \<le> 2 ^ 1024" by (rule self_le_power) simp_all
  then have "\<bar>d / c\<bar> + (double_eps * \<bar>d / c\<bar> + double_tiny) < 2 ^ 1024" using e y0 y1 double_eps_tiny(1-3) by linarith
  then obtain x where x: "to_double (d / c) = Fin x" using rounding_finite by blast
  have "\<bar>x - d / c\<bar> \<le> double_eps * \<bar>d / c\<bar> + double_tiny" by (rule rounding_error [OF x])
  then have "x \<le> 1" using e y1 double_eps_tiny(1,2) by linarith
  with d x to_double_sign(2) [OF y0 x] show ?thesis by blast
qed

end
