(* ===== verification/Viewer.thy ===== *)
theory Viewer
  imports Fencing Doubles
begin

text \<open>
  \<open>src/desktop-session/desktop-session.ts\<close> and \<open>src/target-surface/os-window.ts\<close>: the
  viewer generations of one desktop session, the viewer layout and the mapping of viewer points to
  the authorised surface, and the selection and geometry of one bounded window. The arithmetic is that of doubles
  (\<open>Doubles\<close>), rounding and overflow included.
\<close>

section \<open>The session boundary\<close>

datatype desktop_error =
    DESKTOP_SESSION_TARGET_INVALID
  | DESKTOP_SESSION_CLOSED
  | DESKTOP_VIEWER_ALREADY_ATTACHED
  | DESKTOP_VIEWER_GENERATION_STALE
  | DESKTOP_VIEWER_LAYOUT_INVALID
  | DESKTOP_VIEWER_POINT_OUTSIDE_SURFACE
  | DESKTOP_DISPLAY_RESIZE_UNSUPPORTED

record session_target =
  st_kind :: string
  st_process :: jsnum
  st_window :: "jsnum option"

record desktop_session =
  ds_target :: session_target
  ds_closed :: bool
  ds_attached :: bool
  ds_generation :: int

definition positive_safe :: "jsnum \<Rightarrow> bool" where
  "positive_safe n \<longleftrightarrow> num_safe_integer n \<and> 0 < num_to_int n"

definition valid_target :: "session_target \<Rightarrow> bool" where
  "valid_target t \<longleftrightarrow> st_kind t = ''bounded_window'' \<and> positive_safe (st_process t)
     \<and> (case st_window t of None \<Rightarrow> True | Some w \<Rightarrow> positive_safe w)"

definition same_target :: "session_target \<Rightarrow> session_target \<Rightarrow> bool" where
  "same_target a b \<longleftrightarrow> st_kind a = st_kind b \<and> num_eq (st_process a) (st_process b)
     \<and> (case (st_window a, st_window b) of
          (None, None) \<Rightarrow> True | (Some v, Some w) \<Rightarrow> num_eq v w | _ \<Rightarrow> False)"

definition create_desktop_session :: "session_target \<Rightarrow> desktop_error + desktop_session" where
  "create_desktop_session t = (if \<not> valid_target t then Inl DESKTOP_SESSION_TARGET_INVALID
     else Inr \<lparr>ds_target = t, ds_closed = False, ds_attached = False, ds_generation = 0\<rparr>)"

definition attach_viewer :: "jsnum \<Rightarrow> desktop_session \<Rightarrow> (desktop_error + int) \<times> desktop_session" where
  "attach_viewer g s =
     (if ds_closed s then (Inl DESKTOP_SESSION_CLOSED, s)
      else if \<not> num_safe_integer g \<or> num_le g (num_of_int (ds_generation s)) \<or> num_le g (num_of_int 0)
      then (Inl DESKTOP_VIEWER_GENERATION_STALE, s)
      else if ds_attached s then (Inl DESKTOP_VIEWER_ALREADY_ATTACHED, s)
      else (Inr (num_to_int g), s\<lparr>ds_generation := num_to_int g, ds_attached := True\<rparr>))"

definition detach_viewer :: "jsnum \<Rightarrow> desktop_session \<Rightarrow> (desktop_error + unit) \<times> desktop_session" where
  "detach_viewer g s =
     (if \<not> ds_attached s \<or> \<not> num_eq g (num_of_int (ds_generation s))
      then (Inl DESKTOP_VIEWER_GENERATION_STALE, s) else (Inr (), s\<lparr>ds_attached := False\<rparr>))"

definition detach_current_viewer :: "desktop_session \<Rightarrow> desktop_session" where
  "detach_current_viewer s = s\<lparr>ds_attached := False\<rparr>"

definition assert_same_target :: "session_target \<Rightarrow> desktop_session \<Rightarrow> desktop_error + unit" where
  "assert_same_target t s = (if \<not> valid_target t \<or> \<not> same_target (ds_target s) t
     then Inl DESKTOP_SESSION_TARGET_INVALID else Inr ())"

definition close_desktop_session :: "desktop_session \<Rightarrow> desktop_session" where
  "close_desktop_session s = s\<lparr>ds_attached := False, ds_closed := True\<rparr>"

datatype desktop_call = Attach jsnum | Detach jsnum | Detach_current | Close_desktop

fun desktop_step :: "desktop_session \<Rightarrow> desktop_call \<Rightarrow> desktop_session" where
  "desktop_step s (Attach g) = snd (attach_viewer g s)"
| "desktop_step s (Detach g) = snd (detach_viewer g s)"
| "desktop_step s Detach_current = detach_current_viewer s"
| "desktop_step s Close_desktop = close_desktop_session s"

definition desktop_good :: "desktop_session \<Rightarrow> bool" where
  "desktop_good s \<longleftrightarrow> valid_target (ds_target s) \<and> 0 \<le> ds_generation s \<and> safe_int (ds_generation s)
     \<and> (ds_attached s \<longrightarrow> \<not> ds_closed s \<and> 0 < ds_generation s)"

lemma attach_viewer_ok:
  "fst (attach_viewer g s) = Inr k \<longleftrightarrow> \<not> ds_closed s \<and> \<not> ds_attached s \<and> g = num_of_int k \<and> safe_int k
     \<and> ds_generation s < k \<and> 0 < k"
  by (cases g) (auto simp: attach_viewer_def num_safe_integer_def not_le floor_less_iff dest: num_integerD)

lemma attach_viewer_state:
  "snd (attach_viewer g s) = (case fst (attach_viewer g s) of Inl e \<Rightarrow> s
     | Inr k \<Rightarrow> s\<lparr>ds_generation := k, ds_attached := True\<rparr>)"
  by (simp add: attach_viewer_def)

lemma desktop_good_step [wf_intros]: "desktop_good s \<Longrightarrow> desktop_good (desktop_step s c)"
proof (cases c)
  case (Attach g)
  assume good: "desktop_good s"
  show ?thesis
  proof (cases "fst (attach_viewer g s)")
    case (Inr k)
    then have "desktop_step s c = s\<lparr>ds_generation := k, ds_attached := True\<rparr>"
      by (simp add: Attach attach_viewer_state)
    with attach_viewer_ok [THEN iffD1, OF Inr] good show ?thesis by (simp add: desktop_good_def)
  qed (use good Attach in \<open>simp add: attach_viewer_state\<close>)
qed (auto simp: desktop_good_def detach_viewer_def detach_current_viewer_def close_desktop_session_def)

lemma viewer_generation_step: "ds_generation s \<le> ds_generation (desktop_step s c)"
proof (cases c)
  case (Attach g)
  show ?thesis
  proof (cases "fst (attach_viewer g s)")
    case (Inr k)
    then have "desktop_step s c = s\<lparr>ds_generation := k, ds_attached := True\<rparr>"
      by (simp add: Attach attach_viewer_state)
    with attach_viewer_ok [THEN iffD1, OF Inr] show ?thesis by simp
  qed (use Attach in \<open>simp add: attach_viewer_state\<close>)
qed (auto simp: detach_viewer_def detach_current_viewer_def close_desktop_session_def)

text \<open>A viewer may detach only as the current generation, and a generation attaches once.\<close>

definition admits_viewer :: "desktop_session \<Rightarrow> int \<Rightarrow> bool" where
  "admits_viewer s g \<longleftrightarrow> fst (detach_viewer (num_of_int g) s) = Inr ()"

interpretation viewer_fence: fenced_machine desktop_step desktop_good ds_generation admits_viewer
  by unfold_locales
    (auto simp: desktop_good_step viewer_generation_step admits_viewer_def detach_viewer_def
      split: if_splits)

lemma attach_stale:
  assumes "k \<le> ds_generation s"
  shows "isl (fst (attach_viewer (num_of_int k) (run desktop_step s cs)))"
proof -
  have "ds_generation s \<le> ds_generation (run desktop_step s cs)"
    by (induction cs arbitrary: s) (auto intro: order_trans viewer_generation_step)
  with assms have "fst (attach_viewer (num_of_int k) (run desktop_step s cs)) \<noteq> Inr j" for j
    by (auto simp: attach_viewer_ok)
  then show ?thesis by (metis is_ok_Inr_iff)
qed

definition desktop_closed :: "desktop_session \<Rightarrow> bool" where
  "desktop_closed s \<longleftrightarrow> ds_closed s \<and> \<not> ds_attached s"

interpretation closed_desktop: guarded_machine desktop_step desktop_closed
proof unfold_locales
  fix s c
  assume "desktop_closed s"
  then show "desktop_closed (desktop_step s c)"
    by (cases c) (auto simp: desktop_closed_def attach_viewer_def detach_viewer_def
        detach_current_viewer_def close_desktop_session_def)
qed

section \<open>The viewer layout\<close>

datatype viewer_mode = Fit | Actual_size | Adaptive

record layout_request =
  lr_mode :: viewer_mode
  lr_surface_width :: jsnum
  lr_surface_height :: jsnum
  lr_viewport_width :: jsnum
  lr_viewport_height :: jsnum
  lr_zoom :: "jsnum option"
  lr_pan_x :: "jsnum option"
  lr_pan_y :: "jsnum option"

record viewer_layout =
  vl_mode :: viewer_mode
  vl_surface_width :: jsnum
  vl_surface_height :: jsnum
  vl_viewport_width :: jsnum
  vl_viewport_height :: jsnum
  vl_base_scale :: jsnum
  vl_zoom :: jsnum
  vl_rendered_width :: jsnum
  vl_rendered_height :: jsnum
  vl_offset_x :: jsnum
  vl_offset_y :: jsnum

definition valid_dimension :: "jsnum \<Rightarrow> bool" where
  "valid_dimension n \<longleftrightarrow> num_finite n \<and> num_lt (Fin 0) n"

definition clamp :: "jsnum \<Rightarrow> jsnum \<Rightarrow> jsnum \<Rightarrow> jsnum" where
  "clamp v lo hi = double_max lo (double_min hi v)"

text \<open>One axis: the widest pan, and the offset of the rendered surface.\<close>

definition max_pan :: "jsnum \<Rightarrow> jsnum \<Rightarrow> jsnum" where
  "max_pan rendered viewport = double_max (Fin 0) (double_div (double_minus rendered viewport) (Fin 2))"

definition axis_offset :: "jsnum \<Rightarrow> jsnum \<Rightarrow> jsnum \<Rightarrow> jsnum" where
  "axis_offset rendered viewport pan = double_plus (double_div (double_minus viewport rendered) (Fin 2))
     (clamp pan (num_negate (max_pan rendered viewport)) (max_pan rendered viewport))"

definition resolve_layout :: "layout_request \<Rightarrow> desktop_error + viewer_layout" where
  "resolve_layout r =
     (if \<not> valid_dimension (lr_surface_width r) \<or> \<not> valid_dimension (lr_surface_height r)
        \<or> \<not> valid_dimension (lr_viewport_width r) \<or> \<not> valid_dimension (lr_viewport_height r)
      then Inl DESKTOP_VIEWER_LAYOUT_INVALID
      else (let zoom = (case lr_zoom r of None \<Rightarrow> num_of_int 1 | Some z \<Rightarrow> z);
                panx = (case lr_pan_x r of None \<Rightarrow> num_of_int 0 | Some z \<Rightarrow> z);
                pany = (case lr_pan_y r of None \<Rightarrow> num_of_int 0 | Some z \<Rightarrow> z) in
        if \<not> num_finite zoom \<or> num_lt zoom (Fin 1) \<or> num_lt (Fin 4) zoom \<or> \<not> num_finite panx \<or> \<not> num_finite pany
        then Inl DESKTOP_VIEWER_LAYOUT_INVALID
        else (let sw = lr_surface_width r; sh = lr_surface_height r;
                  vw = lr_viewport_width r; vh = lr_viewport_height r;
                  base = (if lr_mode r = Actual_size then Fin 1 else double_min (double_div vw sw) (double_div vh sh));
                  rw = double_times (double_times sw base) zoom; rh = double_times (double_times sh base) zoom
          in Inr \<lparr>vl_mode = lr_mode r, vl_surface_width = sw, vl_surface_height = sh,
               vl_viewport_width = vw, vl_viewport_height = vh, vl_base_scale = base,
               vl_zoom = zoom, vl_rendered_width = rw, vl_rendered_height = rh,
               vl_offset_x = axis_offset rw vw panx, vl_offset_y = axis_offset rh vh pany\<rparr>)))"

text \<open>\<open>cleanZero\<close> has nothing to do here: zero has no sign in the model.\<close>

definition point_to_surface :: "viewer_layout \<Rightarrow> jsnum \<Rightarrow> jsnum \<Rightarrow> desktop_error + jsnum \<times> jsnum" where
  "point_to_surface l px py =
     (if \<not> num_finite px \<or> \<not> num_finite py \<or> \<not> valid_dimension (vl_rendered_width l)
        \<or> \<not> valid_dimension (vl_rendered_height l)
      then Inl DESKTOP_VIEWER_LAYOUT_INVALID
      else (let x = double_div (double_minus px (vl_offset_x l)) (vl_rendered_width l);
                y = double_div (double_minus py (vl_offset_y l)) (vl_rendered_height l) in
        if num_lt x (Fin 0) \<or> num_lt (Fin 1) x \<or> num_lt y (Fin 0) \<or> num_lt (Fin 1) y
        then Inl DESKTOP_VIEWER_POINT_OUTSIDE_SURFACE
        else Inr (x, y)))"

lemma num_lt_Fin: "num_finite n \<Longrightarrow> num_lt (Fin a) n \<longleftrightarrow> (\<exists>q. n = Fin q \<and> a < q)"
  by (cases n) simp_all

lemma valid_dimensionD: "valid_dimension n \<Longrightarrow> \<exists>q. n = Fin q \<and> 0 < q"
  by (auto simp: valid_dimension_def num_lt_Fin)

lemma valid_dimension_Fin [simp]: "valid_dimension (Fin q) \<longleftrightarrow> 0 < q"
  by (simp add: valid_dimension_def)

text \<open>
  Along one axis a surface that is drawn no smaller than the viewport starts at or before its edge, and one that is drawn
  no larger starts at or behind it.
\<close>

lemma to_double_half: "double_div (to_double q) (Fin 2) = Fin h \<Longrightarrow> (0 \<le> q \<longrightarrow> 0 \<le> h) \<and> (q \<le> 0 \<longrightarrow> h \<le> 0)"
proof (cases "to_double q")
  case (Fin d)
  assume "double_div (to_double q) (Fin 2) = Fin h"
  then have h: "to_double (d / 2) = Fin h" using Fin by simp
  have "0 \<le> h" if "0 \<le> q" using to_double_sign(2) [OF that Fin] to_double_sign(2) [of "d / 2" h] h by simp
  moreover have "h \<le> 0" if "q \<le> 0"
    using to_double_sign(2) [of "- q" "- d"] to_double_sign(2) [of "- (d / 2)" "- h"] to_double_minus [of q] to_double_minus [of "d / 2"]
      Fin h that by simp
  ultimately show ?thesis by blast
qed (simp_all add: infinite_of_sign_def)

lemma half_negate: "double_div (num_negate n) (Fin 2) = num_negate (double_div n (Fin 2))"
  by (cases n) (simp_all add: infinite_of_sign_def to_double_minus [symmetric])

lemma axis_offset_sign:
  assumes "axis_offset (Fin w) (Fin v) (Fin p) = Fin off"
  shows "(v \<le> w \<longrightarrow> off \<le> 0) \<and> (w \<le> v \<longrightarrow> 0 \<le> off)"
proof -
  define n where "n = double_div (to_double (v - w)) (Fin 2)"
  have "double_minus (Fin w) (Fin v) = num_negate (to_double (v - w))" using to_double_minus [of "v - w"] by simp
  then have m: "max_pan (Fin w) (Fin v) = double_max (Fin 0) (num_negate n)" by (simp only: max_pan_def n_def half_negate)
  obtain h where h: "n = Fin h"
  proof (cases n)
    case PosInf
    then show ?thesis using assms m by (auto simp: axis_offset_def double_max_def double_min_def clamp_def simp flip: n_def split: if_splits)
  next
    case NegInf
    then show ?thesis using assms m by (auto simp: axis_offset_def double_max_def double_min_def clamp_def simp flip: n_def split: if_splits)
  next
    case NaN
    then show ?thesis using assms m by (auto simp: axis_offset_def double_max_def double_min_def clamp_def simp flip: n_def split: if_splits)
  qed
  have sign: "(0 \<le> v - w \<longrightarrow> 0 \<le> h) \<and> (v - w \<le> 0 \<longrightarrow> h \<le> 0)" using to_double_half [of "v - w" h] h by (simp add: n_def)
  define c where "c = max (- max 0 (- h)) (min (max 0 (- h)) p)"
  have off: "to_double (h + c) = Fin off" using assms m h by (simp add: axis_offset_def clamp_def c_def flip: n_def)
  have "off \<le> 0" if "v \<le> w"
  proof -
    have "h \<le> 0" using sign that by simp
    then have "h + c \<le> 0" by (auto simp: c_def)
    then show ?thesis using to_double_sign(2) [of "- (h + c)" "- off"] to_double_minus [of "h + c"] off by simp
  qed
  moreover have "0 \<le> off" if "w \<le> v"
  proof -
    have "0 \<le> h" using sign that by simp
    then have "0 \<le> h + c" by (auto simp: c_def)
    then show ?thesis using to_double_sign(2) [OF _ off] by simp
  qed
  ultimately show ?thesis by blast
qed

lemma resolve_layout_axes:
  assumes "resolve_layout r = Inr l"
  shows "\<exists>v p z s. vl_viewport_width l = Fin v \<and> vl_offset_x l = axis_offset (vl_rendered_width l) (Fin v) (Fin p) \<and> vl_rendered_width l = double_times s z"
    and "\<exists>v p z s. vl_viewport_height l = Fin v \<and> vl_offset_y l = axis_offset (vl_rendered_height l) (Fin v) (Fin p) \<and> vl_rendered_height l = double_times s z"
proof -
  have fin: "\<exists>p. n = Fin p" if "num_finite n" for n using that by (cases n) simp_all
  show "\<exists>v p z s. vl_viewport_width l = Fin v \<and> vl_offset_x l = axis_offset (vl_rendered_width l) (Fin v) (Fin p) \<and> vl_rendered_width l = double_times s z"
    and "\<exists>v p z s. vl_viewport_height l = Fin v \<and> vl_offset_y l = axis_offset (vl_rendered_height l) (Fin v) (Fin p) \<and> vl_rendered_height l = double_times s z"
    using assms by (auto simp: resolve_layout_def Let_def dest!: valid_dimensionD fin split: if_splits) blast+
qed

lemma double_times_bound: "double_times s z = Fin w \<Longrightarrow> w < 2 ^ 1024"
proof (cases "(s, z)" rule: double_times.cases)
  case (1 a b)
  then show "double_times s z = Fin w \<Longrightarrow> w < 2 ^ 1024" using to_double_error(2) [of "a * b" w] by (auto simp del: power_numeral)
qed (simp_all add: infinite_of_sign_def split: if_splits)

text \<open>One coordinate of a click.\<close>

lemma coordinate_accurate:
  assumes "double_div (double_minus (Fin a) (Fin off)) (Fin w) = x" and "1 \<le> w" and "\<not> num_lt x (Fin 0)" and "\<not> num_lt (Fin 1) x"
  shows "\<exists>q. x = Fin q \<and> 0 \<le> q \<and> q \<le> 1 \<and> \<bar>q - (a - off) / w\<bar> \<le> 2 powi (- 51)"
proof -
  obtain d where d: "to_double (a - off) = Fin d"
    using assms by (cases "to_double (a - off)") (auto simp: infinite_of_sign_def)
  then have x: "to_double (d / w) = x" using assms(1,2) by auto
  then obtain q where "x = Fin q" using assms(3,4) by (cases x) auto
  with assms(3,4) x quotient_accurate [OF d, of w q] assms(2) show ?thesis by simp
qed

lemma coordinate_in_range:
  assumes "1 \<le> w" and "w < 2 ^ 1024" and "0 \<le> (a - off) / w" and "(a - off) / w \<le> 1 - 2 powi (- 51)"
    and "x = double_div (double_minus (Fin a) (Fin off)) (Fin w)"
  shows "\<not> num_lt x (Fin 0) \<and> \<not> num_lt (Fin 1) x"
  using quotient_in_range [OF assms(1-4)] assms(1,5) by auto

section \<open>Bounded windows\<close>

record 'a window_geometry =
  wi_id :: 'a
  wi_x :: jsnum
  wi_y :: jsnum
  wi_width :: jsnum
  wi_height :: jsnum

datatype window_error = WINDOW_NONE | WINDOW_AMBIGUOUS | Window_invalid

definition finite_geometry :: "'a window_geometry \<Rightarrow> bool" where
  "finite_geometry w \<longleftrightarrow> list_all num_finite [wi_x w, wi_y w, wi_width w, wi_height w]"

definition eligible_window :: "jsnum \<Rightarrow> jsnum \<Rightarrow> 'a window_geometry \<Rightarrow> bool" where
  "eligible_window mw mh w \<longleftrightarrow> finite_geometry w \<and> num_le mw (wi_width w) \<and> num_le mh (wi_height w)"

definition select_exact_window ::
  "'a window_geometry list \<Rightarrow> jsnum option \<Rightarrow> jsnum option \<Rightarrow> window_error + 'a window_geometry" where
  "select_exact_window candidates min_width min_height =
     (let mw = (case min_width of None \<Rightarrow> num_of_int 160 | Some n \<Rightarrow> n);
          mh = (case min_height of None \<Rightarrow> num_of_int 120 | Some n \<Rightarrow> n) in
      if \<not> num_finite mw \<or> \<not> num_finite mh \<or> num_le mw (num_of_int 0) \<or> num_le mh (num_of_int 0)
      then Inl Window_invalid
      else (case filter (eligible_window mw mh) candidates of
          [] \<Rightarrow> Inl WINDOW_NONE | [w] \<Rightarrow> Inr w | _ \<Rightarrow> Inl WINDOW_AMBIGUOUS))"

definition rect_contains :: "'a window_geometry \<Rightarrow> 'b window_geometry \<Rightarrow> bool" where
  "rect_contains outer inner \<longleftrightarrow> finite_geometry outer \<and> finite_geometry inner
     \<and> num_le (wi_x outer) (wi_x inner) \<and> num_le (wi_y outer) (wi_y inner)
     \<and> num_le (double_plus (wi_x inner) (wi_width inner)) (double_plus (wi_x outer) (wi_width outer))
     \<and> num_le (double_plus (wi_y inner) (wi_height inner)) (double_plus (wi_y outer) (wi_height outer))"

definition inside_offset :: "jsnum \<Rightarrow> jsnum \<Rightarrow> jsnum" where
  "inside_offset extent n = double_min (double_times extent n)
     (double_max (Fin 0) (double_minus extent (double_min (Fin 1) extent)))"

definition point_in_window :: "'a window_geometry \<Rightarrow> jsnum \<Rightarrow> jsnum \<Rightarrow> (jsnum \<times> jsnum) option" where
  "point_in_window w nx ny =
     (if \<not> finite_geometry w \<or> num_le (wi_width w) (Fin 0) \<or> num_le (wi_height w) (Fin 0) then None
      else if \<not> num_finite nx \<or> \<not> num_finite ny \<or> num_lt nx (Fin 0) \<or> num_lt (Fin 1) nx
        \<or> num_lt ny (Fin 0) \<or> num_lt (Fin 1) ny then None
      else Some (double_plus (wi_x w) (inside_offset (wi_width w) nx),
                 double_plus (wi_y w) (inside_offset (wi_height w) ny)))"

text \<open>The size is a finite number: the scale is at most 1. An odd one is below \<open>2 ^ 53\<close>, so \<open>rounded - 1\<close> is exact.\<close>

definition even_size :: "jsnum \<Rightarrow> int" where
  "even_size v = (let r = max 2 (num_to_int v) in if r mod 2 = 0 then r else r - 1)"

definition scaled_even_size :: "jsnum \<Rightarrow> jsnum \<Rightarrow> jsnum \<Rightarrow> jsnum \<Rightarrow> (int \<times> int) option" where
  "scaled_even_size w h mw mh =
     (if \<not> list_all num_finite [w, h, mw, mh]
        \<or> num_lt w (Fin 2) \<or> num_lt h (Fin 2) \<or> num_lt mw (Fin 2) \<or> num_lt mh (Fin 2) then None
      else (let scale = double_min (Fin 1) (double_min (double_div mw w) (double_div mh h))
        in Some (even_size (double_times w scale), even_size (double_times h scale))))"

lemma select_exact_window_ok:
  assumes "select_exact_window ws mw mh = Inr w"
  shows "w \<in> set ws" and "finite_geometry w"
    and "length (filter (\<lambda>v. finite_geometry v
      \<and> num_le (case mw of None \<Rightarrow> num_of_int 160 | Some n \<Rightarrow> n) (wi_width v)
      \<and> num_le (case mh of None \<Rightarrow> num_of_int 120 | Some n \<Rightarrow> n) (wi_height v)) ws) = 1"
proof -
  let ?e = "eligible_window (case mw of None \<Rightarrow> num_of_int 160 | Some n \<Rightarrow> n)
    (case mh of None \<Rightarrow> num_of_int 120 | Some n \<Rightarrow> n)"
  have f: "filter ?e ws = [w]"
    using assms by (auto simp: select_exact_window_def Let_def split: if_splits list.splits)
  then have "w \<in> set (filter ?e ws)" by simp
  then show "w \<in> set ws" "finite_geometry w" by (simp_all add: eligible_window_def)
  from f have "length (filter ?e ws) = 1" by simp
  then show "length (filter (\<lambda>v. finite_geometry v
      \<and> num_le (case mw of None \<Rightarrow> num_of_int 160 | Some n \<Rightarrow> n) (wi_width v)
      \<and> num_le (case mh of None \<Rightarrow> num_of_int 120 | Some n \<Rightarrow> n) (wi_height v)) ws) = 1"
    by (simp add: eligible_window_def [abs_def])
qed

lemma even_size_even: "even (even_size v) \<and> 2 \<le> even_size v"
  by (auto simp: even_size_def Let_def) presburger+

section \<open>Properties\<close>

definition sample_layout_request :: layout_request where
  "sample_layout_request = \<lparr>lr_mode = Fit, lr_surface_width = Fin 200, lr_surface_height = Fin 100,
     lr_viewport_width = Fin 100, lr_viewport_height = Fin 100, lr_zoom = Some (Fin 2), lr_pan_x = None,
     lr_pan_y = Some (Fin 7)\<rparr>"

definition sample_layout :: viewer_layout where
  "sample_layout = \<lparr>vl_mode = Fit, vl_surface_width = Fin 200, vl_surface_height = Fin 100, vl_viewport_width = Fin 100,
     vl_viewport_height = Fin 100, vl_base_scale = Fin (1 / 2), vl_zoom = Fin 2, vl_rendered_width = Fin 200,
     vl_rendered_height = Fin 100, vl_offset_x = Fin (- 50), vl_offset_y = Fin 0\<rparr>"

lemma sample_layout_resolved: "resolve_layout sample_layout_request = Inr sample_layout"
  by (simp add: resolve_layout_def sample_layout_request_def sample_layout_def axis_offset_def max_pan_def clamp_def
      to_double_small to_double_minus Let_def)

text \<open>C40. A click lands where it points, up to the rounding of doubles. Let the rendered surface measure at least one pixel
  each way and the offsets be finite. Along each axis a surface drawn no smaller than the viewport starts at or before the
  viewport's edge and one drawn no larger starts at or behind it. A click that is accepted is mapped into the closed unit
  square, within 2 to the power -51 of the exact quotient; a click whose exact quotients lie between 0 and 1, and not
  within 2 to the power -51 below 1, is never refused.\<close>

theorem click_mapping_is_accurate:
  assumes "resolve_layout r = Inr l" and "vl_rendered_width l = Fin w" and "1 \<le> w" and "vl_rendered_height l = Fin h" and "1 \<le> h"
    and "vl_offset_x l = Fin ox" and "vl_offset_y l = Fin oy"
  shows "(num_le (vl_viewport_width l) (Fin w) \<longrightarrow> ox \<le> 0) \<and> (num_le (Fin w) (vl_viewport_width l) \<longrightarrow> 0 \<le> ox)
    \<and> (num_le (vl_viewport_height l) (Fin h) \<longrightarrow> oy \<le> 0) \<and> (num_le (Fin h) (vl_viewport_height l) \<longrightarrow> 0 \<le> oy)
    \<and> (\<forall>x y. point_to_surface l (Fin a) (Fin b) = Inr (x, y) \<longrightarrow>
         (\<exists>p q. x = Fin p \<and> y = Fin q \<and> 0 \<le> p \<and> p \<le> 1 \<and> 0 \<le> q \<and> q \<le> 1
           \<and> \<bar>p - (a - ox) / w\<bar> \<le> 2 powi (- 51) \<and> \<bar>q - (b - oy) / h\<bar> \<le> 2 powi (- 51)))
    \<and> (0 \<le> (a - ox) / w \<and> (a - ox) / w \<le> 1 - 2 powi (- 51) \<and> 0 \<le> (b - oy) / h \<and> (b - oy) / h \<le> 1 - 2 powi (- 51)
         \<longrightarrow> \<not> isl (point_to_surface l (Fin a) (Fin b)))"
proof -
  obtain vw px sw zw where x: "vl_viewport_width l = Fin vw" "axis_offset (Fin w) (Fin vw) (Fin px) = Fin ox" "double_times sw zw = Fin w"
    using resolve_layout_axes(1) [OF assms(1)] assms(2,6) by auto
  obtain vh py sh zh where y: "vl_viewport_height l = Fin vh" "axis_offset (Fin h) (Fin vh) (Fin py) = Fin oy" "double_times sh zh = Fin h"
    using resolve_layout_axes(2) [OF assms(1)] assms(4,7) by auto
  let ?x = "double_div (double_minus (Fin a) (Fin ox)) (Fin w)" and ?y = "double_div (double_minus (Fin b) (Fin oy)) (Fin h)"
  have point: "point_to_surface l (Fin a) (Fin b) = (if num_lt ?x (Fin 0) \<or> num_lt (Fin 1) ?x \<or> num_lt ?y (Fin 0) \<or> num_lt (Fin 1) ?y
      then Inl DESKTOP_VIEWER_POINT_OUTSIDE_SURFACE else Inr (?x, ?y))"
    using assms(2-7) by (simp add: point_to_surface_def Let_def)
  have accepted: "\<exists>p q. x = Fin p \<and> y = Fin q \<and> 0 \<le> p \<and> p \<le> 1 \<and> 0 \<le> q \<and> q \<le> 1
      \<and> \<bar>p - (a - ox) / w\<bar> \<le> 2 powi (- 51) \<and> \<bar>q - (b - oy) / h\<bar> \<le> 2 powi (- 51)"
    if "point_to_surface l (Fin a) (Fin b) = Inr (x, y)" for x y
  proof -
    have xy: "?x = x" "?y = y" "\<not> num_lt x (Fin 0)" "\<not> num_lt (Fin 1) x" "\<not> num_lt y (Fin 0)" "\<not> num_lt (Fin 1) y"
      using that unfolding point by (auto split: if_splits)
    show ?thesis
      using coordinate_accurate [OF xy(1) assms(3) xy(3,4)] coordinate_accurate [OF xy(2) assms(5) xy(5,6)] by blast
  qed
  have "\<not> isl (point_to_surface l (Fin a) (Fin b))"
    if "0 \<le> (a - ox) / w" "(a - ox) / w \<le> 1 - 2 powi (- 51)" "0 \<le> (b - oy) / h" "(b - oy) / h \<le> 1 - 2 powi (- 51)"
    unfolding point
    using coordinate_in_range [OF assms(3) double_times_bound [OF x(3)] that(1,2) refl]
      coordinate_in_range [OF assms(5) double_times_bound [OF y(3)] that(3,4) refl] by simp
  with accepted axis_offset_sign [OF x(2)] axis_offset_sign [OF y(2)] show ?thesis
    unfolding x(1) y(1) num_le.simps by blast
qed

theorem click_mapping_is_accurate_witness:
  "\<not> isl (point_to_surface sample_layout (Fin 50) (Fin 25))"
  using click_mapping_is_accurate [OF sample_layout_resolved, of 200 100 "- 50" 0 50 25]
  by (simp add: sample_layout_def power_int_minus)

end
