(* ===== verification/Diagnostics.thy ===== *)
theory Diagnostics
  imports Handoff_Prelude
begin

text \<open>
  \<open>src/core/operator-diagnostics.ts\<close>: the strict parser of the operator summary. A snapshot is
  the untyped object the parser builds; \<open>None\<close> is the one error it throws.
\<close>

section \<open>Vocabularies\<close>

definition health_names :: "string list" where
  "health_names = [''idle'', ''starting'', ''available'', ''degraded'', ''failed'']"

definition failure_names :: "string list" where
  "failure_names = [''target'', ''transport'', ''input'', ''recovery'']"

definition peer_names :: "string list" where
  "peer_names = [''new'', ''connecting'', ''connected'', ''disconnected'', ''failed'', ''closed'']"

definition transport_names :: "string list" where
  "transport_names = [''webrtc_direct'', ''websocket_relay'', ''webrtc_relay'', ''none'']"

definition fallback_names :: "string list" where
  "fallback_names = [''transport_unavailable'']"

definition surface_failure_names :: "string list" where
  "surface_failure_names = [''none'', ''frame_timeout'', ''helper_closed'', ''helper_error'', ''frame_protocol'',
     ''diagnostics_bounds'', ''input_failure'', ''input_timeout'',
     ''input_revalidation_failure'', ''revalidation_failure'', ''capture_x11'',
     ''capture_encoder'', ''capture_option'', ''capture_other'']"

definition channel_failure_names :: "string list" where
  "channel_failure_names = [''none'', ''invalid_message'', ''input_not_allowed'', ''stale_generation'',
     ''frame_too_large'', ''inbound_queue_overflow'', ''transport_failure'',
     ''authority_release_failed'']"

definition input_stage_names :: "string list" where
  "input_stage_names = [''none'', ''focus_ready'', ''pointer_move_ready'', ''pointer_authority_ready'',
     ''pointer_down_sent'', ''pointer_post_authority_ready'', ''tap_sent'',
     ''key_down_sent'', ''key_authority_ready'', ''key_up_sent'', ''applied'']"

definition input_boundary_names :: "string list" where
  "input_boundary_names = [''none'', ''requested'', ''helper_ready'', ''revalidation_ready'', ''command_sent'',
     ''acknowledged'']"

definition authority_names :: "string list" where
  "authority_names = [''agent'', ''human'', ''none'']"

definition phase_names :: "string list" where
  "phase_names = [''awaiting_human'', ''human_active'', ''verifying'', ''ready_to_resume'']"

lemmas vocabularies = health_names_def failure_names_def peer_names_def transport_names_def
  fallback_names_def surface_failure_names_def channel_failure_names_def input_stage_names_def
  input_boundary_names_def authority_names_def phase_names_def

text \<open>\<open>SET.has(value)\<close> on an untyped value.\<close>

definition one_of :: "string list \<Rightarrow> jsval \<Rightarrow> bool" where
  "one_of names v \<longleftrightarrow> (case v of JStr s \<Rightarrow> s \<in> set names | _ \<Rightarrow> False)"

definition bounded_integer :: "int \<Rightarrow> jsval \<Rightarrow> bool" where
  "bounded_integer hi v \<longleftrightarrow> safe_int_from 0 v \<and> int_of_val v \<le> hi"

definition is_boolean :: "jsval \<Rightarrow> bool" where
  "is_boolean v \<longleftrightarrow> (case v of JBool b \<Rightarrow> True | _ \<Rightarrow> False)"

text \<open>\<open>...(record.key === undefined ? {} : { key: record.key })\<close>.\<close>

definition spread_prop :: "(string \<times> jsval) list \<Rightarrow> string \<Rightarrow> (string \<times> jsval) list" where
  "spread_prop ps k = (if get_prop ps k = JUndefined then [] else [(k, get_prop ps k)])"

definition absent_or :: "(jsval \<Rightarrow> bool) \<Rightarrow> jsval \<Rightarrow> bool" where
  "absent_or P v \<longleftrightarrow> v = JUndefined \<or> P v"

definition copy_props :: "(string \<times> jsval) list \<Rightarrow> string list \<Rightarrow> (string \<times> jsval) list" where
  "copy_props ps ks = map (\<lambda>k. (k, get_prop ps k)) ks"

section \<open>The parser\<close>

text \<open>The two optional parts give the properties they spread.\<close>

definition parse_counts :: "jsval \<Rightarrow> (string \<times> jsval) list option" where
  "parse_counts v = (case v of
       JUndefined \<Rightarrow> Some []
     | JObj ps \<Rightarrow>
         if \<not> keys_exactly ps [''host'', ''srflx'', ''prflx'', ''relay'']
           \<or> \<not> list_all (\<lambda>k. bounded_integer 64 (get_prop ps k)) [''host'', ''srflx'', ''prflx'', ''relay'']
         then None
         else Some [(''candidateCounts'', JObj (copy_props ps [''host'', ''srflx'', ''prflx'', ''relay'']))]
     | _ \<Rightarrow> None)"

definition parse_webrtc :: "jsval \<Rightarrow> jsval option" where
  "parse_webrtc v = (case v of
       JObj ps \<Rightarrow>
         if \<not> keys_within ps [''namespace'', ''eventCount'', ''peerState'', ''candidateCounts'']
           \<or> get_prop ps ''namespace'' \<noteq> JStr ''webrtc''
           \<or> \<not> bounded_integer 128 (get_prop ps ''eventCount'')
           \<or> \<not> absent_or (one_of peer_names) (get_prop ps ''peerState'')
         then None
         else (case parse_counts (get_prop ps ''candidateCounts'') of
             None \<Rightarrow> None
           | Some counts \<Rightarrow> Some (JObj ([(''namespace'', JStr ''webrtc''),
               (''eventCount'', get_prop ps ''eventCount'')] @ spread_prop ps ''peerState'' @ counts)))
     | _ \<Rightarrow> None)"

definition wss_keys :: "string list" where
  "wss_keys = [''namespace'', ''surfaceFailure'', ''channelFailure'', ''framesObserved'',
     ''inputAttempts'', ''inputStage'', ''inputBoundaryStage'']"

definition parse_wss :: "jsval \<Rightarrow> (string \<times> jsval) list option" where
  "parse_wss v = (case v of
       JUndefined \<Rightarrow> Some []
     | JObj ps \<Rightarrow>
         if \<not> keys_exactly ps wss_keys \<or> get_prop ps ''namespace'' \<noteq> JStr ''managed_wss''
           \<or> \<not> one_of surface_failure_names (get_prop ps ''surfaceFailure'')
           \<or> \<not> one_of channel_failure_names (get_prop ps ''channelFailure'')
           \<or> \<not> bounded_integer 1000000 (get_prop ps ''framesObserved'')
           \<or> \<not> bounded_integer 1000000 (get_prop ps ''inputAttempts'')
           \<or> \<not> one_of input_stage_names (get_prop ps ''inputStage'')
           \<or> \<not> one_of input_boundary_names (get_prop ps ''inputBoundaryStage'')
         then None
         else Some [(''wss'', JObj (copy_props ps wss_keys))]
     | _ \<Rightarrow> None)"

definition parse_managed :: "jsval \<Rightarrow> jsval option" where
  "parse_managed v = (case v of
       JObj ps \<Rightarrow>
         if \<not> keys_within ps [''namespace'', ''currentTransport'', ''lastTransport'', ''generation'',
               ''transitionCount'', ''lastFallbackReason'', ''wss'']
           \<or> get_prop ps ''namespace'' \<noteq> JStr ''managed_handoff''
           \<or> \<not> one_of transport_names (get_prop ps ''currentTransport'')
           \<or> \<not> one_of transport_names (get_prop ps ''lastTransport'')
           \<or> \<not> bounded_integer 1000000 (get_prop ps ''generation'')
           \<or> \<not> bounded_integer 128 (get_prop ps ''transitionCount'')
           \<or> \<not> absent_or (one_of fallback_names) (get_prop ps ''lastFallbackReason'')
         then None
         else (case parse_wss (get_prop ps ''wss'') of
             None \<Rightarrow> None
           | Some wss \<Rightarrow> Some (JObj (copy_props ps [''namespace'', ''currentTransport'', ''lastTransport'',
               ''generation'', ''transitionCount''] @ spread_prop ps ''lastFallbackReason'' @ wss)))
     | _ \<Rightarrow> None)"

definition terminal_session_keys :: "string list" where
  "terminal_session_keys = [''namespace'', ''alive'', ''humanDisconnected'', ''synchronizationRequired'']"

definition parse_terminal_session :: "jsval \<Rightarrow> jsval option" where
  "parse_terminal_session v = (case v of
       JObj ps \<Rightarrow>
         if \<not> keys_within ps terminal_session_keys \<or> get_prop ps ''namespace'' \<noteq> JStr ''terminal_session''
           \<or> \<not> is_boolean (get_prop ps ''alive'') \<or> \<not> is_boolean (get_prop ps ''humanDisconnected'')
           \<or> \<not> is_boolean (get_prop ps ''synchronizationRequired'')
         then None else Some (JObj (copy_props ps terminal_session_keys))
     | _ \<Rightarrow> None)"

definition terminal_keys :: "string list" where
  "terminal_keys = [''namespace'', ''ready'', ''disconnected'', ''completed'', ''faulted'', ''queuedEvents'']"

definition parse_terminal_transport :: "jsval \<Rightarrow> jsval option" where
  "parse_terminal_transport v = (case v of
       JNull \<Rightarrow> Some JNull
     | JObj ps \<Rightarrow>
         if \<not> keys_within ps terminal_keys \<or> get_prop ps ''namespace'' \<noteq> JStr ''terminal_webrtc''
           \<or> \<not> list_all (\<lambda>k. is_boolean (get_prop ps k)) [''ready'', ''disconnected'', ''completed'', ''faulted'']
           \<or> \<not> bounded_integer 64 (get_prop ps ''queuedEvents'')
         then None else Some (JObj (copy_props ps terminal_keys))
     | _ \<Rightarrow> None)"

definition namespace_of :: "jsval \<Rightarrow> jsval" where
  "namespace_of v = (case v of JObj ps \<Rightarrow> get_prop ps ''namespace'' | _ \<Rightarrow> JUndefined)"

definition parse_diagnostics :: "jsval \<Rightarrow> jsval option" where
  "parse_diagnostics v = (case v of
       JObj ps \<Rightarrow>
         if get_prop ps ''version'' \<noteq> jint 1
           \<or> \<not> one_of [''browser_handoff'', ''window_handoff'', ''terminal_handoff''] (get_prop ps ''source'')
           \<or> \<not> one_of health_names (get_prop ps ''health'')
           \<or> \<not> absent_or (one_of failure_names) (get_prop ps ''failureCategory'')
         then None
         else if get_prop ps ''source'' = JStr ''browser_handoff'' \<or> get_prop ps ''source'' = JStr ''window_handoff''
         then (if \<not> keys_within ps [''version'', ''source'', ''health'', ''failureCategory'', ''transport'']
           then None
           else (case (if namespace_of (get_prop ps ''transport'') = JStr ''managed_handoff''
                   then parse_managed (get_prop ps ''transport'') else parse_webrtc (get_prop ps ''transport'')) of
               None \<Rightarrow> None
             | Some transport \<Rightarrow> Some (JObj ([(''version'', jint 1), (''source'', get_prop ps ''source''),
                 (''health'', get_prop ps ''health'')] @ spread_prop ps ''failureCategory''
                 @ [(''transport'', transport)]))))
         else if \<not> keys_within ps [''version'', ''source'', ''health'', ''authority'', ''phase'',
               ''failureCategory'', ''terminal'', ''transport'']
           \<or> \<not> one_of authority_names (get_prop ps ''authority'')
           \<or> \<not> absent_or (one_of phase_names) (get_prop ps ''phase'')
         then None
         else (case (parse_terminal_session (get_prop ps ''terminal''),
               parse_terminal_transport (get_prop ps ''transport'')) of
             (Some terminal, Some transport) \<Rightarrow>
               Some (JObj ([(''version'', jint 1), (''source'', JStr ''terminal_handoff''),
                 (''health'', get_prop ps ''health''), (''authority'', get_prop ps ''authority'')]
                 @ spread_prop ps ''phase'' @ spread_prop ps ''failureCategory''
                 @ [(''terminal'', terminal), (''transport'', transport)]))
           | _ \<Rightarrow> None)
     | _ \<Rightarrow> None)"

section \<open>A closed world\<close>

text \<open>A value that carries nothing of its own: its keys and strings are from fixed vocabularies and
  its numbers are small counters.\<close>

definition snapshot_keys :: "string list" where
  "snapshot_keys = [''version'', ''source'', ''health'', ''failureCategory'', ''transport'', ''authority'',
     ''phase'', ''terminal'', ''namespace'', ''eventCount'', ''peerState'', ''candidateCounts'', ''host'',
     ''srflx'', ''prflx'', ''relay'', ''currentTransport'', ''lastTransport'', ''generation'',
     ''transitionCount'', ''lastFallbackReason'', ''wss'', ''surfaceFailure'', ''channelFailure'',
     ''framesObserved'', ''inputAttempts'', ''inputStage'', ''inputBoundaryStage'', ''alive'',
     ''humanDisconnected'', ''synchronizationRequired'', ''ready'', ''disconnected'', ''completed'',
     ''faulted'', ''queuedEvents'']"

definition snapshot_words :: "string list" where
  "snapshot_words = health_names @ failure_names @ peer_names @ transport_names @ fallback_names
     @ surface_failure_names @ channel_failure_names @ input_stage_names @ input_boundary_names
     @ authority_names @ phase_names @ [''browser_handoff'', ''window_handoff'', ''terminal_handoff'',
       ''webrtc'', ''managed_wss'', ''managed_handoff'', ''terminal_session'', ''terminal_webrtc'']"

fun closed_world :: "jsval \<Rightarrow> bool" where
  "closed_world JNull = True"
| "closed_world (JBool b) = True"
| "closed_world (JNum n) = bounded_integer 1000000 (JNum n)"
| "closed_world (JStr s) = (s \<in> set snapshot_words)"
| "closed_world (JObj ps) = list_all (\<lambda>(k, v). k \<in> set snapshot_keys \<and> closed_world v) ps"
| "closed_world _ = False"

lemma one_of_closed: "one_of names v \<Longrightarrow> set names \<subseteq> set snapshot_words \<Longrightarrow> closed_world v"
  by (cases v) (auto simp: one_of_def)

lemma bounded_closed: "bounded_integer hi v \<Longrightarrow> hi \<le> 1000000 \<Longrightarrow> closed_world v"
  by (cases v) (auto simp: bounded_integer_def safe_int_from_def)

lemma boolean_closed [simp]: "is_boolean v \<Longrightarrow> closed_world v"
  by (cases v) (simp_all add: is_boolean_def)

lemma counter_closed [simp]:
  "bounded_integer 64 v \<Longrightarrow> closed_world v" "bounded_integer 128 v \<Longrightarrow> closed_world v"
  "bounded_integer 1000000 v \<Longrightarrow> closed_world v"
  using bounded_closed [of 64 v] bounded_closed [of 128 v] bounded_closed [of 1000000 v] by simp_all

lemma word_closed [simp]:
  "one_of health_names v \<Longrightarrow> closed_world v" "one_of failure_names v \<Longrightarrow> closed_world v"
  "one_of peer_names v \<Longrightarrow> closed_world v" "one_of transport_names v \<Longrightarrow> closed_world v"
  "one_of fallback_names v \<Longrightarrow> closed_world v" "one_of surface_failure_names v \<Longrightarrow> closed_world v"
  "one_of channel_failure_names v \<Longrightarrow> closed_world v" "one_of input_stage_names v \<Longrightarrow> closed_world v"
  "one_of input_boundary_names v \<Longrightarrow> closed_world v" "one_of authority_names v \<Longrightarrow> closed_world v"
  "one_of phase_names v \<Longrightarrow> closed_world v"
  by (auto elim!: one_of_closed simp: snapshot_words_def simp del: closed_world.simps)

lemma source_closed [simp]:
  "one_of [''browser_handoff'', ''window_handoff'', ''terminal_handoff''] v \<Longrightarrow> closed_world v"
  by (cases v) (auto simp: one_of_def snapshot_words_def)

lemma namespace_words [simp]:
  "''webrtc'' \<in> set snapshot_words" "''managed_wss'' \<in> set snapshot_words"
  "''managed_handoff'' \<in> set snapshot_words" "''terminal_session'' \<in> set snapshot_words"
  "''terminal_webrtc'' \<in> set snapshot_words" "''terminal_handoff'' \<in> set snapshot_words"
  by (simp_all add: snapshot_words_def)

lemma get_prop_append [simp]:
  "get_prop (ps @ qs) k = (if k \<in> fst ` set ps then get_prop ps k else get_prop qs k)"
  by (induction ps) (auto split: if_splits)

lemma get_prop_spread [simp]:
  "k \<in> fst ` set (spread_prop ps k') \<longleftrightarrow> k = k' \<and> get_prop ps k' \<noteq> JUndefined"
  "get_prop (spread_prop ps k') k = (if k = k' then get_prop ps k' else JUndefined)"
  by (auto simp: spread_prop_def)

lemma spread_again:
  "get_prop qs k = get_prop ps k \<Longrightarrow> spread_prop qs k = spread_prop ps k"
  by (simp add: spread_prop_def)

text \<open>Each part: what it returns is closed, and parsing it again returns it unchanged.\<close>

definition optional_part :: "(jsval \<Rightarrow> (string \<times> jsval) list option) \<Rightarrow> string \<Rightarrow> (string \<times> jsval) list \<Rightarrow> bool" where
  "optional_part parse k part \<longleftrightarrow> (part = [] \<or> (\<exists>v. part = [(k, v)] \<and> v \<noteq> JUndefined))
     \<and> parse (get_prop part k) = Some part \<and> list_all (\<lambda>(k, v). k \<in> set snapshot_keys \<and> closed_world v) part"

lemma counts_part: "parse_counts v = Some cs \<Longrightarrow> optional_part parse_counts ''candidateCounts'' cs"
  by (auto simp: parse_counts_def optional_part_def copy_props_def keys_exactly_def keys_within_iff
      object_keys_def snapshot_keys_def split: jsval.splits if_splits)

lemma wss_part: "parse_wss v = Some cs \<Longrightarrow> optional_part parse_wss ''wss'' cs"
  by (auto simp: parse_wss_def optional_part_def copy_props_def keys_exactly_def keys_within_iff
      object_keys_def snapshot_keys_def wss_keys_def split: jsval.splits if_splits)

lemma optional_part_keys:
  assumes "optional_part parse k part"
  shows "k' \<noteq> k \<Longrightarrow> get_prop part k' = JUndefined" and "fst ` set part \<subseteq> {k}"
    and "parse (get_prop part k) = Some part"
  using assms by (auto simp: optional_part_def)

text \<open>A parsed value is closed and parses to itself.\<close>

definition canonical :: "(jsval \<Rightarrow> jsval option) \<Rightarrow> jsval \<Rightarrow> bool" where
  "canonical parse s \<longleftrightarrow> closed_world s \<and> parse s = Some s"

lemma terminal_session_canonical: "parse_terminal_session v = Some s \<Longrightarrow> canonical parse_terminal_session s"
  by (auto simp: parse_terminal_session_def canonical_def copy_props_def keys_within_iff
      terminal_session_keys_def snapshot_keys_def split: jsval.splits if_splits)

lemma terminal_transport_canonical: "parse_terminal_transport v = Some s \<Longrightarrow> canonical parse_terminal_transport s"
  by (auto simp: parse_terminal_transport_def canonical_def copy_props_def keys_within_iff
      terminal_keys_def snapshot_keys_def split: jsval.splits if_splits)

lemma version_closed [simp]: "bounded_integer 1000000 (JNum (Fin 1))"
  using safe_int_from_jint [of 0 1] by (simp add: bounded_integer_def)

lemma optional_part_closed:
  "optional_part parse k part \<Longrightarrow> list_all (\<lambda>(k, v). k \<in> set snapshot_keys \<and> closed_world v) part"
  by (simp add: optional_part_def)

lemma copy_props_cong: "(\<And>k. k \<in> set ks \<Longrightarrow> get_prop a k = get_prop b k) \<Longrightarrow> copy_props a ks = copy_props b ks"
  by (simp add: copy_props_def)

lemma spread_closed:
  assumes "absent_or P (get_prop ps k)" and "k \<in> set snapshot_keys" and "\<And>v. P v \<Longrightarrow> closed_world v"
  shows "list_all (\<lambda>(k, v). k \<in> set snapshot_keys \<and> closed_world v) (spread_prop ps k)"
  using assms by (auto simp: spread_prop_def absent_or_def)

lemma webrtc_canonical:
  assumes "parse_webrtc v = Some s"
  shows "canonical parse_webrtc s"
proof -
  obtain ps cs where v: "v = JObj ps" "parse_counts (get_prop ps ''candidateCounts'') = Some cs"
      "bounded_integer 128 (get_prop ps ''eventCount'')" "absent_or (one_of peer_names) (get_prop ps ''peerState'')"
      "s = JObj ([(''namespace'', JStr ''webrtc''), (''eventCount'', get_prop ps ''eventCount'')]
         @ spread_prop ps ''peerState'' @ cs)"
    using assms by (auto simp: parse_webrtc_def split: jsval.splits if_splits option.splits)
  note cs = counts_part [OF v(2)]
  let ?qs = "[(''namespace'', JStr ''webrtc''), (''eventCount'', get_prop ps ''eventCount'')]
    @ spread_prop ps ''peerState'' @ cs"
  have keys: "fst ` set ?qs \<subseteq> {''namespace'', ''eventCount'', ''peerState'', ''candidateCounts''}"
    using optional_part_keys(2) [OF cs] by (auto simp: spread_prop_def)
  have props: "get_prop ?qs ''namespace'' = JStr ''webrtc''" "get_prop ?qs ''eventCount'' = get_prop ps ''eventCount''"
      "get_prop ?qs ''peerState'' = get_prop ps ''peerState''"
      "get_prop ?qs ''candidateCounts'' = get_prop cs ''candidateCounts''"
    using optional_part_keys(1) [OF cs, of "''peerState''"] by simp_all
  have "parse_webrtc (JObj ?qs) = Some (JObj ?qs)"
    unfolding parse_webrtc_def
    by (simp only: jsval.case props v(3,4) optional_part_keys(3) [OF cs] option.case spread_again [OF props(3)]
        keys_within_iff) (use keys in simp)
  moreover have "closed_world (JObj ?qs)"
    using v(3) optional_part_closed [OF cs] spread_closed [OF v(4)]
    by (simp add: snapshot_keys_def)
  ultimately show ?thesis by (simp add: canonical_def v(5))
qed

lemma managed_canonical:
  assumes "parse_managed v = Some s"
  shows "canonical parse_managed s" and "namespace_of s = JStr ''managed_handoff''"
proof -
  let ?fixed = "\<lambda>ps. copy_props ps [''namespace'', ''currentTransport'', ''lastTransport'', ''generation'', ''transitionCount'']"
  obtain ps where ps: "v = JObj ps" using assms by (cases v) (simp_all add: parse_managed_def)
  obtain ws where ws: "parse_wss (get_prop ps ''wss'') = Some ws"
    using assms by (cases "parse_wss (get_prop ps ''wss'')") (simp_all add: parse_managed_def ps split: if_split_asm)
  have v: "v = JObj ps" "parse_wss (get_prop ps ''wss'') = Some ws"
      "get_prop ps ''namespace'' = JStr ''managed_handoff''"
      "one_of transport_names (get_prop ps ''currentTransport'')"
      "one_of transport_names (get_prop ps ''lastTransport'')"
      "bounded_integer 1000000 (get_prop ps ''generation'')" "bounded_integer 128 (get_prop ps ''transitionCount'')"
      "absent_or (one_of fallback_names) (get_prop ps ''lastFallbackReason'')"
      "s = JObj (?fixed ps @ spread_prop ps ''lastFallbackReason'' @ ws)"
    using assms ps ws by (simp_all add: parse_managed_def split: if_split_asm)
  note ws = wss_part [OF v(2)]
  let ?qs = "?fixed ps @ spread_prop ps ''lastFallbackReason'' @ ws"
  have keys: "fst ` set ?qs \<subseteq> {''namespace'', ''currentTransport'', ''lastTransport'', ''generation'',
      ''transitionCount'', ''lastFallbackReason'', ''wss''}"
    using optional_part_keys(2) [OF ws] by (auto simp: copy_props_def spread_prop_def)
  have props: "get_prop ?qs ''namespace'' = JStr ''managed_handoff''"
      "get_prop ?qs ''currentTransport'' = get_prop ps ''currentTransport''"
      "get_prop ?qs ''lastTransport'' = get_prop ps ''lastTransport''"
      "get_prop ?qs ''generation'' = get_prop ps ''generation''"
      "get_prop ?qs ''transitionCount'' = get_prop ps ''transitionCount''"
      "get_prop ?qs ''lastFallbackReason'' = get_prop ps ''lastFallbackReason''"
      "get_prop ?qs ''wss'' = get_prop ws ''wss''"
    using optional_part_keys(1) [OF ws, of "''lastFallbackReason''"] v(3) by (simp_all add: copy_props_def)
  have copied: "?fixed ?qs = ?fixed ps"
    by (simp add: copy_props_def v(3))
  have "parse_managed (JObj ?qs) = Some (JObj ?qs)"
    unfolding parse_managed_def
    by (simp only: jsval.case props v(3-8) optional_part_keys(3) [OF ws] option.case spread_again [OF props(6)]
        copied keys_within_iff) (use keys in simp)
  moreover have "closed_world (JObj ?qs)"
    using v(3-7) optional_part_closed [OF ws] spread_closed [OF v(8)]
    by (simp add: snapshot_keys_def copy_props_def)
  ultimately show "canonical parse_managed s" by (simp add: canonical_def v(9))
  show "namespace_of s = JStr ''managed_handoff''"
    using props(1) by (simp add: namespace_of_def v(9))
qed

lemma webrtc_namespace: "parse_webrtc v = Some s \<Longrightarrow> namespace_of s = JStr ''webrtc''"
  by (auto simp: parse_webrtc_def namespace_of_def split: jsval.splits if_splits option.splits)

text \<open>The root object, by the kind of its source.\<close>

definition root_head :: "(string \<times> jsval) list \<Rightarrow> bool" where
  "root_head ps \<longleftrightarrow> get_prop ps ''version'' = jint 1
     \<and> one_of [''browser_handoff'', ''window_handoff'', ''terminal_handoff''] (get_prop ps ''source'')
     \<and> one_of health_names (get_prop ps ''health'')
     \<and> absent_or (one_of failure_names) (get_prop ps ''failureCategory'')"

definition parse_media :: "jsval \<Rightarrow> jsval option" where
  "parse_media v = (if namespace_of v = JStr ''managed_handoff'' then parse_managed v else parse_webrtc v)"

lemma media_canonical: "parse_media v = Some s \<Longrightarrow> canonical parse_media s"
  using managed_canonical [of v s] webrtc_canonical [of v s] webrtc_namespace [of v s]
  by (auto simp: parse_media_def canonical_def split: if_splits)

definition media_root :: "(string \<times> jsval) list \<Rightarrow> jsval \<Rightarrow> (string \<times> jsval) list" where
  "media_root ps transport = [(''version'', jint 1), (''source'', get_prop ps ''source''),
     (''health'', get_prop ps ''health'')] @ spread_prop ps ''failureCategory'' @ [(''transport'', transport)]"

definition terminal_root :: "(string \<times> jsval) list \<Rightarrow> jsval \<Rightarrow> jsval \<Rightarrow> (string \<times> jsval) list" where
  "terminal_root ps terminal transport = [(''version'', jint 1), (''source'', JStr ''terminal_handoff''),
     (''health'', get_prop ps ''health''), (''authority'', get_prop ps ''authority'')]
     @ spread_prop ps ''phase'' @ spread_prop ps ''failureCategory''
     @ [(''terminal'', terminal), (''transport'', transport)]"

lemma parse_diagnostics_object:
  "parse_diagnostics (JObj ps) =
     (if \<not> root_head ps then None
      else if get_prop ps ''source'' \<noteq> JStr ''terminal_handoff''
      then (if \<not> keys_within ps [''version'', ''source'', ''health'', ''failureCategory'', ''transport''] then None
        else map_option (\<lambda>t. JObj (media_root ps t)) (parse_media (get_prop ps ''transport'')))
      else if \<not> keys_within ps [''version'', ''source'', ''health'', ''authority'', ''phase'',
          ''failureCategory'', ''terminal'', ''transport'']
        \<or> \<not> one_of authority_names (get_prop ps ''authority'')
        \<or> \<not> absent_or (one_of phase_names) (get_prop ps ''phase'') then None
      else (case parse_terminal_session (get_prop ps ''terminal'') of None \<Rightarrow> None
        | Some t \<Rightarrow> map_option (\<lambda>x. JObj (terminal_root ps t x))
            (parse_terminal_transport (get_prop ps ''transport''))))"
proof (cases "root_head ps")
  case True
  then have src: "get_prop ps ''source'' = JStr ''browser_handoff'' \<or> get_prop ps ''source'' = JStr ''window_handoff''
      \<longleftrightarrow> get_prop ps ''source'' \<noteq> JStr ''terminal_handoff''"
    by (cases "get_prop ps ''source''") (auto simp: root_head_def one_of_def)
  have guard: "\<not> (get_prop ps ''version'' \<noteq> jint 1
      \<or> \<not> one_of [''browser_handoff'', ''window_handoff'', ''terminal_handoff''] (get_prop ps ''source'')
      \<or> \<not> one_of health_names (get_prop ps ''health'')
      \<or> \<not> absent_or (one_of failure_names) (get_prop ps ''failureCategory''))"
    using True by (simp add: root_head_def)
  show ?thesis
    unfolding parse_diagnostics_def jsval.case if_not_P [OF guard] src
    by (simp add: True parse_media_def media_root_def terminal_root_def split: option.split)
next
  case False
  then show ?thesis by (auto simp: parse_diagnostics_def root_head_def)
qed

lemma media_root_canonical:
  assumes "root_head ps" and "get_prop ps ''source'' \<noteq> JStr ''terminal_handoff''"
    and "parse_media (get_prop ps ''transport'') = Some t"
  shows "canonical parse_diagnostics (JObj (media_root ps t))"
proof -
  let ?qs = "media_root ps t"
  have t: "closed_world t" "parse_media t = Some t" "t \<noteq> JUndefined"
    using media_canonical [OF assms(3)] by (auto simp: canonical_def)
  have props: "get_prop ?qs ''version'' = jint 1" "get_prop ?qs ''source'' = get_prop ps ''source''"
      "get_prop ?qs ''health'' = get_prop ps ''health''" "get_prop ?qs ''transport'' = t"
      "get_prop ?qs ''failureCategory'' = get_prop ps ''failureCategory''"
    by (simp_all add: media_root_def)
  have keys: "keys_within ?qs [''version'', ''source'', ''health'', ''failureCategory'', ''transport'']"
    by (auto simp: keys_within_iff media_root_def spread_prop_def)
  have head: "root_head ?qs" using assms(1) unfolding root_head_def props by simp
  have "media_root ?qs t = ?qs"
    unfolding media_root_def [of ?qs t] spread_again [OF props(5)] props(2,3) by (simp add: media_root_def)
  with head keys props(2,4) assms(2) t have "parse_diagnostics (JObj ?qs) = Some (JObj ?qs)"
    by (simp add: parse_diagnostics_object)
  moreover have "closed_world (JObj ?qs)"
    using assms(1) t spread_closed [of "one_of failure_names" ps "''failureCategory''"]
    by (simp add: media_root_def root_head_def snapshot_keys_def)
  ultimately show ?thesis by (simp add: canonical_def)
qed

lemma terminal_root_canonical:
  assumes "root_head ps" and "one_of authority_names (get_prop ps ''authority'')"
    and "absent_or (one_of phase_names) (get_prop ps ''phase'')"
    and "parse_terminal_session (get_prop ps ''terminal'') = Some t"
    and "parse_terminal_transport (get_prop ps ''transport'') = Some x"
  shows "canonical parse_diagnostics (JObj (terminal_root ps t x))"
proof -
  let ?qs = "terminal_root ps t x"
  have t: "closed_world t" "parse_terminal_session t = Some t" "closed_world x" "parse_terminal_transport x = Some x"
    using terminal_session_canonical [OF assms(4)] terminal_transport_canonical [OF assms(5)]
    by (auto simp: canonical_def)
  have props: "get_prop ?qs ''version'' = jint 1" "get_prop ?qs ''source'' = JStr ''terminal_handoff''"
      "get_prop ?qs ''health'' = get_prop ps ''health''" "get_prop ?qs ''authority'' = get_prop ps ''authority''"
      "get_prop ?qs ''phase'' = get_prop ps ''phase''"
      "get_prop ?qs ''failureCategory'' = get_prop ps ''failureCategory''"
      "get_prop ?qs ''terminal'' = t" "get_prop ?qs ''transport'' = x"
    by (simp_all add: terminal_root_def)
  have keys: "keys_within ?qs [''version'', ''source'', ''health'', ''authority'', ''phase'',
      ''failureCategory'', ''terminal'', ''transport'']"
    by (auto simp: keys_within_iff terminal_root_def spread_prop_def)
  have head: "root_head ?qs" using assms(1) unfolding root_head_def props by (simp add: one_of_def)
  have "terminal_root ?qs t x = ?qs"
    unfolding terminal_root_def [of ?qs t x] spread_again [OF props(5)] spread_again [OF props(6)] props(3,4)
    by (simp add: terminal_root_def)
  with head keys props assms(2,3) t have "parse_diagnostics (JObj ?qs) = Some (JObj ?qs)"
    by (simp add: parse_diagnostics_object)
  moreover have "closed_world (JObj ?qs)"
    using assms t spread_closed [of "one_of failure_names" ps "''failureCategory''"]
      spread_closed [of "one_of phase_names" ps "''phase''"]
    by (simp add: terminal_root_def root_head_def snapshot_keys_def)
  ultimately show ?thesis by (simp add: canonical_def)
qed

lemma diagnostics_canonical: "parse_diagnostics v = Some s \<Longrightarrow> canonical parse_diagnostics s"
proof (cases v)
  case (JObj ps)
  assume "parse_diagnostics v = Some s"
  then show ?thesis
    using media_root_canonical [of ps] terminal_root_canonical [of ps]
    by (auto simp: JObj parse_diagnostics_object split: if_splits option.splits)
qed (simp_all add: parse_diagnostics_def)

section \<open>Properties\<close>

definition sample_summary :: jsval where
  "sample_summary = JObj [(''version'', jint 1), (''source'', JStr ''browser_handoff''), (''health'', JStr ''available''),
     (''transport'', JObj [(''namespace'', JStr ''webrtc''), (''eventCount'', jint 3), (''peerState'', JStr ''connected''),
        (''candidateCounts'', JUndefined)]),
     (''failureCategory'', JUndefined)]"

definition sample_parsed :: jsval where
  "sample_parsed = JObj [(''version'', jint 1), (''source'', JStr ''browser_handoff''), (''health'', JStr ''available''),
     (''transport'', JObj [(''namespace'', JStr ''webrtc''), (''eventCount'', jint 3), (''peerState'', JStr ''connected'')])]"

lemma sample_summary_parses: "parse_diagnostics sample_summary = Some sample_parsed"
  by (simp add: sample_summary_def sample_parsed_def parse_diagnostics_def parse_webrtc_def parse_counts_def
      namespace_of_def spread_prop_def keys_within_def object_keys_def one_of_def absent_or_def bounded_integer_def
      safe_int_from_def vocabularies)

text \<open>What the parser of the operator summary returns is closed-world: every key, word, boolean and counter in it is
  one the vocabularies name, within their bounds, so no text of the producer reaches an operator through it. Parsing the
  result again returns it unchanged, so a relayed summary is stable.\<close>

theorem parsed_summary_is_closed:
  assumes "parse_diagnostics v = Some s"
  shows "closed_world s \<and> parse_diagnostics s = Some s"
  using diagnostics_canonical [OF assms] by (simp add: canonical_def)

theorem parsed_summary_is_closed_witness:
  "parse_diagnostics sample_parsed = Some sample_parsed \<and> closed_world sample_parsed"
  using parsed_summary_is_closed [OF sample_summary_parses] by simp

end
