(* ===== verification/Terminal_Pty.thy ===== *)
theory Terminal_Pty
  imports Lifecycle
begin

text \<open>
  \<open>src/experimental/terminal-pty.ts\<close>: \<open>ExperimentalTerminalPtyAuthority\<close>, the authority gate of
  one terminal session. It keeps the lifecycle of \<open>Lifecycle\<close> and four flags beside it; every call
  presents a session binding that is checked against the one the gate was made for. Epochs that a
  caller presents are integers (a number that is none equals no epoch).
\<close>

section \<open>Data\<close>

record pty_binding =
  pb_session :: string
  pb_generation :: jsnum
  pb_principal :: string

datatype pty_error =
    TERMINAL_SESSION_BINDING_INVALID
  | TERMINAL_SESSION_MISMATCH
  | TERMINAL_SESSION_CLOSED
  | TERMINAL_INTERVENTION_STALE
  | TERMINAL_AGENT_STATE_SYNC_REQUIRED
  | Pty_lifecycle handoff_error
  | Pty_drain_rejected

type_synonym pty_intervention = "(unit, string) intervention"

record pty =
  pt_session :: pty_binding
  pt_state :: "(unit, string) handoff_state"
  pt_alive :: bool
  pt_disconnected :: bool
  pt_sync_required :: bool
  pt_drained :: bool

record pty_status =
  ps_authority :: execution_authority
  ps_status :: "intervention_status option"
  ps_epoch :: "int option"
  ps_generation :: jsnum
  ps_alive :: bool
  ps_disconnected :: bool
  ps_sync_required :: bool

record pty_resume =
  pr_decision :: "unit resume_decision"
  pr_alive :: bool
  pr_sync_required :: bool

section \<open>Guards\<close>

definition normalize_pty_binding :: "pty_binding \<Rightarrow> pty_error + pty_binding" where
  "normalize_pty_binding b =
     (let sid = trim (pb_session b); pb = trim (pb_principal b) in
      if sid = [] \<or> 200 < length sid \<or> \<not> list_all is_session_char sid
        \<or> \<not> num_safe_integer (pb_generation b) \<or> num_le (pb_generation b) (num_of_int 0)
        \<or> pb = [] \<or> 512 < length pb \<or> list_ex is_line_break pb
      then Inl TERMINAL_SESSION_BINDING_INVALID
      else Inr \<lparr>pb_session = sid, pb_generation = pb_generation b, pb_principal = pb\<rparr>)"

definition new_pty :: "pty_binding \<Rightarrow> pty_error + pty" where
  "new_pty b = (case normalize_pty_binding b of
       Inl e \<Rightarrow> Inl e
     | Inr session \<Rightarrow> Inr \<lparr>pt_session = session, pt_state = initial_handoff, pt_alive = True,
         pt_disconnected = False, pt_sync_required = False, pt_drained = True\<rparr>)"

definition require_session :: "pty_binding \<Rightarrow> bool \<Rightarrow> pty \<Rightarrow> pty_error + unit" where
  "require_session b require_alive s = (case normalize_pty_binding b of
       Inl e \<Rightarrow> Inl e
     | Inr n \<Rightarrow>
         if \<not> same_bytes (pb_session n) (pb_session (pt_session s))
           \<or> \<not> num_eq (pb_generation n) (pb_generation (pt_session s))
           \<or> \<not> same_bytes (pb_principal n) (pb_principal (pt_session s))
         then Inl TERMINAL_SESSION_MISMATCH
         else if require_alive \<and> \<not> pt_alive s then Inl TERMINAL_SESSION_CLOSED
         else Inr ())"

definition require_intervention ::
  "string \<Rightarrow> int \<Rightarrow> intervention_status \<Rightarrow> pty \<Rightarrow> pty_error + pty_intervention" where
  "require_intervention i e expected s = (case hs_active (pt_state s) of
       None \<Rightarrow> Inl TERMINAL_INTERVENTION_STALE
     | Some a \<Rightarrow>
         if \<not> same_bytes (iv_id a) i \<or> iv_epoch a \<noteq> e \<or> iv_status a \<noteq> expected
         then Inl TERMINAL_INTERVENTION_STALE else Inr a)"

definition effective_authority :: "pty \<Rightarrow> execution_authority" where
  "effective_authority s =
     (if \<not> pt_alive s \<and> get_authority (pt_state s) = Agent then None_authority
      else get_authority (pt_state s))"

definition pty_get_status :: "pty \<Rightarrow> pty_status" where
  "pty_get_status s =
     \<lparr>ps_authority = effective_authority s,
      ps_status = map_option iv_status (hs_active (pt_state s)),
      ps_epoch = map_option iv_epoch (hs_active (pt_state s)),
      ps_generation = pb_generation (pt_session s), ps_alive = pt_alive s,
      ps_disconnected = pt_disconnected s, ps_sync_required = pt_sync_required s\<rparr>"

text \<open>A call of the lifecycle: its error passes through, its state is kept.\<close>

definition on_lifecycle ::
  "(handoff_error + 'r) \<times> (unit, string) handoff_state \<Rightarrow> pty \<Rightarrow> (pty_error + 'r) \<times> pty" where
  "on_lifecycle r s = (case fst r of Inl e \<Rightarrow> Inl (Pty_lifecycle e) | Inr x \<Rightarrow> Inr x, s\<lparr>pt_state := snd r\<rparr>)"

section \<open>Operations\<close>

definition begin_fence ::
  "pty_binding \<Rightarrow> string \<Rightarrow> int \<Rightarrow> pty \<Rightarrow> (pty_error + pty_intervention) \<times> pty" where
  "begin_fence b new_id t s = (case require_session b True s of
       Inl e \<Rightarrow> (Inl e, s)
     | Inr _ \<Rightarrow> (case begin_intervention ''terminal_pty'' None Never_replay new_id t (pt_state s) of
         (a, h) \<Rightarrow> (Inr a, s\<lparr>pt_state := h, pt_drained := True\<rparr>)))"

definition claim_after_drain ::
  "pty_binding \<Rightarrow> string \<Rightarrow> int \<Rightarrow> int \<Rightarrow> pty \<Rightarrow> (pty_error + pty_intervention) \<times> pty" where
  "claim_after_drain b i e t s = (case require_session b True s of
       Inl x \<Rightarrow> (Inl x, s)
     | Inr _ \<Rightarrow> (case require_intervention i e Awaiting_human s of
         Inl x \<Rightarrow> (Inl x, s)
       | Inr _ \<Rightarrow> on_lifecycle (claim_human i t (pt_state s)) (s\<lparr>pt_disconnected := False\<rparr>)))"

text \<open>\<open>beginHuman\<close> awaits the drain of the agent's writes between the two; \<open>others\<close> is what other
  callers do to the gate meanwhile, \<open>drained\<close> whether the drain resolved.\<close>

definition begin_human ::
  "pty_binding \<Rightarrow> string \<Rightarrow> int \<Rightarrow> (pty \<Rightarrow> pty) \<Rightarrow> bool \<Rightarrow> int \<Rightarrow> pty \<Rightarrow> (pty_error + pty_intervention) \<times> pty"
where
  "begin_human b new_id t others drained t' s = (case begin_fence b new_id t s of
       (Inl e, s1) \<Rightarrow> (Inl e, s1)
     | (Inr a, s1) \<Rightarrow> (if \<not> drained then (Inl Pty_drain_rejected, others s1)
         else claim_after_drain b (iv_id a) (iv_epoch a) t' (others s1)))"

definition cancel_before_human ::
  "pty_binding \<Rightarrow> string \<Rightarrow> int \<Rightarrow> pty \<Rightarrow> (pty_error + pty_status) \<times> pty" where
  "cancel_before_human b i e s = (case require_session b True s of
       Inl x \<Rightarrow> (Inl x, s)
     | Inr _ \<Rightarrow> (case require_intervention i e Awaiting_human s of
         Inl x \<Rightarrow> (Inl x, s)
       | Inr a \<Rightarrow> (case on_lifecycle (cancel_intervention (iv_id a) (pt_state s)) s of
           (Inl x, s1) \<Rightarrow> (Inl x, s1)
         | (Inr _, s1) \<Rightarrow> (let s2 = s1\<lparr>pt_disconnected := False, pt_drained := True\<rparr>
             in (Inr (pty_get_status s2), s2)))))"

definition assert_agent_input :: "pty_binding \<Rightarrow> pty \<Rightarrow> pty_error + unit" where
  "assert_agent_input b s = (case require_session b True s of
       Inl e \<Rightarrow> Inl e
     | Inr _ \<Rightarrow> (case assert_agent_authority (pt_state s) of
         Inl e \<Rightarrow> Inl (Pty_lifecycle e)
       | Inr _ \<Rightarrow> if pt_sync_required s then Inl TERMINAL_AGENT_STATE_SYNC_REQUIRED else Inr ()))"

definition assert_agent_observation :: "pty_binding \<Rightarrow> pty \<Rightarrow> pty_error + unit" where
  "assert_agent_observation b s = (case require_session b True s of
       Inl e \<Rightarrow> Inl e
     | Inr _ \<Rightarrow> (case assert_agent_authority (pt_state s) of
         Inl e \<Rightarrow> Inl (Pty_lifecycle e)
       | Inr _ \<Rightarrow> if pt_sync_required s then Inl TERMINAL_AGENT_STATE_SYNC_REQUIRED else Inr ()))"

definition assert_agent_resize :: "pty_binding \<Rightarrow> pty \<Rightarrow> pty_error + unit" where
  "assert_agent_resize b s = assert_agent_input b s"

definition assert_human_input :: "pty_binding \<Rightarrow> string \<Rightarrow> int \<Rightarrow> pty \<Rightarrow> pty_error + unit" where
  "assert_human_input b i e s = (case require_session b True s of
       Inl x \<Rightarrow> Inl x
     | Inr _ \<Rightarrow> (case require_intervention i e Human_active s of Inl x \<Rightarrow> Inl x | Inr _ \<Rightarrow> Inr ()))"

definition assert_human_observation :: "pty_binding \<Rightarrow> string \<Rightarrow> int \<Rightarrow> pty \<Rightarrow> pty_error + unit" where
  "assert_human_observation b i e s = assert_human_input b i e s"

definition assert_human_resize :: "pty_binding \<Rightarrow> string \<Rightarrow> int \<Rightarrow> pty \<Rightarrow> pty_error + unit" where
  "assert_human_resize b i e s = assert_human_input b i e s"

definition note_human_disconnect ::
  "pty_binding \<Rightarrow> string \<Rightarrow> int \<Rightarrow> pty \<Rightarrow> (pty_error + pty_status) \<times> pty" where
  "note_human_disconnect b i e s = (case assert_human_input b i e s of
       Inl x \<Rightarrow> (Inl x, s)
     | Inr _ \<Rightarrow> (let s1 = s\<lparr>pt_disconnected := True\<rparr> in (Inr (pty_get_status s1), s1)))"

definition done_fence ::
  "pty_binding \<Rightarrow> string \<Rightarrow> int \<Rightarrow> int \<Rightarrow> pty \<Rightarrow> (pty_error + pty_intervention) \<times> pty" where
  "done_fence b i e t s = (case require_session b False s of
       Inl x \<Rightarrow> (Inl x, s)
     | Inr _ \<Rightarrow> (case require_intervention i e Human_active s of
         Inl x \<Rightarrow> (Inl x, s)
       | Inr _ \<Rightarrow> (case on_lifecycle (mark_human_complete i t (pt_state s)) s of
           (Inl x, s1) \<Rightarrow> (Inl x, s1)
         | (Inr a, s1) \<Rightarrow>
             (Inr a, s1\<lparr>pt_disconnected := False, pt_sync_required := True, pt_drained := False\<rparr>))))"

definition confirm_drained ::
  "pty_binding \<Rightarrow> string \<Rightarrow> int \<Rightarrow> pty \<Rightarrow> (pty_error + pty_intervention) \<times> pty" where
  "confirm_drained b i e s = (case require_session b False s of
       Inl x \<Rightarrow> (Inl x, s)
     | Inr _ \<Rightarrow> (case require_intervention i e Verifying s of
         Inl x \<Rightarrow> (Inl x, s)
       | Inr a \<Rightarrow> (Inr a, s\<lparr>pt_drained := True\<rparr>)))"

definition mark_human_done_pty ::
  "pty_binding \<Rightarrow> string \<Rightarrow> int \<Rightarrow> int \<Rightarrow> (pty \<Rightarrow> pty) \<Rightarrow> bool \<Rightarrow> pty \<Rightarrow> (pty_error + pty_intervention) \<times> pty"
where
  "mark_human_done_pty b i e t others drained s = (case done_fence b i e t s of
       (Inl x, s1) \<Rightarrow> (Inl x, s1)
     | (Inr a, s1) \<Rightarrow> (if \<not> drained then (Inl Pty_drain_rejected, others s1)
         else confirm_drained b (iv_id a) (iv_epoch a) (others s1)))"

definition report_verification ::
  "pty_binding \<Rightarrow> string \<Rightarrow> int \<Rightarrow> bool \<Rightarrow> int \<Rightarrow> pty \<Rightarrow> (pty_error + pty_intervention) \<times> pty" where
  "report_verification b i e satisfied t s = (case require_session b False s of
       Inl x \<Rightarrow> (Inl x, s)
     | Inr _ \<Rightarrow> (case require_intervention i e Verifying s of
         Inl x \<Rightarrow> (Inl x, s)
       | Inr a \<Rightarrow>
           if \<not> pt_drained s then (Inl TERMINAL_INTERVENTION_STALE, s)
           else if \<not> satisfied then (Inr a, s)
           else on_lifecycle (mark_verified i t (pt_state s)) s))"

definition resume_pty ::
  "pty_binding \<Rightarrow> string \<Rightarrow> int \<Rightarrow> pty \<Rightarrow> (pty_error + pty_resume) \<times> pty" where
  "resume_pty b i e s = (case require_session b False s of
       Inl x \<Rightarrow> (Inl x, s)
     | Inr _ \<Rightarrow> (case require_intervention i e Ready_to_resume s of
         Inl x \<Rightarrow> (Inl x, s)
       | Inr _ \<Rightarrow> (case on_lifecycle (resume_agent i (pt_state s)) s of
           (Inl x, s1) \<Rightarrow> (Inl x, s1)
         | (Inr d, s1) \<Rightarrow> (Inr \<lparr>pr_decision = d, pr_alive = pt_alive s1,
               pr_sync_required = pt_sync_required s1\<rparr>, s1))))"

definition acknowledge_sync :: "pty_binding \<Rightarrow> pty \<Rightarrow> (pty_error + unit) \<times> pty" where
  "acknowledge_sync b s = (case require_session b True s of
       Inl x \<Rightarrow> (Inl x, s)
     | Inr _ \<Rightarrow> if get_authority (pt_state s) \<noteq> Agent then (Inl TERMINAL_INTERVENTION_STALE, s)
         else (Inr (), s\<lparr>pt_sync_required := False\<rparr>))"

text \<open>The lifecycle calls of the exit cannot throw: the intervention is the active one, in the state
  they ask for.\<close>

definition note_session_exit :: "pty_binding \<Rightarrow> int \<Rightarrow> pty \<Rightarrow> (pty_error + pty_status) \<times> pty" where
  "note_session_exit b t s = (case require_session b False s of
       Inl x \<Rightarrow> (Inl x, s)
     | Inr _ \<Rightarrow>
         if \<not> pt_alive s then (Inr (pty_get_status s), s)
         else (let s1 = s\<lparr>pt_alive := False, pt_sync_required := True\<rparr>;
                   s2 = (case hs_active (pt_state s) of
                       None \<Rightarrow> s1
                     | Some a \<Rightarrow>
                         if iv_status a = Awaiting_human
                         then s1\<lparr>pt_state := snd (cancel_intervention (iv_id a) (pt_state s)), pt_drained := True\<rparr>
                         else if iv_status a = Human_active
                         then s1\<lparr>pt_state := snd (mark_human_complete (iv_id a) t (pt_state s)), pt_drained := True\<rparr>
                         else s1);
                   s3 = s2\<lparr>pt_disconnected := False\<rparr>
               in (Inr (pty_get_status s3), s3)))"

lemmas pty_ops = begin_fence_def claim_after_drain_def cancel_before_human_def note_human_disconnect_def
  done_fence_def confirm_drained_def report_verification_def resume_pty_def acknowledge_sync_def
  note_session_exit_def on_lifecycle_def

lemmas pty_guards = assert_agent_input_def assert_human_input_def

section \<open>Guards, exactly\<close>

lemma require_intervention_iff [guard_simps]:
  "require_intervention i e st s = Inr a \<longleftrightarrow>
     hs_active (pt_state s) = Some a \<and> iv_id a = i \<and> iv_epoch a = e \<and> iv_status a = st"
  by (auto simp: require_intervention_def split: option.splits)

definition session_ok :: "pty_binding \<Rightarrow> pty \<Rightarrow> bool" where
  "session_ok b s \<longleftrightarrow> require_session b False s = Inr ()"

lemma require_session_iff [guard_simps]:
  "require_session b alive s = Inr u \<longleftrightarrow> session_ok b s \<and> (alive \<longrightarrow> pt_alive s)"
  by (cases u) (auto simp: session_ok_def require_session_def split: sum.splits)

lemma session_ok_update [simp]:
  "session_ok b (s\<lparr>pt_state := h\<rparr>) = session_ok b s" "session_ok b (s\<lparr>pt_drained := d\<rparr>) = session_ok b s"
  "session_ok b (s\<lparr>pt_disconnected := d\<rparr>) = session_ok b s" "session_ok b (s\<lparr>pt_sync_required := d\<rparr>) = session_ok b s"
  by (simp_all add: session_ok_def require_session_def split: sum.split)

lemma require_session_ok [simp]: "session_ok b s \<Longrightarrow> pt_alive s \<or> \<not> alive \<Longrightarrow> require_session b alive s = Inr ()"
  by (auto simp: guard_simps)

lemma assert_agent_input_iff [guard_simps]:
  "assert_agent_input b s = Inr u \<longleftrightarrow>
     session_ok b s \<and> pt_alive s \<and> hs_active (pt_state s) = None \<and> \<not> pt_sync_required s"
  by (cases "require_session b True s")
    (auto simp: assert_agent_input_def guard_simps assert_agent_authority_def split: option.splits)

lemma assert_human_input_iff [guard_simps]:
  "assert_human_input b i e s = Inr u \<longleftrightarrow> session_ok b s \<and> pt_alive s \<and>
     (\<exists>a. hs_active (pt_state s) = Some a \<and> iv_id a = i \<and> iv_epoch a = e \<and> iv_status a = Human_active)"
  by (cases "require_session b True s")
    (auto simp: assert_human_input_def guard_simps require_intervention_def split: option.splits)


section \<open>Runs\<close>

text \<open>A call of the gate, with what the clock and the id source return to it. \<open>beginHuman\<close> and
  \<open>markHumanDone\<close> are two calls each, with the calls of others between them.\<close>

datatype pty_call =
    P_begin pty_binding string int
  | P_claim pty_binding string int int
  | P_cancel pty_binding string int
  | P_disconnect pty_binding string int
  | P_done pty_binding string int int
  | P_drained pty_binding string int
  | P_report pty_binding string int bool int
  | P_resume pty_binding string int
  | P_sync pty_binding
  | P_exit pty_binding int

fun pty_step :: "pty \<Rightarrow> pty_call \<Rightarrow> pty" where
  "pty_step s (P_begin b i t) = snd (begin_fence b i t s)"
| "pty_step s (P_claim b i e t) = snd (claim_after_drain b i e t s)"
| "pty_step s (P_cancel b i e) = snd (cancel_before_human b i e s)"
| "pty_step s (P_disconnect b i e) = snd (note_human_disconnect b i e s)"
| "pty_step s (P_done b i e t) = snd (done_fence b i e t s)"
| "pty_step s (P_drained b i e) = snd (confirm_drained b i e s)"
| "pty_step s (P_report b i e ok t) = snd (report_verification b i e ok t s)"
| "pty_step s (P_resume b i e) = snd (resume_pty b i e s)"
| "pty_step s (P_sync b) = snd (acknowledge_sync b s)"
| "pty_step s (P_exit b t) = snd (note_session_exit b t s)"

lemma begin_human_run:
  "\<exists>cs. snd (begin_human b i t (\<lambda>s. run pty_step s ds) drained t' s) = run pty_step s cs"
proof (cases "begin_fence b i t s")
  case (Pair r s1)
  let ?f = "P_begin b i t"
  have s1: "pty_step s ?f = s1" using Pair by simp
  show ?thesis
  proof (cases r)
    case Inl
    with Pair s1 show ?thesis by (intro exI [of _ "[?f]"]) (simp add: begin_human_def)
  next
    case (Inr a)
    then show ?thesis
      using Pair s1 by (intro exI [of _ "?f # ds @ (if drained then [P_claim b (iv_id a) (iv_epoch a) t'] else [])"])
        (simp add: begin_human_def)
  qed
qed

lemma mark_human_done_run:
  "\<exists>cs. snd (mark_human_done_pty b i e t (\<lambda>s. run pty_step s ds) drained s) = run pty_step s cs"
proof (cases "done_fence b i e t s")
  case (Pair r s1)
  let ?f = "P_done b i e t"
  have s1: "pty_step s ?f = s1" using Pair by simp
  show ?thesis
  proof (cases r)
    case Inl
    with Pair s1 show ?thesis by (intro exI [of _ "[?f]"]) (simp add: mark_human_done_pty_def)
  next
    case (Inr a)
    then show ?thesis
      using Pair s1 by (intro exI [of _ "?f # ds @ (if drained then [P_drained b (iv_id a) (iv_epoch a)] else [])"])
        (simp add: mark_human_done_pty_def)
  qed
qed

text \<open>What a state of the gate may be: the lifecycle is good, the agent's view is stale whenever a
  human period has not been followed by a resume, and the resource epoch only grows.\<close>

definition pty_good :: "pty \<Rightarrow> bool" where
  "pty_good s \<longleftrightarrow> lc_good (pt_state s) \<and> (\<not> pt_alive s \<longrightarrow> pt_sync_required s) \<and>
     (case hs_active (pt_state s) of None \<Rightarrow> True | Some a \<Rightarrow>
        (\<not> iv_status a \<in> {Awaiting_human, Human_active} \<longrightarrow> pt_sync_required s) \<and>
        (iv_status a \<noteq> Verifying \<longrightarrow> pt_drained s) \<and> iv_epoch a = hs_epoch (pt_state s) \<and>
        (\<not> pt_alive s \<longrightarrow> \<not> iv_status a \<in> {Awaiting_human, Human_active}))"

definition pty_epoch :: "pty \<Rightarrow> int" where
  "pty_epoch s = hs_epoch (pt_state s)"

lemma pty_good_new: "new_pty b = Inr s \<Longrightarrow> pty_good s"
  by (auto simp: new_pty_def pty_good_def split: sum.splits) (simp add: initial_handoff_def)

lemma pty_good_step [wf_intros]: "pty_good s \<Longrightarrow> pty_good (pty_step s c)"
  by (cases c)
    (auto simp: pty_good_def pty_ops guard_simps lc_good_def lifecycle_ops Let_def
      split: sum.splits option.splits prod.splits if_splits)

lemma pty_epoch_step: "pty_epoch s \<le> pty_epoch (pty_step s c)"
  by (cases c)
    (auto simp: pty_epoch_def pty_ops lifecycle_ops Let_def split: sum.splits option.splits prod.splits if_splits)

lemma human_input_epoch:
  "pty_good s \<Longrightarrow> \<exists>b i. assert_human_input b i e s = Inr () \<Longrightarrow> e = pty_epoch s"
  by (auto simp: guard_simps pty_good_def pty_epoch_def)

interpretation pty: fenced_machine pty_step pty_good pty_epoch "\<lambda>s e. \<exists>b i. assert_human_input b i e s = Inr ()"
  by unfold_locales (rule pty_good_step pty_epoch_step human_input_epoch; assumption)+

lemma pty_dead_step: "\<not> pt_alive s \<Longrightarrow> \<not> pt_alive (pty_step s c)"
  by (cases c) (auto simp: pty_ops Let_def split: sum.splits option.splits prod.splits if_splits)

lemma pty_dead_run: "\<not> pt_alive s \<Longrightarrow> \<not> pt_alive (run pty_step s cs)"
  by (induction cs arbitrary: s) (simp_all add: pty_dead_step del: pty_step.simps)

text \<open>What a human period that was opened owes before the agent may write again, and what the calls
  of a run did of it.\<close>

datatype pty_deed = D_done | D_drained | D_verified | D_resumed | D_synced

fun pty_effect :: "pty \<Rightarrow> pty_call \<Rightarrow> pty_deed list" where
  "pty_effect s (P_done b i e t) = (if is_ok (fst (done_fence b i e t s)) then [D_done] else [])"
| "pty_effect s (P_drained b i e) = (if is_ok (fst (confirm_drained b i e s)) then [D_drained] else [])"
| "pty_effect s (P_report b i e ok t) =
     (if ok \<and> is_ok (fst (report_verification b i e ok t s)) then [D_verified] else [])"
| "pty_effect s (P_resume b i e) = (if is_ok (fst (resume_pty b i e s)) then [D_resumed] else [])"
| "pty_effect s (P_sync b) = (if is_ok (fst (acknowledge_sync b s)) then [D_synced] else [])"
| "pty_effect s _ = []"

fun pty_effects :: "pty \<Rightarrow> pty_call list \<Rightarrow> pty_deed list" where
  "pty_effects s [] = []"
| "pty_effects s (c # cs) = pty_effect s c @ pty_effects (pty_step s c) cs"

definition pty_owed :: "pty \<Rightarrow> pty_deed list" where
  "pty_owed s = (case map_option iv_status (hs_active (pt_state s)) of
       Some Human_active \<Rightarrow> [D_done, D_drained, D_verified, D_resumed, D_synced]
     | Some Verifying \<Rightarrow> (if pt_drained s then [] else [D_drained]) @ [D_verified, D_resumed, D_synced]
     | Some Ready_to_resume \<Rightarrow> [D_resumed, D_synced]
     | _ \<Rightarrow> if pt_sync_required s then [D_synced] else [])"

text \<open>\<open>beginFence\<close> is called on a gate that has no intervention open.\<close>

fun begins_idle :: "pty \<Rightarrow> pty_call \<Rightarrow> bool" where
  "begins_idle s (P_begin b i t) \<longleftrightarrow> hs_active (pt_state s) = None"
| "begins_idle s _ \<longleftrightarrow> True"

lemma pty_owed_step:
  assumes "pty_good s" and "pt_alive (pty_step s c)" and "begins_idle s c"
  shows "subseq (pty_owed s) (pty_effect s c @ pty_owed (pty_step s c))"
  using assms
  by (cases c)
    (auto simp: pty_owed_def pty_good_def pty_ops lifecycle_ops guard_simps Let_def
      split: sum.splits option.splits prod.splits if_splits intervention_status.splits)

fun begin_only_idle :: "pty \<Rightarrow> pty_call list \<Rightarrow> bool" where
  "begin_only_idle s [] \<longleftrightarrow> True"
| "begin_only_idle s (c # cs) \<longleftrightarrow> begins_idle s c \<and> begin_only_idle (pty_step s c) cs"

lemma pty_owed_run:
  assumes "pty_good s" and "pt_alive (run pty_step s cs)" and "begin_only_idle s cs"
  shows "subseq (pty_owed s) (pty_effects s cs @ pty_owed (run pty_step s cs))"
  using assms
proof (induction cs arbitrary: s)
  case Nil
  then show ?case by simp
next
  case (Cons c cs)
  have alive: "pt_alive (pty_step s c)" using Cons.prems(2) pty_dead_run by auto
  with Cons have "subseq (pty_owed (pty_step s c)) (pty_effects (pty_step s c) cs @ pty_owed (run pty_step s (c # cs)))"
    by (auto intro: pty_good_step simp del: pty_step.simps)
  moreover have "subseq (pty_owed s) (pty_effect s c @ pty_owed (pty_step s c))"
    using Cons.prems alive by (intro pty_owed_step) auto
  ultimately show ?case by (auto intro: subseq_order.order_trans list_emb_append_mono)
qed

lemma agent_input_owes_nothing: "assert_agent_input b s = Inr u \<Longrightarrow> pt_alive s \<and> pty_owed s = []"
  by (auto simp: guard_simps pty_owed_def)

lemma ended_human_epoch:
  assumes "pty_good s" and "assert_human_input b i e s = Inr ()"
    and "is_ok (fst (done_fence b' i' e' t s)) \<and> s' = snd (done_fence b' i' e' t s)
      \<or> is_ok (fst (note_session_exit b' t s)) \<and> s' = snd (note_session_exit b' t s)"
  shows "pty_good s' \<and> e < pty_epoch s'"
proof -
  have step: "s' = pty_step s (P_done b' i' e' t) \<or> s' = pty_step s (P_exit b' t)" using assms(3) by auto
  moreover have "e = hs_epoch (pt_state s)" using assms(1,2) by (auto simp: guard_simps pty_good_def)
  moreover have "pty_epoch s < pty_epoch s'"
    using assms(2,3)
    by (auto simp: pty_epoch_def pty_ops guard_simps lifecycle_ops Let_def
        split: sum.splits option.splits prod.splits if_splits)
  ultimately show ?thesis using assms(1) by (auto intro: pty_good_step simp: pty_epoch_def simp del: pty_step.simps)
qed

section \<open>Properties\<close>

definition sample_pty_binding :: pty_binding where
  "sample_pty_binding = \<lparr>pb_session = ''pty-1'', pb_generation = Fin 1, pb_principal = ''alice''\<rparr>"

definition sample_pty :: pty where
  "sample_pty = \<lparr>pt_session = sample_pty_binding, pt_state = initial_handoff, pt_alive = True, pt_disconnected = False,
     pt_sync_required = False, pt_drained = True\<rparr>"

lemma sample_pty_binding_normal: "normalize_pty_binding sample_pty_binding = Inr sample_pty_binding"
  by (simp add: normalize_pty_binding_def sample_pty_binding_def trim_def is_space_def is_session_char_def is_alnum_def
      is_line_break_def char_code_def)

lemma sample_pty_new: "new_pty sample_pty_binding = Inr sample_pty"
  by (simp add: new_pty_def sample_pty_binding_normal sample_pty_def)

lemma sample_pty_session [simp]: "pt_session s = sample_pty_binding \<Longrightarrow> session_ok sample_pty_binding s"
  by (simp add: session_ok_def require_session_def sample_pty_binding_normal) (simp add: sample_pty_binding_def)

definition sample_human :: pty where
  "sample_human = sample_pty\<lparr>pt_state := \<lparr>hs_epoch = 1, hs_active = Some \<lparr>iv_id = ''i1'', iv_reason = ''terminal_pty'',
     iv_status = Human_active, iv_authority = Human, iv_epoch = 1, iv_action = None, iv_policy = Never_replay,
     iv_created = 5, iv_updated = 6\<rparr>\<rparr>\<rparr>"

lemma sample_human_reached:
  "run pty_step sample_pty [P_begin sample_pty_binding ''i1'' 5, P_claim sample_pty_binding ''i1'' 1 6] = sample_human"
  by (simp add: pty_ops sample_pty_def sample_human_def initial_handoff_def lifecycle_ops require_intervention_def Let_def)

text \<open>The return path, with a refused agent on the way.\<close>

definition sample_return :: "pty_call list" where
  "sample_return = [P_done sample_pty_binding ''i1'' 1 7, P_report sample_pty_binding ''i1'' 2 True 8,
     P_drained sample_pty_binding ''i1'' 2, P_report sample_pty_binding ''i1'' 2 True 9,
     P_resume sample_pty_binding ''i1'' 2, P_sync sample_pty_binding]"

lemma sample_returned:
  "run pty_step sample_human sample_return = sample_pty\<lparr>pt_state := \<lparr>hs_epoch = 2, hs_active = None\<rparr>\<rparr>"
  "pty_effects sample_human sample_return = [D_done, D_drained, D_verified, D_resumed, D_synced]"
  by (simp_all add: sample_return_def sample_human_def sample_pty_def pty_ops lifecycle_ops require_intervention_def Let_def)

text \<open>The agent gets the terminal back in order only. Once a human was in control of the terminal, the agent's input
  is accepted again only after, in this order, the human's Done fenced it, the human's admitted writes were confirmed
  drained, a verification succeeded, the agent resumed and it acknowledged that its view was synchronised, whatever
  calls with whatever bindings came between; \<open>beginFence\<close> is taken to be called with no intervention open (\<open>repeated_begin_skips_drain\<close> says
  what it does otherwise).\<close>

theorem terminal_returns_in_order:
  assumes "new_pty b\<^sub>0 = Inr s\<^sub>0" and "s = run pty_step s\<^sub>0 cs"
    and "hs_active (pt_state s) = Some a" and "iv_status a = Human_active"
    and "begin_only_idle s ds" and "assert_agent_input b (run pty_step s ds) = Inr ()"
  shows "subseq [D_done, D_drained, D_verified, D_resumed, D_synced] (pty_effects s ds)"
proof -
  have "pty_good s" using pty.good_run [OF pty_good_new [OF assms(1)]] assms(2) by blast
  with agent_input_owes_nothing [OF assms(6)] pty_owed_run [OF _ _ assms(5)]
  have "subseq (pty_owed s) (pty_effects s ds)" by fastforce
  then show ?thesis using assms(3,4) by (simp add: pty_owed_def)
qed

theorem terminal_returns_in_order_witness:
  "assert_agent_input sample_pty_binding (run pty_step sample_human sample_return) = Inr ()
   \<and> subseq [D_done, D_drained, D_verified, D_resumed, D_synced] (pty_effects sample_human sample_return)"
proof -
  have ok: "assert_agent_input sample_pty_binding (run pty_step sample_human sample_return) = Inr ()"
    by (simp add: guard_simps sample_returned sample_pty_def)
  have "begin_only_idle sample_human sample_return" by (simp add: sample_return_def)
  from terminal_returns_in_order [OF sample_pty_new sample_human_reached [symmetric] _ _ this ok] ok
  show ?thesis by (simp add: sample_human_def)
qed

text \<open>C36. A repeated \<open>beginFence\<close> undoes the drain fence. While the human's admitted writes are not drained, a
  verification is refused; but a \<open>beginFence\<close> at that moment, which returns the open intervention, also marks the
  writes as drained, and the same verification is then accepted, though no drain was confirmed.\<close>

theorem repeated_begin_skips_drain:
  assumes "session_ok b s" and "pt_alive s" and "\<not> pt_drained s"
    and "hs_active (pt_state s) = Some a" and "iv_status a = Verifying"
  shows "fst (report_verification b (iv_id a) (iv_epoch a) True t s) = Inl TERMINAL_INTERVENTION_STALE
     \<and> fst (begin_fence b i t' s) = Inr a
     \<and> fst (report_verification b (iv_id a) (iv_epoch a) True t (snd (begin_fence b i t' s)))
       = Inr (a\<lparr>iv_status := Ready_to_resume, iv_updated := t\<rparr>)"
proof -
  let ?s = "s\<lparr>pt_drained := True\<rparr>"
  have "begin_fence b i t' s = (Inr a, ?s)" using assms by (simp add: pty_ops lifecycle_ops)
  moreover have "session_ok b ?s" using assms(1) by simp
  ultimately show ?thesis
    using assms by (simp add: report_verification_def on_lifecycle_def require_intervention_def lifecycle_ops Let_def)
qed

theorem repeated_begin_skips_drain_witness:
  "is_ok (fst (report_verification sample_pty_binding ''i1'' 2 True 9
     (snd (begin_fence sample_pty_binding ''i2'' 8 (pty_step sample_human (P_done sample_pty_binding ''i1'' 1 7))))))"
proof -
  let ?s = "pty_step sample_human (P_done sample_pty_binding ''i1'' 1 7)"
  have s: "?s = sample_human\<lparr>pt_state := \<lparr>hs_epoch = 2, hs_active = Some \<lparr>iv_id = ''i1'', iv_reason = ''terminal_pty'',
      iv_status = Verifying, iv_authority = None_authority, iv_epoch = 2, iv_action = None, iv_policy = Never_replay,
      iv_created = 5, iv_updated = 7\<rparr>\<rparr>, pt_sync_required := True, pt_drained := False\<rparr>"
    by (simp add: sample_human_def sample_pty_def pty_ops lifecycle_ops require_intervention_def Let_def)
  show ?thesis
    using repeated_begin_skips_drain [of sample_pty_binding ?s, where t = 9 and i = "''i2''" and t' = 8]
    unfolding s by (simp add: sample_human_def sample_pty_def)
qed

text \<open>A human's reference is good for one human period. While it is accepted, the agent's input and observation are
  refused to every binding; and once the period ended, by Done or by the exit of the session, no call with that
  reference's epoch is accepted again, whatever follows, for any intervention id and any binding.\<close>

theorem human_reference_is_fenced:
  assumes "new_pty b\<^sub>0 = Inr s\<^sub>0" and "s = run pty_step s\<^sub>0 cs"
    and "assert_human_input b i e s = Inr ()"
    and "is_ok (fst (done_fence b' i' e' t s)) \<and> s' = snd (done_fence b' i' e' t s)
      \<or> is_ok (fst (note_session_exit b' t s)) \<and> s' = snd (note_session_exit b' t s)"
  shows "assert_agent_input c s \<noteq> Inr () \<and> assert_agent_observation c s \<noteq> Inr ()
     \<and> assert_human_input c j e (run pty_step s' ds) \<noteq> Inr ()"
proof -
  have good: "pty_good s" using pty.good_run [OF pty_good_new [OF assms(1)]] assms(2) by blast
  have "\<not> assert_agent_input c s = Inr ()" using assms(3) by (auto simp: guard_simps)
  moreover have "assert_agent_observation c s = assert_agent_input c s"
    by (simp add: assert_agent_observation_def assert_agent_input_def)
  ultimately show ?thesis
    using pty.stale_never_admitted [of s' e ds] ended_human_epoch [OF good assms(3,4)] by auto
qed

theorem human_reference_is_fenced_witness:
  "assert_human_input sample_pty_binding ''i1'' 1 sample_human = Inr ()
   \<and> assert_human_input sample_pty_binding ''i1'' 1 (run pty_step sample_human sample_return) \<noteq> Inr ()"
proof -
  have held: "assert_human_input sample_pty_binding ''i1'' 1 sample_human = Inr ()"
    by (simp add: guard_simps sample_human_def sample_pty_def)
  have "is_ok (fst (done_fence sample_pty_binding ''i1'' 1 7 sample_human))"
    by (simp add: sample_human_def sample_pty_def pty_ops lifecycle_ops require_intervention_def Let_def)
  then show ?thesis
    using human_reference_is_fenced [OF sample_pty_new sample_human_reached [symmetric] held, of sample_pty_binding "''i1''"
        1 7 "snd (done_fence sample_pty_binding ''i1'' 1 7 sample_human)"
        sample_pty_binding "''i1''" "tl sample_return"] held
    by (simp add: sample_return_def)
qed

end
