(* ===== verification/Base64.thy ===== *)
theory Base64
  imports Handoff_Prelude
begin

text \<open>
  The base64 of \<open>Buffer.toString("base64")\<close> and \<open>Buffer.from(text, "base64")\<close>, and the strict
  decoder \<open>decodeBase64\<close> of \<open>src/experimental/terminal-webrtc.ts\<close>, which accepts a text only if it is
  the encoding of the bytes it decodes to.
\<close>

section \<open>The alphabet\<close>

definition b64_char :: "nat \<Rightarrow> char" where
  "b64_char n = char_of (if n < 26 then 65 + n else if n < 52 then 71 + n else if n < 62 then n - 4
     else if n = 62 then 43 else 47)"

definition is_b64_char :: "char \<Rightarrow> bool" where
  "is_b64_char c \<longleftrightarrow> is_alnum c \<or> c = CHR ''+'' \<or> c = CHR ''/''"

definition b64_value :: "char \<Rightarrow> nat" where
  "b64_value c = (let n = char_code c in
     if 65 \<le> n \<and> n \<le> 90 then n - 65 else if 97 \<le> n \<and> n \<le> 122 then n - 71
     else if 48 \<le> n \<and> n \<le> 57 then n + 4 else if n = 43 then 62 else 63)"

definition pad :: char where
  "pad = CHR ''=''"

lemma char_code_of [simp]: "char_code (char_of n) = n mod 256"
  by (simp add: char_code_def of_char_of)

lemma char_by_code: "c = d \<longleftrightarrow> char_code c = char_code d"
  by simp

lemma b64_char_ok:
  assumes "n < 64"
  shows "b64_value (b64_char n) = n \<and> is_b64_char (b64_char n) \<and> b64_char n \<noteq> pad"
proof -
  have literals: "char_code CHR ''+'' = 43" "char_code CHR ''/'' = 47" "char_code pad = 61"
    by (simp_all add: char_code_def pad_def)
  have code: "char_code (b64_char n) = (if n < 26 then 65 + n else if n < 52 then 71 + n else if n < 62 then n - 4
     else if n = 62 then 43 else 47)"
    using assms by (simp add: b64_char_def)
  show ?thesis
    unfolding b64_value_def is_b64_char_def is_alnum_def Let_def char_by_code [of "b64_char n"] literals code
    using assms by auto
qed

section \<open>Encoding and decoding\<close>

fun b64_encode :: "byte_list \<Rightarrow> string" where
  "b64_encode [] = []"
| "b64_encode [a] = [b64_char (a div 4), b64_char (a mod 4 * 16), pad, pad]"
| "b64_encode [a, b] = [b64_char (a div 4), b64_char (a mod 4 * 16 + b div 16), b64_char (b mod 16 * 4), pad]"
| "b64_encode (a # b # c # bs) = [b64_char (a div 4), b64_char (a mod 4 * 16 + b div 16),
     b64_char (b mod 16 * 4 + c div 64), b64_char (c mod 64)] @ b64_encode bs"

text \<open>Groups of six bits; a rest of one group has no byte.\<close>

fun b64_bytes :: "nat list \<Rightarrow> byte_list" where
  "b64_bytes (p # q # r # s # ns) = [p * 4 + q div 16, q mod 16 * 16 + r div 4, r mod 4 * 64 + s] @ b64_bytes ns"
| "b64_bytes [p, q, r] = [p * 4 + q div 16, q mod 16 * 16 + r div 4]"
| "b64_bytes [p, q] = [p * 4 + q div 16]"
| "b64_bytes _ = []"

definition b64_body :: "string \<Rightarrow> string" where
  "b64_body v = takeWhile (\<lambda>c. c \<noteq> pad) v"

definition b64_decode :: "string \<Rightarrow> byte_list" where
  "b64_decode v = b64_bytes (map b64_value (b64_body v))"

text \<open>\<open>/^[A-Za-z0-9+/]*={0,2}$/\<close>.\<close>

definition b64_shape :: "string \<Rightarrow> bool" where
  "b64_shape v \<longleftrightarrow> list_all is_b64_char (b64_body v)
     \<and> dropWhile (\<lambda>c. c \<noteq> pad) v \<in> {[], [pad], [pad, pad]}"

text \<open>\<open>decodeBase64(value, maxBytes)\<close>; \<open>None\<close> is the error it throws.\<close>

definition decode_base64 :: "string \<Rightarrow> nat \<Rightarrow> byte_list option" where
  "decode_base64 v max_bytes =
     (if \<not> b64_shape v \<or> (max_bytes + 2) div 3 * 4 + 4 < length v then None
      else (let bytes = b64_decode v in
        if length bytes < 1 \<or> max_bytes < length bytes \<or> b64_encode bytes \<noteq> v then None else Some bytes))"

section \<open>The round trip\<close>

lemma byte_parts:
  fixes a :: nat assumes "a < 256"
  shows "a div 4 < 64" "a div 16 < 16" "a div 64 < 4" "a mod 4 * 16 < 64" "a mod 16 * 4 < 64" "a mod 64 < 64"
  using assms by auto

lemma sum_parts: "a mod 4 * 16 + b div 16 < 64" "b mod 16 * 4 + c div 64 < 64"
  if "b < 256" "c < 256" for a b c :: nat
proof -
  have "a mod 4 < 4" "b div 16 < 16" "b mod 16 < 16" "c div 64 < 4" using that by auto
  then show "a mod 4 * 16 + b div 16 < 64" "b mod 16 * 4 + c div 64 < 64" by linarith+
qed

lemma byte_join:
  fixes a b c :: nat
  assumes "b < 256" "c < 256"
  shows "a div 4 * 4 + (a mod 4 * 16 + b div 16) div 16 = a"
    and "(a mod 4 * 16 + b div 16) mod 16 * 16 + (b mod 16 * 4 + c div 64) div 4 = b"
    and "(b mod 16 * 4 + c div 64) mod 4 * 64 + c mod 64 = c"
    and "a div 4 * 4 + a mod 4 * 16 div 16 = a"
    and "(a mod 4 * 16 + b div 16) mod 16 * 16 + b mod 16 * 4 div 4 = b"
proof -
  have small: "b div 16 < 16" "c div 64 < 4" using assms by auto
  have "(a mod 4 * 16 + b div 16) div 16 = a mod 4" "(a mod 4 * 16 + b div 16) mod 16 = b div 16"
    "(b mod 16 * 4 + c div 64) div 4 = b mod 16" "(b mod 16 * 4 + c div 64) mod 4 = c div 64"
    using small by simp_all
  moreover have "a div 4 * 4 + a mod 4 = a" "b div 16 * 16 + b mod 16 = b" "c div 64 * 64 + c mod 64 = c"
    by simp_all
  ultimately show "a div 4 * 4 + (a mod 4 * 16 + b div 16) div 16 = a"
    "(a mod 4 * 16 + b div 16) mod 16 * 16 + (b mod 16 * 4 + c div 64) div 4 = b"
    "(b mod 16 * 4 + c div 64) mod 4 * 64 + c mod 64 = c" "a div 4 * 4 + a mod 4 * 16 div 16 = a"
    "(a mod 4 * 16 + b div 16) mod 16 * 16 + b mod 16 * 4 div 4 = b"
    by simp_all
qed

lemma b64_encode_length: "length (b64_encode bs) = (length bs + 2) div 3 * 4"
proof (induction bs rule: b64_encode.induct)
  case (4 a b c bs)
  have "length (a # b # c # bs) + 2 = length bs + 2 + 3" by simp
  then have "(length (a # b # c # bs) + 2) div 3 = (length bs + 2) div 3 + 1"
    by (metis div_add_self2 zero_neq_numeral)
  with 4 show ?case by simp
qed simp_all

lemma b64_encode_decode:
  assumes "list_all (\<lambda>b. b < 256) bs"
  shows "b64_shape (b64_encode bs) \<and> b64_decode (b64_encode bs) = bs"
  using assms
proof (induction bs rule: b64_encode.induct)
  case 1
  then show ?case by (simp add: b64_shape_def b64_decode_def b64_body_def)
next
  case (2 a)
  then show ?case
    using byte_parts [of a] byte_join(4) [of 0 0 a] b64_char_ok
    by (simp add: b64_shape_def b64_decode_def b64_body_def)
next
  case (3 a b)
  then show ?case
    using byte_parts [of a] byte_parts [of b] sum_parts(1) [of b 0 a] byte_join(1,5) [of b 0 a] b64_char_ok
    by (simp add: b64_shape_def b64_decode_def b64_body_def)
next
  case (4 a b c bs)
  then show ?case
    using byte_parts [of a] byte_parts [of c] sum_parts(1) [of b c a] sum_parts(2) [of b c] byte_join(1,2) [of b c a] byte_join(3) [of b c] b64_char_ok
    by (simp add: b64_shape_def b64_decode_def b64_body_def)
qed

lemma decode_base64_encode:
  assumes "list_all (\<lambda>b. b < 256) bs" and "1 \<le> length bs" and "length bs \<le> n"
  shows "decode_base64 (b64_encode bs) n = Some bs"
proof -
  have "(length bs + 2) div 3 \<le> (n + 2) div 3" using assms(3) by (intro div_le_mono) simp
  then show ?thesis
    using b64_encode_decode [OF assms(1)] assms(2,3) by (auto simp: decode_base64_def b64_encode_length)
qed

lemma decode_base64_exact:
  "decode_base64 v n = Some bs \<Longrightarrow> v = b64_encode bs \<and> 1 \<le> length bs \<and> length bs \<le> n"
  by (auto simp: decode_base64_def Let_def not_less Suc_le_eq split: if_splits)

lemma decode_base64_unique: "decode_base64 v n = Some bs \<Longrightarrow> decode_base64 w m = Some bs \<Longrightarrow> v = w"
  using decode_base64_exact by blast

end
