(* ===== verification/Terminal_Transport.thy ===== *)
theory Terminal_Transport
  imports Takeover_Session Base64 Fencing
begin

text \<open>
  \<open>src/experimental/terminal-webrtc.ts\<close>: the transport of a terminal takeover. It keeps one session
  with its bounded queue of human events, the takeover session manager of \<open>Takeover_Session\<close>, and the
  runtime with the peers it prepared and made. The peer library, the ICE provider and the clock are
  the environment: what they do is a step, what they report is an argument. A runtime object stays in
  the store after the code dropped it, because its peer's callbacks still reach it.

  \<open>parse\<close> is \<open>JSON.parse\<close> (\<open>None\<close> when it throws), \<open>coerce\<close> is \<open>Number(value)\<close>, \<open>hmac\<close> the keyed hash.
\<close>

section \<open>Data\<close>

datatype term_event = Term_input string | Term_resize int int | Term_done

datatype term_error =
    TERMINAL_TAKEOVER_UNAVAILABLE | TERMINAL_ALREADY_ACTIVE | TERMINAL_MISMATCH
  | TERMINAL_TRANSPORT_UNAVAILABLE | TERMINAL_OUTPUT_UNAVAILABLE | TERMINAL_NOT_COMPLETED
  | TERMINAL_CHANNEL_UNAVAILABLE | TERMINAL_GENERATION_UNAVAILABLE | TERMINAL_OUTPUT_BACKPRESSURE
  | TERMINAL_BYTES_INVALID | TERMINAL_OFFER_INVALID | TERMINAL_GENERATION_ACTIVE
  | TERMINAL_ICE_UNAVAILABLE | TERMINAL_RUNTIME_UNAVAILABLE

text \<open>A session object; \<open>tn_serial\<close> is its identity.\<close>

record term_session =
  tn_serial :: nat
  tn_id :: string
  tn_intervention :: string
  tn_epoch :: int
  tn_principal :: string
  tn_human :: bool
  tn_disconnected :: bool
  tn_completed :: bool
  tn_faulted :: bool
  tn_queue :: "term_event list"
  tn_queued :: int
  tn_generation :: "int option"

record term_status =
  ts_ready :: bool
  ts_human :: bool
  ts_disconnected :: bool
  ts_completed :: bool
  ts_faulted :: bool
  ts_generation :: "int option"
  ts_queued :: nat

record term_binding =
  tb_id :: string
  tb_intervention :: string
  tb_epoch :: int
  tb_principal :: string
  tb_client :: string
  tb_generation :: int
  tb_expires :: int

datatype channel_state = Chan_connecting | Chan_open | Chan_closing | Chan_closed

datatype term_message = State_notice string | Output_payload string

text \<open>\<open>ActiveRuntime\<close>; its hooks close over the session object \<open>tr_session\<close> names.\<close>

record term_runtime =
  tr_binding :: term_binding
  tr_session :: term_session
  tr_channel :: "channel_state option"
  tr_input :: bool
  tr_closing :: bool

text \<open>\<open>tt_out\<close> is what was handed to the channels so far, \<open>tt_buffered\<close> what they report as buffered.\<close>

record transport =
  tt_enabled :: bool
  tt_origin :: "string option"
  tt_ice :: bool
  tt_config :: takeover_config
  tt_takeovers :: takeovers
  tt_current :: "term_session option"
  tt_next :: nat
  tt_prepared :: "string \<rightharpoonup> term_binding"
  tt_runtimes :: "term_runtime list"
  tt_active :: "string \<rightharpoonup> nat"
  tt_out :: "(nat \<times> term_message) list"
  tt_buffered :: jsnum

definition new_transport :: "bool \<Rightarrow> string option \<Rightarrow> bool \<Rightarrow> takeover_config \<Rightarrow> transport" where
  "new_transport enabled origin ice cfg = \<lparr>tt_enabled = enabled, tt_origin = origin, tt_ice = ice, tt_config = cfg,
     tt_takeovers = [], tt_current = None, tt_next = 0, tt_prepared = Map.empty, tt_runtimes = [], tt_active = Map.empty,
     tt_out = [], tt_buffered = num_of_int 0\<rparr>"

definition max_sdp_bytes :: nat where "max_sdp_bytes = 128 * 1024"
definition max_channel_bytes :: nat where "max_channel_bytes = 8 * 1024"
definition max_terminal_input :: nat where "max_terminal_input = 2 * 1024"
definition max_terminal_output :: nat where "max_terminal_output = 16 * 1024"
definition max_queue_items :: nat where "max_queue_items = 64"
definition max_queue_bytes :: int where "max_queue_bytes = 64 * 1024"

lemmas term_limits = max_sdp_bytes_def max_channel_bytes_def max_terminal_input_def max_terminal_output_def
  max_queue_items_def max_queue_bytes_def

section \<open>Shapes\<close>

definition valid_term_intervention :: "string \<Rightarrow> int \<Rightarrow> bool" where
  "valid_term_intervention i e \<longleftrightarrow> url_text 1 128 i \<and> safe_int e \<and> 0 < e"

definition valid_term_principal :: "string \<Rightarrow> bool" where
  "valid_term_principal pb \<longleftrightarrow> length pb = 64 \<and> list_all is_lower_hex pb"

definition read_client_binding :: "string option \<Rightarrow> string option" where
  "read_client_binding h = (case h of None \<Rightarrow> None
     | Some v \<Rightarrow> if length v = 32 \<and> list_all is_lower_hex v then Some v else None)"

definition read_capability :: "string option \<Rightarrow> string option" where
  "read_capability h = (case h of None \<Rightarrow> None | Some v \<Rightarrow> if url_text 24 128 v then Some v else None)"

text \<open>An event of the page. Its bytes are decoded on the way, and the decoder throws (\<open>Inl\<close>).\<close>

definition parse_terminal_event :: "(jsval \<Rightarrow> jsnum) \<Rightarrow> jsval \<Rightarrow> term_error + term_event option" where
  "parse_terminal_event coerce v = (case v of
       JObj ps \<Rightarrow>
         if get_prop ps ''kind'' = JStr ''input'' \<and> (case get_prop ps ''dataBase64'' of JStr _ \<Rightarrow> True | _ \<Rightarrow> False)
         then (case decode_base64 (str_of_val (get_prop ps ''dataBase64'')) max_terminal_input of
             None \<Rightarrow> Inl TERMINAL_BYTES_INVALID
           | Some _ \<Rightarrow> Inr (Some (Term_input (str_of_val (get_prop ps ''dataBase64'')))))
         else (let rows = coerce (get_prop ps ''rows''); cols = coerce (get_prop ps ''cols'') in
           if get_prop ps ''kind'' = JStr ''resize'' \<and> num_safe_integer rows \<and> num_safe_integer cols
             \<and> 2 \<le> num_to_int rows \<and> num_to_int rows \<le> 200 \<and> 2 \<le> num_to_int cols \<and> num_to_int cols \<le> 400
           then Inr (Some (Term_resize (num_to_int rows) (num_to_int cols)))
           else if get_prop ps ''kind'' = JStr ''done'' \<and> length (object_keys ps) = 1 then Inr (Some Term_done)
           else Inr None)
     | JBytes bs \<Rightarrow> Inr None
     | _ \<Rightarrow> Inr None)"

text \<open>Only events whose bytes decode reach it.\<close>

fun event_cost :: "term_event \<Rightarrow> int" where
  "event_cost (Term_input v) =
     (case decode_base64 v max_terminal_input of None \<Rightarrow> 0 | Some bytes \<Rightarrow> int (length bytes))"
| "event_cost _ = 16"

section \<open>The runtime\<close>

definition update_runtime :: "nat \<Rightarrow> (term_runtime \<Rightarrow> term_runtime) \<Rightarrow> transport \<Rightarrow> transport" where
  "update_runtime ref f t = t\<lparr>tt_runtimes := (tt_runtimes t)[ref := f (tt_runtimes t ! ref)]\<rparr>"

definition send_state :: "nat \<Rightarrow> string \<Rightarrow> transport \<Rightarrow> transport" where
  "send_state ref name t =
     (if tr_channel (tt_runtimes t ! ref) \<noteq> Some Chan_open \<or> \<not> num_le (tt_buffered t) (num_of_int 65536) then t
      else t\<lparr>tt_out := tt_out t @ [(ref, State_notice name)]\<rparr>)"

definition require_generation :: "string \<Rightarrow> int \<Rightarrow> transport \<Rightarrow> term_error + nat" where
  "require_generation i g t = (case tt_active t i of
       None \<Rightarrow> Inl TERMINAL_GENERATION_UNAVAILABLE
     | Some ref \<Rightarrow>
         if tb_generation (tr_binding (tt_runtimes t ! ref)) \<noteq> g \<or> tr_closing (tt_runtimes t ! ref)
         then Inl TERMINAL_GENERATION_UNAVAILABLE else Inr ref)"

definition runtime_activate :: "string \<Rightarrow> int \<Rightarrow> transport \<Rightarrow> (term_error + unit) \<times> transport" where
  "runtime_activate i g t = (case require_generation i g t of
       Inl e \<Rightarrow> (Inl e, t)
     | Inr ref \<Rightarrow>
         if tr_channel (tt_runtimes t ! ref) \<noteq> Some Chan_open then (Inl TERMINAL_CHANNEL_UNAVAILABLE, t)
         else (Inr (), send_state ref ''human_active'' (update_runtime ref (tr_input_update (\<lambda>_. True)) t)))"

definition runtime_fence :: "string \<Rightarrow> transport \<Rightarrow> transport" where
  "runtime_fence i t = (case tt_active t i of
       None \<Rightarrow> t
     | Some ref \<Rightarrow> send_state ref ''fenced'' (update_runtime ref (tr_input_update (\<lambda>_. False)) t))"

definition output_payload :: "string \<Rightarrow> string" where
  "output_payload v = ''{'' @ json_quote ''kind'' @ '':'' @ json_quote ''output'' @ '',''
     @ json_quote ''dataBase64'' @ '':'' @ json_quote v @ ''}''"

definition send_output :: "string \<Rightarrow> int \<Rightarrow> string \<Rightarrow> transport \<Rightarrow> (term_error + unit) \<times> transport" where
  "send_output i g v t = (case require_generation i g t of
       Inl e \<Rightarrow> (Inl e, t)
     | Inr ref \<Rightarrow>
         if \<not> tr_input (tt_runtimes t ! ref) \<or> tr_channel (tt_runtimes t ! ref) \<noteq> Some Chan_open
         then (Inl TERMINAL_OUTPUT_UNAVAILABLE, t)
         else (case decode_base64 v max_terminal_output of
             None \<Rightarrow> (Inl TERMINAL_BYTES_INVALID, t)
           | Some bytes \<Rightarrow>
               if max_channel_bytes < utf8_length (output_payload (b64_encode bytes))
                 \<or> num_lt (num_of_int 65536) (tt_buffered t)
               then (Inl TERMINAL_OUTPUT_BACKPRESSURE, t)
               else (Inr (), t\<lparr>tt_out := tt_out t @ [(ref, Output_payload (output_payload (b64_encode bytes)))]\<rparr>)))"

text \<open>Revocation, up to the awaits it ends with.\<close>

definition revoke_prepared :: "string \<Rightarrow> transport \<Rightarrow> transport" where
  "revoke_prepared i t = t\<lparr>tt_prepared := (tt_prepared t)(i := None)\<rparr>"

definition revoke_active :: "string \<Rightarrow> transport \<Rightarrow> transport" where
  "revoke_active i t = (case tt_active t i of
       None \<Rightarrow> t
     | Some ref \<Rightarrow> update_runtime ref (\<lambda>r. r\<lparr>tr_closing := True, tr_input := False\<rparr>)
         (t\<lparr>tt_active := (tt_active t)(i := None)\<rparr>))"

text \<open>\<open>revoke\<close> awaits the release of the prepared credentials before it takes the active peer down.\<close>

definition runtime_revoke :: "(transport \<Rightarrow> transport) \<Rightarrow> string \<Rightarrow> transport \<Rightarrow> transport" where
  "runtime_revoke others i t = revoke_active i (others (revoke_prepared i t))"

text \<open>\<open>prepare\<close>: the old preparation goes first, the new one comes when its credentials were issued.\<close>

definition store_prepared :: "term_binding \<Rightarrow> transport \<Rightarrow> transport" where
  "store_prepared b t = t\<lparr>tt_prepared := (tt_prepared t)(tb_id b \<mapsto> b)\<rparr>"

definition runtime_prepare :: "(transport \<Rightarrow> transport) \<Rightarrow> term_binding \<Rightarrow> transport \<Rightarrow> transport" where
  "runtime_prepare others b t = store_prepared b (others (revoke_prepared (tb_id b) t))"

text \<open>\<open>start\<close>, up to its first await; the result says whether there is one.\<close>

definition start_first :: "term_binding \<Rightarrow> string \<Rightarrow> transport \<Rightarrow> (term_error + bool) \<times> transport" where
  "start_first b sdp t =
     (if max_sdp_bytes < utf8_length sdp then (Inl TERMINAL_OFFER_INVALID, t)
      else (case tt_active t (tb_id b) of
          None \<Rightarrow> (Inr False, t)
        | Some ref \<Rightarrow>
            if tb_generation (tr_binding (tt_runtimes t ! ref)) = tb_generation b
            then (Inl TERMINAL_GENERATION_ACTIVE, t) else (Inr True, revoke_active (tb_id b) t)))"

definition start_runtime :: "term_binding \<Rightarrow> term_session \<Rightarrow> transport \<Rightarrow> (term_error + unit) \<times> transport" where
  "start_runtime b s t =
     (if tt_prepared t (tb_id b) \<noteq> Some b then (Inl TERMINAL_ICE_UNAVAILABLE, t)
      else (Inr (), t\<lparr>tt_prepared := (tt_prepared t)(tb_id b := None),
          tt_runtimes := tt_runtimes t @ [\<lparr>tr_binding = b, tr_session = s, tr_channel = None, tr_input = False,
            tr_closing = False\<rparr>],
          tt_active := (tt_active t)(tb_id b \<mapsto> length (tt_runtimes t))\<rparr>))"

text \<open>All of it. The three \<open>others\<close> are what happens in the awaits: while the replaced peer closes, while
  a missing preparation is made, and while the peers negotiate; \<open>negotiated\<close> is the outcome of that.\<close>

definition runtime_start ::
  "(transport \<Rightarrow> transport) \<Rightarrow> (transport \<Rightarrow> transport) \<Rightarrow> (transport \<Rightarrow> transport) \<Rightarrow> bool \<Rightarrow> term_binding \<Rightarrow> string \<Rightarrow>
   term_session \<Rightarrow> transport \<Rightarrow> (term_error + unit) \<times> transport" where
  "runtime_start others\<^sub>1 others\<^sub>2 others\<^sub>3 negotiated b sdp s t = (case start_first b sdp t of
       (Inl e, t1) \<Rightarrow> (Inl e, t1)
     | (Inr waits, t1) \<Rightarrow>
         (let t2 = (if waits then others\<^sub>1 t1 else t1);
              t3 = (if tt_prepared t2 (tb_id b) = None \<and> \<not> tt_ice t2 then runtime_prepare others\<^sub>2 b t2 else t2) in
          case start_runtime b s t3 of
            (Inl e, t4) \<Rightarrow> (Inl e, t4)
          | (Inr _, t4) \<Rightarrow>
              if negotiated then (Inr (), others\<^sub>3 t4)
              else (Inl TERMINAL_RUNTIME_UNAVAILABLE, revoke_active (tb_id b) (others\<^sub>3 t4))))"

section \<open>The session\<close>

definition update_session :: "(term_session \<Rightarrow> term_session) \<Rightarrow> transport \<Rightarrow> transport" where
  "update_session f t = t\<lparr>tt_current := map_option f (tt_current t)\<rparr>"

definition require_term :: "string \<Rightarrow> int \<Rightarrow> transport \<Rightarrow> term_error + term_session" where
  "require_term i e t = (case tt_current t of
       None \<Rightarrow> Inl TERMINAL_MISMATCH
     | Some s \<Rightarrow> if tn_intervention s \<noteq> i \<or> tn_epoch s \<noteq> e then Inl TERMINAL_MISMATCH else Inr s)"

text \<open>\<open>start\<close> returns the path under the public base URL (an id of \<open>createId\<close> needs no escape).\<close>

definition transport_start ::
  "string \<Rightarrow> int \<Rightarrow> string \<Rightarrow> string \<Rightarrow> int \<Rightarrow> int \<Rightarrow> transport \<Rightarrow> (term_error + string) \<times> transport" where
  "transport_start i e pb new_id t1 t2 t =
     (if \<not> tt_enabled t \<or> tt_origin t = None \<or> \<not> valid_term_intervention i e \<or> \<not> valid_term_principal pb
      then (Inl TERMINAL_TAKEOVER_UNAVAILABLE, t)
      else if (case tt_current t of None \<Rightarrow> False | Some s \<Rightarrow> \<not> tn_completed s)
      then (Inl TERMINAL_ALREADY_ACTIVE, t)
      else (case ensure_takeover (tt_config t) i e pb new_id t1 t2 (tt_takeovers t) of
          (l, m) \<Rightarrow> (Inr (''/takeover/terminal/'' @ tl_id l),
            t\<lparr>tt_takeovers := m, tt_next := tt_next t + 1,
              tt_current := Some \<lparr>tn_serial = tt_next t, tn_id = tl_id l, tn_intervention = i, tn_epoch = e,
                tn_principal = pb, tn_human = False, tn_disconnected = False, tn_completed = False,
                tn_faulted = False, tn_queue = [], tn_queued = 0, tn_generation = None\<rparr>\<rparr>)))"

definition transport_status :: "string \<Rightarrow> int \<Rightarrow> transport \<Rightarrow> term_error + term_status" where
  "transport_status i e t = (case require_term i e t of
       Inl x \<Rightarrow> Inl x
     | Inr s \<Rightarrow> Inr \<lparr>ts_ready = (tn_generation s \<noteq> None \<and> \<not> tn_disconnected s \<and> \<not> tn_faulted s),
         ts_human = tn_human s, ts_disconnected = tn_disconnected s, ts_completed = tn_completed s,
         ts_faulted = tn_faulted s, ts_generation = tn_generation s, ts_queued = length (tn_queue s)\<rparr>)"

definition activate_human :: "string \<Rightarrow> int \<Rightarrow> transport \<Rightarrow> (term_error + unit) \<times> transport" where
  "activate_human i e t = (case require_term i e t of
       Inl x \<Rightarrow> (Inl x, t)
     | Inr s \<Rightarrow> (case tn_generation s of
         None \<Rightarrow> (Inl TERMINAL_TRANSPORT_UNAVAILABLE, t)
       | Some g \<Rightarrow>
           if tn_completed s \<or> tn_disconnected s \<or> tn_faulted s then (Inl TERMINAL_TRANSPORT_UNAVAILABLE, t)
           else (case runtime_activate (tn_id s) g t of
               (Inl x, t1) \<Rightarrow> (Inl x, t1)
             | (Inr _, t1) \<Rightarrow> (Inr (), update_session (tn_human_update (\<lambda>_. True)) t1))))"

definition fence_human :: "string \<Rightarrow> int \<Rightarrow> transport \<Rightarrow> (term_error + unit) \<times> transport" where
  "fence_human i e t = (case require_term i e t of
       Inl x \<Rightarrow> (Inl x, t)
     | Inr s \<Rightarrow> (Inr (), runtime_fence (tn_id s) (update_session (tn_human_update (\<lambda>_. False)) t)))"

definition note_transport_disconnect :: "string \<Rightarrow> int \<Rightarrow> jsnum \<Rightarrow> transport \<Rightarrow> (term_error + unit) \<times> transport" where
  "note_transport_disconnect i e g t = (case require_term i e t of
       Inl x \<Rightarrow> (Inl x, t)
     | Inr s \<Rightarrow>
         if \<not> num_safe_integer g \<or> num_lt g (num_of_int 1) \<or> tn_completed s
           \<or> \<not> (case tn_generation s of None \<Rightarrow> False | Some h \<Rightarrow> num_eq (num_of_int h) g)
         then (Inr (), t)
         else (Inr (), update_session (\<lambda>s. s\<lparr>tn_human := False, tn_disconnected := True\<rparr>) t))"

definition drain_events :: "string \<Rightarrow> int \<Rightarrow> transport \<Rightarrow> (term_error + term_event list) \<times> transport" where
  "drain_events i e t = (case require_term i e t of
       Inl x \<Rightarrow> (Inl x, t)
     | Inr s \<Rightarrow> (Inr (tn_queue s), update_session (\<lambda>s. s\<lparr>tn_queue := [], tn_queued := 0\<rparr>) t))"

definition next_event :: "string \<Rightarrow> int \<Rightarrow> transport \<Rightarrow> (term_error + term_event option) \<times> transport" where
  "next_event i e t = (case require_term i e t of
       Inl x \<Rightarrow> (Inl x, t)
     | Inr s \<Rightarrow> (case tn_queue s of
         [] \<Rightarrow> (Inr None, t)
       | ev # q \<Rightarrow> (Inr (Some ev),
           update_session (\<lambda>s. s\<lparr>tn_queue := q, tn_queued := max 0 (tn_queued s - event_cost ev)\<rparr>) t)))"

definition push_output :: "string \<Rightarrow> int \<Rightarrow> string \<Rightarrow> transport \<Rightarrow> (term_error + unit) \<times> transport" where
  "push_output i e v t = (case require_term i e t of
       Inl x \<Rightarrow> (Inl x, t)
     | Inr s \<Rightarrow> (case tn_generation s of
         None \<Rightarrow> (Inl TERMINAL_OUTPUT_UNAVAILABLE, t)
       | Some g \<Rightarrow> if \<not> tn_human s then (Inl TERMINAL_OUTPUT_UNAVAILABLE, t)
           else send_output (tn_id s) g v t))"

definition release_completed :: "string \<Rightarrow> int \<Rightarrow> transport \<Rightarrow> (term_error + unit) \<times> transport" where
  "release_completed i e t = (case require_term i e t of
       Inl x \<Rightarrow> (Inl x, t)
     | Inr s \<Rightarrow> if \<not> tn_completed s \<or> tn_human s then (Inl TERMINAL_NOT_COMPLETED, t)
         else (Inr (), t\<lparr>tt_current := None\<rparr>))"

text \<open>\<open>revoke\<close>: the session is fenced at once; it is dropped when the runtime's revocation is over.\<close>

definition transport_revoke_first :: "string \<Rightarrow> int \<Rightarrow> transport \<Rightarrow> (term_error + string) \<times> transport" where
  "transport_revoke_first i e t = (case require_term i e t of
       Inl x \<Rightarrow> (Inl x, t)
     | Inr s \<Rightarrow> (Inr (tn_id s), revoke_prepared (tn_id s) (update_session (tn_human_update (\<lambda>_. False)) t)))"

definition transport_revoke_last :: "string \<Rightarrow> transport \<Rightarrow> transport" where
  "transport_revoke_last k t = t\<lparr>tt_takeovers := revoke_takeover k (tt_takeovers t), tt_current := None\<rparr>"

definition transport_revoke ::
  "(transport \<Rightarrow> transport) \<Rightarrow> (transport \<Rightarrow> transport) \<Rightarrow> string \<Rightarrow> int \<Rightarrow> transport \<Rightarrow> (term_error + unit) \<times> transport"
where
  "transport_revoke others\<^sub>1 others\<^sub>2 i e t = (case transport_revoke_first i e t of
       (Inl x, t1) \<Rightarrow> (Inl x, t1)
     | (Inr k, t1) \<Rightarrow> (Inr (), transport_revoke_last k (others\<^sub>2 (revoke_active k (others\<^sub>1 t1)))))"

text \<open>What the hooks of a runtime do. An unusable message is a fault of the session.\<close>

definition fault_session :: "transport \<Rightarrow> transport" where
  "fault_session t = (case tt_current t of
       None \<Rightarrow> t
     | Some s \<Rightarrow> revoke_prepared (tn_id s) (runtime_fence (tn_id s)
         (update_session (\<lambda>s. s\<lparr>tn_human := False, tn_faulted := True\<rparr>) t)))"

definition accept_event :: "term_session \<Rightarrow> term_event \<Rightarrow> transport \<Rightarrow> transport" where
  "accept_event s ev t =
     (let cost = event_cost ev in
      if max_queue_items \<le> length (tn_queue s) \<or> max_queue_bytes < tn_queued s + cost then fault_session t
      else (let t1 = update_session (\<lambda>s. s\<lparr>tn_queue := tn_queue s @ [ev], tn_queued := tn_queued s + cost\<rparr>) t in
        if ev \<noteq> Term_done then t1
        else (let t2 = runtime_fence (tn_id s) (update_session (\<lambda>s. s\<lparr>tn_human := False, tn_completed := True\<rparr>) t1)
          in revoke_prepared (tn_id s) (t2\<lparr>tt_takeovers := revoke_takeover (tn_id s) (tt_takeovers t2)\<rparr>))))"

definition accept_message ::
  "(string \<Rightarrow> jsval option) \<Rightarrow> (jsval \<Rightarrow> jsnum) \<Rightarrow> nat \<Rightarrow> int \<Rightarrow> string \<Rightarrow> transport \<Rightarrow> (term_error + unit) \<times> transport"
where
  "accept_message parse coerce serial g msg t = (case tt_current t of
       None \<Rightarrow> (Inr (), t)
     | Some s \<Rightarrow>
         if tn_serial s \<noteq> serial \<or> tn_completed s \<or> tn_disconnected s \<or> tn_faulted s \<or> \<not> tn_human s
           \<or> tn_generation s \<noteq> Some g then (Inr (), t)
         else (case parse msg of
             None \<Rightarrow> (Inr (), fault_session t)
           | Some v \<Rightarrow> (case parse_terminal_event coerce v of
               Inl x \<Rightarrow> (Inl x, t)
             | Inr None \<Rightarrow> (Inr (), fault_session t)
             | Inr (Some ev) \<Rightarrow> (Inr (), accept_event s ev t))))"

definition on_ready :: "term_runtime \<Rightarrow> transport \<Rightarrow> transport" where
  "on_ready r t = (case tt_current t of
       None \<Rightarrow> t
     | Some s \<Rightarrow> if tn_serial s \<noteq> tn_serial (tr_session r) \<or> tn_completed s then t
         else update_session (\<lambda>s. s\<lparr>tn_generation := Some (tb_generation (tr_binding r)), tn_disconnected := False\<rparr>) t)"

definition on_disconnected :: "term_runtime \<Rightarrow> transport \<Rightarrow> (term_error + unit) \<times> transport" where
  "on_disconnected r t = note_transport_disconnect (tn_intervention (tr_session r)) (tn_epoch (tr_session r))
     (num_of_int (tb_generation (tr_binding r))) t"

definition on_faulted :: "term_runtime \<Rightarrow> transport \<Rightarrow> transport" where
  "on_faulted r t = (case tt_current t of
       None \<Rightarrow> t
     | Some s \<Rightarrow>
         if tn_serial s \<noteq> tn_serial (tr_session r) \<or> tn_generation s \<noteq> Some (tb_generation (tr_binding r)) then t
         else update_session (\<lambda>s. s\<lparr>tn_human := False, tn_faulted := True\<rparr>) t)"

section \<open>Callbacks of the peer\<close>

definition channel_offered :: "nat \<Rightarrow> string \<Rightarrow> string \<Rightarrow> transport \<Rightarrow> transport" where
  "channel_offered ref label protocol t =
     (if tr_channel (tt_runtimes t ! ref) \<noteq> None \<or> label \<noteq> ''terminal-control'' \<or> protocol \<noteq> [] then t
      else update_runtime ref (tr_channel_update (\<lambda>_. Some Chan_connecting)) t)"

definition channel_changed :: "nat \<Rightarrow> channel_state \<Rightarrow> transport \<Rightarrow> (term_error + unit) \<times> transport" where
  "channel_changed ref st t =
     (let t1 = update_runtime ref (tr_channel_update (\<lambda>_. Some st)) t; r = tt_runtimes t1 ! ref in
      if st = Chan_open
      then (Inr (), send_state ref (if tr_input r then ''human_active'' else ''connected'') (on_ready r t1))
      else if st = Chan_closed \<and> \<not> tr_closing r then on_disconnected r t1 else (Inr (), t1))"

definition channel_message ::
  "(string \<Rightarrow> jsval option) \<Rightarrow> (jsval \<Rightarrow> jsnum) \<Rightarrow> nat \<Rightarrow> string \<Rightarrow> transport \<Rightarrow> (term_error + unit) \<times> transport" where
  "channel_message parse coerce ref text t =
     (let r = tt_runtimes t ! ref in
      if \<not> tr_input r \<or> tr_closing r then (Inr (), t)
      else if max_channel_bytes < utf8_length text
      then (Inr (), revoke_prepared (tb_id (tr_binding r))
        (on_faulted r (update_runtime ref (tr_input_update (\<lambda>_. False)) t)))
      else accept_message parse coerce (tn_serial (tr_session r)) (tb_generation (tr_binding r)) text t)"

text \<open>The connection state failed, disconnected or closed (\<open>lost\<close>), or another one.\<close>

definition connection_changed :: "nat \<Rightarrow> bool \<Rightarrow> transport \<Rightarrow> (term_error + unit) \<times> transport" where
  "connection_changed ref lost t =
     (let r = tt_runtimes t ! ref in
      if lost \<and> \<not> tr_closing r then on_disconnected r (update_runtime ref (tr_input_update (\<lambda>_. False)) t)
      else (Inr (), t))"

section \<open>Requests\<close>

record term_request =
  hq_method :: string
  hq_path :: string
  hq_origin :: "string option"
  hq_client :: "string option"
  hq_capability :: "string option"
  hq_body :: string

datatype term_body = Error_body string | Page_body | Prepared_body string string int | Answer_body

datatype term_reply = Reply nat term_body

definition strip_prefix :: "string \<Rightarrow> string \<Rightarrow> string option" where
  "strip_prefix p s = (if take (length p) s = p then Some (drop (length p) s) else None)"

definition is_terminal_path :: "string \<Rightarrow> bool" where
  "is_terminal_path p \<longleftrightarrow> strip_prefix ''/takeover/terminal/'' p \<noteq> None"

text \<open>\<open>/^\/takeover\/terminal\/([A-Za-z0-9_-]{8,100})$/\<close> and the two API paths.\<close>

definition page_id :: "string \<Rightarrow> string option" where
  "page_id p = (case strip_prefix ''/takeover/terminal/'' p of None \<Rightarrow> None
     | Some k \<Rightarrow> if url_text 8 100 k then Some k else None)"

definition api_id :: "string \<Rightarrow> string \<Rightarrow> string option" where
  "api_id operation p = (case strip_prefix (''/takeover/terminal/api/'' @ operation @ ''/'') p of None \<Rightarrow> None
     | Some k \<Rightarrow> if url_text 8 100 k then Some k else None)"

text \<open>\<open>webRtcBindingFromGrant\<close> without a target, and the binding \<open>handleConnect\<close> takes from a verified use.\<close>

definition binding_of_grant :: "takeover_grant \<Rightarrow> term_binding" where
  "binding_of_grant g = (let l = tg_locator g in \<lparr>tb_id = tl_id l, tb_intervention = tl_intervention l,
     tb_epoch = tl_epoch l, tb_principal = tl_principal l, tb_client = tg_client g, tb_generation = tg_generation g,
     tb_expires = tl_expires l\<rparr>)"

definition binding_of_use :: "takeover_use \<Rightarrow> term_binding" where
  "binding_of_use u = (let l = us_locator u in \<lparr>tb_id = tl_id l, tb_intervention = tl_intervention l,
     tb_epoch = tl_epoch l, tb_principal = tl_principal l, tb_client = us_client u, tb_generation = us_generation u,
     tb_expires = tl_expires l\<rparr>)"

definition parse_webrtc_offer :: "jsval \<Rightarrow> string option" where
  "parse_webrtc_offer v = (case v of
       JObj ps \<Rightarrow> (case get_prop ps ''sdp'' of
           JStr sdp \<Rightarrow> if get_prop ps ''type'' \<noteq> JStr ''offer'' \<or> length sdp < 1 \<or> max_sdp_bytes < utf8_length sdp
             then None else Some sdp
         | _ \<Rightarrow> None)
     | _ \<Rightarrow> None)"

definition read_offer :: "(string \<Rightarrow> jsval option) \<Rightarrow> string \<Rightarrow> string option" where
  "read_offer parse body = (if max_sdp_bytes < utf8_length body then None
     else (case parse body of None \<Rightarrow> None | Some v \<Rightarrow> parse_webrtc_offer v))"

definition handle_page :: "string \<Rightarrow> string \<Rightarrow> int \<Rightarrow> transport \<Rightarrow> term_reply" where
  "handle_page method k now t =
     (if method \<noteq> ''GET'' \<and> method \<noteq> ''HEAD'' then Reply 405 (Error_body ''method_not_allowed'')
      else (case tt_current t of
          None \<Rightarrow> Reply 404 (Error_body ''takeover_unavailable'')
        | Some s \<Rightarrow>
            if k \<noteq> tn_id s \<or> tn_completed s then Reply 404 (Error_body ''takeover_unavailable'')
            else (case validate_locator k (tn_principal s) now (tt_takeovers t) of
                Inl _ \<Rightarrow> Reply 404 (Error_body ''takeover_unavailable'')
              | Inr _ \<Rightarrow> Reply 200 Page_body)))"

text \<open>The release of a client whose runtime did not come up: its errors are ignored.\<close>

definition release_client :: "term_session \<Rightarrow> string \<Rightarrow> int \<Rightarrow> int \<Rightarrow> transport \<Rightarrow> transport" where
  "release_client s cb g now t = t\<lparr>tt_takeovers :=
     snd (release_client_generation (tn_id s) (tn_principal s) cb (num_of_int g) now (tt_takeovers t))\<rparr>"

text \<open>\<open>others\<close> are the awaits, \<open>t\<^sub>1\<close>, \<open>t\<^sub>2\<close> and \<open>t\<^sub>3\<close> the clock, \<open>ok\<close> whether the preparation resolved.\<close>

definition handle_prepare ::
  "(string \<Rightarrow> string) \<Rightarrow> (transport \<Rightarrow> transport) \<Rightarrow> (transport \<Rightarrow> transport) \<Rightarrow> bool \<Rightarrow> string \<Rightarrow> int \<Rightarrow> int \<Rightarrow> int \<Rightarrow>
   term_session \<Rightarrow> transport \<Rightarrow> term_reply \<times> transport" where
  "handle_prepare hmac others\<^sub>1 others\<^sub>2 ok cb t\<^sub>1 t\<^sub>2 t\<^sub>3 s t =
     (if tn_completed s then (Reply 404 (Error_body ''takeover_unavailable''), t)
      else (case claim_client hmac (tn_id s) (tn_principal s) cb t\<^sub>1 t\<^sub>2 (tt_takeovers t) of
          (Inl e, m) \<Rightarrow> (if e = TAKEOVER_CLIENT_ACTIVE then Reply 409 (Error_body ''takeover_client_active'')
             else Reply 404 (Error_body ''takeover_unavailable''), t\<lparr>tt_takeovers := m\<rparr>)
        | (Inr g, m) \<Rightarrow>
            if ok then (Reply 200 (Prepared_body (tg_capability g) (tg_reconnect g) (tg_generation g)),
              runtime_prepare others\<^sub>1 (binding_of_grant g) (t\<lparr>tt_takeovers := m\<rparr>))
            else (Reply 503 (Error_body ''webrtc_ice_unavailable''),
              runtime_revoke others\<^sub>2 (tn_id s) (release_client s cb (tg_generation g) t\<^sub>3
                (others\<^sub>1 (revoke_prepared (tl_id (tg_locator g)) (t\<lparr>tt_takeovers := m\<rparr>)))))))"

definition handle_connect ::
  "(string \<Rightarrow> string) \<Rightarrow> (string \<Rightarrow> jsval option) \<Rightarrow> (transport \<Rightarrow> transport) \<Rightarrow> (transport \<Rightarrow> transport) \<Rightarrow>
   (transport \<Rightarrow> transport) \<Rightarrow> (transport \<Rightarrow> transport) \<Rightarrow> (transport \<Rightarrow> transport) \<Rightarrow> bool \<Rightarrow> string option \<Rightarrow> string \<Rightarrow> string \<Rightarrow>
   int \<Rightarrow> int \<Rightarrow> int \<Rightarrow> term_session \<Rightarrow> transport \<Rightarrow> term_reply \<times> transport" where
  "handle_connect hmac parse others\<^sub>0 others\<^sub>1 others\<^sub>2 others\<^sub>3 others\<^sub>4 negotiated cap body cb t\<^sub>1 t\<^sub>2 t\<^sub>3 s t =
     (case read_capability cap of
        None \<Rightarrow> (Reply 404 (Error_body ''takeover_unavailable''), t)
      | Some c \<Rightarrow> (let t' = others\<^sub>0 t in case read_offer parse body of
          None \<Rightarrow> (Reply 400 (Error_body ''webrtc_offer_invalid''), t')
        | Some sdp \<Rightarrow> (case verify_takeover hmac (tn_id s) c (tn_principal s) cb t\<^sub>1 t\<^sub>2 (tt_takeovers t') of
            (Inl e, m) \<Rightarrow> (Reply 404 (Error_body ''takeover_unavailable''), t'\<lparr>tt_takeovers := m\<rparr>)
          | (Inr u, m) \<Rightarrow> (let b = binding_of_use u in
              case runtime_start others\<^sub>1 others\<^sub>2 others\<^sub>3 negotiated b sdp s (t'\<lparr>tt_takeovers := m\<rparr>) of
                (Inr _, t1) \<Rightarrow> (Reply 200 Answer_body, t1)
              | (Inl _, t1) \<Rightarrow> (Reply 503 (Error_body ''webrtc_runtime_unavailable''),
                  runtime_revoke others\<^sub>4 (tn_id s) (release_client s cb (tb_generation b) t\<^sub>3 t1))))))"

text \<open>\<open>handle\<close> before it reaches an operation: the reply of a refused request, or the operation with its
  session and client.\<close>

datatype term_route = Refused term_reply | To_page string | To_prepare term_session string | To_connect term_session string

definition route_request :: "term_request \<Rightarrow> transport \<Rightarrow> term_route" where
  "route_request q t = (case page_id (hq_path q) of
       Some k \<Rightarrow> To_page k
     | None \<Rightarrow> (case (api_id ''prepare'' (hq_path q), api_id ''connect'' (hq_path q)) of
         (None, None) \<Rightarrow> Refused (Reply 404 (Error_body ''not_found''))
       | (p, c) \<Rightarrow> (let k = (case p of Some k \<Rightarrow> k | None \<Rightarrow> the c) in case tt_current t of
           None \<Rightarrow> Refused (Reply 404 (Error_body ''takeover_unavailable''))
         | Some s \<Rightarrow>
             if k \<noteq> tn_id s then Refused (Reply 404 (Error_body ''takeover_unavailable''))
             else if hq_method q \<noteq> ''POST'' then Refused (Reply 405 (Error_body ''method_not_allowed''))
             else if tt_origin t = None \<or> hq_origin q \<noteq> tt_origin t
             then Refused (Reply 403 (Error_body ''origin_not_allowed''))
             else (case read_client_binding (hq_client q) of
                 None \<Rightarrow> Refused (Reply 404 (Error_body ''takeover_unavailable''))
               | Some cb \<Rightarrow> if p \<noteq> None then To_prepare s cb else To_connect s cb))))"

section \<open>Runs\<close>

text \<open>The steps: each operation up to its next await, each continuation after one, each callback. What the
  session manager did is any new content of it, and a continuation may come for any session at any time:
  the steps allow more than the code does.\<close>

datatype term_move =
    S_start string int string string int int
  | S_activate string int
  | S_fence string int
  | S_disconnect string int jsnum
  | S_drain string int
  | S_next string int
  | S_output string int string
  | S_release string int
  | S_revoke string int
  | S_revoke_last string
  | S_revoke_prepared string
  | S_revoke_active string
  | S_takeovers takeovers
  | S_prepared term_binding
  | S_first term_binding string
  | S_runtime term_binding term_session
  | S_offered nat string string
  | S_channel nat channel_state
  | S_message nat string
  | S_connection nat bool
  | S_buffered jsnum

fun term_step ::
  "(string \<Rightarrow> jsval option) \<Rightarrow> (jsval \<Rightarrow> jsnum) \<Rightarrow> transport \<Rightarrow> term_move \<Rightarrow> transport" where
  "term_step parse coerce t (S_start i e pb k t1 t2) = snd (transport_start i e pb k t1 t2 t)"
| "term_step parse coerce t (S_activate i e) = snd (activate_human i e t)"
| "term_step parse coerce t (S_fence i e) = snd (fence_human i e t)"
| "term_step parse coerce t (S_disconnect i e g) = snd (note_transport_disconnect i e g t)"
| "term_step parse coerce t (S_drain i e) = snd (drain_events i e t)"
| "term_step parse coerce t (S_next i e) = snd (next_event i e t)"
| "term_step parse coerce t (S_output i e v) = snd (push_output i e v t)"
| "term_step parse coerce t (S_release i e) = snd (release_completed i e t)"
| "term_step parse coerce t (S_revoke i e) = snd (transport_revoke_first i e t)"
| "term_step parse coerce t (S_revoke_last k) = transport_revoke_last k t"
| "term_step parse coerce t (S_revoke_prepared k) = revoke_prepared k t"
| "term_step parse coerce t (S_revoke_active k) = revoke_active k t"
| "term_step parse coerce t (S_takeovers m) = t\<lparr>tt_takeovers := m\<rparr>"
| "term_step parse coerce t (S_prepared b) = store_prepared b t"
| "term_step parse coerce t (S_first b sdp) = snd (start_first b sdp t)"
| "term_step parse coerce t (S_runtime b s) = snd (start_runtime b s t)"
| "term_step parse coerce t (S_offered ref label protocol) = channel_offered ref label protocol t"
| "term_step parse coerce t (S_channel ref st) = snd (channel_changed ref st t)"
| "term_step parse coerce t (S_message ref text) = snd (channel_message parse coerce ref text t)"
| "term_step parse coerce t (S_connection ref lost) = snd (connection_changed ref lost t)"
| "term_step parse coerce t (S_buffered n) = t\<lparr>tt_buffered := n\<rparr>"

text \<open>A handler is a run of steps, when what happens in its awaits is.\<close>

definition leads ::
  "(string \<Rightarrow> jsval option) \<Rightarrow> (jsval \<Rightarrow> jsnum) \<Rightarrow> transport \<Rightarrow> transport \<Rightarrow> bool" where
  "leads parse coerce t t' \<longleftrightarrow> (\<exists>cs. t' = run (term_step parse coerce) t cs)"

lemma leads_refl [simp]: "leads parse coerce t t"
  unfolding leads_def by (rule exI [of _ "[]"]) simp

lemma leads_step: "leads parse coerce t (term_step parse coerce t c)"
  unfolding leads_def by (rule exI [of _ "[c]"]) simp

lemma leads_trans: "leads parse coerce t u \<Longrightarrow> leads parse coerce u v \<Longrightarrow> leads parse coerce t v"
  by (auto simp: leads_def) (metis foldl_append)

text \<open>What the awaits of a handler may do.\<close>

definition only_steps :: "(string \<Rightarrow> jsval option) \<Rightarrow> (jsval \<Rightarrow> jsnum) \<Rightarrow> (transport \<Rightarrow> transport) \<Rightarrow> bool" where
  "only_steps parse coerce f \<longleftrightarrow> (\<forall>t. leads parse coerce t (f t))"

lemma only_steps_comp:
  "only_steps parse coerce f \<Longrightarrow> only_steps parse coerce g \<Longrightarrow> only_steps parse coerce (\<lambda>t. f (g t))"
  by (auto simp: only_steps_def intro: leads_trans)

lemma only_steps_step [simp]:
  "only_steps parse coerce (revoke_prepared k)" "only_steps parse coerce (revoke_active k)"
  "only_steps parse coerce (store_prepared b)" "only_steps parse coerce (tt_takeovers_update (\<lambda>_. m))"
  "only_steps parse coerce (transport_revoke_last k)"
  "only_steps parse coerce (release_client s cb g n)"
  using leads_step [of parse coerce _ "S_revoke_prepared k"] leads_step [of parse coerce _ "S_revoke_active k"]
    leads_step [of parse coerce _ "S_prepared b"] leads_step [of parse coerce _ "S_takeovers m"]
    leads_step [of parse coerce _ "S_revoke_last k"]
    leads_step [of parse coerce t "S_takeovers (snd (release_client_generation (tn_id s) (tn_principal s) cb (num_of_int g) n (tt_takeovers t)))" for t]
  by (auto simp: only_steps_def release_client_def)

lemma leads_by: "only_steps parse coerce f \<Longrightarrow> leads parse coerce t u \<Longrightarrow> leads parse coerce t (f u)"
  by (auto simp: only_steps_def intro: leads_trans)

lemmas leads_ops = only_steps_step [THEN leads_by]

lemma start_leads:
  "leads parse coerce t (snd (start_first b sdp t))" "leads parse coerce t (snd (start_runtime b s t))"
  using leads_step [of parse coerce t "S_first b sdp"] leads_step [of parse coerce t "S_runtime b s"] by simp_all

lemma runtime_start_leads:
  assumes "only_steps parse coerce f" "only_steps parse coerce g" "only_steps parse coerce h"
  shows "leads parse coerce t (snd (runtime_start f g h negotiated b sdp s t))"
proof -
  obtain r t1 where first: "start_first b sdp t = (r, t1)" by (cases "start_first b sdp t")
  have t1: "leads parse coerce t t1" using start_leads(1) [of parse coerce t b sdp] first by simp
  let ?t2 = "case r of Inr True \<Rightarrow> f t1 | _ \<Rightarrow> t1"
  have t2: "leads parse coerce t ?t2"
    using t1 assms(1) by (auto intro: leads_by split: sum.splits bool.splits)
  have prep: "leads parse coerce t (runtime_prepare g b u)" if "leads parse coerce t u" for u
    unfolding runtime_prepare_def using that assms(2) by (intro leads_ops leads_by [of _ _ g]) simp_all
  have fin: "leads parse coerce t (snd (case start_runtime b s u of (Inl e, v) \<Rightarrow> (Inl e, v)
      | (Inr _, v) \<Rightarrow> if negotiated then (Inr (), h v)
          else (Inl TERMINAL_RUNTIME_UNAVAILABLE, revoke_active (tb_id b) (h v))))" if "leads parse coerce t u" for u
    using leads_trans [OF that start_leads(2) [of parse coerce u b s]] assms(3)
    by (auto intro!: leads_ops leads_by [OF assms(3)] split: prod.splits sum.splits)
  show ?thesis
    using t1 t2 first
    by (auto simp: runtime_start_def Let_def intro!: fin prep split: sum.splits if_splits)
qed

lemma only_steps_revoke:
  assumes "only_steps parse coerce f"
  shows "only_steps parse coerce (runtime_revoke f k)" and "only_steps parse coerce (runtime_prepare f b)"
  unfolding only_steps_def runtime_revoke_def runtime_prepare_def
  by (auto intro!: leads_ops leads_by [OF assms])

lemma handlers_lead:
  assumes "only_steps parse coerce f" "only_steps parse coerce g"
  shows "leads parse coerce t (snd (transport_revoke f g i e t))"
    and "leads parse coerce t (snd (handle_prepare hmac f g ok cb t1 t2 t3 s t))"
proof -
  have "leads parse coerce t (snd (transport_revoke_first i e t))"
    using leads_step [of parse coerce t "S_revoke i e"] by simp
  then show "leads parse coerce t (snd (transport_revoke f g i e t))"
    by (auto simp: transport_revoke_def split: prod.splits sum.splits intro!: leads_ops leads_by [OF assms(2)] leads_by [OF assms(1)])
  show "leads parse coerce t (snd (handle_prepare hmac f g ok cb t1 t2 t3 s t))"
    by (auto simp: handle_prepare_def split: prod.splits sum.splits
        intro!: leads_ops leads_by [OF only_steps_revoke(1) [OF assms(2)]] leads_by [OF only_steps_revoke(2) [OF assms(1)]]
          leads_by [OF assms(1)])
qed

lemma connect_leads:
  assumes "only_steps parse coerce f" "only_steps parse coerce g" "only_steps parse coerce h"
    "only_steps parse coerce f'" "only_steps parse coerce g'"
  shows "leads parse coerce t (snd (handle_connect hmac parse f g h f' g' negotiated cap body cb t1 t2 t3 s t))"
proof -
  have start: "leads parse coerce t (snd (runtime_start g h f' negotiated b sdp s u))" if "leads parse coerce t u" for b sdp u
    using that runtime_start_leads [OF assms(2-4)] by (blast intro: leads_trans)
  have f: "leads parse coerce t (f t)" using leads_by [OF assms(1)] by simp
  then have m: "leads parse coerce t ((f t)\<lparr>tt_takeovers := m\<rparr>)" for m by (intro leads_ops)
  show ?thesis
  proof (cases "read_capability cap")
    case None
    then show ?thesis by (simp add: handle_connect_def)
  next
    case (Some c)
    show ?thesis
    proof (cases "read_offer parse body")
      case None
      with Some f show ?thesis by (simp add: handle_connect_def Let_def)
    next
      case offer: (Some sdp)
      obtain r m\<^sub>1 where v: "verify_takeover hmac (tn_id s) c (tn_principal s) cb t1 t2 (tt_takeovers (f t)) = (r, m\<^sub>1)"
        by fastforce
      show ?thesis
      proof (cases r)
        case Inl
        with Some offer v m show ?thesis by (simp add: handle_connect_def Let_def)
      next
        case (Inr u)
        obtain q t' where "runtime_start g h f' negotiated (binding_of_use u) sdp s ((f t)\<lparr>tt_takeovers := m\<^sub>1\<rparr>) = (q, t')"
          by fastforce
        moreover from this start [OF m] have "leads parse coerce t t'" by (metis snd_conv)
        ultimately show ?thesis
          using Some offer v Inr
          by (auto simp: handle_connect_def Let_def split: sum.split
              intro!: leads_ops leads_by [OF only_steps_revoke(1) [OF assms(5)]])
      qed
    qed
  qed
qed

section \<open>The invariant\<close>

fun event_ok :: "term_event \<Rightarrow> bool" where
  "event_ok (Term_input v) \<longleftrightarrow> (\<exists>bytes. decode_base64 v max_terminal_input = Some bytes)"
| "event_ok (Term_resize r c) \<longleftrightarrow> 2 \<le> r \<and> r \<le> 200 \<and> 2 \<le> c \<and> c \<le> 400"
| "event_ok Term_done \<longleftrightarrow> True"

lemma parsed_event_ok: "parse_terminal_event coerce v = Inr (Some ev) \<Longrightarrow> event_ok ev"
  by (auto simp: parse_terminal_event_def Let_def split: jsval.splits option.splits if_splits)

lemma event_cost_nonneg [simp]: "0 \<le> event_cost ev"
  by (cases ev) (auto split: option.splits)

definition queue_cost :: "term_event list \<Rightarrow> int" where
  "queue_cost q = sum_list (map event_cost q)"

lemma queue_cost_simps [simp]:
  "queue_cost [] = 0" "queue_cost (ev # q) = event_cost ev + queue_cost q"
  "queue_cost (q @ r) = queue_cost q + queue_cost r"
  by (simp_all add: queue_cost_def)

lemma queue_cost_nonneg [simp]: "0 \<le> queue_cost q"
  by (induction q) simp_all

text \<open>The queue of a session: bounded, accounted, well-formed, with Done at its end only, and none before
  the session is completed.\<close>

definition queue_ok :: "term_session \<Rightarrow> bool" where
  "queue_ok s \<longleftrightarrow> length (tn_queue s) \<le> max_queue_items \<and> tn_queued s = queue_cost (tn_queue s)
     \<and> tn_queued s \<le> max_queue_bytes \<and> list_all event_ok (tn_queue s)
     \<and> Term_done \<notin> set (butlast (tn_queue s)) \<and> (Term_done \<in> set (tn_queue s) \<longrightarrow> tn_completed s)"

definition session_good :: "term_session \<Rightarrow> bool" where
  "session_good s \<longleftrightarrow> queue_ok s
     \<and> (tn_human s \<longrightarrow> tn_generation s \<noteq> None \<and> \<not> tn_disconnected s \<and> \<not> tn_completed s \<and> \<not> tn_faulted s)"

definition transport_good :: "transport \<Rightarrow> bool" where
  "transport_good t \<longleftrightarrow> (case tt_current t of None \<Rightarrow> True | Some s \<Rightarrow> session_good s)"

lemma runtime_keeps_session [simp]:
  "tt_current (update_runtime ref f t) = tt_current t" "tt_current (send_state ref n t) = tt_current t"
  "tt_current (runtime_fence k t) = tt_current t" "tt_current (revoke_prepared k t) = tt_current t"
  "tt_current (revoke_active k t) = tt_current t" "tt_current (store_prepared b t) = tt_current t"
  "tt_current (snd (start_first b sdp t)) = tt_current t" "tt_current (snd (start_runtime b s t)) = tt_current t"
  "tt_current (snd (runtime_activate k g t)) = tt_current t" "tt_current (snd (send_output k g v t)) = tt_current t"
  "tt_current (channel_offered ref label protocol t) = tt_current t"
  by (simp_all add: update_runtime_def send_state_def runtime_fence_def revoke_prepared_def revoke_active_def
      store_prepared_def start_first_def start_runtime_def runtime_activate_def send_output_def channel_offered_def
      split: option.split sum.split)

lemma runtime_activate_current: "runtime_activate k g t = (r, u) \<Longrightarrow> tt_current u = tt_current t"
  using runtime_keeps_session(9) [of k g t] by simp

lemma update_session_current [simp]: "tt_current (update_session f t) = map_option f (tt_current t)"
  by (simp add: update_session_def)

lemma session_good_flags:
  assumes "session_good s"
  shows "session_good (s\<lparr>tn_human := False\<rparr>)" "session_good (s\<lparr>tn_human := False, tn_disconnected := True\<rparr>)"
    "session_good (s\<lparr>tn_human := False, tn_faulted := True\<rparr>)"
    "session_good (s\<lparr>tn_generation := Some g, tn_disconnected := False\<rparr>)"
    "session_good (s\<lparr>tn_queue := [], tn_queued := 0\<rparr>)"
  using assms by (simp_all add: session_good_def queue_ok_def max_queue_bytes_def)

lemma session_good_tail:
  assumes "session_good s" and "tn_queue s = ev # q"
  shows "session_good (s\<lparr>tn_queue := q, tn_queued := max 0 (tn_queued s - event_cost ev)\<rparr>)"
proof -
  have "tn_queued s = event_cost ev + queue_cost q" and "tn_queued s \<le> max_queue_bytes"
    using assms by (auto simp: session_good_def queue_ok_def)
  then have "max 0 (tn_queued s - event_cost ev) = queue_cost q" "queue_cost q \<le> max_queue_bytes"
    using event_cost_nonneg [of ev] queue_cost_nonneg [of q] by linarith+
  then show ?thesis using assms by (cases q) (auto simp: session_good_def queue_ok_def)
qed

lemma butlast_snoc_done: "Term_done \<notin> set q \<Longrightarrow> Term_done \<notin> set (butlast (q @ [ev]))"
  by simp

lemma session_good_push:
  assumes "session_good s" and "\<not> tn_completed s" and "event_ok ev"
    and "\<not> max_queue_items \<le> length (tn_queue s)" and "\<not> max_queue_bytes < tn_queued s + event_cost ev"
  shows "ev \<noteq> Term_done \<Longrightarrow> session_good (s\<lparr>tn_queue := tn_queue s @ [ev], tn_queued := tn_queued s + event_cost ev\<rparr>)"
    and "session_good (s\<lparr>tn_queue := tn_queue s @ [ev], tn_queued := tn_queued s + event_cost ev, tn_human := False,
      tn_completed := True\<rparr>)"
  using assms by (auto simp: session_good_def queue_ok_def)

text \<open>The effect of a message on the session.\<close>

lemma fault_session_current:
  "tt_current (fault_session t) = map_option (\<lambda>s. s\<lparr>tn_human := False, tn_faulted := True\<rparr>) (tt_current t)"
  by (simp add: fault_session_def split: option.split)

lemma accept_event_current:
  assumes "tt_current t = Some s"
  shows "tt_current (accept_event s ev t) = Some (
     if max_queue_items \<le> length (tn_queue s) \<or> max_queue_bytes < tn_queued s + event_cost ev
     then s\<lparr>tn_human := False, tn_faulted := True\<rparr>
     else if ev = Term_done then s\<lparr>tn_queue := tn_queue s @ [ev], tn_queued := tn_queued s + event_cost ev,
       tn_human := False, tn_completed := True\<rparr>
     else s\<lparr>tn_queue := tn_queue s @ [ev], tn_queued := tn_queued s + event_cost ev\<rparr>)"
  using assms by (simp add: accept_event_def fault_session_current Let_def)

lemma accept_message_good:
  assumes "transport_good t"
  shows "transport_good (snd (accept_message parse coerce serial g msg t))"
proof (cases "tt_current t")
  case None
  then show ?thesis using assms by (simp add: accept_message_def)
next
  case (Some s)
  then have s: "session_good s" using assms by (simp add: transport_good_def)
  have "transport_good (fault_session t)"
    using s Some by (simp add: transport_good_def fault_session_current session_good_flags)
  moreover have "transport_good (accept_event s ev t)" if "event_ok ev" "\<not> tn_completed s" for ev
    using s Some session_good_push [OF s that(2,1)]
    by (cases "ev = Term_done") (simp_all add: transport_good_def accept_event_current session_good_flags)
  ultimately show ?thesis
    using assms Some by (auto simp: accept_message_def parsed_event_ok split: option.split sum.split)
qed

lemma transport_good_cong: "tt_current t = tt_current u \<Longrightarrow> transport_good t = transport_good u"
  by (simp add: transport_good_def)

lemma session_disconnect_good: "transport_good t \<Longrightarrow> transport_good (snd (note_transport_disconnect i e g t))"
  by (auto simp: note_transport_disconnect_def transport_good_def require_term_def session_good_flags
      split: option.splits sum.splits)

lemma disconnected_good: "transport_good t \<Longrightarrow> transport_good (snd (on_disconnected r t))"
  by (simp add: on_disconnected_def session_disconnect_good)

lemma ready_good: "transport_good t \<Longrightarrow> transport_good (on_ready r t)"
  by (auto simp: on_ready_def transport_good_def session_good_flags split: option.splits)

lemma faulted_good: "transport_good t \<Longrightarrow> transport_good (on_faulted r t)"
  by (auto simp: on_faulted_def transport_good_def session_good_flags split: option.splits)

lemma fresh_session_good:
  "session_good \<lparr>tn_serial = n, tn_id = k, tn_intervention = i, tn_epoch = e, tn_principal = pb, tn_human = False,
     tn_disconnected = False, tn_completed = False, tn_faulted = False, tn_queue = [], tn_queued = 0, tn_generation = None\<rparr>"
  by (simp add: session_good_def queue_ok_def max_queue_bytes_def)

lemma update_session_good:
  assumes "transport_good t" and "\<And>s. tt_current t = Some s \<Longrightarrow> session_good s \<Longrightarrow> session_good (f s)"
  shows "transport_good (update_session f t)"
  using assms by (auto simp: transport_good_def split: option.splits)

lemma transport_good_step [wf_intros]: "transport_good t \<Longrightarrow> transport_good (term_step parse coerce t c)"
proof (induction parse coerce t c rule: term_step.induct)
  case (1 parse coerce t i e pb k t1 t2)
  then show ?case
    by (auto simp: transport_start_def transport_good_def fresh_session_good split: prod.split)
next
  case (2 parse coerce t i e)
  then show ?case
    by (auto simp: activate_human_def require_term_def transport_good_def session_good_def queue_ok_def
        split: option.splits prod.splits sum.splits) (auto simp: runtime_activate_def split: sum.splits if_splits)
next
  case (18 parse coerce t ref st)
  then show ?case
    by (auto simp: channel_changed_def Let_def transport_good_cong [OF runtime_keeps_session(1)]
        transport_good_cong [OF runtime_keeps_session(2)] intro!: ready_good disconnected_good)
next
  case (19 parse coerce t ref msg)
  have update: "transport_good (update_runtime ref f t)" for f
    using 19 by (simp add: transport_good_def)
  then have "transport_good (revoke_prepared k (on_faulted r (update_runtime ref f t)))" for k r f
    using faulted_good by (simp add: transport_good_cong [OF runtime_keeps_session(4)])
  then show ?case using 19 accept_message_good by (simp add: channel_message_def Let_def)
next
  case (20 parse coerce t ref lost)
  have "transport_good (update_runtime ref f t)" for f
    using 20 by (simp add: transport_good_def)
  then show ?case using 20 disconnected_good by (simp add: connection_changed_def Let_def)
next
  case 4
  then show ?case by (simp add: session_disconnect_good)
qed (auto simp: transport_good_def fence_human_def drain_events_def next_event_def push_output_def
    release_completed_def transport_revoke_first_def transport_revoke_last_def require_term_def session_good_flags
    session_good_tail split: option.splits sum.splits list.splits)

interpretation transport: guarded_machine "term_step parse coerce" transport_good for parse coerce
  by unfold_locales (rule transport_good_step)

section \<open>The size of an output\<close>

lemma b64_shape_chars:
  assumes "b64_shape v"
  shows "\<forall>c \<in> set v. is_b64_char c \<or> c = pad"
proof -
  have "v = b64_body v @ dropWhile (\<lambda>c. c \<noteq> pad) v" by (simp add: b64_body_def)
  then have "set v = set (b64_body v) \<union> set (dropWhile (\<lambda>c. c \<noteq> pad) v)" by (metis set_append)
  moreover have "set w \<subseteq> {pad}" if "w \<in> {[], [pad], [pad, pad]}" for w using that by auto
  then have "set (dropWhile (\<lambda>c. c \<noteq> pad) v) \<subseteq> {pad}" using assms by (simp only: b64_shape_def)
  moreover have "\<forall>c \<in> set (b64_body v). is_b64_char c" using assms by (simp add: b64_shape_def list_all_iff)
  ultimately show ?thesis by blast
qed

lemma b64_char_plain: "is_b64_char c \<or> c = pad \<Longrightarrow> json_escape c = [c] \<and> char_code c < 128"
proof -
  assume "is_b64_char c \<or> c = pad"
  moreover have "char_code CHR ''+'' = 43" "char_code CHR ''/'' = 47" "char_code pad = 61" "char_code CHR 0x22 = 34"
      "char_code CHR 0x5C = 92"
    by (simp_all add: char_code_def pad_def)
  ultimately show ?thesis
    unfolding is_b64_char_def is_alnum_def json_escape_def Let_def char_by_code [of c] by auto
qed

lemma utf8_length_plain: "\<forall>c \<in> set s. char_code c < 128 \<Longrightarrow> utf8_length s = length s"
  by (induction s) (auto simp: utf8_length_def utf8_def utf8_char_def)

lemma utf8_length_append [simp]: "utf8_length (s @ r) = utf8_length s + utf8_length r"
  by (simp add: utf8_length_def utf8_def)

lemma quote_length: "b64_shape v \<Longrightarrow> utf8_length (json_quote v) = length v + 2"
proof -
  assume shape: "b64_shape v"
  then have "\<forall>c \<in> set v. json_escape c = [c] \<and> char_code c < 128"
    using b64_shape_chars b64_char_plain by blast
  then have "concat (map json_escape v) = v" "utf8_length v = length v"
    by (induction v) (auto simp: utf8_length_plain)
  moreover have "utf8_length [CHR 0x22] = 1" by (simp add: utf8_length_plain char_code_def)
  ultimately show ?thesis by (simp only: json_quote_def utf8_length_append)
qed

lemma output_payload_length:
  assumes "b64_shape v"
  shows "utf8_length (output_payload v) = length v + 33"
proof -
  have "utf8_length (json_quote ''kind'') = 6" "utf8_length (json_quote ''output'') = 8"
      "utf8_length (json_quote ''dataBase64'') = 12"
    by (simp_all add: json_quote_def json_escape_def utf8_length_def utf8_def utf8_char_def char_code_def Let_def)
  moreover have "utf8_length ''{'' = 1" "utf8_length '':'' = 1" "utf8_length '','' = 1" "utf8_length ''}'' = 1"
    by (simp_all add: utf8_length_def utf8_def utf8_char_def char_code_def Let_def)
  ultimately show ?thesis
    using quote_length [OF assms] by (simp only: output_payload_def utf8_length_append)
qed

lemma long_output_refused:
  assumes "decode_base64 v max_terminal_output = Some bytes" and "6117 < length bytes"
  shows "max_channel_bytes < utf8_length (output_payload (b64_encode bytes))"
proof -
  have v: "v = b64_encode bytes" "b64_shape v"
    using assms(1) decode_base64_exact [OF assms(1)] by (auto simp: decode_base64_def split: if_splits)
  have "2040 \<le> (length bytes + 2) div 3" using assms(2) by linarith
  then have "8160 \<le> length v" using v(1) by (simp add: b64_encode_length)
  with output_payload_length [OF v(2)] v(1) show ?thesis by (simp add: max_channel_bytes_def)
qed

lemma send_long_output:
  assumes "decode_base64 v max_terminal_output = Some bytes" and "6117 < length bytes"
  shows "isl (fst (send_output k g v t)) \<and> snd (send_output k g v t) = t"
  using assms long_output_refused [OF assms] by (simp add: send_output_def split: sum.split)

section \<open>Who fills the queue\<close>

lemma accept_event_queue:
  assumes "tt_current t = Some s" and "tt_current (accept_event s ev t) = Some s'" and "length (tn_queue s) < length (tn_queue s')"
  shows "tn_queue s' = tn_queue s @ [ev]"
  using assms by (auto simp: accept_event_current split: if_splits)

lemma only_messages_fill:
  assumes "tt_current t = Some s" and "tt_current (term_step parse coerce t c) = Some s'"
    and "\<forall>ref msg. c \<noteq> S_message ref msg"
  shows "length (tn_queue s') \<le> length (tn_queue s)"
  using assms
  by (cases c)
    (auto simp: transport_start_def activate_human_def fence_human_def note_transport_disconnect_def drain_events_def
      next_event_def push_output_def release_completed_def transport_revoke_first_def transport_revoke_last_def
      require_term_def channel_changed_def connection_changed_def on_disconnected_def on_ready_def Let_def
      dest!: runtime_activate_current
      split: prod.splits option.splits sum.splits list.splits if_splits)

lemma message_fills:
  assumes "tt_current t = Some s" and "tt_current (snd (channel_message parse coerce ref msg t)) = Some s'"
    and "length (tn_queue s) < length (tn_queue s')" and r: "r = tt_runtimes t ! ref"
  shows "tr_input r \<and> \<not> tr_closing r \<and> tn_serial (tr_session r) = tn_serial s \<and> tn_human s
    \<and> tn_generation s = Some (tb_generation (tr_binding r)) \<and> utf8_length msg \<le> max_channel_bytes
    \<and> (\<exists>v ev. parse msg = Some v \<and> parse_terminal_event coerce v = Inr (Some ev) \<and> tn_queue s' = tn_queue s @ [ev])"
proof -
  have heard: "tr_input r" "\<not> tr_closing r" "utf8_length msg \<le> max_channel_bytes"
      "tt_current (snd (accept_message parse coerce (tn_serial (tr_session r)) (tb_generation (tr_binding r)) msg t)) = Some s'"
    using assms by (auto simp: channel_message_def on_faulted_def Let_def split: if_splits)
  have quiet: "\<not> length (tn_queue s) < length (tn_queue s')" if "tt_current t = Some s'" using that assms(1) by simp
  have fault: "\<not> length (tn_queue s) < length (tn_queue s')" if "tt_current (fault_session t) = Some s'"
    using that assms(1) by (auto simp: fault_session_current)
  show ?thesis
    using heard assms(1,3) quiet fault accept_event_queue [OF assms(1) _ assms(3)]
    by (fastforce simp: accept_message_def split: if_splits option.splits sum.splits)
qed

end
