(* ===== verification/Terminal_Handoff.thy ===== *)
theory Terminal_Handoff
  imports Terminal_Pty Terminal_Transport Diagnostics
begin

text \<open>
  \<open>src/terminal-takeover/terminal-handoff-adapter.ts\<close>: \<open>TerminalHandoffAdapter\<close>, which composes the
  authority gate of \<open>Terminal_Pty\<close> with the transport of \<open>Terminal_Transport\<close> for one terminal session.
  An operation that awaits is two steps; the transport's own steps come in between.
\<close>

section \<open>Data\<close>

record term_ref =
  rf_id :: string
  rf_epoch :: int
  rf_status :: intervention_status

datatype term_handoff_error =
    TERMINAL_HANDOFF_BINDING_INVALID
  | TERMINAL_HANDOFF_TRANSPORT_UNAVAILABLE
  | TERMINAL_HANDOFF_TRANSPORT_NOT_READY
  | TERMINAL_HANDOFF_INTERVENTION_STALE
  | TERMINAL_HANDOFF_OUTPUT_INVALID
  | Handoff_pty pty_error
  | Handoff_transport term_error

record term_adapter =
  ta_binding :: pty_binding
  ta_pty :: pty
  ta_transport :: transport
  ta_ref :: "(string \<times> int) option"

record transport_summary =
  sm_ready :: bool
  sm_human :: bool
  sm_disconnected :: bool
  sm_completed :: bool
  sm_faulted :: bool
  sm_queued :: nat

record adapter_status =
  st_pty :: pty_status
  st_transport :: "transport_summary option"

datatype human_event = Human_input byte_list | Human_resize int int | Human_done term_ref

definition max_human_output :: nat where
  "max_human_output = 16 * 1024"

definition normalize_adapter_binding :: "pty_binding \<Rightarrow> term_handoff_error + pty_binding" where
  "normalize_adapter_binding b =
     (let sid = trim (pb_session b); pb = trim (pb_principal b) in
      if sid = [] \<or> 200 < length sid \<or> \<not> list_all is_session_char sid
        \<or> \<not> num_safe_integer (pb_generation b) \<or> num_le (pb_generation b) (num_of_int 0)
        \<or> \<not> (length pb = 64 \<and> list_all is_lower_hex pb)
      then Inl TERMINAL_HANDOFF_BINDING_INVALID
      else Inr \<lparr>pb_session = sid, pb_generation = pb_generation b, pb_principal = pb\<rparr>)"

definition new_adapter ::
  "pty_binding \<Rightarrow> bool \<Rightarrow> string option \<Rightarrow> bool \<Rightarrow> takeover_config \<Rightarrow> term_handoff_error + term_adapter" where
  "new_adapter b enabled origin ice cfg = (case normalize_adapter_binding b of
       Inl e \<Rightarrow> Inl e
     | Inr n \<Rightarrow> (case new_pty n of
         Inl e \<Rightarrow> Inl (Handoff_pty e)
       | Inr p \<Rightarrow> Inr \<lparr>ta_binding = n, ta_pty = p, ta_transport = new_transport enabled origin ice cfg, ta_ref = None\<rparr>))"

definition public_ref :: "pty_intervention \<Rightarrow> term_ref" where
  "public_ref a = \<lparr>rf_id = iv_id a, rf_epoch = iv_epoch a, rf_status = iv_status a\<rparr>"

definition require_ref :: "term_ref \<Rightarrow> term_adapter \<Rightarrow> term_handoff_error + unit" where
  "require_ref r s = (if ta_ref s = Some (rf_id r, rf_epoch r) then Inr () else Inl TERMINAL_HANDOFF_INTERVENTION_STALE)"

definition bounded_status :: "term_status \<Rightarrow> transport_summary" where
  "bounded_status s = \<lparr>sm_ready = ts_ready s, sm_human = ts_human s, sm_disconnected = ts_disconnected s,
     sm_completed = ts_completed s, sm_faulted = ts_faulted s, sm_queued = ts_queued s\<rparr>"

definition adapter_get_status :: "term_adapter \<Rightarrow> term_handoff_error + adapter_status" where
  "adapter_get_status s = (case ta_ref s of
       None \<Rightarrow> Inr \<lparr>st_pty = pty_get_status (ta_pty s), st_transport = None\<rparr>
     | Some (i, e) \<Rightarrow> (case transport_status i e (ta_transport s) of
         Inl x \<Rightarrow> Inl (Handoff_transport x)
       | Inr x \<Rightarrow> Inr \<lparr>st_pty = pty_get_status (ta_pty s), st_transport = Some (bounded_status x)\<rparr>))"

text \<open>\<open>handle\<close>: only the principal of the binding reaches the transport.\<close>

definition principal_admitted :: "string option \<Rightarrow> term_adapter \<Rightarrow> bool" where
  "principal_admitted pb s = (case pb of None \<Rightarrow> False | Some p \<Rightarrow> p \<noteq> [] \<and> same_bytes p (pb_principal (ta_binding s)))"

definition adapter_route :: "string option \<Rightarrow> term_request \<Rightarrow> term_adapter \<Rightarrow> term_route" where
  "adapter_route pb q s = (if \<not> principal_admitted pb s then Refused (Reply 404 (Error_body ''not_found''))
     else route_request q (ta_transport s))"

text \<open>The checks the consumer makes right before it touches the terminal.\<close>

definition adapter_agent_input :: "term_adapter \<Rightarrow> pty_error + unit" where
  "adapter_agent_input s = assert_agent_input (ta_binding s) (ta_pty s)"

definition adapter_agent_observation :: "term_adapter \<Rightarrow> pty_error + unit" where
  "adapter_agent_observation s = assert_agent_observation (ta_binding s) (ta_pty s)"

definition adapter_agent_resize :: "term_adapter \<Rightarrow> pty_error + unit" where
  "adapter_agent_resize s = assert_agent_resize (ta_binding s) (ta_pty s)"

definition adapter_human_input :: "term_ref \<Rightarrow> term_adapter \<Rightarrow> pty_error + unit" where
  "adapter_human_input r s = assert_human_input (ta_binding s) (rf_id r) (rf_epoch r) (ta_pty s)"

definition adapter_human_observation :: "term_ref \<Rightarrow> term_adapter \<Rightarrow> pty_error + unit" where
  "adapter_human_observation r s = assert_human_observation (ta_binding s) (rf_id r) (rf_epoch r) (ta_pty s)"

definition adapter_human_resize :: "term_ref \<Rightarrow> term_adapter \<Rightarrow> pty_error + unit" where
  "adapter_human_resize r s = assert_human_resize (ta_binding s) (rf_id r) (rf_epoch r) (ta_pty s)"

text \<open>A call of the gate.\<close>

definition on_pty :: "(pty_error + 'r) \<times> pty \<Rightarrow> term_adapter \<Rightarrow> (term_handoff_error + 'r) \<times> term_adapter" where
  "on_pty r s = (case fst r of Inl e \<Rightarrow> Inl (Handoff_pty e) | Inr x \<Rightarrow> Inr x, s\<lparr>ta_pty := snd r\<rparr>)"

section \<open>Operations\<close>

definition begin_terminal ::
  "string \<Rightarrow> int \<Rightarrow> string \<Rightarrow> int \<Rightarrow> int \<Rightarrow> term_adapter \<Rightarrow> (term_handoff_error + term_ref \<times> string) \<times> term_adapter" where
  "begin_terminal new_id t k t1 t2 s =
     (let st = pty_get_status (ta_pty s) in
      if ta_ref s \<noteq> None \<or> ps_authority st \<noteq> Agent \<or> ps_status st \<noteq> None \<or> \<not> ps_alive st \<or> ps_sync_required st
      then (Inl TERMINAL_HANDOFF_INTERVENTION_STALE, s)
      else (case on_pty (begin_fence (ta_binding s) new_id t (ta_pty s)) s of
          (Inl e, s1) \<Rightarrow> (Inl e, s1)
        | (Inr a, s1) \<Rightarrow>
            (case transport_start (iv_id a) (iv_epoch a) (pb_principal (ta_binding s)) k t1 t2 (ta_transport s1) of
              (Inr path, tr) \<Rightarrow>
                (Inr (public_ref a, path), s1\<lparr>ta_transport := tr, ta_ref := Some (iv_id a, iv_epoch a)\<rparr>)
            | (Inl _, tr) \<Rightarrow>
                (case on_pty (cancel_before_human (ta_binding s) (iv_id a) (iv_epoch a) (ta_pty s1))
                    (s1\<lparr>ta_transport := tr\<rparr>) of
                  (Inl e, s2) \<Rightarrow> (Inl e, s2)
                | (Inr _, s2) \<Rightarrow> (Inl TERMINAL_HANDOFF_TRANSPORT_UNAVAILABLE, s2)))))"

text \<open>The cancellation revokes the transport first and awaits it, whatever its outcome.\<close>

definition cancel_terminal_first :: "term_ref \<Rightarrow> term_adapter \<Rightarrow> (term_handoff_error + unit) \<times> term_adapter" where
  "cancel_terminal_first r s = (case require_ref r s of
       Inl e \<Rightarrow> (Inl e, s)
     | Inr _ \<Rightarrow> (let st = pty_get_status (ta_pty s) in
         if ps_status st \<noteq> Some Awaiting_human \<or> ps_epoch st \<noteq> Some (rf_epoch r)
         then (Inl TERMINAL_HANDOFF_INTERVENTION_STALE, s)
         else (Inr (), s\<lparr>ta_ref := None,
           ta_transport := snd (transport_revoke_first (rf_id r) (rf_epoch r) (ta_transport s))\<rparr>)))"

definition cancel_terminal_last :: "string \<Rightarrow> int \<Rightarrow> term_adapter \<Rightarrow> (term_handoff_error + pty_status) \<times> term_adapter" where
  "cancel_terminal_last i e s = on_pty (cancel_before_human (ta_binding s) i e (ta_pty s)) s"

definition terminal_transport_status :: "term_ref \<Rightarrow> term_adapter \<Rightarrow> term_handoff_error + transport_summary" where
  "terminal_transport_status r s = (case require_ref r s of
       Inl e \<Rightarrow> Inl e
     | Inr _ \<Rightarrow> (case transport_status (rf_id r) (rf_epoch r) (ta_transport s) of
         Inl x \<Rightarrow> Inl (Handoff_transport x) | Inr x \<Rightarrow> Inr (bounded_status x)))"

definition claim_terminal :: "term_ref \<Rightarrow> int \<Rightarrow> term_adapter \<Rightarrow> (term_handoff_error + term_ref) \<times> term_adapter" where
  "claim_terminal r t s = (case terminal_transport_status r s of
       Inl e \<Rightarrow> (Inl e, s)
     | Inr x \<Rightarrow>
         if \<not> sm_ready x \<or> sm_disconnected x \<or> sm_completed x \<or> sm_faulted x
         then (Inl TERMINAL_HANDOFF_TRANSPORT_NOT_READY, s)
         else (case on_pty (claim_after_drain (ta_binding s) (rf_id r) (rf_epoch r) t (ta_pty s)) s of
             (Inl e, s1) \<Rightarrow> (Inl e, s1)
           | (Inr a, s1) \<Rightarrow> (case activate_human (rf_id r) (rf_epoch r) (ta_transport s1) of
               (Inr _, tr) \<Rightarrow> (Inr (public_ref a), s1\<lparr>ta_transport := tr\<rparr>)
             | (Inl _, tr) \<Rightarrow>
                 (case on_pty (note_human_disconnect (ta_binding s) (iv_id a) (iv_epoch a) (ta_pty s1))
                     (s1\<lparr>ta_transport := tr\<rparr>) of
                   (Inl e, s2) \<Rightarrow> (Inl e, s2)
                 | (Inr _, s2) \<Rightarrow> (Inl TERMINAL_HANDOFF_TRANSPORT_UNAVAILABLE, s2)))))"

text \<open>One ordered human event; input and resizes are checked against the authority before they are given out.\<close>

definition next_human_event ::
  "term_ref \<Rightarrow> int \<Rightarrow> term_adapter \<Rightarrow> (term_handoff_error + human_event option) \<times> term_adapter" where
  "next_human_event r t s = (case require_ref r s of
       Inl e \<Rightarrow> (Inl e, s)
     | Inr _ \<Rightarrow> (case next_event (rf_id r) (rf_epoch r) (ta_transport s) of
         (Inl x, tr) \<Rightarrow> (Inl (Handoff_transport x), s\<lparr>ta_transport := tr\<rparr>)
       | (Inr None, tr) \<Rightarrow> (Inr None, s\<lparr>ta_transport := tr\<rparr>)
       | (Inr (Some (Term_input v)), tr) \<Rightarrow>
           (case assert_human_input (ta_binding s) (rf_id r) (rf_epoch r) (ta_pty s) of
             Inl e \<Rightarrow> (Inl (Handoff_pty e), s\<lparr>ta_transport := tr\<rparr>)
           | Inr _ \<Rightarrow> (Inr (Some (Human_input (b64_decode v))), s\<lparr>ta_transport := tr\<rparr>))
       | (Inr (Some (Term_resize rows cols)), tr) \<Rightarrow>
           (case assert_human_resize (ta_binding s) (rf_id r) (rf_epoch r) (ta_pty s) of
             Inl e \<Rightarrow> (Inl (Handoff_pty e), s\<lparr>ta_transport := tr\<rparr>)
           | Inr _ \<Rightarrow> (Inr (Some (Human_resize rows cols)), s\<lparr>ta_transport := tr\<rparr>))
       | (Inr (Some Term_done), tr) \<Rightarrow>
           (case fence_human (rf_id r) (rf_epoch r) tr of
             (Inl x, tr1) \<Rightarrow> (Inl (Handoff_transport x), s\<lparr>ta_transport := tr1\<rparr>)
           | (Inr _, tr1) \<Rightarrow>
               (case on_pty (done_fence (ta_binding s) (rf_id r) (rf_epoch r) t (ta_pty s)) (s\<lparr>ta_transport := tr1\<rparr>) of
                 (Inl e, s1) \<Rightarrow> (Inl e, s1)
               | (Inr a, s1) \<Rightarrow> (case release_completed (rf_id r) (rf_epoch r) (ta_transport s1) of
                   (Inl x, tr2) \<Rightarrow> (Inl (Handoff_transport x), s1\<lparr>ta_transport := tr2\<rparr>)
                 | (Inr _, tr2) \<Rightarrow>
                     (Inr (Some (Human_done (public_ref a))), s1\<lparr>ta_transport := tr2, ta_ref := None\<rparr>))))))"

definition push_human_output ::
  "term_ref \<Rightarrow> byte_list \<Rightarrow> term_adapter \<Rightarrow> (term_handoff_error + unit) \<times> term_adapter" where
  "push_human_output r data s = (case require_ref r s of
       Inl e \<Rightarrow> (Inl e, s)
     | Inr _ \<Rightarrow> (case assert_human_observation (ta_binding s) (rf_id r) (rf_epoch r) (ta_pty s) of
         Inl e \<Rightarrow> (Inl (Handoff_pty e), s)
       | Inr _ \<Rightarrow>
           if length data < 1 \<or> max_human_output < length data then (Inl TERMINAL_HANDOFF_OUTPUT_INVALID, s)
           else (case push_output (rf_id r) (rf_epoch r) (b64_encode data) (ta_transport s) of
               (Inl x, tr) \<Rightarrow> (Inl (Handoff_transport x), s\<lparr>ta_transport := tr\<rparr>)
             | (Inr _, tr) \<Rightarrow> (Inr (), s\<lparr>ta_transport := tr\<rparr>))))"

definition note_terminal_disconnect :: "term_ref \<Rightarrow> term_adapter \<Rightarrow> (term_handoff_error + adapter_status) \<times> term_adapter" where
  "note_terminal_disconnect r s = (case terminal_transport_status r s of
       Inl e \<Rightarrow> (Inl e, s)
     | Inr x \<Rightarrow>
         if \<not> sm_disconnected x \<or> sm_completed x then (Inl TERMINAL_HANDOFF_TRANSPORT_UNAVAILABLE, s)
         else (case on_pty (note_human_disconnect (ta_binding s) (rf_id r) (rf_epoch r) (ta_pty s)) s of
             (Inl e, s1) \<Rightarrow> (Inl e, s1)
           | (Inr _, s1) \<Rightarrow> (adapter_get_status s1, s1)))"

definition confirm_human_drain :: "term_ref \<Rightarrow> term_adapter \<Rightarrow> (term_handoff_error + term_ref) \<times> term_adapter" where
  "confirm_human_drain r s = (case on_pty (confirm_drained (ta_binding s) (rf_id r) (rf_epoch r) (ta_pty s)) s of
       (Inl e, s1) \<Rightarrow> (Inl e, s1) | (Inr a, s1) \<Rightarrow> (Inr (public_ref a), s1))"

definition report_terminal :: "term_ref \<Rightarrow> bool \<Rightarrow> int \<Rightarrow> term_adapter \<Rightarrow> (term_handoff_error + term_ref) \<times> term_adapter" where
  "report_terminal r ok t s =
     (case on_pty (report_verification (ta_binding s) (rf_id r) (rf_epoch r) ok t (ta_pty s)) s of
       (Inl e, s1) \<Rightarrow> (Inl e, s1) | (Inr a, s1) \<Rightarrow> (Inr (public_ref a), s1))"

definition resume_terminal :: "term_ref \<Rightarrow> term_adapter \<Rightarrow> (term_handoff_error + pty_resume) \<times> term_adapter" where
  "resume_terminal r s = on_pty (resume_pty (ta_binding s) (rf_id r) (rf_epoch r) (ta_pty s)) s"

definition acknowledge_terminal :: "term_adapter \<Rightarrow> (term_handoff_error + unit) \<times> term_adapter" where
  "acknowledge_terminal s = on_pty (acknowledge_sync (ta_binding s) (ta_pty s)) s"

text \<open>The revocation's outcome is ignored.\<close>

definition exit_terminal :: "int \<Rightarrow> term_adapter \<Rightarrow> (term_handoff_error + pty_status) \<times> term_adapter" where
  "exit_terminal t s = (case on_pty (note_session_exit (ta_binding s) t (ta_pty s)) s of
       (Inl e, s1) \<Rightarrow> (Inl e, s1)
     | (Inr st, s1) \<Rightarrow> (case ta_ref s1 of
         None \<Rightarrow> (Inr st, s1)
       | Some (i, e) \<Rightarrow> (Inr st, s1\<lparr>ta_ref := None,
           ta_transport := snd (transport_revoke_first i e (ta_transport s1))\<rparr>)))"

definition revoke_terminal :: "term_adapter \<Rightarrow> (term_handoff_error + unit) \<times> term_adapter" where
  "revoke_terminal s = (case ta_ref s of
       None \<Rightarrow> (Inr (), s)
     | Some (i, e) \<Rightarrow>
         (let st = pty_get_status (ta_pty s); drop = (\<lambda>s. (Inr (), s\<lparr>ta_ref := None,
            ta_transport := snd (transport_revoke_first i e (ta_transport s))\<rparr>)) in
          if ps_status st = Some Human_active \<and> ps_epoch st = Some e
          then (case fence_human i e (ta_transport s) of
              (Inl x, tr) \<Rightarrow> (Inl (Handoff_transport x), s\<lparr>ta_transport := tr\<rparr>)
            | (Inr _, tr) \<Rightarrow>
                (case on_pty (note_human_disconnect (ta_binding s) i e (ta_pty s)) (s\<lparr>ta_transport := tr\<rparr>) of
                  (Inl x, s1) \<Rightarrow> (Inl x, s1)
                | (Inr _, s1) \<Rightarrow> drop s1))
          else drop s))"

section \<open>Operator diagnostics\<close>

definition terminal_health :: "adapter_status \<Rightarrow> string \<times> string option" where
  "terminal_health s = (let p = st_pty s; x = st_transport s;
       faulted = (case x of None \<Rightarrow> False | Some m \<Rightarrow> sm_faulted m);
       gone = (ps_disconnected p \<or> (case x of None \<Rightarrow> False | Some m \<Rightarrow> sm_disconnected m));
       ready = (case x of None \<Rightarrow> False | Some m \<Rightarrow> sm_ready m) in
     if \<not> ps_alive p then (''failed'', Some ''target'')
     else if faulted then (''failed'', Some ''transport'')
     else if gone \<or> ps_sync_required p then (''degraded'', if gone then Some ''transport'' else None)
     else if ps_status p = Some Awaiting_human \<and> \<not> ready then (''starting'', None)
     else if ps_status p \<noteq> None \<or> ready then (''available'', None)
     else (''idle'', None))"

fun authority_name :: "execution_authority \<Rightarrow> string" where
  "authority_name Agent = ''agent''"
| "authority_name Human = ''human''"
| "authority_name None_authority = ''none''"

fun phase_name :: "intervention_status \<Rightarrow> string" where
  "phase_name Awaiting_human = ''awaiting_human''"
| "phase_name Human_active = ''human_active''"
| "phase_name Verifying = ''verifying''"
| "phase_name Ready_to_resume = ''ready_to_resume''"

definition terminal_diagnostics :: "adapter_status \<Rightarrow> jsval option" where
  "terminal_diagnostics s = (let p = st_pty s in parse_diagnostics (JObj (
     [(''version'', jint 1), (''source'', JStr ''terminal_handoff''), (''health'', JStr (fst (terminal_health s))),
      (''authority'', JStr (authority_name (ps_authority p)))]
     @ opt_prop ''phase'' (map_option (\<lambda>x. JStr (phase_name x)) (ps_status p))
     @ opt_prop ''failureCategory'' (map_option JStr (snd (terminal_health s)))
     @ [(''terminal'', JObj [(''namespace'', JStr ''terminal_session''), (''alive'', JBool (ps_alive p)),
          (''humanDisconnected'', JBool (ps_disconnected p)), (''synchronizationRequired'', JBool (ps_sync_required p))]),
        (''transport'', case st_transport s of None \<Rightarrow> JNull | Some m \<Rightarrow> JObj [(''namespace'', JStr ''terminal_webrtc''),
          (''ready'', JBool (sm_ready m)), (''disconnected'', JBool (sm_disconnected m)),
          (''completed'', JBool (sm_completed m)), (''faulted'', JBool (sm_faulted m)),
          (''queuedEvents'', jint (int (sm_queued m)))])])))"

definition adapter_diagnostics :: "term_adapter \<Rightarrow> term_handoff_error + jsval option" where
  "adapter_diagnostics s = (case adapter_get_status s of Inl e \<Rightarrow> Inl e | Inr st \<Rightarrow> Inr (terminal_diagnostics st))"

section \<open>Runs\<close>

text \<open>What reaches the transport without the adapter: requests, timers, callbacks, continuations.\<close>

fun env_move :: "term_move \<Rightarrow> bool" where
  "env_move (S_start i e pb k t1 t2) \<longleftrightarrow> False"
| "env_move (S_activate i e) \<longleftrightarrow> False"
| "env_move (S_fence i e) \<longleftrightarrow> False"
| "env_move (S_disconnect i e g) \<longleftrightarrow> False"
| "env_move (S_drain i e) \<longleftrightarrow> False"
| "env_move (S_next i e) \<longleftrightarrow> False"
| "env_move (S_output i e v) \<longleftrightarrow> False"
| "env_move (S_release i e) \<longleftrightarrow> False"
| "env_move (S_revoke i e) \<longleftrightarrow> False"
| "env_move c \<longleftrightarrow> True"

datatype handoff_move =
    A_begin string int string int int
  | A_cancel term_ref
  | A_cancel_last string int
  | A_claim term_ref int
  | A_next term_ref int
  | A_push term_ref byte_list
  | A_disconnect term_ref
  | A_drained term_ref
  | A_report term_ref bool int
  | A_resume term_ref
  | A_sync
  | A_exit int
  | A_revoke
  | A_env term_move

fun handoff_step ::
  "(string \<Rightarrow> jsval option) \<Rightarrow> (jsval \<Rightarrow> jsnum) \<Rightarrow> term_adapter \<Rightarrow> handoff_move \<Rightarrow> term_adapter" where
  "handoff_step parse coerce s (A_begin i t k t1 t2) = snd (begin_terminal i t k t1 t2 s)"
| "handoff_step parse coerce s (A_cancel r) = snd (cancel_terminal_first r s)"
| "handoff_step parse coerce s (A_cancel_last i e) = snd (cancel_terminal_last i e s)"
| "handoff_step parse coerce s (A_claim r t) = snd (claim_terminal r t s)"
| "handoff_step parse coerce s (A_next r t) = snd (next_human_event r t s)"
| "handoff_step parse coerce s (A_push r data) = snd (push_human_output r data s)"
| "handoff_step parse coerce s (A_disconnect r) = snd (note_terminal_disconnect r s)"
| "handoff_step parse coerce s (A_drained r) = snd (confirm_human_drain r s)"
| "handoff_step parse coerce s (A_report r ok t) = snd (report_terminal r ok t s)"
| "handoff_step parse coerce s (A_resume r) = snd (resume_terminal r s)"
| "handoff_step parse coerce s A_sync = snd (acknowledge_terminal s)"
| "handoff_step parse coerce s (A_exit t) = snd (exit_terminal t s)"
| "handoff_step parse coerce s A_revoke = snd (revoke_terminal s)"
| "handoff_step parse coerce s (A_env c) =
     (if env_move c then s\<lparr>ta_transport := term_step parse coerce (ta_transport s) c\<rparr> else s)"

text \<open>What a step did of what a human period owes.\<close>

fun handoff_deed :: "term_adapter \<Rightarrow> handoff_move \<Rightarrow> pty_deed list" where
  "handoff_deed s (A_next r t) =
     (case fst (next_human_event r t s) of Inr (Some (Human_done x)) \<Rightarrow> [D_done] | _ \<Rightarrow> [])"
| "handoff_deed s (A_drained r) = (if is_ok (fst (confirm_human_drain r s)) then [D_drained] else [])"
| "handoff_deed s (A_report r ok t) = (if ok \<and> is_ok (fst (report_terminal r ok t s)) then [D_verified] else [])"
| "handoff_deed s (A_resume r) = (if is_ok (fst (resume_terminal r s)) then [D_resumed] else [])"
| "handoff_deed s A_sync = (if is_ok (fst (acknowledge_terminal s)) then [D_synced] else [])"
| "handoff_deed s _ = []"

fun handoff_deeds ::
  "(string \<Rightarrow> jsval option) \<Rightarrow> (jsval \<Rightarrow> jsnum) \<Rightarrow> term_adapter \<Rightarrow> handoff_move list \<Rightarrow> pty_deed list" where
  "handoff_deeds parse coerce s [] = []"
| "handoff_deeds parse coerce s (c # cs) =
     handoff_deed s c @ handoff_deeds parse coerce (handoff_step parse coerce s c) cs"

text \<open>The steps on the transport, of the adapter too, keep its invariant.\<close>

lemma transport_call_good [simp]:
  assumes "transport_good t"
  shows "transport_good (snd (transport_start i e pb k t1 t2 t))" "transport_good (snd (activate_human i e t))"
    "transport_good (snd (fence_human i e t))" "transport_good (snd (next_event i e t))"
    "transport_good (snd (push_output i e v t))" "transport_good (snd (release_completed i e t))"
    "transport_good (snd (transport_revoke_first i e t))"
  using transport_good_step [OF assms, of undefined undefined "S_start i e pb k t1 t2"]
    transport_good_step [OF assms, of undefined undefined "S_activate i e"]
    transport_good_step [OF assms, of undefined undefined "S_fence i e"]
    transport_good_step [OF assms, of undefined undefined "S_next i e"]
    transport_good_step [OF assms, of undefined undefined "S_output i e v"]
    transport_good_step [OF assms, of undefined undefined "S_release i e"]
    transport_good_step [OF assms, of undefined undefined "S_revoke i e"]
  by simp_all

lemma on_pty_simps [simp]:
  "ta_pty (snd (on_pty r s)) = snd r" "ta_transport (snd (on_pty r s)) = ta_transport s"
  "ta_ref (snd (on_pty r s)) = ta_ref s" "ta_binding (snd (on_pty r s)) = ta_binding s"
  "isl (fst (on_pty r s)) = isl (fst r)"
  by (auto simp: on_pty_def split: sum.split)

text \<open>The gate sees a step as calls of its own, and no begin while an intervention is open.\<close>

definition gate_run :: "term_adapter \<Rightarrow> term_adapter \<Rightarrow> pty_deed list \<Rightarrow> bool" where
  "gate_run s s' ds \<longleftrightarrow> (\<exists>cs. ta_pty s' = run pty_step (ta_pty s) cs \<and> begin_only_idle (ta_pty s) cs
     \<and> pty_effects (ta_pty s) cs = ds)"

lemma gate_run_none: "ta_pty s' = ta_pty s \<Longrightarrow> gate_run s s' []"
  unfolding gate_run_def by (rule exI [of _ "[]"]) simp

lemma gate_run_call:
  "ta_pty s' = pty_step (ta_pty s) c \<Longrightarrow> begins_idle (ta_pty s) c \<Longrightarrow> ds = pty_effect (ta_pty s) c \<Longrightarrow> gate_run s s' ds"
  unfolding gate_run_def by (rule exI [of _ "[c]"]) simp

lemma gate_run_two:
  "ta_pty s' = pty_step (pty_step (ta_pty s) c) d \<Longrightarrow> begins_idle (ta_pty s) c \<Longrightarrow> begins_idle (pty_step (ta_pty s) c) d \<Longrightarrow>
   pty_effect (ta_pty s) c = [] \<Longrightarrow> pty_effect (pty_step (ta_pty s) c) d = [] \<Longrightarrow> gate_run s s' []"
  unfolding gate_run_def by (rule exI [of _ "[c, d]"]) simp

lemma on_pty_cases:
  obtains (failed) e where "on_pty r s = (Inl (Handoff_pty e), s\<lparr>ta_pty := snd r\<rparr>)" "fst r = Inl e"
    | (ok) x where "on_pty r s = (Inr x, s\<lparr>ta_pty := snd r\<rparr>)" "fst r = Inr x"
  by (cases "fst r") (auto simp: on_pty_def)

lemma begin_gate: "gate_run s (snd (begin_terminal i t k t1 t2 s)) []"
proof (cases "ta_ref s \<noteq> None \<or> ps_authority (pty_get_status (ta_pty s)) \<noteq> Agent \<or> ps_status (pty_get_status (ta_pty s)) \<noteq> None
    \<or> \<not> ps_alive (pty_get_status (ta_pty s)) \<or> ps_sync_required (pty_get_status (ta_pty s))")
  case True
  then show ?thesis by (auto simp: begin_terminal_def Let_def intro: gate_run_none)
next
  case False
  then have idle: "hs_active (pt_state (ta_pty s)) = None" by (auto simp: pty_get_status_def)
  let ?b = "P_begin (ta_binding s) i t"
  show ?thesis
  proof (cases rule: on_pty_cases [of "begin_fence (ta_binding s) i t (ta_pty s)" s])
    case (failed e)
    then have "snd (begin_terminal i t k t1 t2 s) = s\<lparr>ta_pty := pty_step (ta_pty s) ?b\<rparr>"
      using False by (simp add: begin_terminal_def Let_def)
    then show ?thesis using idle by (intro gate_run_call [of _ _ ?b]) simp_all
  next
    case (ok a)
    let ?c = "P_cancel (ta_binding s) (iv_id a) (iv_epoch a)"
    obtain r tr where tr: "transport_start (iv_id a) (iv_epoch a) (pb_principal (ta_binding s)) k t1 t2 (ta_transport s) = (r, tr)"
      by fastforce
    show ?thesis
    proof (cases r)
      case Inr
      with ok tr False have "ta_pty (snd (begin_terminal i t k t1 t2 s)) = pty_step (ta_pty s) ?b"
        by (simp add: begin_terminal_def Let_def)
      then show ?thesis using idle by (intro gate_run_call [of _ _ ?b]) simp_all
    next
      case Inl
      with ok tr False have "ta_pty (snd (begin_terminal i t k t1 t2 s)) = pty_step (pty_step (ta_pty s) ?b) ?c"
        by (auto simp: begin_terminal_def Let_def on_pty_def split: sum.split)
      then show ?thesis using idle by (intro gate_run_two [of _ _ ?b ?c]) simp_all
    qed
  qed
qed

lemma claim_gate: "gate_run s (snd (claim_terminal r t s)) []"
proof -
  let ?c = "P_claim (ta_binding s) (rf_id r) (rf_epoch r) t"
  have "ta_pty (snd (claim_terminal r t s)) = ta_pty s \<or> ta_pty (snd (claim_terminal r t s)) = pty_step (ta_pty s) ?c
      \<or> (\<exists>i e. ta_pty (snd (claim_terminal r t s)) = pty_step (pty_step (ta_pty s) ?c) (P_disconnect (ta_binding s) i e))"
    by (auto simp: claim_terminal_def on_pty_def split: sum.split prod.split)
  then show ?thesis
    by (auto intro: gate_run_none gate_run_call [of _ _ ?c]
        gate_run_two [of _ _ ?c "P_disconnect (ta_binding s) i e" for i e] simp del: pty_step.simps)
qed

lemma next_gate:
  assumes "transport_good (ta_transport s)"
  shows "gate_run s (snd (next_human_event r t s)) (handoff_deed s (A_next r t))"
proof -
  let ?n = "next_event (rf_id r) (rf_epoch r) (ta_transport s)"
  let ?c = "P_done (ta_binding s) (rf_id r) (rf_epoch r) t"
  show ?thesis
  proof (cases "require_ref r s = Inr () \<and> fst ?n = Inr (Some Term_done)")
    case False
    then have "ta_pty (snd (next_human_event r t s)) = ta_pty s" "handoff_deed s (A_next r t) = []"
      by (auto simp: next_human_event_def split: sum.split prod.split option.split term_event.split)
    then show ?thesis by (simp add: gate_run_none)
  next
    case True
    then obtain x q where x: "tt_current (ta_transport s) = Some x" "tn_queue x = Term_done # q"
        "tn_intervention x = rf_id r" "tn_epoch x = rf_epoch r"
      by (auto simp: next_event_def require_term_def split: sum.splits option.splits list.splits if_splits)
    with assms have completed: "tn_completed x" by (auto simp: transport_good_def session_good_def queue_ok_def)
    obtain tr where tr: "?n = (Inr (Some Term_done), tr)" using True by (cases ?n) auto
    then have cur: "tt_current tr = Some (x\<lparr>tn_queue := q, tn_queued := max 0 (tn_queued x - 16)\<rparr>)"
      using x by (auto simp: next_event_def require_term_def)
    define tr1 where "tr1 = snd (fence_human (rf_id r) (rf_epoch r) tr)"
    have fence: "fence_human (rf_id r) (rf_epoch r) tr = (Inr (), tr1)"
      using cur x by (simp add: tr1_def fence_human_def require_term_def)
    have "tt_current tr1 = Some (x\<lparr>tn_queue := q, tn_queued := max 0 (tn_queued x - 16), tn_human := False\<rparr>)"
      using cur x by (simp add: tr1_def fence_human_def require_term_def)
    then have release: "release_completed (rf_id r) (rf_epoch r) tr1 = (Inr (), tr1\<lparr>tt_current := None\<rparr>)"
      using x completed by (simp add: release_completed_def require_term_def)
    have "ta_pty (snd (next_human_event r t s)) = pty_step (ta_pty s) ?c"
        "handoff_deed s (A_next r t) = pty_effect (ta_pty s) ?c"
      using True tr fence release
      by (cases "fst (done_fence (ta_binding s) (rf_id r) (rf_epoch r) t (ta_pty s))";
          simp add: next_human_event_def on_pty_def)+
    then show ?thesis by (intro gate_run_call [of _ _ ?c]) simp_all
  qed
qed

lemma gate_step:
  assumes "transport_good (ta_transport s)"
  shows "gate_run s (handoff_step parse coerce s c) (handoff_deed s c)"
proof (cases c)
  case (A_cancel_last i e)
  then show ?thesis
    by (intro gate_run_call [of _ _ "P_cancel (ta_binding s) i e"]) (simp_all add: cancel_terminal_last_def)
next
  case (A_disconnect r)
  have "ta_pty (handoff_step parse coerce s c) = ta_pty s
      \<or> ta_pty (handoff_step parse coerce s c) = pty_step (ta_pty s) (P_disconnect (ta_binding s) (rf_id r) (rf_epoch r))"
    by (auto simp: A_disconnect note_terminal_disconnect_def on_pty_def split: sum.split prod.split)
  then show ?thesis
    by (elim disjE) (simp_all add: A_disconnect gate_run_none gate_run_call [of _ _ "P_disconnect (ta_binding s) (rf_id r) (rf_epoch r)"] del: handoff_step.simps)
next
  case (A_drained r)
  then show ?thesis
    by (intro gate_run_call [of _ _ "P_drained (ta_binding s) (rf_id r) (rf_epoch r)"])
      (auto simp: confirm_human_drain_def on_pty_def split: sum.split prod.split)
next
  case (A_report r ok t)
  then show ?thesis
    by (intro gate_run_call [of _ _ "P_report (ta_binding s) (rf_id r) (rf_epoch r) ok t"])
      (auto simp: report_terminal_def on_pty_def split: sum.split prod.split)
next
  case (A_resume r)
  then show ?thesis
    by (intro gate_run_call [of _ _ "P_resume (ta_binding s) (rf_id r) (rf_epoch r)"]) (simp_all add: resume_terminal_def)
next
  case A_sync
  then show ?thesis
    by (intro gate_run_call [of _ _ "P_sync (ta_binding s)"]) (simp_all add: acknowledge_terminal_def)
next
  case (A_exit t)
  then show ?thesis
    by (intro gate_run_call [of _ _ "P_exit (ta_binding s) t"])
      (auto simp: exit_terminal_def on_pty_def split: sum.split prod.split option.split)
next
  case A_revoke
  have "ta_pty (handoff_step parse coerce s c) = ta_pty s
      \<or> (\<exists>i e. ta_pty (handoff_step parse coerce s c) = pty_step (ta_pty s) (P_disconnect (ta_binding s) i e))"
    by (auto simp: A_revoke revoke_terminal_def on_pty_def Let_def split: sum.split prod.split option.split)
  then show ?thesis
    by (elim disjE exE) (auto simp add: A_revoke intro: gate_run_none
        gate_run_call [of _ _ "P_disconnect (ta_binding s) i e" for i e] simp del: handoff_step.simps)
next
  case (A_push r data)
  then show ?thesis by (auto simp: push_human_output_def intro: gate_run_none split: sum.split prod.split)
next
  case (A_cancel r)
  then show ?thesis by (auto simp: cancel_terminal_first_def Let_def intro: gate_run_none split: sum.split prod.split)
next
  case (A_env m)
  then show ?thesis by (simp add: gate_run_none)
qed (simp_all add: begin_gate claim_gate next_gate [OF assms] del: handoff_deed.simps(1))

section \<open>The invariant\<close>

text \<open>The gate holds a human in control of this intervention, and the adapter refers to it.\<close>

definition human_held :: "string \<Rightarrow> int \<Rightarrow> term_adapter \<Rightarrow> bool" where
  "human_held i e s \<longleftrightarrow> ta_ref s = Some (i, e) \<and> (\<exists>a. hs_active (pt_state (ta_pty s)) = Some a
     \<and> iv_id a = i \<and> iv_epoch a = e \<and> iv_status a = Human_active)"

definition handoff_linked :: "term_adapter \<Rightarrow> bool" where
  "handoff_linked s \<longleftrightarrow> (case tt_current (ta_transport s) of None \<Rightarrow> True
     | Some x \<Rightarrow> tn_human x \<longrightarrow> human_held (tn_intervention x) (tn_epoch x) s)"

definition handoff_good :: "term_adapter \<Rightarrow> bool" where
  "handoff_good s \<longleftrightarrow> pty_good (ta_pty s) \<and> transport_good (ta_transport s) \<and> handoff_linked s"

lemma gate_run_good: "gate_run s s' ds \<Longrightarrow> pty_good (ta_pty s) \<Longrightarrow> pty_good (ta_pty s')"
  by (auto simp: gate_run_def pty.good_run)

text \<open>Only the end of a human period takes the human out.\<close>

lemma human_stays:
  assumes "hs_active (pt_state p) = Some a" and "iv_status a = Human_active"
    and "\<forall>b i e t. c \<noteq> P_done b i e t" and "\<forall>b t. c \<noteq> P_exit b t"
  shows "hs_active (pt_state (pty_step p c)) = Some a"
  using assms
  by (cases c)
    (auto simp: pty_ops lifecycle_ops guard_simps require_intervention_def Let_def split: sum.splits option.splits prod.splits)

text \<open>No move of the environment lets a human in, and none moves a session.\<close>

lemma env_human:
  assumes "env_move c" and "tt_current (term_step parse coerce t c) = Some x" and "tn_human x"
  shows "\<exists>y. tt_current t = Some y \<and> tn_human y \<and> tn_intervention y = tn_intervention x \<and> tn_epoch y = tn_epoch x"
proof -
  have accept: "\<exists>y. tt_current t = Some y \<and> tn_human y \<and> tn_intervention y = tn_intervention x \<and> tn_epoch y = tn_epoch x"
    if "tt_current (snd (accept_message parse coerce k g msg t)) = Some x" for k g msg
    using that assms(3)
    by (auto simp: accept_message_def accept_event_current fault_session_current
        split: option.splits sum.splits if_splits)
  show ?thesis
    using assms
    by (cases c)
      (auto simp: transport_revoke_last_def channel_changed_def channel_message_def connection_changed_def
        on_disconnected_def note_transport_disconnect_def require_term_def on_ready_def on_faulted_def Let_def
        dest: accept split: option.splits sum.splits if_splits)
qed

lemma env_linked: "handoff_linked s \<Longrightarrow> env_move c \<Longrightarrow>
    handoff_linked (s\<lparr>ta_transport := term_step parse coerce (ta_transport s) c\<rparr>)"
  by (auto simp: handoff_linked_def human_held_def split: option.splits dest!: env_human)

definition no_human :: "transport \<Rightarrow> bool" where
  "no_human t \<longleftrightarrow> (case tt_current t of None \<Rightarrow> True | Some x \<Rightarrow> \<not> tn_human x)"

lemma linkedI: "no_human (ta_transport s) \<Longrightarrow> handoff_linked s"
  by (auto simp: no_human_def handoff_linked_def split: option.splits)

lemma not_held_no_human:
  "handoff_linked s \<Longrightarrow> \<not> (\<exists>i e. human_held i e s) \<Longrightarrow> no_human (ta_transport s)"
  by (auto simp: no_human_def handoff_linked_def split: option.splits)

text \<open>The sessions of two transports agree in what the link reads.\<close>

definition same_hold :: "transport \<Rightarrow> transport \<Rightarrow> bool" where
  "same_hold t u \<longleftrightarrow> (\<forall>x. tt_current u = Some x \<and> tn_human x \<longrightarrow> (\<exists>y. tt_current t = Some y \<and> tn_human y
     \<and> tn_intervention y = tn_intervention x \<and> tn_epoch y = tn_epoch x))"

lemma same_hold_refl [simp]: "same_hold t t"
  by (auto simp: same_hold_def)

lemma same_hold_calls [simp]:
  "same_hold t (snd (next_event i e t))" "same_hold t (snd (push_output i e v t))"
  "same_hold t (snd (transport_revoke_first i e t))" "same_hold t (snd (fence_human i e t))"
  by (auto simp: same_hold_def next_event_def push_output_def transport_revoke_first_def fence_human_def require_term_def
      split: option.splits sum.splits list.splits if_splits)

lemma linked_by:
  assumes "handoff_linked s" and "same_hold (ta_transport s) (ta_transport s')" and "ta_ref s' = ta_ref s"
    and "ta_pty s' = ta_pty s \<or> (\<exists>c. ta_pty s' = pty_step (ta_pty s) c \<and> (\<forall>b i e t. c \<noteq> P_done b i e t) \<and> (\<forall>b t. c \<noteq> P_exit b t))"
  shows "handoff_linked s'"
proof (cases "tt_current (ta_transport s')")
  case None
  then show ?thesis by (simp add: handoff_linked_def)
next
  case (Some x)
  have "human_held (tn_intervention x) (tn_epoch x) s'" if "tn_human x"
  proof -
    from that Some assms(2) obtain y where "tt_current (ta_transport s) = Some y" "tn_human y"
        "tn_intervention y = tn_intervention x" "tn_epoch y = tn_epoch x"
      by (auto simp: same_hold_def)
    then have held: "human_held (tn_intervention x) (tn_epoch x) s" using assms(1) by (auto simp: handoff_linked_def)
    then obtain a where a: "hs_active (pt_state (ta_pty s)) = Some a" "iv_status a = Human_active"
        "iv_id a = tn_intervention x" "iv_epoch a = tn_epoch x"
      by (auto simp: human_held_def)
    with assms(4) have "hs_active (pt_state (ta_pty s')) = Some a" by (auto intro: human_stays)
    with a held assms(3) show ?thesis by (simp add: human_held_def)
  qed
  with Some show ?thesis by (simp add: handoff_linked_def)
qed

lemma fenced_no_human: "fence_human i e t = (Inr (), u) \<Longrightarrow> no_human u"
  by (auto simp: fence_human_def no_human_def require_term_def split: sum.splits option.splits)

lemma started_no_human: "transport_start i e pb k t1 t2 t = (Inr p, u) \<Longrightarrow> no_human u"
  by (auto simp: transport_start_def no_human_def split: if_splits prod.splits)

lemma failed_start: "transport_start i e pb k t1 t2 t = (Inl x, u) \<Longrightarrow> u = t"
  by (auto simp: transport_start_def split: if_splits prod.splits)

lemma no_human_hold: "no_human t \<Longrightarrow> same_hold t u \<Longrightarrow> no_human u"
  by (auto simp: no_human_def same_hold_def split: option.splits)

lemma revoked_no_human:
  "handoff_linked s \<Longrightarrow> ta_ref s = Some (i, e) \<Longrightarrow> no_human (snd (transport_revoke_first i e (ta_transport s)))"
  by (auto simp: handoff_linked_def human_held_def no_human_def transport_revoke_first_def require_term_def
      split: option.splits sum.splits if_splits)

lemma begin_linked: "handoff_linked s \<Longrightarrow> handoff_linked (snd (begin_terminal i t k t1 t2 s))"
proof -
  assume linked: "handoff_linked s"
  show ?thesis
  proof (cases "ta_ref s \<noteq> None \<or> ps_authority (pty_get_status (ta_pty s)) \<noteq> Agent \<or> ps_status (pty_get_status (ta_pty s)) \<noteq> None
    \<or> \<not> ps_alive (pty_get_status (ta_pty s)) \<or> ps_sync_required (pty_get_status (ta_pty s))")
    case True
    then show ?thesis using linked by (auto simp: begin_terminal_def Let_def)
  next
    case False
    then have "no_human (ta_transport s)"
      using linked by (intro not_held_no_human) (auto simp: human_held_def)
    with False show ?thesis
      by (auto simp: begin_terminal_def Let_def on_pty_def intro!: linkedI dest: started_no_human failed_start
          split: sum.split prod.split)
  qed
qed

lemma cancel_linked: "handoff_linked s \<Longrightarrow> handoff_linked (snd (cancel_terminal_first r s))"
proof -
  assume linked: "handoff_linked s"
  show ?thesis
  proof (cases "is_ok (fst (cancel_terminal_first r s))")
    case True
    then have ref: "ta_ref s = Some (rf_id r, rf_epoch r)" and st: "ps_status (pty_get_status (ta_pty s)) = Some Awaiting_human"
      by (auto simp: cancel_terminal_first_def require_ref_def Let_def split: if_splits)
    have "no_human (snd (transport_revoke_first (rf_id r) (rf_epoch r) (ta_transport s)))"
      using linked ref by (rule revoked_no_human)
    with True show ?thesis
      by (auto simp: cancel_terminal_first_def Let_def intro!: linkedI split: sum.splits if_splits)
  next
    case False
    then show ?thesis using linked
      by (auto simp: cancel_terminal_first_def Let_def split: sum.splits if_splits)
  qed
qed

lemma claim_linked: "handoff_linked s \<Longrightarrow> handoff_linked (snd (claim_terminal r t s))"
proof (cases "is_ok (fst (claim_terminal r t s))")
  assume linked: "handoff_linked s"
  case True
  then have ref: "ta_ref s = Some (rf_id r, rf_epoch r)" and claimed: "is_ok (fst (claim_after_drain (ta_binding s) (rf_id r) (rf_epoch r) t (ta_pty s)))"
    and active: "is_ok (fst (activate_human (rf_id r) (rf_epoch r) (ta_transport s)))"
    and s': "ta_transport (snd (claim_terminal r t s)) = snd (activate_human (rf_id r) (rf_epoch r) (ta_transport s))"
      "ta_ref (snd (claim_terminal r t s)) = ta_ref s"
      "ta_pty (snd (claim_terminal r t s)) = snd (claim_after_drain (ta_binding s) (rf_id r) (rf_epoch r) t (ta_pty s))"
    by (auto simp: claim_terminal_def terminal_transport_status_def require_ref_def on_pty_def split: sum.splits prod.splits if_splits)
  from claimed obtain a where "hs_active (pt_state (ta_pty (snd (claim_terminal r t s)))) = Some a"
      "iv_id a = rf_id r" "iv_epoch a = rf_epoch r" "iv_status a = Human_active"
    unfolding s' by (auto simp: pty_ops guard_simps lifecycle_ops Let_def split: sum.splits option.splits if_splits)
  then have "human_held (rf_id r) (rf_epoch r) (snd (claim_terminal r t s))" using ref s' by (auto simp: human_held_def)
  moreover have "tn_intervention x = rf_id r \<and> tn_epoch x = rf_epoch r"
    if "tt_current (snd (activate_human (rf_id r) (rf_epoch r) (ta_transport s))) = Some x" for x
    using that active
    by (auto simp: activate_human_def require_term_def split: sum.splits option.splits prod.splits if_splits
        dest!: runtime_activate_current)
  ultimately show ?thesis by (auto simp: handoff_linked_def s' split: option.split)
next
  assume linked: "handoff_linked s"
  case False
  show ?thesis
  proof (cases "is_ok (fst (claim_after_drain (ta_binding s) (rf_id r) (rf_epoch r) t (ta_pty s)))")
    case claimed: True
    then have "\<not> (\<exists>i e. human_held i e s)"
      by (auto simp: human_held_def claim_after_drain_def guard_simps require_intervention_def split: sum.splits option.splits)
    with linked have "no_human (ta_transport s)" by (rule not_held_no_human)
    moreover have "tt_current u = tt_current (ta_transport s)"
      if "activate_human (rf_id r) (rf_epoch r) (ta_transport s) = (Inl x, u)" for x u
      using that by (auto simp: activate_human_def split: sum.splits option.splits prod.splits if_splits dest!: runtime_activate_current)
    ultimately show ?thesis
      using False claimed linked
      by (auto simp: claim_terminal_def on_pty_def no_human_def intro!: linkedI split: sum.splits prod.splits if_splits)
  next
    case refused: False
    then have "snd (claim_after_drain (ta_binding s) (rf_id r) (rf_epoch r) t (ta_pty s)) = ta_pty s"
      by (auto simp: claim_after_drain_def require_intervention_def on_lifecycle_def lifecycle_ops Let_def
          split: sum.splits option.splits if_splits)
    with refused linked show ?thesis by (auto simp: claim_terminal_def on_pty_def split: sum.splits)
  qed
qed

lemma next_linked: "handoff_linked s \<Longrightarrow> handoff_linked (snd (next_human_event r t s))"
proof -
  assume linked: "handoff_linked s"
  let ?n = "next_event (rf_id r) (rf_epoch r) (ta_transport s)" and ?s = "snd (next_human_event r t s)"
  have popped: "same_hold (ta_transport s) (snd ?n)" by simp
  have no_done: "handoff_linked ?s" if "ta_transport ?s = ta_transport s \<or> ta_transport ?s = snd ?n"
      "ta_ref ?s = ta_ref s" "ta_pty ?s = ta_pty s"
    using that popped by (intro linked_by [OF linked]) auto
  show ?thesis
  proof (cases "require_ref r s = Inr () \<and> fst ?n = Inr (Some Term_done)")
    case False
    then show ?thesis
      by (intro no_done) (auto simp: next_human_event_def split: sum.split prod.split option.split term_event.split)
  next
    case True
    then obtain tr where tr: "?n = (Inr (Some Term_done), tr)" by (cases ?n) auto
    obtain q tr1 where q: "fence_human (rf_id r) (rf_epoch r) tr = (q, tr1)" by fastforce
    show ?thesis
    proof (cases q)
      case (Inl x)
      then have "tr1 = tr" using q by (auto simp: fence_human_def split: sum.splits)
      with Inl show ?thesis using True tr q by (intro no_done) (simp_all add: next_human_event_def)
    next
      case Inr
      then have "no_human tr1" using q fenced_no_human by simp
      moreover have "no_human (snd (release_completed i e tr1))" for i e
        using \<open>no_human tr1\<close> by (auto simp: release_completed_def no_human_def split: sum.splits)
      ultimately have "no_human (ta_transport ?s)"
        using True tr q Inr by (auto simp: next_human_event_def on_pty_def split: sum.split prod.split) (metis snd_conv)+
      then show ?thesis by (rule linkedI)
    qed
  qed
qed

lemma exit_linked: "handoff_linked s \<Longrightarrow> handoff_linked (snd (exit_terminal t s))"
proof -
  assume linked: "handoff_linked s"
  show ?thesis
  proof (cases "is_ok (fst (note_session_exit (ta_binding s) t (ta_pty s)))")
    case False
    then have "snd (note_session_exit (ta_binding s) t (ta_pty s)) = ta_pty s"
      by (auto simp: note_session_exit_def Let_def split: sum.splits)
    with False linked show ?thesis by (auto simp: exit_terminal_def on_pty_def split: sum.splits)
  next
    case True
    have "no_human (ta_transport (snd (exit_terminal t s)))"
    proof (cases "ta_ref s")
      case None
      then have "no_human (ta_transport s)" using linked by (intro not_held_no_human) (auto simp: human_held_def)
      then show ?thesis using None by (auto simp: exit_terminal_def on_pty_def split: sum.split)
    next
      case (Some p)
      then show ?thesis
        using True revoked_no_human [OF linked, of "fst p" "snd p"]
        by (cases p) (auto simp: exit_terminal_def on_pty_def split: sum.splits)
    qed
    then show ?thesis by (rule linkedI)
  qed
qed

lemma revoke_linked: "handoff_linked s \<Longrightarrow> handoff_linked (snd (revoke_terminal s))"
proof -
  assume linked: "handoff_linked s"
  show ?thesis
  proof (cases "ta_ref s")
    case None
    then show ?thesis using linked by (simp add: revoke_terminal_def)
  next
    case (Some p)
    obtain i e where p: "p = (i, e)" by fastforce
    let ?t = "ta_transport s"
    obtain q tr where q: "fence_human i e ?t = (q, tr)" by fastforce
    have fenced: "no_human tr" if "q = Inr ()" using q that fenced_no_human by simp
    have unfenced: "tr = ?t" if "q = Inl x" for x using q that by (auto simp: fence_human_def split: sum.splits)
    have again: "no_human (snd (transport_revoke_first i e tr))" if "no_human tr"
      using that no_human_hold same_hold_calls(3) by blast
    show ?thesis
    proof (cases "q = Inr () \<and> ps_status (pty_get_status (ta_pty s)) = Some Human_active
        \<and> ps_epoch (pty_get_status (ta_pty s)) = Some e")
      case True
      then show ?thesis
        using Some p q fenced again
        by (auto simp: revoke_terminal_def on_pty_def Let_def intro!: linkedI split: sum.split)
    next
      case False
      then show ?thesis
        using Some p q unfenced linked revoked_no_human [OF linked Some [unfolded p]]
        by (cases q) (auto simp: revoke_terminal_def Let_def intro!: linkedI split: if_splits)
    qed
  qed
qed

lemma linked_gate_call:
  assumes "handoff_linked s" and "ta_transport s' = ta_transport s" and "ta_ref s' = ta_ref s"
    and "ta_pty s' = ta_pty s \<or> ta_pty s' = pty_step (ta_pty s) c"
    and "\<forall>b i e t. c \<noteq> P_done b i e t" and "\<forall>b t. c \<noteq> P_exit b t"
  shows "handoff_linked s'"
  using assms by (intro linked_by [OF assms(1)]) auto

lemma handoff_linked_step:
  assumes "handoff_linked s"
  shows "handoff_linked (handoff_step parse coerce s c)"
proof (cases c)
  case (A_cancel_last i e)
  then show ?thesis
    by (intro linked_gate_call [OF assms, where c = "P_cancel (ta_binding s) i e"]) (simp_all add: cancel_terminal_last_def)
next
  case (A_push r data)
  let ?s = "snd (push_human_output r data s)"
  have "ta_transport ?s = ta_transport s \<or> ta_transport ?s = snd (push_output (rf_id r) (rf_epoch r) (b64_encode data) (ta_transport s))"
      "ta_ref ?s = ta_ref s" "ta_pty ?s = ta_pty s"
    by (auto simp: push_human_output_def split: sum.split prod.split)
  then show ?thesis
    using same_hold_calls(2) [of "ta_transport s"] unfolding A_push by (intro linked_by [OF assms]) auto
next
  case (A_disconnect r)
  then show ?thesis
    by (intro linked_gate_call [OF assms, where c = "P_disconnect (ta_binding s) (rf_id r) (rf_epoch r)"])
      (auto simp: note_terminal_disconnect_def on_pty_def split: sum.split prod.split)
next
  case (A_drained r)
  then show ?thesis
    by (intro linked_gate_call [OF assms, where c = "P_drained (ta_binding s) (rf_id r) (rf_epoch r)"])
      (auto simp: confirm_human_drain_def on_pty_def split: sum.split prod.split)
next
  case (A_report r ok t)
  then show ?thesis
    by (intro linked_gate_call [OF assms, where c = "P_report (ta_binding s) (rf_id r) (rf_epoch r) ok t"])
      (auto simp: report_terminal_def on_pty_def split: sum.split prod.split)
next
  case (A_resume r)
  then show ?thesis
    by (intro linked_gate_call [OF assms, where c = "P_resume (ta_binding s) (rf_id r) (rf_epoch r)"])
      (simp_all add: resume_terminal_def)
next
  case A_sync
  then show ?thesis
    by (intro linked_gate_call [OF assms, where c = "P_sync (ta_binding s)"]) (simp_all add: acknowledge_terminal_def)
qed (simp_all add: assms begin_linked cancel_linked claim_linked next_linked exit_linked revoke_linked env_linked)

lemma transport_pairs_good:
  assumes "transport_good t"
  shows "transport_start i e pb k t1 t2 t = (r, u) \<Longrightarrow> transport_good u"
    "activate_human i e t = (q, u) \<Longrightarrow> transport_good u" "push_output i e v t = (q', u) \<Longrightarrow> transport_good u"
    "release_completed i e t = (q', u) \<Longrightarrow> transport_good u"
  using transport_call_good [OF assms] by (metis snd_conv)+

lemma handoff_good_step [wf_intros]:
  assumes "handoff_good s"
  shows "handoff_good (handoff_step parse coerce s c)"
proof -
  have t: "transport_good (ta_transport s)" using assms by (simp add: handoff_good_def)
  have gate: "pty_good (ta_pty (handoff_step parse coerce s c))"
    using assms gate_run_good [OF gate_step [OF t]] by (simp add: handoff_good_def)
  have "transport_good (ta_transport (handoff_step parse coerce s c))"
  proof (cases c)
    case (A_env m)
    then show ?thesis using t transport_good_step by (simp del: term_step.simps)
  next
    case (A_begin i t' k t1 t2)
    then show ?thesis using t
      by (auto simp: begin_terminal_def Let_def on_pty_def dest: transport_pairs_good [OF t] split: sum.split prod.split)
  next
    case (A_claim r t')
    then show ?thesis using t
      by (auto simp: claim_terminal_def on_pty_def dest: transport_pairs_good [OF t] split: sum.split prod.split)
  next
    case (A_next r t')
    obtain q tr where n: "next_event (rf_id r) (rf_epoch r) (ta_transport s) = (q, tr)" by fastforce
    have tr: "transport_good tr" using transport_call_good(4) [OF t, of "rf_id r" "rf_epoch r"] n by simp
    obtain q1 tr1 where f: "fence_human (rf_id r) (rf_epoch r) tr = (q1, tr1)" by fastforce
    have tr1: "transport_good tr1" using transport_call_good(3) [OF tr, of "rf_id r" "rf_epoch r"] f by simp
    show ?thesis unfolding A_next using t tr tr1
      by (auto simp: next_human_event_def n f on_pty_def dest: transport_pairs_good [OF tr1]
          split: sum.split prod.split option.split term_event.split)
  next
    case (A_push r data)
    then show ?thesis using t
      by (auto simp: push_human_output_def dest: transport_pairs_good [OF t] split: sum.split prod.split)
  next
    case A_revoke
    obtain i e where "ta_ref s = Some (i, e) \<or> ta_ref s = None" by (cases "ta_ref s") auto
    moreover obtain q tr where f: "fence_human i e (ta_transport s) = (q, tr)" by fastforce
    moreover have "transport_good tr" using transport_call_good(3) [OF t, of i e] f by simp
    ultimately show ?thesis using t A_revoke
      by (auto simp: revoke_terminal_def on_pty_def Let_def split: sum.split)
  qed (use t in \<open>auto simp: cancel_terminal_first_def cancel_terminal_last_def note_terminal_disconnect_def
      confirm_human_drain_def report_terminal_def resume_terminal_def acknowledge_terminal_def exit_terminal_def
      on_pty_def Let_def split: sum.split prod.split option.split\<close>)
  with gate handoff_linked_step assms show ?thesis by (simp add: handoff_good_def del: handoff_step.simps)
qed

interpretation handoff: guarded_machine "handoff_step parse coerce" handoff_good for parse coerce
  by unfold_locales (rule handoff_good_step)

lemma new_adapter_good: "new_adapter b enabled origin ice cfg = Inr s \<Longrightarrow> handoff_good s"
  by (auto simp: new_adapter_def handoff_good_def pty_good_new transport_good_def handoff_linked_def new_transport_def
      split: sum.splits)

text \<open>A run of the adapter is a run of the gate, with the deeds it did.\<close>

lemma gate_run_trans: "gate_run s s' ds \<Longrightarrow> gate_run s' s'' es \<Longrightarrow> gate_run s s'' (ds @ es)"
proof -
  assume "gate_run s s' ds" "gate_run s' s'' es"
  then obtain cs cs' where "ta_pty s' = run pty_step (ta_pty s) cs" "begin_only_idle (ta_pty s) cs"
      "pty_effects (ta_pty s) cs = ds" "ta_pty s'' = run pty_step (ta_pty s') cs'" "begin_only_idle (ta_pty s') cs'"
      "pty_effects (ta_pty s') cs' = es"
    by (auto simp: gate_run_def)
  moreover have "begin_only_idle p (cs @ cs') \<longleftrightarrow> begin_only_idle p cs \<and> begin_only_idle (run pty_step p cs) cs'" for p
    by (induction cs arbitrary: p) simp_all
  moreover have "pty_effects p (cs @ cs') = pty_effects p cs @ pty_effects (run pty_step p cs) cs'" for p
    by (induction cs arbitrary: p) simp_all
  ultimately show ?thesis unfolding gate_run_def by (intro exI [of _ "cs @ cs'"]) simp
qed

lemma gate_run_run:
  "handoff_good s \<Longrightarrow> gate_run s (run (handoff_step parse coerce) s cs) (handoff_deeds parse coerce s cs)"
proof (induction cs arbitrary: s)
  case Nil
  then show ?case by (simp add: gate_run_none)
next
  case (Cons c cs)
  then have "gate_run s (handoff_step parse coerce s c) (handoff_deed s c)"
    by (intro gate_step) (simp add: handoff_good_def)
  moreover have "gate_run (handoff_step parse coerce s c) (run (handoff_step parse coerce) s (c # cs))
      (handoff_deeds parse coerce (handoff_step parse coerce s c) cs)"
    using Cons handoff_good_step [OF Cons.prems, of parse coerce c] by (simp del: handoff_step.simps)
  ultimately show ?case by (simp only: handoff_deeds.simps) (rule gate_run_trans)
qed

section \<open>A transport that was torn down\<close>

text \<open>The adapter refers to no transport and the human is in control, or the terminal has exited.\<close>

definition stranded :: "term_adapter \<Rightarrow> bool" where
  "stranded s \<longleftrightarrow> ta_ref s = None \<and> (\<not> pt_alive (ta_pty s)
     \<or> (\<exists>a. hs_active (pt_state (ta_pty s)) = Some a \<and> iv_status a = Human_active))"

lemma stranded_pty:
  assumes "stranded s" and "ta_ref s' = None" and "ta_pty s' = ta_pty s \<or> ta_pty s' = pty_step (ta_pty s) c"
    and "\<forall>b i e t. c \<noteq> P_done b i e t"
  shows "stranded s'"
proof (cases "\<exists>b t. c = P_exit b t \<and> pt_alive (ta_pty s) \<and> ta_pty s' \<noteq> ta_pty s")
  case True
  then obtain b t where c: "c = P_exit b t" "ta_pty s' = pty_step (ta_pty s) c" "ta_pty s' \<noteq> ta_pty s" using assms(3) by auto
  then have "\<not> pt_alive (ta_pty s')"
    by (auto simp: note_session_exit_def Let_def split: sum.splits if_splits option.splits)
  with assms(2) show ?thesis by (simp add: stranded_def)
next
  case False
  show ?thesis
  proof (cases "pt_alive (ta_pty s)")
    case dead: False
    then have "\<not> pt_alive (ta_pty s')" using assms(3) pty_dead_step by auto
    with assms(2) show ?thesis by (simp add: stranded_def)
  next
    case True
    then obtain a where a: "hs_active (pt_state (ta_pty s)) = Some a" "iv_status a = Human_active"
      using assms(1) by (auto simp: stranded_def)
    have "hs_active (pt_state (ta_pty s')) = Some a"
    proof (cases "ta_pty s' = ta_pty s")
      case same: False
      then have "\<forall>b t. c \<noteq> P_exit b t" using False True assms(3) by blast
      then show ?thesis using human_stays [OF a assms(4)] same assms(3) by auto
    qed (use a in simp)
    with a assms(2) show ?thesis by (auto simp: stranded_def)
  qed
qed

lemma stranded_step [wf_intros]:
  assumes "stranded s"
  shows "stranded (handoff_step parse coerce s c)"
proof -
  have ref: "ta_ref s = None" using assms by (simp add: stranded_def)
  then have refused: "require_ref r s = Inl TERMINAL_HANDOFF_INTERVENTION_STALE" for r by (simp add: require_ref_def)
  show ?thesis
  proof (cases c)
    case (A_begin i t k t1 t2)
    have "\<not> (ps_status (pty_get_status (ta_pty s)) = None \<and> ps_alive (pty_get_status (ta_pty s)))"
      using assms by (auto simp: stranded_def pty_get_status_def)
    then have "snd (begin_terminal i t k t1 t2 s) = s" by (auto simp: begin_terminal_def Let_def)
    with A_begin assms show ?thesis by simp
  next
    case (A_cancel_last i e)
    then show ?thesis using ref
      by (intro stranded_pty [OF assms, where c = "P_cancel (ta_binding s) i e"]) (simp_all add: cancel_terminal_last_def)
  next
    case (A_drained r)
    then show ?thesis using ref
      by (intro stranded_pty [OF assms, where c = "P_drained (ta_binding s) (rf_id r) (rf_epoch r)"])
        (auto simp: confirm_human_drain_def on_pty_def split: sum.split prod.split)
  next
    case (A_report r ok t)
    then show ?thesis using ref
      by (intro stranded_pty [OF assms, where c = "P_report (ta_binding s) (rf_id r) (rf_epoch r) ok t"])
        (auto simp: report_terminal_def on_pty_def split: sum.split prod.split)
  next
    case (A_resume r)
    then show ?thesis using ref
      by (intro stranded_pty [OF assms, where c = "P_resume (ta_binding s) (rf_id r) (rf_epoch r)"])
        (simp_all add: resume_terminal_def)
  next
    case A_sync
    then show ?thesis using ref
      by (intro stranded_pty [OF assms, where c = "P_sync (ta_binding s)"]) (simp_all add: acknowledge_terminal_def)
  next
    case (A_exit t)
    then show ?thesis using ref
      by (intro stranded_pty [OF assms, where c = "P_exit (ta_binding s) t"])
        (auto simp: exit_terminal_def on_pty_def split: sum.split prod.split option.split)
  qed (use assms ref refused in \<open>simp_all add: cancel_terminal_first_def claim_terminal_def terminal_transport_status_def
      next_human_event_def push_human_output_def note_terminal_disconnect_def revoke_terminal_def stranded_def\<close>)
qed

interpretation stranded: guarded_machine "handoff_step parse coerce" stranded for parse coerce
  by unfold_locales (rule stranded_step)

section \<open>The summary\<close>

lemma terminal_health_words:
  "fst (terminal_health s) \<in> set health_names"
  "snd (terminal_health s) = None \<or> (\<exists>f. snd (terminal_health s) = Some f \<and> f \<in> set failure_names)"
  by (auto simp: terminal_health_def Let_def vocabularies)

lemma authority_phase_words: "authority_name a \<in> set authority_names" "phase_name p \<in> set phase_names"
  by (cases a; simp add: vocabularies) (cases p; simp add: vocabularies)

lemma small_counter: "n \<le> 64 \<Longrightarrow> bounded_integer 64 (JNum (Fin (of_nat n)))"
proof -
  have "bounded_integer 64 (jint k)" if "0 \<le> k" "k \<le> 64" for k
    using that by (simp add: bounded_integer_def safe_int_def max_safe_integer_def)
  from this [of "int n"] show "n \<le> 64 \<Longrightarrow> bounded_integer 64 (JNum (Fin (of_nat n)))" by simp
qed

lemma diagnostics_parse:
  assumes "\<And>m. st_transport s = Some m \<Longrightarrow> sm_queued m \<le> 64"
  shows "\<exists>d. terminal_diagnostics s = Some d"
proof -
  define h where "h = fst (terminal_health s)"
  define f where "f = snd (terminal_health s)"
  define a where "a = authority_name (ps_authority (st_pty s))"
  define p where "p = map_option phase_name (ps_status (st_pty s))"
  have words: "h \<in> set health_names" "f = None \<or> (\<exists>x. f = Some x \<and> x \<in> set failure_names)" "a \<in> set authority_names"
      "p = None \<or> (\<exists>x. p = Some x \<and> x \<in> set phase_names)"
    unfolding h_def f_def a_def p_def
    using terminal_health_words authority_phase_words by (auto simp: option.map_comp) (metis not_None_eq option.map_disc_iff)
  have p': "map_option (\<lambda>x. JStr (phase_name x)) (ps_status (st_pty s)) = map_option JStr p"
    by (simp add: p_def option.map_comp comp_def)
  define x where "x = (case st_transport s of None \<Rightarrow> JNull | Some m \<Rightarrow> JObj [(''namespace'', JStr ''terminal_webrtc''),
          (''ready'', JBool (sm_ready m)), (''disconnected'', JBool (sm_disconnected m)),
          (''completed'', JBool (sm_completed m)), (''faulted'', JBool (sm_faulted m)),
          (''queuedEvents'', jint (int (sm_queued m)))])"
  have x: "\<exists>y. parse_terminal_transport x = Some y"
    using assms
    by (cases "st_transport s")
      (simp_all add: x_def parse_terminal_transport_def terminal_keys_def keys_within_def object_keys_def is_boolean_def
        small_counter)
  define y where "y = JObj [(''namespace'', JStr ''terminal_session''), (''alive'', JBool (ps_alive (st_pty s))),
          (''humanDisconnected'', JBool (ps_disconnected (st_pty s))), (''synchronizationRequired'', JBool (ps_sync_required (st_pty s)))]"
  have y: "\<exists>z. parse_terminal_session y = Some z"
    by (simp add: y_def parse_terminal_session_def terminal_session_keys_def keys_within_def object_keys_def is_boolean_def)
  show ?thesis
    unfolding terminal_diagnostics_def Let_def h_def [symmetric] f_def [symmetric] a_def [symmetric] p' x_def [symmetric] y_def [symmetric]
    using words x y
    by (cases p; cases f)
      (auto simp: parse_diagnostics_def one_of_def absent_or_def keys_within_def object_keys_def split: option.split)
qed

end
