(* ===== verification/Terminal_Takeover.thy ===== *)
theory Terminal_Takeover
  imports Terminal_Handoff
begin

text \<open>
  What the adapter of \<open>Terminal_Handoff\<close> guarantees about its gate and its transport together, over every
  run from a new adapter: whatever is called, and whatever the peers, timers and continuations do in between.
\<close>

section \<open>Reachable adapters\<close>

lemma reached_good:
  "new_adapter b enabled origin ice cfg = Inr s\<^sub>0 \<Longrightarrow> handoff_good (run (handoff_step parse coerce) s\<^sub>0 cs)"
  using handoff.good_run new_adapter_good by blast

lemmas reached_parts = reached_good [unfolded handoff_good_def, THEN conjunct1]
  reached_good [unfolded handoff_good_def, THEN conjunct2, THEN conjunct1]
  reached_good [unfolded handoff_good_def, THEN conjunct2, THEN conjunct2]

text \<open>No call of the adapter makes the queue of a session longer.\<close>

definition no_longer :: "transport \<Rightarrow> transport \<Rightarrow> bool" where
  "no_longer t u \<longleftrightarrow> (\<forall>x'. tt_current u = Some x' \<longrightarrow> tn_queue x' = []
     \<or> (\<exists>x. tt_current t = Some x \<and> length (tn_queue x') \<le> length (tn_queue x)))"

lemma no_longer_refl [simp]: "no_longer t t"
  by (auto simp: no_longer_def)

lemma no_longer_trans: "no_longer t u \<Longrightarrow> no_longer u v \<Longrightarrow> no_longer t v"
  by (fastforce simp: no_longer_def)

lemma send_output_current: "send_output k g v t = (r, u) \<Longrightarrow> tt_current u = tt_current t"
  using runtime_keeps_session(10) [of k g v t] by simp

lemma no_longer_calls:
  "transport_start i e pb k t1 t2 t = (r1, u) \<Longrightarrow> no_longer t u" "activate_human i e t = (r2, u) \<Longrightarrow> no_longer t u"
  "fence_human i e t = (r2, u) \<Longrightarrow> no_longer t u" "next_event i e t = (r3, u) \<Longrightarrow> no_longer t u"
  "push_output i e v t = (r2, u) \<Longrightarrow> no_longer t u" "release_completed i e t = (r2, u) \<Longrightarrow> no_longer t u"
  "no_longer t (snd (transport_revoke_first i e t))"
  by (auto simp: no_longer_def transport_start_def activate_human_def fence_human_def next_event_def push_output_def
      release_completed_def transport_revoke_first_def require_term_def dest!: runtime_activate_current send_output_current
      split: prod.splits option.splits sum.splits list.splits if_splits)

lemma revoked_no_longer: "no_longer t u \<Longrightarrow> no_longer t (snd (transport_revoke_first i e u))"
  using no_longer_calls(7) no_longer_trans by blast

lemma next_no_longer: "no_longer (ta_transport s) (ta_transport (snd (next_human_event r t s)))"
proof -
  let ?T = "ta_transport s"
  obtain q u where n: "next_event (rf_id r) (rf_epoch r) ?T = (q, u)" by fastforce
  obtain q1 u1 where f: "fence_human (rf_id r) (rf_epoch r) u = (q1, u1)" by fastforce
  obtain q2 u2 where c: "release_completed (rf_id r) (rf_epoch r) u1 = (q2, u2)" by fastforce
  have u: "no_longer ?T u" using n by (rule no_longer_calls(4))
  then have u1: "no_longer ?T u1" using no_longer_calls(3) [OF f] no_longer_trans by blast
  then have u2: "no_longer ?T u2" using no_longer_calls(6) [OF c] no_longer_trans by blast
  have "ta_transport (snd (next_human_event r t s)) \<in> {?T, u, u1, u2}"
    by (auto simp: next_human_event_def n f on_pty_def c split: sum.split prod.split option.split term_event.split)
  then show ?thesis using u u1 u2 by auto
qed

lemma adapter_no_longer:
  assumes "\<And>m. c \<noteq> A_env m"
  shows "no_longer (ta_transport s) (ta_transport (handoff_step parse coerce s c))"
proof (cases c)
  case (A_next r t)
  then show ?thesis by (simp add: next_no_longer)
next
  case A_revoke
  show ?thesis
  proof (cases "ta_ref s")
    case (Some p)
    obtain q u where "fence_human (fst p) (snd p) (ta_transport s) = (q, u)" by fastforce
    with A_revoke Some no_longer_calls(3) [OF this] show ?thesis
      by (cases p) (auto simp: revoke_terminal_def on_pty_def Let_def revoked_no_longer split: sum.split)
  qed (simp add: A_revoke revoke_terminal_def)
qed (use assms no_longer_calls in \<open>auto simp: begin_terminal_def cancel_terminal_first_def cancel_terminal_last_def claim_terminal_def
    push_human_output_def note_terminal_disconnect_def confirm_human_drain_def report_terminal_def resume_terminal_def
    acknowledge_terminal_def exit_terminal_def on_pty_def Let_def split: sum.split prod.split option.split\<close>)

lemma done_fenced:
  assumes "done_fence b i e t p = (Inr a, p')" and "pty_good p"
  shows "iv_epoch a = e + 1 \<and> iv_status a = Verifying \<and> \<not> pt_drained p' \<and> hs_active (pt_state p') = Some a"
proof -
  from assms(1) obtain c where c: "require_intervention i e Human_active p = Inr c"
    by (auto simp: done_fence_def split: sum.splits)
  then have "hs_epoch (pt_state p) = e" using assms(2) by (auto simp: pty_good_def guard_simps)
  with assms(1) c show ?thesis
    by (auto simp: done_fence_def on_lifecycle_def lifecycle_ops Let_def split: sum.splits option.splits if_splits)
qed

lemma decode_base64_value: "decode_base64 v n = Some bytes \<Longrightarrow> b64_decode v = bytes"
  by (auto simp: decode_base64_def Let_def split: if_splits)

lemma fitting_output:
  assumes "\<forall>v \<in> set data. v < 256"
  shows "max_channel_bytes < utf8_length (output_payload (b64_encode data)) \<longleftrightarrow> 6117 < length data"
proof -
  have "b64_shape (b64_encode data)" using assms b64_encode_decode by (simp add: list_all_iff)
  then have "utf8_length (output_payload (b64_encode data)) = (length data + 2) div 3 * 4 + 33"
    by (simp add: output_payload_length b64_encode_length)
  moreover have "8192 < (n + 2) div 3 * 4 + 33 \<longleftrightarrow> 6117 < n" for n :: nat by presburger
  ultimately show ?thesis by (simp add: max_channel_bytes_def)
qed

section \<open>Properties\<close>

text \<open>A terminal of one principal, brought to the human's control through every step of the transport.\<close>

definition sample_term_binding :: pty_binding where
  "sample_term_binding = \<lparr>pb_session = ''pty-1'', pb_generation = Fin 1, pb_principal = replicate 64 CHR ''a''\<rparr>"

definition sample_term_config :: takeover_config where
  "sample_term_config = \<lparr>tc_ttl = 60000, tc_idle = 5000, tc_grace = 60000\<rparr>"

definition sample_term_pty :: pty where
  "sample_term_pty = \<lparr>pt_session = sample_term_binding, pt_state = initial_handoff, pt_alive = True, pt_disconnected = False,
     pt_sync_required = False, pt_drained = True\<rparr>"

definition sample_adapter :: term_adapter where
  "sample_adapter = \<lparr>ta_binding = sample_term_binding, ta_pty = sample_term_pty,
     ta_transport = new_transport True (Some ''https://handoff.example'') False sample_term_config, ta_ref = None\<rparr>"

lemma sample_term_binding_normal: "normalize_pty_binding sample_term_binding = Inr sample_term_binding"
  by (simp add: normalize_pty_binding_def sample_term_binding_def trim_def is_space_def is_session_char_def is_alnum_def
      is_line_break_def char_code_def numeral_eq_Suc)

lemma sample_adapter_new:
  "new_adapter sample_term_binding True (Some ''https://handoff.example'') False sample_term_config = Inr sample_adapter"
proof -
  have "normalize_adapter_binding sample_term_binding = Inr sample_term_binding"
    by (simp add: normalize_adapter_binding_def sample_term_binding_def trim_def is_space_def is_session_char_def is_alnum_def
        is_lower_hex_def char_code_def numeral_eq_Suc)
  then show ?thesis
    by (simp add: new_adapter_def new_pty_def sample_term_binding_normal sample_adapter_def sample_term_pty_def)
qed

definition sample_peer :: term_binding where
  "sample_peer = \<lparr>tb_id = ''takeover-1'', tb_intervention = ''i1'', tb_epoch = 1, tb_principal = replicate 64 CHR ''a'',
     tb_client = replicate 32 CHR ''c'', tb_generation = 1, tb_expires = 60010\<rparr>"

definition sample_term_session :: term_session where
  "sample_term_session = \<lparr>tn_serial = 0, tn_id = ''takeover-1'', tn_intervention = ''i1'', tn_epoch = 1,
     tn_principal = replicate 64 CHR ''a'', tn_human = False, tn_disconnected = False, tn_completed = False,
     tn_faulted = False, tn_queue = [], tn_queued = 0, tn_generation = None\<rparr>"

definition sample_term_ref :: "int \<Rightarrow> term_ref" where
  "sample_term_ref e = \<lparr>rf_id = ''i1'', rf_epoch = e, rf_status = Awaiting_human\<rparr>"

text \<open>The messages of this page: Done, and one byte of input.\<close>

definition sample_parse :: "string \<Rightarrow> jsval option" where
  "sample_parse m = (if m = ''done'' then Some (JObj [(''kind'', JStr ''done'')])
     else if m = ''key'' then Some (JObj [(''kind'', JStr ''input''), (''dataBase64'', JStr ''YQ=='')]) else None)"

definition sample_coerce :: "jsval \<Rightarrow> jsnum" where
  "sample_coerce v = (case v of JNum n \<Rightarrow> n | _ \<Rightarrow> NaN)"

definition sample_opening :: "handoff_move list" where
  "sample_opening = [A_begin ''i1'' 5 ''takeover-1'' 10 10, A_env (S_prepared sample_peer),
     A_env (S_runtime sample_peer sample_term_session), A_env (S_offered 0 ''terminal-control'' []),
     A_env (S_channel 0 Chan_open), A_claim (sample_term_ref 1) 6]"

abbreviation sample_handoff_step :: "term_adapter \<Rightarrow> handoff_move \<Rightarrow> term_adapter" where
  "sample_handoff_step \<equiv> handoff_step sample_parse sample_coerce"

lemma sample_session_ok [simp]: "pt_session p = sample_term_binding \<Longrightarrow> session_ok sample_term_binding p"
  by (simp add: session_ok_def require_session_def sample_term_binding_normal) (simp add: sample_term_binding_def)

lemma sample_principal [simp]: "pb_principal sample_term_binding = replicate 64 CHR ''a''"
  by (simp add: sample_term_binding_def)

definition sample_iv :: "intervention_status \<Rightarrow> execution_authority \<Rightarrow> int \<Rightarrow> int \<Rightarrow> pty_intervention" where
  "sample_iv st auth e t = \<lparr>iv_id = ''i1'', iv_reason = ''terminal_pty'', iv_status = st, iv_authority = auth, iv_epoch = e,
     iv_action = None, iv_policy = Never_replay, iv_created = 5, iv_updated = t\<rparr>"

definition sample_gate :: "int \<Rightarrow> pty_intervention option \<Rightarrow> bool \<Rightarrow> bool \<Rightarrow> pty" where
  "sample_gate e a sync drained = \<lparr>pt_session = sample_term_binding, pt_state = \<lparr>hs_epoch = e, hs_active = a\<rparr>,
     pt_alive = True, pt_disconnected = False, pt_sync_required = sync, pt_drained = drained\<rparr>"

definition sample_term_takeover :: takeover where
  "sample_term_takeover = fresh_takeover sample_term_config ''takeover-1'' ''i1'' 1 (replicate 64 CHR ''a'') 10"

definition sample_wire :: "bool \<Rightarrow> nat \<Rightarrow> term_session option \<Rightarrow> term_runtime list \<Rightarrow> string list \<Rightarrow> transport" where
  "sample_wire gone n x rs out = \<lparr>tt_enabled = True, tt_origin = Some ''https://handoff.example'', tt_ice = False,
     tt_config = sample_term_config, tt_takeovers = (if n = 0 then [] else [(''takeover-1'', sample_term_takeover\<lparr>tk_revoked := gone\<rparr>)]),
     tt_current = x, tt_next = n, tt_prepared = Map.empty, tt_runtimes = rs,
     tt_active = (if rs = [] then Map.empty else [''takeover-1'' \<mapsto> 0]),
     tt_out = map (\<lambda>m. (0, State_notice m)) out, tt_buffered = Fin 0\<rparr>"

definition sample_runtime :: "channel_state option \<Rightarrow> bool \<Rightarrow> term_runtime" where
  "sample_runtime ch inp = \<lparr>tr_binding = sample_peer, tr_session = sample_term_session, tr_channel = ch, tr_input = inp,
     tr_closing = False\<rparr>"

definition sample_state :: "pty \<Rightarrow> transport \<Rightarrow> bool \<Rightarrow> term_adapter" where
  "sample_state p t held = \<lparr>ta_binding = sample_term_binding, ta_pty = p, ta_transport = t,
     ta_ref = (if held then Some (''i1'', 1) else None)\<rparr>"

lemmas sample_states = sample_iv_def sample_gate_def sample_wire_def sample_runtime_def sample_state_def

lemma sample_adapter_state: "sample_adapter = sample_state (sample_gate 0 None False True) (sample_wire False 0 None [] []) False"
  by (simp add: sample_adapter_def sample_states sample_term_pty_def initial_handoff_def new_transport_def)

lemma sample_begins:
  "sample_handoff_step sample_adapter (A_begin ''i1'' 5 ''takeover-1'' 10 10)
     = sample_state (sample_gate 1 (Some (sample_iv Awaiting_human None_authority 1 5)) False True)
         (sample_wire False 1 (Some sample_term_session) [] []) True"
proof -
  have "begin_fence sample_term_binding ''i1'' 5 (sample_gate 0 None False True)
     = (Inr (sample_iv Awaiting_human None_authority 1 5),
        sample_gate 1 (Some (sample_iv Awaiting_human None_authority 1 5)) False True)"
    by (simp add: sample_states pty_ops lifecycle_ops Let_def)
  moreover have "transport_start ''i1'' 1 (replicate 64 CHR ''a'') ''takeover-1'' 10 10 (sample_wire False 0 None [] [])
     = (Inr ''/takeover/terminal/takeover-1'', sample_wire False 1 (Some sample_term_session) [] [])"
    by (simp add: transport_start_def sample_wire_def sample_term_takeover_def valid_term_intervention_def url_text_def
        is_url_char_def is_alnum_def valid_term_principal_def is_lower_hex_def char_code_def ensure_takeover_def
        prune_expired_def fresh_takeover_def locator_of_def sample_term_session_def numeral_eq_Suc)
  moreover have "pty_get_status (sample_gate 0 None False True) = \<lparr>ps_authority = Agent, ps_status = None, ps_epoch = None,
      ps_generation = Fin 1, ps_alive = True, ps_disconnected = False, ps_sync_required = False\<rparr>"
    by (simp add: pty_get_status_def sample_gate_def effective_authority_def get_authority_def sample_term_binding_def)
  ultimately show ?thesis
    by (simp add: sample_adapter_state sample_state_def begin_terminal_def on_pty_def Let_def)
      (simp add: sample_iv_def)
qed

lemma sample_joins:
  "run sample_handoff_step (sample_state p (sample_wire False 1 (Some sample_term_session) [] []) True)
     [A_env (S_prepared sample_peer), A_env (S_runtime sample_peer sample_term_session),
      A_env (S_offered 0 ''terminal-control'' []), A_env (S_channel 0 Chan_open)]
   = sample_state p (sample_wire False 1 (Some (sample_term_session\<lparr>tn_generation := Some 1\<rparr>))
       [sample_runtime (Some Chan_open) False] [''connected'']) True"
  by (simp add: sample_states store_prepared_def start_runtime_def channel_offered_def channel_changed_def on_ready_def
      update_runtime_def send_state_def update_session_def Let_def)
    (simp add: sample_peer_def sample_term_session_def)

definition sample_control :: term_adapter where
  "sample_control = sample_state (sample_gate 1 (Some (sample_iv Human_active Human 1 6)) False True)
     (sample_wire False 1 (Some (sample_term_session\<lparr>tn_generation := Some 1, tn_human := True\<rparr>))
       [sample_runtime (Some Chan_open) True] [''connected'', ''human_active'']) True"

lemma sample_claims:
  "sample_handoff_step (sample_state (sample_gate 1 (Some (sample_iv Awaiting_human None_authority 1 5)) False True)
     (sample_wire False 1 (Some (sample_term_session\<lparr>tn_generation := Some 1\<rparr>))
       [sample_runtime (Some Chan_open) False] [''connected'']) True) (A_claim (sample_term_ref 1) 6) = sample_control"
proof -
  let ?p = "sample_gate 1 (Some (sample_iv Awaiting_human None_authority 1 5)) False True"
  let ?t = "sample_wire False 1 (Some (sample_term_session\<lparr>tn_generation := Some 1\<rparr>))
       [sample_runtime (Some Chan_open) False] [''connected'']"
  have "claim_after_drain sample_term_binding ''i1'' 1 6 ?p
     = (Inr (sample_iv Human_active Human 1 6), sample_gate 1 (Some (sample_iv Human_active Human 1 6)) False True)"
    by (simp add: sample_states pty_ops lifecycle_ops require_intervention_def Let_def)
  moreover have "transport_status ''i1'' 1 ?t = Inr \<lparr>ts_ready = True, ts_human = False, ts_disconnected = False,
      ts_completed = False, ts_faulted = False, ts_generation = Some 1, ts_queued = 0\<rparr>"
    by (simp add: transport_status_def require_term_def sample_wire_def sample_term_session_def)
  moreover have "activate_human ''i1'' 1 ?t = (Inr (), sample_wire False 1
      (Some (sample_term_session\<lparr>tn_generation := Some 1, tn_human := True\<rparr>))
       [sample_runtime (Some Chan_open) True] [''connected'', ''human_active''])"
    by (simp add: activate_human_def require_term_def runtime_activate_def require_generation_def send_state_def
        update_runtime_def update_session_def sample_wire_def sample_runtime_def)
      (simp add: sample_term_session_def sample_peer_def)
  ultimately show ?thesis
    by (simp add: claim_terminal_def terminal_transport_status_def require_ref_def sample_term_ref_def sample_state_def
        bounded_status_def on_pty_def sample_control_def)
qed

lemma sample_control_reached: "run sample_handoff_step sample_adapter sample_opening = sample_control"
  using sample_joins [of "sample_gate 1 (Some (sample_iv Awaiting_human None_authority 1 5)) False True"]
  by (simp add: sample_opening_def sample_begins sample_claims del: handoff_step.simps One_nat_def)

text \<open>What follows when the page says Done.\<close>

definition sample_done_session :: term_session where
  "sample_done_session = sample_term_session\<lparr>tn_generation := Some 1, tn_completed := True, tn_queue := [Term_done], tn_queued := 16\<rparr>"

definition sample_fenced :: term_adapter where
  "sample_fenced = sample_state (sample_gate 1 (Some (sample_iv Human_active Human 1 6)) False True)
     (sample_wire True 1 (Some sample_done_session) [sample_runtime (Some Chan_open) False]
       [''connected'', ''human_active'', ''fenced'']) True"

definition sample_ended :: "(unit, string) intervention option \<Rightarrow> bool \<Rightarrow> bool \<Rightarrow> term_adapter" where
  "sample_ended a sync drained = sample_state (sample_gate 2 a sync drained)
     (sample_wire True 1 None [sample_runtime (Some Chan_open) False]
       [''connected'', ''human_active'', ''fenced'', ''fenced'']) False"

lemma sample_says_done: "sample_handoff_step sample_control (A_env (S_message 0 ''done'')) = sample_fenced"
proof -
  have "utf8_length ''done'' = 4" by (simp add: utf8_length_def utf8_def utf8_char_def char_code_def)
  moreover have "sample_parse ''done'' = Some (JObj [(''kind'', JStr ''done'')])" by (simp add: sample_parse_def)
  moreover have "parse_terminal_event sample_coerce (JObj [(''kind'', JStr ''done'')]) = Inr (Some Term_done)"
    by (simp add: parse_terminal_event_def sample_coerce_def object_keys_def num_safe_integer_def Let_def)
  ultimately show ?thesis
    by (simp add: sample_control_def sample_fenced_def sample_state_def sample_wire_def sample_runtime_def channel_message_def
        accept_message_def accept_event_def runtime_fence_def send_state_def update_runtime_def update_session_def
        revoke_prepared_def sample_done_session_def Let_def max_channel_bytes_def max_queue_items_def max_queue_bytes_def)
      (simp add: sample_term_session_def sample_peer_def sample_term_takeover_def fresh_takeover_def revoke_takeover_def)
qed

definition sample_verifying :: pty_intervention where
  "sample_verifying = sample_iv Verifying None_authority 2 7"

lemma sample_gives_done:
  "next_human_event (sample_term_ref 1) 7 sample_fenced
     = (Inr (Some (Human_done (public_ref sample_verifying))), sample_ended (Some sample_verifying) True False)"
proof -
  let ?t = "ta_transport sample_fenced"
  have "done_fence sample_term_binding ''i1'' 1 7 (sample_gate 1 (Some (sample_iv Human_active Human 1 6)) False True)
     = (Inr sample_verifying, sample_gate 2 (Some sample_verifying) True False)"
    by (simp add: sample_states sample_verifying_def pty_ops lifecycle_ops require_intervention_def Let_def)
  moreover have "next_event ''i1'' 1 ?t = (Inr (Some Term_done), ?t\<lparr>tt_current := Some
      (sample_done_session\<lparr>tn_queue := [], tn_queued := 0\<rparr>)\<rparr>)"
    by (simp add: next_event_def require_term_def sample_fenced_def sample_state_def sample_wire_def)
      (simp add: sample_done_session_def sample_term_session_def update_session_def)
  ultimately show ?thesis
    by (simp add: next_human_event_def require_ref_def sample_term_ref_def sample_fenced_def sample_state_def on_pty_def
        fence_human_def require_term_def release_completed_def runtime_fence_def send_state_def update_runtime_def
        update_session_def sample_wire_def sample_runtime_def sample_ended_def)
      (simp add: sample_done_session_def sample_term_session_def)
qed

definition sample_terminal_return :: "handoff_move list" where
  "sample_terminal_return = [A_env (S_message 0 ''done''), A_next (sample_term_ref 1) 7, A_drained (sample_term_ref 2),
     A_report (sample_term_ref 2) True 9, A_resume (sample_term_ref 2), A_sync]"

lemma sample_after_done:
  "confirm_human_drain (sample_term_ref 2) (sample_ended (Some sample_verifying) True False)
     = (Inr (public_ref sample_verifying), sample_ended (Some sample_verifying) True True)"
  "report_terminal (sample_term_ref 2) True 9 (sample_ended (Some sample_verifying) True True)
     = (Inr (public_ref (sample_iv Ready_to_resume None_authority 2 9)),
        sample_ended (Some (sample_iv Ready_to_resume None_authority 2 9)) True True)"
  "is_ok (fst (resume_terminal (sample_term_ref 2) (sample_ended (Some (sample_iv Ready_to_resume None_authority 2 9)) True True)))"
  "snd (resume_terminal (sample_term_ref 2) (sample_ended (Some (sample_iv Ready_to_resume None_authority 2 9)) True True))
     = sample_ended None True True"
  "acknowledge_terminal (sample_ended None True True) = (Inr (), sample_ended None False True)"
  by (simp_all add: confirm_human_drain_def report_terminal_def resume_terminal_def acknowledge_terminal_def on_pty_def
      sample_ended_def sample_verifying_def sample_term_ref_def sample_states pty_ops lifecycle_ops require_intervention_def
      get_authority_def Let_def)

lemma sample_terminal_returned:
  "run sample_handoff_step sample_control sample_terminal_return = sample_ended None False True"
  "handoff_deeds sample_parse sample_coerce sample_control sample_terminal_return = [D_done, D_drained, D_verified, D_resumed, D_synced]"
  by (simp_all add: sample_terminal_return_def sample_says_done sample_gives_done sample_after_done
      del: handoff_step.simps(14))

text \<open>C2. The agent gets the terminal back in order only. Once a human was in control of the terminal, the agent's input
  is accepted again only after, in this order, the human's Done came out of the transport and fenced the terminal,
  the consumer confirmed that the human's writes were drained, a verification succeeded, the agent resumed and it
  acknowledged that its view was synchronised: whatever is called on the adapter with whatever references, and
  whatever peers, timers and continuations do in between.\<close>

theorem terminal_handback_in_order:
  assumes "new_adapter b enabled origin ice cfg = Inr s\<^sub>0" and "s = run (handoff_step parse coerce) s\<^sub>0 cs"
    and "hs_active (pt_state (ta_pty s)) = Some a" and "iv_status a = Human_active"
    and "adapter_agent_input (run (handoff_step parse coerce) s ds) = Inr ()"
  shows "subseq [D_done, D_drained, D_verified, D_resumed, D_synced] (handoff_deeds parse coerce s ds)"
proof -
  let ?s = "run (handoff_step parse coerce) s ds"
  have good: "handoff_good s" using reached_good [OF assms(1)] assms(2) by simp
  from gate_run_run [OF this] obtain ps where "ta_pty ?s = run pty_step (ta_pty s) ps" "begin_only_idle (ta_pty s) ps"
      "pty_effects (ta_pty s) ps = handoff_deeds parse coerce s ds"
    unfolding gate_run_def by blast
  moreover have "pt_alive (ta_pty ?s)" "pty_owed (ta_pty ?s) = []"
    using assms(5) agent_input_owes_nothing by (auto simp: adapter_agent_input_def)
  ultimately have "subseq (pty_owed (ta_pty s)) (handoff_deeds parse coerce s ds)"
    using pty_owed_run [of "ta_pty s" ps] good by (simp add: handoff_good_def)
  then show ?thesis using assms(3,4) by (simp add: pty_owed_def)
qed

theorem terminal_handback_in_order_witness:
  "adapter_agent_input (run sample_handoff_step sample_control sample_terminal_return) = Inr ()
   \<and> subseq [D_done, D_drained, D_verified, D_resumed, D_synced] (handoff_deeds sample_parse sample_coerce sample_control sample_terminal_return)"
proof -
  have ok: "adapter_agent_input (run sample_handoff_step sample_control sample_terminal_return) = Inr ()"
    by (simp add: sample_terminal_returned adapter_agent_input_def guard_simps sample_ended_def sample_states)
  from terminal_handback_in_order [OF sample_adapter_new sample_control_reached [symmetric] _ _ ok] ok
  show ?thesis by (simp add: sample_control_def sample_states)
qed

text \<open>C3. Only the human in control is heard. When any step whatsoever makes the queue of human events longer, the step is
  a message on the channel of a runtime that has its input enabled, is not closing and has the session's own client
  generation; the message is at most 8 KiB; exactly one event is added, at the end; and at that moment the gate holds
  this intervention and epoch in the human's control and refuses the agent's input to every binding.\<close>

theorem terminal_hears_only_the_human:
  assumes "new_adapter b enabled origin ice cfg = Inr s\<^sub>0" and "s = run (handoff_step parse coerce) s\<^sub>0 cs"
    and "tt_current (ta_transport s) = Some x" and "tt_current (ta_transport (handoff_step parse coerce s c)) = Some x'"
    and "length (tn_queue x) < length (tn_queue x')"
  shows "human_held (tn_intervention x) (tn_epoch x) s \<and> assert_agent_input b' (ta_pty s) \<noteq> Inr ()
     \<and> (\<exists>ref msg ev. c = A_env (S_message ref msg) \<and> utf8_length msg \<le> max_channel_bytes \<and> tn_queue x' = tn_queue x @ [ev]
         \<and> tr_input (tt_runtimes (ta_transport s) ! ref) \<and> \<not> tr_closing (tt_runtimes (ta_transport s) ! ref)
         \<and> tn_generation x = Some (tb_generation (tr_binding (tt_runtimes (ta_transport s) ! ref))))"
proof -
  have linked: "handoff_linked s" using reached_parts(3) [OF assms(1)] assms(2) by simp
  obtain m where c: "c = A_env m"
    using adapter_no_longer [of c s parse coerce] assms(3-5) by (cases c) (auto simp: no_longer_def)
  with assms(3-5) have m: "tt_current (term_step parse coerce (ta_transport s) m) = Some x'"
    by (auto split: if_splits)
  then obtain ref msg where msg: "m = S_message ref msg"
    using only_messages_fill [OF assms(3) m] assms(5) by (cases m) auto
  then have heard: "tr_input (tt_runtimes (ta_transport s) ! ref) \<and> \<not> tr_closing (tt_runtimes (ta_transport s) ! ref)
      \<and> tn_human x \<and> tn_generation x = Some (tb_generation (tr_binding (tt_runtimes (ta_transport s) ! ref)))
      \<and> utf8_length msg \<le> max_channel_bytes \<and> (\<exists>ev. tn_queue x' = tn_queue x @ [ev])"
    using message_fills [OF assms(3) _ assms(5) refl, of parse coerce ref msg] m by auto
  then have held: "human_held (tn_intervention x) (tn_epoch x) s" using linked assms(3) by (simp add: handoff_linked_def)
  then have "assert_agent_input b' (ta_pty s) \<noteq> Inr ()" by (auto simp: human_held_def guard_simps)
  with held heard c msg show ?thesis by blast
qed

theorem terminal_hears_only_the_human_witness:
  "human_held ''i1'' 1 sample_control \<and> assert_agent_input sample_term_binding (ta_pty sample_control) \<noteq> Inr ()"
proof -
  have s: "tt_current (ta_transport sample_control) = Some (sample_term_session\<lparr>tn_generation := Some 1, tn_human := True\<rparr>)"
    by (simp add: sample_control_def sample_state_def sample_wire_def)
  have s': "tt_current (ta_transport (sample_handoff_step sample_control (A_env (S_message 0 ''done'')))) = Some sample_done_session"
    unfolding sample_says_done by (simp add: sample_fenced_def sample_state_def sample_wire_def)
  show ?thesis
    using terminal_hears_only_the_human [OF sample_adapter_new sample_control_reached [symmetric] s s']
    by (simp add: sample_done_session_def sample_term_session_def)
qed

text \<open>C31. What the consumer is handed. An event the adapter gives out is the first of the queue of the intervention and
  epoch it was asked for. Input and resizes come only while the human's input to the gate is accepted, carry exactly the
  bytes the page encoded (at most 2 KiB), or sizes in the bounds; they change nothing in the gate. Done comes last, and
  when it is given out the terminal is already fenced: the adapter has dropped the transport and its session, the
  intervention is in verification under the next epoch, and its drain is owed.\<close>

theorem terminal_events_are_checked:
  assumes "new_adapter b enabled origin ice cfg = Inr s\<^sub>0" and "s = run (handoff_step parse coerce) s\<^sub>0 cs"
    and "next_human_event r t s = (Inr (Some ev), s')"
  shows "\<exists>x e q. tt_current (ta_transport s) = Some x \<and> tn_intervention x = rf_id r \<and> tn_epoch x = rf_epoch r
     \<and> tn_queue x = e # q \<and> (case ev of
         Human_input bytes \<Rightarrow> (\<exists>v. e = Term_input v \<and> decode_base64 v max_terminal_input = Some bytes)
           \<and> adapter_human_input r s = Inr () \<and> ta_pty s' = ta_pty s
       | Human_resize rows cols \<Rightarrow> e = Term_resize rows cols \<and> 2 \<le> rows \<and> rows \<le> 200 \<and> 2 \<le> cols \<and> cols \<le> 400
           \<and> adapter_human_resize r s = Inr () \<and> ta_pty s' = ta_pty s
       | Human_done d \<Rightarrow> e = Term_done \<and> q = [] \<and> rf_epoch d = rf_epoch r + 1 \<and> ta_ref s' = None
           \<and> tt_current (ta_transport s') = None \<and> \<not> pt_drained (ta_pty s')
           \<and> (\<exists>a. hs_active (pt_state (ta_pty s')) = Some a \<and> public_ref a = d \<and> iv_status a = Verifying))"
proof -
  let ?n = "next_event (rf_id r) (rf_epoch r) (ta_transport s)"
  have good: "transport_good (ta_transport s)" and pty: "pty_good (ta_pty s)"
    using reached_parts [OF assms(1)] assms(2) by simp_all
  obtain e u where n: "?n = (Inr (Some e), u)"
    using assms(3) by (auto simp: next_human_event_def split: sum.splits prod.splits option.splits)
  then obtain x q where x: "tt_current (ta_transport s) = Some x" "tn_intervention x = rf_id r" "tn_epoch x = rf_epoch r"
      "tn_queue x = e # q"
    by (auto simp: next_event_def require_term_def split: sum.splits option.splits list.splits if_splits)
  with good have e: "event_ok e" "Term_done \<notin> set (butlast (e # q))"
    by (auto simp: transport_good_def session_good_def queue_ok_def)
  then have last: "e = Term_done \<Longrightarrow> q = []" by (cases q) auto
  have fin: "rf_epoch d = rf_epoch r + 1 \<and> ta_ref s' = None \<and> tt_current (ta_transport s') = None \<and> \<not> pt_drained (ta_pty s')
      \<and> (\<exists>a. hs_active (pt_state (ta_pty s')) = Some a \<and> public_ref a = d \<and> iv_status a = Verifying)"
    if d: "e = Term_done" "ev = Human_done d" for d
  proof -
    obtain y p where p: "done_fence (ta_binding s) (rf_id r) (rf_epoch r) t (ta_pty s) = (y, p)" by fastforce
    with assms(3) n obtain a where "y = Inr a" and "d = public_ref a"
        and s': "ta_pty s' = p" "ta_ref s' = None" "tt_current (ta_transport s') = None"
      unfolding d
      by (auto simp: next_human_event_def on_pty_def release_completed_def split: sum.splits prod.splits if_splits)
    with p done_fenced [of "ta_binding s" "rf_id r" "rf_epoch r" t "ta_pty s"] pty show ?thesis
      by (simp add: public_ref_def)
  qed
  show ?thesis
  proof (cases e)
    case (Term_input v)
    then obtain bytes where "decode_base64 v max_terminal_input = Some bytes" using e(1) by auto
    moreover from this have "b64_decode v = bytes" by (rule decode_base64_value)
    ultimately show ?thesis
      using assms(3) n x Term_input
      by (auto simp: next_human_event_def adapter_human_input_def split: sum.splits)
  next
    case (Term_resize rows cols)
    then show ?thesis
      using assms(3) n x e(1)
      by (auto simp: next_human_event_def adapter_human_resize_def split: sum.splits)
  next
    case Term_done
    then obtain d where "ev = Human_done d"
      using assms(3) n by (auto simp: next_human_event_def split: sum.splits prod.splits)
    then show ?thesis using x last fin Term_done by simp
  qed
qed

theorem terminal_events_are_checked_witness:
  "tt_current (ta_transport (snd (next_human_event (sample_term_ref 1) 7 sample_fenced))) = None"
proof -
  have "run sample_handoff_step sample_adapter (sample_opening @ [A_env (S_message 0 ''done'')]) = sample_fenced"
    using sample_control_reached sample_says_done by (simp del: handoff_step.simps)
  from terminal_events_are_checked [OF sample_adapter_new this [symmetric] sample_gives_done]
  show ?thesis by (auto simp: sample_gives_done)
qed

text \<open>C32. A transport that is torn down during the human's period strands the terminal. After \<open>revokeTransport\<close> while the
  human is in control, the adapter refers to no transport any more, and no later call or callback changes that: every
  request for an event, so also the human's Done, is refused, and the agent's input is refused to every binding. Only
  the exit of the terminal session is left.\<close>

theorem revoked_terminal_is_stranded:
  assumes "revoke_terminal s = (Inr (), s')"
    and "hs_active (pt_state (ta_pty s)) = Some a" and "iv_status a = Human_active"
  shows "isl (fst (next_human_event r t (run (handoff_step parse coerce) s' ds)))
     \<and> assert_agent_input b (ta_pty (run (handoff_step parse coerce) s' ds)) \<noteq> Inr ()"
proof -
  have "hs_active (pt_state (ta_pty s')) = Some a \<and> ta_ref s' = None"
    using assms
    by (auto simp: revoke_terminal_def on_pty_def note_human_disconnect_def Let_def split: option.splits sum.splits prod.splits if_splits)
  with assms(3) have "stranded s'" by (simp add: stranded_def)
  then have "stranded (run (handoff_step parse coerce) s' ds)" by (rule stranded.good_run)
  then show ?thesis by (auto simp: stranded_def next_human_event_def require_ref_def guard_simps)
qed

theorem revoked_terminal_is_stranded_witness:
  "is_ok (fst (revoke_terminal sample_control)) \<and> isl (fst (next_human_event (sample_term_ref 1) 7
     (run sample_handoff_step (snd (revoke_terminal sample_control)) sample_opening)))"
proof -
  have ok: "revoke_terminal sample_control = (Inr (), snd (revoke_terminal sample_control))"
    by (simp add: revoke_terminal_def sample_control_def sample_state_def fence_human_def require_term_def sample_wire_def
        pty_get_status_def sample_gate_def sample_iv_def on_pty_def note_human_disconnect_def assert_human_input_def
        require_intervention_def Let_def)
      (simp add: sample_term_session_def)
  have "hs_active (pt_state (ta_pty sample_control)) = Some (sample_iv Human_active Human 1 6)"
    by (simp add: sample_control_def sample_state_def sample_gate_def)
  from revoked_terminal_is_stranded [OF ok this, of "sample_term_ref 1" 7 sample_parse sample_coerce sample_opening]
  have "isl (fst (next_human_event (sample_term_ref 1) 7 (run sample_handoff_step (snd (revoke_terminal sample_control)) sample_opening)))"
    by (simp add: sample_iv_def)
  moreover have "fst (revoke_terminal sample_control) = Inr ()" using ok by (metis fst_conv)
  ultimately show ?thesis by simp
qed

text \<open>C35. How much output a human can be shown at once. While the human is in control over an open channel, an output of no
  byte or of more than 16384 bytes is refused as invalid; of the sizes declared valid only 1 to 6117 bytes are sent, and
  only while the channel is not backed up by more than 65536 bytes. Every output of 6118 to 16384 bytes ends in the
  backpressure error however empty the channel is, because the message that would carry it exceeds the channel's limit; a
  refused output changes nothing.\<close>

theorem terminal_output_limit:
  assumes "ta_ref s = Some (rf_id r, rf_epoch r)" and "adapter_human_observation r s = Inr ()"
    and "tt_current (ta_transport s) = Some x" and "tn_intervention x = rf_id r" and "tn_epoch x = rf_epoch r"
    and "tn_human x" and "tn_generation x = Some g" and "require_generation (tn_id x) g (ta_transport s) = Inr ref"
    and "tr_input (tt_runtimes (ta_transport s) ! ref)" and "tr_channel (tt_runtimes (ta_transport s) ! ref) = Some Chan_open"
    and "tt_buffered (ta_transport s) = Fin n" and "\<forall>v \<in> set data. v < 256"
  shows "fst (push_human_output r data s) =
      (if length data < 1 \<or> 16384 < length data then Inl TERMINAL_HANDOFF_OUTPUT_INVALID
       else if length data \<le> 6117 \<and> n \<le> 65536 then Inr ()
       else Inl (Handoff_transport TERMINAL_OUTPUT_BACKPRESSURE))
    \<and> (isl (fst (push_human_output r data s)) \<longrightarrow> snd (push_human_output r data s) = s)"
proof (cases "length data < 1 \<or> 16384 < length data")
  case True
  then show ?thesis
    using assms(1,2) by (simp add: push_human_output_def require_ref_def adapter_human_observation_def max_human_output_def)
next
  case False
  then have "decode_base64 (b64_encode data) max_terminal_output = Some data"
    using assms(12) by (intro decode_base64_encode) (simp_all add: list_all_iff max_terminal_output_def Suc_le_eq)
  moreover have "push_output (rf_id r) (rf_epoch r) v (ta_transport s) = send_output (tn_id x) g v (ta_transport s)" for v
    using assms(3-7) by (simp add: push_output_def require_term_def)
  ultimately show ?thesis
    using False assms(1,2) fitting_output [OF assms(12)] assms(8-11)
    by (simp add: push_human_output_def require_ref_def adapter_human_observation_def send_output_def max_human_output_def)
qed

theorem terminal_output_limit_witness:
  "fst (push_human_output (sample_term_ref 1) [97] sample_control) = Inr ()
   \<and> fst (push_human_output (sample_term_ref 1) (replicate 16384 97) sample_control)
       = Inl (Handoff_transport TERMINAL_OUTPUT_BACKPRESSURE)
   \<and> fst (push_human_output (sample_term_ref 1) (replicate 16385 97) sample_control) = Inl TERMINAL_HANDOFF_OUTPUT_INVALID"
proof -
  have "adapter_human_observation (sample_term_ref 1) sample_control = Inr ()"
    by (simp add: adapter_human_observation_def assert_human_observation_def guard_simps sample_control_def sample_term_ref_def
        sample_states)
  moreover have "require_generation ''takeover-1'' 1 (ta_transport sample_control) = Inr 0"
    by (simp add: require_generation_def sample_control_def sample_states) (simp add: sample_peer_def)
  ultimately have limit: "fst (push_human_output (sample_term_ref 1) data sample_control) =
      (if length data < 1 \<or> 16384 < length data then Inl TERMINAL_HANDOFF_OUTPUT_INVALID
       else if length data \<le> 6117 \<and> (0 :: rat) \<le> 65536 then Inr ()
       else Inl (Handoff_transport TERMINAL_OUTPUT_BACKPRESSURE))"
    if "\<forall>v \<in> set data. v < 256" for data
    using that
    by (intro conjunct1 [OF terminal_output_limit [where x = "sample_term_session\<lparr>tn_generation := Some 1, tn_human := True\<rparr>" and g = 1
        and ref = 0]])
      (simp_all add: sample_control_def sample_state_def sample_wire_def sample_runtime_def sample_term_ref_def,
       simp_all add: sample_term_session_def)
  from limit [of "[97]"] limit [of "replicate 16384 97"] limit [of "replicate 16385 97"] show ?thesis by simp
qed

text \<open>The operator's view of a terminal never fails to parse. In every state the adapter can reach, when the status of
  the adapter is available, the diagnostics snapshot made from it passes its own closed-world parser.\<close>

theorem terminal_diagnostics_always_parse:
  assumes "new_adapter b enabled origin ice cfg = Inr s\<^sub>0" and "s = run (handoff_step parse coerce) s\<^sub>0 cs"
    and "adapter_diagnostics s = Inr d"
  shows "d \<noteq> None"
proof -
  have good: "transport_good (ta_transport s)" using reached_parts(2) [OF assms(1)] assms(2) by simp
  obtain st where st: "adapter_get_status s = Inr st" "d = terminal_diagnostics st"
    using assms(3) by (auto simp: adapter_diagnostics_def split: sum.splits)
  have "sm_queued m \<le> 64" if "st_transport st = Some m" for m
    using st(1) that good
    by (auto simp: adapter_get_status_def transport_status_def require_term_def bounded_status_def transport_good_def
        session_good_def queue_ok_def max_queue_items_def split: option.splits sum.splits prod.splits if_splits)
  then show ?thesis using diagnostics_parse st(2) by auto
qed

theorem terminal_diagnostics_always_parse_witness:
  "\<exists>d. adapter_diagnostics sample_control = Inr (Some d)"
proof -
  obtain d where d: "adapter_diagnostics sample_control = Inr d"
    by (simp add: adapter_diagnostics_def adapter_get_status_def transport_status_def require_term_def sample_control_def
        sample_state_def sample_wire_def) (simp add: sample_term_session_def)
  from terminal_diagnostics_always_parse [OF sample_adapter_new sample_control_reached [symmetric] this] d
  show ?thesis by auto
qed

end
