(* ===== verification/Websocket_Latency.thy ===== *)
theory Websocket_Latency
  imports Handoff_Prelude "HOL-Library.Multiset"
begin

text \<open>
  \<open>src/browser-takeover/websocket-latency.ts\<close>: \<open>WebSocketLatencyTracker\<close>, the bounded store of durations
  and its summary. A duration is a rational number of milliseconds; the arithmetic is exact.
\<close>

definition latency_metrics :: "string list" where
  "latency_metrics = [''capture'', ''capture_prepare'', ''capture_revalidate'', ''capture_frame_wait'', ''frame_send'',
     ''frame_cadence'', ''client_frame_decode'', ''client_frame_cadence'', ''client_first_frame'', ''client_first_ready'',
     ''client_ready_to_first_frame'', ''client_reconnect_frame'', ''client_reconnect_ready'', ''input_apply'',
     ''input_prepare'', ''input_queue_wait'', ''input_revalidate'', ''input_host_ack'', ''completion_fence'',
     ''revoke_fence'']"

definition client_metrics :: "string list" where
  "client_metrics = [''client_frame_decode'', ''client_frame_cadence'', ''client_first_frame'', ''client_first_ready'',
     ''client_ready_to_first_frame'', ''client_reconnect_frame'', ''client_reconnect_ready'']"

definition max_latency_ms :: int where
  "max_latency_ms = 120000"

definition max_samples :: nat where
  "max_samples = 128"

definition valid_latency :: "jsnum \<Rightarrow> bool" where
  "valid_latency n \<longleftrightarrow> num_finite n \<and> num_le (num_of_int 0) n \<and> num_le n (num_of_int max_latency_ms)"

text \<open>\<open>isWebSocketClientLatencyMetric\<close> and \<open>validWebSocketLatency\<close>, on values of the client.\<close>

definition is_client_metric :: "jsval \<Rightarrow> bool" where
  "is_client_metric v = (case v of JStr m \<Rightarrow> m \<in> set client_metrics | _ \<Rightarrow> False)"

definition valid_latency_value :: "jsval \<Rightarrow> bool" where
  "valid_latency_value v = (case v of JNum n \<Rightarrow> valid_latency n | _ \<Rightarrow> False)"

text \<open>\<open>Math.round\<close> rounds halves up.\<close>

definition round_metric :: "rat \<Rightarrow> rat" where
  "round_metric q = of_int \<lfloor>q * 10 + 1 / 2\<rfloor> / 10"

type_synonym latency_samples = "string \<Rightarrow> rat list"

definition no_samples :: latency_samples where
  "no_samples = (\<lambda>m. [])"

fun finite_value :: "jsnum \<Rightarrow> rat" where
  "finite_value (Fin q) = q"
| "finite_value _ = 0"

definition record_latency :: "string \<Rightarrow> jsnum \<Rightarrow> latency_samples \<Rightarrow> latency_samples" where
  "record_latency m v t =
     (if m \<notin> set latency_metrics \<or> \<not> valid_latency v then t
      else (let values = t m @ [round_metric (finite_value v)] in
        t(m := if max_samples < length values then drop (length values - max_samples) values else values)))"

record latency_distribution =
  ld_count :: nat
  ld_p50 :: "rat option"
  ld_p95 :: "rat option"
  ld_max :: "rat option"

definition percentile :: "rat list \<Rightarrow> rat \<Rightarrow> rat" where
  "percentile xs p =
     xs ! nat (min (int (length xs) - 1) (max 0 (\<lceil>of_nat (length xs) * p\<rceil> - 1)))"

definition distribution :: "rat list \<Rightarrow> latency_distribution" where
  "distribution values =
     (if values = [] then \<lparr>ld_count = 0, ld_p50 = None, ld_p95 = None, ld_max = None\<rparr>
      else (let sorted = sort values in
        \<lparr>ld_count = length sorted, ld_p50 = Some (percentile sorted (1 / 2)),
         ld_p95 = Some (percentile sorted (95 / 100)), ld_max = Some (last sorted)\<rparr>))"

record latency_report =
  ls_samples :: nat
  ls_metrics :: "(string \<times> latency_distribution) list"

definition latency_snapshot :: "latency_samples \<Rightarrow> latency_report" where
  "latency_snapshot t =
     \<lparr>ls_samples = sum_list (map (\<lambda>m. ld_count (distribution (t m))) latency_metrics),
      ls_metrics = map (\<lambda>m. (m, distribution (t m))) latency_metrics\<rparr>"

section \<open>Bounds\<close>

definition samples_good :: "latency_samples \<Rightarrow> bool" where
  "samples_good t \<longleftrightarrow> (\<forall>m. length (t m) \<le> max_samples \<and> (\<forall>v \<in> set (t m). 0 \<le> v \<and> v \<le> of_int max_latency_ms))"

lemma round_metric_bounds:
  assumes "0 \<le> q" and "q \<le> of_int max_latency_ms"
  shows "0 \<le> round_metric q \<and> round_metric q \<le> of_int max_latency_ms"
proof -
  have "0 \<le> \<lfloor>q * 10 + 1 / 2\<rfloor>" using assms(1) by simp
  moreover have "q * 10 + 1 / 2 < of_int (max_latency_ms * 10 + 1)" using assms(2) by simp
  then have "\<lfloor>q * 10 + 1 / 2\<rfloor> < max_latency_ms * 10 + 1" by (simp only: floor_less_iff)
  then have "\<lfloor>q * 10 + 1 / 2\<rfloor> \<le> max_latency_ms * 10" by simp
  then have "(of_int \<lfloor>q * 10 + 1 / 2\<rfloor> :: rat) \<le> of_int (max_latency_ms * 10)" by (simp only: of_int_le_iff)
  ultimately show ?thesis by (simp add: round_metric_def)
qed

lemma record_latency_good: "samples_good t \<Longrightarrow> samples_good (record_latency m v t)"
proof -
  assume good: "samples_good t"
  have "0 \<le> round_metric (finite_value v) \<and> round_metric (finite_value v) \<le> of_int max_latency_ms" if "valid_latency v"
    using that by (cases v) (simp_all add: valid_latency_def round_metric_bounds)
  with good show ?thesis
    by (auto simp: samples_good_def record_latency_def Let_def dest: in_set_dropD)
qed

lemma no_samples_good [simp]: "samples_good no_samples"
  by (simp add: samples_good_def no_samples_def)

lemma samples_good_run: "samples_good t \<Longrightarrow> samples_good (fold (\<lambda>(m, v). record_latency m v) rs t)"
  by (induction rs arbitrary: t) (auto intro: record_latency_good)

section \<open>Percentiles\<close>

definition rank_of :: "nat \<Rightarrow> rat \<Rightarrow> nat" where
  "rank_of n p = nat (min (int n - 1) (max 0 (\<lceil>of_nat n * p\<rceil> - 1)))"

lemma percentile_rank: "percentile xs p = xs ! rank_of (length xs) p"
  by (simp add: percentile_def rank_of_def)

lemma rank_of_less: "0 < n \<Longrightarrow> rank_of n p < n"
  by (simp add: rank_of_def)

lemma rank_of_mono: "p \<le> q \<Longrightarrow> rank_of n p \<le> rank_of n q"
proof -
  assume "p \<le> q"
  then have "(of_nat n :: rat) * p \<le> of_nat n * q" by (intro mult_left_mono) simp_all
  then have "\<lceil>(of_nat n :: rat) * p\<rceil> \<le> \<lceil>of_nat n * q\<rceil>" by (rule ceiling_mono)
  then show ?thesis by (simp add: rank_of_def)
qed

lemma rank_of_covers:
  assumes "0 < n" and "p \<le> 1"
  shows "of_nat n * p \<le> of_nat (rank_of n p + 1)"
proof -
  have "(of_nat n :: rat) * p \<le> of_nat n * 1" using assms(2) by (intro mult_left_mono) simp_all
  then have "\<lceil>(of_nat n :: rat) * p\<rceil> \<le> int n" by (simp add: ceiling_le_iff)
  then have "\<lceil>(of_nat n :: rat) * p\<rceil> \<le> int (rank_of n p + 1)" using assms(1) by (simp add: rank_of_def)
  moreover have "(of_nat n :: rat) * p \<le> of_int \<lceil>(of_nat n :: rat) * p\<rceil>" by simp
  ultimately show ?thesis by (metis of_int_le_iff of_int_of_nat_eq order_trans)
qed

text \<open>As many samples as the rank says are at most the value at that rank.\<close>

lemma sorted_upto_rank:
  fixes xs :: "rat list"
  assumes "sorted xs" and "k < length xs"
  shows "k + 1 \<le> length (filter (\<lambda>v. v \<le> xs ! k) xs)"
proof -
  have "filter (\<lambda>v. v \<le> xs ! k) (take (k + 1) xs) = take (k + 1) xs"
    using assms sorted_nth_mono [OF assms(1), of _ k] by (auto simp: filter_id_conv in_set_conv_nth less_Suc_eq_le)
  then have "k + 1 \<le> length (filter (\<lambda>v. v \<le> xs ! k) (take (k + 1) xs))" using assms(2) by simp
  also have "\<dots> \<le> length (filter (\<lambda>v. v \<le> xs ! k) (take (k + 1) xs @ drop (k + 1) xs))"
    by (simp only: filter_append length_append le_add1)
  finally show ?thesis by (simp only: append_take_drop_id)
qed

lemma percentile_covers:
  assumes "values \<noteq> []" and "p \<le> 1"
  shows "of_nat (length values) * p \<le> of_nat (length (filter (\<lambda>v. v \<le> percentile (sort values) p) values))"
proof -
  let ?k = "rank_of (length values) p"
  have k: "?k < length values" using assms(1) by (simp add: rank_of_less)
  have "of_nat (length values) * p \<le> of_nat (?k + 1)" using assms by (intro rank_of_covers) simp_all
  also have "\<dots> \<le> of_nat (length (filter (\<lambda>v. v \<le> percentile (sort values) p) (sort values)))"
    using sorted_upto_rank [of "sort values" ?k] k by (simp only: of_nat_le_iff percentile_rank length_sort sorted_sort)
  also have "\<dots> = of_nat (length (filter (\<lambda>v. v \<le> percentile (sort values) p) values))"
    by (metis mset_filter mset_sort size_mset)
  finally show ?thesis .
qed

lemma percentile_member: "values \<noteq> [] \<Longrightarrow> percentile (sort values) p \<in> set values"
  using rank_of_less [of "length values" p] nth_mem [of "rank_of (length values) p" "sort values"]
  by (simp add: percentile_rank)

lemma percentile_mono:
  assumes "values \<noteq> []" and "p \<le> q"
  shows "percentile (sort values) p \<le> percentile (sort values) q"
  using rank_of_mono [OF assms(2)] rank_of_less [of "length values" q] assms(1)
  by (simp add: percentile_rank sorted_nth_mono)

lemma last_sorted_greatest:
  assumes "values \<noteq> []" and "v \<in> set values"
  shows "v \<le> last (sort values)"
proof -
  obtain i where "i < length (sort values)" "v = sort values ! i"
    using assms(2) by (metis in_set_conv_nth set_sort)
  moreover have "last (sort values) = sort values ! (length values - 1)"
    using assms(1) last_conv_nth [of "sort values"] by (metis length_sort set_empty2 set_sort)
  ultimately show ?thesis
    using assms(1) sorted_nth_mono [OF sorted_sort [of "values"], of i "length values - 1"] by simp
qed

section \<open>Properties\<close>

text \<open>The summary of the durations is bounded and exact. After any records, valid or not, every metric holds at most 128
  samples, each between 0 and two minutes; and its distribution counts them, its percentiles and maximum are samples,
  in ascending order, at least half of the samples are at most the median, at least 95 of a hundred at most the 95th
  percentile, and all at most the maximum.\<close>

theorem latency_summary_is_exact:
  assumes "t = fold (\<lambda>(m, v). record_latency m v) rs no_samples" and "t m \<noteq> []"
  shows "length (t m) \<le> 128 \<and> (\<forall>v \<in> set (t m). 0 \<le> v \<and> v \<le> 120000)
     \<and> (\<exists>a b c. distribution (t m) = \<lparr>ld_count = length (t m), ld_p50 = Some a, ld_p95 = Some b, ld_max = Some c\<rparr>
         \<and> {a, b, c} \<subseteq> set (t m) \<and> a \<le> b \<and> b \<le> c \<and> (\<forall>v \<in> set (t m). v \<le> c)
         \<and> length (t m) \<le> 2 * length (filter (\<lambda>v. v \<le> a) (t m))
         \<and> 95 * length (t m) \<le> 100 * length (filter (\<lambda>v. v \<le> b) (t m)))"
proof -
  have "samples_good t" unfolding assms(1) by (rule samples_good_run) simp
  then have bounds: "length (t m) \<le> 128 \<and> (\<forall>v \<in> set (t m). 0 \<le> v \<and> v \<le> 120000)"
    by (simp add: samples_good_def max_samples_def max_latency_ms_def)
  let ?a = "percentile (sort (t m)) (1 / 2)" and ?b = "percentile (sort (t m)) (95 / 100)" and ?c = "last (sort (t m))"
  have c: "?c \<in> set (t m)" using assms(2) last_in_set [of "sort (t m)"] by (metis set_empty2 set_sort)
  have le: "?a \<le> ?b" "?b \<le> ?c"
    using percentile_mono [OF assms(2)] last_sorted_greatest [OF assms(2) percentile_member [OF assms(2)]] by simp_all
  have "(of_nat (length (t m)) :: rat) \<le> of_nat (2 * length (filter (\<lambda>v. v \<le> ?a) (t m)))"
    using percentile_covers [OF assms(2), of "1 / 2"] by simp
  then have half: "length (t m) \<le> 2 * length (filter (\<lambda>v. v \<le> ?a) (t m))" by (simp only: of_nat_le_iff)
  have "(of_nat (95 * length (t m)) :: rat) \<le> of_nat (100 * length (filter (\<lambda>v. v \<le> ?b) (t m)))"
    using percentile_covers [OF assms(2), of "95 / 100"] by simp
  then have most: "95 * length (t m) \<le> 100 * length (filter (\<lambda>v. v \<le> ?b) (t m))" by (simp only: of_nat_le_iff)
  have "distribution (t m) = \<lparr>ld_count = length (t m), ld_p50 = Some ?a, ld_p95 = Some ?b, ld_max = Some ?c\<rparr>"
    using assms(2) by (simp add: distribution_def Let_def)
  with bounds c le half most percentile_member [OF assms(2)] last_sorted_greatest [OF assms(2)] show ?thesis by blast
qed

theorem latency_summary_is_exact_witness:
  "\<exists>a b c. distribution (fold (\<lambda>(m, v). record_latency m v) [(''capture'', Fin 3), (''capture'', NaN)] no_samples ''capture'')
     = \<lparr>ld_count = 1, ld_p50 = Some a, ld_p95 = Some b, ld_max = Some c\<rparr>"
proof -
  let ?rs = "[(''capture'', Fin 3), (''capture'', NaN)]"
  have "fold (\<lambda>(m, v). record_latency m v) ?rs no_samples ''capture'' = [round_metric 3]"
    by (simp add: record_latency_def latency_metrics_def valid_latency_def max_latency_ms_def no_samples_def max_samples_def)
  then show ?thesis
    using latency_summary_is_exact [of "fold (\<lambda>(m, v). record_latency m v) ?rs no_samples" ?rs "''capture''"] by auto
qed

end
