(* ===== verification/Websocket_Channel.thy ===== *)
theory Websocket_Channel
  imports Websocket_Latency Fencing
begin

text \<open>
  \<open>src/browser-takeover/websocket-takeover.ts\<close>: \<open>ExperimentalWebSocketTakeoverChannel\<close>, the channel between one
  human and one takeover lease. Its asynchronous functions run in three places: one job of the operation queue at a
  time, the loop that sends frames, and calls outside both (\<open>start\<close>, and the failure of a frame). Each of them is
  a task that stands at an await; a step settles one await, in any order, with any outcome. \<open>wc_log\<close> holds the calls
  to the lease, the peer, the input handler and the latency tracker, in order. What the callers' promises resolve to
  and the measured durations are left out.

  \<open>parse\<close> is \<open>JSON.parse\<close>, \<open>None\<close> when it throws.
\<close>

section \<open>Data\<close>

datatype ws_state = Ws_open | Ws_closing | Ws_closed | Ws_revoked | Ws_failed

datatype ws_stage =
    Stage_none | Stage_received | Stage_begin_ready | Stage_dispatch_started | Stage_dispatch_rejected
  | Stage_dispatch_completed | Stage_end_ready | Stage_applied

datatype ws_failure =
    Fail_invalid_message | Fail_input_not_allowed | Fail_stale_generation | Fail_frame_too_large
  | Fail_queue_overflow | Fail_transport | Fail_release

record ws_binding =
  wb_intervention :: string
  wb_epoch :: jsnum
  wb_principal :: string
  wb_client :: string
  wb_generation :: jsnum

record ws_policy =
  wp_tap :: bool
  wp_scroll :: bool
  wp_text :: bool
  wp_key :: bool

datatype ws_input = Ws_tap jsnum jsnum | Ws_scroll jsnum | Ws_text string | Ws_key string

datatype ws_message =
    Msg_input ws_input | Msg_diagnostic string | Msg_latency string jsnum | Msg_done | Msg_ping "string option"

text \<open>\<open>wf_size\<close> is the byte length of \<open>data\<close>, whose bytes the channel does not look at; \<open>wf_tag\<close> stands for them.\<close>

record ws_frame =
  wf_tag :: nat
  wf_bytes :: bool
  wf_size :: nat
  wf_width :: jsnum
  wf_height :: jsnum
  wf_mime :: string

record ws_limits =
  wl_inbound :: int
  wl_messages :: int
  wl_bytes :: int
  wl_frame :: int
  wl_buffered :: int

datatype ws_control = Ctl_ready | Ctl_closing | Ctl_closed | Ctl_pong "string option" | Ctl_error ws_failure

datatype ws_use = Use_ready | Use_pong "string option" | Use_input ws_input | Use_frame ws_frame

text \<open>\<open>Op_skipped\<close>: the operation returned without a call that can fail.\<close>

datatype use_outcome = Op_skipped | Op_ok | Op_recoverable | Op_failed

datatype release_reason = For_failure ws_failure | For_disconnect | For_revoke

datatype ws_task =
    Beginning ws_use
  | Operating ws_use bool
  | Ending ws_use use_outcome
  | Releasing release_reason
  | Completing

datatype ws_job = Job_text string nat | Job_fail ws_failure | Job_disconnect | Job_revoke

datatype ws_effect =
    E_begin ws_use | E_end ws_use | E_complete | E_release
  | E_control ws_control | E_frame ws_frame | E_close int ws_failure | E_close_normal string
  | E_input ws_input | E_diagnostic string | E_latency string "jsnum option"

record ws_channel =
  wc_binding :: ws_binding
  wc_policy :: ws_policy
  wc_limits :: ws_limits
  wc_state :: ws_state
  wc_admission :: bool
  wc_jobs :: "ws_job list"
  wc_job :: "ws_task option"
  wc_loop :: "ws_task option"
  wc_side :: "ws_task list"
  wc_pending :: "ws_frame option"
  wc_released :: bool
  wc_done_started :: bool
  wc_timer :: bool
  wc_sent :: nat
  wc_dropped :: nat
  wc_backpressure :: nat
  wc_buffered :: jsnum
  wc_max_buffered :: jsnum
  wc_messages :: int
  wc_bytes :: int
  wc_max_messages :: int
  wc_max_bytes :: int
  wc_failure :: "ws_failure option"
  wc_stage :: ws_stage
  wc_framed :: bool
  wc_log :: "ws_effect list"

definition max_scroll :: int where "max_scroll = 2000"
definition max_text_bytes :: nat where "max_text_bytes = 4 * 1024"
definition max_key_bytes :: nat where "max_key_bytes = 64"
definition absolute_max_buffered :: int where "absolute_max_buffered = 4 * 1024 * 1024"
definition policy_close :: int where "policy_close = 1008"
definition internal_close :: int where "internal_close = 1011"

section \<open>Validation\<close>

fun num_of_val :: "jsval \<Rightarrow> jsnum" where
  "num_of_val (JNum n) = n"
| "num_of_val _ = NaN"

definition ws_bounded_integer :: "int \<Rightarrow> int \<Rightarrow> jsval \<Rightarrow> bool" where
  "ws_bounded_integer low high v = (case v of
       JNum n \<Rightarrow> num_integer n \<and> low \<le> num_to_int n \<and> num_to_int n \<le> high | _ \<Rightarrow> False)"

definition ws_bounded_number :: "int \<Rightarrow> int \<Rightarrow> jsval \<Rightarrow> bool" where
  "ws_bounded_number low high v = (case v of
       JNum n \<Rightarrow> num_finite n \<and> num_le (num_of_int low) n \<and> num_le n (num_of_int high) | _ \<Rightarrow> False)"

definition ws_bounded_string :: "nat \<Rightarrow> jsval \<Rightarrow> bool" where
  "ws_bounded_string max_bytes v = (case v of JStr s \<Rightarrow> utf8_length s \<le> max_bytes | _ \<Rightarrow> False)"

definition ws_limit :: "jsnum option \<Rightarrow> int \<Rightarrow> int \<Rightarrow> int option" where
  "ws_limit v fallback maximum = (let r = (case v of None \<Rightarrow> num_of_int fallback | Some n \<Rightarrow> n) in
     if \<not> num_integer r \<or> num_to_int r < 1 \<or> maximum < num_to_int r then None else Some (num_to_int r))"

definition validate_ws_binding :: "ws_binding \<Rightarrow> bool" where
  "validate_ws_binding b \<longleftrightarrow> wb_intervention b \<noteq> [] \<and> ws_bounded_integer 0 max_safe_integer (JNum (wb_epoch b))
     \<and> wb_principal b \<noteq> [] \<and> wb_client b \<noteq> [] \<and> ws_bounded_integer 1 max_safe_integer (JNum (wb_generation b))"

text \<open>The constructor; \<open>None\<close> is its error. The limits are given in the order of \<open>ws_limits\<close>.\<close>

record ws_options =
  wo_inbound :: "jsnum option"
  wo_messages :: "jsnum option"
  wo_bytes :: "jsnum option"
  wo_frame :: "jsnum option"
  wo_buffered :: "jsnum option"

definition new_ws_channel :: "ws_binding \<Rightarrow> ws_policy \<Rightarrow> ws_options \<Rightarrow> ws_channel option" where
  "new_ws_channel b p ops =
     (case (validate_ws_binding b, ws_limit (wo_inbound ops) 8192 65536, ws_limit (wo_messages ops) 32 256,
         ws_limit (wo_bytes ops) 131072 1048576, ws_limit (wo_frame ops) 4194304 8388608,
         ws_limit (wo_buffered ops) 524288 absolute_max_buffered) of
       (True, Some inbound, Some messages, Some bytes, Some frame, Some buffered) \<Rightarrow>
         Some \<lparr>wc_binding = b, wc_policy = p,
           wc_limits = \<lparr>wl_inbound = inbound, wl_messages = messages, wl_bytes = bytes, wl_frame = frame, wl_buffered = buffered\<rparr>,
           wc_state = Ws_open, wc_admission = True, wc_jobs = [], wc_job = None, wc_loop = None, wc_side = [],
           wc_pending = None, wc_released = False, wc_done_started = False, wc_timer = False,
           wc_sent = 0, wc_dropped = 0, wc_backpressure = 0, wc_buffered = num_of_int 0, wc_max_buffered = num_of_int 0,
           wc_messages = 0, wc_bytes = 0, wc_max_messages = 0, wc_max_bytes = 0,
           wc_failure = None, wc_stage = Stage_none, wc_framed = False, wc_log = []\<rparr>
     | _ \<Rightarrow> None)"

definition diagnostic_events :: "string list" where
  "diagnostic_events = [''client_editable_regions_available'', ''client_editable_regions_empty'',
     ''client_tap_editable_predicted'', ''client_tap_editable_not_predicted'', ''client_keyboard_focus_requested'',
     ''client_keyboard_focus_active'', ''client_keyboard_focus_inactive'']"

text \<open>The fields of a message of each kind.\<close>

definition parse_human_object :: "ws_policy \<Rightarrow> (string \<times> jsval) list \<Rightarrow> ws_failure + ws_message" where
  "parse_human_object p ps = (let kind = get_prop ps ''kind'' in
     if kind = JStr ''tap'' then
       if \<not> keys_exactly ps [''kind'', ''x'', ''y''] then Inl Fail_invalid_message
       else if \<not> wp_tap p then Inl Fail_input_not_allowed
       else if \<not> ws_bounded_number 0 1 (get_prop ps ''x'') \<or> \<not> ws_bounded_number 0 1 (get_prop ps ''y'')
       then Inl Fail_invalid_message
       else Inr (Msg_input (Ws_tap (num_of_val (get_prop ps ''x'')) (num_of_val (get_prop ps ''y''))))
     else if kind = JStr ''scroll'' then
       if \<not> keys_exactly ps [''kind'', ''deltaY''] then Inl Fail_invalid_message
       else if \<not> wp_scroll p then Inl Fail_input_not_allowed
       else if \<not> ws_bounded_integer (- max_scroll) max_scroll (get_prop ps ''deltaY'') then Inl Fail_invalid_message
       else Inr (Msg_input (Ws_scroll (num_of_val (get_prop ps ''deltaY''))))
     else if kind = JStr ''text'' then
       if \<not> keys_exactly ps [''kind'', ''text''] then Inl Fail_invalid_message
       else if \<not> wp_text p then Inl Fail_input_not_allowed
       else if \<not> ws_bounded_string max_text_bytes (get_prop ps ''text'') then Inl Fail_invalid_message
       else Inr (Msg_input (Ws_text (str_of_val (get_prop ps ''text''))))
     else if kind = JStr ''key'' then
       if \<not> keys_exactly ps [''kind'', ''key''] then Inl Fail_invalid_message
       else if \<not> wp_key p then Inl Fail_input_not_allowed
       else if \<not> ws_bounded_string max_key_bytes (get_prop ps ''key'') \<or> str_of_val (get_prop ps ''key'') = []
       then Inl Fail_invalid_message
       else Inr (Msg_input (Ws_key (str_of_val (get_prop ps ''key''))))
     else if kind = JStr ''diagnostic'' then
       if \<not> keys_exactly ps [''kind'', ''event''] then Inl Fail_invalid_message
       else if get_prop ps ''event'' \<notin> JStr ` set diagnostic_events then Inl Fail_invalid_message
       else Inr (Msg_diagnostic (str_of_val (get_prop ps ''event'')))
     else if kind = JStr ''latency'' then
       if \<not> keys_exactly ps [''kind'', ''metric'', ''valueMs''] \<or> \<not> is_client_metric (get_prop ps ''metric'')
         \<or> \<not> valid_latency_value (get_prop ps ''valueMs'') then Inl Fail_invalid_message
       else Inr (Msg_latency (str_of_val (get_prop ps ''metric'')) (num_of_val (get_prop ps ''valueMs'')))
     else if kind = JStr ''done'' then
       if \<not> keys_exactly ps [''kind''] then Inl Fail_invalid_message else Inr Msg_done
     else if kind = JStr ''ping'' then
       if get_prop ps ''nonce'' = JUndefined
       then (if \<not> keys_exactly ps [''kind''] then Inl Fail_invalid_message else Inr (Msg_ping None))
       else if \<not> keys_exactly ps [''kind'', ''nonce''] \<or> \<not> ws_bounded_string 64 (get_prop ps ''nonce'')
       then Inl Fail_invalid_message
       else Inr (Msg_ping (Some (str_of_val (get_prop ps ''nonce''))))
     else Inl Fail_invalid_message)"

definition parse_human_message ::
  "(string \<Rightarrow> jsval option) \<Rightarrow> int \<Rightarrow> ws_policy \<Rightarrow> string \<Rightarrow> ws_failure + ws_message" where
  "parse_human_message parse max_bytes p raw =
     (if max_bytes < int (utf8_length raw) then Inl Fail_invalid_message
      else (case parse raw of Some (JObj ps) \<Rightarrow> parse_human_object p ps | _ \<Rightarrow> Inl Fail_invalid_message))"

definition ws_frame_ok :: "ws_channel \<Rightarrow> ws_frame \<Rightarrow> bool" where
  "ws_frame_ok s f \<longleftrightarrow> wf_bytes f \<and> 1 \<le> wf_size f \<and> int (wf_size f) \<le> wl_frame (wc_limits s)
     \<and> ws_bounded_integer 1 16384 (JNum (wf_width f)) \<and> ws_bounded_integer 1 16384 (JNum (wf_height f))
     \<and> (wf_mime f = ''image/jpeg'' \<or> wf_mime f = ''image/png'')"

section \<open>Operations\<close>

definition emit :: "ws_effect \<Rightarrow> ws_channel \<Rightarrow> ws_channel" where
  "emit e s = s\<lparr>wc_log := wc_log s @ [e]\<rparr>"

text \<open>\<open>failClosed\<close>: up to the release of the lease, and after it.\<close>

definition fail_notified :: "ws_failure \<Rightarrow> ws_channel \<Rightarrow> ws_channel" where
  "fail_notified f s = (let code = (case wc_failure s of None \<Rightarrow> f | Some c \<Rightarrow> c) in
     emit (E_close (if f = Fail_transport \<or> wc_failure s = Some Fail_release then internal_close else policy_close) code)
       (emit (E_control (Ctl_error code)) s))"

definition record_release_failure :: "ws_channel \<Rightarrow> ws_channel" where
  "record_release_failure s = s\<lparr>wc_released := False, wc_state := Ws_failed, wc_failure := Some Fail_release\<rparr>"

text \<open>\<open>releaseOnce\<close>: the call of the lease when there is one to make.\<close>

definition release_once :: "release_reason \<Rightarrow> (ws_channel \<Rightarrow> ws_channel) \<Rightarrow> ws_channel \<Rightarrow> ws_task option \<times> ws_channel" where
  "release_once why after s = (if wc_released s then (None, after s) else (Some (Releasing why), emit E_release s))"

definition fail_closed :: "ws_failure \<Rightarrow> ws_channel \<Rightarrow> ws_task option \<times> ws_channel" where
  "fail_closed f s =
     (if wc_state s \<in> {Ws_failed, Ws_closed, Ws_revoked} then (None, s)
      else release_once (For_failure f) (fail_notified f)
        (s\<lparr>wc_failure := Some f, wc_admission := False, wc_state := Ws_failed, wc_timer := False, wc_pending := None\<rparr>))"

definition run_use :: "ws_use \<Rightarrow> ws_channel \<Rightarrow> ws_task option \<times> ws_channel" where
  "run_use u s = (Some (Beginning u), emit (E_begin u) s)"

definition complete_ws :: "ws_channel \<Rightarrow> ws_task option \<times> ws_channel" where
  "complete_ws s = (if wc_done_started s \<or> wc_state s \<noteq> Ws_open then (None, s)
     else (Some Completing, emit E_complete (emit (E_control Ctl_closing)
       (s\<lparr>wc_done_started := True, wc_admission := False, wc_state := Ws_closing, wc_timer := False, wc_pending := None\<rparr>))))"

text \<open>\<open>isBackpressured\<close>; the reading is \<open>None\<close> when \<open>bufferedAmount()\<close> throws, and so is the result.\<close>

definition num_min :: "jsnum \<Rightarrow> jsnum \<Rightarrow> jsnum" where
  "num_min a b = (if num_le a b then a else b)"

definition num_max :: "jsnum \<Rightarrow> jsnum \<Rightarrow> jsnum" where
  "num_max a b = (if num_le a b then b else a)"

definition is_ws_backpressured :: "jsval option \<Rightarrow> ws_channel \<Rightarrow> bool option \<times> ws_channel" where
  "is_ws_backpressured reading s = (case reading of
       Some v \<Rightarrow>
         if \<not> ws_bounded_number 0 max_safe_integer v then (None, s)
         else (let amount = num_of_val v; bounded = num_min amount (num_of_int absolute_max_buffered);
             full = num_lt (num_of_int (wl_buffered (wc_limits s))) amount in
           (Some full, s\<lparr>wc_buffered := bounded, wc_max_buffered := num_max (wc_max_buffered s) bounded,
             wc_backpressure := wc_backpressure s + (if full then 1 else 0)\<rparr>))
     | None \<Rightarrow> (None, s))"

definition replace_pending_frame :: "ws_frame \<Rightarrow> ws_channel \<Rightarrow> ws_channel" where
  "replace_pending_frame f s = s\<lparr>wc_dropped := wc_dropped s + (if wc_pending s = None then 0 else 1), wc_pending := Some f\<rparr>"

definition schedule_drain :: "ws_channel \<Rightarrow> ws_channel" where
  "schedule_drain s = (if wc_timer s \<or> wc_state s \<noteq> Ws_open then s else s\<lparr>wc_timer := True\<rparr>)"

text \<open>The head of the loop of \<open>sendFrameLoop\<close>.\<close>

definition frame_turn :: "jsval option \<Rightarrow> ws_frame option \<Rightarrow> ws_channel \<Rightarrow> ws_task option \<times> ws_channel" where
  "frame_turn reading current s = (case current of
       None \<Rightarrow> (None, s)
     | Some f \<Rightarrow>
         if wc_state s \<noteq> Ws_open then (None, s)
         else (case is_ws_backpressured reading s of
             (None, s1) \<Rightarrow> fail_closed Fail_transport s1
           | (Some True, s1) \<Rightarrow> (None, schedule_drain (replace_pending_frame f s1))
           | (Some False, s1) \<Rightarrow> run_use (Use_frame f) s1))"

text \<open>How a settled await goes on.\<close>

datatype settled = Resolved | Rejected bool

text \<open>After \<open>beginUse\<close>: the operation starts.\<close>

definition start_operation :: "ws_use \<Rightarrow> ws_channel \<Rightarrow> ws_task option \<times> ws_channel" where
  "start_operation u s = (case u of
       Use_ready \<Rightarrow> (Some (Operating u True), emit (E_control Ctl_ready) s)
     | Use_pong n \<Rightarrow> (Some (Operating u False), emit (E_control (Ctl_pong n)) s)
     | Use_frame f \<Rightarrow> (Some (Operating u True), emit (E_frame f) s)
     | Use_input i \<Rightarrow> (let s1 = s\<lparr>wc_stage := Stage_begin_ready\<rparr> in
         if wc_state s1 \<noteq> Ws_open \<or> \<not> wc_admission s1 then (Some (Operating u False), s1)
         else (Some (Operating u True), emit (E_input i) (s1\<lparr>wc_stage := Stage_dispatch_started\<rparr>))))"

text \<open>After the operation: the use ends, whatever its outcome.\<close>

definition end_operation :: "ws_use \<Rightarrow> bool \<Rightarrow> settled \<Rightarrow> ws_channel \<Rightarrow> ws_task option \<times> ws_channel" where
  "end_operation u calls r s =
     (let out = (if \<not> calls then Op_skipped else case r of Resolved \<Rightarrow> Op_ok | Rejected True \<Rightarrow> Op_recoverable
          | Rejected False \<Rightarrow> Op_failed);
          s1 = (case (u, out) of
             (Use_input _, Op_ok) \<Rightarrow> s\<lparr>wc_stage := Stage_dispatch_completed\<rparr>
           | (Use_frame _, Op_ok) \<Rightarrow> emit (E_latency ''frame_send'' None) s
           | _ \<Rightarrow> s)
      in (Some (Ending u out), emit (E_end u) s1))"

text \<open>After \<open>endUse\<close>.\<close>

definition after_use :: "jsval option \<Rightarrow> ws_use \<Rightarrow> use_outcome \<Rightarrow> ws_channel \<Rightarrow> ws_task option \<times> ws_channel" where
  "after_use reading u out s = (case u of
       Use_input _ \<Rightarrow>
         if out = Op_ok then (None, emit (E_latency ''input_apply'' None) (s\<lparr>wc_stage := Stage_applied\<rparr>)) else (None, s)
     | Use_frame _ \<Rightarrow>
         (let s1 = (if wc_framed s then emit (E_latency ''frame_cadence'' None) s else s) in
          frame_turn reading (wc_pending s1) (s1\<lparr>wc_framed := True, wc_sent := wc_sent s1 + 1, wc_pending := None\<rparr>))
     | _ \<Rightarrow> (None, s))"

definition use_ended :: "jsval option \<Rightarrow> ws_use \<Rightarrow> use_outcome \<Rightarrow> ws_channel \<Rightarrow> ws_task option \<times> ws_channel" where
  "use_ended reading u out s = (case out of
       Op_failed \<Rightarrow> fail_closed Fail_transport s
     | Op_recoverable \<Rightarrow> (let s1 = s\<lparr>wc_stage := Stage_dispatch_rejected\<rparr> in
         case u of Use_frame _ \<Rightarrow> fail_closed Fail_transport s1 | _ \<Rightarrow> (None, s1))
     | _ \<Rightarrow> after_use reading u out
         (case u of Use_input _ \<Rightarrow> s\<lparr>wc_stage := Stage_end_ready\<rparr> | _ \<Rightarrow> s))"

definition release_settled :: "release_reason \<Rightarrow> bool \<Rightarrow> ws_channel \<Rightarrow> ws_channel" where
  "release_settled why ok s =
     (let s1 = (if ok then s\<lparr>wc_released := True\<rparr> else record_release_failure s) in
      case why of
        For_failure f \<Rightarrow> fail_notified f s1
      | For_disconnect \<Rightarrow> if ok then s1 else emit (E_close internal_close Fail_release) s1
      | For_revoke \<Rightarrow> if ok then emit (E_close_normal ''revoked'') (emit (E_latency ''revoke_fence'' None) s1)
          else emit (E_close internal_close Fail_release) s1)"

definition complete_settled :: "bool \<Rightarrow> ws_channel \<Rightarrow> ws_task option \<times> ws_channel" where
  "complete_settled ok s =
     (if ok then (None, emit (E_close_normal ''done'') (emit (E_control Ctl_closed)
        ((emit (E_latency ''completion_fence'' None) s)\<lparr>wc_released := True, wc_state := Ws_closed\<rparr>)))
      else fail_closed Fail_stale_generation s)"

fun settle_task :: "jsval option \<Rightarrow> settled \<Rightarrow> ws_task \<Rightarrow> ws_channel \<Rightarrow> ws_task option \<times> ws_channel" where
  "settle_task reading r (Beginning u) s =
     (if r = Resolved then start_operation u s else fail_closed Fail_stale_generation s)"
| "settle_task reading r (Operating u calls) s = end_operation u calls r s"
| "settle_task reading r (Ending u out) s =
     (if r = Resolved then use_ended reading u out s else fail_closed Fail_stale_generation s)"
| "settle_task reading r (Releasing why) s = (None, release_settled why (r = Resolved) s)"
| "settle_task reading r Completing s = complete_settled (r = Resolved) s"

text \<open>The jobs of the operation queue.\<close>

definition start_closing :: "release_reason \<Rightarrow> ws_state \<Rightarrow> ws_channel \<Rightarrow> ws_task option \<times> ws_channel" where
  "start_closing why st s =
     (if wc_state s \<in> {Ws_closed, Ws_revoked} \<and> wc_released s then (None, s)
      else release_once why (release_settled why True) (s\<lparr>wc_state := st, wc_timer := False, wc_pending := None\<rparr>))"

definition release_inbound :: "int \<Rightarrow> ws_channel \<Rightarrow> ws_channel" where
  "release_inbound n s = s\<lparr>wc_messages := wc_messages s - 1, wc_bytes := wc_bytes s - n\<rparr>"

definition start_text :: "(string \<Rightarrow> jsval option) \<Rightarrow> string \<Rightarrow> ws_channel \<Rightarrow> ws_task option \<times> ws_channel" where
  "start_text parse raw s =
     (if wc_state s \<noteq> Ws_open \<or> \<not> wc_admission s then (None, s)
      else (case parse_human_message parse (wl_inbound (wc_limits s)) (wc_policy s) raw of
          Inl f \<Rightarrow> fail_closed f s
        | Inr (Msg_diagnostic e) \<Rightarrow> (None, emit (E_diagnostic e) s)
        | Inr (Msg_latency m v) \<Rightarrow> (None, emit (E_latency m (Some v)) s)
        | Inr (Msg_ping n) \<Rightarrow> run_use (Use_pong n) s
        | Inr Msg_done \<Rightarrow> complete_ws s
        | Inr (Msg_input i) \<Rightarrow> run_use (Use_input i) (s\<lparr>wc_stage := Stage_received\<rparr>)))"

fun start_job :: "(string \<Rightarrow> jsval option) \<Rightarrow> ws_job \<Rightarrow> ws_channel \<Rightarrow> ws_task option \<times> ws_channel" where
  "start_job parse (Job_text raw n) s = start_text parse raw (release_inbound (int n) s)"
| "start_job parse (Job_fail f) s = fail_closed f s"
| "start_job parse Job_disconnect s = start_closing For_disconnect Ws_closed s"
| "start_job parse Job_revoke s = start_closing For_revoke Ws_revoked s"

section \<open>Calls\<close>

text \<open>A call outside the queue and the loop.\<close>

definition on_side :: "ws_task option \<times> ws_channel \<Rightarrow> ws_channel" where
  "on_side r = (case r of (None, s) \<Rightarrow> s | (Some k, s) \<Rightarrow> s\<lparr>wc_side := wc_side s @ [k]\<rparr>)"

definition on_loop :: "ws_task option \<times> ws_channel \<Rightarrow> ws_channel" where
  "on_loop r = (case r of (k, s) \<Rightarrow> s\<lparr>wc_loop := k\<rparr>)"

definition on_job :: "ws_task option \<times> ws_channel \<Rightarrow> ws_channel" where
  "on_job r = (case r of (k, s) \<Rightarrow> s\<lparr>wc_job := k\<rparr>)"

definition start_ws :: "ws_channel \<Rightarrow> ws_channel" where
  "start_ws s = (if wc_state s \<noteq> Ws_open then s else on_side (run_use Use_ready s))"

definition enqueue :: "ws_job \<Rightarrow> ws_channel \<Rightarrow> ws_channel" where
  "enqueue j s = s\<lparr>wc_jobs := wc_jobs s @ [j]\<rparr>"

definition reserve_inbound :: "int \<Rightarrow> ws_channel \<Rightarrow> ws_channel option" where
  "reserve_inbound n s =
     (if wl_messages (wc_limits s) < wc_messages s + 1 \<or> wl_bytes (wc_limits s) < wc_bytes s + n then None
      else Some (s\<lparr>wc_messages := wc_messages s + 1, wc_bytes := wc_bytes s + n,
        wc_max_messages := max (wc_max_messages s) (wc_messages s + 1), wc_max_bytes := max (wc_max_bytes s) (wc_bytes s + n)\<rparr>))"

definition receive_text :: "string \<Rightarrow> ws_channel \<Rightarrow> ws_channel" where
  "receive_text raw s =
     (if \<not> wc_admission s then s
      else (let n = utf8_length raw in
        if wl_inbound (wc_limits s) < int n then enqueue (Job_fail Fail_invalid_message) (s\<lparr>wc_admission := False\<rparr>)
        else (case reserve_inbound (int n) s of
            None \<Rightarrow> enqueue (Job_fail Fail_queue_overflow) (s\<lparr>wc_admission := False\<rparr>)
          | Some s1 \<Rightarrow> enqueue (Job_text raw n) s1)))"

definition push_frame :: "jsval option \<Rightarrow> jsval option \<Rightarrow> ws_frame \<Rightarrow> ws_channel \<Rightarrow> ws_channel" where
  "push_frame reading\<^sub>1 reading\<^sub>2 f s =
     (if wc_state s \<noteq> Ws_open then s
      else if \<not> ws_frame_ok s f then on_side (fail_closed Fail_frame_too_large s)
      else (case (if wc_loop s \<noteq> None then (Some True, s) else is_ws_backpressured reading\<^sub>1 s) of
          (None, s1) \<Rightarrow> on_side (fail_closed Fail_transport s1)
        | (Some True, s1) \<Rightarrow> schedule_drain (replace_pending_frame f s1)
        | (Some False, s1) \<Rightarrow> on_loop (frame_turn reading\<^sub>2 (Some f)
            (s1\<lparr>wc_dropped := wc_dropped s1 + (if wc_pending s1 = None then 0 else 1), wc_pending := None\<rparr>))))"

definition disconnect_ws :: "ws_channel \<Rightarrow> ws_channel" where
  "disconnect_ws s = enqueue Job_disconnect (s\<lparr>wc_admission := False\<rparr>)"

definition revoke_ws :: "ws_channel \<Rightarrow> ws_channel" where
  "revoke_ws s = enqueue Job_revoke (s\<lparr>wc_admission := False\<rparr>)"

text \<open>The drain timer fires: \<open>flushPendingFrame\<close>.\<close>

definition flush_pending :: "jsval option \<Rightarrow> jsval option \<Rightarrow> ws_channel \<Rightarrow> ws_channel" where
  "flush_pending reading\<^sub>1 reading\<^sub>2 s0 =
     (let s = s0\<lparr>wc_timer := False\<rparr> in
      case wc_pending s of
        None \<Rightarrow> s
      | Some f \<Rightarrow>
          if wc_state s \<noteq> Ws_open \<or> wc_loop s \<noteq> None then s
          else (case is_ws_backpressured reading\<^sub>1 s of
              (None, s1) \<Rightarrow> on_side (fail_closed Fail_transport s1)
            | (Some True, s1) \<Rightarrow> schedule_drain s1
            | (Some False, s1) \<Rightarrow> on_loop (frame_turn reading\<^sub>2 (Some f) (s1\<lparr>wc_pending := None\<rparr>))))"

text \<open>The \<open>diagnostics\<close> getter.\<close>

record ws_report =
  wd_state :: ws_state
  wd_sent :: nat
  wd_dropped :: nat
  wd_backpressure :: nat
  wd_buffered :: jsnum
  wd_max_buffered :: jsnum
  wd_messages :: int
  wd_bytes :: int
  wd_max_messages :: int
  wd_max_bytes :: int
  wd_failure :: "ws_failure option"
  wd_stage :: ws_stage

definition ws_diagnostics :: "ws_channel \<Rightarrow> ws_report" where
  "ws_diagnostics s = \<lparr>wd_state = wc_state s, wd_sent = wc_sent s, wd_dropped = wc_dropped s,
     wd_backpressure = wc_backpressure s, wd_buffered = wc_buffered s, wd_max_buffered = wc_max_buffered s,
     wd_messages = wc_messages s, wd_bytes = wc_bytes s, wd_max_messages = wc_max_messages s,
     wd_max_bytes = wc_max_bytes s, wd_failure = wc_failure s, wd_stage = wc_stage s\<rparr>"

section \<open>Runs\<close>

datatype ws_place = In_queue | In_loop | On_side nat

datatype ws_move =
    M_start
  | M_text string
  | M_frame ws_frame "jsval option" "jsval option"
  | M_disconnect
  | M_revoke
  | M_next
  | M_settle ws_place settled "jsval option"
  | M_timer "jsval option" "jsval option"

fun ws_step :: "(string \<Rightarrow> jsval option) \<Rightarrow> ws_channel \<Rightarrow> ws_move \<Rightarrow> ws_channel" where
  "ws_step parse s M_start = start_ws s"
| "ws_step parse s (M_text raw) = receive_text raw s"
| "ws_step parse s (M_frame f r1 r2) = push_frame r1 r2 f s"
| "ws_step parse s M_disconnect = disconnect_ws s"
| "ws_step parse s M_revoke = revoke_ws s"
| "ws_step parse s M_next = (case (wc_job s, wc_jobs s) of
       (None, j # js) \<Rightarrow> on_job (start_job parse j (s\<lparr>wc_jobs := js\<rparr>))
     | _ \<Rightarrow> s)"
| "ws_step parse s (M_settle In_queue r reading) = (case wc_job s of
       None \<Rightarrow> s | Some k \<Rightarrow> on_job (settle_task reading r k s))"
| "ws_step parse s (M_settle In_loop r reading) = (case wc_loop s of
       None \<Rightarrow> s | Some k \<Rightarrow> on_loop (settle_task reading r k s))"
| "ws_step parse s (M_settle (On_side n) r reading) =
     (if length (wc_side s) \<le> n then s
      else on_side (settle_task reading r (wc_side s ! n) (s\<lparr>wc_side := take n (wc_side s) @ drop (n + 1) (wc_side s)\<rparr>)))"
| "ws_step parse s (M_timer r1 r2) = (if wc_timer s then flush_pending r1 r2 s else s)"

end
