(* ===== verification/Bytes.thy ===== *)
theory Bytes
  imports Handoff_Prelude
begin

text \<open>
  Byte streams: integers in network order as \<open>writeUInt32BE\<close> and \<open>readUInt32BE\<close> of Node write and read them, the search
  for a byte pattern (\<open>Buffer.indexOf\<close>), and the contract of the stream parsers of the program: a parser keeps the bytes
  it could not use yet, and how the stream was cut into chunks must not change what it reports. A byte is a number below 256.
\<close>

section \<open>Integers in network order\<close>

fun big_endian :: "nat \<Rightarrow> nat \<Rightarrow> byte_list" where
  "big_endian 0 v = []"
| "big_endian (Suc n) v = big_endian n (v div 256) @ [v mod 256]"

definition read_big_endian :: "byte_list \<Rightarrow> nat \<Rightarrow> nat \<Rightarrow> nat" where
  "read_big_endian bs i n = foldl (\<lambda>v b. v * 256 + b) 0 (take n (drop i bs))"

lemma big_endian_length [simp]: "length (big_endian n v) = n"
  by (induction n arbitrary: v) simp_all

lemma big_endian_eval:
  "big_endian 2 v = [v div 256 mod 256, v mod 256]"
  "big_endian 4 v = [v div 16777216 mod 256, v div 65536 mod 256, v div 256 mod 256, v mod 256]"
proof -
  have "big_endian 2 v = big_endian (Suc (Suc 0)) v" "big_endian 4 v = big_endian (Suc (Suc (Suc (Suc 0)))) v"
    by (simp_all only: numeral_2_eq_2 numeral_eq_Suc pred_numeral_simps BitM.simps semiring_norm(26) One_nat_def)
  then show "big_endian 2 v = [v div 256 mod 256, v mod 256]"
    "big_endian 4 v = [v div 16777216 mod 256, v div 65536 mod 256, v div 256 mod 256, v mod 256]"
    by (simp_all flip: div_mult2_eq)
qed

lemma read_back: "v < 256 ^ n \<Longrightarrow> foldl (\<lambda>v b. v * 256 + b) 0 (big_endian n v) = v"
proof (induction n arbitrary: v)
  case (Suc n)
  then have "v div 256 < 256 ^ n" by (simp add: less_mult_imp_div_less mult.commute)
  then show ?case using Suc.IH by simp
qed simp

lemma read_field: "bs = xs @ big_endian n v @ ys \<Longrightarrow> length xs = i \<Longrightarrow> v < 256 ^ n \<Longrightarrow> read_big_endian bs i n = v"
  by (simp add: read_big_endian_def read_back)

lemma one_byte: "v < 256 \<Longrightarrow> big_endian 1 v = [v]"
  by simp

lemma read_past: "i + n \<le> length bs \<Longrightarrow> read_big_endian (bs @ cs) i n = read_big_endian bs i n"
  by (simp add: read_big_endian_def)

lemma read_within: "i + n \<le> k \<Longrightarrow> read_big_endian (take k bs) i n = read_big_endian bs i n"
  by (simp add: read_big_endian_def drop_take)

section \<open>Patterns\<close>

text \<open>\<open>Buffer.indexOf\<close>.\<close>

fun index_of :: "byte_list \<Rightarrow> byte_list \<Rightarrow> nat option" where
  "index_of p [] = (if p = [] then Some 0 else None)"
| "index_of p (b # bs) = (if take (length p) (b # bs) = p then Some 0 else map_option Suc (index_of p bs))"

lemma index_of_bound: "index_of p bs = Some i \<Longrightarrow> i + length p \<le> length bs"
proof (induction p bs arbitrary: i rule: index_of.induct)
  case (2 p b bs)
  show ?case
  proof (cases "take (length p) (b # bs) = p")
    case True
    then have "length p \<le> length (b # bs)" by (metis length_take min.cobounded1)
    then show ?thesis using 2 True by simp
  qed (use 2 in auto)
qed (simp split: if_splits)

lemma index_of_at: "index_of p bs = Some i \<Longrightarrow> take (length p) (drop i bs) = p"
  by (induction p bs arbitrary: i rule: index_of.induct) (auto split: if_splits)

lemma index_of_append: "index_of p bs = Some i \<Longrightarrow> index_of p (bs @ cs) = Some i"
proof (induction p bs arbitrary: i rule: index_of.induct)
  case (2 p b bs)
  show ?case
  proof (cases "take (length p) (b # bs) = p")
    case True
    then have "length p \<le> length (b # bs)" by (metis length_take min.cobounded1)
    then have "take (length p) ((b # bs) @ cs) = p" by (simp only: take_append True) simp
    then show ?thesis using 2 True by simp
  next
    case False
    then obtain j where j: "index_of p bs = Some j" "i = Suc j" using 2 by auto
    then have "length p \<le> length (b # bs)" using index_of_bound [OF j(1)] by simp
    then have "take (length p) ((b # bs) @ cs) \<noteq> p" using False by (simp only: take_append) simp
    then show ?thesis using 2 False j by simp
  qed
qed (cases cs; simp split: if_splits)

lemma index_of_hd: "index_of p bs = Some i \<Longrightarrow> index_of p (drop i bs) = Some 0"
  by (induction p bs arbitrary: i rule: index_of.induct) (auto split: if_splits)

text \<open>A two-byte pattern that is absent can only begin at the last byte.\<close>

lemma index_of_pair_last:
  "index_of [p, q] (xs @ [y]) = None \<Longrightarrow> index_of [p, q] (xs @ y # cs) = map_option ((+) (length xs)) (index_of [p, q] (y # cs))"
proof (induction xs)
  case Nil
  show ?case by (cases "index_of [p, q] (y # cs)") (simp_all add: option.map_comp)
next
  case (Cons x xs)
  have "take 2 (x # xs @ y # cs) \<noteq> [p, q]" "index_of [p, q] (xs @ [y]) = None"
    using Cons.prems by (auto simp: numeral_2_eq_2 split: if_splits list.splits) (cases xs; auto split: if_splits)+
  then show ?case using Cons.IH by (auto simp: numeral_2_eq_2 option.map_comp o_def)
qed

text \<open>A pattern that appears only after more bytes came ends among them.\<close>

lemma index_of_new: "index_of p bs = None \<Longrightarrow> index_of p (bs @ cs) = Some i \<Longrightarrow> length bs < i + length p"
proof (induction p bs arbitrary: i rule: index_of.induct)
  case (1 p)
  then show ?case by (cases p) (simp_all split: if_splits)
next
  case (2 p b bs)
  have none: "take (length p) (b # bs) \<noteq> p" "index_of p bs = None" using 2(2) by (simp_all split: if_splits)
  show ?case
  proof (cases i)
    case 0
    then have "take (length p) ((b # bs) @ cs) = p" using 2(3) by (simp split: if_splits)
    then have "\<not> length p \<le> length (b # bs)" using none(1) by (metis take_append diff_is_0_eq take0 append_Nil2)
    then show ?thesis using 0 by simp
  next
    case (Suc j)
    then have "index_of p (bs @ cs) = Some j" using 2(3) by (auto split: if_splits)
    then show ?thesis using 2(1) none Suc by fastforce
  qed
qed

section \<open>Parsers of a byte stream\<close>

text \<open>
  \<open>drain b\<close> is what the parser reports on reading \<open>b\<close> and the bytes it keeps, or \<open>None\<close> when it gives up. \<open>small\<close> limits the
  streams for which the contract is promised: some parsers bound what they keep.
\<close>

fun feed :: "(byte_list \<Rightarrow> 'e list \<times> byte_list option) \<Rightarrow> byte_list \<Rightarrow> byte_list list \<Rightarrow> 'e list \<times> byte_list option" where
  "feed drain r [] = ([], Some r)"
| "feed drain r (c # cs) = (case drain (r @ c) of
     (es, None) \<Rightarrow> (es, None)
   | (es, Some r') \<Rightarrow> (es @ fst (feed drain r' cs), snd (feed drain r' cs)))"

locale stream_parser =
  fixes drain :: "byte_list \<Rightarrow> 'e list \<times> byte_list option" and small :: "byte_list \<Rightarrow> bool"
  assumes small_prefix: "small (b @ c) \<Longrightarrow> small b"
    and small_rest: "small (b @ c) \<Longrightarrow> drain b = (es, Some r) \<Longrightarrow> small (r @ c)"
    and resumes: "small (b @ c) \<Longrightarrow> drain b = (es, Some r) \<Longrightarrow> drain (b @ c) = (es @ fst (drain (r @ c)), snd (drain (r @ c)))"
    and gives_up: "small (b @ c) \<Longrightarrow> drain b = (es, None) \<Longrightarrow> drain (b @ c) = (es, None)"
begin

lemma kept_is_drained: "small b \<Longrightarrow> drain b = (es, Some r) \<Longrightarrow> drain r = ([], Some r)"
  using resumes [of b "[]" es r] by (cases "drain r") simp

lemma feed_concat: "small (r @ concat cs) \<Longrightarrow> drain r = ([], Some r) \<Longrightarrow> feed drain r cs = drain (r @ concat cs)"
proof (induction cs arbitrary: r)
  case (Cons c cs)
  obtain es x where d: "drain (r @ c) = (es, x)" by fastforce
  have small: "small ((r @ c) @ concat cs)" using Cons.prems(1) by simp
  show ?case
  proof (cases x)
    case None
    then show ?thesis using gives_up [OF small, of es] d by simp
  next
    case (Some r')
    have "small (r' @ concat cs)" using small_rest [OF small] d Some by simp
    moreover have "drain r' = ([], Some r')" using kept_is_drained small_prefix [OF small] d Some by simp
    ultimately have "feed drain r' cs = drain (r' @ concat cs)" by (rule Cons.IH)
    then show ?thesis using resumes [OF small, of es r'] d Some by simp
  qed
qed simp

text \<open>Two ways to cut the same stream give the same reports.\<close>

lemma feed_chunks:
  "small (concat cs) \<Longrightarrow> drain [] = ([], Some []) \<Longrightarrow> concat cs = concat ds \<Longrightarrow> feed drain [] cs = feed drain [] ds"
  using feed_concat [of "[]"] by simp

end

section \<open>Streams of records\<close>

text \<open>
  A record is a header of fixed length, which gives the size of what follows or shows that the stream is broken, and a
  payload, which gives a report or shows that it is broken.
\<close>

locale record_stream =
  fixes header :: nat and size :: "byte_list \<Rightarrow> nat option" and payload :: "byte_list \<Rightarrow> byte_list \<Rightarrow> 'e option"
    and drain :: "byte_list \<Rightarrow> 'e list \<times> byte_list option"
  assumes header_pos: "0 < header"
    and drain_eq: "drain b = (if length b < header then ([], Some b)
      else (case size (take header b) of
          None \<Rightarrow> ([], None)
        | Some n \<Rightarrow> (if length b < header + n then ([], Some b)
            else (case payload (take header b) (take n (drop header b)) of
                None \<Rightarrow> ([], None)
              | Some e \<Rightarrow> (case drain (drop (header + n) b) of (es, r) \<Rightarrow> (e # es, r))))))"
begin

lemma drain_record:
  "length h = header \<Longrightarrow> size h = Some (length p) \<Longrightarrow> payload h p = Some e \<Longrightarrow> drain (h @ p @ b) = (e # fst (drain b), snd (drain b))"
  by (subst drain_eq) (simp split: prod.split)

text \<open>The part of a stream a parser can still wait for.\<close>

lemma drain_cases:
  obtains (wait) "drain b = ([], Some b)"
    | (broken_size) "header \<le> length b" "size (take header b) = None" "drain b = ([], None)"
    | (broken) n where "size (take header b) = Some n" "header + n \<le> length b" "payload (take header b) (take n (drop header b)) = None" "drain b = ([], None)"
    | (found) h p e b' where "length h = header" "size h = Some (length p)" "payload h p = Some e" "b = h @ p @ b'"
proof (cases "length b < header")
  case True
  then show ?thesis using wait drain_eq [of b] by simp
next
  case False
  show ?thesis
  proof (cases "size (take header b)")
    case None
    then show ?thesis using False broken_size drain_eq [of b] by simp
  next
    case (Some n)
    show ?thesis
    proof (cases "length b < header + n")
      case True
      then show ?thesis using False Some wait drain_eq [of b] by simp
    next
      case long: False
      then have parts: "length (take header b) = header" "length (take n (drop header b)) = n"
        "b = take header b @ take n (drop header b) @ drop (header + n) b"
        by (simp_all add: add.commute [of header] flip: drop_drop)
      show ?thesis
      proof (cases "payload (take header b) (take n (drop header b))")
        case None
        then show ?thesis using False Some long broken drain_eq [of b] by simp
      next
        case (Some e)
        show ?thesis using found [OF parts(1) _ Some parts(3)] parts(2) \<open>size (take header b) = Some n\<close> by simp
      qed
    qed
  qed
qed

lemma drain_append:
  "drain (b @ c) = (case drain b of (es, None) \<Rightarrow> (es, None) | (es, Some r) \<Rightarrow> (es @ fst (drain (r @ c)), snd (drain (r @ c))))"
proof (induction "length b" arbitrary: b rule: less_induct)
  case less
  show ?case
  proof (cases b rule: drain_cases)
    case wait
    then show ?thesis by simp
  next
    case broken_size
    then show ?thesis using drain_eq [of "b @ c"] by simp
  next
    case (broken n)
    then have "header \<le> length b" by simp
    then show ?thesis using broken drain_eq [of "b @ c"] by simp
  next
    case (found h p e b')
    then have "length b' < length b" using header_pos by simp
    then show ?thesis using less [of b'] drain_record [OF found(1-3)] found(4)
      by (auto split: prod.splits option.splits)
  qed
qed

lemma keeps_no_more: "drain b = (es, Some r) \<Longrightarrow> length r \<le> length b"
proof (induction "length b" arbitrary: b es rule: less_induct)
  case less
  show ?case
  proof (cases b rule: drain_cases)
    case (found h p e b')
    then obtain es' where "drain b' = (es', Some r)" using less.prems drain_record [OF found(1-3), of b'] by (cases "drain b'") simp
    then show ?thesis using less.hyps [of b'] found(1,4) header_pos by fastforce
  qed (use less in simp_all)
qed

lemma record_resumes: "drain b = (es, Some r) \<Longrightarrow> drain (b @ c) = (es @ fst (drain (r @ c)), snd (drain (r @ c)))"
  and record_gives_up: "drain b = (es, None) \<Longrightarrow> drain (b @ c) = (es, None)"
  using drain_append [of b c] by simp_all

end

sublocale record_stream \<subseteq> records: stream_parser drain "\<lambda>_. True"
  by unfold_locales (rule TrueI | erule record_resumes record_gives_up)+

end
