(* ===== verification/Websocket_Authority.thy ===== *)
theory Websocket_Authority
  imports Takeover_Session Websocket_Channel Bytes
begin

text \<open>
  \<open>src/browser-takeover/websocket-ingress.ts\<close>: the authority that turns an authenticated session into a handshake ticket
  and a ticket into one client generation with a lease, the checks of the bootstrap and upgrade requests, and the bytes of
  a frame, which the page of \<open>websocket-browser-handoff.ts\<close> reads back. Leases keep the record they were made for, also
  after the maps dropped it: a record is a position in \<open>sa_records\<close>. \<open>sa_sessions\<close> is the session manager, which other
  parts of the program use as well. Clock readings, tickets and client bindings are arguments.
\<close>

section \<open>State\<close>

record socket_record =
  sr_session :: string
  sr_principal :: string
  sr_expires :: int
  sr_policy :: ws_policy
  sr_completion :: string
  sr_ticket :: "string option"
  sr_reconnect :: "string option"
  sr_client :: "string option"
  sr_generation :: "int option"

record socket_authority =
  sa_sessions :: takeover_world
  sa_records :: "socket_record list"
  sa_by_id :: "(string \<times> nat) list"
  sa_by_ticket :: "(string \<times> nat) list"

datatype socket_error = Socket_session takeover_error | Socket_generator | Socket_policy

record accepted_socket =
  as_record :: nat
  as_binding :: ws_binding
  as_policy :: ws_policy

definition new_socket_authority :: "takeover_world \<Rightarrow> socket_authority" where
  "new_socket_authority s = \<lparr>sa_sessions = s, sa_records = [], sa_by_id = [], sa_by_ticket = []\<rparr>"

section \<open>Input policies\<close>

definition is_bool :: "jsval \<Rightarrow> bool" where
  "is_bool v \<longleftrightarrow> (case v of JBool b \<Rightarrow> True | _ \<Rightarrow> False)"

definition policy_keys :: "string list" where
  "policy_keys = [''tap'', ''scroll'', ''text'', ''key'']"

text \<open>\<open>validateInputPolicy\<close>, and the policy the value then is.\<close>

definition validate_input_policy :: "jsval \<Rightarrow> ws_policy option" where
  "validate_input_policy v = (case v of
       JObj ps \<Rightarrow>
         if \<not> keys_exactly ps policy_keys \<or> \<not> list_all (\<lambda>k. is_bool (get_prop ps k)) policy_keys then None
         else Some \<lparr>wp_tap = (get_prop ps ''tap'' = JBool True), wp_scroll = (get_prop ps ''scroll'' = JBool True),
           wp_text = (get_prop ps ''text'' = JBool True), wp_key = (get_prop ps ''key'' = JBool True)\<rparr>
     | _ \<Rightarrow> None)"

definition same_input_policy :: "ws_policy \<Rightarrow> ws_policy \<Rightarrow> bool" where
  "same_input_policy l r \<longleftrightarrow> wp_tap l = wp_tap r \<and> wp_scroll l = wp_scroll r \<and> wp_text l = wp_text r \<and> wp_key l = wp_key r"

section \<open>Tickets\<close>

text \<open>A string that is present and not empty.\<close>

definition truthy :: "string option \<Rightarrow> string option" where
  "truthy s = (if s = Some [] then None else s)"

definition drop_ticket :: "string option \<Rightarrow> (string \<times> nat) list \<Rightarrow> (string \<times> nat) list" where
  "drop_ticket s m = (case truthy s of None \<Rightarrow> m | Some t \<Rightarrow> AList.delete t m)"

definition forget_record :: "nat \<Rightarrow> socket_authority \<Rightarrow> socket_authority" where
  "forget_record i a = a\<lparr>sa_by_ticket := drop_ticket (sr_ticket (sa_records a ! i)) (sa_by_ticket a),
     sa_by_id := AList.delete (sr_session (sa_records a ! i)) (sa_by_id a)\<rparr>"

definition prune_sockets :: "int \<Rightarrow> socket_authority \<Rightarrow> socket_authority" where
  "prune_sockets t a = fold (\<lambda>(k, i) b. if sr_expires (sa_records b ! i) \<le> t then forget_record i b else b) (sa_by_id a) a"

text \<open>The end of \<open>issueHandshakeTicket\<close>: the record gets the ticket.\<close>

definition give_ticket :: "nat \<Rightarrow> string \<Rightarrow> socket_authority \<Rightarrow> (socket_error + string) \<times> socket_authority" where
  "give_ticket i ticket a =
     (let b = a\<lparr>sa_by_ticket := drop_ticket (sr_ticket (sa_records a ! i)) (sa_by_ticket a)\<rparr> in
      if \<not> handle_shape ticket \<or> map_of (sa_by_ticket b) ticket \<noteq> None then (Inl Socket_generator, b)
      else (Inr ticket, b\<lparr>sa_records := (sa_records b)[i := (sa_records b ! i)\<lparr>sr_ticket := Some ticket\<rparr>],
        sa_by_ticket := AList.update ticket i (sa_by_ticket b)\<rparr>))"

definition issue_ticket ::
  "(string \<Rightarrow> string) \<Rightarrow> string \<Rightarrow> string \<Rightarrow> jsval \<Rightarrow> int \<Rightarrow> int \<Rightarrow> int \<Rightarrow> int \<Rightarrow> string \<Rightarrow> socket_authority \<Rightarrow>
   (socket_error + string) \<times> socket_authority" where
  "issue_ticket hmac k pb v t1 t2 t3 t4 ticket a0 = (case validate_input_policy v of
       None \<Rightarrow> (Inl Socket_policy, a0)
     | Some p \<Rightarrow>
         (let a = prune_sockets t1 a0; m = tw_records (sa_sessions a) in
          case validate_locator k pb t2 m of
            Inl e \<Rightarrow> (Inl (Socket_session e), a)
          | Inr l \<Rightarrow> (case map_of (sa_by_id a) k of
                Some i \<Rightarrow>
                  if \<not> same_bytes (sr_principal (sa_records a ! i)) pb \<or> \<not> same_input_policy (sr_policy (sa_records a ! i)) p
                  then (Inl (Socket_session TAKEOVER_FORBIDDEN), a) else give_ticket i ticket a
              | None \<Rightarrow> (case issue_completion_capability hmac k pb t3 t4 m of
                    Inl e \<Rightarrow> (Inl (Socket_session e), a)
                  | Inr cap \<Rightarrow>
                      (let i = length (sa_records a) in
                       give_ticket i ticket (a\<lparr>sa_records := sa_records a @ [\<lparr>sr_session = k, sr_principal = pb,
                           sr_expires = tl_expires l, sr_policy = p, sr_completion = cap, sr_ticket = None,
                           sr_reconnect = None, sr_client = None, sr_generation = None\<rparr>],
                         sa_by_id := AList.update k i (sa_by_id a)\<rparr>))))))"

definition invalidate_ticket :: "string \<Rightarrow> socket_authority \<Rightarrow> socket_authority" where
  "invalidate_ticket ticket a = (case map_of (sa_by_ticket a) ticket of
       None \<Rightarrow> a
     | Some i \<Rightarrow>
         (let b = a\<lparr>sa_by_ticket := AList.delete ticket (sa_by_ticket a)\<rparr> in
          if truthy (sr_ticket (sa_records a ! i)) = Some ticket
          then b\<lparr>sa_records := (sa_records a)[i := (sa_records a ! i)\<lparr>sr_ticket := None\<rparr>]\<rparr> else b))"

section \<open>Accepting a socket\<close>

definition set_sessions :: "takeovers \<Rightarrow> socket_authority \<Rightarrow> socket_authority" where
  "set_sessions m a = a\<lparr>sa_sessions := (sa_sessions a)\<lparr>tw_records := m\<rparr>\<rparr>"

definition socket_grant ::
  "takeover_config \<Rightarrow> (string \<Rightarrow> string) \<Rightarrow> socket_record \<Rightarrow> string \<Rightarrow> int \<Rightarrow> int \<Rightarrow> int \<Rightarrow> takeovers \<Rightarrow>
   (takeover_error + takeover_grant) \<times> takeovers" where
  "socket_grant cfg hmac r nb t1 t2 t3 m = (case sr_reconnect r of
       None \<Rightarrow> claim_client hmac (sr_session r) (sr_principal r) nb t1 t2 m
     | Some h \<Rightarrow> reconnect_client cfg hmac (sr_session r) (sr_principal r) h nb t1 t2 t3 m)"

definition accept_socket ::
  "takeover_config \<Rightarrow> (string \<Rightarrow> string) \<Rightarrow> string \<Rightarrow> string \<Rightarrow> string \<Rightarrow> int \<Rightarrow> int \<Rightarrow> int \<Rightarrow> int \<Rightarrow> int \<Rightarrow>
   socket_authority \<Rightarrow> (socket_error + accepted_socket) \<times> socket_authority" where
  "accept_socket cfg hmac k ticket nb t1 t2 t3 t4 t5 a0 =
     (let a = prune_sockets t1 a0 in
      case map_of (sa_by_ticket a) ticket of
        None \<Rightarrow> (Inl (Socket_session TAKEOVER_FORBIDDEN), a)
      | Some i \<Rightarrow>
          (let r = sa_records a ! i in
           if truthy (sr_ticket r) \<noteq> Some ticket \<or> \<not> same_bytes (sr_session r) k \<or> sr_expires r \<le> t2
           then (Inl (Socket_session TAKEOVER_FORBIDDEN), a)
           else if \<not> client_shape nb then (Inl Socket_generator, a)
           else (case socket_grant cfg hmac r nb t3 t4 t5 (tw_records (sa_sessions a)) of
               (Inl e, m) \<Rightarrow> (Inl (Socket_session e), set_sessions m a)
             | (Inr g, m) \<Rightarrow>
                 (Inr \<lparr>as_record = i,
                    as_binding = \<lparr>wb_intervention = tl_intervention (tg_locator g), wb_epoch = num_of_int (tl_epoch (tg_locator g)),
                      wb_principal = tl_principal (tg_locator g), wb_client = tg_client g,
                      wb_generation = num_of_int (tg_generation g)\<rparr>,
                    as_policy = sr_policy r\<rparr>,
                  (set_sessions m a)\<lparr>sa_records := (sa_records a)[i := r\<lparr>sr_reconnect := Some (tg_reconnect g),
                    sr_client := Some (tg_client g), sr_generation := Some (tg_generation g)\<rparr>]\<rparr>))))"

definition revoke_socket_session :: "string \<Rightarrow> socket_authority \<Rightarrow> socket_authority" where
  "revoke_socket_session k a0 =
     (let a = (case map_of (sa_by_id a0) k of None \<Rightarrow> a0 | Some i \<Rightarrow> forget_record i a0) in
      set_sessions (revoke_takeover k (tw_records (sa_sessions a))) a)"

section \<open>Leases\<close>

definition record_holds :: "socket_record \<Rightarrow> ws_binding \<Rightarrow> bool" where
  "record_holds r b \<longleftrightarrow> (case sr_generation r of None \<Rightarrow> False | Some g \<Rightarrow> num_eq (num_of_int g) (wb_generation b))
     \<and> (case truthy (sr_client r) of None \<Rightarrow> False | Some c \<Rightarrow> same_bytes c (wb_client b))"

definition lease_begin ::
  "nat \<Rightarrow> ws_binding \<Rightarrow> int \<Rightarrow> int \<Rightarrow> socket_authority \<Rightarrow> (takeover_error + unit) \<times> socket_authority" where
  "lease_begin i b t1 t2 a =
     (let r = sa_records a ! i in
      if \<not> record_holds r b then (Inl TAKEOVER_FORBIDDEN, a)
      else (case begin_bound_use (sr_session r) (sr_principal r) (wb_client b) (wb_generation b) t1 t2
            (tw_records (sa_sessions a)) of
          (Inl e, m) \<Rightarrow> (Inl e, set_sessions m a)
        | (Inr u, m) \<Rightarrow> (Inr (), set_sessions m a)))"

definition lease_end :: "nat \<Rightarrow> ws_binding \<Rightarrow> int \<Rightarrow> int \<Rightarrow> socket_authority \<Rightarrow> socket_authority" where
  "lease_end i b t1 t2 a =
     (let r = sa_records a ! i in
      set_sessions (end_use (sr_session r) (sr_principal r) (wb_client b) (wb_generation b) t1 t2
        (tw_records (sa_sessions a))) a)"

definition lease_complete ::
  "(string \<Rightarrow> string) \<Rightarrow> nat \<Rightarrow> ws_binding \<Rightarrow> int \<Rightarrow> int \<Rightarrow> socket_authority \<Rightarrow>
   (takeover_error + takeover_locator \<times> bool) \<times> socket_authority" where
  "lease_complete hmac i b t1 t2 a =
     (let r = sa_records a ! i in
      if \<not> record_holds r b then (Inl TAKEOVER_FORBIDDEN, a)
      else (case complete_takeover hmac (sr_session r) (sr_completion r) (sr_principal r) t1 t2 (tw_records (sa_sessions a)) of
          (Inl e, m) \<Rightarrow> (Inl e, set_sessions m a)
        | (Inr c, m) \<Rightarrow> (Inr c, forget_record i (set_sessions m a))))"

definition lease_release ::
  "nat \<Rightarrow> ws_binding \<Rightarrow> int \<Rightarrow> socket_authority \<Rightarrow> (takeover_error + unit) \<times> socket_authority" where
  "lease_release i b t a =
     (let r = sa_records a ! i in
      if \<not> record_holds r b then (Inr (), a)
      else (case release_client_generation (sr_session r) (sr_principal r) (wb_client b) (wb_generation b) t
            (tw_records (sa_sessions a)) of
          (Inr u, m) \<Rightarrow> (Inr (), set_sessions m a)
        | (Inl e, m) \<Rightarrow> (if e \<in> {TAKEOVER_NOT_FOUND, TAKEOVER_EXPIRED} then Inr () else Inl e, set_sessions m a)))"

section \<open>Requests\<close>

text \<open>\<open>normalizeAllowedOrigins\<close>, the limits, and the peer's close code. A URL is what \<open>new URL\<close> makes of the text,
  \<open>None\<close> when it throws.\<close>

record web_url =
  wu_protocol :: string
  wu_origin :: string
  wu_username :: string
  wu_password :: string
  wu_path :: string
  wu_search :: string
  wu_hash :: string

definition normalize_allowed_origins :: "(string \<Rightarrow> web_url option) \<Rightarrow> string list \<Rightarrow> string list option" where
  "normalize_allowed_origins url vs =
     (if length vs < 1 \<or> 32 < length vs \<or> list_ex (\<lambda>v. case url v of
          None \<Rightarrow> True
        | Some u \<Rightarrow> wu_protocol u \<noteq> ''https:'' \<or> wu_origin u \<noteq> v \<or> wu_username u \<noteq> [] \<or> wu_password u \<noteq> []
            \<or> wu_path u \<noteq> ''/'' \<or> wu_search u \<noteq> [] \<or> wu_hash u \<noteq> []) vs
      then None else Some (remdups vs))"

definition bounded_peer_close_code :: "jsval \<Rightarrow> int" where
  "bounded_peer_close_code v = (case v of
       JNum n \<Rightarrow> if num_integer n \<and> 1000 \<le> num_to_int n \<and> num_to_int n \<le> 4999 then num_to_int n else 0 | _ \<Rightarrow> 0)"

definition is_path_id :: "string \<Rightarrow> bool" where
  "is_path_id s \<longleftrightarrow> 8 \<le> length s \<and> length s \<le> 100 \<and> list_all (\<lambda>c. is_alnum c \<or> c = CHR ''-'') s"

definition path_id :: "string \<Rightarrow> string \<Rightarrow> string option" where
  "path_id start p = (if take (length start) p = start \<and> is_path_id (drop (length start) p)
     then Some (drop (length start) p) else None)"

fun split_commas :: "string \<Rightarrow> string list" where
  "split_commas [] = [[]]"
| "split_commas (c # s) = (if c = CHR '','' then [] # split_commas s
     else (case split_commas s of [] \<Rightarrow> [[c]] | w # ws \<Rightarrow> (c # w) # ws))"

definition handoff_subprotocol :: string where
  "handoff_subprotocol = ''mcp-handoff.websocket.v1''"

definition handshake_prefix :: string where
  "handshake_prefix = ''mcp-handoff-auth.''"

definition handshake_ticket :: "string option \<Rightarrow> string option" where
  "handshake_ticket header = (case header of
       None \<Rightarrow> None
     | Some v \<Rightarrow> (case filter (\<lambda>p. p \<noteq> []) (map trim (split_commas v)) of
           [p, q] \<Rightarrow>
             if p = handoff_subprotocol \<and> take (length handshake_prefix) q = handshake_prefix
               \<and> handle_shape (drop (length handshake_prefix) q)
             then Some (drop (length handshake_prefix) q) else None
         | _ \<Rightarrow> None))"

text \<open>The request of an upgrade; \<open>uq_url\<close> is the parsed URL, \<open>None\<close> when the request has no host or no parsable URL.\<close>

record upgrade_request =
  uq_method :: string
  uq_url :: "web_url option"
  uq_origin :: "string option"
  uq_protocols :: "string option"
  uq_upgrade :: "string option"
  uq_version :: "string option"

datatype handshake = Hs_other | Hs_reject nat | Hs_ticket string string

definition lower_char :: "char \<Rightarrow> char" where
  "lower_char c = (let n = char_code c in
     if 65 \<le> n \<and> n \<le> 90 \<or> 192 \<le> n \<and> n \<le> 222 \<and> n \<noteq> 215 then char_of (n + 32) else c)"

definition parse_handshake :: "string list \<Rightarrow> upgrade_request \<Rightarrow> handshake" where
  "parse_handshake origins q = (case uq_url q of
       None \<Rightarrow> Hs_other
     | Some u \<Rightarrow> (case path_id ''/takeover/ws/'' (wu_path u) of
           None \<Rightarrow> Hs_other
         | Some k \<Rightarrow>
             if uq_method q \<noteq> ''GET'' \<or> wu_search u \<noteq> [] \<or> wu_hash u \<noteq> [] then Hs_reject 404
             else (case truthy (uq_origin q) of
                 None \<Rightarrow> Hs_reject 403
               | Some site \<Rightarrow>
                   if site \<notin> set origins then Hs_reject 403
                   else (case handshake_ticket (uq_protocols q) of
                       None \<Rightarrow> Hs_reject 404
                     | Some t \<Rightarrow>
                         if map_option (map lower_char) (uq_upgrade q) \<noteq> Some ''websocket'' then Hs_reject 400
                         else if uq_version q \<noteq> Some ''13'' then Hs_reject 400
                         else Hs_ticket k t))))"

datatype bootstrap_reply = Boot_none | Boot_status nat | Boot_ticket string | Boot_throws

text \<open>\<open>handleBootstrap\<close>; the principal and the policy come from the enclosing server.\<close>

definition handle_bootstrap ::
  "(string \<Rightarrow> string) \<Rightarrow> string list \<Rightarrow> string \<Rightarrow> web_url \<Rightarrow> string option \<Rightarrow> string option \<Rightarrow> jsval \<Rightarrow>
   int \<Rightarrow> int \<Rightarrow> int \<Rightarrow> int \<Rightarrow> string \<Rightarrow> socket_authority \<Rightarrow> bootstrap_reply \<times> socket_authority" where
  "handle_bootstrap hmac origins method u origin pb v t1 t2 t3 t4 ticket a =
     (case path_id ''/takeover/api/websocket-bootstrap/'' (wu_path u) of
        None \<Rightarrow> (Boot_none, a)
      | Some k \<Rightarrow>
          if method \<noteq> ''POST'' then (Boot_status 405, a)
          else if wu_search u \<noteq> [] \<or> wu_hash u \<noteq> [] then (Boot_status 404, a)
          else (case truthy pb of
              None \<Rightarrow> (Boot_status 404, a)
            | Some owner \<Rightarrow> (case truthy origin of
                  None \<Rightarrow> (Boot_status 403, a)
                | Some site \<Rightarrow>
                    if site \<notin> set origins then (Boot_status 403, a)
                    else (case issue_ticket hmac k owner v t1 t2 t3 t4 ticket a of
                        (Inr t, b) \<Rightarrow> (Boot_ticket t, b)
                      | (Inl (Socket_session e), b) \<Rightarrow> (Boot_status 404, b)
                      | (Inl e, b) \<Rightarrow> (Boot_throws, b)))))"

text \<open>The status an upgrade is rejected with when the ticket is not accepted.\<close>

definition reject_status :: "socket_error \<Rightarrow> nat" where
  "reject_status e = (if e = Socket_session TAKEOVER_CLIENT_ACTIVE then 409 else 404)"

section \<open>Frames on the wire\<close>

definition frame_magic :: nat where
  "frame_magic = 0x484f4631"

text \<open>\<open>NodeWebSocketTakeoverPeer.sendFrame\<close>.\<close>

definition frame_message :: "ws_frame \<Rightarrow> byte_list \<Rightarrow> byte_list" where
  "frame_message f data = big_endian 4 frame_magic @ [if wf_mime f = ''image/jpeg'' then 1 else 2] @ [0]
     @ big_endian 2 (nat (num_to_int (wf_width f))) @ big_endian 2 (nat (num_to_int (wf_height f)))
     @ big_endian 4 (length data) @ big_endian 2 0 @ data"

text \<open>\<open>parseFrame\<close> of the page: the MIME type, the size of the picture and its bytes.\<close>

definition parse_page_frame :: "byte_list \<Rightarrow> (string \<times> nat \<times> nat \<times> byte_list) option" where
  "parse_page_frame bs =
     (if length bs < 16 then None
      else if read_big_endian bs 0 4 \<noteq> frame_magic \<or> read_big_endian bs 5 1 \<noteq> 0 \<or> read_big_endian bs 14 2 \<noteq> 0 then None
      else (let code = read_big_endian bs 4 1; w = read_big_endian bs 6 2; h = read_big_endian bs 8 2;
                n = read_big_endian bs 10 4;
                mime = (if code = 1 then ''image/jpeg'' else if code = 2 then ''image/png'' else []) in
            if w = 0 \<or> h = 0 \<or> n \<noteq> length bs - 16 then None
            else if mime = [] then None
            else Some (mime, w, h, drop 16 bs)))"

section \<open>Runs\<close>

datatype socket_move =
    So_issue string string jsval int int int int string
  | So_accept string string string int int int int int
  | So_invalidate string
  | So_revoke string
  | So_begin nat ws_binding int int
  | So_end nat ws_binding int int
  | So_complete nat ws_binding int int
  | So_release nat ws_binding int
  | So_manager takeover_call

fun socket_step :: "takeover_config \<Rightarrow> (string \<Rightarrow> string) \<Rightarrow> socket_authority \<Rightarrow> socket_move \<Rightarrow> socket_authority" where
  "socket_step cfg hmac a (So_issue k pb v t1 t2 t3 t4 ticket) = snd (issue_ticket hmac k pb v t1 t2 t3 t4 ticket a)"
| "socket_step cfg hmac a (So_accept k ticket nb t1 t2 t3 t4 t5) = snd (accept_socket cfg hmac k ticket nb t1 t2 t3 t4 t5 a)"
| "socket_step cfg hmac a (So_invalidate ticket) = invalidate_ticket ticket a"
| "socket_step cfg hmac a (So_revoke k) = revoke_socket_session k a"
| "socket_step cfg hmac a (So_begin i b t1 t2) = (if i < length (sa_records a) then snd (lease_begin i b t1 t2 a) else a)"
| "socket_step cfg hmac a (So_end i b t1 t2) = (if i < length (sa_records a) then lease_end i b t1 t2 a else a)"
| "socket_step cfg hmac a (So_complete i b t1 t2) = (if i < length (sa_records a) then snd (lease_complete hmac i b t1 t2 a) else a)"
| "socket_step cfg hmac a (So_release i b t) = (if i < length (sa_records a) then snd (lease_release i b t a) else a)"
| "socket_step cfg hmac a (So_manager c) = a\<lparr>sa_sessions := takeover_step cfg hmac (sa_sessions a) c\<rparr>"

section \<open>Pruning and forgetting\<close>

text \<open>They change the two maps only, and only drop entries.\<close>

definition drops :: "socket_authority \<Rightarrow> socket_authority \<Rightarrow> bool" where
  "drops a b \<longleftrightarrow> sa_sessions b = sa_sessions a \<and> sa_records b = sa_records a
     \<and> set (sa_by_id b) \<subseteq> set (sa_by_id a) \<and> set (sa_by_ticket b) \<subseteq> set (sa_by_ticket a)"

lemma drops_refl [simp]: "drops a a"
  by (simp add: drops_def)

lemma drops_trans: "drops a b \<Longrightarrow> drops b c \<Longrightarrow> drops a c"
  by (auto simp: drops_def)

lemma drop_ticket_subset: "set (drop_ticket s m) \<subseteq> set m"
  by (auto simp: drop_ticket_def AList.delete_eq split: option.split)

lemma forget_drops: "drops a (forget_record i a)"
  using drop_ticket_subset by (auto simp: drops_def forget_record_def AList.delete_eq)

lemma prune_drops: "drops a (prune_sockets t a)"
proof -
  let ?f = "\<lambda>(k, i) b. if sr_expires (sa_records b ! i) \<le> t then forget_record i b else b"
  have "drops a b \<Longrightarrow> drops a (fold ?f xs b)" for xs b
  proof (induction xs arbitrary: b)
    case (Cons x xs)
    have "drops a (?f x b)" using Cons.prems drops_trans [OF _ forget_drops] by (cases x) simp
    then show ?case using Cons.IH by simp
  qed simp
  from this [of a "sa_by_id a"] show ?thesis by (simp add: prune_sockets_def)
qed

lemma prune_fields [simp]:
  "sa_sessions (prune_sockets t a) = sa_sessions a" "sa_records (prune_sockets t a) = sa_records a"
  using prune_drops [of a t] by (simp_all add: drops_def)

lemma forget_fields [simp]:
  "sa_sessions (forget_record i a) = sa_sessions a" "sa_records (forget_record i a) = sa_records a"
  by (simp_all add: forget_record_def)

lemma set_sessions_fields [simp]:
  "sa_records (set_sessions m a) = sa_records a" "sa_by_id (set_sessions m a) = sa_by_id a"
  "sa_by_ticket (set_sessions m a) = sa_by_ticket a" "sa_sessions (set_sessions m a) = (sa_sessions a)\<lparr>tw_records := m\<rparr>"
  by (simp_all add: set_sessions_def)

section \<open>The session manager under the authority\<close>

lemma step_of_op: "new_id_of c = None \<Longrightarrow> takeover_step cfg hmac s c = s\<lparr>tw_records := takeover_op cfg hmac (tw_records s) c\<rparr>"
  by (simp add: takeover_step_def)

text \<open>Whatever the authority does, the manager makes at most one step.\<close>

fun ends_client :: "string \<Rightarrow> takeover_call \<Rightarrow> bool" where
  "ends_client cb (End_use i pb c g t1 t2) = (c = cb)"
| "ends_client cb _ = False"

text \<open>The move ends a use of the client \<open>cb\<close>.\<close>

fun ends_socket :: "string \<Rightarrow> socket_move \<Rightarrow> bool" where
  "ends_socket cb (So_end i b t1 t2) = (wb_client b = cb)"
| "ends_socket cb (So_manager c) = ends_client cb c"
| "ends_socket cb _ = False"

definition one_call :: "(takeover_call \<Rightarrow> bool) \<Rightarrow> takeover_config \<Rightarrow> (string \<Rightarrow> string) \<Rightarrow> takeover_world \<Rightarrow> takeover_world \<Rightarrow> bool" where
  "one_call P cfg hmac s s' \<longleftrightarrow> s' = s \<or> (\<exists>c. P c \<and> s' = takeover_step cfg hmac s c)"

lemma one_call_op: "P c \<Longrightarrow> new_id_of c = None \<Longrightarrow> m = takeover_op cfg hmac (tw_records s) c \<Longrightarrow> one_call P cfg hmac s (s\<lparr>tw_records := m\<rparr>)"
  unfolding one_call_def using step_of_op by metis

lemma one_call_refl [simp]: "one_call P cfg hmac s s"
  by (simp add: one_call_def)

lemma grant_call: "(\<And>c. (\<And>cb. \<not> ends_client cb c) \<Longrightarrow> P c) \<Longrightarrow> socket_grant cfg hmac r nb t1 t2 t3 (tw_records s) = (g, m) \<Longrightarrow> one_call P cfg hmac s (s\<lparr>tw_records := m\<rparr>)"
  by (cases "sr_reconnect r")
    (auto simp: socket_grant_def intro: one_call_op [of P "Claim_client (sr_session r) (sr_principal r) nb t1 t2"]
      one_call_op [of P "Reconnect_client (sr_session r) (sr_principal r) (the (sr_reconnect r)) nb t1 t2 t3"])

lemma give_ticket_fields: "sa_sessions (snd (give_ticket i ticket a)) = sa_sessions a"
  by (simp add: give_ticket_def Let_def)

lemma step_one_call: "one_call (\<lambda>c. \<forall>cb. ends_client cb c \<longrightarrow> ends_socket cb m) cfg hmac (sa_sessions a) (sa_sessions (socket_step cfg hmac a m))"
proof (induction cfg hmac a m rule: socket_step.induct)
  case (1 cfg hmac a k pb v t1 t2 t3 t4 ticket)
  then show ?case by (auto simp: issue_ticket_def Let_def give_ticket_fields split: option.split sum.split)
next
  case (2 cfg hmac a k ticket nb t1 t2 t3 t4 t5)
  then show ?case
    by (auto simp: accept_socket_def Let_def grant_call split: option.split sum.split prod.split)
next
  case (3 cfg hmac a ticket)
  then show ?case by (auto simp: invalidate_ticket_def Let_def split: option.split)
next
  case (4 cfg hmac a k)
  have "one_call (\<lambda>c. \<forall>cb. ends_client cb c \<longrightarrow> ends_socket cb (So_revoke k)) cfg hmac s (s\<lparr>tw_records := revoke_takeover k (tw_records s)\<rparr>)" for s
    by (rule one_call_op [of _ "Revoke_session k"]) simp_all
  then show ?case by (auto simp: revoke_socket_session_def Let_def split: option.split)
next
  case (5 cfg hmac a i b t1 t2)
  let ?r = "sa_records a ! i"
  have "one_call (\<lambda>c. \<forall>cb. ends_client cb c \<longrightarrow> ends_socket cb (So_begin i b t1 t2)) cfg hmac (sa_sessions a) ((sa_sessions a)\<lparr>tw_records := snd (begin_bound_use (sr_session ?r) (sr_principal ?r)
      (wb_client b) (wb_generation b) t1 t2 (tw_records (sa_sessions a)))\<rparr>)"
    by (rule one_call_op [of _ "Begin_bound_use (sr_session ?r) (sr_principal ?r) (wb_client b) (wb_generation b) t1 t2"]) simp_all
  then show ?case by (auto simp: lease_begin_def Let_def split: prod.split sum.split)
next
  case (6 cfg hmac a i b t1 t2)
  let ?r = "sa_records a ! i"
  have "one_call (\<lambda>c. \<forall>cb. ends_client cb c \<longrightarrow> ends_socket cb (So_end i b t1 t2)) cfg hmac (sa_sessions a) ((sa_sessions a)\<lparr>tw_records := end_use (sr_session ?r) (sr_principal ?r)
      (wb_client b) (wb_generation b) t1 t2 (tw_records (sa_sessions a))\<rparr>)"
    by (rule one_call_op [of _ "End_use (sr_session ?r) (sr_principal ?r) (wb_client b) (wb_generation b) t1 t2"]) simp_all
  then show ?case by (simp add: lease_end_def Let_def)
next
  case (7 cfg hmac a i b t1 t2)
  let ?r = "sa_records a ! i"
  have "one_call (\<lambda>c. \<forall>cb. ends_client cb c \<longrightarrow> ends_socket cb (So_complete i b t1 t2)) cfg hmac (sa_sessions a) ((sa_sessions a)\<lparr>tw_records := snd (complete_takeover hmac (sr_session ?r)
      (sr_completion ?r) (sr_principal ?r) t1 t2 (tw_records (sa_sessions a)))\<rparr>)"
    by (rule one_call_op [of _ "Complete_session (sr_session ?r) (sr_completion ?r) (sr_principal ?r) t1 t2"]) simp_all
  then show ?case by (auto simp: lease_complete_def Let_def split: prod.split sum.split)
next
  case (8 cfg hmac a i b t)
  let ?r = "sa_records a ! i"
  have "one_call (\<lambda>c. \<forall>cb. ends_client cb c \<longrightarrow> ends_socket cb (So_release i b t)) cfg hmac (sa_sessions a) ((sa_sessions a)\<lparr>tw_records := snd (release_client_generation (sr_session ?r)
      (sr_principal ?r) (wb_client b) (wb_generation b) t (tw_records (sa_sessions a)))\<rparr>)"
    by (rule one_call_op [of _ "Release_generation (sr_session ?r) (sr_principal ?r) (wb_client b) (wb_generation b) t"]) simp_all
  moreover obtain q m where "release_client_generation (sr_session ?r) (sr_principal ?r) (wb_client b) (wb_generation b) t
      (tw_records (sa_sessions a)) = (q, m)" by fastforce
  ultimately show ?case by (cases q) (simp_all add: lease_release_def Let_def)
next
  case (9 cfg hmac a c)
  then show ?case by (auto simp: one_call_def)
qed

section \<open>Records\<close>

text \<open>What no operation undoes: the session, the owner and the policy of a record are fixed, and its generation only
  grows; a generation keeps its client.\<close>

definition socket_le :: "socket_record \<Rightarrow> socket_record \<Rightarrow> bool" where
  "socket_le r r' \<longleftrightarrow> sr_session r' = sr_session r \<and> sr_principal r' = sr_principal r \<and> sr_expires r' = sr_expires r
     \<and> sr_policy r' = sr_policy r \<and> sr_completion r' = sr_completion r
     \<and> (\<forall>g. sr_generation r = Some g \<longrightarrow> (\<exists>g'. sr_generation r' = Some g' \<and> g \<le> g' \<and> (g = g' \<longrightarrow> sr_client r' = sr_client r)))"

lemma socket_le_refl [simp]: "socket_le r r"
  by (simp add: socket_le_def)

lemma socket_le_ticket [simp]: "socket_le r (r\<lparr>sr_ticket := t\<rparr>)"
  by (simp add: socket_le_def)

definition records_le :: "socket_authority \<Rightarrow> socket_authority \<Rightarrow> bool" where
  "records_le a b \<longleftrightarrow> length (sa_records a) \<le> length (sa_records b)
     \<and> (\<forall>i < length (sa_records a). socket_le (sa_records a ! i) (sa_records b ! i))"

lemma socket_le_trans:
  assumes "socket_le p q" and "socket_le q r"
  shows "socket_le p r"
proof -
  have "\<exists>g'. sr_generation r = Some g' \<and> g \<le> g' \<and> (g = g' \<longrightarrow> sr_client r = sr_client p)" if g: "sr_generation p = Some g" for g
  proof -
    obtain h where h: "sr_generation q = Some h" "g \<le> h" "g = h \<longrightarrow> sr_client q = sr_client p"
      using assms(1) g by (auto simp: socket_le_def)
    obtain k where "sr_generation r = Some k" "h \<le> k" "h = k \<longrightarrow> sr_client r = sr_client q"
      using assms(2) h(1) by (auto simp: socket_le_def)
    then show ?thesis using h by auto
  qed
  then show ?thesis using assms by (simp add: socket_le_def)
qed

lemma records_le_refl [simp]: "records_le a a"
  by (simp add: records_le_def)

lemma records_le_trans: "records_le a b \<Longrightarrow> records_le b c \<Longrightarrow> records_le a c"
  unfolding records_le_def using socket_le_trans by force

text \<open>A record that was given a generation keeps a reconnect handle, and its session has not fallen below it.\<close>

definition socket_good :: "takeover_world \<Rightarrow> socket_record \<Rightarrow> bool" where
  "socket_good s r \<longleftrightarrow> sr_session r \<in> set (tw_used s) \<and> (sr_reconnect r = None \<longleftrightarrow> sr_generation r = None)
     \<and> (\<forall>g q. sr_generation r = Some g \<and> map_of (tw_records s) (sr_session r) = Some q \<longrightarrow> g \<le> tk_generation q)"

definition authority_good :: "socket_authority \<Rightarrow> bool" where
  "authority_good a \<longleftrightarrow> world_good (sa_sessions a) \<and> list_all (socket_good (sa_sessions a)) (sa_records a)
     \<and> (\<forall>(k, i) \<in> set (sa_by_id a). i < length (sa_records a) \<and> sr_session (sa_records a ! i) = k)
     \<and> (\<forall>(k, i) \<in> set (sa_by_ticket a). i < length (sa_records a))"

lemma one_call_good: "world_good s \<Longrightarrow> one_call P cfg hmac s s' \<Longrightarrow> world_good s'"
  by (auto simp: one_call_def world_good_step)

lemma one_call_socket_good:
  assumes "world_good s" and "one_call P cfg hmac s s'" and "socket_good s r"
  shows "socket_good s' r"
proof -
  have "g \<le> tk_generation q" if g: "sr_generation r = Some g" and q: "map_of (tw_records s') (sr_session r) = Some q" for g q
  proof (cases "s' = s")
    case True
    then show ?thesis using g q assms(3) by (auto simp: socket_good_def)
  next
    case False
    then obtain c where c: "s' = takeover_step cfg hmac s c" using assms(2) by (auto simp: one_call_def)
    have "sr_session r \<in> set (tw_used s)" using assms(3) by (simp add: socket_good_def)
    then obtain p where "map_of (tw_records s) (sr_session r) = Some p" "record_le p q"
      using step_record [OF assms(1)] q c by blast
    then show ?thesis using assms(3) g by (force simp: socket_good_def record_le_def)
  qed
  moreover have "sr_session r \<in> set (tw_used s')"
    using assms(2,3) used_step by (auto simp: one_call_def socket_good_def)
  ultimately show ?thesis using assms(3) by (simp add: socket_good_def)
qed

text \<open>A step that keeps the records, or changes one of them.\<close>

lemma authority_good_keep:
  assumes "authority_good a" and "one_call P cfg hmac (sa_sessions a) (sa_sessions b)" and "sa_records b = sa_records a"
    and "set (sa_by_id b) \<subseteq> set (sa_by_id a)" and "set (sa_by_ticket b) \<subseteq> set (sa_by_ticket a)"
  shows "authority_good b \<and> records_le a b"
  using assms one_call_good one_call_socket_good
  by (auto simp: authority_good_def list_all_iff records_le_def)

lemma authority_good_change:
  assumes good: "authority_good a" and call: "one_call P cfg hmac (sa_sessions a) (sa_sessions b)"
    and "i < length (sa_records a)" and "sa_records b = (sa_records a)[i := r]" and "socket_le (sa_records a ! i) r"
    and "socket_good (sa_sessions b) r" and "set (sa_by_id b) \<subseteq> set (sa_by_id a)"
    and "set (sa_by_ticket b) \<subseteq> insert (ticket, i) (set (sa_by_ticket a))"
  shows "authority_good b \<and> records_le a b"
proof -
  have world: "world_good (sa_sessions a)" using good by (simp add: authority_good_def)
  have old: "socket_good (sa_sessions b) q" if "q \<in> set (sa_records a)" for q
    using good that one_call_socket_good [OF world call] by (auto simp: authority_good_def list_all_iff)
  have "\<forall>q \<in> set (sa_records b). socket_good (sa_sessions b) q"
    using assms(4,6) old set_update_subset_insert [of "sa_records a" i r] by auto
  moreover have same: "sr_session (sa_records b ! j) = sr_session (sa_records a ! j)" if "j < length (sa_records a)" for j
    using that assms(3-5) by (cases "j = i") (simp_all add: socket_le_def)
  moreover have "\<forall>(k, j) \<in> set (sa_by_id b). j < length (sa_records b) \<and> sr_session (sa_records b ! j) = k"
  proof (clarify)
    fix k j assume "(k, j) \<in> set (sa_by_id b)"
    then have "(k, j) \<in> set (sa_by_id a)" using assms(7) by blast
    then have "j < length (sa_records a) \<and> sr_session (sa_records a ! j) = k" using good by (auto simp: authority_good_def)
    then show "j < length (sa_records b) \<and> sr_session (sa_records b ! j) = k" using same assms(4) by simp
  qed
  moreover have "\<forall>(k, j) \<in> set (sa_by_ticket b). j < length (sa_records b)"
    using good assms(3,4,8) by (auto simp: authority_good_def)
  ultimately have "authority_good b"
    using one_call_good [OF world call] by (simp add: authority_good_def list_all_iff)
  moreover have "records_le a b"
    using assms(3-5) by (auto simp: records_le_def nth_list_update)
  ultimately show ?thesis ..
qed

section \<open>Every step keeps them\<close>

lemma map_of_member: "map_of m k = Some i \<Longrightarrow> (k, i) \<in> set m"
  by (rule map_of_SomeD)

lemma update_subset: "set (AList.update k v m) \<subseteq> insert (k, v) (set m)"
  by (induction m) auto

lemma give_ticket_keeps:
  assumes good: "authority_good a" and i: "i < length (sa_records a)"
  shows "authority_good (snd (give_ticket i ticket a)) \<and> records_le a (snd (give_ticket i ticket a))"
proof -
  let ?b = "a\<lparr>sa_by_ticket := drop_ticket (sr_ticket (sa_records a ! i)) (sa_by_ticket a)\<rparr>"
  let ?c = "?b\<lparr>sa_records := (sa_records ?b)[i := (sa_records ?b ! i)\<lparr>sr_ticket := Some ticket\<rparr>],
    sa_by_ticket := AList.update ticket i (sa_by_ticket ?b)\<rparr>"
  have keep: "authority_good ?b \<and> records_le a ?b"
    by (rule authority_good_keep [OF good, where P = "\<lambda>c. True" and cfg = undefined and hmac = undefined]) (simp_all add: drop_ticket_subset)
  have "socket_good (sa_sessions a) (sa_records a ! i)" using good i by (simp add: authority_good_def list_all_length)
  then have "authority_good ?c \<and> records_le a ?c"
    using i drop_ticket_subset update_subset [of ticket i "sa_by_ticket ?b"]
    by (intro authority_good_change [OF good, where P = "\<lambda>c. True" and cfg = undefined and hmac = undefined and ticket = ticket
          and i = i and r = "(sa_records a ! i)\<lparr>sr_ticket := Some ticket\<rparr>"])
      (auto simp: socket_good_def)
  with keep show ?thesis by (simp add: give_ticket_def Let_def)
qed

lemma prune_good: "authority_good a \<Longrightarrow> authority_good (prune_sockets t a) \<and> records_le a (prune_sockets t a)"
  using prune_drops [of a t]
  by (intro authority_good_keep [where P = "\<lambda>c. True" and cfg = undefined and hmac = undefined]) (simp_all add: drops_def)

lemma validate_used: "world_good s \<Longrightarrow> validate_locator k pb t (tw_records s) = Inr l \<Longrightarrow> k \<in> set (tw_used s)"
proof -
  assume world: "world_good s" and "validate_locator k pb t (tw_records s) = Inr l"
  then obtain r where "require_live k t (tw_records s) = Inr r" by (auto simp: validate_locator_def split: sum.splits)
  then have "(k, r) \<in> set (tw_records s)" using require_liveD map_of_SomeD by metis
  then show ?thesis using world by (force simp: world_good_def)
qed

lemma issue_keeps:
  assumes good: "authority_good a"
  shows "authority_good (snd (issue_ticket hmac k pb v t1 t2 t3 t4 ticket a))
    \<and> records_le a (snd (issue_ticket hmac k pb v t1 t2 t3 t4 ticket a))"
proof -
  let ?a = "prune_sockets t1 a"
  have pruned: "authority_good ?a" "records_le a ?a" using prune_good [OF good] by simp_all
  have known: "authority_good (snd (give_ticket i ticket ?a)) \<and> records_le a (snd (give_ticket i ticket ?a))"
    if "map_of (sa_by_id ?a) k = Some i" for i
  proof -
    have "i < length (sa_records ?a)" using map_of_member [OF that] pruned(1) unfolding authority_good_def by blast
    then show ?thesis using give_ticket_keeps [OF pruned(1)] records_le_trans [OF pruned(2)] by blast
  qed
  have fresh: "authority_good (snd (give_ticket (length (sa_records ?a)) ticket b)) \<and> records_le a (snd (give_ticket (length (sa_records ?a)) ticket b))"
    if b: "b = ?a\<lparr>sa_records := sa_records ?a @ [r], sa_by_id := AList.update k (length (sa_records ?a)) (sa_by_id ?a)\<rparr>"
      and r: "sr_session r = k" "sr_reconnect r = None" "sr_generation r = None" and "k \<in> set (tw_used (sa_sessions ?a))" for b r
  proof -
    have "\<forall>(j, i) \<in> set (sa_by_id b). i < length (sa_records b) \<and> sr_session (sa_records b ! i) = j"
    proof (clarify)
      fix j i assume "(j, i) \<in> set (sa_by_id b)"
      then have "(j, i) = (k, length (sa_records ?a)) \<or> (j, i) \<in> set (sa_by_id ?a)"
        using update_subset [of k "length (sa_records ?a)" "sa_by_id ?a"] b by auto
      then show "i < length (sa_records b) \<and> sr_session (sa_records b ! i) = j"
      proof
        assume "(j, i) \<in> set (sa_by_id ?a)"
        then have "i < length (sa_records ?a) \<and> sr_session (sa_records ?a ! i) = j"
          using pruned(1) unfolding authority_good_def by blast
        then show ?thesis using b by (simp add: nth_append)
      qed (use b r in simp)
    qed
    moreover have "\<forall>(j, i) \<in> set (sa_by_ticket b). i < length (sa_records b)"
      using pruned(1) b unfolding authority_good_def by auto
    ultimately have "authority_good b"
      using pruned(1) b r that(5) by (simp add: authority_good_def socket_good_def)
    moreover have "records_le a b" using b by (simp add: records_le_def nth_append)
    ultimately show ?thesis using give_ticket_keeps [of b "length (sa_records ?a)"] b records_le_trans by fastforce
  qed
  show ?thesis
  proof (cases "validate_input_policy v")
    case None
    then show ?thesis using good by (simp add: issue_ticket_def)
  next
    case (Some p)
    show ?thesis
    proof (cases "validate_locator k pb t2 (tw_records (sa_sessions ?a))")
      case (Inl e)
      then show ?thesis using Some pruned by (simp add: issue_ticket_def Let_def)
    next
      case (Inr l)
      have "k \<in> set (tw_used (sa_sessions ?a))" using validate_used [OF _ Inr] pruned(1) by (simp add: authority_good_def)
      then show ?thesis
        using Some Inr pruned known fresh [OF refl]
        by (auto simp: issue_ticket_def Let_def split: option.split sum.split)
    qed
  qed
qed

text \<open>A grant raises the generation of the record it is given to.\<close>

lemma claim_grant:
  assumes "world_good s" and "claim_client hmac k pb nb t1 t2 (tw_records s) = (Inr g, m)"
  obtains q where "map_of m k = Some q" "tk_generation q = tg_generation g" "tk_client q = Some (tg_client g)"
    "tg_client g = nb" "tk_revoked q = False" "k \<in> set (tw_used s)"
proof -
  obtain r where live: "require_live k t1 (tw_records s) = Inr r"
    using assms(2) by (cases "require_live k t1 (tw_records s)") (simp_all add: claim_client_def)
  then have r: "map_of (tw_records s) k = Some r" "\<not> tk_revoked r" using require_liveD by blast+
  then have used: "k \<in> set (tw_used s)"
    using assms(1) map_of_SomeD [OF r(1)] by (force simp: world_good_def)
  have "\<exists>q. map_of m k = Some q \<and> tk_generation q = tg_generation g \<and> tk_client q = Some (tg_client g) \<and> tg_client g = nb
      \<and> tk_revoked q = False"
    using assms(2) live r(2)
    by (auto simp: claim_client_def Let_def grant_of_def update_conv' split: if_splits option.splits)
  then show thesis using that used by blast
qed

lemma socket_grant_ok:
  assumes "authority_good a" and "i < length (sa_records a)" and r: "r = sa_records a ! i"
    and grant: "socket_grant cfg hmac r nb t1 t2 t3 (tw_records (sa_sessions a)) = (Inr g, m)"
    and r': "r' = r\<lparr>sr_reconnect := Some (tg_reconnect g), sr_client := Some (tg_client g), sr_generation := Some (tg_generation g)\<rparr>"
  shows "socket_le r r'" and "socket_good ((sa_sessions a)\<lparr>tw_records := m\<rparr>) r'" and "tg_client g = nb"
    and "\<And>h. sr_generation r = Some h \<Longrightarrow> h < tg_generation g
      \<and> (\<exists>q. map_of (tw_records (sa_sessions a)) (sr_session r) = Some q \<and> tk_in_flight q = 0)"
    and "\<exists>q. map_of m (sr_session r) = Some q \<and> tk_generation q = tg_generation g \<and> tk_client q = Some nb"
proof -
  have good: "socket_good (sa_sessions a) r" and world: "world_good (sa_sessions a)"
    using assms(1,2) r by (simp_all add: authority_good_def list_all_length)
  have all: "socket_le r r' \<and> socket_good ((sa_sessions a)\<lparr>tw_records := m\<rparr>) r' \<and> tg_client g = nb
    \<and> (\<forall>h. sr_generation r = Some h \<longrightarrow> h < tg_generation g
      \<and> (\<exists>q. map_of (tw_records (sa_sessions a)) (sr_session r) = Some q \<and> tk_in_flight q = 0))
    \<and> (\<exists>q. map_of m (sr_session r) = Some q \<and> tk_generation q = tg_generation g \<and> tk_client q = Some nb)"
  proof (cases "sr_reconnect r")
    case None
    then have "sr_generation r = None" using good by (simp add: socket_good_def)
    moreover obtain q where q: "map_of m (sr_session r) = Some q" "tk_generation q = tg_generation g" "tg_client g = nb"
        "tk_client q = Some nb" "sr_session r \<in> set (tw_used (sa_sessions a))"
      using grant None by (auto simp: socket_grant_def elim!: claim_grant [OF world])
    ultimately show ?thesis using r' by (simp add: socket_le_def socket_good_def)
  next
    case (Some h0)
    then have rec: "reconnect_client cfg hmac (sr_session r) (sr_principal r) h0 nb t1 t2 t3 (tw_records (sa_sessions a)) = (Inr g, m)"
      using grant by (simp add: socket_grant_def)
    then have "fst (reconnect_client cfg hmac (sr_session r) (sr_principal r) h0 nb t1 t2 t3 (tw_records (sa_sessions a))) = Inr g"
      by simp
    then obtain q where q: "map_of (tw_records (sa_sessions a)) (sr_session r) = Some q" "tk_in_flight q = 0"
        "tg_generation g = tk_generation q + 1" "tg_client g = nb"
        "m = AList.update (sr_session r) (q\<lparr>tk_client := Some nb, tk_generation := tk_generation q + 1,
           tk_last_seen := Some t3, tk_released := False\<rparr>) (tw_records (sa_sessions a))"
      using rec by (elim reconnect_ok) simp
    have below: "h < tg_generation g" if "sr_generation r = Some h" for h
      using that good q by (auto simp: socket_good_def)
    then have "socket_le r r'" using r' by (fastforce simp: socket_le_def)
    moreover have "socket_good ((sa_sessions a)\<lparr>tw_records := m\<rparr>) r'"
      using good q r' by (auto simp: socket_good_def update_conv')
    ultimately show ?thesis using below q by (simp add: update_conv')
  qed
  show "socket_le r r'" and "socket_good ((sa_sessions a)\<lparr>tw_records := m\<rparr>) r'" and "tg_client g = nb"
    and "\<And>h. sr_generation r = Some h \<Longrightarrow> h < tg_generation g
      \<and> (\<exists>q. map_of (tw_records (sa_sessions a)) (sr_session r) = Some q \<and> tk_in_flight q = 0)"
    and "\<exists>q. map_of m (sr_session r) = Some q \<and> tk_generation q = tg_generation g \<and> tk_client q = Some nb"
    using all by blast+
qed

text \<open>What a successful \<open>accept\<close> found and did.\<close>

lemma accept_ok:
  assumes "accept_socket cfg hmac k ticket nb t1 t2 t3 t4 t5 a0 = (Inr s, a1)" and "authority_good a0"
  obtains g m where "as_record s < length (sa_records a0)" "sr_session (sa_records a0 ! as_record s) = k"
    "socket_grant cfg hmac (sa_records a0 ! as_record s) nb t3 t4 t5 (tw_records (sa_sessions a0)) = (Inr g, m)"
    "wb_client (as_binding s) = tg_client g" "wb_generation (as_binding s) = num_of_int (tg_generation g)"
    "sa_sessions a1 = (sa_sessions a0)\<lparr>tw_records := m\<rparr>" "client_shape nb"
    "sa_records a1 = (sa_records a0)[as_record s := (sa_records a0 ! as_record s)\<lparr>sr_reconnect := Some (tg_reconnect g),
       sr_client := Some (tg_client g), sr_generation := Some (tg_generation g)\<rparr>]"
    "sa_by_id a1 = sa_by_id (prune_sockets t1 a0)" "sa_by_ticket a1 = sa_by_ticket (prune_sockets t1 a0)"
proof -
  let ?a = "prune_sockets t1 a0"
  obtain i where i: "map_of (sa_by_ticket ?a) ticket = Some i"
    using assms(1) by (cases "map_of (sa_by_ticket ?a) ticket") (simp_all add: accept_socket_def Let_def)
  have "i < length (sa_records ?a)"
    using map_of_member [OF i] prune_good [OF assms(2), of t1] unfolding authority_good_def by blast
  then have bound: "i < length (sa_records a0)" by simp
  let ?r = "sa_records a0 ! i"
  have ok: "sr_session ?r = k" "client_shape nb" "truthy (sr_ticket ?r) = Some ticket" "\<not> sr_expires ?r \<le> t2"
    using assms(1) i by (auto simp: accept_socket_def Let_def split: if_splits)
  obtain q m where grant: "socket_grant cfg hmac ?r nb t3 t4 t5 (tw_records (sa_sessions a0)) = (q, m)"
    by (cases "socket_grant cfg hmac ?r nb t3 t4 t5 (tw_records (sa_sessions a0))")
  then obtain g where g: "q = Inr g" using assms(1) i ok by (cases q) (auto simp: accept_socket_def Let_def)
  have res: "s = \<lparr>as_record = i, as_binding = \<lparr>wb_intervention = tl_intervention (tg_locator g), wb_epoch = num_of_int (tl_epoch (tg_locator g)),
        wb_principal = tl_principal (tg_locator g), wb_client = tg_client g, wb_generation = num_of_int (tg_generation g)\<rparr>,
        as_policy = sr_policy ?r\<rparr>"
    "a1 = (set_sessions m ?a)\<lparr>sa_records := (sa_records ?a)[i := ?r\<lparr>sr_reconnect := Some (tg_reconnect g),
        sr_client := Some (tg_client g), sr_generation := Some (tg_generation g)\<rparr>]\<rparr>"
    using assms(1) i ok grant g by (auto simp: accept_socket_def Let_def)
  show thesis by (rule that [of g m]) (use bound ok grant g res in simp_all)
qed

lemma accept_keeps:
  assumes good: "authority_good a"
  shows "authority_good (snd (accept_socket cfg hmac k ticket nb t1 t2 t3 t4 t5 a))
    \<and> records_le a (snd (accept_socket cfg hmac k ticket nb t1 t2 t3 t4 t5 a))"
proof -
  let ?a = "prune_sockets t1 a"
  have pruned: "authority_good ?a" "records_le a ?a" using prune_good [OF good] by simp_all
  obtain res b where ab: "accept_socket cfg hmac k ticket nb t1 t2 t3 t4 t5 a = (res, b)" by fastforce
  note call = step_one_call [of "So_accept k ticket nb t1 t2 t3 t4 t5" cfg hmac a, unfolded socket_step.simps ab snd_conv]
  have sub: "set (sa_by_id ?a) \<subseteq> set (sa_by_id a)" "set (sa_by_ticket ?a) \<subseteq> set (sa_by_ticket a)"
    using prune_drops [of a t1] by (simp_all add: drops_def)
  show ?thesis
  proof (cases res)
    case (Inl e)
    then have same: "sa_records b = sa_records a" "sa_by_id b = sa_by_id ?a" "sa_by_ticket b = sa_by_ticket ?a"
      using ab by (auto simp: accept_socket_def Let_def split: option.splits if_splits prod.splits sum.splits)
    show ?thesis using authority_good_keep [OF good call] same sub ab by simp
  next
    case (Inr s)
    obtain g m where ok: "as_record s < length (sa_records a)"
      "socket_grant cfg hmac (sa_records a ! as_record s) nb t3 t4 t5 (tw_records (sa_sessions a)) = (Inr g, m)"
      "sa_sessions b = (sa_sessions a)\<lparr>tw_records := m\<rparr>"
      "sa_records b = (sa_records a)[as_record s := (sa_records a ! as_record s)\<lparr>sr_reconnect := Some (tg_reconnect g),
         sr_client := Some (tg_client g), sr_generation := Some (tg_generation g)\<rparr>]"
      "sa_by_id b = sa_by_id ?a" "sa_by_ticket b = sa_by_ticket ?a"
      using ab Inr by (auto elim!: accept_ok [OF _ good])
    note grant = socket_grant_ok(1,2) [OF good ok(1) refl ok(2) refl]
    show ?thesis
      using authority_good_change [OF good call ok(1,4) grant(1)] grant(2) ok(3,5,6) sub ab by auto
  qed
qed

lemma invalidate_keeps:
  assumes good: "authority_good a"
  shows "authority_good (invalidate_ticket ticket a) \<and> records_le a (invalidate_ticket ticket a)"
proof (cases "map_of (sa_by_ticket a) ticket")
  case (Some i)
  let ?b = "a\<lparr>sa_by_ticket := AList.delete ticket (sa_by_ticket a)\<rparr>"
  let ?c = "?b\<lparr>sa_records := (sa_records a)[i := (sa_records a ! i)\<lparr>sr_ticket := None\<rparr>]\<rparr>"
  have i: "i < length (sa_records a)" using map_of_member [OF Some] good unfolding authority_good_def by blast
  have sub: "set (AList.delete ticket (sa_by_ticket a)) \<subseteq> set (sa_by_ticket a)" by (auto simp: AList.delete_eq)
  have "authority_good ?b \<and> records_le a ?b"
    using sub by (intro authority_good_keep [OF good, where P = "\<lambda>c. True" and cfg = undefined and hmac = undefined]) simp_all
  moreover have "authority_good ?c \<and> records_le a ?c"
  proof (rule authority_good_change [OF good, where P = "\<lambda>c. True" and cfg = undefined and hmac = undefined and ticket = ticket and i = i
        and r = "(sa_records a ! i)\<lparr>sr_ticket := None\<rparr>"])
    have "socket_good (sa_sessions a) (sa_records a ! i)" using good i by (simp add: authority_good_def list_all_length)
    then show "socket_good (sa_sessions ?c) ((sa_records a ! i)\<lparr>sr_ticket := None\<rparr>)" by (simp add: socket_good_def)
  qed (use i sub in auto)
  ultimately show ?thesis using Some by (simp add: invalidate_ticket_def Let_def)
qed (use good in \<open>simp add: invalidate_ticket_def\<close>)

text \<open>The other calls leave the records alone and drop entries of the maps at most.\<close>

lemma forget_subsets: "set (sa_by_id (forget_record i a)) \<subseteq> set (sa_by_id a)"
    "set (sa_by_ticket (forget_record i a)) \<subseteq> set (sa_by_ticket a)"
  using forget_drops [of a i] by (simp_all add: drops_def)

definition keeps_records :: "socket_move \<Rightarrow> bool" where
  "keeps_records m \<longleftrightarrow> (case m of So_issue k pb v t1 t2 t3 t4 ticket \<Rightarrow> False
      | So_accept k ticket nb t1 t2 t3 t4 t5 \<Rightarrow> False | So_invalidate ticket \<Rightarrow> False | _ \<Rightarrow> True)"

lemma step_maps:
  assumes "b = socket_step cfg hmac a m" and "keeps_records m"
  shows "sa_records b = sa_records a \<and> set (sa_by_id b) \<subseteq> set (sa_by_id a) \<and> set (sa_by_ticket b) \<subseteq> set (sa_by_ticket a)"
proof (cases m)
  case (So_complete i l t1 t2)
  then show ?thesis
    using assms forget_subsets [of i "set_sessions _ a"]
    by (auto simp: lease_complete_def Let_def split: prod.split sum.split)
next
  case (So_release i l t)
  obtain q n where "release_client_generation (sr_session (sa_records a ! i)) (sr_principal (sa_records a ! i)) (wb_client l)
      (wb_generation l) t (tw_records (sa_sessions a)) = (q, n)" by fastforce
  then show ?thesis using assms So_release by (cases q) (simp_all add: lease_release_def Let_def)
next
  case (So_revoke k)
  then show ?thesis
    using assms forget_subsets by (auto simp: revoke_socket_session_def Let_def split: option.split)
qed (use assms in \<open>auto simp: keeps_records_def lease_begin_def lease_end_def Let_def split: prod.split sum.split\<close>)

lemma socket_step_keeps:
  assumes good: "authority_good a"
  shows "authority_good (socket_step cfg hmac a m) \<and> records_le a (socket_step cfg hmac a m)"
proof (cases m)
  case (So_issue k pb v t1 t2 t3 t4 ticket)
  then show ?thesis using issue_keeps [OF good] by simp
next
  case (So_accept k ticket nb t1 t2 t3 t4 t5)
  then show ?thesis using accept_keeps [OF good] by simp
next
  case (So_invalidate ticket)
  then show ?thesis using invalidate_keeps [OF good] by simp
qed (use authority_good_keep [OF good step_one_call, of cfg hmac m] step_maps [OF refl, of m cfg hmac a] in
  \<open>simp_all add: keeps_records_def del: socket_step.simps\<close>)

interpretation sockets: guarded_machine "socket_step cfg hmac" authority_good for cfg hmac
  by unfold_locales (use socket_step_keeps in blast)

lemma run_records_le: "authority_good a \<Longrightarrow> records_le a (run (socket_step cfg hmac) a ms)"
proof (induction ms arbitrary: a)
  case (Cons m ms)
  then show ?case using socket_step_keeps [OF Cons.prems, of cfg hmac m] records_le_trans by fastforce
qed simp

lemma new_authority_good: "world_good s \<Longrightarrow> authority_good (new_socket_authority s)"
  by (simp add: authority_good_def new_socket_authority_def)

text \<open>What the manager did over a run is a run of its own.\<close>

lemma run_sessions: "\<exists>cs. sa_sessions (run (socket_step cfg hmac) a ms) = run (takeover_step cfg hmac) (sa_sessions a) cs"
proof (induction ms arbitrary: a)
  case Nil
  have "sa_sessions (run (socket_step cfg hmac) a []) = run (takeover_step cfg hmac) (sa_sessions a) []" by simp
  then show ?case ..
next
  case (Cons m ms)
  obtain cs where cs: "sa_sessions (run (socket_step cfg hmac) (socket_step cfg hmac a m) ms)
      = run (takeover_step cfg hmac) (sa_sessions (socket_step cfg hmac a m)) cs"
    using Cons.IH by blast
  have "\<exists>ds. sa_sessions (socket_step cfg hmac a m) = run (takeover_step cfg hmac) (sa_sessions a) ds"
  proof (cases "sa_sessions (socket_step cfg hmac a m) = sa_sessions a")
    case True
    then have "sa_sessions (socket_step cfg hmac a m) = run (takeover_step cfg hmac) (sa_sessions a) []" by simp
    then show ?thesis ..
  next
    case False
    then obtain c where "sa_sessions (socket_step cfg hmac a m) = takeover_step cfg hmac (sa_sessions a) c"
      using step_one_call [of m cfg hmac a] by (auto simp: one_call_def)
    then have "sa_sessions (socket_step cfg hmac a m) = run (takeover_step cfg hmac) (sa_sessions a) [c]" by simp
    then show ?thesis ..
  qed
  then obtain ds where "sa_sessions (socket_step cfg hmac a m) = run (takeover_step cfg hmac) (sa_sessions a) ds" ..
  then have "sa_sessions (run (socket_step cfg hmac) a (m # ms)) = run (takeover_step cfg hmac) (sa_sessions a) (ds @ cs)"
    using cs by simp
  then show ?case ..
qed

section \<open>Bytes\<close>

lemma parse_page_frame_message:
  assumes mime: "wf_mime f \<in> {''image/jpeg'', ''image/png''}"
    and w: "w = nat (num_to_int (wf_width f))" "1 \<le> w" "w < 65536"
    and h: "h = nat (num_to_int (wf_height f))" "1 \<le> h" "h < 65536" and data: "length data < 4294967296"
  shows "parse_page_frame (frame_message f data) = Some (wf_mime f, w, h, data)"
proof -
  define code :: nat where "code = (if wf_mime f = ''image/jpeg'' then 1 else 2)"
  have small: "code < 256" by (simp add: code_def)
  define M where "M = big_endian 4 frame_magic"
  define W where "W = big_endian 2 w"
  define H where "H = big_endian 2 h"
  define N where "N = big_endian 4 (length data)"
  have len: "length M = 4" "length W = 2" "length H = 2" "length N = 4" by (simp_all add: M_def W_def H_def N_def del: big_endian.simps)
  have msg: "frame_message f data = M @ [code] @ [0] @ W @ H @ N @ big_endian 2 0 @ data"
    using w(1) h(1) by (simp only: frame_message_def M_def W_def H_def N_def code_def)
  let ?m = "frame_message f data"
  have "read_big_endian ?m 0 4 = frame_magic"
    by (rule read_field [where xs = "[]"]) (simp_all add: msg M_def frame_magic_def del: big_endian.simps)
  moreover have "read_big_endian ?m 4 1 = code"
    by (rule read_field [where xs = M]) (simp_all only: msg len one_byte [OF small] append_Cons append_Nil, use small in simp)
  moreover have "read_big_endian ?m 5 1 = 0"
    by (rule read_field [where xs = "M @ [code]"]) (simp_all add: msg len)
  moreover have "read_big_endian ?m 6 2 = w"
    by (rule read_field [where xs = "M @ [code] @ [0]"]) (use w in \<open>simp_all add: msg len W_def del: big_endian.simps\<close>)
  moreover have "read_big_endian ?m 8 2 = h"
    by (rule read_field [where xs = "M @ [code] @ [0] @ W"]) (use h in \<open>simp_all add: msg len H_def del: big_endian.simps\<close>)
  moreover have "read_big_endian ?m 10 4 = length data"
    by (rule read_field [where xs = "M @ [code] @ [0] @ W @ H"]) (use data in \<open>simp_all add: msg len N_def del: big_endian.simps\<close>)
  moreover have "read_big_endian ?m 14 2 = 0"
    by (rule read_field [where xs = "M @ [code] @ [0] @ W @ H @ N"]) (simp_all add: msg len del: big_endian.simps)
  moreover have "length ?m = 16 + length data" "drop 16 ?m = data" by (simp_all add: msg len del: big_endian.simps)
  moreover have "(if code = 1 then ''image/jpeg'' else if code = 2 then ''image/png'' else []) = wf_mime f"
    using mime by (auto simp: code_def)
  ultimately show ?thesis using w(2) h(2) mime by (auto simp: parse_page_frame_def Let_def)
qed

section \<open>A concrete authority\<close>

definition demo_session :: string where
  "demo_session = ''session-1''"

definition demo_ticket :: string where
  "demo_ticket = replicate 32 CHR ''t''"

text \<open>A session, a ticket for it, an accepted socket, a use of it, and its release.\<close>

definition demo_socket_moves :: "socket_move list" where
  "demo_socket_moves = [So_manager (Ensure ''i1'' 2 ''p1'' demo_session 1 1),
     So_issue demo_session ''p1'' (JObj [(''tap'', JBool True), (''scroll'', JBool True), (''text'', JBool True), (''key'', JBool True)])
       2 2 2 2 demo_ticket,
     So_accept demo_session demo_ticket client_a 3 3 3 3 3,
     So_release 0 \<lparr>wb_intervention = ''i1'', wb_epoch = num_of_int 2, wb_principal = ''p1'', wb_client = client_a,
       wb_generation = num_of_int 1\<rparr> 4]"

lemmas demo_eval = accept_socket_def prune_sockets_def socket_grant_def claim_client_def reconnect_client_def require_live_def
  principal_ok_def claimed_def grant_of_def sample_config_def client_ok_def Let_def set_sessions_def truthy_def locator_of_def

lemma demo_shapes [simp]: "handle_shape demo_ticket" "demo_ticket \<noteq> []"
  by (simp_all add: demo_ticket_def handle_shape_def url_text_def list_all_iff is_url_char_def is_alnum_def char_code_def)

definition demo_takeover :: takeover where
  "demo_takeover = \<lparr>tk_id = demo_session, tk_intervention = ''i1'', tk_epoch = 2, tk_principal = ''p1'', tk_expires = 60001,
     tk_completion_expires = 120001, tk_revoked = False, tk_completed = False, tk_client = Some client_a, tk_generation = 1,
     tk_last_seen = Some 3, tk_in_flight = 0, tk_released = True\<rparr>"

definition demo_socket_authority :: socket_authority where
  "demo_socket_authority = \<lparr>sa_sessions = \<lparr>tw_records = [(demo_session, demo_takeover)], tw_used = [demo_session]\<rparr>,
     sa_records = [\<lparr>sr_session = demo_session, sr_principal = ''p1'', sr_expires = 60001,
       sr_policy = \<lparr>wp_tap = True, wp_scroll = True, wp_text = True, wp_key = True\<rparr>, sr_completion = sample_hmac [],
       sr_ticket = Some demo_ticket, sr_reconnect = Some (sample_hmac []), sr_client = Some client_a, sr_generation = Some 1\<rparr>],
     sa_by_id = [(demo_session, 0)], sa_by_ticket = [(demo_ticket, 0)]\<rparr>"

lemma demo_hmac: "sample_hmac t = sample_hmac []"
  by (simp add: sample_hmac_def)

lemma demo_socket_run:
  "run (socket_step sample_config sample_hmac) (new_socket_authority empty_world) demo_socket_moves = demo_socket_authority"
  by (simp add: demo_socket_moves_def new_socket_authority_def empty_world_def takeover_step_def ensure_takeover_def prune_expired_def
      fresh_takeover_def demo_eval issue_ticket_def validate_input_policy_def policy_keys_def keys_exactly_def keys_within_def
      object_keys_def get_prop_def is_bool_def validate_locator_def issue_completion_capability_def completion_capability_for_def
      give_ticket_def drop_ticket_def lease_release_def record_holds_def release_client_generation_def
      demo_socket_authority_def demo_takeover_def demo_hmac [of "_ @ _"] demo_hmac [of "completion_text _"]
      demo_hmac [of "reconnect_text _"] demo_hmac [of "capability_text _"])

lemma demo_accepts: "\<exists>s. fst (accept_socket sample_config sample_hmac demo_session demo_ticket client_b 9 9 9 9 9 demo_socket_authority) = Inr s
    \<and> as_record s = 0"
  by (simp add: demo_eval demo_socket_authority_def demo_takeover_def demo_hmac [of "reconnect_text _"])

section \<open>Properties\<close>

text \<open>A newer socket fences an older one. When a ticket is accepted for a record that already had a client generation, no use of
  that session is in flight, the new generation is strictly greater, and from then on, whatever the authority and the session
  manager do, every lease of an earlier generation of the record is refused its uses and its completion, and its release changes
  nothing.\<close>

theorem newer_socket_fences_older:
  assumes "a = run (socket_step cfg hmac) (new_socket_authority empty_world) ms"
    and "accept_socket cfg hmac k ticket nb t1 t2 t3 t4 t5 a = (Inr s, a1)" and "i = as_record s"
    and "sr_generation (sa_records a ! i) = Some g0" and "wb_generation b = num_of_int g" and "g \<le> g0"
    and "a' = run (socket_step cfg hmac) a1 ms'"
  shows "(\<exists>q g1. map_of (tw_records (sa_sessions a)) k = Some q \<and> tk_in_flight q = 0
      \<and> wb_generation (as_binding s) = num_of_int g1 \<and> g0 < g1)
    \<and> isl (fst (lease_begin i b u1 u2 a')) \<and> isl (fst (lease_complete hmac i b u1 u2 a'))
    \<and> lease_release i b u1 a' = (Inr (), a')"
proof -
  have good: "authority_good a"
    using sockets.good_run [OF new_authority_good [OF world_good_empty]] assms(1) by blast
  obtain gr m where ok: "i < length (sa_records a)" "sr_session (sa_records a ! i) = k"
      "socket_grant cfg hmac (sa_records a ! i) nb t3 t4 t5 (tw_records (sa_sessions a)) = (Inr gr, m)"
      "wb_generation (as_binding s) = num_of_int (tg_generation gr)"
      "sa_records a1 = (sa_records a)[i := (sa_records a ! i)\<lparr>sr_reconnect := Some (tg_reconnect gr),
         sr_client := Some (tg_client gr), sr_generation := Some (tg_generation gr)\<rparr>]"
    using assms(2,3) by (auto elim!: accept_ok [OF _ good])
  have newer: "g0 < tg_generation gr" "\<exists>q. map_of (tw_records (sa_sessions a)) k = Some q \<and> tk_in_flight q = 0"
    using socket_grant_ok(4) [OF good ok(1) refl ok(3) refl assms(4)] ok(2) by simp_all
  have "authority_good a1"
    using socket_step_keeps [OF good, of cfg hmac "So_accept k ticket nb t1 t2 t3 t4 t5"] assms(2) by simp
  then have "records_le a1 a'" using run_records_le assms(7) by blast
  moreover have "i < length (sa_records a1)" using ok(1,5) by simp
  ultimately have "socket_le (sa_records a1 ! i) (sa_records a' ! i)" unfolding records_le_def by blast
  moreover have "sr_generation (sa_records a1 ! i) = Some (tg_generation gr)" using ok(1,5) by simp
  ultimately obtain g' where g': "sr_generation (sa_records a' ! i) = Some g'" "tg_generation gr \<le> g'"
    unfolding socket_le_def by blast
  then have "\<not> record_holds (sa_records a' ! i) b"
    using newer(1) assms(5,6) by (simp add: record_holds_def)
  then show ?thesis
    using newer ok(4) by (auto simp: lease_begin_def lease_complete_def lease_release_def)
qed

theorem newer_socket_fences_older_witness:
  "let a = run (socket_step sample_config sample_hmac) (new_socket_authority empty_world) demo_socket_moves;
       a1 = snd (accept_socket sample_config sample_hmac demo_session demo_ticket client_b 9 9 9 9 9 a);
       b = \<lparr>wb_intervention = ''i1'', wb_epoch = num_of_int 2, wb_principal = ''p1'', wb_client = client_a, wb_generation = num_of_int 1\<rparr> in
   isl (fst (lease_begin 0 b 9 9 a1)) \<and> isl (fst (lease_complete sample_hmac 0 b 9 9 a1)) \<and> lease_release 0 b 9 a1 = (Inr (), a1)"
proof -
  let ?a = "run (socket_step sample_config sample_hmac) (new_socket_authority empty_world) demo_socket_moves"
  let ?r = "accept_socket sample_config sample_hmac demo_session demo_ticket client_b 9 9 9 9 9 ?a"
  obtain s where s: "fst ?r = Inr s" "as_record s = 0"
    using demo_accepts unfolding demo_socket_run by blast
  have gen: "sr_generation (sa_records ?a ! 0) = Some 1" unfolding demo_socket_run by (simp add: demo_socket_authority_def)
  let ?b = "\<lparr>wb_intervention = ''i1'', wb_epoch = num_of_int 2, wb_principal = ''p1'', wb_client = client_a, wb_generation = num_of_int 1\<rparr>"
  have res: "?r = (Inr s, snd ?r)" using s(1) by (metis prod.collapse)
  have old: "wb_generation ?b = num_of_int 1" "(1 :: int) \<le> 1" by simp_all
  have after: "snd ?r = run (socket_step sample_config sample_hmac) (snd ?r) []" by simp
  show ?thesis
    unfolding Let_def using newer_socket_fences_older [OF refl res s(2) [symmetric] gen old after] by blast
qed

text \<open>Frames survive the wire: the page reads from a frame message exactly the MIME type, the width, the height and the bytes that
  the peer was given, for every frame the channel accepts whose bytes are fewer than 2 to the 32.\<close>

theorem frame_wire_round_trip:
  assumes "ws_frame_ok s f" and "length data = wf_size f" and "wf_size f < 4294967296"
  shows "parse_page_frame (frame_message f data)
    = Some (wf_mime f, nat (num_to_int (wf_width f)), nat (num_to_int (wf_height f)), data)"
  using assms by (intro parse_page_frame_message refl) (auto simp: ws_frame_ok_def ws_bounded_integer_def)

theorem frame_wire_round_trip_witness:
  "parse_page_frame (frame_message \<lparr>wf_tag = 0, wf_bytes = True, wf_size = 2, wf_width = num_of_int 300, wf_height = num_of_int 8,
       wf_mime = ''image/png''\<rparr> [7, 9]) = Some (''image/png'', 300, 8, [7, 9])"
proof -
  let ?f = "\<lparr>wf_tag = 0, wf_bytes = True, wf_size = 2, wf_width = num_of_int 300, wf_height = num_of_int 8, wf_mime = ''image/png''\<rparr>"
  let ?s = "the (new_ws_channel \<lparr>wb_intervention = ''i'', wb_epoch = num_of_int 1, wb_principal = ''p'', wb_client = ''c'',
    wb_generation = num_of_int 1\<rparr> \<lparr>wp_tap = True, wp_scroll = True, wp_text = True, wp_key = True\<rparr>
    \<lparr>wo_inbound = None, wo_messages = None, wo_bytes = None, wo_frame = None, wo_buffered = None\<rparr>)"
  have "ws_frame_ok ?s ?f" by code_simp
  from frame_wire_round_trip [OF this, of "[7, 9]"] show ?thesis by simp
qed

end
