(* ===== verification/Websocket_Safety.thy ===== *)
theory Websocket_Safety
  imports Websocket_Channel "HOL-Library.Sublist"
begin

text \<open>
  What \<open>Websocket_Channel\<close> guarantees in every interleaving of its tasks: when human input is dispatched, what
  happens to the lease, that the channel comes to rest, how the queue and the frames are accounted for.
\<close>

section \<open>Single steps\<close>

lemmas ws_pairs = fail_closed_def release_once_def run_use_def complete_ws_def frame_turn_def start_operation_def
  end_operation_def after_use_def use_ended_def complete_settled_def start_closing_def start_text_def

lemmas ws_small = emit_def fail_notified_def record_release_failure_def replace_pending_frame_def schedule_drain_def
  release_settled_def

lemma backpressure_fields [simp]:
  assumes "is_ws_backpressured r s = (b, s')"
  shows "wc_log s' = wc_log s" "wc_state s' = wc_state s" "wc_admission s' = wc_admission s" "wc_jobs s' = wc_jobs s"
    "wc_job s' = wc_job s" "wc_loop s' = wc_loop s" "wc_side s' = wc_side s" "wc_pending s' = wc_pending s"
    "wc_released s' = wc_released s" "wc_done_started s' = wc_done_started s" "wc_timer s' = wc_timer s"
    "wc_sent s' = wc_sent s" "wc_dropped s' = wc_dropped s" "wc_messages s' = wc_messages s" "wc_bytes s' = wc_bytes s"
    "wc_failure s' = wc_failure s" "wc_limits s' = wc_limits s" "wc_max_messages s' = wc_max_messages s"
    "wc_max_bytes s' = wc_max_bytes s" "wc_binding s' = wc_binding s" "wc_policy s' = wc_policy s"
  using assms by (auto simp: is_ws_backpressured_def Let_def split: option.splits if_splits)

text \<open>What the parts of a step leave alone, and what they log.\<close>

definition ws_quiet :: "ws_channel \<Rightarrow> ws_channel \<Rightarrow> bool" where
  "ws_quiet s s' \<longleftrightarrow> wc_jobs s' = wc_jobs s \<and> wc_job s' = wc_job s \<and> wc_loop s' = wc_loop s \<and> wc_side s' = wc_side s
     \<and> wc_limits s' = wc_limits s \<and> wc_binding s' = wc_binding s \<and> wc_policy s' = wc_policy s
     \<and> wc_messages s' = wc_messages s \<and> wc_bytes s' = wc_bytes s
     \<and> wc_max_messages s' = wc_max_messages s \<and> wc_max_bytes s' = wc_max_bytes s
     \<and> (wc_admission s' \<longrightarrow> wc_admission s) \<and> (wc_state s' = Ws_open \<longrightarrow> wc_state s = Ws_open)"

lemma quiet_refl [simp]: "ws_quiet s s"
  by (simp add: ws_quiet_def)

lemma fail_closed_quiet: "fail_closed f s = (k, s') \<Longrightarrow> ws_quiet s s'"
  by (auto simp: fail_closed_def release_once_def ws_quiet_def ws_small Let_def split: if_splits)

lemma frame_turn_quiet: "frame_turn r c s = (k, s') \<Longrightarrow> ws_quiet s s'"
  by (auto simp: frame_turn_def run_use_def ws_small ws_quiet_def split: option.splits if_splits prod.splits bool.splits
      dest: fail_closed_quiet)

lemma use_ended_quiet: "use_ended r u out s = (k, s') \<Longrightarrow> ws_quiet s s'"
  by (auto simp: use_ended_def after_use_def emit_def ws_quiet_def Let_def split: use_outcome.splits ws_use.splits if_splits
      dest: fail_closed_quiet frame_turn_quiet)

lemma release_settled_quiet: "ws_quiet s (release_settled why ok s)"
  by (auto simp: ws_quiet_def ws_small Let_def split: release_reason.splits)

lemma settle_quiet: "settle_task r x k0 s = (k, s') \<Longrightarrow> ws_quiet s s'"
proof (induction r x k0 s rule: settle_task.induct)
  case (1 r x u s)
  then show ?case
    by (auto simp: start_operation_def emit_def ws_quiet_def Let_def split: ws_use.splits if_splits dest: fail_closed_quiet)
next
  case (2 r x u calls s)
  then show ?case by (auto simp: end_operation_def emit_def ws_quiet_def Let_def split: ws_use.splits use_outcome.splits)
next
  case (3 r x u out s)
  then show ?case by (auto dest: fail_closed_quiet use_ended_quiet split: if_splits)
next
  case (4 r x why s)
  then show ?case using release_settled_quiet by auto
next
  case (5 r x s)
  then show ?case
    by (auto simp: complete_settled_def emit_def ws_quiet_def split: if_splits dest: fail_closed_quiet)
qed

lemma complete_quiet: "complete_ws s = (k, s') \<Longrightarrow> ws_quiet s s'"
  by (auto simp: complete_ws_def emit_def ws_quiet_def split: if_splits)

lemma start_closing_quiet: "st \<noteq> Ws_open \<Longrightarrow> start_closing why st s = (k, s') \<Longrightarrow> ws_quiet s s'"
  by (auto simp: start_closing_def release_once_def ws_quiet_def ws_small Let_def split: if_splits release_reason.splits)

lemma start_text_quiet: "start_text parse raw s = (k, s') \<Longrightarrow> ws_quiet s s'"
  by (auto simp: start_text_def run_use_def emit_def ws_quiet_def Let_def split: if_splits sum.splits ws_message.splits
      dest!: fail_closed_quiet complete_quiet)

definition job_taken :: "ws_job \<Rightarrow> ws_channel \<Rightarrow> ws_channel" where
  "job_taken j s = (case j of Job_text raw n \<Rightarrow> release_inbound (int n) s | _ \<Rightarrow> s)"

lemma start_job_quiet: "start_job parse j s = (k, s') \<Longrightarrow> ws_quiet (job_taken j s) s'"
  by (cases j) (auto simp: job_taken_def dest: start_text_quiet fail_closed_quiet start_closing_quiet [rotated])

section \<open>Logs\<close>

definition inputs_of :: "ws_effect list \<Rightarrow> ws_input list" where
  "inputs_of es = concat (map (\<lambda>e. case e of E_input i \<Rightarrow> [i] | _ \<Rightarrow> []) es)"

definition frames_of :: "ws_effect list \<Rightarrow> ws_frame list" where
  "frames_of es = concat (map (\<lambda>e. case e of E_frame f \<Rightarrow> [f] | _ \<Rightarrow> []) es)"

lemma logs_append [simp]:
  "inputs_of (a @ b) = inputs_of a @ inputs_of b" "frames_of (a @ b) = frames_of a @ frames_of b"
  "inputs_of [] = []" "frames_of [] = []"
  "inputs_of (e # b) = (case e of E_input i \<Rightarrow> [i] | _ \<Rightarrow> []) @ inputs_of b"
  "frames_of (e # b) = (case e of E_frame f \<Rightarrow> [f] | _ \<Rightarrow> []) @ frames_of b"
  by (simp_all add: inputs_of_def frames_of_def)

text \<open>Only the start of an operation hands anything over.\<close>

definition hands_nothing :: "ws_channel \<Rightarrow> ws_channel \<Rightarrow> bool" where
  "hands_nothing s s' \<longleftrightarrow> inputs_of (wc_log s') = inputs_of (wc_log s) \<and> frames_of (wc_log s') = frames_of (wc_log s)"

lemma hands_nothing_refl [simp]: "hands_nothing s s"
  by (simp add: hands_nothing_def)

lemma fail_closed_hands: "fail_closed f s = (k, s') \<Longrightarrow> hands_nothing s s'"
  by (auto simp: fail_closed_def release_once_def hands_nothing_def ws_small Let_def split: if_splits)

lemma frame_turn_hands: "frame_turn r c s = (k, s') \<Longrightarrow> hands_nothing s s'"
  by (auto simp: frame_turn_def run_use_def ws_small hands_nothing_def split: option.splits if_splits prod.splits bool.splits
      dest!: fail_closed_hands)

lemma use_ended_hands: "use_ended r u out s = (k, s') \<Longrightarrow> hands_nothing s s'"
  by (auto simp: use_ended_def after_use_def emit_def hands_nothing_def Let_def split: use_outcome.splits ws_use.splits if_splits
      dest!: fail_closed_hands frame_turn_hands)

lemma start_job_hands: "start_job parse j s = (k, s') \<Longrightarrow> hands_nothing s s'"
  by (cases j) (auto simp: start_text_def release_inbound_def start_closing_def release_once_def run_use_def complete_ws_def hands_nothing_def ws_small
      Let_def split: if_splits sum.splits ws_message.splits release_reason.splits dest!: fail_closed_hands)

lemma settle_hands:
  assumes "settle_task r x k0 s = (k, s')" and "\<forall>u. k0 \<noteq> Beginning u"
  shows "hands_nothing s s'"
  using assms
  by (cases k0)
    (auto simp: end_operation_def complete_settled_def hands_nothing_def ws_small Let_def
      split: if_splits ws_use.splits use_outcome.splits release_reason.splits dest!: fail_closed_hands use_ended_hands)

lemma begin_hands:
  assumes "settle_task x r (Beginning u) s = (k, s')"
  shows "inputs_of (wc_log s') = inputs_of (wc_log s) @ (case u of Use_input i \<Rightarrow>
       if r = Resolved \<and> wc_state s = Ws_open \<and> wc_admission s then [i] else [] | _ \<Rightarrow> [])"
    and "frames_of (wc_log s') = frames_of (wc_log s) @ (case u of Use_frame f \<Rightarrow> if r = Resolved then [f] else [] | _ \<Rightarrow> [])"
  using assms
  by (auto simp: start_operation_def emit_def hands_nothing_def Let_def split: if_splits ws_use.splits dest!: fail_closed_hands)

section \<open>What runs where\<close>

definition task_for :: "(ws_use \<Rightarrow> bool) \<Rightarrow> bool \<Rightarrow> ws_task \<Rightarrow> bool" where
  "task_for uses closing k \<longleftrightarrow> (case k of
       Beginning u \<Rightarrow> uses u
     | Operating u calls \<Rightarrow> uses u \<and> (calls = False \<longrightarrow> (\<forall>f. u \<noteq> Use_frame f))
     | Ending u out \<Rightarrow> uses u \<and> (out = Op_skipped \<longrightarrow> (\<forall>f. u \<noteq> Use_frame f))
     | Releasing why \<Rightarrow> closing \<or> (\<exists>f. why = For_failure f)
     | Completing \<Rightarrow> closing)"

fun job_use :: "ws_use \<Rightarrow> bool" where
  "job_use (Use_input i) = True" | "job_use (Use_pong n) = True" | "job_use u = False"

fun loop_use :: "ws_use \<Rightarrow> bool" where
  "loop_use (Use_frame f) = True" | "loop_use u = False"

definition tasks_ok :: "ws_channel \<Rightarrow> bool" where
  "tasks_ok s \<longleftrightarrow> pred_option (task_for job_use True) (wc_job s) \<and> pred_option (task_for loop_use False) (wc_loop s)
     \<and> list_all (task_for (\<lambda>u. u = Use_ready) False) (wc_side s)"

lemma fail_closed_task: "fail_closed f s = (Some k, s') \<Longrightarrow> k = Releasing (For_failure f)"
  by (auto simp: fail_closed_def release_once_def split: if_splits)

lemma frame_turn_task: "frame_turn r c s = (Some k, s') \<Longrightarrow> task_for loop_use False k"
  by (auto simp: frame_turn_def run_use_def task_for_def split: option.splits if_splits prod.splits bool.splits
      dest!: fail_closed_task)

lemma settle_task_kind:
  assumes "settle_task r x k0 s = (Some k, s')" and "task_for uses closing k0" and "\<And>f g. uses (Use_frame f) \<Longrightarrow> uses (Use_frame g)"
  shows "task_for uses closing k"
proof -
  have turn: "task_for uses closing k" if "frame_turn r' c t = (Some k, t')" "uses (Use_frame f)" for r' c t t' f
    using frame_turn_task [OF that(1)] assms(3) [OF that(2)]
    by (auto simp: task_for_def split: ws_task.splits elim!: loop_use.elims)
  show ?thesis
    using assms(1,2)
    by (cases k0)
      (auto simp: start_operation_def end_operation_def use_ended_def after_use_def complete_settled_def task_for_def Let_def
        split: if_splits ws_use.splits use_outcome.splits settled.splits bool.splits dest!: fail_closed_task dest: turn [unfolded task_for_def])
qed

lemma start_job_kind: "start_job parse j s = (Some k, s') \<Longrightarrow> task_for job_use True k"
  by (cases j) (auto simp: start_text_def start_closing_def release_once_def run_use_def complete_ws_def task_for_def Let_def
      split: if_splits sum.splits ws_message.splits dest!: fail_closed_task)

text \<open>The calls as changes of one place.\<close>

lemma on_side_none [simp]: "on_side (None, s) = s"
  by (simp add: on_side_def)

lemma on_side_cases: "on_side (k, s) = s\<lparr>wc_side := wc_side s @ (case k of None \<Rightarrow> [] | Some t \<Rightarrow> [t])\<rparr>"
  by (simp add: on_side_def split: option.split)

lemma on_place_simps [simp]: "on_job (k, s) = s\<lparr>wc_job := k\<rparr>" "on_loop (k, s) = s\<lparr>wc_loop := k\<rparr>"
  by (simp_all add: on_job_def on_loop_def)

text \<open>A step starts a job, settles a task, or is one of the calls.\<close>

lemma next_step:
  assumes "wc_job s = None" and "wc_jobs s = j # js" and "start_job parse j (s\<lparr>wc_jobs := js\<rparr>) = (k, u)"
  shows "ws_step parse s M_next = u\<lparr>wc_job := k\<rparr>"
  using assms by simp

section \<open>The invariant\<close>

text \<open>
  A channel that is not open admits no input and has no frame waiting; once it has ended, its lease has been given back,
  or a call that gives it back is under way, or the failure of that call is on record.
\<close>

definition shut_fields :: "ws_channel \<Rightarrow> bool" where
  "shut_fields s \<longleftrightarrow> (wc_state s \<noteq> Ws_open \<longrightarrow> \<not> wc_admission s \<and> wc_pending s = None \<and> \<not> wc_timer s)"

definition ws_ended :: "ws_channel \<Rightarrow> bool" where
  "ws_ended s \<longleftrightarrow> wc_state s \<in> {Ws_failed, Ws_closed, Ws_revoked}"

definition given_back :: "ws_channel \<Rightarrow> bool" where
  "given_back s \<longleftrightarrow> wc_released s \<or> wc_failure s = Some Fail_release"

definition closing_task :: "ws_task option \<Rightarrow> bool" where
  "closing_task k \<longleftrightarrow> k = Some Completing \<or> (\<exists>why. k = Some (Releasing why))"

lemma closing_task_simps [simp]:
  "\<not> closing_task None" "\<not> closing_task (Some (Beginning u))" "\<not> closing_task (Some (Operating u c))"
  "\<not> closing_task (Some (Ending u out))" "closing_task (Some (Releasing why))" "closing_task (Some Completing)"
  by (simp_all add: closing_task_def)

text \<open>What one part of a step does: it starts at the task \<open>k0\<close>, if any, and leaves the task \<open>k\<close>, if any.\<close>

definition moves :: "ws_task option \<Rightarrow> ws_channel \<Rightarrow> ws_task option \<Rightarrow> ws_channel \<Rightarrow> bool" where
  "moves k0 s k s' \<longleftrightarrow> (wc_state s' = Ws_open \<longrightarrow> wc_admission s' = wc_admission s)
     \<and> (shut_fields s \<longrightarrow> shut_fields s')
     \<and> (closing_task k \<longrightarrow> wc_state s' \<noteq> Ws_open)
     \<and> (wc_state s' = Ws_closing \<longrightarrow> k = Some Completing \<or> wc_state s = Ws_closing \<and> k0 \<noteq> Some Completing)
     \<and> (ws_ended s' \<longrightarrow> given_back s' \<or> (\<exists>why. k = Some (Releasing why))
          \<or> ws_ended s \<and> \<not> given_back s \<and> (\<forall>why. k0 \<noteq> Some (Releasing why)))"

lemmas moves_defs = moves_def shut_fields_def ws_ended_def given_back_def

lemma fail_closed_moves:
  assumes "fail_closed f s = (k, s')" and "\<forall>why. k0 \<noteq> Some (Releasing why)"
  shows "moves k0 s k s'"
proof (cases "ws_ended s")
  case True
  then have "k = None" "s' = s" using assms(1) by (auto simp: fail_closed_def ws_ended_def)
  then show ?thesis using True assms(2) by (auto simp: moves_def ws_ended_def)
next
  case False
  then show ?thesis
    using assms by (auto simp: fail_closed_def release_once_def moves_defs ws_small Let_def split: if_splits)
qed

text \<open>A part that begins with changes of fields the invariant does not read.\<close>

definition alike :: "ws_channel \<Rightarrow> ws_channel \<Rightarrow> bool" where
  "alike s t \<longleftrightarrow> wc_state t = wc_state s \<and> wc_admission t = wc_admission s \<and> wc_released t = wc_released s
     \<and> wc_failure t = wc_failure s \<and> (wc_state s = Ws_open \<or> \<not> shut_fields s \<or> wc_pending t = None \<and> \<not> wc_timer t)"

lemma alikeD:
  assumes "alike s t"
  shows "shut_fields s \<Longrightarrow> shut_fields t" "ws_ended t = ws_ended s" "given_back t = given_back s"
    "wc_admission t = wc_admission s" "wc_state t = wc_state s"
  using assms by (auto simp: alike_def shut_fields_def ws_ended_def given_back_def)

lemma moves_from: "alike s t \<Longrightarrow> moves k0 t k s' \<Longrightarrow> moves k0 s k s'"
  unfolding moves_def by (simp add: alikeD)

lemma still_moves: "alike s t \<Longrightarrow> \<not> closing_task k0 \<Longrightarrow> \<not> closing_task k \<Longrightarrow> moves k0 s k t"
  unfolding moves_def by (auto simp: alikeD closing_task_def)

lemma fail_closed_moves_from: "alike s t \<Longrightarrow> fail_closed f t = (k, s') \<Longrightarrow> \<not> closing_task k0 \<Longrightarrow> moves k0 s k s'"
  by (erule moves_from, erule fail_closed_moves) (auto simp: closing_task_def)

lemma alike_refl [simp]: "alike s s"
  by (auto simp: alike_def shut_fields_def)

lemma frame_turn_moves:
  assumes "frame_turn r c s = (k, s')" and "\<not> closing_task k0"
  shows "moves k0 s k s'"
proof (cases "c = None \<or> wc_state s \<noteq> Ws_open")
  case True
  then have "k = None" "s' = s" using assms(1) by (auto simp: frame_turn_def split: option.splits)
  then show ?thesis using assms(2) still_moves by simp
next
  case False
  then obtain f where f: "c = Some f" and opened: "wc_state s = Ws_open" by auto
  obtain b s1 where b: "is_ws_backpressured r s = (b, s1)" by (cases "is_ws_backpressured r s")
  then have alike: "alike s s1" using opened by (simp add: alike_def)
  show ?thesis
  proof (cases b)
    case None
    then have "fail_closed Fail_transport s1 = (k, s')" using assms(1) f opened b by (simp add: frame_turn_def)
    then show ?thesis by (rule fail_closed_moves_from [OF alike _ assms(2)])
  next
    case (Some full)
    then have "alike s s' \<and> \<not> closing_task k"
      using assms(1) f opened b by (cases full) (auto simp: frame_turn_def run_use_def ws_small alike_def split: if_splits)
    then show ?thesis using assms(2) still_moves by simp
  qed
qed

lemma frame_turn_moves_from: "alike s t \<Longrightarrow> frame_turn r c t = (k, s') \<Longrightarrow> \<not> closing_task k0 \<Longrightarrow> moves k0 s k s'"
  using frame_turn_moves moves_from by blast

lemma alike_fields [simp]:
  "alike s (t\<lparr>wc_stage := x\<rparr>) = alike s t" "alike s (t\<lparr>wc_log := l\<rparr>) = alike s t"
  "alike s (t\<lparr>wc_framed := b\<rparr>) = alike s t" "alike s (t\<lparr>wc_sent := n\<rparr>) = alike s t" "alike s (release_inbound i t) = alike s t"
  "alike s t \<Longrightarrow> alike s (t\<lparr>wc_pending := None\<rparr>)"
  by (auto simp: alike_def release_inbound_def)

lemma after_use_moves: "after_use r u out s = (k, s') \<Longrightarrow> moves (Some (Ending v o')) s k s'"
  by (cases u) (auto simp: after_use_def emit_def Let_def split: if_splits intro: still_moves frame_turn_moves_from [rotated])

lemma use_ended_moves: "use_ended r u out s = (k, s') \<Longrightarrow> moves (Some (Ending v o')) s k s'"
proof (induction out)
  case Op_recoverable
  then show ?case
    by (cases u) (auto simp: use_ended_def Let_def intro: still_moves fail_closed_moves_from [rotated])
next
  case Op_failed
  then show ?case by (auto simp: use_ended_def intro: fail_closed_moves)
qed (auto simp: use_ended_def dest!: after_use_moves split: ws_use.splits intro: moves_from [rotated])

lemma settle_moves:
  assumes "settle_task x r k0 s = (k, s')" and "closing_task (Some k0) \<Longrightarrow> wc_state s \<noteq> Ws_open"
  shows "moves (Some k0) s k s'"
proof (cases k0)
  case (Beginning u)
  show ?thesis
  proof (cases "r = Resolved")
    case True
    then show ?thesis
      using assms Beginning
      by (auto simp: start_operation_def emit_def moves_defs Let_def split: ws_use.splits if_splits)
  qed (use assms Beginning in \<open>auto intro: fail_closed_moves\<close>)
next
  case (Operating u calls)
  then show ?thesis
    using assms by (auto simp: end_operation_def emit_def moves_defs Let_def split: ws_use.splits use_outcome.splits)
next
  case (Ending u out)
  then show ?thesis
    using assms by (cases "r = Resolved") (auto intro: fail_closed_moves use_ended_moves)
next
  case (Releasing why)
  then show ?thesis
    using assms by (cases why; cases "r = Resolved") (auto simp: moves_defs ws_small Let_def)
next
  case Completing
  show ?thesis
  proof (cases "r = Resolved")
    case True
    then show ?thesis using assms Completing by (auto simp: complete_settled_def emit_def moves_defs)
  qed (use assms Completing in \<open>auto simp: complete_settled_def intro: fail_closed_moves\<close>)
qed

lemma start_text_moves: "start_text parse raw s = (k, s') \<Longrightarrow> moves None s k s'"
proof (cases "wc_state s \<noteq> Ws_open \<or> \<not> wc_admission s")
  case False
  assume start: "start_text parse raw s = (k, s')"
  show ?thesis
  proof (cases "parse_human_message parse (wl_inbound (wc_limits s)) (wc_policy s) raw")
    case (Inl f)
    then show ?thesis using start False by (auto simp: start_text_def intro: fail_closed_moves)
  next
    case (Inr m)
    then show ?thesis
      using start False
      by (cases m) (auto simp: start_text_def run_use_def complete_ws_def emit_def moves_defs split: if_splits)
  qed
qed (auto simp: start_text_def intro: still_moves)

lemma start_closing_moves:
  assumes "st \<notin> {Ws_open, Ws_closing}" and "start_closing why st s = (k, s')" and "\<not> wc_admission s"
  shows "moves None s k s'"
proof (cases "wc_state s \<in> {Ws_closed, Ws_revoked} \<and> wc_released s")
  case True
  then show ?thesis using assms(2) by (auto simp: start_closing_def intro: still_moves)
next
  case False
  let ?t = "s\<lparr>wc_state := st, wc_timer := False, wc_pending := None\<rparr>"
  have shut: "\<not> wc_admission ?t" "wc_pending ?t = None" "\<not> wc_timer ?t" "wc_state ?t = st" using assms(3) by simp_all
  show ?thesis
  proof (cases "wc_released s")
    case True
    then have "k = None" "s' = release_settled why True ?t"
      using assms(2) False by (auto simp: start_closing_def release_once_def)
    then show ?thesis
      using shut assms(1) by (cases why) (auto simp: moves_defs release_settled_def fail_notified_def emit_def Let_def)
  next
    case unreleased: False
    then have "k = Some (Releasing why)" "s' = emit E_release ?t"
      using assms(2) by (auto simp: start_closing_def release_once_def)
    then show ?thesis using shut assms(1) by (auto simp: moves_defs emit_def)
  qed
qed

lemma start_job_moves:
  assumes "start_job parse j s = (k, s')" and "(\<forall>raw n. j \<noteq> Job_text raw n) \<longrightarrow> \<not> wc_admission s"
  shows "moves None s k s'"
proof (cases j)
  case (Job_text raw n)
  then have "moves None (release_inbound (int n) s) k s'" using assms(1) start_text_moves by simp
  then show ?thesis by (rule moves_from [rotated]) simp
next
  case (Job_fail f)
  then show ?thesis using assms(1) by (auto intro: fail_closed_moves)
qed (use assms in \<open>auto intro: start_closing_moves [rotated]\<close>)

lemma start_job_stops: "start_job parse j s = (k, s') \<Longrightarrow> \<forall>raw n. j \<noteq> Job_text raw n \<Longrightarrow> wc_state s' \<noteq> Ws_open"
  by (cases j) (auto simp: fail_closed_def start_closing_def release_once_def ws_small Let_def
      split: if_splits release_reason.splits)

text \<open>The texts that are queued, and their bytes.\<close>

definition queued_texts :: "ws_job list \<Rightarrow> nat list" where
  "queued_texts js = concat (map (\<lambda>j. case j of Job_text raw n \<Rightarrow> [n] | _ \<Rightarrow> []) js)"

lemma queued_texts_simps [simp]:
  "queued_texts [] = []" "queued_texts (js @ js') = queued_texts js @ queued_texts js'"
  "queued_texts (Job_text raw n # js) = n # queued_texts js" "queued_texts (Job_fail f # js) = queued_texts js"
  "queued_texts (Job_disconnect # js) = queued_texts js" "queued_texts (Job_revoke # js) = queued_texts js"
  by (simp_all add: queued_texts_def)

definition queue_counted :: "ws_channel \<Rightarrow> bool" where
  "queue_counted s \<longleftrightarrow> wc_messages s = int (length (queued_texts (wc_jobs s)))
     \<and> wc_bytes s = int (sum_list (queued_texts (wc_jobs s)))
     \<and> wc_messages s \<le> wc_max_messages s \<and> wc_max_messages s \<le> wl_messages (wc_limits s)
     \<and> wc_bytes s \<le> wc_max_bytes s \<and> wc_max_bytes s \<le> wl_bytes (wc_limits s)
     \<and> (\<forall>raw n. Job_text raw n \<in> set (wc_jobs s) \<longrightarrow> n = utf8_length raw)"

definition is_text :: "ws_job \<Rightarrow> bool" where
  "is_text j \<longleftrightarrow> (case j of Job_text raw n \<Rightarrow> True | _ \<Rightarrow> False)"

lemma is_text_simps [simp]:
  "is_text (Job_text raw n)" "\<not> is_text (Job_fail f)" "\<not> is_text Job_disconnect" "\<not> is_text Job_revoke"
  by (simp_all add: is_text_def)

text \<open>Admission is closed exactly when something that ends the channel is queued, or the channel has left the open state.\<close>

definition fenced :: "ws_channel \<Rightarrow> bool" where
  "fenced s \<longleftrightarrow> ((\<exists>j \<in> set (wc_jobs s). \<not> is_text j) \<longrightarrow> \<not> wc_admission s)
     \<and> (\<not> wc_admission s \<and> wc_state s = Ws_open \<longrightarrow> (\<exists>j \<in> set (wc_jobs s). \<not> is_text j))"

definition ws_tasks :: "ws_channel \<Rightarrow> ws_task set" where
  "ws_tasks s = set_option (wc_job s) \<union> set_option (wc_loop s) \<union> set (wc_side s)"

definition ws_good :: "ws_channel \<Rightarrow> bool" where
  "ws_good s \<longleftrightarrow> tasks_ok s \<and> shut_fields s \<and> fenced s \<and> queue_counted s
     \<and> (\<forall>k \<in> ws_tasks s. closing_task (Some k) \<longrightarrow> wc_state s \<noteq> Ws_open)
     \<and> (wc_state s = Ws_closing \<longrightarrow> wc_job s = Some Completing)
     \<and> (ws_ended s \<longrightarrow> given_back s \<or> (\<exists>why. Releasing why \<in> ws_tasks s))"

lemma ws_goodD:
  assumes "ws_good s"
  shows "tasks_ok s" "shut_fields s" "fenced s" "queue_counted s"
    "\<And>k. k \<in> ws_tasks s \<Longrightarrow> closing_task (Some k) \<Longrightarrow> wc_state s \<noteq> Ws_open"
    "wc_state s = Ws_closing \<Longrightarrow> wc_job s = Some Completing"
    "ws_ended s \<Longrightarrow> given_back s \<or> (\<exists>why. Releasing why \<in> ws_tasks s)"
  using assms by (auto simp: ws_good_def)

text \<open>The three places a part of a step can run in: its old task and the tasks that stay.\<close>

definition places :: "ws_channel \<Rightarrow> ws_task option \<Rightarrow> ws_task set \<Rightarrow> ws_channel \<Rightarrow> ws_task option \<Rightarrow> bool" where
  "places s k0 rest t k \<longleftrightarrow> ws_tasks s = set_option k0 \<union> rest \<and> ws_tasks t = set_option k \<union> rest"

lemma part_good:
  assumes good: "ws_good s" and part: "moves old s k t" and at: "places s old rest t k"
    and ok: "tasks_ok t" "fenced t" "queue_counted t"
    and quiet: "wc_state t = Ws_open \<Longrightarrow> wc_state s = Ws_open"
    and job: "wc_state t = Ws_closing \<Longrightarrow> wc_job s = Some Completing \<and> old \<noteq> Some Completing \<or> k = Some Completing
        \<Longrightarrow> wc_job t = Some Completing"
  shows "ws_good t"
proof -
  note D = ws_goodD [OF good]
  have shut: "shut_fields t" using D(2) part by (simp add: moves_def)
  have closing: "wc_state t \<noteq> Ws_open" if "x \<in> ws_tasks t" "closing_task (Some x)" for x
  proof (cases "k = Some x")
    case True
    then show ?thesis using part that(2) by (simp add: moves_def)
  next
    case False
    then have "x \<in> ws_tasks s" using at that(1) by (auto simp: places_def)
    then show ?thesis using D(5) that(2) quiet by blast
  qed
  have completing: "wc_job t = Some Completing" if "wc_state t = Ws_closing"
    using job that part D(6) by (auto simp: moves_def)
  have held: "given_back t \<or> (\<exists>why. Releasing why \<in> ws_tasks t)" if ended: "ws_ended t"
  proof -
    have "given_back t \<or> (\<exists>why. k = Some (Releasing why)) \<or> ws_ended s \<and> \<not> given_back s \<and> (\<forall>why. old \<noteq> Some (Releasing why))"
      using part ended by (simp add: moves_def)
    then consider "given_back t" | why where "k = Some (Releasing why)"
      | "ws_ended s" "\<not> given_back s" "\<forall>why. old \<noteq> Some (Releasing why)"
      by blast
    then show ?thesis
    proof cases
      case 3
      then obtain why where "Releasing why \<in> ws_tasks s" using D(7) by blast
      then show ?thesis using 3(3) at by (auto simp: places_def)
    qed (use at in \<open>auto simp: places_def\<close>)
  qed
  show ?thesis using ok shut closing completing held by (simp add: ws_good_def)
qed

lemma moves_places [simp]:
  "moves k0 s k (t\<lparr>wc_job := x\<rparr>) = moves k0 s k t" "moves k0 s k (t\<lparr>wc_loop := x\<rparr>) = moves k0 s k t"
  "moves k0 s k (t\<lparr>wc_side := sd\<rparr>) = moves k0 s k t" "moves k0 (s\<lparr>wc_side := sd\<rparr>) k t = moves k0 s k t"
  "moves k0 (s\<lparr>wc_jobs := js\<rparr>) k t = moves k0 s k t"
  by (simp_all add: moves_defs)

lemma quiet_keeps:
  assumes "ws_quiet s t" and "moves k0 s k t" and "fenced s" and "queue_counted s"
  shows "fenced (t\<lparr>wc_job := x\<rparr>)" "queue_counted (t\<lparr>wc_job := x\<rparr>)" "fenced (t\<lparr>wc_loop := x\<rparr>)" "queue_counted (t\<lparr>wc_loop := x\<rparr>)"
    "fenced (t\<lparr>wc_side := sd\<rparr>)" "queue_counted (t\<lparr>wc_side := sd\<rparr>)"
  using assms by (auto simp: ws_quiet_def moves_def fenced_def queue_counted_def)

lemma job_good:
  assumes good: "ws_good s" and "wc_job s = Some k0" and part: "moves (Some k0) s k t" and "ws_quiet s t"
    and "pred_option (task_for job_use True) k"
  shows "ws_good (t\<lparr>wc_job := k\<rparr>)"
proof (rule part_good [OF good, where old = "Some k0" and k = k and rest = "set_option (wc_loop s) \<union> set (wc_side s)"])
  show "places s (Some k0) (set_option (wc_loop s) \<union> set (wc_side s)) (t\<lparr>wc_job := k\<rparr>) k"
    using assms(2,4) by (simp add: places_def ws_tasks_def ws_quiet_def Un_assoc)
  show "tasks_ok (t\<lparr>wc_job := k\<rparr>)"
    using ws_goodD(1) [OF good] assms(4,5) by (simp add: tasks_ok_def ws_quiet_def)
qed (use assms quiet_keeps [OF assms(4) part ws_goodD(3,4) [OF good]] in \<open>auto simp: ws_quiet_def\<close>)

lemma ws_loop_good:
  assumes good: "ws_good s" and "wc_loop s = k0" and part: "moves k0 s k t" and "ws_quiet s t"
    and "pred_option (task_for loop_use False) k"
  shows "ws_good (t\<lparr>wc_loop := k\<rparr>)"
proof (rule part_good [OF good, where old = k0 and k = k and rest = "set_option (wc_job s) \<union> set (wc_side s)"])
  show "places s k0 (set_option (wc_job s) \<union> set (wc_side s)) (t\<lparr>wc_loop := k\<rparr>) k"
    using assms(2,4) by (auto simp: places_def ws_tasks_def ws_quiet_def)
  show "tasks_ok (t\<lparr>wc_loop := k\<rparr>)"
    using ws_goodD(1) [OF good] assms(4,5) by (simp add: tasks_ok_def ws_quiet_def)
  show "wc_job (t\<lparr>wc_loop := k\<rparr>) = Some Completing"
    if "wc_job s = Some Completing \<and> k0 \<noteq> Some Completing \<or> k = Some Completing"
    using that assms(4,5) by (auto simp: ws_quiet_def task_for_def)
qed (use assms quiet_keeps [OF assms(4) part ws_goodD(3,4) [OF good]] in \<open>auto simp: ws_quiet_def\<close>)

lemma side_good:
  assumes good: "ws_good s" and sd: "set (wc_side s) = set_option k0 \<union> set sd" and part: "moves k0 s k t"
    and quiet: "ws_quiet (s\<lparr>wc_side := sd\<rparr>) t" and k: "pred_option (task_for (\<lambda>u. u = Use_ready) False) k"
  shows "ws_good (on_side (k, t))"
proof -
  let ?t = "t\<lparr>wc_side := sd @ (case k of None \<Rightarrow> [] | Some x \<Rightarrow> [x])\<rparr>"
  have same: "on_side (k, t) = ?t" using quiet by (simp add: on_side_cases ws_quiet_def)
  have quiet': "ws_quiet s (t\<lparr>wc_side := wc_side s\<rparr>)" using quiet by (simp add: ws_quiet_def)
  note keep = quiet_keeps(5,6) [OF quiet' _ ws_goodD(3,4) [OF good], of k0 k, simplified]
  show ?thesis
    unfolding same
  proof (rule part_good [OF good, where old = k0 and k = k
        and rest = "set_option (wc_job s) \<union> set_option (wc_loop s) \<union> set sd"])
    show "places s k0 (set_option (wc_job s) \<union> set_option (wc_loop s) \<union> set sd) ?t k"
      using sd quiet by (auto simp: places_def ws_tasks_def ws_quiet_def split: option.splits)
    show "tasks_ok ?t"
      using ws_goodD(1) [OF good] quiet k sd
      by (auto simp: tasks_ok_def ws_quiet_def list_all_iff split: option.splits)
    show "wc_job ?t = Some Completing"
      if "wc_job s = Some Completing \<and> k0 \<noteq> Some Completing \<or> k = Some Completing"
      using that quiet k by (auto simp: ws_quiet_def task_for_def)
  qed (use part quiet keep [OF part] in \<open>auto simp: ws_quiet_def\<close>)
qed

lemma still_good:
  assumes "ws_good s" and "moves None s None t" and "ws_quiet s t"
  shows "ws_good t"
  using side_good [of s None "wc_side s" None t] assms by simp

lemma side_part:
  assumes "ws_good s" and "moves None s k t" and "ws_quiet s t" and "\<forall>x. k = Some x \<longrightarrow> task_for (\<lambda>u. u = Use_ready) False x"
  shows "ws_good (on_side (k, t))"
  by (rule side_good [OF assms(1) _ assms(2), of "wc_side s"]) (use assms(3,4) in \<open>cases k; simp\<close>)+

lemma quiet_trans: "ws_quiet a b \<Longrightarrow> ws_quiet b c \<Longrightarrow> ws_quiet a c"
  by (auto simp: ws_quiet_def)

lemma read_quiet: "is_ws_backpressured r s = (b, t) \<Longrightarrow> wc_state s = Ws_open \<Longrightarrow> ws_quiet s t \<and> alike s t"
  by (simp add: ws_quiet_def alike_def)

lemma fail_on_side_good:
  assumes "ws_good s" and "ws_quiet s t" and "alike s t"
  shows "ws_good (on_side (fail_closed f t))"
proof -
  obtain k u where r: "fail_closed f t = (k, u)" by (cases "fail_closed f t")
  have "ws_good (on_side (k, u))"
  proof (rule side_part [OF assms(1)])
    show "moves None s k u" using fail_closed_moves_from [OF assms(3) r] by simp
    show "ws_quiet s u" using quiet_trans [OF assms(2) fail_closed_quiet [OF r]] .
    show "\<forall>x. k = Some x \<longrightarrow> task_for (\<lambda>u. u = Use_ready) False x"
      using r fail_closed_task [of f t] by (auto simp: task_for_def)
  qed
  then show ?thesis by (simp add: r)
qed

lemma turn_on_loop_good:
  assumes "ws_good s" and "wc_loop s = None" and "ws_quiet s t" and "alike s t"
  shows "ws_good (on_loop (frame_turn r c t))"
proof -
  obtain k u where res: "frame_turn r c t = (k, u)" by (cases "frame_turn r c t")
  have "ws_good (u\<lparr>wc_loop := k\<rparr>)"
  proof (rule ws_loop_good [OF assms(1,2)])
    show "moves None s k u" using frame_turn_moves_from [OF assms(4) res] by simp
    show "ws_quiet s u" using quiet_trans [OF assms(3) frame_turn_quiet [OF res]] .
    show "pred_option (task_for loop_use False) k"
      using res frame_turn_task by (cases k) auto
  qed
  then show ?thesis by (simp add: res)
qed

lemma open_alike: "wc_state s = Ws_open \<Longrightarrow> wc_state t = Ws_open \<Longrightarrow> wc_admission t = wc_admission s \<Longrightarrow> wc_released t = wc_released s
    \<Longrightarrow> wc_failure t = wc_failure s \<Longrightarrow> alike s t"
  by (simp add: alike_def)

lemma push_frame_good:
  assumes good: "ws_good s"
  shows "ws_good (push_frame r1 r2 f s)"
proof (cases "wc_state s = Ws_open")
  case opened: True
  obtain b s1 where b: "is_ws_backpressured r1 s = (b, s1)" by (cases "is_ws_backpressured r1 s")
  then have s1: "ws_quiet s s1" "alike s s1" "wc_state s1 = Ws_open" using read_quiet [OF b opened] opened by simp_all
  have parked: "ws_good (schedule_drain (replace_pending_frame f t))" if "ws_quiet s t" "alike s t" "wc_state t = Ws_open" for t
    using that opened
    by (intro still_good [OF good] still_moves open_alike) (auto simp: ws_small alike_def ws_quiet_def)
  have turn: "ws_good (on_loop (frame_turn r2 (Some f) (s1\<lparr>wc_dropped := n, wc_pending := None\<rparr>)))" if "wc_loop s = None" for n
    using s1 opened by (intro turn_on_loop_good [OF good that] open_alike) (auto simp: ws_quiet_def alike_def)
  show ?thesis
    using opened b good parked [of s] parked [OF s1] turn fail_on_side_good [OF good s1(1,2)] fail_on_side_good [OF good, of s]
    by (auto simp: push_frame_def split: option.splits bool.splits)
qed (use good in \<open>simp add: push_frame_def\<close>)

lemma flush_good:
  assumes good: "ws_good s" and "wc_timer s"
  shows "ws_good (flush_pending r1 r2 s)"
proof -
  have opened: "wc_state s = Ws_open" using ws_goodD(2) [OF good] assms(2) by (auto simp: shut_fields_def)
  let ?s = "s\<lparr>wc_timer := False\<rparr>"
  obtain b s1 where b: "is_ws_backpressured r1 ?s = (b, s1)" by (cases "is_ws_backpressured r1 ?s")
  have s0: "ws_quiet s ?s" "alike s ?s" using opened by (auto simp: ws_quiet_def alike_def)
  then have s1: "ws_quiet s s1" "alike s s1" "wc_state s1 = Ws_open" using b opened by (simp_all add: ws_quiet_def alike_def)
  have still: "ws_good t" if "ws_quiet s t" "alike s t" for t
    using that by (intro still_good [OF good] still_moves) simp_all
  have later: "ws_good (schedule_drain s1)"
    using s1 by (intro still) (auto simp: schedule_drain_def ws_quiet_def alike_def)
  have turn: "ws_good (on_loop (frame_turn r2 (Some f) (s1\<lparr>wc_pending := None\<rparr>)))" if "wc_loop s = None" for f
    using s1 opened by (intro turn_on_loop_good [OF good that] open_alike) (auto simp: ws_quiet_def alike_def)
  show ?thesis
    using opened b s0 still later turn fail_on_side_good [OF good s1(1,2)]
    by (auto simp: flush_pending_def Let_def split: option.splits bool.splits)
qed

lemma start_good:
  assumes "ws_good s"
  shows "ws_good (start_ws s)"
proof -
  let ?t = "s\<lparr>wc_log := wc_log s @ [E_begin Use_ready]\<rparr>"
  have "ws_good (on_side (Some (Beginning Use_ready), ?t))"
    by (rule side_part [OF assms]) (auto simp: task_for_def ws_quiet_def intro: still_moves)
  then show ?thesis using assms by (simp add: start_ws_def run_use_def emit_def)
qed

text \<open>A job joins the queue.\<close>

lemma enqueue_good:
  assumes "ws_good s" and "\<not> is_text j"
  shows "ws_good (enqueue j (s\<lparr>wc_admission := False\<rparr>))"
  using assms
  by (cases j) (auto simp: enqueue_def ws_good_def tasks_ok_def shut_fields_def fenced_def queue_counted_def ws_tasks_def
      ws_ended_def given_back_def)

lemma receive_good:
  assumes good: "ws_good s"
  shows "ws_good (receive_text raw s)"
proof -
  have "ws_good (enqueue (Job_text raw (utf8_length raw)) t)" if "reserve_inbound (int (utf8_length raw)) s = Some t" "wc_admission s" for t
    using good that
    by (auto simp: enqueue_def reserve_inbound_def ws_good_def tasks_ok_def shut_fields_def fenced_def queue_counted_def
        ws_tasks_def ws_ended_def given_back_def split: if_splits)
  then show ?thesis
    using good enqueue_good [OF good, of "Job_fail _"]
    by (auto simp: receive_text_def Let_def split: option.splits)
qed

text \<open>A job leaves it.\<close>

lemma next_good:
  assumes good: "ws_good s" and job: "wc_job s = None" and jobs: "wc_jobs s = j # js"
    and start: "start_job parse j (s\<lparr>wc_jobs := js\<rparr>) = (k, t)"
  shows "ws_good (t\<lparr>wc_job := k\<rparr>)"
proof (rule part_good [OF good, where old = None and k = k and rest = "set_option (wc_loop s) \<union> set (wc_side s)"])
  note D = ws_goodD [OF good]
  let ?s = "job_taken j (s\<lparr>wc_jobs := js\<rparr>)"
  have quiet: "ws_quiet ?s t" by (rule start_job_quiet [OF start])
  have taken: "wc_jobs ?s = js" "wc_loop ?s = wc_loop s" "wc_side ?s = wc_side s" "wc_admission ?s = wc_admission s"
      "wc_state ?s = wc_state s" "wc_job ?s = None"
    using job by (simp_all add: job_taken_def release_inbound_def split: ws_job.split)
  have open_text: "is_text j" if "wc_state t = Ws_open"
    using start_job_stops [OF start] that by (cases j) auto
  show moves: "moves None s k (t\<lparr>wc_job := k\<rparr>)"
    using start_job_moves [OF start] D(3) jobs by (auto simp: fenced_def is_text_def split: ws_job.splits)
  show "places s None (set_option (wc_loop s) \<union> set (wc_side s)) (t\<lparr>wc_job := k\<rparr>) k"
    using job quiet taken by (simp add: places_def ws_tasks_def ws_quiet_def Un_assoc)
  show "tasks_ok (t\<lparr>wc_job := k\<rparr>)"
    using D(1) quiet taken start start_job_kind by (cases k) (auto simp: tasks_ok_def ws_quiet_def)
  show "fenced (t\<lparr>wc_job := k\<rparr>)"
    using D(3) jobs quiet taken moves open_text by (auto simp: fenced_def ws_quiet_def moves_def)
  show "queue_counted (t\<lparr>wc_job := k\<rparr>)"
    using D(4) jobs quiet by (cases j) (auto simp: queue_counted_def ws_quiet_def job_taken_def release_inbound_def)
  show "wc_state (t\<lparr>wc_job := k\<rparr>) = Ws_open \<Longrightarrow> wc_state s = Ws_open" using quiet taken by (simp add: ws_quiet_def)
qed (use job in simp)

lemma ws_settle_good:
  assumes good: "ws_good s"
  shows "ws_good (ws_step parse s (M_settle p r x))"
proof -
  note D = ws_goodD [OF good]
  have kind: "pred_option (task_for uses closing) k"
    if "settle_task x r k0 u = (k, t)" "task_for uses closing k0" "uses = job_use \<or> uses = loop_use \<or> uses = (\<lambda>u. u = Use_ready)"
    for k0 u k t uses closing
    using settle_task_kind [of x r k0 u _ t uses closing] that by (cases k) auto
  show ?thesis
  proof (cases p)
    case In_queue
    show ?thesis
    proof (cases "wc_job s")
      case (Some k0)
      obtain k t where r: "settle_task x r k0 s = (k, t)" by (cases "settle_task x r k0 s")
      have "ws_good (t\<lparr>wc_job := k\<rparr>)"
        using D(1) Some by (intro job_good [OF good Some settle_moves [OF r] settle_quiet [OF r]] D(5) kind [OF r])
          (auto simp: ws_tasks_def tasks_ok_def)
      then show ?thesis using In_queue Some r by simp
    qed (use good In_queue in simp)
  next
    case In_loop
    show ?thesis
    proof (cases "wc_loop s")
      case (Some k0)
      obtain k t where r: "settle_task x r k0 s = (k, t)" by (cases "settle_task x r k0 s")
      have "ws_good (t\<lparr>wc_loop := k\<rparr>)"
        using D(1) Some by (intro ws_loop_good [OF good Some settle_moves [OF r] settle_quiet [OF r]] D(5) kind [OF r])
          (auto simp: ws_tasks_def tasks_ok_def)
      then show ?thesis using In_loop Some r by simp
    qed (use good In_loop in simp)
  next
    case (On_side n)
    show ?thesis
    proof (cases "n < length (wc_side s)")
      case True
      let ?k0 = "wc_side s ! n" and ?sd = "take n (wc_side s) @ drop (n + 1) (wc_side s)"
      obtain k t where r: "settle_task x r ?k0 (s\<lparr>wc_side := ?sd\<rparr>) = (k, t)"
        by (cases "settle_task x r ?k0 (s\<lparr>wc_side := ?sd\<rparr>)")
      have at: "wc_side s = take n (wc_side s) @ ?k0 # drop (n + 1) (wc_side s)" using True by (simp add: id_take_nth_drop)
      then have "set (wc_side s) = set (take n (wc_side s) @ ?k0 # drop (n + 1) (wc_side s))" by (rule arg_cong)
      then have sides: "set (wc_side s) = set_option (Some ?k0) \<union> set ?sd" by simp
      have member: "?k0 \<in> set (wc_side s)" using True by simp
      have "ws_good (on_side (k, t))"
      proof (rule side_good [OF good sides])
        show "moves (Some ?k0) s k t"
          using settle_moves [OF r] D(5) member by (auto simp: ws_tasks_def)
        show "ws_quiet (s\<lparr>wc_side := ?sd\<rparr>) t" by (rule settle_quiet [OF r])
        show "pred_option (task_for (\<lambda>u. u = Use_ready) False) k"
          using kind [OF r] D(1) member by (auto simp: tasks_ok_def list_all_iff)
      qed
      then show ?thesis using On_side True r by simp
    qed (use good On_side in simp)
  qed
qed

lemma ws_step_good: "ws_good s \<Longrightarrow> ws_good (ws_step parse s m)"
proof (induction parse s m rule: ws_step.induct)
  case (6 parse s)
  show ?case
  proof (cases "wc_job s = None \<and> wc_jobs s \<noteq> []")
    case True
    then obtain j js where jobs: "wc_job s = None" "wc_jobs s = j # js" by (cases "wc_jobs s") auto
    obtain k t where "start_job parse j (s\<lparr>wc_jobs := js\<rparr>) = (k, t)" by (cases "start_job parse j (s\<lparr>wc_jobs := js\<rparr>)")
    then show ?thesis using next_good [OF 6 jobs] next_step [OF jobs] by simp
  qed (use 6 in \<open>auto split: option.splits list.splits\<close>)
next
  case (7 parse s r reading)
  then show ?case by (rule ws_settle_good)
next
  case (8 parse s r reading)
  then show ?case by (rule ws_settle_good)
next
  case (9 parse s n r reading)
  then show ?case by (rule ws_settle_good)
qed (auto simp: start_good receive_good push_frame_good flush_good disconnect_ws_def revoke_ws_def enqueue_good)

interpretation ws_machine: guarded_machine "ws_step parse" ws_good for parse
  by unfold_locales (rule ws_step_good)

lemma ws_limit_bounds: "ws_limit v fallback m = Some n \<Longrightarrow> 1 \<le> n \<and> n \<le> m"
  by (auto simp: ws_limit_def Let_def split: if_splits)

lemma new_ws_fields:
  assumes "new_ws_channel b p ops = Some s"
  shows "wc_jobs s = []" "wc_job s = None" "wc_loop s = None" "wc_side s = []" "wc_state s = Ws_open" "wc_admission s"
    "wc_log s = []" "wc_pending s = None" "wc_sent s = 0" "wc_dropped s = 0" "wc_messages s = 0" "wc_bytes s = 0"
    "wc_max_messages s = 0" "wc_max_bytes s = 0" "wc_policy s = p" "wc_binding s = b"
    "1 \<le> wl_messages (wc_limits s)" "1 \<le> wl_bytes (wc_limits s)"
proof -
  obtain limits where s: "s = \<lparr>wc_binding = b, wc_policy = p, wc_limits = limits,
       wc_state = Ws_open, wc_admission = True, wc_jobs = [], wc_job = None, wc_loop = None, wc_side = [],
       wc_pending = None, wc_released = False, wc_done_started = False, wc_timer = False,
       wc_sent = 0, wc_dropped = 0, wc_backpressure = 0, wc_buffered = num_of_int 0, wc_max_buffered = num_of_int 0,
       wc_messages = 0, wc_bytes = 0, wc_max_messages = 0, wc_max_bytes = 0,
       wc_failure = None, wc_stage = Stage_none, wc_framed = False, wc_log = []\<rparr>"
    and "1 \<le> wl_messages limits" "1 \<le> wl_bytes limits"
    using assms by (fastforce simp: new_ws_channel_def dest: ws_limit_bounds split: option.splits bool.splits)
  then show "wc_jobs s = []" "wc_job s = None" "wc_loop s = None" "wc_side s = []" "wc_state s = Ws_open" "wc_admission s"
    "wc_log s = []" "wc_pending s = None" "wc_sent s = 0" "wc_dropped s = 0" "wc_messages s = 0" "wc_bytes s = 0"
    "wc_max_messages s = 0" "wc_max_bytes s = 0" "wc_policy s = p" "wc_binding s = b"
    "1 \<le> wl_messages (wc_limits s)" "1 \<le> wl_bytes (wc_limits s)"
    by simp_all
qed

lemma new_ws_good:
  assumes "new_ws_channel b p ops = Some s"
  shows "ws_good s"
proof -
  note F = new_ws_fields [OF assms]
  show ?thesis
    using F(17,18)
    by (simp add: ws_good_def tasks_ok_def shut_fields_def fenced_def queue_counted_def ws_tasks_def ws_ended_def F(1-14))
qed

section \<open>Coming to rest\<close>

fun task_weight :: "ws_task \<Rightarrow> nat" where
  "task_weight (Beginning u) = 4"
| "task_weight (Operating u c) = 3"
| "task_weight (Ending u out) = 2"
| "task_weight Completing = 2"
| "task_weight (Releasing why) = 1"

definition weight_of :: "ws_task option \<Rightarrow> nat" where
  "weight_of k = (case k of None \<Rightarrow> 0 | Some x \<Rightarrow> task_weight x)"

definition pending_weight :: "ws_channel \<Rightarrow> nat" where
  "pending_weight s = (if wc_pending s = None then 0 else 5)"

definition ws_weight :: "ws_channel \<Rightarrow> nat" where
  "ws_weight s = 5 * length (wc_jobs s) + weight_of (wc_job s) + weight_of (wc_loop s)
     + sum_list (map task_weight (wc_side s)) + pending_weight s"

lemmas weights = weight_of_def pending_weight_def

lemma weight_of_simps [simp]: "weight_of None = 0" "weight_of (Some x) = task_weight x"
  by (simp_all add: weight_of_def)

lemma pending_weight_simps [simp]:
  "pending_weight (s\<lparr>wc_log := l\<rparr>) = pending_weight s" "pending_weight (s\<lparr>wc_stage := st\<rparr>) = pending_weight s"
  "pending_weight (s\<lparr>wc_pending := None\<rparr>) = 0" "pending_weight (release_inbound n s) = pending_weight s"
  "pending_weight (s\<lparr>wc_released := b\<rparr>) = pending_weight s" "pending_weight (s\<lparr>wc_state := ws\<rparr>) = pending_weight s"
  by (simp_all add: pending_weight_def release_inbound_def)

text \<open>The moves the channel makes by itself: a job starts, or an await settles.\<close>

fun ws_enabled :: "ws_channel \<Rightarrow> ws_move \<Rightarrow> bool" where
  "ws_enabled s M_next = (wc_job s = None \<and> wc_jobs s \<noteq> [])"
| "ws_enabled s (M_settle In_queue r x) = (wc_job s \<noteq> None)"
| "ws_enabled s (M_settle In_loop r x) = (wc_loop s \<noteq> None)"
| "ws_enabled s (M_settle (On_side n) r x) = (n < length (wc_side s))"
| "ws_enabled s _ = False"

definition ws_resting :: "ws_channel \<Rightarrow> bool" where
  "ws_resting s \<longleftrightarrow> wc_job s = None \<and> wc_jobs s = [] \<and> wc_loop s = None \<and> wc_side s = []"

lemma fail_closed_weight: "fail_closed f s = (k, t) \<Longrightarrow> weight_of k + pending_weight t \<le> 1 + pending_weight s"
  by (auto simp: fail_closed_def release_once_def weights ws_small Let_def split: if_splits)

lemma frame_turn_weight:
  assumes "frame_turn r c s = (k, t)" and "wc_pending s = None"
  shows "weight_of k + pending_weight t \<le> (if c = None then 0 else 5)"
  using assms
  by (auto simp: frame_turn_def run_use_def ws_small weights split: option.splits if_splits prod.splits bool.splits
      dest!: fail_closed_weight)

lemma after_use_weight: "after_use r u out s = (k, t) \<Longrightarrow> weight_of k + pending_weight t < 2 + pending_weight s"
proof (cases u)
  case (Use_frame f)
  assume after: "after_use r u out s = (k, t)"
  define s1 where "s1 = (if wc_framed s then emit (E_latency ''frame_cadence'' None) s else s)"
  have "wc_pending s1 = wc_pending s" by (simp add: s1_def emit_def)
  moreover have "frame_turn r (wc_pending s1) (s1\<lparr>wc_framed := True, wc_sent := wc_sent s1 + 1, wc_pending := None\<rparr>) = (k, t)"
    using after Use_frame by (simp add: after_use_def s1_def Let_def)
  ultimately show ?thesis
    using frame_turn_weight by (fastforce simp: pending_weight_def)
qed (auto simp: after_use_def emit_def split: if_splits)

lemma use_ended_weight: "use_ended r u out s = (k, t) \<Longrightarrow> weight_of k + pending_weight t < 2 + pending_weight s"
proof (induction out)
  case Op_recoverable
  then show ?case
    by (cases u) (auto simp: use_ended_def dest!: fail_closed_weight)
next
  case Op_failed
  then show ?case by (auto simp: use_ended_def dest!: fail_closed_weight)
qed (cases u; auto simp: use_ended_def dest!: after_use_weight)+

lemma settle_weight: "settle_task x r k0 s = (k, t) \<Longrightarrow> weight_of k + pending_weight t < task_weight k0 + pending_weight s"
proof (induction x r k0 s rule: settle_task.induct)
  case (1 x r u s)
  then show ?case
    by (cases "r = Resolved")
      (auto simp: start_operation_def emit_def Let_def dest!: fail_closed_weight split: ws_use.splits if_splits)
next
  case (2 x r u calls s)
  then show ?case
    by (auto simp: end_operation_def emit_def Let_def split: ws_use.splits use_outcome.splits)
next
  case (3 x r u out s)
  then show ?case by (cases "r = Resolved") (auto dest!: fail_closed_weight use_ended_weight)
next
  case (4 x r why s)
  then show ?case by (auto simp: weights ws_small Let_def split: release_reason.splits)
next
  case (5 x r s)
  then show ?case by (cases "r = Resolved") (auto simp: complete_settled_def emit_def dest!: fail_closed_weight)
qed

lemma start_text_weight: "start_text parse raw s = (k, t) \<Longrightarrow> weight_of k + pending_weight t < 5 + pending_weight s"
proof (cases "wc_state s \<noteq> Ws_open \<or> \<not> wc_admission s")
  case False
  assume start: "start_text parse raw s = (k, t)"
  show ?thesis
  proof (cases "parse_human_message parse (wl_inbound (wc_limits s)) (wc_policy s) raw")
    case (Inl f)
    then show ?thesis using start False by (auto simp: start_text_def dest!: fail_closed_weight)
  next
    case (Inr m)
    then show ?thesis
      using start False by (cases m) (auto simp: start_text_def run_use_def complete_ws_def emit_def split: if_splits)
  qed
qed (auto simp: start_text_def)

lemma start_job_weight: "start_job parse j s = (k, t) \<Longrightarrow> weight_of k + pending_weight t < 5 + pending_weight s"
  by (cases j)
    (auto simp: start_closing_def release_once_def release_settled_def emit_def Let_def
      dest!: start_text_weight fail_closed_weight split: if_splits)

lemma ws_weight_drops: "ws_enabled s m \<Longrightarrow> ws_weight (ws_step parse s m) < ws_weight s"
proof (induction s m rule: ws_enabled.induct)
  case (1 s)
  then obtain j js where jobs: "wc_job s = None" "wc_jobs s = j # js" by (cases "wc_jobs s") auto
  obtain k t where start: "start_job parse j (s\<lparr>wc_jobs := js\<rparr>) = (k, t)" by (cases "start_job parse j (s\<lparr>wc_jobs := js\<rparr>)")
  have "wc_jobs t = js" "wc_loop t = wc_loop s" "wc_side t = wc_side s"
    using start_job_quiet [OF start] by (auto simp: ws_quiet_def job_taken_def release_inbound_def split: ws_job.splits)
  then show ?case
    using next_step [OF jobs start] start_job_weight [OF start] jobs by (simp add: ws_weight_def weights)
next
  case (2 s r x)
  then obtain k0 k t where job: "wc_job s = Some k0" and r: "settle_task x r k0 s = (k, t)" by (auto, metis surj_pair)
  then show ?case
    using settle_weight [OF r] settle_quiet [OF r] by (simp add: ws_weight_def weights ws_quiet_def)
next
  case (3 s r x)
  then obtain k0 k t where loop: "wc_loop s = Some k0" and r: "settle_task x r k0 s = (k, t)" by (auto, metis surj_pair)
  then show ?case
    using settle_weight [OF r] settle_quiet [OF r] by (simp add: ws_weight_def weights ws_quiet_def)
next
  case (4 s n r x)
  let ?k0 = "wc_side s ! n" and ?sd = "take n (wc_side s) @ drop (n + 1) (wc_side s)"
  obtain k t where r: "settle_task x r ?k0 (s\<lparr>wc_side := ?sd\<rparr>) = (k, t)"
    by (cases "settle_task x r ?k0 (s\<lparr>wc_side := ?sd\<rparr>)")
  have "wc_side s = take n (wc_side s) @ ?k0 # drop (n + 1) (wc_side s)" using 4 by (simp add: id_take_nth_drop)
  then have "sum_list (map task_weight (wc_side s)) = sum_list (map task_weight (take n (wc_side s) @ ?k0 # drop (n + 1) (wc_side s)))"
    by (rule arg_cong)
  then have "sum_list (map task_weight (wc_side s)) = task_weight ?k0 + sum_list (map task_weight ?sd)" by simp
  moreover have "sum_list (map task_weight (case k of None \<Rightarrow> [] | Some y \<Rightarrow> [y])) = weight_of k"
    by (simp add: weight_of_def split: option.split)
  ultimately show ?case
    using settle_weight [OF r] settle_quiet [OF r] 4 r
    by (simp add: ws_weight_def ws_quiet_def on_side_cases) (simp add: weights)
qed simp_all

text \<open>A scheduler picks the moves and the outcomes of the awaits.\<close>

fun ws_drive :: "(string \<Rightarrow> jsval option) \<Rightarrow> (ws_channel \<Rightarrow> ws_move) \<Rightarrow> nat \<Rightarrow> ws_channel \<Rightarrow> ws_channel" where
  "ws_drive parse pick 0 s = s"
| "ws_drive parse pick (Suc n) s = (if ws_resting s then s else ws_drive parse pick n (ws_step parse s (pick s)))"

lemma drive_rests:
  assumes "\<And>t. \<not> ws_resting t \<Longrightarrow> ws_enabled t (pick t)" and "ws_weight s \<le> n"
  shows "ws_resting (ws_drive parse pick n s)"
  using assms(2)
proof (induction n arbitrary: s)
  case 0
  then show ?case
    using assms(1) [of s] ws_weight_drops [of s "pick s" parse] by fastforce
next
  case (Suc n)
  then show ?case using assms(1) [of s] ws_weight_drops [of s "pick s" parse] by fastforce
qed

section \<open>What is handed over\<close>

text \<open>The input and the frame a task is about to hand over.\<close>

definition next_input :: "ws_task option \<Rightarrow> ws_input list" where
  "next_input k = (case k of Some (Beginning (Use_input i)) \<Rightarrow> [i] | _ \<Rightarrow> [])"

definition next_frame :: "ws_task option \<Rightarrow> ws_frame list" where
  "next_frame k = (case k of Some (Beginning (Use_frame f)) \<Rightarrow> [f] | _ \<Rightarrow> [])"

lemma next_simps [simp]:
  "next_input None = []" "next_frame None = []" "next_input (Some (Ending u out)) = []" "next_frame (Some (Ending u out)) = []"
  "next_input (Some (Operating u c)) = []" "next_frame (Some (Operating u c)) = []"
  "next_input (Some (Releasing why)) = []" "next_frame (Some (Releasing why)) = []"
  "next_input (Some Completing) = []" "next_frame (Some Completing) = []"
  "next_input (Some (Beginning u)) = (case u of Use_input i \<Rightarrow> [i] | _ \<Rightarrow> [])"
  "next_frame (Some (Beginning u)) = (case u of Use_frame f \<Rightarrow> [f] | _ \<Rightarrow> [])"
  by (simp_all add: next_input_def next_frame_def split: ws_use.split)

lemma fail_closed_next: "fail_closed f s = (k, t) \<Longrightarrow> next_input k = [] \<and> next_frame k = []"
  by (cases k) (auto dest: fail_closed_task)

lemma frame_turn_next: "frame_turn r c s = (k, t) \<Longrightarrow> next_input k = []"
  by (auto simp: frame_turn_def run_use_def split: option.splits if_splits prod.splits bool.splits dest!: fail_closed_next)

lemma settle_next: "settle_task x r k0 s = (k, t) \<Longrightarrow> next_input k = []"
  by (cases k0) (auto simp: start_operation_def end_operation_def use_ended_def after_use_def complete_settled_def Let_def
      dest!: fail_closed_next frame_turn_next split: if_splits ws_use.splits use_outcome.splits)

lemma settle_inputs:
  assumes "settle_task x r k0 s = (k, t)"
  shows "inputs_of (wc_log t) = inputs_of (wc_log s) @ (if r = Resolved \<and> wc_state s = Ws_open \<and> wc_admission s
    then next_input (Some k0) else [])"
proof (cases k0)
  case (Beginning u)
  then show ?thesis using begin_hands(1) [of x r u s k t] assms by (auto split: ws_use.splits)
qed (use settle_hands [OF assms] in \<open>auto simp: hands_nothing_def\<close>)

lemma settle_frames:
  assumes "settle_task x r k0 s = (k, t)"
  shows "frames_of (wc_log t) = frames_of (wc_log s) @ (if r = Resolved then next_frame (Some k0) else [])"
proof (cases k0)
  case (Beginning u)
  then show ?thesis using begin_hands(2) [of x r u s k t] assms by (auto split: ws_use.splits)
qed (use settle_hands [OF assms] in \<open>auto simp: hands_nothing_def\<close>)

text \<open>The inputs that are waiting: the one whose use begins, and those of the queued texts.\<close>

fun text_inputs :: "(string \<Rightarrow> jsval option) \<Rightarrow> int \<Rightarrow> ws_policy \<Rightarrow> string \<Rightarrow> ws_input list" where
  "text_inputs parse m p raw = (case parse_human_message parse m p raw of Inr (Msg_input i) \<Rightarrow> [i] | _ \<Rightarrow> [])"

definition queued_inputs :: "(string \<Rightarrow> jsval option) \<Rightarrow> int \<Rightarrow> ws_policy \<Rightarrow> ws_job list \<Rightarrow> ws_input list" where
  "queued_inputs parse m p js = concat (map (\<lambda>j. case j of Job_text raw n \<Rightarrow> text_inputs parse m p raw | _ \<Rightarrow> []) js)"

lemma queued_inputs_simps [simp]:
  "queued_inputs parse m p [] = []" "queued_inputs parse m p (js @ js') = queued_inputs parse m p js @ queued_inputs parse m p js'"
  "queued_inputs parse m p (Job_text raw n # js) = text_inputs parse m p raw @ queued_inputs parse m p js"
  "queued_inputs parse m p (Job_fail f # js) = queued_inputs parse m p js"
  "queued_inputs parse m p (Job_disconnect # js) = queued_inputs parse m p js"
  "queued_inputs parse m p (Job_revoke # js) = queued_inputs parse m p js"
  by (simp_all add: queued_inputs_def)

definition inputs_due :: "(string \<Rightarrow> jsval option) \<Rightarrow> ws_channel \<Rightarrow> ws_input list" where
  "inputs_due parse s = inputs_of (wc_log s) @ next_input (wc_job s)
     @ queued_inputs parse (wl_inbound (wc_limits s)) (wc_policy s) (wc_jobs s)"

definition received_inputs :: "(string \<Rightarrow> jsval option) \<Rightarrow> int \<Rightarrow> ws_policy \<Rightarrow> ws_move list \<Rightarrow> ws_input list" where
  "received_inputs parse m p ms = concat (map (\<lambda>x. case x of M_text raw \<Rightarrow> text_inputs parse m p raw | _ \<Rightarrow> []) ms)"

lemma start_text_next: "start_text parse raw s = (k, t)
    \<Longrightarrow> subseq (next_input k) (text_inputs parse (wl_inbound (wc_limits s)) (wc_policy s) raw)"
  by (auto simp: start_text_def run_use_def complete_ws_def dest!: fail_closed_next split: if_splits sum.splits ws_message.splits)

lemma start_job_next:
  assumes "start_job parse j s = (k, t)"
  shows "subseq (next_input k) (queued_inputs parse (wl_inbound (wc_limits s)) (wc_policy s) [j])"
proof (cases j)
  case (Job_text raw n)
  then show ?thesis
    using assms start_text_next [of parse raw "release_inbound (int n) s" k t] by (simp add: release_inbound_def)
qed (use assms in \<open>auto simp: start_closing_def release_once_def dest!: fail_closed_next split: if_splits\<close>)

text \<open>The calls of the two other places hand over no input.\<close>

lemma loop_side_inputs:
  assumes "ws_good s"
  shows "next_input (wc_loop s) = []" "k \<in> set (wc_side s) \<Longrightarrow> next_input (Some k) = []" "next_frame (wc_job s) = []"
    "k \<in> set (wc_side s) \<Longrightarrow> next_frame (Some k) = []"
  using ws_goodD(1) [OF assms]
  by (auto simp: tasks_ok_def task_for_def list_all_iff next_input_def next_frame_def split: option.splits ws_task.splits ws_use.splits
      dest: bspec)

lemma on_place_log [simp]: "wc_log (on_side r) = wc_log (snd r)" "wc_log (on_loop r) = wc_log (snd r)" "wc_log (on_job r) = wc_log (snd r)"
  by (cases r; simp add: on_side_cases)+

lemma hands_simps [simp]:
  "hands_nothing s (on_side r) = hands_nothing s (snd r)" "hands_nothing s (on_loop r) = hands_nothing s (snd r)"
  "hands_nothing s (on_job r) = hands_nothing s (snd r)" "hands_nothing s (enqueue j t) = hands_nothing s t"
  "hands_nothing s (schedule_drain t) = hands_nothing s t" "hands_nothing s (replace_pending_frame f t) = hands_nothing s t"
  "hands_nothing (s\<lparr>wc_timer := b\<rparr>) t = hands_nothing s t"
  "hands_nothing s (t\<lparr>wc_admission := b\<rparr>) = hands_nothing s t" "hands_nothing s (t\<lparr>wc_timer := b\<rparr>) = hands_nothing s t"
  "hands_nothing s (snd (fail_closed g t)) = hands_nothing s t" "hands_nothing s (snd (frame_turn x c t)) = hands_nothing s t"
  using fail_closed_hands [of g t "fst (fail_closed g t)" "snd (fail_closed g t)"]
    frame_turn_hands [of x c t "fst (frame_turn x c t)" "snd (frame_turn x c t)"]
  by (simp_all add: hands_nothing_def enqueue_def ws_small)

lemma read_hands: "is_ws_backpressured r s = (b, t) \<Longrightarrow> hands_nothing s (t\<lparr>wc_dropped := n, wc_pending := p\<rparr>) \<and> hands_nothing s t
    \<and> hands_nothing s (t\<lparr>wc_pending := p\<rparr>)"
  by (simp add: hands_nothing_def)

definition is_settle :: "ws_move \<Rightarrow> bool" where
  "is_settle m \<longleftrightarrow> (case m of M_settle p r x \<Rightarrow> True | _ \<Rightarrow> False)"

lemma calls_hand_nothing: "\<not> is_settle m \<Longrightarrow> hands_nothing s (ws_step parse s m)"
proof (induction parse s m rule: ws_step.induct)
  case (1 parse s)
  then show ?case by (simp add: start_ws_def run_use_def emit_def hands_nothing_def)
next
  case (2 parse s raw)
  then show ?case by (auto simp: receive_text_def reserve_inbound_def hands_nothing_def Let_def enqueue_def split: option.splits if_splits)
next
  case (3 parse s f r1 r2)
  then show ?case
    using read_hands [of r1 s] by (cases "is_ws_backpressured r1 s") (auto simp: push_frame_def split: option.split bool.split)
next
  case (6 parse s)
  show ?case
  proof (cases "wc_job s = None \<and> wc_jobs s \<noteq> []")
    case True
    then obtain j js where jobs: "wc_job s = None" "wc_jobs s = j # js" by (cases "wc_jobs s") auto
    obtain k t where start: "start_job parse j (s\<lparr>wc_jobs := js\<rparr>) = (k, t)" by (cases "start_job parse j (s\<lparr>wc_jobs := js\<rparr>)")
    then show ?thesis using start_job_hands [OF start] next_step [OF jobs start] by (simp add: hands_nothing_def)
  qed (auto split: option.splits list.splits)
next
  case (10 parse s r1 r2)
  then show ?case
    using read_hands [of r1 "s\<lparr>wc_timer := False\<rparr>"]
    by (cases "is_ws_backpressured r1 (s\<lparr>wc_timer := False\<rparr>)")
      (auto simp: flush_pending_def Let_def split: option.split bool.split)
qed (simp_all add: disconnect_ws_def revoke_ws_def is_settle_def)

lemma step_inputs:
  assumes good: "ws_good s"
  shows "inputs_of (wc_log (ws_step parse s m)) = inputs_of (wc_log s) @ (case m of M_settle In_queue Resolved x \<Rightarrow>
      if wc_state s = Ws_open \<and> wc_admission s then next_input (wc_job s) else [] | _ \<Rightarrow> [])"
proof (cases "is_settle m")
  case True
  then obtain p r x where m: "m = M_settle p r x" by (auto simp: is_settle_def split: ws_move.splits)
  show ?thesis
  proof (cases p)
    case In_queue
    show ?thesis
    proof (cases "wc_job s")
      case (Some k)
      then show ?thesis
        using settle_inputs [of x r k s] m In_queue by (cases "settle_task x r k s") (auto split: settled.split)
    qed (simp add: m In_queue split: settled.split)
  next
    case In_loop
    show ?thesis
    proof (cases "wc_loop s")
      case (Some k)
      then show ?thesis
        using settle_inputs [of x r k s] loop_side_inputs(1) [OF good] m In_loop by (cases "settle_task x r k s") auto
    qed (simp add: m In_loop)
  next
    case (On_side n)
    show ?thesis
    proof (cases "n < length (wc_side s)")
      case True
      let ?s = "s\<lparr>wc_side := take n (wc_side s) @ drop (n + 1) (wc_side s)\<rparr>"
      have "inputs_of (wc_log (snd (settle_task x r (wc_side s ! n) ?s))) = inputs_of (wc_log ?s)"
        using settle_inputs [of x r "wc_side s ! n" ?s] loop_side_inputs(2) [OF good, of "wc_side s ! n"] True
        by (cases "settle_task x r (wc_side s ! n) ?s") auto
      then show ?thesis using m On_side True by simp
    qed (simp add: m On_side)
  qed
next
  case False
  then show ?thesis using calls_hand_nothing [of m s parse] by (auto simp: hands_nothing_def is_settle_def split: ws_move.split)
qed

lemma step_frames:
  assumes good: "ws_good s"
  shows "frames_of (wc_log (ws_step parse s m)) = frames_of (wc_log s) @ (case m of M_settle In_loop Resolved x \<Rightarrow> next_frame (wc_loop s) | _ \<Rightarrow> [])"
proof (cases "is_settle m")
  case True
  then obtain p r x where m: "m = M_settle p r x" by (auto simp: is_settle_def split: ws_move.splits)
  show ?thesis
  proof (cases p)
    case In_queue
    show ?thesis
    proof (cases "wc_job s")
      case (Some k)
      then show ?thesis
        using settle_frames [of x r k s] loop_side_inputs(3) [OF good] m In_queue by (cases "settle_task x r k s") auto
    qed (simp add: m In_queue)
  next
    case In_loop
    show ?thesis
    proof (cases "wc_loop s")
      case (Some k)
      then show ?thesis
        using settle_frames [of x r k s] m In_loop by (cases "settle_task x r k s") (auto split: settled.split)
    qed (simp add: m In_loop split: settled.split)
  next
    case (On_side n)
    show ?thesis
    proof (cases "n < length (wc_side s)")
      case True
      let ?s = "s\<lparr>wc_side := take n (wc_side s) @ drop (n + 1) (wc_side s)\<rparr>"
      have "frames_of (wc_log (snd (settle_task x r (wc_side s ! n) ?s))) = frames_of (wc_log ?s)"
        using settle_frames [of x r "wc_side s ! n" ?s] loop_side_inputs(4) [OF good, of "wc_side s ! n"] True
        by (cases "settle_task x r (wc_side s ! n) ?s") auto
      then show ?thesis using m On_side True by simp
    qed (simp add: m On_side)
  qed
next
  case False
  then show ?thesis using calls_hand_nothing [of m s parse] by (auto simp: hands_nothing_def is_settle_def split: ws_move.split)
qed

text \<open>The queue, step by step.\<close>

lemma subseq_right: "subseq xs ys \<Longrightarrow> subseq xs (ys @ zs)"
  by (metis append_Nil2 list_emb_append_mono list_emb_Nil)

lemma subseq_skip [simp]: "subseq (xs @ zs) (xs @ ys @ zs)"
  by (induction xs) (auto intro: list_emb_append2)

definition keeps_queue :: "ws_channel \<Rightarrow> ws_channel \<Rightarrow> bool" where
  "keeps_queue s t \<longleftrightarrow> wc_job t = wc_job s \<and> wc_jobs t = wc_jobs s \<and> wc_limits t = wc_limits s \<and> wc_policy t = wc_policy s"

lemma quiet_keeps_queue: "ws_quiet s t \<Longrightarrow> keeps_queue s t"
  by (simp add: ws_quiet_def keeps_queue_def)

lemma keeps_queue_simps [simp]:
  "keeps_queue s s" "keeps_queue s (t\<lparr>wc_admission := b\<rparr>) = keeps_queue s t" "keeps_queue s (t\<lparr>wc_timer := b\<rparr>) = keeps_queue s t"
  "keeps_queue s (t\<lparr>wc_pending := p\<rparr>) = keeps_queue s t" "keeps_queue s (t\<lparr>wc_dropped := n\<rparr>) = keeps_queue s t"
  "keeps_queue s (t\<lparr>wc_log := l\<rparr>) = keeps_queue s t" "keeps_queue s (t\<lparr>wc_loop := k\<rparr>) = keeps_queue s t"
  "keeps_queue s (schedule_drain t) = keeps_queue s t" "keeps_queue s (replace_pending_frame f t) = keeps_queue s t"
  "keeps_queue s (t\<lparr>wc_side := sd\<rparr>) = keeps_queue s t" "keeps_queue (s\<lparr>wc_timer := b\<rparr>) t = keeps_queue s t"
  "keeps_queue (s\<lparr>wc_side := sd\<rparr>) t = keeps_queue s t" "keeps_queue s (on_side (k, t)) = keeps_queue s t"
  by (auto simp: keeps_queue_def ws_small on_side_cases)

lemma keeps_queue_calls [simp]:
  "keeps_queue s (on_side (fail_closed f t)) = keeps_queue s t" "keeps_queue s (on_loop (frame_turn x c t)) = keeps_queue s t"
proof -
  show "keeps_queue s (on_side (fail_closed f t)) = keeps_queue s t"
    by (cases "fail_closed f t") (use fail_closed_quiet [of f t] in \<open>auto simp: keeps_queue_def ws_quiet_def on_side_cases\<close>)
  show "keeps_queue s (on_loop (frame_turn x c t)) = keeps_queue s t"
    by (cases "frame_turn x c t") (use frame_turn_quiet [of x c t] in \<open>auto simp: keeps_queue_def ws_quiet_def\<close>)
qed

lemma step_keeps_queue: "m \<noteq> M_next \<Longrightarrow> (\<forall>r x. m \<noteq> M_settle In_queue r x) \<Longrightarrow> (\<forall>raw. m \<noteq> M_text raw)
    \<Longrightarrow> m \<notin> {M_disconnect, M_revoke} \<Longrightarrow> keeps_queue s (ws_step parse s m)"
proof (induction parse s m rule: ws_step.induct)
  case (3 parse s f r1 r2)
  have "keeps_queue s t" if "is_ws_backpressured r1 s = (b, t)" for b t using that by (simp add: keeps_queue_def)
  then show ?case by (cases "is_ws_backpressured r1 s") (auto simp: push_frame_def split: option.split bool.split)
next
  case (8 parse s r x)
  then show ?case
    by (cases "wc_loop s"; cases "settle_task x r (the (wc_loop s)) s") (auto dest: settle_quiet quiet_keeps_queue)
next
  case (9 parse s n r x)
  let ?s = "s\<lparr>wc_side := take n (wc_side s) @ drop (n + 1) (wc_side s)\<rparr>"
  show ?case
    using settle_quiet [of x r "wc_side s ! n" ?s] quiet_keeps_queue [of ?s]
    by (cases "settle_task x r (wc_side s ! n) ?s") auto
next
  case (10 parse s r1 r2)
  have "keeps_queue s t" if "is_ws_backpressured r1 (s\<lparr>wc_timer := False\<rparr>) = (b, t)" for b t using that by (simp add: keeps_queue_def)
  then show ?case
    by (cases "is_ws_backpressured r1 (s\<lparr>wc_timer := False\<rparr>)") (auto simp: flush_pending_def Let_def split: option.split bool.split)
qed (auto simp: start_ws_def run_use_def emit_def)

lemma step_inputs_due:
  assumes good: "ws_good s"
  shows "wc_limits (ws_step parse s m) = wc_limits s \<and> wc_policy (ws_step parse s m) = wc_policy s
    \<and> subseq (inputs_due parse (ws_step parse s m))
        (inputs_due parse s @ received_inputs parse (wl_inbound (wc_limits s)) (wc_policy s) [m])"
proof (cases "m \<noteq> M_next \<and> (\<forall>r x. m \<noteq> M_settle In_queue r x) \<and> (\<forall>raw. m \<noteq> M_text raw) \<and> m \<notin> {M_disconnect, M_revoke}")
  case True
  then have "keeps_queue s (ws_step parse s m)" using step_keeps_queue by blast
  moreover have "inputs_of (wc_log (ws_step parse s m)) = inputs_of (wc_log s)"
    using step_inputs [OF good, of parse m] True by (auto split: ws_move.splits ws_place.splits settled.splits)
  ultimately show ?thesis using True by (auto simp: keeps_queue_def inputs_due_def received_inputs_def)
next
  case False
  then consider "m = M_next" | r x where "m = M_settle In_queue r x" | raw where "m = M_text raw" | "m = M_disconnect" | "m = M_revoke"
    by auto
  then show ?thesis
  proof cases
    case 1
    show ?thesis
    proof (cases "wc_job s = None \<and> wc_jobs s \<noteq> []")
      case True
      then obtain j js where jobs: "wc_job s = None" "wc_jobs s = j # js" by (cases "wc_jobs s") auto
      obtain k t where start: "start_job parse j (s\<lparr>wc_jobs := js\<rparr>) = (k, t)" by (cases "start_job parse j (s\<lparr>wc_jobs := js\<rparr>)")
      have t: "wc_jobs t = js" "wc_limits t = wc_limits s" "wc_policy t = wc_policy s"
        using start_job_quiet [OF start] by (auto simp: ws_quiet_def job_taken_def release_inbound_def split: ws_job.splits)
      define q where "q = queued_inputs parse (wl_inbound (wc_limits s)) (wc_policy s)"
      have "q (j # js) = q [j] @ q js" unfolding q_def queued_inputs_simps(2) [symmetric] by simp
      moreover have "subseq (next_input k) (q [j])" using start_job_next [OF start] by (simp add: q_def)
      ultimately have "subseq (inputs_of (wc_log s) @ next_input k @ q js) (inputs_of (wc_log s) @ q (j # js))"
        by (simp add: list_emb_append_mono)
      then show ?thesis
        unfolding q_def
        using 1 next_step [OF jobs start] jobs t start_job_hands [OF start]
        by (simp add: inputs_due_def received_inputs_def hands_nothing_def)
    qed (use 1 in \<open>auto simp: received_inputs_def split: option.splits list.splits\<close>)
  next
    case 2
    show ?thesis
    proof (cases "wc_job s")
      case (Some k0)
      then obtain k t where r: "settle_task x r k0 s = (k, t)" by (cases "settle_task x r k0 s")
      then show ?thesis
        using 2 Some settle_quiet [OF r] settle_next [OF r] settle_inputs [OF r]
        by (auto simp: inputs_due_def received_inputs_def ws_quiet_def)
    qed (use 2 in \<open>simp add: received_inputs_def\<close>)
  next
    case 3
    then show ?thesis
      by (auto simp: receive_text_def reserve_inbound_def enqueue_def inputs_due_def received_inputs_def Let_def
          split: option.splits if_splits)
  qed (auto simp: disconnect_ws_def revoke_ws_def enqueue_def inputs_due_def received_inputs_def)
qed

text \<open>The frames, step by step: those handed over, the one whose use begins, the one that waits.\<close>

definition waiting :: "ws_channel \<Rightarrow> ws_frame list" where
  "waiting s = (case wc_pending s of None \<Rightarrow> [] | Some f \<Rightarrow> [f])"

definition frames_due :: "ws_channel \<Rightarrow> ws_frame list" where
  "frames_due s = frames_of (wc_log s) @ next_frame (wc_loop s) @ waiting s"

definition frames_seen :: "ws_channel \<Rightarrow> nat" where
  "frames_seen s = wc_sent s + wc_dropped s + length (waiting s)"

lemma waiting_simps [simp]:
  "waiting (s\<lparr>wc_log := l\<rparr>) = waiting s" "waiting (s\<lparr>wc_stage := st\<rparr>) = waiting s" "waiting (s\<lparr>wc_job := k\<rparr>) = waiting s"
  "waiting (s\<lparr>wc_loop := k\<rparr>) = waiting s" "waiting (s\<lparr>wc_side := sd\<rparr>) = waiting s" "waiting (s\<lparr>wc_pending := None\<rparr>) = []"
  "waiting (s\<lparr>wc_state := x\<rparr>) = waiting s" "waiting (s\<lparr>wc_released := b\<rparr>) = waiting s" "waiting (s\<lparr>wc_timer := b\<rparr>) = waiting s"
  "waiting (release_inbound n s) = waiting s" "waiting (s\<lparr>wc_pending := Some f\<rparr>) = [f]" "waiting (s\<lparr>wc_jobs := js\<rparr>) = waiting s"
  "waiting (enqueue j s) = waiting s" "waiting (s\<lparr>wc_admission := b\<rparr>) = waiting s" "waiting (schedule_drain s) = waiting s"
  "waiting (s\<lparr>wc_dropped := n\<rparr>) = waiting s" "waiting (s\<lparr>wc_failure := fl\<rparr>) = waiting s"
  by (simp_all add: waiting_def release_inbound_def enqueue_def schedule_drain_def)

lemma frames_seen_simps [simp]:
  "frames_seen (s\<lparr>wc_log := l\<rparr>) = frames_seen s" "frames_seen (s\<lparr>wc_stage := st\<rparr>) = frames_seen s"
  "frames_seen (s\<lparr>wc_job := k\<rparr>) = frames_seen s" "frames_seen (s\<lparr>wc_loop := k\<rparr>) = frames_seen s"
  "frames_seen (s\<lparr>wc_side := sd\<rparr>) = frames_seen s" "frames_seen (s\<lparr>wc_timer := b\<rparr>) = frames_seen s"
  "frames_seen (s\<lparr>wc_jobs := js\<rparr>) = frames_seen s" "frames_seen (s\<lparr>wc_admission := b\<rparr>) = frames_seen s"
  "frames_seen (release_inbound n s) = frames_seen s" "frames_seen (schedule_drain s) = frames_seen s"
  "frames_seen (enqueue j s) = frames_seen s"
  by (simp_all add: frames_seen_def waiting_def release_inbound_def enqueue_def schedule_drain_def)

lemma read_waiting: "is_ws_backpressured r s = (b, t) \<Longrightarrow> waiting t = waiting s \<and> frames_seen t = frames_seen s"
  by (simp add: waiting_def frames_seen_def)

lemma fail_closed_waiting: "fail_closed f s = (k, t) \<Longrightarrow> subseq (waiting t) (waiting s)"
  by (cases "ws_ended s") (auto simp: ws_ended_def fail_closed_def release_once_def fail_notified_def emit_def Let_def split: if_splits)

lemma fail_closed_due: "fail_closed f s = (k, t) \<Longrightarrow> subseq (next_frame k @ waiting t) (waiting s)"
  using fail_closed_waiting [of f s k t] fail_closed_next [of f s k t] by simp

lemma fail_closed_seen: "fail_closed f s = (k, t) \<Longrightarrow> wc_state t \<noteq> Ws_open"
  by (auto simp: fail_closed_def release_once_def ws_small Let_def split: if_splits)

lemma frame_turn_waiting:
  assumes "frame_turn r c s = (k, t)" and "wc_pending s = None"
  shows "subseq (next_frame k @ waiting t) (case c of None \<Rightarrow> [] | Some f \<Rightarrow> [f])"
    and "wc_state t = Ws_open \<Longrightarrow> frames_seen t + (if k = None then 0 else 1) = frames_seen s + (if c = None then 0 else 1)"
proof -
  have w: "waiting s = []" using assms(2) by (simp add: waiting_def)
  have "subseq (next_frame k @ waiting t) (case c of None \<Rightarrow> [] | Some f \<Rightarrow> [f])
    \<and> (wc_state t = Ws_open \<longrightarrow> frames_seen t + (if k = None then 0 else 1) = frames_seen s + (if c = None then 0 else 1))"
  proof (cases "c = None \<or> wc_state s \<noteq> Ws_open")
    case True
    then show ?thesis using assms w by (auto simp: frame_turn_def split: option.splits)
  next
    case False
    then obtain f where f: "c = Some f" "wc_state s = Ws_open" by auto
    obtain b s1 where b: "is_ws_backpressured r s = (b, s1)" by (cases "is_ws_backpressured r s")
    show ?thesis
    proof (cases b)
      case None
      then have fail: "fail_closed Fail_transport s1 = (k, t)" using assms(1) f b by (simp add: frame_turn_def)
      show ?thesis
        using fail_closed_waiting [OF fail] fail_closed_seen [OF fail] fail_closed_next [OF fail] read_waiting [OF b] w f
        by (auto dest: list_emb_Nil2)
    next
      case (Some full)
      then show ?thesis
        using assms w f b read_waiting [OF b]
        by (cases full) (auto simp: frame_turn_def run_use_def emit_def replace_pending_frame_def frames_seen_def schedule_drain_def)
    qed
  qed
  then show "subseq (next_frame k @ waiting t) (case c of None \<Rightarrow> [] | Some f \<Rightarrow> [f])"
    and "wc_state t = Ws_open \<Longrightarrow> frames_seen t + (if k = None then 0 else 1) = frames_seen s + (if c = None then 0 else 1)"
    by simp_all
qed

lemma after_frame:
  assumes "after_use r (Use_frame f) out s = (k, t)"
  shows "subseq (next_frame k @ waiting t) (waiting s)"
    and "wc_state t = Ws_open \<Longrightarrow> frames_seen t + (if k = None then 0 else 1) = frames_seen s + 1"
proof -
  define s1 where "s1 = (if wc_framed s then emit (E_latency ''frame_cadence'' None) s else s)"
  let ?s2 = "s1\<lparr>wc_framed := True, wc_sent := wc_sent s1 + 1, wc_pending := None\<rparr>"
  have same: "wc_pending s1 = wc_pending s" "wc_sent s1 = wc_sent s" "wc_dropped s1 = wc_dropped s"
    by (simp_all add: s1_def emit_def)
  have turn: "frame_turn r (wc_pending s1) ?s2 = (k, t)"
    using assms by (simp add: after_use_def s1_def Let_def)
  show "subseq (next_frame k @ waiting t) (waiting s)"
    using frame_turn_waiting(1) [OF turn] same(1) by (simp add: waiting_def)
  show "wc_state t = Ws_open \<Longrightarrow> frames_seen t + (if k = None then 0 else 1) = frames_seen s + 1"
    using frame_turn_waiting(2) [OF turn] same by (auto simp: frames_seen_def waiting_def split: option.splits)
qed

lemma settle_waiting:
  assumes "settle_task x r k0 s = (k, t)" and "task_for (\<lambda>u. True) True k0"
  shows "subseq (next_frame k @ waiting t) (waiting s)"
proof (cases k0)
  case (Beginning u)
  then show ?thesis
    using assms(1)
    by (cases "r = Resolved")
      (auto simp: start_operation_def emit_def Let_def split: ws_use.splits if_splits dest: fail_closed_due)
next
  case (Ending u out)
  have fail: "subseq (next_frame k @ waiting t) (waiting s)" if "fail_closed f u = (k, t)" "waiting u = waiting s" for f u
    using fail_closed_due [OF that(1)] that(2) by simp
  show ?thesis
  proof (cases u)
    case (Use_frame f)
    then show ?thesis
      using assms(1) Ending fail after_frame(1)
      by (cases "r = Resolved"; cases out) (auto simp: use_ended_def)
  qed (use assms(1) Ending fail in \<open>cases "r = Resolved"; cases out; auto simp: use_ended_def after_use_def emit_def split: if_splits\<close>)+
next
  case Completing
  then show ?thesis
    using assms(1)
    by (cases "r = Resolved") (auto simp: complete_settled_def emit_def dest: fail_closed_due)
qed (use assms(1) in \<open>auto simp: end_operation_def ws_small Let_def split: ws_use.splits use_outcome.splits release_reason.splits if_splits\<close>)

text \<open>Only the loop counts frames.\<close>

lemma settle_seen:
  assumes "settle_task x r k0 s = (k, t)" and "wc_state t = Ws_open" and "next_frame (Some k0) = []"
    and "\<forall>f. k0 \<noteq> Operating (Use_frame f) c" "\<forall>f out. k0 \<noteq> Ending (Use_frame f) out"
  shows "frames_seen t = frames_seen s"
proof (cases k0)
  case (Beginning u)
  then show ?thesis
    using assms fail_closed_seen
    by (cases "r = Resolved") (fastforce simp: start_operation_def emit_def Let_def split: ws_use.splits if_splits)+
next
  case (Ending u out)
  show ?thesis
  proof (cases u)
    case (Use_frame f)
    then show ?thesis using assms Ending by simp
  qed (use assms Ending fail_closed_seen in \<open>cases "r = Resolved"; cases out; fastforce simp: use_ended_def after_use_def emit_def split: if_splits\<close>)+
next
  case Completing
  then show ?thesis
    using assms fail_closed_seen by (cases "r = Resolved") (fastforce simp: complete_settled_def emit_def)+
next
  case (Releasing why)
  then show ?thesis
    using assms by (cases why; cases "r = Resolved") (auto simp: ws_small Let_def frames_seen_def waiting_def)
qed (use assms in \<open>auto simp: end_operation_def emit_def Let_def split: ws_use.splits use_outcome.splits\<close>)

lemma settle_frame_seen:
  assumes "settle_task x r k0 s = (k, t)" and "wc_state t = Ws_open" and "task_for loop_use False k0"
    and "\<not> closing_task (Some k0)"
  shows "frames_seen t + (if k = None then 0 else 1) = frames_seen s + 1"
proof (cases k0)
  case (Beginning u)
  then show ?thesis
    using assms fail_closed_seen
    by (cases "r = Resolved") (fastforce simp: start_operation_def emit_def Let_def split: ws_use.splits if_splits)+
next
  case (Operating u calls)
  then show ?thesis
    using assms by (auto simp: end_operation_def emit_def Let_def split: ws_use.splits use_outcome.splits)
next
  case (Ending u out)
  then obtain f where u: "u = Use_frame f" and out: "out \<noteq> Op_skipped"
    using assms(3) by (cases u) (auto simp: task_for_def)
  show ?thesis
    using assms(1,2) Ending u out after_frame(2) [of x f out s k t] fail_closed_seen
    by (cases "r = Resolved"; cases out) (auto simp: use_ended_def)
qed (use assms(4) in simp_all)

lemma start_job_waiting:
  assumes "start_job parse j s = (k, t)"
  shows "subseq (waiting t) (waiting s)" "next_frame k = []"
    and "wc_state t = Ws_open \<Longrightarrow> frames_seen t = frames_seen s"
proof -
  have texts: "subseq (waiting t) (waiting u) \<and> (wc_state t = Ws_open \<longrightarrow> frames_seen t = frames_seen u)"
    if start: "start_text parse raw u = (k, t)" for raw u
  proof (cases "wc_state u \<noteq> Ws_open \<or> \<not> wc_admission u")
    case False
    show ?thesis
    proof (cases "parse_human_message parse (wl_inbound (wc_limits u)) (wc_policy u) raw")
      case (Inl f)
      then have "fail_closed f u = (k, t)" using start False by (simp add: start_text_def)
      then show ?thesis using fail_closed_waiting fail_closed_seen by blast
    next
      case (Inr m)
      then show ?thesis
        using start False
        by (cases m) (auto simp: start_text_def run_use_def complete_ws_def emit_def split: if_splits)
    qed
  qed (use start in \<open>auto simp: start_text_def\<close>)
  have closing: "subseq (waiting t) (waiting s)" if "start_closing why st s = (k, t)" for why st
    using that by (cases why) (auto simp: start_closing_def release_once_def release_settled_def fail_notified_def emit_def Let_def split: if_splits)
  show "subseq (waiting t) (waiting s)"
  proof (cases j)
    case (Job_text raw n)
    then show ?thesis using assms texts [of raw "release_inbound (int n) s"] by simp
  qed (use assms fail_closed_waiting closing in auto)
  show "wc_state t = Ws_open \<Longrightarrow> frames_seen t = frames_seen s"
  proof (cases j)
    case (Job_text raw n)
    assume "wc_state t = Ws_open"
    then show ?thesis using Job_text assms texts [of raw "release_inbound (int n) s"] by simp
  qed (use start_job_stops [OF assms] in simp_all)
  show "next_frame k = []"
    using start_job_kind [of parse j s "the k" t] assms
    by (cases k) (auto simp: next_frame_def task_for_def split: ws_task.splits ws_use.splits)
qed

definition pushed :: "ws_channel \<Rightarrow> ws_move list \<Rightarrow> ws_frame list" where
  "pushed s ms = concat (map (\<lambda>m. case m of M_frame f r1 r2 \<Rightarrow> if ws_frame_ok s f then [f] else [] | _ \<Rightarrow> []) ms)"

lemma pushed_simps [simp]:
  "pushed s [] = []" "pushed s (ms @ ms') = pushed s ms @ pushed s ms'"
  "pushed s [m] = (case m of M_frame f r1 r2 \<Rightarrow> if ws_frame_ok s f then [f] else [] | _ \<Rightarrow> [])"
  by (simp_all add: pushed_def)

text \<open>The frames in the hands of the channel, counted.\<close>

definition frames_held :: "ws_channel \<Rightarrow> nat" where
  "frames_held s = frames_seen s + (if wc_loop s = None then 0 else 1)"

definition frame_step :: "ws_channel \<Rightarrow> ws_channel \<Rightarrow> ws_frame list \<Rightarrow> bool" where
  "frame_step s t fs \<longleftrightarrow> subseq (next_frame (wc_loop t) @ waiting t) (next_frame (wc_loop s) @ waiting s @ fs)
     \<and> (wc_state t = Ws_open \<longrightarrow> wc_state s = Ws_open \<and> frames_held t = frames_held s + length fs)"

lemma frame_step_same: "wc_loop t = wc_loop s \<Longrightarrow> subseq (waiting t) (waiting s)
    \<Longrightarrow> (wc_state t = Ws_open \<Longrightarrow> wc_state s = Ws_open \<and> frames_seen t = frames_seen s) \<Longrightarrow> frame_step s t []"
  by (simp add: frame_step_def frames_held_def list_emb_append_mono)

lemma frame_step_refl [simp]: "frame_step s s []"
  by (simp add: frame_step_def)

lemma frame_step_fail:
  assumes "waiting u = waiting s" and "wc_loop u = wc_loop s" 
  shows "frame_step s (on_side (fail_closed f u)) fs"
proof (cases "fail_closed f u")
  case (Pair k t)
  then have "wc_loop t = wc_loop s" using fail_closed_quiet [OF Pair] assms(2) by (simp add: ws_quiet_def)
  moreover have "subseq (waiting t) (waiting s @ fs)" using subseq_right [OF fail_closed_waiting [OF Pair]] assms(1) by simp
  ultimately show ?thesis
    using Pair fail_closed_seen [OF Pair] by (simp add: frame_step_def on_side_cases list_emb_append_mono)
qed

lemma frame_step_turn:
  assumes u: "wc_pending u = None" "wc_state s = Ws_open" "wc_loop s = None"
    and count: "frames_seen u + 1 = frames_seen s + length fs" and sub: "subseq [f] (waiting s @ fs)"
  shows "frame_step s (on_loop (frame_turn x (Some f) u)) fs"
proof (cases "frame_turn x (Some f) u")
  case turn: (Pair k t)
  have "subseq (next_frame k @ waiting t) (waiting s @ fs)"
    using frame_turn_waiting(1) [OF turn u(1)] sub by (auto intro: subseq_order.trans)
  moreover have "wc_state t = Ws_open \<Longrightarrow> frames_seen t + (if k = None then 0 else 1) = frames_seen s + length fs"
    using frame_turn_waiting(2) [OF turn u(1)] count by simp
  ultimately show ?thesis using u turn by (simp add: frame_step_def frames_held_def)
qed

lemma push_frame_step: "frame_step s (push_frame r1 r2 f s) (if ws_frame_ok s f then [f] else [])"
proof (cases "wc_state s = Ws_open \<and> ws_frame_ok s f")
  case True
  obtain b s1 where b: "is_ws_backpressured r1 s = (b, s1)" by (cases "is_ws_backpressured r1 s")
  have parked: "frame_step s (schedule_drain (replace_pending_frame f u)) [f]"
    if u: "wc_pending u = wc_pending s" "wc_loop u = wc_loop s" "wc_sent u = wc_sent s" "wc_dropped u = wc_dropped s" for u
  proof -
    have "subseq (next_frame (wc_loop s) @ [f]) (next_frame (wc_loop s) @ waiting s @ [f])" by simp
    moreover have "waiting (replace_pending_frame f u) = [f]" "wc_loop (schedule_drain (replace_pending_frame f u)) = wc_loop s"
        "frames_seen (replace_pending_frame f u) = frames_seen s + 1"
      using u by (auto simp: replace_pending_frame_def schedule_drain_def frames_seen_def waiting_def split: option.splits)
    ultimately show ?thesis using True by (simp add: frame_step_def frames_held_def)
  qed
  have turn: "frame_step s (on_loop (frame_turn r2 (Some f) (s1\<lparr>wc_dropped := wc_dropped s1 + (if wc_pending s1 = None then 0 else 1),
      wc_pending := None\<rparr>))) [f]" if "wc_loop s = None"
    using that True b
    by (intro frame_step_turn) (auto simp: frames_seen_def waiting_def split: option.splits)
  show ?thesis
    using True b read_waiting [OF b] parked [of s] parked [of s1] turn frame_step_fail [of s1 s]
    by (cases "wc_loop s"; cases "wc_pending s") (simp_all add: push_frame_def split: option.split bool.split)
next
  case False
  have "wc_state s \<noteq> Ws_open \<Longrightarrow> frame_step s s [f]"
    using subseq_right [OF subseq_order.refl] by (simp add: frame_step_def flip: append_assoc)
  then show ?thesis
    using False frame_step_fail [of s s Fail_frame_too_large "[]"] by (auto simp: push_frame_def)
qed

lemma flush_frame_step: "frame_step s (flush_pending r1 r2 s) []"
proof (cases "wc_state s = Ws_open \<and> wc_loop s = None \<and> wc_pending s \<noteq> None")
  case True
  then obtain f where f: "wc_pending s = Some f" by auto
  let ?s = "s\<lparr>wc_timer := False\<rparr>"
  obtain b s1 where b: "is_ws_backpressured r1 ?s = (b, s1)" by (cases "is_ws_backpressured r1 ?s")
  have turn: "frame_step s (on_loop (frame_turn r2 (Some f) (s1\<lparr>wc_pending := None\<rparr>))) []"
    using True b f
    by (intro frame_step_turn) (auto simp: frames_seen_def waiting_def)
  have later: "frame_step s (schedule_drain s1) []"
    using read_waiting [OF b] b True by (intro frame_step_same) (auto simp: schedule_drain_def)
  show ?thesis
    using True b f turn later frame_step_fail [of s1 s] read_waiting [OF b]
    by (auto simp: flush_pending_def Let_def split: option.split bool.split)
next
  case False
  then show ?thesis
    by (auto simp: flush_pending_def Let_def frame_step_def frames_held_def split: option.splits)
qed

lemma settle_job_frame_step:
  assumes r: "settle_task x r k0 s = (k, t)" and kind: "task_for uses closing k0" "\<forall>f. \<not> uses (Use_frame f)"
    and t': "waiting t' = waiting t" "wc_loop t' = wc_loop t" "wc_state t' = wc_state t" "frames_seen t' = frames_seen t"
  shows "frame_step s t' []"
proof (rule frame_step_same)
  have nf: "next_frame (Some k0) = []" "\<forall>f. k0 \<noteq> Operating (Use_frame f) c" "\<forall>f out. k0 \<noteq> Ending (Use_frame f) out" for c
    using kind by (auto simp: task_for_def next_frame_def split: ws_task.splits ws_use.splits)
  have "task_for (\<lambda>u. True) True k0" using kind by (cases k0) (auto simp: task_for_def)
  then have "subseq (next_frame k @ waiting t) (waiting s)" by (rule settle_waiting [OF r])
  then show "subseq (waiting t') (waiting s)" using t' by (metis list_emb_append2 subseq_order.refl subseq_order.trans)
  show "wc_loop t' = wc_loop s" using settle_quiet [OF r] t' by (simp add: ws_quiet_def)
  show "wc_state s = Ws_open \<and> frames_seen t' = frames_seen s" if "wc_state t' = Ws_open"
    using that settle_seen [OF r _ nf] settle_quiet [OF r] t' by (auto simp: ws_quiet_def)
qed

lemma step_frame_step:
  assumes good: "ws_good s"
  shows "frame_step s (ws_step parse s m) (pushed s [m])"
proof (cases m)
  case M_start
  then show ?thesis
    by (auto simp: start_ws_def run_use_def emit_def on_side_cases intro!: frame_step_same)
next
  case (M_text raw)
  then show ?thesis
    by (auto simp: receive_text_def reserve_inbound_def enqueue_def Let_def frames_seen_def waiting_def
        intro!: frame_step_same split: option.splits)
next
  case M_next
  show ?thesis
  proof (cases "wc_job s = None \<and> wc_jobs s \<noteq> []")
    case True
    then obtain j js where jobs: "wc_job s = None" "wc_jobs s = j # js" by (cases "wc_jobs s") auto
    obtain k t where start: "start_job parse j (s\<lparr>wc_jobs := js\<rparr>) = (k, t)" by (cases "start_job parse j (s\<lparr>wc_jobs := js\<rparr>)")
    have "wc_loop t = wc_loop s" "wc_state t = Ws_open \<Longrightarrow> wc_state s = Ws_open"
      using start_job_quiet [OF start] by (auto simp: ws_quiet_def job_taken_def release_inbound_def split: ws_job.splits)
    then have "frame_step s (t\<lparr>wc_job := k\<rparr>) []"
      using start_job_waiting [OF start] by (intro frame_step_same) auto
    then show ?thesis using next_step [OF jobs start] M_next by simp
  qed (auto simp: M_next split: option.splits list.splits)
next
  case (M_settle p r x)
  note ok = ws_goodD(1) [OF good]
  show ?thesis
  proof (cases p)
    case In_queue
    show ?thesis
    proof (cases "wc_job s")
      case (Some k0)
      then obtain k t where r: "settle_task x r k0 s = (k, t)" by (cases "settle_task x r k0 s")
      then show ?thesis
        using settle_job_frame_step [OF r, of job_use True "t\<lparr>wc_job := k\<rparr>"] ok Some M_settle In_queue
        by (simp add: tasks_ok_def)
    qed (simp add: M_settle In_queue)
  next
    case In_loop
    show ?thesis
    proof (cases "wc_loop s")
      case (Some k0)
      then obtain k t where r: "settle_task x r k0 s = (k, t)" by (cases "settle_task x r k0 s")
      have kind: "task_for loop_use False k0" using ok Some by (simp add: tasks_ok_def)
      then have "task_for (\<lambda>u. True) True k0" by (auto simp: task_for_def split: ws_task.splits)
      then have "subseq (next_frame k @ waiting t) (next_frame (Some k0) @ waiting s)"
        using settle_waiting [OF r] by (simp add: list_emb_append2)
      moreover have "wc_state s = Ws_open \<and> frames_seen t + (if k = None then 0 else 1) = frames_seen s + 1" if "wc_state t = Ws_open"
      proof -
        have "wc_state s = Ws_open" using settle_quiet [OF r] that by (simp add: ws_quiet_def)
        then have "\<not> closing_task (Some k0)" using ws_goodD(5) [OF good, of k0] Some by (auto simp: ws_tasks_def)
        then show ?thesis using settle_frame_seen [OF r that kind] \<open>wc_state s = Ws_open\<close> by simp
      qed
      ultimately have "frame_step s (t\<lparr>wc_loop := k\<rparr>) []"
        using Some by (auto simp: frame_step_def frames_held_def)
      then show ?thesis using r Some M_settle In_loop by simp
    qed (simp add: M_settle In_loop)
  next
    case (On_side n)
    show ?thesis
    proof (cases "n < length (wc_side s)")
      case True
      let ?s = "s\<lparr>wc_side := take n (wc_side s) @ drop (n + 1) (wc_side s)\<rparr>"
      obtain k t where r: "settle_task x r (wc_side s ! n) ?s = (k, t)" by (cases "settle_task x r (wc_side s ! n) ?s")
      have "frame_step ?s (on_side (k, t)) []"
        using ok True by (intro settle_job_frame_step [OF r, of "\<lambda>u. u = Use_ready" False])
          (auto simp: tasks_ok_def list_all_iff on_side_cases)
      then show ?thesis using r True M_settle On_side by (simp add: frame_step_def frames_held_def)
    qed (simp add: M_settle On_side)
  qed
qed (auto simp: push_frame_step flush_frame_step disconnect_ws_def revoke_ws_def enqueue_def frames_seen_def waiting_def
    intro!: frame_step_same)

section \<open>What never comes back\<close>

definition narrows :: "ws_channel \<Rightarrow> ws_channel \<Rightarrow> bool" where
  "narrows s t \<longleftrightarrow> (wc_admission t \<longrightarrow> wc_admission s) \<and> (wc_state t = Ws_open \<longrightarrow> wc_state s = Ws_open)
     \<and> wc_limits t = wc_limits s"

lemma narrows_simps [simp]:
  "narrows s s" "narrows s (t\<lparr>wc_pending := x\<rparr>) = narrows s t" "narrows s (t\<lparr>wc_dropped := n\<rparr>) = narrows s t"
  "narrows s (t\<lparr>wc_timer := b\<rparr>) = narrows s t" "narrows s (t\<lparr>wc_log := l\<rparr>) = narrows s t"
  "narrows s (t\<lparr>wc_job := k\<rparr>) = narrows s t" "narrows s (t\<lparr>wc_loop := k\<rparr>) = narrows s t"
  "narrows s (t\<lparr>wc_side := sd\<rparr>) = narrows s t" "narrows s (on_side (k, t)) = narrows s t"
  "narrows s (schedule_drain t) = narrows s t" "narrows s (replace_pending_frame f t) = narrows s t"
  "narrows (s\<lparr>wc_side := sd\<rparr>) t = narrows s t" "narrows (s\<lparr>wc_timer := b\<rparr>) t = narrows s t"
  by (auto simp: narrows_def on_side_cases ws_small)

lemma quiet_narrows: "ws_quiet s t \<Longrightarrow> narrows s t"
  by (simp add: ws_quiet_def narrows_def)

lemma narrows_trans: "narrows a b \<Longrightarrow> narrows b c \<Longrightarrow> narrows a c"
  by (simp add: narrows_def)

lemma narrows_calls: "narrows s t \<Longrightarrow> narrows s (on_side (fail_closed f t))" "narrows s t \<Longrightarrow> narrows s (on_loop (frame_turn x c t))"
proof -
  show "narrows s (on_side (fail_closed f t))" if "narrows s t"
    using that fail_closed_quiet [of f t] by (cases "fail_closed f t") (auto intro: narrows_trans quiet_narrows)
  show "narrows s (on_loop (frame_turn x c t))" if "narrows s t"
    using that frame_turn_quiet [of x c t] by (cases "frame_turn x c t") (auto intro: narrows_trans quiet_narrows)
qed

lemma settle_narrows: "settle_task x r k0 s = (k, t) \<Longrightarrow> narrows s t"
  using settle_quiet quiet_narrows by blast

lemma step_narrows: "narrows s (ws_step parse s m)"
proof (induction parse s m rule: ws_step.induct)
  case (3 parse s f r1 r2)
  have "narrows s t" if "is_ws_backpressured r1 s = (b, t)" for b t using that by (simp add: narrows_def)
  then show ?case
    by (cases "is_ws_backpressured r1 s") (auto simp: push_frame_def intro!: narrows_calls split: option.split bool.split)
next
  case (6 parse s)
  show ?case
  proof (cases "wc_job s = None \<and> wc_jobs s \<noteq> []")
    case True
    then obtain j js where jobs: "wc_job s = None" "wc_jobs s = j # js" by (cases "wc_jobs s") auto
    obtain k t where start: "start_job parse j (s\<lparr>wc_jobs := js\<rparr>) = (k, t)" by (cases "start_job parse j (s\<lparr>wc_jobs := js\<rparr>)")
    then show ?thesis
      using start_job_quiet [OF start] next_step [OF jobs start]
      by (auto simp: narrows_def ws_quiet_def job_taken_def release_inbound_def split: ws_job.splits)
  qed (auto split: option.splits list.splits)
next
  case (9 parse s n r x)
  let ?s = "s\<lparr>wc_side := take n (wc_side s) @ drop (n + 1) (wc_side s)\<rparr>"
  show ?case
    using settle_quiet [of x r "wc_side s ! n" ?s] quiet_narrows [of ?s]
    by (cases "settle_task x r (wc_side s ! n) ?s") auto
next
  case (10 parse s r1 r2)
  have "narrows s t" if "is_ws_backpressured r1 (s\<lparr>wc_timer := False\<rparr>) = (b, t)" for b t using that by (simp add: narrows_def)
  then show ?case
    by (cases "is_ws_backpressured r1 (s\<lparr>wc_timer := False\<rparr>)")
      (auto simp: flush_pending_def Let_def intro!: narrows_calls split: option.split bool.split)
next
  case (7 parse s r x)
  then show ?case using settle_narrows by (auto simp: on_job_def split: option.split prod.split)
next
  case (8 parse s r x)
  then show ?case using settle_narrows by (auto simp: on_loop_def split: option.split prod.split)
next
  case (2 parse s raw)
  then show ?case
    by (auto simp: receive_text_def reserve_inbound_def enqueue_def narrows_def Let_def split: option.splits if_splits)
qed (simp_all add: start_ws_def run_use_def emit_def disconnect_ws_def revoke_ws_def enqueue_def, simp_all add: narrows_def)

text \<open>Once admission is closed, no further input is handed over.\<close>

definition input_over :: "ws_input list \<Rightarrow> ws_channel \<Rightarrow> bool" where
  "input_over is s \<longleftrightarrow> ws_good s \<and> \<not> wc_admission s \<and> inputs_of (wc_log s) = is"

lemma input_over_step: "input_over is s \<Longrightarrow> input_over is (ws_step parse s m)"
  using step_inputs [of s parse m] step_narrows [of s parse m] ws_step_good [of s parse m]
  by (auto simp: input_over_def narrows_def split: ws_move.splits ws_place.splits settled.splits)

interpretation fenced_ws: guarded_machine "ws_step parse" "input_over is" for parse "is"
  by unfold_locales (rule input_over_step)

text \<open>Once the channel has left the open state, at most the frame whose use had begun is still handed over.\<close>

definition frames_over :: "ws_frame list \<Rightarrow> ws_frame list \<Rightarrow> ws_channel \<Rightarrow> bool" where
  "frames_over ds nf s \<longleftrightarrow> ws_good s \<and> wc_state s \<noteq> Ws_open
     \<and> (\<exists>more. frames_of (wc_log s) = ds @ more \<and> subseq (more @ next_frame (wc_loop s)) nf)"

definition frames_out :: "ws_move \<Rightarrow> ws_channel \<Rightarrow> ws_frame list" where
  "frames_out m s = (case m of M_settle In_loop Resolved x \<Rightarrow> next_frame (wc_loop s) | _ \<Rightarrow> [])"

lemma frames_out_cases:
  assumes "frames_out m s \<noteq> []"
  obtains x f where "m = M_settle In_loop Resolved x" "wc_loop s = Some (Beginning (Use_frame f))" "frames_out m s = [f]"
proof -
  have "\<exists>x. m = M_settle In_loop Resolved x"
  proof (cases m)
    case (M_settle p r x)
    then show ?thesis using assms by (cases p; cases r) (simp_all add: frames_out_def)
  qed (use assms in \<open>simp_all add: frames_out_def\<close>)
  then obtain x where m: "m = M_settle In_loop Resolved x" ..
  then have out: "frames_out m s = next_frame (wc_loop s)" by (simp add: frames_out_def)
  then obtain k where k: "wc_loop s = Some k" using assms by (cases "wc_loop s") simp_all
  then obtain u where loop: "wc_loop s = Some (Beginning u)" using assms out by (cases k) simp_all
  then obtain f where "u = Use_frame f" using assms out by (cases u) simp_all
  then show ?thesis using that m loop out by simp
qed

lemma frames_over_step:
  assumes "frames_over ds nf s"
  shows "frames_over ds nf (ws_step parse s m)"
proof -
  have good: "ws_good s" and closed: "wc_state s \<noteq> Ws_open" using assms by (simp_all add: frames_over_def)
  obtain more where more: "frames_of (wc_log s) = ds @ more" "subseq (more @ next_frame (wc_loop s)) nf"
    using assms by (auto simp: frames_over_def)
  have quiet: "waiting s = []" using ws_goodD(2) [OF good] closed by (simp add: shut_fields_def waiting_def)
  show ?thesis
  proof (cases "\<exists>f r1 r2. m = M_frame f r1 r2")
    case True
    then show ?thesis using assms closed by (auto simp: push_frame_def)
  next
    case False
    let ?t = "ws_step parse s m" and ?out = "frames_out m s"
    have "pushed s [m] = []" using False by (auto split: ws_move.splits)
    then have turn: "subseq (next_frame (wc_loop ?t) @ waiting ?t) (next_frame (wc_loop s))"
      using step_frame_step [OF good, of parse m] quiet by (simp add: frame_step_def)
    have "subseq (?out @ next_frame (wc_loop ?t)) (next_frame (wc_loop s))"
    proof (cases "?out = []")
      case True
      then show ?thesis using turn by (metis append_Nil subseq_order.trans subseq_right subseq_order.refl)
    next
      case False
      then obtain x f where "m = M_settle In_loop Resolved x" "wc_loop s = Some (Beginning (Use_frame f))" "?out = [f]"
        by (rule frames_out_cases)
      then show ?thesis by (simp add: start_operation_def)
    qed
    then have "subseq (more @ ?out @ next_frame (wc_loop ?t)) (more @ next_frame (wc_loop s))"
      by (simp add: list_emb_append_mono)
    then have "subseq ((more @ ?out) @ next_frame (wc_loop ?t)) nf" using more(2) by (auto intro: subseq_order.trans)
    moreover have "frames_of (wc_log ?t) = ds @ (more @ ?out)"
      using step_frames [OF good, of parse m] more(1) by (simp add: frames_out_def)
    ultimately show ?thesis
      using ws_step_good [OF good] step_narrows [of s parse m] closed by (auto simp: frames_over_def narrows_def)
  qed
qed

interpretation ended_ws: guarded_machine "ws_step parse" "frames_over ds nf" for parse ds nf
  by unfold_locales (rule frames_over_step)

section \<open>Histories\<close>

lemma step_frame_ok [simp]: "ws_frame_ok (ws_step parse s m) f = ws_frame_ok s f"
  using step_narrows [of s parse m] by (simp add: narrows_def ws_frame_ok_def)

lemma run_fixed:
  assumes "new_ws_channel b p ops = Some s0"
  shows "ws_good (run (ws_step parse) s0 ms)" "wc_limits (run (ws_step parse) s0 ms) = wc_limits s0"
    "wc_policy (run (ws_step parse) s0 ms) = p"
proof -
  have good: "ws_good (run (ws_step parse) s0 ms)" for ms
    by (rule ws_machine.good_run [OF new_ws_good [OF assms]])
  then show "ws_good (run (ws_step parse) s0 ms)" .
  show "wc_limits (run (ws_step parse) s0 ms) = wc_limits s0" "wc_policy (run (ws_step parse) s0 ms) = p"
    using step_inputs_due [OF good] new_ws_fields(15) [OF assms] by (induction ms rule: rev_induct) simp_all
qed

lemma run_inputs_due:
  assumes "new_ws_channel b p ops = Some s0"
  shows "subseq (inputs_due parse (run (ws_step parse) s0 ms)) (received_inputs parse (wl_inbound (wc_limits s0)) p ms)"
proof (induction ms rule: rev_induct)
  case Nil
  then show ?case using new_ws_fields [OF assms] by (simp add: inputs_due_def received_inputs_def)
next
  case (snoc m ms)
  note fixed = run_fixed [OF assms, of parse ms]
  have "received_inputs parse l p (ms @ [m]) = received_inputs parse l p ms @ received_inputs parse l p [m]" for l
    by (simp add: received_inputs_def)
  then show ?case
    using step_inputs_due [OF fixed(1), of parse m] fixed(2,3)
      list_emb_append_mono [OF snoc.IH subseq_order.refl [of "received_inputs parse (wl_inbound (wc_limits s0)) p [m]"]]
    by (auto intro: subseq_order.trans)
qed

lemma run_frames:
  assumes "new_ws_channel b p ops = Some s0" and "s = run (ws_step parse) s0 ms"
  shows "subseq (frames_due s) (pushed s0 ms)" and "wc_state s = Ws_open \<Longrightarrow> frames_held s = length (pushed s0 ms)"
proof -
  have "subseq (frames_due (run (ws_step parse) s0 ms)) (pushed s0 ms)
    \<and> (wc_state (run (ws_step parse) s0 ms) = Ws_open \<longrightarrow> frames_held (run (ws_step parse) s0 ms) = length (pushed s0 ms))"
  proof (induction ms rule: rev_induct)
    case Nil
    then show ?case
      using new_ws_fields [OF assms(1)] by (simp add: frames_due_def frames_held_def frames_seen_def waiting_def)
  next
    case (snoc m ms)
    let ?s = "run (ws_step parse) s0 ms"
    let ?t = "ws_step parse ?s m"
    have good: "ws_good ?s" by (rule run_fixed(1) [OF assms(1)])
    have same: "pushed s0 [m] = pushed ?s [m]"
      using run_fixed(2) [OF assms(1), of parse ms] by (simp add: ws_frame_ok_def split: ws_move.split)
    note turn = step_frame_step [OF good, of parse m]
    have "subseq (frames_due ?t) (frames_due ?s @ pushed ?s [m])"
    proof (cases "frames_out m ?s = []")
      case True
      then have "frames_of (wc_log ?t) = frames_of (wc_log ?s)"
        using step_frames [OF good, of parse m] by (simp add: frames_out_def)
      then show ?thesis using turn by (simp add: frames_due_def frame_step_def list_emb_append_mono)
    next
      case False
      then obtain x f where m: "m = M_settle In_loop Resolved x" "wc_loop ?s = Some (Beginning (Use_frame f))" "frames_out m ?s = [f]"
        by (rule frames_out_cases)
      then have "frames_of (wc_log ?t) = frames_of (wc_log ?s) @ [f]"
        using step_frames [OF good, of parse m] by (simp add: frames_out_def)
      moreover have "next_frame (wc_loop ?t) = []" "waiting ?t = waiting ?s" "pushed ?s [m] = []"
        using m by (simp_all add: start_operation_def emit_def)
      ultimately show ?thesis using m by (simp add: frames_due_def)
    qed
    then have "subseq (frames_due ?t) (pushed s0 ms @ pushed s0 [m])"
      using snoc.IH same list_emb_append_mono [OF conjunct1 [OF snoc.IH] subseq_order.refl [of "pushed s0 [m]"]]
      by (auto intro: subseq_order.trans)
    moreover have "frames_held ?t = length (pushed s0 (ms @ [m]))" if "wc_state ?t = Ws_open"
      using turn that snoc.IH same by (simp add: frame_step_def)
    ultimately show ?case by simp
  qed
  then show "subseq (frames_due s) (pushed s0 ms)" and "wc_state s = Ws_open \<Longrightarrow> frames_held s = length (pushed s0 ms)"
    using assms(2) by simp_all
qed

section \<open>Messages\<close>

definition input_ok :: "ws_policy \<Rightarrow> ws_input \<Rightarrow> bool" where
  "input_ok p i = (case i of
       Ws_tap x y \<Rightarrow> wp_tap p \<and> ws_bounded_number 0 1 (JNum x) \<and> ws_bounded_number 0 1 (JNum y)
     | Ws_scroll d \<Rightarrow> wp_scroll p \<and> ws_bounded_integer (- max_scroll) max_scroll (JNum d)
     | Ws_text w \<Rightarrow> wp_text p \<and> utf8_length w \<le> max_text_bytes
     | Ws_key w \<Rightarrow> wp_key p \<and> 0 < length w \<and> utf8_length w \<le> max_key_bytes)"

definition message_ok :: "ws_policy \<Rightarrow> ws_message \<Rightarrow> bool" where
  "message_ok p m = (case m of
       Msg_input i \<Rightarrow> input_ok p i
     | Msg_diagnostic e \<Rightarrow> e \<in> set diagnostic_events
     | Msg_latency n v \<Rightarrow> is_client_metric (JStr n) \<and> valid_latency_value (JNum v)
     | Msg_done \<Rightarrow> True
     | Msg_ping n \<Rightarrow> (case n of None \<Rightarrow> True | Some w \<Rightarrow> utf8_length w \<le> 64))"

lemma bounded_values:
  "ws_bounded_number l h v \<Longrightarrow> JNum (num_of_val v) = v" "ws_bounded_integer l h v \<Longrightarrow> JNum (num_of_val v) = v"
  "ws_bounded_string n v \<Longrightarrow> utf8_length (str_of_val v) \<le> n"
  "is_client_metric v \<Longrightarrow> JStr (str_of_val v) = v" "valid_latency_value v \<Longrightarrow> JNum (num_of_val v) = v"
  by (cases v; simp add: ws_bounded_number_def ws_bounded_integer_def ws_bounded_string_def is_client_metric_def valid_latency_value_def)+

lemma parsed_object_ok: "parse_human_object p ps = Inr m \<Longrightarrow> message_ok p m"
  unfolding parse_human_object_def Let_def
  by (auto simp: message_ok_def input_ok_def bounded_values split: if_splits)

lemma parsed_message_ok: "parse_human_message parse m p raw = Inr msg \<Longrightarrow> message_ok p msg"
  by (auto simp: parse_human_message_def split: if_splits option.splits jsval.splits dest: parsed_object_ok)

lemma received_inputs_ok: "i \<in> set (received_inputs parse m p ms) \<Longrightarrow> input_ok p i"
  by (auto simp: received_inputs_def message_ok_def split: ws_move.splits sum.splits ws_message.splits
      dest!: parsed_message_ok [OF sym] parsed_message_ok)

lemma subseq_set: "subseq xs ys \<Longrightarrow> set xs \<subseteq> set ys"
  by (induction rule: list_emb.induct) auto

lemma next_input_cases:
  assumes "next_input k \<noteq> []"
  obtains i where "k = Some (Beginning (Use_input i))"
proof -
  obtain x where x: "k = Some x" using assms by (cases k) simp_all
  then obtain u where u: "x = Beginning u" using assms by (cases x) simp_all
  then obtain i where "u = Use_input i" using assms x by (cases u) simp_all
  then show ?thesis using that x u by simp
qed

lemma settle_of_inputs:
  assumes "a \<noteq> b" and "a = b @ (case m of M_settle In_queue Resolved x \<Rightarrow> if q \<and> a0 then xs else [] | _ \<Rightarrow> [])"
  obtains x where "m = M_settle In_queue Resolved x" "q" "a0" "xs \<noteq> []"
proof (cases m)
  case (M_settle p r x)
  then show ?thesis using assms that by (cases p; cases r) (auto split: if_splits)
qed (use assms in simp_all)

text \<open>The calls and steps that close admission hand over no input themselves.\<close>

lemma stopped_at_once:
  assumes good: "ws_good s"
    and stop: "m = M_disconnect \<or> m = M_revoke \<or> wc_state (ws_step parse s m) \<noteq> Ws_open
      \<or> (\<exists>raw. m = M_text raw \<and> (wl_inbound (wc_limits s) < int (utf8_length raw) \<or> wl_messages (wc_limits s) \<le> wc_messages s
           \<or> wl_bytes (wc_limits s) < wc_bytes s + int (utf8_length raw)))"
  shows "\<not> wc_admission (ws_step parse s m) \<and> inputs_of (wc_log (ws_step parse s m)) = inputs_of (wc_log s)"
proof (cases "wc_state (ws_step parse s m) = Ws_open")
  case True
  have "\<not> wc_admission (receive_text raw s) \<and> wc_log (receive_text raw s) = wc_log s"
    if "wl_inbound (wc_limits s) < int (utf8_length raw) \<or> wl_messages (wc_limits s) \<le> wc_messages s
      \<or> wl_bytes (wc_limits s) < wc_bytes s + int (utf8_length raw)" for raw
    using that by (auto simp: receive_text_def reserve_inbound_def enqueue_def Let_def)
  with stop True show ?thesis by (auto simp: disconnect_ws_def revoke_ws_def enqueue_def)
next
  case False
  have "inputs_of (wc_log (ws_step parse s m)) = inputs_of (wc_log s)"
  proof (rule ccontr)
    assume "inputs_of (wc_log (ws_step parse s m)) \<noteq> inputs_of (wc_log s)"
    then obtain x where m: "m = M_settle In_queue Resolved x" and on: "wc_state s = Ws_open" "wc_admission s" "next_input (wc_job s) \<noteq> []"
      using step_inputs [OF good, of parse m] by (rule settle_of_inputs)
    obtain i where "wc_job s = Some (Beginning (Use_input i))" using on(3) by (rule next_input_cases)
    with m on False show False by (simp add: start_operation_def on_job_def emit_def Let_def)
  qed
  with False ws_step_good [OF good, of parse m] show ?thesis by (simp add: ws_good_def shut_fields_def)
qed

lemma next_frame_only:
  assumes "subseq fs (next_frame k)"
  shows "length fs \<le> 1 \<and> (\<forall>f \<in> set fs. k = Some (Beginning (Use_frame f)))"
proof (cases "next_frame k = []")
  case True
  then show ?thesis using assms by (auto dest: list_emb_Nil2)
next
  case False
  then obtain x where x: "k = Some x" by (cases k) simp_all
  then obtain u where u: "x = Beginning u" using False by (cases x) simp_all
  then obtain f where f: "u = Use_frame f" using False x by (cases u) simp_all
  have "length fs \<le> length (next_frame k)" "set fs \<subseteq> set (next_frame k)"
    using list_emb_length [OF assms] subseq_set [OF assms] by auto
  then show ?thesis using x u f by auto
qed

lemma drive_keeps:
  assumes "ws_good s" and "\<not> wc_admission s"
  shows "ws_good (ws_drive parse pick n s)" "\<not> wc_admission (ws_drive parse pick n s)"
proof -
  have "ws_good (ws_drive parse pick n s) \<and> \<not> wc_admission (ws_drive parse pick n s)"
    using assms
  proof (induction n arbitrary: s)
    case (Suc n)
    then have "ws_good (ws_step parse s (pick s))" "\<not> wc_admission (ws_step parse s (pick s))"
      using ws_step_good step_narrows [of s parse "pick s"] by (auto simp: narrows_def)
    then show ?case using Suc by simp
  qed simp
  then show "ws_good (ws_drive parse pick n s)" "\<not> wc_admission (ws_drive parse pick n s)" by simp_all
qed

lemma at_rest:
  assumes "ws_good t" and "\<not> wc_admission t" and "ws_resting t"
  shows "wc_state t \<in> {Ws_closed, Ws_revoked, Ws_failed} \<and> (wc_released t \<or> wc_failure t = Some Fail_release)"
proof -
  note D = ws_goodD [OF assms(1)]
  have "wc_state t \<noteq> Ws_open" using D(3) assms(2,3) by (auto simp: fenced_def ws_resting_def)
  moreover have "wc_state t \<noteq> Ws_closing" using D(6) assms(3) by (auto simp: ws_resting_def)
  ultimately have "ws_ended t" by (cases "wc_state t") (simp_all add: ws_ended_def)
  moreover have "ws_tasks t = {}" using assms(3) by (simp add: ws_tasks_def ws_resting_def)
  ultimately show ?thesis using D(7) by (auto simp: ws_ended_def given_back_def)
qed

section \<open>A concrete channel\<close>

definition demo_ws_binding :: ws_binding where
  "demo_ws_binding = \<lparr>wb_intervention = ''i'', wb_epoch = num_of_int 1, wb_principal = ''p'', wb_client = ''c'', wb_generation = num_of_int 1\<rparr>"

definition demo_ws_policy :: ws_policy where
  "demo_ws_policy = \<lparr>wp_tap = True, wp_scroll = False, wp_text = True, wp_key = False\<rparr>"

definition demo_ws_options :: ws_options where
  "demo_ws_options = \<lparr>wo_inbound = None, wo_messages = Some (num_of_int 2), wo_bytes = None, wo_frame = None, wo_buffered = None\<rparr>"

definition demo_ws :: ws_channel where
  "demo_ws = the (new_ws_channel demo_ws_binding demo_ws_policy demo_ws_options)"

definition demo_ws_parse :: "string \<Rightarrow> jsval option" where
  "demo_ws_parse raw = (if raw = ''t'' then Some (JObj [(''kind'', JStr ''text''), (''text'', JStr ''hi'')]) else None)"

definition demo_ws_frame :: "nat \<Rightarrow> ws_frame" where
  "demo_ws_frame n = \<lparr>wf_tag = n, wf_bytes = True, wf_size = 10, wf_width = num_of_int 8, wf_height = num_of_int 8, wf_mime = ''image/png''\<rparr>"

text \<open>A scheduler that settles what is under way first.\<close>

definition first_move :: "ws_channel \<Rightarrow> ws_move" where
  "first_move s = (if wc_job s \<noteq> None then M_settle In_queue Resolved None else if wc_jobs s \<noteq> [] then M_next
     else if wc_loop s \<noteq> None then M_settle In_loop Resolved None else M_settle (On_side 0) Resolved None)"

lemma demo_ws_made: "new_ws_channel demo_ws_binding demo_ws_policy demo_ws_options = Some demo_ws"
proof -
  have "new_ws_channel demo_ws_binding demo_ws_policy demo_ws_options \<noteq> None" by code_simp
  then show ?thesis by (auto simp: demo_ws_def)
qed

lemma first_move_enabled: "\<not> ws_resting t \<Longrightarrow> ws_enabled t (first_move t)"
  by (auto simp: ws_resting_def first_move_def)

section \<open>Properties\<close>

text \<open>C4. Human input needs authority at the moment it is dispatched: in a channel reached by any sequence of calls and settled
  awaits, the only step that hands an input to the input handler is the success of \<open>beginUse\<close> for the queued input, with
  the channel open and admitting; no later step hands over an input once admission is closed. The call of \<open>disconnect\<close>
  or \<open>revoke\<close>, a message that breaks the size or a queue limit, and every step after which the channel is not open close
  it at once: no input is handed over by that step or after it, also not one that was queued or had begun before.
\<close>

theorem ws_input_needs_authority:
  assumes "new_ws_channel b p ops = Some s0" and "s = run (ws_step parse) s0 ms"
  shows "(inputs_of (wc_log (ws_step parse s m)) = inputs_of (wc_log s)
      \<or> (\<exists>i x. m = M_settle In_queue Resolved x \<and> wc_job s = Some (Beginning (Use_input i)) \<and> wc_state s = Ws_open
           \<and> wc_admission s \<and> inputs_of (wc_log (ws_step parse s m)) = inputs_of (wc_log s) @ [i]))
    \<and> (\<not> wc_admission s \<longrightarrow> inputs_of (wc_log (run (ws_step parse) s ms')) = inputs_of (wc_log s))
    \<and> (m = M_disconnect \<or> m = M_revoke \<or> wc_state (ws_step parse s m) \<noteq> Ws_open
        \<or> (\<exists>raw. m = M_text raw \<and> (wl_inbound (wc_limits s) < int (utf8_length raw) \<or> wl_messages (wc_limits s) \<le> wc_messages s
             \<or> wl_bytes (wc_limits s) < wc_bytes s + int (utf8_length raw)))
        \<longrightarrow> inputs_of (wc_log (run (ws_step parse) (ws_step parse s m) ms')) = inputs_of (wc_log s))"
proof (intro conjI impI)
  have good: "ws_good s" using run_fixed(1) [OF assms(1)] assms(2) by simp
  show step: "inputs_of (wc_log (ws_step parse s m)) = inputs_of (wc_log s)
      \<or> (\<exists>i x. m = M_settle In_queue Resolved x \<and> wc_job s = Some (Beginning (Use_input i)) \<and> wc_state s = Ws_open
           \<and> wc_admission s \<and> inputs_of (wc_log (ws_step parse s m)) = inputs_of (wc_log s) @ [i])"
  proof (cases "inputs_of (wc_log (ws_step parse s m)) = inputs_of (wc_log s)")
    case False
    then obtain x where m: "m = M_settle In_queue Resolved x" and on: "wc_state s = Ws_open" "wc_admission s" "next_input (wc_job s) \<noteq> []"
      using step_inputs [OF good, of parse m] by (rule settle_of_inputs)
    obtain i where "wc_job s = Some (Beginning (Use_input i))" using on(3) by (rule next_input_cases)
    then show ?thesis using step_inputs [OF good, of parse m] m on by simp
  qed simp
  show "inputs_of (wc_log (run (ws_step parse) s ms')) = inputs_of (wc_log s)" if "\<not> wc_admission s"
    using fenced_ws.good_run [of "inputs_of (wc_log s)" s parse ms'] good that by (simp add: input_over_def)
  assume stop: "m = M_disconnect \<or> m = M_revoke \<or> wc_state (ws_step parse s m) \<noteq> Ws_open
        \<or> (\<exists>raw. m = M_text raw \<and> (wl_inbound (wc_limits s) < int (utf8_length raw) \<or> wl_messages (wc_limits s) \<le> wc_messages s
             \<or> wl_bytes (wc_limits s) < wc_bytes s + int (utf8_length raw)))"
  have over: "input_over (inputs_of (wc_log s)) (ws_step parse s m)"
    unfolding input_over_def
    using ws_step_good [OF good] stopped_at_once [OF good stop] step by blast
  show "inputs_of (wc_log (run (ws_step parse) (ws_step parse s m) ms')) = inputs_of (wc_log s)"
    using fenced_ws.good_run [OF over, of parse ms'] by (simp add: input_over_def)
qed

theorem ws_input_needs_authority_witness:
  "let s = run (ws_step demo_ws_parse) demo_ws [M_text ''t'', M_next] in
   inputs_of (wc_log (ws_step demo_ws_parse s (M_settle In_queue Resolved None))) = inputs_of (wc_log s) @ [Ws_text ''hi'']
   \<and> inputs_of (wc_log (run (ws_step demo_ws_parse) (ws_step demo_ws_parse s M_revoke) [M_settle In_queue Resolved None, M_next]))
       = inputs_of (wc_log s)"
proof -
  let ?s = "run (ws_step demo_ws_parse) demo_ws [M_text ''t'', M_next]"
  have "inputs_of (wc_log (run (ws_step demo_ws_parse) (ws_step demo_ws_parse ?s M_revoke) [M_settle In_queue Resolved None, M_next]))
      = inputs_of (wc_log ?s)"
    using ws_input_needs_authority [OF demo_ws_made refl, of demo_ws_parse "[M_text ''t'', M_next]" M_revoke
        "[M_settle In_queue Resolved None, M_next]"] by blast
  moreover have "inputs_of (wc_log (ws_step demo_ws_parse ?s (M_settle In_queue Resolved None))) = inputs_of (wc_log ?s) @ [Ws_text ''hi'']"
    by code_simp
  ultimately show ?thesis by (simp only: Let_def)
qed

text \<open>C5. The channel comes to rest and gives its lease back: once admission is closed, whatever order its jobs and awaits are
  served in and whatever their outcomes, at most \<open>ws_weight\<close> of them remain; after that nothing is queued or under way,
  the channel is closed, revoked or failed, and the lease has been released or the failure to release it is on record.
\<close>

theorem ws_comes_to_rest:
  assumes "new_ws_channel b p ops = Some s0" and "s = run (ws_step parse) s0 ms" and "\<not> wc_admission s"
    and "\<And>t. \<not> ws_resting t \<Longrightarrow> ws_enabled t (pick t)"
  shows "\<exists>t. ws_drive parse pick (ws_weight s) s = t \<and> ws_resting t \<and> wc_state t \<in> {Ws_closed, Ws_revoked, Ws_failed}
    \<and> (wc_released t \<or> wc_failure t = Some Fail_release)"
proof -
  let ?t = "ws_drive parse pick (ws_weight s) s"
  have rest: "ws_resting ?t" using drive_rests assms(4) by blast
  have "ws_good s" using run_fixed(1) [OF assms(1)] assms(2) by simp
  then have t: "ws_good ?t" "\<not> wc_admission ?t" using assms(3) by (rule drive_keeps)+
  then show ?thesis using rest at_rest [OF t rest] by blast
qed

theorem ws_comes_to_rest_witness:
  "let s = run (ws_step demo_ws_parse) demo_ws [M_start, M_text ''t'', M_next, M_revoke] in
   \<exists>t. ws_drive demo_ws_parse first_move (ws_weight s) s = t \<and> ws_resting t \<and> wc_state t \<in> {Ws_closed, Ws_revoked, Ws_failed}
     \<and> (wc_released t \<or> wc_failure t = Some Fail_release)"
proof -
  let ?s = "run (ws_step demo_ws_parse) demo_ws [M_start, M_text ''t'', M_next, M_revoke]"
  have "\<not> wc_admission ?s" by code_simp
  then show ?thesis
    unfolding Let_def by (rule ws_comes_to_rest [OF demo_ws_made refl _ first_move_enabled])
qed

text \<open>C37. Inputs are dispatched at most once each, in the order in which they were received, and only those the policy allows:
  what the input handler has been given is a subsequence of the valid inputs in the received texts, and each one is within
  its bounds.
\<close>

theorem ws_inputs_in_order:
  assumes "new_ws_channel b p ops = Some s0" and "s = run (ws_step parse) s0 ms"
  shows "subseq (inputs_of (wc_log s)) (received_inputs parse (wl_inbound (wc_limits s0)) p ms)
    \<and> (\<forall>i \<in> set (inputs_of (wc_log s)). input_ok p i)"
proof -
  have "subseq (inputs_due parse s) (received_inputs parse (wl_inbound (wc_limits s0)) p ms)"
    using run_inputs_due [OF assms(1)] assms(2) by simp
  then have sub: "subseq (inputs_of (wc_log s)) (received_inputs parse (wl_inbound (wc_limits s0)) p ms)"
    unfolding inputs_due_def using subseq_right [OF subseq_order.refl] subseq_order.trans by blast
  moreover have "set (inputs_of (wc_log s)) \<subseteq> set (received_inputs parse (wl_inbound (wc_limits s0)) p ms)"
    using sub by (rule subseq_set)
  ultimately show ?thesis using received_inputs_ok by blast
qed

theorem ws_inputs_in_order_witness:
  "let ms = [M_text ''t'', M_next, M_settle In_queue Resolved None] in
   subseq (inputs_of (wc_log (run (ws_step demo_ws_parse) demo_ws ms)))
     (received_inputs demo_ws_parse (wl_inbound (wc_limits demo_ws)) demo_ws_policy ms)
   \<and> inputs_of (wc_log (run (ws_step demo_ws_parse) demo_ws ms)) = [Ws_text ''hi'']"
proof -
  let ?ms = "[M_text ''t'', M_next, M_settle In_queue Resolved None]"
  have "inputs_of (wc_log (run (ws_step demo_ws_parse) demo_ws ?ms)) = [Ws_text ''hi'']" by code_simp
  then show ?thesis
    using ws_inputs_in_order [OF demo_ws_made refl, of demo_ws_parse ?ms] by (simp only: Let_def)
qed

text \<open>Frames keep their order and none is unaccounted for: the frames handed to the peer are a subsequence of the valid
  frames pushed, and while the channel is open each pushed frame has been sent, dropped, is waiting or is being sent.
  After the channel has left the open state at most one more frame is handed over: the one whose use had begun.
\<close>

theorem ws_frames_in_order:
  assumes "new_ws_channel b p ops = Some s0" and "s = run (ws_step parse) s0 ms"
  shows "subseq (frames_of (wc_log s)) (pushed s0 ms)
    \<and> (wc_state s = Ws_open \<longrightarrow> length (pushed s0 ms) = wc_sent s + wc_dropped s
         + (if wc_pending s = None then 0 else 1) + (if wc_loop s = None then 0 else 1))
    \<and> (wc_state s \<noteq> Ws_open \<longrightarrow> (\<exists>more. frames_of (wc_log (run (ws_step parse) s ms')) = frames_of (wc_log s) @ more
         \<and> length more \<le> 1 \<and> (\<forall>f \<in> set more. wc_loop s = Some (Beginning (Use_frame f)))))"
proof (intro conjI impI)
  have good: "ws_good s" using run_fixed(1) [OF assms(1)] assms(2) by simp
  show "subseq (frames_of (wc_log s)) (pushed s0 ms)"
    using run_frames(1) [OF assms] subseq_right [OF subseq_order.refl] subseq_order.trans unfolding frames_due_def by blast
  show "length (pushed s0 ms) = wc_sent s + wc_dropped s
      + (if wc_pending s = None then 0 else 1) + (if wc_loop s = None then 0 else 1)" if "wc_state s = Ws_open"
    using run_frames(2) [OF assms that] by (cases "wc_pending s"; cases "wc_loop s") (simp_all add: frames_held_def frames_seen_def waiting_def)
  assume closed: "wc_state s \<noteq> Ws_open"
  have "frames_over (frames_of (wc_log s)) (next_frame (wc_loop s)) s"
    using good closed by (simp add: frames_over_def)
  then have "frames_over (frames_of (wc_log s)) (next_frame (wc_loop s)) (run (ws_step parse) s ms')"
    by (rule ended_ws.good_run)
  then obtain more where more: "frames_of (wc_log (run (ws_step parse) s ms')) = frames_of (wc_log s) @ more"
      "subseq (more @ next_frame (wc_loop (run (ws_step parse) s ms'))) (next_frame (wc_loop s))"
    by (auto simp: frames_over_def)
  have "subseq more (next_frame (wc_loop s))" using more(2) subseq_right [OF subseq_order.refl] subseq_order.trans by blast
  then show "\<exists>more. frames_of (wc_log (run (ws_step parse) s ms')) = frames_of (wc_log s) @ more
      \<and> length more \<le> 1 \<and> (\<forall>f \<in> set more. wc_loop s = Some (Beginning (Use_frame f)))"
    using more(1) next_frame_only by blast
qed

theorem ws_frames_in_order_witness:
  "let ms = [M_frame (demo_ws_frame 1) (Some (JNum (num_of_int 0))) (Some (JNum (num_of_int 0))),
       M_frame (demo_ws_frame 2) None None, M_frame (demo_ws_frame 3) None None, M_revoke, M_next];
       s = run (ws_step demo_ws_parse) demo_ws ms in
   wc_state s = Ws_revoked \<and> subseq (frames_of (wc_log s)) (pushed demo_ws ms)
   \<and> (\<exists>more. frames_of (wc_log (run (ws_step demo_ws_parse) s [M_settle In_loop Resolved None])) = frames_of (wc_log s) @ more
         \<and> length more \<le> 1 \<and> (\<forall>f \<in> set more. wc_loop s = Some (Beginning (Use_frame f))))"
proof -
  let ?ms = "[M_frame (demo_ws_frame 1) (Some (JNum (num_of_int 0))) (Some (JNum (num_of_int 0))),
     M_frame (demo_ws_frame 2) None None, M_frame (demo_ws_frame 3) None None, M_revoke, M_next]"
  let ?s = "run (ws_step demo_ws_parse) demo_ws ?ms"
  have "wc_state ?s = Ws_revoked" by code_simp
  then show ?thesis
    using ws_frames_in_order [OF demo_ws_made refl, of demo_ws_parse ?ms "[M_settle In_loop Resolved None]"]
    by (simp only: Let_def ws_state.distinct simp_thms)
qed

text \<open>C38. The queue of received texts is counted exactly and bounded: the counters are the number of queued texts and the sum
  of their UTF-8 lengths, and neither exceeds its limit. A text that would exceed a limit is not queued and closes
  admission; any other is queued when admission is open.
\<close>

theorem ws_queue_is_bounded:
  assumes "new_ws_channel b p ops = Some s0" and "s = run (ws_step parse) s0 ms" and "n = utf8_length raw" and "l = wc_limits s0"
  shows "wc_messages s = int (length (queued_texts (wc_jobs s))) \<and> wc_bytes s = int (sum_list (queued_texts (wc_jobs s)))
    \<and> wc_messages s \<le> wl_messages l \<and> wc_bytes s \<le> wl_bytes l
    \<and> (wc_admission s \<longrightarrow> (if wl_inbound l < int n \<or> wl_messages l < wc_messages s + 1 \<or> wl_bytes l < wc_bytes s + int n
         then \<not> wc_admission (ws_step parse s (M_text raw))
           \<and> queued_texts (wc_jobs (ws_step parse s (M_text raw))) = queued_texts (wc_jobs s)
         else wc_admission (ws_step parse s (M_text raw)) \<and> wc_jobs (ws_step parse s (M_text raw)) = wc_jobs s @ [Job_text raw n]))"
proof -
  have good: "ws_good s" and limits: "wc_limits s = l" using run_fixed(1,2) [OF assms(1)] assms(2,4) by simp_all
  have "queue_counted s" by (rule ws_goodD(4) [OF good])
  then show ?thesis
    using limits assms(3) by (auto simp: queue_counted_def receive_text_def reserve_inbound_def enqueue_def Let_def)
qed

theorem ws_queue_is_bounded_witness:
  "let s = run (ws_step demo_ws_parse) demo_ws [M_text ''t'', M_text ''u''] in
   wc_messages s = 2 \<and> \<not> wc_admission (ws_step demo_ws_parse s (M_text ''v''))"
proof -
  let ?s = "run (ws_step demo_ws_parse) demo_ws [M_text ''t'', M_text ''u'']"
  have "wc_messages ?s = 2" "wc_admission ?s" "wl_messages (wc_limits demo_ws) = 2" by code_simp+
  then show ?thesis
    using ws_queue_is_bounded [OF demo_ws_made refl refl refl, of demo_ws_parse "[M_text ''t'', M_text ''u'']" "''v''"]
    by (simp add: Let_def del: foldl_Cons foldl_Nil ws_step.simps)
qed

text \<open>C39. A parsed message is well typed: whatever \<open>JSON.parse\<close> returns, a message that \<open>parseHumanMessage\<close> accepts is of an
  input kind the policy allows with every field within its bounds, a known diagnostic event, a known latency metric with a
  valid value, \<open>done\<close>, or a \<open>ping\<close> with a bounded nonce; and its text was within the size limit.
\<close>

theorem ws_messages_are_typed:
  assumes "parse_human_message parse m p raw = Inr msg"
  shows "message_ok p msg \<and> int (utf8_length raw) \<le> m"
  using parsed_message_ok [OF assms] assms by (auto simp: parse_human_message_def split: if_splits)

theorem ws_messages_are_typed_witness:
  "message_ok demo_ws_policy (Msg_input (Ws_text ''hi'')) \<and> int (utf8_length ''t'') \<le> 8192"
proof -
  have "parse_human_message demo_ws_parse 8192 demo_ws_policy ''t'' = Inr (Msg_input (Ws_text ''hi''))" by code_simp
  then show ?thesis by (rule ws_messages_are_typed)
qed

text \<open>C7. The work of a channel terminates: the relation between a state and its successor by a served job or a settled await is
  well-founded, so however the environment answers, no infinite chain of jobs and awaits exists without a new call from outside.
\<close>

theorem ws_work_terminates: "wf {(ws_step parse s m, s) |s m. ws_enabled s m}"
  by (rule wf_subset [OF wf_measure [of ws_weight]]) (auto intro: ws_weight_drops)

end
