(* ===== verification/Websocket_Fence.thy ===== *)
theory Websocket_Fence
  imports Websocket_Authority Websocket_Safety
begin

text \<open>
  One socket over its lease: the channel of \<open>Websocket_Channel\<close> whose calls to the lease are the operations of
  \<open>Websocket_Authority\<close> on the record and the binding it was accepted with, while everything else that happens to the
  authority and the session manager happens in between. A lease is synchronous: its outcome is fixed when it is called, and
  the await that follows settles with it.
\<close>

section \<open>The calls to the lease\<close>

fun is_lease_call :: "ws_effect \<Rightarrow> bool" where
  "is_lease_call (E_begin u) = True"
| "is_lease_call (E_end u) = True"
| "is_lease_call E_complete = True"
| "is_lease_call E_release = True"
| "is_lease_call _ = False"

definition leases_of :: "ws_effect list \<Rightarrow> ws_effect list" where
  "leases_of es = filter is_lease_call es"

lemma leases_of_simps [simp]:
  "leases_of [] = []" "leases_of (a @ b) = leases_of a @ leases_of b"
  "leases_of (e # es) = (if is_lease_call e then e # leases_of es else leases_of es)"
  by (simp_all add: leases_of_def)

text \<open>The call a part of a step made, and the task it left.\<close>

definition calls :: "ws_channel \<Rightarrow> ws_task option \<Rightarrow> ws_channel \<Rightarrow> ws_effect list \<Rightarrow> bool" where
  "calls s k t es \<longleftrightarrow> leases_of (wc_log t) = leases_of (wc_log s) @ es
     \<and> (case k of Some (Beginning u) \<Rightarrow> es = [E_begin u] | Some (Operating u c) \<Rightarrow> es = []
        | Some (Ending u out) \<Rightarrow> es = [E_end u] | Some Completing \<Rightarrow> es = [E_complete]
        | Some (Releasing why) \<Rightarrow> es = [E_release] | None \<Rightarrow> es = [])"

lemma fail_closed_calls: "fail_closed f s = (k, t) \<Longrightarrow> \<exists>es. calls s k t es"
  by (cases "ws_ended s")
    (auto simp: fail_closed_def release_once_def calls_def ws_ended_def fail_notified_def emit_def Let_def split: if_splits)

lemma calls_from: "leases_of (wc_log u) = leases_of (wc_log s) \<Longrightarrow> calls u k t es \<Longrightarrow> calls s k t es"
  by (simp add: calls_def)

lemma fail_closed_calls_from: "fail_closed f u = (k, t) \<Longrightarrow> leases_of (wc_log u) = leases_of (wc_log s) \<Longrightarrow> \<exists>es. calls s k t es"
  using fail_closed_calls calls_from by blast

lemma frame_turn_calls: "frame_turn r c s = (k, t) \<Longrightarrow> \<exists>es. calls s k t es"
proof (cases "c = None \<or> wc_state s \<noteq> Ws_open")
  case True
  assume "frame_turn r c s = (k, t)"
  then show ?thesis using True by (auto simp: frame_turn_def calls_def split: option.splits)
next
  case False
  assume turn: "frame_turn r c s = (k, t)"
  obtain f where f: "c = Some f" "wc_state s = Ws_open" using False by auto
  obtain b s1 where b: "is_ws_backpressured r s = (b, s1)" by (cases "is_ws_backpressured r s")
  show ?thesis
  proof (cases b)
    case None
    then have "fail_closed Fail_transport s1 = (k, t)" using turn f b by (simp add: frame_turn_def)
    then show ?thesis using b by (auto intro: fail_closed_calls_from)
  next
    case (Some full)
    then show ?thesis
      using turn f b by (cases full) (auto simp: frame_turn_def run_use_def ws_small calls_def)
  qed
qed

lemma frame_turn_calls_from: "frame_turn r c u = (k, t) \<Longrightarrow> leases_of (wc_log u) = leases_of (wc_log s) \<Longrightarrow> \<exists>es. calls s k t es"
  using frame_turn_calls calls_from by blast

lemma after_use_calls: "after_use r u out s = (k, t) \<Longrightarrow> \<exists>es. calls s k t es"
  by (cases u) (auto simp: after_use_def emit_def calls_def Let_def split: if_splits dest!: frame_turn_calls)

lemma use_ended_calls: "use_ended r u out s = (k, t) \<Longrightarrow> \<exists>es. calls s k t es"
proof (induction out)
  case Op_recoverable
  then show ?case by (cases u) (auto simp: use_ended_def calls_def dest!: fail_closed_calls)
next
  case Op_failed
  then show ?case by (auto simp: use_ended_def dest: fail_closed_calls)
qed (cases u; auto simp: use_ended_def calls_def dest!: after_use_calls)+

lemma settle_calls: "settle_task x r k0 s = (k, t) \<Longrightarrow> \<exists>es. calls s k t es"
proof (induction x r k0 s rule: settle_task.induct)
  case (1 x r u s)
  then show ?case
    by (cases "r = Resolved")
      (auto simp: start_operation_def emit_def calls_def Let_def dest!: fail_closed_calls split: ws_use.splits if_splits)
next
  case (2 x r u c s)
  then show ?case by (auto simp: end_operation_def emit_def calls_def Let_def split: ws_use.splits use_outcome.splits)
next
  case (3 x r u out s)
  then show ?case by (cases "r = Resolved") (auto dest!: fail_closed_calls use_ended_calls)
next
  case (4 x r why s)
  then show ?case
    by (cases why; cases "r = Resolved") (auto simp: calls_def release_settled_def fail_notified_def record_release_failure_def emit_def Let_def)
next
  case (5 x r s)
  then show ?case by (cases "r = Resolved") (auto simp: complete_settled_def emit_def calls_def dest!: fail_closed_calls)
qed

lemma start_text_calls: "start_text parse raw s = (k, t) \<Longrightarrow> \<exists>es. calls s k t es"
proof (cases "wc_state s \<noteq> Ws_open \<or> \<not> wc_admission s")
  case True
  assume "start_text parse raw s = (k, t)"
  then show ?thesis using True by (simp add: start_text_def calls_def)
next
  case False
  assume start: "start_text parse raw s = (k, t)"
  show ?thesis
  proof (cases "parse_human_message parse (wl_inbound (wc_limits s)) (wc_policy s) raw")
    case (Inl f)
    then show ?thesis using start False by (auto simp: start_text_def dest: fail_closed_calls)
  next
    case (Inr m)
    then show ?thesis
      using start False by (cases m) (auto simp: start_text_def run_use_def complete_ws_def emit_def calls_def split: if_splits)
  qed
qed

lemma start_job_calls: "start_job parse j s = (k, t) \<Longrightarrow> \<exists>es. calls s k t es"
proof (cases j)
  case (Job_text raw n)
  assume "start_job parse j s = (k, t)"
  then obtain es where "calls (release_inbound (int n) s) k t es" using Job_text start_text_calls by fastforce
  then show ?thesis by (auto simp: calls_def release_inbound_def)
next
  case (Job_fail f)
  assume "start_job parse j s = (k, t)"
  then show ?thesis using Job_fail by (auto dest: fail_closed_calls)
qed (auto simp: start_closing_def release_once_def release_settled_def emit_def calls_def Let_def split: if_splits)

section \<open>Uses in flight\<close>

text \<open>While nobody ends a use of the client \<open>cb\<close>, its count does not fall, and its session reaches another generation only
  from a count of zero.\<close>

definition flight_le :: "string \<Rightarrow> takeover \<Rightarrow> takeover \<Rightarrow> bool" where
  "flight_le cb r r' \<longleftrightarrow> tk_generation r \<le> tk_generation r'
     \<and> (tk_client r = Some cb \<longrightarrow>
          tk_generation r' = tk_generation r \<and> tk_client r' = Some cb \<and> tk_in_flight r \<le> tk_in_flight r'
        \<or> tk_generation r < tk_generation r' \<and> tk_in_flight r = 0)"

lemma flight_le_flags [simp]:
  "flight_le cb r r" "flight_le cb r (r\<lparr>tk_released := b\<rparr>)" "flight_le cb r (r\<lparr>tk_last_seen := x\<rparr>)"
  "flight_le cb r (r\<lparr>tk_revoked := True\<rparr>)" "flight_le cb r (r\<lparr>tk_completed := c, tk_revoked := v, tk_released := b\<rparr>)"
  "flight_le cb r (r\<lparr>tk_completed := c, tk_revoked := v, tk_released := b, tk_completion_expires := e\<rparr>)"
  "flight_le cb r (r\<lparr>tk_in_flight := tk_in_flight r + 1\<rparr>)" "flight_le cb r (r\<lparr>tk_in_flight := tk_in_flight r + 1, tk_last_seen := x\<rparr>)"
  "flight_le cb r (r\<lparr>tk_in_flight := Suc (tk_in_flight r), tk_last_seen := x\<rparr>)"
  by (simp_all add: flight_le_def)

definition flights :: "string \<Rightarrow> takeovers \<Rightarrow> takeovers \<Rightarrow> string \<Rightarrow> bool" where
  "flights cb m m' k \<longleftrightarrow> (\<forall>r'. map_of m' k = Some r' \<longrightarrow> (\<exists>r. map_of m k = Some r \<and> flight_le cb r r'))"

lemma flights_refl [simp]: "flights cb m m k"
  by (auto simp: flights_def)

lemma flights_update: "map_of m i = Some r \<Longrightarrow> flight_le cb r r' \<Longrightarrow> flights cb m (AList.update i r' m) k"
  by (auto simp: flights_def update_conv')

lemma map_of_filter: "distinct (map fst m) \<Longrightarrow> map_of (filter P m) k = Some r \<Longrightarrow> map_of m k = Some r"
  by (auto dest!: map_of_SomeD)

lemma map_of_prune: "takeovers_good m \<Longrightarrow> map_of (prune_expired t m) k = Some r \<Longrightarrow> map_of m k = Some r"
  unfolding prune_expired_def takeovers_good_def by (blast intro: map_of_filter)

lemma flights_prune: "takeovers_good m \<Longrightarrow> flights cb (prune_expired t m) m' k \<Longrightarrow> flights cb m m' k"
  unfolding flights_def using map_of_prune by blast

lemma flights_map: "(\<And>r. flight_le cb r (f r)) \<Longrightarrow> flights cb m (map (\<lambda>(k, r). (k, f r)) m) k"
proof -
  assume "\<And>r. flight_le cb r (f r)"
  moreover have "map_of (map (\<lambda>(k, r). (k, f r)) m) k = map_option f (map_of m k)"
    by (simp add: map_of_map)
  ultimately show ?thesis by (auto simp: flights_def)
qed

lemma flights_verify: "flights cb m (snd (verify_takeover hmac i cap pb c t1 t2 m)) k"
  by (auto simp: verify_takeover_def intro!: flights_update dest: require_liveD split: sum.split)

lemma flights_op:
  assumes good: "takeovers_good m" and "new_id_of c = None" and "\<not> ends_client cb c"
  shows "flights cb m (takeover_op cfg hmac m c) k"
proof (cases c)
  case (Complete_session i cap pb t1 t2)
  then show ?thesis by (auto simp: complete_takeover_def intro: flights_update split: option.split)
next
  case (Claim_client i pb nb t1 t2)
  show ?thesis
  proof (cases "require_live i t1 m")
    case (Inr r)
    then have "map_of m i = Some r" by (auto dest: require_liveD)
    moreover have "record_good r" using calculation good by (simp add: takeovers_good_def)
    ultimately show ?thesis
      using Claim_client Inr
      by (auto simp: claim_client_def Let_def flight_le_def record_good_def intro!: flights_update split: option.split)
  qed (simp add: Claim_client claim_client_def)
next
  case (Reconnect_client i pb h nb t1 t2 t3)
  show ?thesis
  proof (cases "fst (reconnect_client cfg hmac i pb h nb t1 t2 t3 m)")
    case (Inl e)
    have "snd (reconnect_client cfg hmac i pb h nb t1 t2 t3 m) = m \<or> \<not> isl (fst (reconnect_client cfg hmac i pb h nb t1 t2 t3 m))"
      by (auto simp: reconnect_client_def Let_def grant_of_def claimed_def client_shape_def url_text_def split: sum.split)
    then show ?thesis using Reconnect_client Inl by auto
  next
    case (Inr g)
    then obtain r where "map_of m i = Some r" "tk_in_flight r = 0"
      "snd (reconnect_client cfg hmac i pb h nb t1 t2 t3 m) = AList.update i (r\<lparr>tk_client := Some nb,
         tk_generation := tk_generation r + 1, tk_last_seen := Some t3, tk_released := False\<rparr>) m"
      by (elim reconnect_ok)
    then show ?thesis using Reconnect_client by (auto simp: flight_le_def intro: flights_update)
  qed
next
  case (Release_generation i pb c g t)
  then show ?thesis by (auto simp: release_client_generation_def intro!: flights_update dest: require_liveD split: sum.split)
next
  case (Begin_bound_use i pb c g t1 t2)
  then show ?thesis by (auto simp: begin_bound_use_def intro!: flights_update dest: require_liveD split: sum.split)
next
  case (Verify_capability i cap pb c t1 t2)
  then show ?thesis by (simp add: flights_verify)
next
  case (Begin_use i cap pb c t1 t2 t3)
  obtain q m1 where v: "verify_takeover hmac i cap pb c t1 t2 m = (q, m1)" by fastforce
  show ?thesis
  proof (cases "isl q \<or> isl (require_live i t3 m1)")
    case True
    then show ?thesis
      using v flights_verify [of cb m hmac i cap pb c t1 t2 k] Begin_use
      by (auto simp: begin_use_def split: sum.split)
  next
    case False
    then obtain u r1 where r1: "q = Inr u" "require_live i t3 m1 = Inr r1" by (metis sum.collapse(2))
    then obtain r where r: "map_of m i = Some r" "m1 = AList.update i (r\<lparr>tk_last_seen := Some t2\<rparr>) m"
      using v by (auto simp: verify_takeover_def dest: require_liveD split: sum.splits if_splits)
    have "map_of m1 i = Some r1" using r1(2) by (auto dest: require_liveD)
    then have "r1 = r\<lparr>tk_last_seen := Some t2\<rparr>" using r by (simp add: update_conv')
    then have "flights cb m (AList.update i (r1\<lparr>tk_in_flight := tk_in_flight r1 + 1\<rparr>) m1) k"
      using r by (auto simp: flights_def update_conv' flight_le_def)
    then show ?thesis using v r1 Begin_use by (simp add: begin_use_def)
  qed
next
  case (End_use i pb c' g t1 t2)
  show ?thesis
  proof (cases "end_use i pb c' g t1 t2 m = m")
    case False
    then obtain r where "map_of m i = Some r" "tk_client r = Some c'" "end_use i pb c' g t1 t2 m
        = AList.update i (r\<lparr>tk_in_flight := tk_in_flight r - 1, tk_last_seen := Some t2\<rparr>) m"
      by (auto simp: end_use_def split: option.splits if_splits)
    then show ?thesis using End_use assms(3) by (auto simp: flight_le_def intro: flights_update)
  qed (simp add: End_use)
next
  case (Complete_verified i e t1 t2)
  show ?thesis
    unfolding Complete_verified takeover_op.simps complete_after_verification_def Let_def snd_conv
    by (rule flights_prune [OF good flights_map]) simp
next
  case (Revoke_session i)
  then show ?thesis by (auto simp: revoke_takeover_def intro: flights_update split: option.split)
next
  case (Revoke_intervention i)
  then show ?thesis
    unfolding Revoke_intervention takeover_op.simps revoke_for_intervention_def by (intro flights_map) simp
qed (use assms(2) in simp)


lemma flights_ensure:
  assumes good: "takeovers_good m" and k: "k \<noteq> nid"
  shows "flights cb m (snd (ensure_takeover cfg i e pb nid t1 t2 m)) k"
proof (rule flights_prune [OF good, of cb t1])
  let ?p = "prune_expired t1 m"
  let ?f = "\<lambda>r. if tk_intervention r = i \<and> t2 < tk_expires r then r\<lparr>tk_revoked := True\<rparr> else r"
  have revoked: "flights cb ?p (map (\<lambda>(k, r). (k, ?f r)) ?p) k" by (rule flights_map) simp
  show "flights cb ?p (snd (ensure_takeover cfg i e pb nid t1 t2 m)) k"
  proof (cases "filter (\<lambda>(k, r). ensure_matches i e pb t2 r) ?p")
    case Nil
    then show ?thesis using revoked k by (auto simp: ensure_takeover_def Let_def flights_def update_conv')
  next
    case (Cons a xs)
    then show ?thesis by (cases a) (simp add: ensure_takeover_def Let_def)
  qed
qed

lemma flights_step:
  assumes good: "world_good s" and "k \<in> set (tw_used s)" and "\<not> ends_client cb c"
  shows "flights cb (tw_records s) (tw_records (takeover_step cfg hmac s c)) k"
proof (cases "new_id_of c")
  case None
  then show ?thesis using assms flights_op by (simp add: takeover_step_def world_good_def)
next
  case (Some nid)
  then obtain i e pb t1 t2 where "c = Ensure i e pb nid t1 t2" by (cases c) auto
  then show ?thesis
    using assms flights_ensure [of "tw_records s" k nid]
    by (cases "nid \<in> set (tw_used s)"; cases "k = nid") (simp_all add: takeover_step_def world_good_def)
qed

lemma flights_socket_step:
  assumes good: "authority_good a" and "k \<in> set (tw_used (sa_sessions a))" and "\<not> ends_socket cb m"
  shows "flights cb (tw_records (sa_sessions a)) (tw_records (sa_sessions (socket_step cfg hmac a m))) k"
proof (cases "sa_sessions (socket_step cfg hmac a m) = sa_sessions a")
  case False
  then obtain c where c: "sa_sessions (socket_step cfg hmac a m) = takeover_step cfg hmac (sa_sessions a) c" "\<not> ends_client cb c"
    using step_one_call [of m cfg hmac a] assms(3) by (auto simp: one_call_def)
  show ?thesis
    unfolding c(1) by (rule flights_step) (use assms c(2) in \<open>simp_all add: authority_good_def\<close>)
qed simp

section \<open>A channel over its lease\<close>

text \<open>\<open>ss_record\<close> is the record of the lease. The outcomes of the calls whose awaits have not settled are kept per place; they
  mean nothing for a place that is empty or waits for something else.\<close>

record socket_side =
  ss_auth :: socket_authority
  ss_record :: nat
  ss_channel :: ws_channel
  ss_job_ok :: bool
  ss_loop_ok :: bool
  ss_side_ok :: "bool list"

fun lease_call :: "(string \<Rightarrow> string) \<Rightarrow> nat \<Rightarrow> ws_binding \<Rightarrow> int \<Rightarrow> int \<Rightarrow> ws_effect \<Rightarrow> socket_authority \<Rightarrow> bool \<times> socket_authority" where
  "lease_call hmac i b t1 t2 (E_begin u) a = (case lease_begin i b t1 t2 a of (r, a') \<Rightarrow> (\<not> isl r, a'))"
| "lease_call hmac i b t1 t2 (E_end u) a = (True, lease_end i b t1 t2 a)"
| "lease_call hmac i b t1 t2 E_complete a = (case lease_complete hmac i b t1 t2 a of (r, a') \<Rightarrow> (\<not> isl r, a'))"
| "lease_call hmac i b t1 t2 E_release a = (case lease_release i b t1 a of (r, a') \<Rightarrow> (\<not> isl r, a'))"
| "lease_call hmac i b t1 t2 _ a = (True, a)"

definition lease_calls ::
  "(string \<Rightarrow> string) \<Rightarrow> nat \<Rightarrow> ws_binding \<Rightarrow> int \<Rightarrow> int \<Rightarrow> ws_effect list \<Rightarrow> socket_authority \<Rightarrow> bool \<times> socket_authority" where
  "lease_calls hmac i b t1 t2 es a = fold (\<lambda>e (ok, a). lease_call hmac i b t1 t2 e a) es (True, a)"

fun outcome_at :: "socket_side \<Rightarrow> ws_place \<Rightarrow> bool" where
  "outcome_at x In_queue = ss_job_ok x"
| "outcome_at x In_loop = ss_loop_ok x"
| "outcome_at x (On_side n) = ss_side_ok x ! n"

fun task_at :: "ws_channel \<Rightarrow> ws_place \<Rightarrow> ws_task option" where
  "task_at s In_queue = wc_job s"
| "task_at s In_loop = wc_loop s"
| "task_at s (On_side n) = (if n < length (wc_side s) then Some (wc_side s ! n) else None)"

text \<open>An await of the lease settles with the outcome of its call; a completion may still fail in the hook it runs.\<close>

fun settles_as :: "ws_task \<Rightarrow> bool \<Rightarrow> settled \<Rightarrow> bool" where
  "settles_as (Beginning u) ok r = ((r = Resolved) = ok)"
| "settles_as (Operating u c) ok r = True"
| "settles_as (Ending u out) ok r = (r = Resolved)"
| "settles_as (Releasing why) ok r = ((r = Resolved) = ok)"
| "settles_as Completing ok r = (r = Resolved \<longrightarrow> ok)"

definition agrees :: "socket_side \<Rightarrow> ws_move \<Rightarrow> bool" where
  "agrees x m = (case m of
       M_settle p r reading \<Rightarrow> (case task_at (ss_channel x) p of None \<Rightarrow> True | Some k \<Rightarrow> settles_as k (outcome_at x p) r)
     | _ \<Rightarrow> True)"

fun is_settle_at :: "ws_place \<Rightarrow> ws_move \<Rightarrow> bool" where
  "is_settle_at p (M_settle q r reading) = (q = p)"
| "is_settle_at p _ = False"

definition drop_nth :: "nat \<Rightarrow> 'a list \<Rightarrow> 'a list" where
  "drop_nth n xs = take n xs @ drop (n + 1) xs"

fun side_left :: "ws_move \<Rightarrow> 'a list \<Rightarrow> 'a list" where
  "side_left (M_settle (On_side n) r reading) xs = (if length xs \<le> n then xs else drop_nth n xs)"
| "side_left _ xs = xs"

text \<open>The channel after a move, the outcome of its call kept at the place that made it.\<close>

definition channel_moved :: "socket_side \<Rightarrow> ws_move \<Rightarrow> bool \<Rightarrow> ws_channel \<Rightarrow> socket_side" where
  "channel_moved x m ok s' = x\<lparr>ss_channel := s',
     ss_job_ok := (if wc_job (ss_channel x) = None \<or> is_settle_at In_queue m then ok else ss_job_ok x),
     ss_loop_ok := (if wc_loop (ss_channel x) = None \<or> is_settle_at In_loop m then ok else ss_loop_ok x),
     ss_side_ok := side_left m (ss_side_ok x)
       @ (if length (side_left m (ss_side_ok x)) < length (wc_side s') then [ok] else [])\<rparr>"

datatype side_move = Side_channel ws_move int int | Side_world socket_move

fun side_step ::
  "(string \<Rightarrow> jsval option) \<Rightarrow> takeover_config \<Rightarrow> (string \<Rightarrow> string) \<Rightarrow> socket_side \<Rightarrow> side_move \<Rightarrow> socket_side" where
  "side_step parse cfg hmac x (Side_channel m t1 t2) =
     (if \<not> agrees x m then x
      else (let s = ss_channel x; s' = ws_step parse s m;
                es = drop (length (leases_of (wc_log s))) (leases_of (wc_log s')) in
        case lease_calls hmac (ss_record x) (wc_binding s) t1 t2 es (ss_auth x) of
          (ok, a) \<Rightarrow> (channel_moved x m ok s')\<lparr>ss_auth := a\<rparr>))"
| "side_step parse cfg hmac x (Side_world m) = x\<lparr>ss_auth := socket_step cfg hmac (ss_auth x) m\<rparr>"

text \<open>The channel the ingress makes for an accepted socket.\<close>

definition new_side :: "accepted_socket \<Rightarrow> ws_options \<Rightarrow> socket_authority \<Rightarrow> socket_side option" where
  "new_side s ops a = (case new_ws_channel (as_binding s) (as_policy s) ops of
       None \<Rightarrow> None
     | Some c \<Rightarrow> Some \<lparr>ss_auth = a, ss_record = as_record s, ss_channel = c, ss_job_ok = True, ss_loop_ok = True, ss_side_ok = []\<rparr>)"

section \<open>Uses under way\<close>

fun uses :: "ws_task \<Rightarrow> bool \<Rightarrow> nat" where
  "uses (Beginning u) ok = (if ok then 1 else 0)"
| "uses (Operating u c) ok = 1"
| "uses _ ok = 0"

definition uses_at :: "ws_task option \<Rightarrow> bool \<Rightarrow> nat" where
  "uses_at k ok = (case k of None \<Rightarrow> 0 | Some t \<Rightarrow> uses t ok)"

definition side_uses :: "ws_task list \<Rightarrow> bool list \<Rightarrow> nat" where
  "side_uses ts oks = sum_list (map2 uses ts oks)"

definition outstanding :: "socket_side \<Rightarrow> nat" where
  "outstanding x = uses_at (wc_job (ss_channel x)) (ss_job_ok x) + uses_at (wc_loop (ss_channel x)) (ss_loop_ok x)
     + side_uses (wc_side (ss_channel x)) (ss_side_ok x)"

lemma uses_at_simps [simp]: "uses_at None ok = 0" "uses_at (Some t) ok = uses t ok"
  by (simp_all add: uses_at_def)

lemma side_uses_append [simp]: "length ts = length oks \<Longrightarrow> side_uses (ts @ us) (oks @ ps) = side_uses ts oks + side_uses us ps"
  by (simp add: side_uses_def)

lemma side_uses_simps [simp]: "side_uses [] oks = 0" "side_uses [t] [ok] = uses t ok"
  by (simp_all add: side_uses_def)

lemma drop_nth_length [simp]: "n < length xs \<Longrightarrow> length (drop_nth n xs) = length xs - 1"
  by (simp add: drop_nth_def)

lemma side_uses_drop:
  assumes "length ts = length oks" and "n < length ts"
  shows "side_uses (drop_nth n ts) (drop_nth n oks) + uses (ts ! n) (oks ! n) = side_uses ts oks"
proof -
  have ts: "ts = take n ts @ ts ! n # drop (n + 1) ts" and oks: "oks = take n oks @ oks ! n # drop (n + 1) oks"
    using assms by (simp_all add: id_take_nth_drop)
  have "side_uses ts oks = side_uses (take n ts @ [ts ! n] @ drop (n + 1) ts) (take n oks @ [oks ! n] @ drop (n + 1) oks)"
    using ts oks by simp
  also have "\<dots> = side_uses (drop_nth n ts) (drop_nth n oks) + uses (ts ! n) (oks ! n)"
    using assms by (simp add: drop_nth_def side_uses_def)
  finally show ?thesis by simp
qed

text \<open>What a part of a step leaves after a task that held \<open>n\<close> uses.\<close>

definition follows :: "nat \<Rightarrow> ws_task option \<Rightarrow> bool" where
  "follows n k \<longleftrightarrow> (case k of Some (Beginning u) \<Rightarrow> n = 0 | Some (Operating u c) \<Rightarrow> n = 1 | Some (Ending u out) \<Rightarrow> n = 1 | _ \<Rightarrow> True)"

lemma fail_closed_follows: "fail_closed f s = (k, t) \<Longrightarrow> follows n k"
  by (auto simp: fail_closed_def release_once_def follows_def split: if_splits)

lemma frame_turn_follows: "frame_turn r c s = (k, t) \<Longrightarrow> follows 0 k"
  by (auto simp: frame_turn_def run_use_def follows_def split: option.splits if_splits prod.splits bool.splits
      dest: fail_closed_task)

lemma settle_follows: "settle_task x r k1 s = (k, t) \<Longrightarrow> settles_as k1 ok r \<Longrightarrow> follows (uses k1 ok) k"
proof (induction x r k1 s rule: settle_task.induct)
  case (1 x r u s)
  then show ?case
    by (cases "r = Resolved")
      (auto simp: start_operation_def follows_def Let_def dest!: fail_closed_task split: ws_use.splits if_splits option.splits)
next
  case (2 x r u c s)
  then show ?case by (auto simp: end_operation_def follows_def Let_def)
next
  case (3 x r u out s)
  then show ?case
    by (auto simp: use_ended_def after_use_def Let_def follows_def [of _ None] dest: fail_closed_follows frame_turn_follows
        split: use_outcome.splits ws_use.splits if_splits)
next
  case (4 x r why s)
  then show ?case by (auto simp: follows_def)
next
  case (5 x r s)
  then show ?case by (auto simp: complete_settled_def follows_def [of _ None] dest: fail_closed_follows split: if_splits)
qed

lemma start_job_follows: "start_job parse j s = (k, t) \<Longrightarrow> follows 0 k"
  by (cases j) (auto simp: start_text_def start_closing_def release_once_def run_use_def complete_ws_def follows_def Let_def
      split: if_splits sum.splits ws_message.splits option.splits dest!: fail_closed_task)

section \<open>One move, one place\<close>

text \<open>\<open>k\<close> is what the move left at the place it touched, where \<open>n\<close> uses were under way before.\<close>

definition one_place :: "socket_side \<Rightarrow> ws_move \<Rightarrow> ws_channel \<Rightarrow> bool" where
  "one_place x m s' \<longleftrightarrow> (\<exists>k es n. calls (ss_channel x) k s' es \<and> follows n k \<and> n \<le> outstanding x
     \<and> (n = 0 \<longrightarrow> hands_nothing (ss_channel x) s') \<and> wc_binding s' = wc_binding (ss_channel x)
     \<and> (\<forall>ok. outstanding (channel_moved x m ok s') + n = outstanding x + uses_at k ok
          \<and> length (ss_side_ok (channel_moved x m ok s')) = length (wc_side s')))"

lemma settle_part_hands:
  assumes "settle_task r x k1 s = (k, t)" and "settles_as k1 ok x" and "uses k1 ok = 0"
  shows "hands_nothing s t"
proof (cases "\<exists>u. k1 = Beginning u")
  case True
  then obtain u where "k1 = Beginning u" ..
  then show ?thesis using assms by (auto intro: fail_closed_hands split: if_splits)
qed (use assms(1) in \<open>auto intro: settle_hands\<close>)

lemma in_queue:
  assumes "calls (ss_channel x) k s' es" and "follows n k" and "n = uses_at (wc_job (ss_channel x)) (ss_job_ok x)"
    and "n = 0 \<longrightarrow> hands_nothing (ss_channel x) s'" and "wc_binding s' = wc_binding (ss_channel x)"
    and "wc_job (ss_channel x) = None \<or> is_settle_at In_queue m" and "wc_job s' = k"
    and "wc_loop s' = wc_loop (ss_channel x)" and "wc_side s' = wc_side (ss_channel x)"
    and "\<And>n r v. m \<noteq> M_settle (On_side n) r v" and "\<not> is_settle_at In_loop m"
    and "length (ss_side_ok x) = length (wc_side (ss_channel x))"
  shows "one_place x m s'"
proof -
  have side: "side_left m (ss_side_ok x) = ss_side_ok x" using assms(10) by (cases m; simp) (metis side_left.simps ws_place.exhaust)
  have "outstanding (channel_moved x m ok s') + n = outstanding x + uses_at k ok" for ok
    using assms(3,6-9,11,12) side by (cases "wc_loop (ss_channel x)") (auto simp: outstanding_def channel_moved_def)
  moreover have "n \<le> outstanding x" using assms(3) by (simp add: outstanding_def)
  ultimately show ?thesis
    using assms side unfolding one_place_def
    by (intro exI [of _ k] exI [of _ es] exI [of _ n]) (simp add: channel_moved_def)
qed

lemma in_loop:
  assumes "calls (ss_channel x) k s' es" and "follows n k" and "n = uses_at (wc_loop (ss_channel x)) (ss_loop_ok x)"
    and "n = 0 \<longrightarrow> hands_nothing (ss_channel x) s'" and "wc_binding s' = wc_binding (ss_channel x)"
    and "wc_loop (ss_channel x) = None \<or> is_settle_at In_loop m" and "wc_loop s' = k"
    and "wc_job s' = wc_job (ss_channel x)" and "wc_side s' = wc_side (ss_channel x)"
    and "\<And>n r v. m \<noteq> M_settle (On_side n) r v" and "\<not> is_settle_at In_queue m"
    and "length (ss_side_ok x) = length (wc_side (ss_channel x))"
  shows "one_place x m s'"
proof -
  have side: "side_left m (ss_side_ok x) = ss_side_ok x" using assms(10) by (cases m; simp) (metis side_left.simps ws_place.exhaust)
  have "outstanding (channel_moved x m ok s') + n = outstanding x + uses_at k ok" for ok
    using assms(3,6-9,11,12) side by (cases "wc_job (ss_channel x)") (auto simp: outstanding_def channel_moved_def)
  moreover have "n \<le> outstanding x" using assms(3) by (simp add: outstanding_def)
  ultimately show ?thesis
    using assms side unfolding one_place_def
    by (intro exI [of _ k] exI [of _ es] exI [of _ n]) (simp add: channel_moved_def)
qed

lemma on_the_side:
  assumes "calls (ss_channel x) k s' es" and "follows n k"
    and "side_uses (side_left m (wc_side (ss_channel x))) (side_left m (ss_side_ok x)) + n
      = side_uses (wc_side (ss_channel x)) (ss_side_ok x)"
    and "n = 0 \<longrightarrow> hands_nothing (ss_channel x) s'" and "wc_binding s' = wc_binding (ss_channel x)"
    and "wc_side s' = side_left m (wc_side (ss_channel x)) @ (case k of None \<Rightarrow> [] | Some t \<Rightarrow> [t])"
    and "wc_job s' = wc_job (ss_channel x)" and "wc_loop s' = wc_loop (ss_channel x)"
    and "\<not> is_settle_at In_queue m" and "\<not> is_settle_at In_loop m"
    and "length (side_left m (ss_side_ok x)) = length (side_left m (wc_side (ss_channel x)))"
  shows "one_place x m s'"
proof -
  have "outstanding (channel_moved x m ok s') + n = outstanding x + uses_at k ok" for ok
    using assms(3,6-11)
    by (cases "wc_job (ss_channel x)"; cases "wc_loop (ss_channel x)"; cases k) (auto simp: outstanding_def channel_moved_def)
  moreover have "length (ss_side_ok (channel_moved x m ok s')) = length (wc_side s')" for ok
    using assms(6,11) by (cases k) (simp_all add: channel_moved_def)
  moreover have "n \<le> outstanding x" using assms(3) by (simp add: outstanding_def)
  ultimately show ?thesis
    using assms(1,2,4,5) unfolding one_place_def by blast
qed

lemma quiet_binding: "ws_quiet s t \<Longrightarrow> wc_binding t = wc_binding s \<and> wc_job t = wc_job s \<and> wc_loop t = wc_loop s \<and> wc_side t = wc_side s"
  by (simp add: ws_quiet_def)

lemma no_settle [simp]: "\<not> is_settle m \<Longrightarrow> side_left m ys = ys" "\<not> is_settle m \<Longrightarrow> \<not> is_settle_at p m"
  by (cases m; simp add: is_settle_def)+

lemma nothing_called:
  assumes "leases_of (wc_log s') = leases_of (wc_log (ss_channel x))" and "hands_nothing (ss_channel x) s'"
    and "wc_binding s' = wc_binding (ss_channel x)" and "wc_job s' = wc_job (ss_channel x)"
    and "wc_loop s' = wc_loop (ss_channel x)" and "wc_side s' = wc_side (ss_channel x)" and "\<not> is_settle m"
    and "length (ss_side_ok x) = length (wc_side (ss_channel x))"
  shows "one_place x m s'"
proof -
  show ?thesis
    by (rule on_the_side [where k = None and es = "[]" and n = 0])
      (use assms in \<open>simp_all add: calls_def follows_def\<close>)
qed

text \<open>A frame that cannot be sent fails the channel outside the queue; one that can starts the loop.\<close>

lemma fails_on_side:
  assumes "leases_of (wc_log u) = leases_of (wc_log (ss_channel x))"
    and "hands_nothing (ss_channel x) u" and "wc_binding u = wc_binding (ss_channel x)"
    and "wc_job u = wc_job (ss_channel x)" and "wc_loop u = wc_loop (ss_channel x)" and "wc_side u = wc_side (ss_channel x)"
    and "\<not> is_settle m" and "length (ss_side_ok x) = length (wc_side (ss_channel x))"
  shows "one_place x m (on_side (fail_closed f u))"
proof -
  obtain k t where part: "fail_closed f u = (k, t)" by fastforce
  obtain es where es: "calls (ss_channel x) k t es" using fail_closed_calls_from [OF part assms(1)] by blast
  then have "calls (ss_channel x) k (on_side (k, t)) es" by (simp add: calls_def on_side_cases)
  moreover have "hands_nothing (ss_channel x) t"
    using fail_closed_hands [OF part] assms(2) by (simp add: hands_nothing_def)
  ultimately show ?thesis
    using fail_closed_follows [OF part, of 0] quiet_binding [OF fail_closed_quiet [OF part]] assms(3-8) part
    by (intro on_the_side [where k = k and es = es and n = 0]) (simp_all add: on_side_cases hands_nothing_def)
qed

lemma turns_the_loop:
  assumes "leases_of (wc_log u) = leases_of (wc_log (ss_channel x))"
    and "hands_nothing (ss_channel x) u" and "wc_binding u = wc_binding (ss_channel x)"
    and "wc_job u = wc_job (ss_channel x)" and "wc_side u = wc_side (ss_channel x)" and "wc_loop (ss_channel x) = None"
    and "\<not> is_settle m" and "length (ss_side_ok x) = length (wc_side (ss_channel x))"
  shows "one_place x m (on_loop (frame_turn r c u))"
proof -
  obtain k t where part: "frame_turn r c u = (k, t)" by fastforce
  obtain es where es: "calls (ss_channel x) k t es" using frame_turn_calls_from [OF part assms(1)] by blast
  then have "calls (ss_channel x) k (on_loop (k, t)) es" by (simp add: calls_def)
  moreover have "hands_nothing (ss_channel x) t"
    using frame_turn_hands [OF part] assms(2) by (simp add: hands_nothing_def)
  ultimately show ?thesis
    using frame_turn_follows [OF part] quiet_binding [OF frame_turn_quiet [OF part]] assms(3-8) part
    by (intro in_loop [where k = k and es = es and n = 0]) (auto simp: hands_nothing_def is_settle_def)
qed

lemma on_the_side_settle:
  assumes agree: "settles_as (wc_side s ! n) (ss_side_ok x ! n) r" and x: "ss_channel x = s"
    and n: "n < length (wc_side s)" and len: "length (ss_side_ok x) = length (wc_side s)"
  shows "one_place x (M_settle (On_side n) r v) (ws_step parse s (M_settle (On_side n) r v))"
proof -
  let ?k1 = "wc_side s ! n" and ?u = "s\<lparr>wc_side := drop_nth n (wc_side s)\<rparr>"
  obtain k t where settle: "settle_task v r ?k1 ?u = (k, t)" by fastforce
  have step: "ws_step parse s (M_settle (On_side n) r v) = on_side (k, t)"
    using n settle by (simp add: drop_nth_def)
  obtain es where es: "calls ?u k t es" using settle_calls [OF settle] by blast
  have "hands_nothing s t" if "uses ?k1 (ss_side_ok x ! n) = 0"
    using settle_part_hands [OF settle agree that] by (simp add: hands_nothing_def)
  moreover have "calls s k (on_side (k, t)) es" using es by (simp add: calls_def on_side_cases)
  ultimately show ?thesis
    unfolding step
    using settle_follows [OF settle agree] quiet_binding [OF settle_quiet [OF settle]] x n len
      side_uses_drop [of "wc_side s" "ss_side_ok x" n]
    by (intro on_the_side [where k = k and es = es and n = "uses ?k1 (ss_side_ok x ! n)"]) (simp_all add: on_side_cases hands_nothing_def)
qed

lemma read_leases: "is_ws_backpressured r s = (b, t) \<Longrightarrow> leases_of (wc_log t) = leases_of (wc_log s) \<and> hands_nothing s t
    \<and> wc_binding t = wc_binding s \<and> wc_job t = wc_job s \<and> wc_loop t = wc_loop s \<and> wc_side t = wc_side s"
  by (simp add: hands_nothing_def)

lemma push_one_place:
  assumes "length (ss_side_ok x) = length (wc_side (ss_channel x))" and m: "\<not> is_settle m"
  shows "one_place x m (push_frame r1 r2 f (ss_channel x))"
proof -
  let ?s = "ss_channel x"
  note still = nothing_called [OF _ _ _ _ _ _ m assms(1)]
  show ?thesis
  proof (cases "wc_state ?s \<noteq> Ws_open")
    case True
    then show ?thesis by (simp add: push_frame_def still)
  next
    case opened: False
    show ?thesis
    proof (cases "ws_frame_ok ?s f")
      case False
      then show ?thesis
        using opened fails_on_side [OF _ _ _ _ _ _ m assms(1), of ?s Fail_frame_too_large] by (simp add: push_frame_def)
    next
      case True
      obtain b t where read: "(if wc_loop ?s \<noteq> None then (Some True, ?s) else is_ws_backpressured r1 ?s) = (b, t)" by fastforce
      then have t: "leases_of (wc_log t) = leases_of (wc_log ?s)" "hands_nothing ?s t" "wc_binding t = wc_binding ?s"
          "wc_job t = wc_job ?s" "wc_loop t = wc_loop ?s" "wc_side t = wc_side ?s"
        using read_leases [of r1 ?s b t] by (auto split: if_splits)
      have idle: "wc_loop ?s = None" if "b \<noteq> Some True" using read that by (auto split: if_splits)
      consider "b = None" | "b = Some True" | "b = Some False" by (cases b) auto
      then show ?thesis
      proof cases
        case 1
        then show ?thesis
          using opened True read t fails_on_side [OF t m assms(1), of Fail_transport] by (simp add: push_frame_def)
      next
        case 2
        then show ?thesis
          using opened True read t by (simp add: push_frame_def) (rule still; simp add: ws_small hands_nothing_def)
      next
        case 3
        let ?u = "t\<lparr>wc_dropped := wc_dropped t + (if wc_pending t = None then 0 else 1), wc_pending := None\<rparr>"
        have "one_place x m (on_loop (frame_turn r2 (Some f) ?u))"
          using turns_the_loop [OF _ _ _ _ _ idle m assms(1), of ?u r2 "Some f"] t 3 by (simp add: hands_nothing_def)
        then show ?thesis using opened True read 3 by (simp add: push_frame_def)
      qed
    qed
  qed
qed

lemma flush_one_place:
  assumes "length (ss_side_ok x) = length (wc_side (ss_channel x))" and m: "\<not> is_settle m"
  shows "one_place x m (flush_pending r1 r2 (ss_channel x))"
proof -
  let ?c = "ss_channel x" and ?s = "(ss_channel x)\<lparr>wc_timer := False\<rparr>"
  note still = nothing_called [OF _ _ _ _ _ _ m assms(1)]
  show ?thesis
  proof (cases "wc_pending ?s = None \<or> wc_state ?s \<noteq> Ws_open \<or> wc_loop ?s \<noteq> None")
    case True
    then have "flush_pending r1 r2 ?c = ?s" by (auto simp: flush_pending_def Let_def split: option.split)
    then show ?thesis by (simp add: still hands_nothing_def)
  next
    case False
    then obtain f where f: "wc_pending ?s = Some f" by auto
    obtain b t where read: "is_ws_backpressured r1 ?s = (b, t)" by fastforce
    then have t: "leases_of (wc_log t) = leases_of (wc_log ?c)" "hands_nothing ?c t" "wc_binding t = wc_binding ?c"
        "wc_job t = wc_job ?c" "wc_loop t = wc_loop ?c" "wc_side t = wc_side ?c"
      using read_leases [OF read] by (simp_all add: hands_nothing_def)
    consider "b = None" | "b = Some True" | "b = Some False" by (cases b) auto
    then show ?thesis
    proof cases
      case 1
      then show ?thesis
        using False f read fails_on_side [OF t m assms(1), of Fail_transport] by (simp add: flush_pending_def)
    next
      case 2
      have "one_place x m (schedule_drain t)" using t by (intro still) (simp_all add: ws_small)
      then show ?thesis using False f read 2 by (simp add: flush_pending_def)
    next
      case 3
      have "one_place x m (on_loop (frame_turn r2 (Some f) (t\<lparr>wc_pending := None\<rparr>)))"
        using turns_the_loop [OF _ _ _ _ _ _ m assms(1), of "t\<lparr>wc_pending := None\<rparr>" r2 "Some f"] t False
        by (simp add: hands_nothing_def)
      then show ?thesis using False f read 3 by (simp add: flush_pending_def)
    qed
  qed
qed

lemma next_one_place:
  assumes "length (ss_side_ok x) = length (wc_side (ss_channel x))"
  shows "one_place x M_next (ws_step parse (ss_channel x) M_next)"
proof (cases "wc_job (ss_channel x) = None \<and> wc_jobs (ss_channel x) \<noteq> []")
  case True
  let ?s = "ss_channel x"
  obtain j js where jobs: "wc_job ?s = None" "wc_jobs ?s = j # js" using True by (cases "wc_jobs ?s") auto
  obtain k t where start: "start_job parse j (?s\<lparr>wc_jobs := js\<rparr>) = (k, t)" by fastforce
  obtain es where es: "calls ?s k t es" using start_job_calls [OF start] by (auto simp: calls_def)
  have "wc_binding t = wc_binding ?s" "wc_loop t = wc_loop ?s" "wc_side t = wc_side ?s"
    using start_job_quiet [OF start] by (auto simp: ws_quiet_def job_taken_def release_inbound_def split: ws_job.splits)
  then show ?thesis
    unfolding next_step [OF jobs start]
    using es start_job_follows [OF start] start_job_hands [OF start] jobs assms
    by (intro in_queue [where k = k and es = es and n = 0]) (simp_all add: calls_def hands_nothing_def)
next
  case False
  then have "ws_step parse (ss_channel x) M_next = ss_channel x" by (auto split: option.splits list.splits)
  then show ?thesis using nothing_called [of "ss_channel x" x M_next] assms by (simp add: is_settle_def)
qed

lemma step_one_place:
  assumes agree: "agrees x m" and len: "length (ss_side_ok x) = length (wc_side (ss_channel x))"
  shows "one_place x m (ws_step parse (ss_channel x) m)"
proof -
  let ?s = "ss_channel x"
  note still = nothing_called [OF _ _ _ _ _ _ _ len]
  show ?thesis
  proof (cases m)
    case M_start
    show ?thesis
    proof (cases "wc_state ?s = Ws_open")
      case True
      then show ?thesis
        unfolding M_start
        by (intro on_the_side [where k = "Some (Beginning Use_ready)" and es = "[E_begin Use_ready]" and n = 0])
          (simp_all add: start_ws_def run_use_def calls_def emit_def on_side_cases hands_nothing_def follows_def len)
    qed (simp add: M_start start_ws_def still is_settle_def)
  next
    case (M_text raw)
    then show ?thesis
      by (auto simp: receive_text_def reserve_inbound_def enqueue_def Let_def is_settle_def hands_nothing_def
          intro!: still split: option.split)
  next
    case (M_frame f r1 r2)
    then show ?thesis using push_one_place [OF len] by (simp add: is_settle_def)
  next
    case M_disconnect
    then show ?thesis by (simp add: disconnect_ws_def enqueue_def is_settle_def hands_nothing_def still)
  next
    case M_revoke
    then show ?thesis by (simp add: revoke_ws_def enqueue_def is_settle_def hands_nothing_def still)
  next
    case M_next
    then show ?thesis using next_one_place [OF len] by simp
  next
    case (M_timer r1 r2)
    show ?thesis
    proof (cases "wc_timer ?s")
      case True
      then show ?thesis using M_timer flush_one_place [OF len] by (simp add: is_settle_def)
    qed (simp add: M_timer still is_settle_def)
  next
    case (M_settle p r v)
    show ?thesis
    proof (cases "task_at ?s p")
      case None
      have "ws_step parse ?s m = ?s" using None M_settle by (cases p) (simp_all split: if_splits)
      moreover have "side_left m ys = ys" if "length ys = length (wc_side ?s)" for ys :: "ws_task list"
        using None M_settle that by (cases p) (simp_all split: if_splits)
      moreover have "side_left m ys = ys" if "length ys = length (wc_side ?s)" for ys :: "bool list"
        using None M_settle that by (cases p) (simp_all split: if_splits)
      ultimately show ?thesis
        using None M_settle len
        by (cases p)
          (auto intro: in_queue [where k = None and es = "[]" and n = 0] in_loop [where k = None and es = "[]" and n = 0]
            on_the_side [where k = None and es = "[]" and n = 0] simp: calls_def follows_def)
    next
      case (Some k1)
      have settles: "settles_as k1 (outcome_at x p) r" using agree Some M_settle by (simp add: agrees_def)
      show ?thesis
      proof (cases p)
        case (On_side n)
        then show ?thesis
          using Some settles M_settle on_the_side_settle [OF _ refl _ len] by (auto split: if_splits)
      next
        case In_queue
        obtain k t where settle: "settle_task v r k1 ?s = (k, t)" by fastforce
        obtain es where es: "calls ?s k t es" using settle_calls [OF settle] by blast
        have "wc_job ?s = Some k1" using Some In_queue by simp
        then show ?thesis
          using es settle In_queue M_settle settles settle_follows [OF settle] settle_part_hands [OF settle] len
            quiet_binding [OF settle_quiet [OF settle]]
          by (intro in_queue [where k = k and es = es and n = "uses k1 (ss_job_ok x)"]) (auto simp: calls_def hands_nothing_def)
      next
        case In_loop
        obtain k t where settle: "settle_task v r k1 ?s = (k, t)" by fastforce
        obtain es where es: "calls ?s k t es" using settle_calls [OF settle] by blast
        have "wc_loop ?s = Some k1" using Some In_loop by simp
        then show ?thesis
          using es settle In_loop M_settle settles settle_follows [OF settle] settle_part_hands [OF settle] len
            quiet_binding [OF settle_quiet [OF settle]]
          by (intro in_loop [where k = k and es = es and n = "uses k1 (ss_loop_ok x)"]) (auto simp: calls_def hands_nothing_def)
      qed
    qed
  qed
qed

section \<open>What the calls do to the authority\<close>

fun move_of_call :: "nat \<Rightarrow> ws_binding \<Rightarrow> int \<Rightarrow> int \<Rightarrow> ws_effect \<Rightarrow> socket_move" where
  "move_of_call i b t1 t2 (E_begin u) = So_begin i b t1 t2"
| "move_of_call i b t1 t2 (E_end u) = So_end i b t1 t2"
| "move_of_call i b t1 t2 E_complete = So_complete i b t1 t2"
| "move_of_call i b t1 t2 _ = So_release i b t1"

lemma lease_call_move:
  "i < length (sa_records a) \<Longrightarrow> is_lease_call e \<Longrightarrow> snd (lease_call hmac i b t1 t2 e a) = socket_step cfg hmac a (move_of_call i b t1 t2 e)"
  by (cases e) (simp_all split: prod.split)

lemma move_keeps_records: "sa_records (socket_step cfg hmac a (move_of_call i b t1 t2 e)) = sa_records a"
  by (rule step_maps [OF refl, THEN conjunct1]) (cases e; simp add: keeps_records_def)

lemma lease_calls_simps [simp]:
  "lease_calls hmac i b t1 t2 [] a = (True, a)" "lease_calls hmac i b t1 t2 [e] a = lease_call hmac i b t1 t2 e a"
  by (simp_all add: lease_calls_def)

lemma lease_begin_ok:
  assumes "lease_call hmac i b t1 t2 (E_begin u) a = (True, a')" and "k = sr_session (sa_records a ! i)"
    and "wb_generation b = num_of_int g"
  obtains q where "map_of (tw_records (sa_sessions a)) k = Some q" "tk_generation q = g" "sr_generation (sa_records a ! i) = Some g"
    "sa_sessions a' = (sa_sessions a)\<lparr>tw_records := AList.update k (q\<lparr>tk_in_flight := tk_in_flight q + 1, tk_last_seen := Some t2\<rparr>)
       (tw_records (sa_sessions a))\<rparr>"
proof -
  let ?r = "sa_records a ! i"
  have holds: "record_holds ?r b" using assms(1) by (auto simp: lease_begin_def Let_def split: if_splits prod.splits)
  obtain x m where begun: "begin_bound_use (sr_session ?r) (sr_principal ?r) (wb_client b) (wb_generation b) t1 t2
      (tw_records (sa_sessions a)) = (x, m)" by fastforce
  have "\<not> isl x" and a': "a' = set_sessions m a"
    using assms(1) holds begun by (auto simp: lease_begin_def Let_def split: sum.splits)
  then obtain q where "require_live k t1 (tw_records (sa_sessions a)) = Inr q" "tk_generation q = g"
      "m = AList.update k (q\<lparr>tk_in_flight := tk_in_flight q + 1, tk_last_seen := Some t2\<rparr>) (tw_records (sa_sessions a))"
    using begun assms(2,3) by (auto simp: begin_bound_use_def split: sum.splits if_splits)
  then show thesis
    using that holds a' assms(3) by (auto simp: record_holds_def dest: require_liveD split: option.splits)
qed

lemma end_use_flights:
  assumes "map_of (end_use i pb c g t1 t2 m) k = Some q'"
  obtains q where "map_of m k = Some q" "tk_generation q' = tk_generation q" "tk_client q' = tk_client q"
    "tk_in_flight q - 1 \<le> tk_in_flight q'"
proof -
  have "\<exists>q. map_of m k = Some q \<and> tk_generation q' = tk_generation q \<and> tk_client q' = tk_client q \<and> tk_in_flight q - 1 \<le> tk_in_flight q'"
    using assms by (auto simp: end_use_def update_conv' split: option.splits if_splits)
  then show thesis using that by blast
qed

section \<open>The count of uses\<close>

text \<open>As long as the session stands at the generation \<open>g\<close> of the socket, the manager counts every use the channel has under
  way; at a later generation there is none.\<close>

definition side_shape :: "int \<Rightarrow> socket_side \<Rightarrow> bool" where
  "side_shape g x \<longleftrightarrow> authority_good (ss_auth x) \<and> ss_record x < length (sa_records (ss_auth x))
     \<and> wb_generation (wc_binding (ss_channel x)) = num_of_int g
     \<and> length (ss_side_ok x) = length (wc_side (ss_channel x))"

definition counted :: "int \<Rightarrow> string \<Rightarrow> nat \<Rightarrow> takeover \<Rightarrow> bool" where
  "counted g cb n q \<longleftrightarrow> tk_generation q = g \<and> tk_client q = Some cb \<and> n \<le> tk_in_flight q \<or> g < tk_generation q \<and> n = 0"

definition side_sound :: "int \<Rightarrow> string \<Rightarrow> socket_side \<Rightarrow> bool" where
  "side_sound g cb x \<longleftrightarrow> side_shape g x \<and> wb_client (wc_binding (ss_channel x)) = cb
     \<and> (\<exists>g'. sr_generation (sa_records (ss_auth x) ! ss_record x) = Some g' \<and> g \<le> g')
     \<and> (\<forall>q. map_of (tw_records (sa_sessions (ss_auth x))) (sr_session (sa_records (ss_auth x) ! ss_record x)) = Some q
          \<longrightarrow> counted g cb (outstanding x) q)"

lemma counted_le: "counted g cb n q \<Longrightarrow> flight_le cb q q' \<Longrightarrow> p \<le> n \<Longrightarrow> counted g cb p q'"
  by (auto simp: counted_def flight_le_def)

text \<open>The record of the lease keeps its session and its generation does not fall.\<close>

lemma shape_world:
  assumes "side_shape g x"
  shows "side_shape g (x\<lparr>ss_auth := socket_step cfg hmac (ss_auth x) m\<rparr>)"
    and "socket_le (sa_records (ss_auth x) ! ss_record x) (sa_records (socket_step cfg hmac (ss_auth x) m) ! ss_record x)"
    and "sr_session (sa_records (ss_auth x) ! ss_record x) \<in> set (tw_used (sa_sessions (ss_auth x)))"
proof -
  have good: "authority_good (ss_auth x)" and i: "ss_record x < length (sa_records (ss_auth x))"
    using assms by (simp_all add: side_shape_def)
  note kept = socket_step_keeps [OF good, of cfg hmac m]
  show "side_shape g (x\<lparr>ss_auth := socket_step cfg hmac (ss_auth x) m\<rparr>)"
    using kept assms by (simp add: side_shape_def records_le_def)
  show "socket_le (sa_records (ss_auth x) ! ss_record x) (sa_records (socket_step cfg hmac (ss_auth x) m) ! ss_record x)"
    using kept i by (simp add: records_le_def)
  show "sr_session (sa_records (ss_auth x) ! ss_record x) \<in> set (tw_used (sa_sessions (ss_auth x)))"
    using good i by (simp add: authority_good_def list_all_length socket_good_def)
qed

lemma outstanding_auth [simp]: "outstanding (x\<lparr>ss_auth := a\<rparr>) = outstanding x"
  by (simp add: outstanding_def)

lemma side_sound_world:
  assumes "side_sound g cb x" and "\<not> ends_socket cb m"
  shows "side_sound g cb (x\<lparr>ss_auth := socket_step cfg hmac (ss_auth x) m\<rparr>)"
proof -
  have shape: "side_shape g x" using assms(1) by (simp add: side_sound_def)
  let ?a = "ss_auth x" and ?a' = "socket_step cfg hmac (ss_auth x) m"
  let ?k = "sr_session (sa_records ?a ! ss_record x)"
  note world = shape_world(1,2) [OF shape, of cfg hmac m] shape_world(3) [OF shape]
  have le: "sr_session (sa_records ?a' ! ss_record x) = ?k" using world(2) by (simp add: socket_le_def)
  obtain g' where "sr_generation (sa_records ?a ! ss_record x) = Some g'" "g \<le> g'" using assms(1) by (auto simp: side_sound_def)
  then have gen: "\<exists>g''. sr_generation (sa_records ?a' ! ss_record x) = Some g'' \<and> g \<le> g''"
    using world(2) by (force simp: socket_le_def)
  have "counted g cb (outstanding x) q'" if q': "map_of (tw_records (sa_sessions ?a')) ?k = Some q'" for q'
  proof -
    have "flights cb (tw_records (sa_sessions ?a)) (tw_records (sa_sessions ?a')) ?k"
      by (rule flights_socket_step) (use shape world(3) assms(2) in \<open>simp_all add: side_shape_def\<close>)
    then obtain q where "map_of (tw_records (sa_sessions ?a)) ?k = Some q" "flight_le cb q q'" using q' by (auto simp: flights_def)
    then show ?thesis using assms(1) counted_le [OF _ _ order_refl] by (auto simp: side_sound_def)
  qed
  then show ?thesis using world(1) le gen assms(1) by (simp add: side_sound_def)
qed

text \<open>A move of the channel makes at most one call, told by the task it leaves.\<close>

definition call_of :: "ws_task option \<Rightarrow> ws_effect option" where
  "call_of k = (case k of Some (Beginning u) \<Rightarrow> Some (E_begin u) | Some (Ending u out) \<Rightarrow> Some (E_end u)
     | Some Completing \<Rightarrow> Some E_complete | Some (Releasing why) \<Rightarrow> Some E_release | _ \<Rightarrow> None)"

lemma calls_call_of: "calls s k t es \<Longrightarrow> es = (case call_of k of None \<Rightarrow> [] | Some e \<Rightarrow> [e])"
  by (auto simp: calls_def call_of_def split: option.splits ws_task.splits)

lemma call_of_lease: "call_of k = Some e \<Longrightarrow> is_lease_call e"
  by (auto simp: call_of_def split: option.splits ws_task.splits)

lemma channel_step_cases:
  assumes shape: "side_shape g x" and agree: "agrees x m" and y: "y = side_step parse cfg hmac x (Side_channel m t1 t2)"
  obtains k n ok where "follows n k" "n \<le> outstanding x" "n = 0 \<longrightarrow> hands_nothing (ss_channel x) (ss_channel y)"
    "wc_binding (ss_channel y) = wc_binding (ss_channel x)" "ss_record y = ss_record x"
    "outstanding y + n = outstanding x + uses_at k ok" "length (ss_side_ok y) = length (wc_side (ss_channel y))"
    "case call_of k of None \<Rightarrow> ss_auth y = ss_auth x
       | Some e \<Rightarrow> lease_call hmac (ss_record x) (wc_binding (ss_channel x)) t1 t2 e (ss_auth x) = (ok, ss_auth y)"
proof -
  let ?s = "ss_channel x" and ?s' = "ws_step parse (ss_channel x) m"
  have "one_place x m ?s'" using step_one_place [OF agree] shape by (simp add: side_shape_def)
  then obtain k es n where part: "calls ?s k ?s' es" "follows n k" "n \<le> outstanding x" "n = 0 \<longrightarrow> hands_nothing ?s ?s'" "wc_binding ?s' = wc_binding ?s"
      and all: "\<And>ok. outstanding (channel_moved x m ok ?s') + n = outstanding x + uses_at k ok"
        "\<And>ok. length (ss_side_ok (channel_moved x m ok ?s')) = length (wc_side ?s')"
    unfolding one_place_def by blast
  obtain ok a' where call: "lease_calls hmac (ss_record x) (wc_binding ?s) t1 t2 es (ss_auth x) = (ok, a')" by fastforce
  have es: "drop (length (leases_of (wc_log ?s))) (leases_of (wc_log ?s')) = es" using part(1) by (simp add: calls_def)
  have y': "y = (channel_moved x m ok ?s')\<lparr>ss_auth := a'\<rparr>" using y agree call es by (simp add: Let_def)
  have fields: "ss_channel y = ?s'" "ss_record y = ss_record x" "ss_auth y = a'" using y' by (simp_all add: channel_moved_def)
  have "outstanding y + n = outstanding x + uses_at k ok" "length (ss_side_ok y) = length (wc_side (ss_channel y))"
    using all y' fields by simp_all
  moreover have "case call_of k of None \<Rightarrow> ss_auth y = ss_auth x
      | Some e \<Rightarrow> lease_call hmac (ss_record x) (wc_binding ?s) t1 t2 e (ss_auth x) = (ok, ss_auth y)"
    using calls_call_of [OF part(1)] call fields by (simp split: option.splits)
  ultimately show thesis using that part fields by metis
qed

lemma side_sound_channel:
  assumes good: "side_sound g cb x" and agree: "agrees x m" and y_def: "y = side_step parse cfg hmac x (Side_channel m t1 t2)"
  shows "side_sound g cb y"
proof -
  have shape: "side_shape g x" using good by (simp add: side_sound_def)
  obtain k n ok where part: "follows n k" "wc_binding (ss_channel y) = wc_binding (ss_channel x)" "ss_record y = ss_record x"
      "outstanding y + n = outstanding x + uses_at k ok" "length (ss_side_ok y) = length (wc_side (ss_channel y))"
      "case call_of k of None \<Rightarrow> ss_auth y = ss_auth x
       | Some e \<Rightarrow> lease_call hmac (ss_record x) (wc_binding (ss_channel x)) t1 t2 e (ss_auth x) = (ok, ss_auth y)"
    using channel_step_cases [OF shape agree y_def] by metis
  let ?i = "ss_record x" and ?a = "ss_auth x" and ?b = "wc_binding (ss_channel x)"
  let ?k = "sr_session (sa_records ?a ! ?i)"
  have cb: "wb_client ?b = cb" and gen: "wb_generation ?b = num_of_int g" using good by (simp_all add: side_sound_def side_shape_def)
  have before: "counted g cb (outstanding x) q" if "map_of (tw_records (sa_sessions ?a)) ?k = Some q" for q
    using good that by (simp add: side_sound_def)
  have i: "?i < length (sa_records ?a)" and auth: "authority_good ?a" using shape by (simp_all add: side_shape_def)
  show ?thesis
  proof (cases "call_of k")
    case None
    then have "uses_at k ok \<le> n" using part(1)
      by (auto simp: call_of_def follows_def uses_at_def split: option.splits ws_task.splits)
    then have "outstanding y \<le> outstanding x" using part(4) by simp
    then show ?thesis
      using good part None before counted_le [OF _ flight_le_flags(1)]
      by (auto simp: side_sound_def side_shape_def)
  next
    case (Some e)
    note lease = call_of_lease [OF Some]
    have auth': "ss_auth y = socket_step cfg hmac ?a (move_of_call ?i ?b t1 t2 e)"
      using part(6) Some lease_call_move [OF i lease, of hmac ?b t1 t2 cfg] by simp
    have records: "sa_records (ss_auth y) = sa_records ?a" using auth' move_keeps_records by simp
    have "authority_good (ss_auth y)" unfolding auth' using socket_step_keeps [OF auth] by blast
    moreover have flights: "flights cb (tw_records (sa_sessions ?a)) (tw_records (sa_sessions (ss_auth y))) ?k" if "\<forall>u. e \<noteq> E_end u"
      unfolding auth' by (rule flights_socket_step [OF auth shape_world(3) [OF shape]]) (use that lease in \<open>cases e; simp\<close>)
    moreover have "counted g cb (outstanding y) q'" if q': "map_of (tw_records (sa_sessions (ss_auth y))) ?k = Some q'" for q'
    proof (cases e)
      case E_complete
      then have "outstanding y \<le> outstanding x" using part(4) Some by (auto simp: call_of_def split: option.splits ws_task.splits)
      then show ?thesis using q' flights before counted_le E_complete by (force simp: flights_def)
    next
      case E_release
      then have "outstanding y \<le> outstanding x" using part(4) Some by (auto simp: call_of_def split: option.splits ws_task.splits)
      then show ?thesis using q' flights before counted_le E_release by (force simp: flights_def)
    next
      case (E_begin u)
      then have k: "k = Some (Beginning u)" using Some by (auto simp: call_of_def split: option.splits ws_task.splits)
      then have n: "outstanding y = outstanding x + uses (Beginning u) ok" using part(1,4) by (simp add: follows_def)
      show ?thesis
      proof (cases ok)
        case True
        then have "lease_call hmac ?i ?b t1 t2 (E_begin u) ?a = (True, ss_auth y)"
          using part(6) Some E_begin by (simp del: lease_call.simps)
        then obtain q where "map_of (tw_records (sa_sessions ?a)) ?k = Some q" "tk_generation q = g"
            "q' = q\<lparr>tk_in_flight := tk_in_flight q + 1, tk_last_seen := Some t2\<rparr>"
          using q' gen by (elim lease_begin_ok [OF _ refl]) (auto simp: update_conv')
        then show ?thesis using before n True by (fastforce simp: counted_def)
      next
        case False
        then show ?thesis using q' flights before counted_le n E_begin by (force simp: flights_def)
      qed
    next
      case (E_end u)
      then obtain out where k: "k = Some (Ending u out)" using Some by (auto simp: call_of_def split: option.splits ws_task.splits)
      then have n: "outstanding y + 1 = outstanding x" using part(1,4) by (simp add: follows_def)
      obtain q where "map_of (tw_records (sa_sessions ?a)) ?k = Some q" "tk_generation q' = tk_generation q" "tk_client q' = tk_client q"
          "tk_in_flight q - 1 \<le> tk_in_flight q'"
        using q' part(6) Some E_end by (auto simp: lease_end_def Let_def elim!: end_use_flights dest!: sym [of "set_sessions _ _"])
      then show ?thesis using before n by (fastforce simp: counted_def)
    qed (use lease in simp_all)
    ultimately show ?thesis
      using good part records by (simp add: side_sound_def side_shape_def)
  qed
qed

text \<open>Once the record has moved past the generation of the socket, the channel has no use under way and gets none.\<close>

definition side_silent :: "int \<Rightarrow> socket_side \<Rightarrow> bool" where
  "side_silent g x \<longleftrightarrow> side_shape g x \<and> outstanding x = 0
     \<and> (\<exists>g'. sr_generation (sa_records (ss_auth x) ! ss_record x) = Some g' \<and> g < g')"

lemma silent_world:
  assumes "side_silent g x"
  shows "side_silent g (x\<lparr>ss_auth := socket_step cfg hmac (ss_auth x) m\<rparr>)"
proof -
  have shape: "side_shape g x" using assms by (simp add: side_silent_def)
  obtain g' where "sr_generation (sa_records (ss_auth x) ! ss_record x) = Some g'" "g < g'" using assms by (auto simp: side_silent_def)
  then have "\<exists>g''. sr_generation (sa_records (socket_step cfg hmac (ss_auth x) m) ! ss_record x) = Some g'' \<and> g < g''"
    using shape_world(2) [OF shape, of cfg hmac m] by (force simp: socket_le_def)
  then show ?thesis using shape_world(1) [OF shape, of cfg hmac m] assms by (simp add: side_silent_def)
qed

lemma silent_channel:
  assumes silent: "side_silent g x" and agree: "agrees x m" and y_def: "y = side_step parse cfg hmac x (Side_channel m t1 t2)"
  shows "side_silent g y \<and> hands_nothing (ss_channel x) (ss_channel y)"
proof -
  have shape: "side_shape g x" and zero: "outstanding x = 0" using silent by (simp_all add: side_silent_def)
  obtain g' where g': "sr_generation (sa_records (ss_auth x) ! ss_record x) = Some g'" "g < g'" using silent by (auto simp: side_silent_def)
  obtain k n ok where part: "follows n k" "n \<le> outstanding x" "n = 0 \<longrightarrow> hands_nothing (ss_channel x) (ss_channel y)"
      "wc_binding (ss_channel y) = wc_binding (ss_channel x)" "ss_record y = ss_record x"
      "outstanding y + n = outstanding x + uses_at k ok" "length (ss_side_ok y) = length (wc_side (ss_channel y))"
      "case call_of k of None \<Rightarrow> ss_auth y = ss_auth x
       | Some e \<Rightarrow> lease_call hmac (ss_record x) (wc_binding (ss_channel x)) t1 t2 e (ss_auth x) = (ok, ss_auth y)"
    by (rule channel_step_cases [OF shape agree y_def])
  have "\<not> record_holds (sa_records (ss_auth x) ! ss_record x) (wc_binding (ss_channel x))"
    using g' shape by (simp add: record_holds_def side_shape_def)
  then have refused: "\<not> ok" if "k = Some (Beginning u)" for u
    using part(8) that by (auto simp: call_of_def lease_begin_def Let_def)
  have n: "n = 0" using part(2) zero by simp
  have "uses_at k ok = 0"
  proof (cases k)
    case (Some task)
    then show ?thesis using part(1) refused n by (cases task) (simp_all add: follows_def)
  qed simp
  then have "n = 0" "outstanding y = 0" using part(6) zero n by simp_all
  moreover have "side_shape g y \<and> sa_records (ss_auth y) ! ss_record x = sa_records (ss_auth x) ! ss_record x"
  proof (cases "call_of k")
    case None
    then show ?thesis using part shape by (simp add: side_shape_def)
  next
    case (Some e)
    then have "ss_auth y = socket_step cfg hmac (ss_auth x) (move_of_call (ss_record x) (wc_binding (ss_channel x)) t1 t2 e)"
      using part(8) lease_call_move [OF _ call_of_lease [OF Some], of "ss_record x" "ss_auth x" hmac "wc_binding (ss_channel x)" t1 t2 cfg] shape
      by (simp add: side_shape_def)
    then show ?thesis
      using part shape move_keeps_records socket_step_keeps by (simp add: side_shape_def)
  qed
  ultimately show ?thesis using g' part by (simp add: side_silent_def)
qed

section \<open>Runs\<close>

definition others_end :: "string \<Rightarrow> side_move \<Rightarrow> bool" where
  "others_end cb m \<longleftrightarrow> (case m of Side_world w \<Rightarrow> ends_socket cb w | Side_channel c t1 t2 \<Rightarrow> False)"

lemma side_sound_step:
  assumes "side_sound g cb x" and "\<not> others_end cb m"
  shows "side_sound g cb (side_step parse cfg hmac x m)"
proof (cases m)
  case (Side_channel c t1 t2)
  show ?thesis
  proof (cases "agrees x c")
    case True
    show ?thesis unfolding Side_channel by (rule side_sound_channel [OF assms(1) True refl])
  qed (use Side_channel assms in simp)
next
  case (Side_world w)
  then show ?thesis using side_sound_world [OF assms(1)] assms(2) by (simp add: others_end_def)
qed

lemma side_sound_run: "side_sound g cb x \<Longrightarrow> \<forall>m \<in> set ms. \<not> others_end cb m \<Longrightarrow> side_sound g cb (run (side_step parse cfg hmac) x ms)"
  by (induction ms arbitrary: x) (simp_all add: side_sound_step)

lemma silent_step:
  assumes "side_silent g x"
  shows "side_silent g (side_step parse cfg hmac x m) \<and> hands_nothing (ss_channel x) (ss_channel (side_step parse cfg hmac x m))"
proof (cases m)
  case (Side_channel c t1 t2)
  show ?thesis
  proof (cases "agrees x c")
    case True
    show ?thesis unfolding Side_channel by (rule silent_channel [OF assms True refl])
  qed (use Side_channel assms in simp)
next
  case (Side_world w)
  then show ?thesis using silent_world [OF assms] by simp
qed

text \<open>\<open>side_silent\<close> together with what has been handed over so far.\<close>

definition silent_since :: "int \<Rightarrow> ws_channel \<Rightarrow> socket_side \<Rightarrow> bool" where
  "silent_since g s x \<longleftrightarrow> side_silent g x \<and> hands_nothing s (ss_channel x)"

interpretation silent_side: guarded_machine "side_step parse cfg hmac" "silent_since g s" for parse cfg hmac g s
  using silent_step by unfold_locales (fastforce simp: silent_since_def hands_nothing_def)

lemma new_side_good:
  assumes good: "authority_good a" and acc: "accept_socket cfg hmac k ticket nb t1 t2 t3 t4 t5 a = (Inr s, a1)"
    and new: "new_side s ops a1 = Some x"
  obtains g where "side_sound g nb x" "sr_generation (sa_records a1 ! as_record s) = Some g" "ss_record x = as_record s"
proof -
  obtain gr m where ok: "as_record s < length (sa_records a)" "sr_session (sa_records a ! as_record s) = k"
      "socket_grant cfg hmac (sa_records a ! as_record s) nb t3 t4 t5 (tw_records (sa_sessions a)) = (Inr gr, m)"
      "wb_client (as_binding s) = tg_client gr" "wb_generation (as_binding s) = num_of_int (tg_generation gr)"
      "sa_sessions a1 = (sa_sessions a)\<lparr>tw_records := m\<rparr>"
      "sa_records a1 = (sa_records a)[as_record s := (sa_records a ! as_record s)\<lparr>sr_reconnect := Some (tg_reconnect gr),
         sr_client := Some (tg_client gr), sr_generation := Some (tg_generation gr)\<rparr>]"
    using acc by (auto elim!: accept_ok [OF _ good])
  note granted = socket_grant_ok(3,5) [OF good ok(1) refl ok(3) refl]
  have good1: "authority_good a1"
    using socket_step_keeps [OF good, of cfg hmac "So_accept k ticket nb t1 t2 t3 t4 t5"] acc by simp
  obtain c where c: "new_ws_channel (as_binding s) (as_policy s) ops = Some c"
    using new by (auto simp: new_side_def split: option.splits)
  then have x: "x = \<lparr>ss_auth = a1, ss_record = as_record s, ss_channel = c, ss_job_ok = True, ss_loop_ok = True, ss_side_ok = []\<rparr>"
    using new by (simp add: new_side_def)
  have "wc_binding c = as_binding s" "wc_job c = None" "wc_loop c = None" "wc_side c = []"
    using c by (auto simp: new_ws_channel_def split: option.splits bool.splits)
  then have "side_sound (tg_generation gr) nb x"
    using ok granted good1 x by (auto simp: side_sound_def side_shape_def counted_def outstanding_def)
  then show thesis using that ok(1,7) x by simp
qed

lemma side_run_good:
  assumes "a = run (socket_step cfg hmac) (new_socket_authority empty_world) ms"
    and "accept_socket cfg hmac k ticket nb t1 t2 t3 t4 t5 a = (Inr s, a1)" and "new_side s ops a1 = Some x"
  obtains g where "side_sound g nb x" "ss_record x = as_record s"
proof -
  have "authority_good a"
    using sockets.good_run [OF new_authority_good [OF world_good_empty]] assms(1) by blast
  from new_side_good [OF this assms(2,3)] show thesis using that by metis
qed

lemma record_kept: "ss_record (side_step parse cfg hmac x m) = ss_record x"
  by (cases m) (simp_all add: Let_def channel_moved_def split: prod.split)

lemma run_record_kept: "ss_record (run (side_step parse cfg hmac) x ms) = ss_record x"
  by (induction ms arbitrary: x) (simp_all add: record_kept)

lemma accept_silences:
  assumes good: "side_sound g cb x" and acc: "accept_socket cfg hmac k ticket nb t1 t2 t3 t4 t5 (ss_auth x) = (Inr s, a)"
    and i: "as_record s = ss_record x"
  shows "side_silent g (x\<lparr>ss_auth := a\<rparr>) \<and> outstanding x = 0"
proof -
  let ?r = "sa_records (ss_auth x) ! ss_record x"
  have shape: "side_shape g x" and auth: "authority_good (ss_auth x)" using good by (simp_all add: side_sound_def side_shape_def)
  obtain h where h: "sr_generation ?r = Some h" "g \<le> h" using good by (auto simp: side_sound_def)
  obtain gr m where ok: "ss_record x < length (sa_records (ss_auth x))" "sr_session ?r = k"
      "socket_grant cfg hmac ?r nb t3 t4 t5 (tw_records (sa_sessions (ss_auth x))) = (Inr gr, m)"
      "sa_records a = (sa_records (ss_auth x))[ss_record x := ?r\<lparr>sr_reconnect := Some (tg_reconnect gr),
         sr_client := Some (tg_client gr), sr_generation := Some (tg_generation gr)\<rparr>]"
    using acc i by (auto elim!: accept_ok [OF _ auth])
  have newer: "h < tg_generation gr" "\<exists>q. map_of (tw_records (sa_sessions (ss_auth x))) (sr_session ?r) = Some q \<and> tk_in_flight q = 0"
    using socket_grant_ok(4) [OF auth ok(1) refl ok(3) refl h(1)] by simp_all
  then obtain q where q: "map_of (tw_records (sa_sessions (ss_auth x))) (sr_session ?r) = Some q" "tk_in_flight q = 0" by blast
  then have "counted g cb (outstanding x) q" using good by (simp add: side_sound_def)
  then have zero: "outstanding x = 0" using q(2) by (auto simp: counted_def)
  have "side_shape g (x\<lparr>ss_auth := a\<rparr>)"
    using shape_world(1) [OF shape, of cfg hmac "So_accept k ticket nb t1 t2 t3 t4 t5"] acc by simp
  then show ?thesis using zero h newer(1) ok(1,4) by (simp add: side_silent_def)
qed

section \<open>A concrete socket\<close>

text \<open>A socket that has handed over one input, and a newer one that is accepted while it stands idle.\<close>

definition demo_session_record :: "string option \<Rightarrow> int \<Rightarrow> int option \<Rightarrow> nat \<Rightarrow> takeover" where
  "demo_session_record c g seen n = \<lparr>tk_id = demo_session, tk_intervention = ''i1'', tk_epoch = 2, tk_principal = ''p1'',
     tk_expires = 60001, tk_completion_expires = 120001, tk_revoked = False, tk_completed = False, tk_client = c,
     tk_generation = g, tk_last_seen = seen, tk_in_flight = n, tk_released = False\<rparr>"

definition demo_socket_record :: "string option \<Rightarrow> string option \<Rightarrow> int option \<Rightarrow> socket_record" where
  "demo_socket_record h c g = \<lparr>sr_session = demo_session, sr_principal = ''p1'', sr_expires = 60001,
     sr_policy = \<lparr>wp_tap = True, wp_scroll = True, wp_text = True, wp_key = True\<rparr>, sr_completion = sample_hmac [],
     sr_ticket = Some demo_ticket, sr_reconnect = h, sr_client = c, sr_generation = g\<rparr>"

definition demo_world :: "takeover \<Rightarrow> socket_record \<Rightarrow> socket_authority" where
  "demo_world q r = \<lparr>sa_sessions = \<lparr>tw_records = [(demo_session, q)], tw_used = [demo_session]\<rparr>, sa_records = [r],
     sa_by_id = [(demo_session, 0)], sa_by_ticket = [(demo_ticket, 0)]\<rparr>"

definition demo_open :: "int \<Rightarrow> nat \<Rightarrow> socket_authority" where
  "demo_open seen n = demo_world (demo_session_record (Some client_a) 1 (Some seen) n)
     (demo_socket_record (Some (sample_hmac [])) (Some client_a) (Some 1))"

definition demo_accepted :: accepted_socket where
  "demo_accepted = \<lparr>as_record = 0, as_binding = \<lparr>wb_intervention = ''i1'', wb_epoch = num_of_int 2, wb_principal = ''p1'',
       wb_client = client_a, wb_generation = num_of_int 1\<rparr>,
     as_policy = \<lparr>wp_tap = True, wp_scroll = True, wp_text = True, wp_key = True\<rparr>\<rparr>"

text \<open>The channel with a job, its outcome, the use under way, and what was logged; \<open>js\<close> are the jobs that wait.\<close>

definition demo_channel :: "ws_job list \<Rightarrow> ws_task option \<Rightarrow> ws_stage \<Rightarrow> ws_effect list \<Rightarrow> ws_channel" where
  "demo_channel js k st es = (the (new_ws_channel (as_binding demo_accepted) (as_policy demo_accepted) demo_ws_options))
     \<lparr>wc_jobs := js, wc_job := k, wc_stage := st, wc_log := es, wc_messages := int (length js), wc_bytes := int (length js),
      wc_max_messages := (if js = [] \<and> st = Stage_none then 0 else 1), wc_max_bytes := (if js = [] \<and> st = Stage_none then 0 else 1)\<rparr>"

definition demo_side :: "int \<Rightarrow> nat \<Rightarrow> ws_job list \<Rightarrow> ws_task option \<Rightarrow> ws_stage \<Rightarrow> ws_effect list \<Rightarrow> socket_side" where
  "demo_side seen n js k st es = \<lparr>ss_auth = demo_open seen n, ss_record = 0, ss_channel = demo_channel js k st es, ss_job_ok = True,
     ss_loop_ok = True, ss_side_ok = []\<rparr>"

abbreviation demo_input :: ws_use where
  "demo_input \<equiv> Use_input (Ws_text ''hi'')"

definition demo_side_moves :: "side_move list" where
  "demo_side_moves = [Side_channel (M_text ''t'') 5 5, Side_channel M_next 5 5, Side_channel (M_settle In_queue Resolved None) 5 5,
     Side_channel (M_settle In_queue Resolved None) 5 5, Side_channel (M_settle In_queue Resolved None) 5 5]"

lemma demo_issued:
  "run (socket_step sample_config sample_hmac) (new_socket_authority empty_world) (take 2 demo_socket_moves)
    = demo_world (demo_session_record None 0 None 0) (demo_socket_record None None None)"
  by (simp add: demo_socket_moves_def new_socket_authority_def empty_world_def takeover_step_def ensure_takeover_def prune_expired_def
      fresh_takeover_def demo_eval issue_ticket_def validate_input_policy_def policy_keys_def keys_exactly_def keys_within_def
      object_keys_def get_prop_def is_bool_def validate_locator_def issue_completion_capability_def completion_capability_for_def
      give_ticket_def drop_ticket_def demo_world_def demo_session_record_def demo_socket_record_def demo_hmac [of "_ @ _"]
      demo_hmac [of "completion_text _"] demo_hmac [of "capability_text _"])

lemma demo_accept:
  "accept_socket sample_config sample_hmac demo_session demo_ticket client_a 3 3 3 3 3
     (demo_world (demo_session_record None 0 None 0) (demo_socket_record None None None)) = (Inr demo_accepted, demo_open 3 0)"
  by (simp add: demo_eval demo_world_def demo_session_record_def demo_socket_record_def demo_open_def demo_accepted_def
      demo_hmac [of "reconnect_text _"])

lemma demo_made: "new_side demo_accepted demo_ws_options (demo_open 3 0) = Some (demo_side 3 0 [] None Stage_none [])"
  by code_simp

abbreviation demo_done :: socket_side where
  "demo_done \<equiv> demo_side 5 0 [] None Stage_applied [E_begin demo_input, E_input (Ws_text ''hi''), E_end demo_input,
     E_latency ''input_apply'' None]"

lemma demo_steps:
  "side_step demo_ws_parse sample_config sample_hmac (demo_side 3 0 [] None Stage_none []) (Side_channel (M_text ''t'') 5 5)
    = demo_side 3 0 [Job_text ''t'' 1] None Stage_none []"
  "side_step demo_ws_parse sample_config sample_hmac (demo_side 3 0 [Job_text ''t'' 1] None Stage_none []) (Side_channel M_next 5 5)
    = demo_side 5 1 [] (Some (Beginning demo_input)) Stage_received [E_begin demo_input]"
  "side_step demo_ws_parse sample_config sample_hmac (demo_side 5 1 [] (Some (Beginning demo_input)) Stage_received [E_begin demo_input])
      (Side_channel (M_settle In_queue Resolved None) 5 5)
    = demo_side 5 1 [] (Some (Operating demo_input True)) Stage_dispatch_started [E_begin demo_input, E_input (Ws_text ''hi'')]"
  "side_step demo_ws_parse sample_config sample_hmac (demo_side 5 1 [] (Some (Operating demo_input True)) Stage_dispatch_started
      [E_begin demo_input, E_input (Ws_text ''hi'')]) (Side_channel (M_settle In_queue Resolved None) 5 5)
    = demo_side 5 0 [] (Some (Ending demo_input Op_ok)) Stage_dispatch_completed
        [E_begin demo_input, E_input (Ws_text ''hi''), E_end demo_input]"
  "side_step demo_ws_parse sample_config sample_hmac (demo_side 5 0 [] (Some (Ending demo_input Op_ok)) Stage_dispatch_completed
      [E_begin demo_input, E_input (Ws_text ''hi''), E_end demo_input]) (Side_channel (M_settle In_queue Resolved None) 5 5) = demo_done"
  by code_simp+

lemma demo_side_run:
  "run (side_step demo_ws_parse sample_config sample_hmac) (demo_side 3 0 [] None Stage_none []) demo_side_moves = demo_done"
  by (simp only: demo_side_moves_def foldl_Cons foldl_Nil demo_steps)

lemma demo_newer:
  "\<exists>s. fst (accept_socket sample_config sample_hmac demo_session demo_ticket client_b 9000 9000 9000 9000 9000 (ss_auth demo_done)) = Inr s
    \<and> as_record s = 0"
  by (simp add: demo_eval demo_side_def demo_world_def demo_session_record_def demo_socket_record_def demo_open_def
      demo_hmac [of "reconnect_text _"])

section \<open>Properties\<close>

text \<open>C6. A newer socket silences an older one. A socket was accepted and its channel has run over its lease, interleaved in any way
  with whatever else happens to the authority and the sessions, except that nobody else ends uses in the name of its client
  binding. When a newer socket is accepted for the same record, the older channel has no use under way, and from then on, however
  the run goes on, it hands no input to the application and no frame to its peer.\<close>

theorem newer_socket_silences_older:
  assumes "a = run (socket_step cfg hmac) (new_socket_authority empty_world) ms"
    and "accept_socket cfg hmac k ticket nb t1 t2 t3 t4 t5 a = (Inr s, a1)" and "new_side s ops a1 = Some x0"
    and "x = run (side_step parse cfg hmac) x0 ns" and "\<forall>m \<in> set ns. \<not> others_end nb m"
    and "accept_socket cfg hmac k ticket' nb' u1 u2 u3 u4 u5 (ss_auth x) = (Inr s', a2)" and "as_record s' = as_record s"
    and "y = run (side_step parse cfg hmac) (x\<lparr>ss_auth := a2\<rparr>) ns'"
  shows "outstanding x = 0 \<and> inputs_of (wc_log (ss_channel y)) = inputs_of (wc_log (ss_channel x))
    \<and> frames_of (wc_log (ss_channel y)) = frames_of (wc_log (ss_channel x))"
proof -
  obtain g where start: "side_sound g nb x0" "ss_record x0 = as_record s" by (rule side_run_good [OF assms(1-3)])
  have good: "side_sound g nb x" using side_sound_run [OF start(1) assms(5)] assms(4) by simp
  have same: "ss_record x = ss_record x0" unfolding assms(4) by (rule run_record_kept)
  then obtain "side_silent g (x\<lparr>ss_auth := a2\<rparr>)" "outstanding x = 0"
    using accept_silences [OF good assms(6)] assms(7) start(2) by simp
  then have "silent_since g (ss_channel x) (x\<lparr>ss_auth := a2\<rparr>)" by (simp add: silent_since_def)
  then have "silent_since g (ss_channel x) y" unfolding assms(8) by (rule silent_side.good_run)
  then show ?thesis using \<open>outstanding x = 0\<close> by (simp add: silent_since_def hands_nothing_def)
qed

theorem newer_socket_silences_older_witness:
  "let a = run (socket_step sample_config sample_hmac) (new_socket_authority empty_world) (take 2 demo_socket_moves);
       a1 = snd (accept_socket sample_config sample_hmac demo_session demo_ticket client_a 3 3 3 3 3 a);
       x = run (side_step demo_ws_parse sample_config sample_hmac) (the (new_side demo_accepted demo_ws_options a1)) demo_side_moves;
       a2 = snd (accept_socket sample_config sample_hmac demo_session demo_ticket client_b 9000 9000 9000 9000 9000 (ss_auth x));
       y = run (side_step demo_ws_parse sample_config sample_hmac) (x\<lparr>ss_auth := a2\<rparr>)
         [Side_channel (M_text ''t'') 9001 9001, Side_channel M_next 9001 9001] in
   inputs_of (wc_log (ss_channel x)) = [Ws_text ''hi''] \<and> inputs_of (wc_log (ss_channel y)) = [Ws_text ''hi'']"
proof -
  let ?ns = "[Side_channel (M_text ''t'') 9001 9001, Side_channel M_next 9001 9001]"
  let ?r = "accept_socket sample_config sample_hmac demo_session demo_ticket client_b 9000 9000 9000 9000 9000 (ss_auth demo_done)"
  let ?y = "run (side_step demo_ws_parse sample_config sample_hmac) (demo_done\<lparr>ss_auth := snd ?r\<rparr>) ?ns"
  obtain s where s: "fst ?r = Inr s" "as_record s = 0" using demo_newer by blast
  have newer: "?r = (Inr s, snd ?r)" using s(1) by (metis prod.collapse)
  have alone: "\<forall>m \<in> set demo_side_moves. \<not> others_end client_a m" by (simp add: demo_side_moves_def others_end_def)
  have same: "as_record s = as_record demo_accepted" using s(2) by (simp add: demo_accepted_def)
  have late: "inputs_of (wc_log (ss_channel ?y)) = inputs_of (wc_log (ss_channel demo_done))"
    using newer_socket_silences_older [OF demo_issued [symmetric] demo_accept demo_made demo_side_run [symmetric] alone newer same refl]
    by blast
  have early: "inputs_of (wc_log (ss_channel demo_done)) = [Ws_text ''hi'']"
    by (simp add: demo_side_def demo_channel_def)
  show ?thesis
    unfolding Let_def demo_issued demo_accept snd_conv demo_made option.sel demo_side_run late early by (rule conjI [OF refl refl])
qed

end
