(* ===== verification/Host_Media.thy ===== *)
theory Host_Media
  imports Bytes Fencing
begin

text \<open>
  The media side of the Linux host program (\<open>src/browser-takeover/linux-webrtc-host-cli.ts\<close>): the parsers that cut the
  output of the encoder into JPEG pictures or H.264 access units, the records they are sent in, and the writer that keeps
  the latest record while the pipe is full. A parser that throws ends the program, so its result has no next state then.
\<close>

section \<open>Records\<close>

datatype media_error = Frame_bounds | Frame_metadata | Jpeg_bounds | Jpeg_invalid | Jpeg_metadata

definition max_host_frame :: nat where
  "max_host_frame = 8 * 1024 * 1024"

text \<open>\<open>avccFromNalUnits\<close>: every unit after its length.\<close>

definition avcc_from_nals :: "byte_list list \<Rightarrow> byte_list" where
  "avcc_from_nals us = concat (map (\<lambda>u. big_endian 4 (length u) @ u) us)"

definition picture_size_ok :: "jsnum \<Rightarrow> jsnum \<Rightarrow> bool" where
  "picture_size_ok w h \<longleftrightarrow> num_safe_integer w \<and> num_safe_integer h
     \<and> 1 \<le> num_to_int w \<and> num_to_int w \<le> 65535 \<and> 1 \<le> num_to_int h \<and> num_to_int h \<le> 65535"

definition host_record :: "nat \<Rightarrow> byte_list \<Rightarrow> byte_list" where
  "host_record t payload = t # big_endian 4 (length payload) @ payload"

text \<open>\<open>frameRecord\<close>; \<open>timestamp >>> 0\<close> keeps the low 32 bits.\<close>

definition frame_record :: "byte_list \<Rightarrow> jsnum \<Rightarrow> bool \<Rightarrow> jsnum \<Rightarrow> jsnum \<Rightarrow> media_error + byte_list" where
  "frame_record avcc timestamp keyframe w h =
     (if length avcc < 1 \<or> max_host_frame - 9 < length avcc then Inl Frame_bounds
      else if \<not> num_safe_integer timestamp \<or> num_to_int timestamp < 0 \<or> \<not> picture_size_ok w h then Inl Frame_metadata
      else Inr (host_record 1 (big_endian 4 (nat (num_to_int timestamp) mod 2 ^ 32) @ [if keyframe then 1 else 0]
        @ big_endian 2 (nat (num_to_int w)) @ big_endian 2 (nat (num_to_int h)) @ avcc)))"

definition editable_record :: "bool \<Rightarrow> byte_list" where
  "editable_record editable = host_record 2 [if editable then 1 else 0]"

definition jpeg_soi :: byte_list where
  "jpeg_soi = [0xff, 0xd8]"

definition jpeg_eoi :: byte_list where
  "jpeg_eoi = [0xff, 0xd9]"

definition jpeg_frame_record :: "byte_list \<Rightarrow> jsnum \<Rightarrow> jsnum \<Rightarrow> media_error + byte_list" where
  "jpeg_frame_record jpeg w h =
     (if length jpeg < 4 \<or> max_host_frame - 4 < length jpeg then Inl Jpeg_bounds
      else if take 2 jpeg \<noteq> jpeg_soi \<or> drop (length jpeg - 2) jpeg \<noteq> jpeg_eoi then Inl Jpeg_invalid
      else if \<not> picture_size_ok w h then Inl Jpeg_metadata
      else Inr (host_record 2 (big_endian 2 (nat (num_to_int w)) @ big_endian 2 (nat (num_to_int h)) @ jpeg)))"

section \<open>JPEG pictures\<close>

text \<open>\<open>JpegFrameParser.drain\<close>: the pictures found and what is kept, or \<open>None\<close> when it throws.\<close>

function jpeg_drain :: "byte_list \<Rightarrow> byte_list list \<times> byte_list option" where
  "jpeg_drain b = (case index_of jpeg_soi b of
     None \<Rightarrow> ([], Some (if 1 < length b then drop (length b - 1) b else b))
   | Some s \<Rightarrow> (case index_of jpeg_eoi (drop 2 (drop s b)) of
       None \<Rightarrow> (if max_host_frame < length (drop s b) then ([], None) else ([], Some (drop s b)))
     | Some e \<Rightarrow> (let n = 2 + e + 2 in
         if max_host_frame < length (take n (drop s b)) then ([], None)
         else (case jpeg_drain (drop n (drop s b)) of (js, r) \<Rightarrow> (take n (drop s b) # js, r)))))"
  by pat_completeness auto
termination
  by (relation "measure length") (auto simp: jpeg_soi_def dest!: index_of_bound)

declare jpeg_drain.simps [simp del]

text \<open>\<open>push\<close> and \<open>end\<close>; the state is what is kept.\<close>

definition jpeg_push :: "byte_list \<Rightarrow> byte_list \<Rightarrow> byte_list list \<times> byte_list option" where
  "jpeg_push chunk pending = (if chunk = [] then ([], Some pending) else jpeg_drain (pending @ chunk))"

definition jpeg_end :: "byte_list \<Rightarrow> byte_list list \<times> byte_list option" where
  "jpeg_end pending = (case jpeg_drain pending of (js, r) \<Rightarrow> (js, map_option (\<lambda>_. []) r))"

section \<open>H.264 access units\<close>

text \<open>\<open>startCodeAt\<close> (from offset 0) and \<open>startCodeLength\<close>.\<close>

fun code_here :: "byte_list \<Rightarrow> bool" where
  "code_here (a # b # c # ds) = (a = 0 \<and> b = 0 \<and> (c = 1 \<or> (c = 0 \<and> take 1 ds = [1])))"
| "code_here _ = False"

fun start_code :: "byte_list \<Rightarrow> nat option" where
  "start_code [] = None"
| "start_code (b # bs) = (if code_here (b # bs) then Some 0 else map_option Suc (start_code bs))"

definition start_code_length :: "byte_list \<Rightarrow> nat" where
  "start_code_length b = (if b ! 2 = 1 then 3 else 4)"

text \<open>The loop of \<open>drain\<close>: the NAL units it takes out and what stays pending.\<close>

function nal_loop :: "bool \<Rightarrow> byte_list \<Rightarrow> byte_list list \<times> byte_list" where
  "nal_loop flush b = (if start_code b \<noteq> Some 0 then ([], b)
     else (case start_code (drop (start_code_length b) b) of
         None \<Rightarrow> (if flush then ([drop (start_code_length b) b], []) else ([], b))
       | Some n \<Rightarrow> (case nal_loop flush (drop n (drop (start_code_length b) b)) of
           (ns, r) \<Rightarrow> (take n (drop (start_code_length b) b) # ns, r))))"
  by pat_completeness auto
termination
  by (relation "measure (length \<circ> snd)") (auto simp: start_code_length_def intro!: diff_less)

declare nal_loop.simps [simp del]

definition nal_drain :: "bool \<Rightarrow> byte_list \<Rightarrow> byte_list list \<times> byte_list option" where
  "nal_drain flush b = (case start_code b of
     None \<Rightarrow> ([], if max_host_frame < length b then None else Some b)
   | Some f \<Rightarrow> (case nal_loop flush (drop f b) of (ns, r) \<Rightarrow> (ns, Some r)))"

definition nal_type :: "byte_list \<Rightarrow> nat" where
  "nal_type u = u ! 0 mod 32"

text \<open>\<open>emitCurrent\<close> and \<open>acceptNal\<close>; \<open>None\<close>: it throws.\<close>

definition emit_current :: "byte_list list \<Rightarrow> (byte_list list \<times> bool) list" where
  "emit_current us = (if us = [] then [] else [(us, list_ex (\<lambda>u. nal_type u = 5) us)])"

definition accept_nal :: "byte_list \<Rightarrow> byte_list list \<Rightarrow> (byte_list list \<times> bool) list \<times> byte_list list option" where
  "accept_nal u us = (if length u < 1 then ([], Some us)
     else if nal_type u = 9 then (emit_current us, Some [])
     else if max_host_frame - 9 < sum_list (map (\<lambda>v. length v + 4) (us @ [u])) then ([], None)
     else ([], Some (us @ [u])))"

fun accept_nals :: "byte_list list \<Rightarrow> byte_list list \<Rightarrow> (byte_list list \<times> bool) list \<times> byte_list list option" where
  "accept_nals [] us = ([], Some us)"
| "accept_nals (n # ns) us = (case accept_nal n us of
     (es, None) \<Rightarrow> (es, None)
   | (es, Some us') \<Rightarrow> (es @ fst (accept_nals ns us'), snd (accept_nals ns us')))"

record annexb_parser =
  ab_pending :: byte_list
  ab_current :: "byte_list list"

definition annexb_drain :: "bool \<Rightarrow> annexb_parser \<Rightarrow> (byte_list list \<times> bool) list \<times> annexb_parser option" where
  "annexb_drain flush s = (case nal_drain flush (ab_pending s) of (ns, r) \<Rightarrow>
     (case accept_nals ns (ab_current s) of (es, c) \<Rightarrow>
       (es, case (r, c) of (Some p, Some us) \<Rightarrow> Some \<lparr>ab_pending = p, ab_current = us\<rparr> | _ \<Rightarrow> None)))"

definition annexb_push :: "byte_list \<Rightarrow> annexb_parser \<Rightarrow> (byte_list list \<times> bool) list \<times> annexb_parser option" where
  "annexb_push chunk s = (if chunk = [] then ([], Some s)
     else annexb_drain False (s\<lparr>ab_pending := ab_pending s @ chunk\<rparr>))"

definition annexb_end :: "annexb_parser \<Rightarrow> (byte_list list \<times> bool) list \<times> annexb_parser option" where
  "annexb_end s = (case annexb_drain True s of
     (es, None) \<Rightarrow> (es, None)
   | (es, Some t) \<Rightarrow> (es @ emit_current (ab_current t), Some \<lparr>ab_pending = [], ab_current = []\<rparr>))"

definition new_annexb :: annexb_parser where
  "new_annexb = \<lparr>ab_pending = [], ab_current = []\<rparr>"

section \<open>The latest record\<close>

text \<open>\<open>LatestFrameWriter\<close>. \<open>ok\<close> is what \<open>stdout.write\<close> answers: false when the pipe wants to be drained.\<close>

record 'a latest_writer =
  lw_blocked :: bool
  lw_frame :: "'a option"
  lw_control :: "'a option"
  lw_written :: "'a list"

definition submit_record :: "'a \<Rightarrow> bool \<Rightarrow> bool \<Rightarrow> 'a latest_writer \<Rightarrow> 'a latest_writer" where
  "submit_record r control ok s =
     (if lw_blocked s then (if control then s\<lparr>lw_control := Some r\<rparr> else s\<lparr>lw_frame := Some r\<rparr>)
      else s\<lparr>lw_written := lw_written s @ [r], lw_blocked := \<not> ok\<rparr>)"

definition writer_drain :: "bool \<Rightarrow> 'a latest_writer \<Rightarrow> 'a latest_writer" where
  "writer_drain ok s = (let t = s\<lparr>lw_blocked := False\<rparr> in
     case lw_control t of
       Some c \<Rightarrow> submit_record c True ok (t\<lparr>lw_control := None\<rparr>)
     | None \<Rightarrow> (case lw_frame t of
           Some f \<Rightarrow> submit_record f False ok (t\<lparr>lw_frame := None\<rparr>)
         | None \<Rightarrow> t))"

text \<open>A frame or a control record is submitted, or the pipe drains, which it tells only a blocked writer.\<close>

datatype 'a writer_move = Submit_frame 'a bool | Submit_control 'a bool | Pipe_drained bool

fun writer_step :: "'a latest_writer \<Rightarrow> 'a writer_move \<Rightarrow> 'a latest_writer" where
  "writer_step s (Submit_frame r ok) = submit_record r False ok s"
| "writer_step s (Submit_control r ok) = submit_record r True ok s"
| "writer_step s (Pipe_drained ok) = (if lw_blocked s then writer_drain ok s else s)"

definition new_writer :: "'a latest_writer" where
  "new_writer = \<lparr>lw_blocked = False, lw_frame = None, lw_control = None, lw_written = []\<rparr>"

section \<open>Pictures do not depend on the chunks\<close>

text \<open>What the loop does with bytes that begin with a picture.\<close>

definition jpeg_at :: "byte_list \<Rightarrow> byte_list list \<times> byte_list option" where
  "jpeg_at p = (case index_of jpeg_eoi (drop 2 p) of
       None \<Rightarrow> (if max_host_frame < length p then ([], None) else ([], Some p))
     | Some e \<Rightarrow> (let n = 2 + e + 2 in
         if max_host_frame < length (take n p) then ([], None)
         else (case jpeg_drain (drop n p) of (js, r) \<Rightarrow> (take n p # js, r))))"

lemma jpeg_drain_at: "jpeg_drain b = (case index_of jpeg_soi b of
     None \<Rightarrow> ([], Some (if 1 < length b then drop (length b - 1) b else b)) | Some s \<Rightarrow> jpeg_at (drop s b))"
  by (subst jpeg_drain.simps) (simp only: jpeg_at_def)

lemma jpeg_rest: "length xs = n \<Longrightarrow> 0 < n \<Longrightarrow> index_of jpeg_soi (xs @ [y]) = None \<Longrightarrow> jpeg_drain (xs @ y # c) = jpeg_drain (y # c)"
  using index_of_pair_last [of "0xff" "0xd8" xs y c]
  by (auto simp: jpeg_drain_at jpeg_soi_def drop_Cons' split: option.splits)

lemma jpeg_resumes: "jpeg_drain b = (js, Some r) \<Longrightarrow> jpeg_drain (b @ c) = (js @ fst (jpeg_drain (r @ c)), snd (jpeg_drain (r @ c)))"
proof (induction b arbitrary: js r rule: jpeg_drain.induct)
  case (1 b)
  show ?case
  proof (cases "index_of jpeg_soi b")
    case None
    then have r: "js = []" "r = (if 1 < length b then drop (length b - 1) b else b)" using 1(2) by (subst (asm) jpeg_drain.simps, simp)+
    show ?thesis
    proof (cases "1 < length b")
      case True
      then obtain xs y where b: "b = xs @ [y]" by (cases b rule: rev_cases) auto
      then have "r = [y]" "0 < length xs" using True r(2) by simp_all
      then show ?thesis using jpeg_rest [OF refl, of xs y c] None b r(1) by simp
    qed (use r in simp)
  next
    case (Some s)
    let ?p = "drop s b"
    have s: "s \<le> length b" using index_of_bound [OF Some] by simp
    then have cut: "drop s (b @ c) = ?p @ c" by simp
    have found: "index_of jpeg_soi (b @ c) = Some s" "index_of jpeg_soi (?p @ c) = Some 0"
      using Some by (simp_all add: index_of_append index_of_hd)
    have two: "2 \<le> length ?p" using index_of_bound [OF Some] by (simp add: jpeg_soi_def)
    have here: "jpeg_drain b = jpeg_at ?p" "jpeg_drain (b @ c) = jpeg_at (?p @ c)" "jpeg_drain (?p @ c) = jpeg_at (?p @ c)"
      using Some by (simp_all only: jpeg_drain_at found cut option.case drop_0)
    show ?thesis
    proof (cases "index_of jpeg_eoi (drop 2 ?p)")
      case None
      then have "js = []" "r = ?p" using 1(2) unfolding here(1) by (simp_all add: jpeg_at_def split: if_splits)
      then show ?thesis by (simp add: here(2,3))
    next
      case (Some e)
      let ?n = "2 + e + 2"
      have n: "?n \<le> length ?p" using index_of_bound [OF Some] two by (simp add: jpeg_eoi_def)
      have eoi: "index_of jpeg_eoi (drop 2 (?p @ c)) = Some e" using index_of_append [OF Some, of c] two by simp
      obtain js' where rest: "\<not> max_host_frame < length (take ?n ?p)" "jpeg_drain (drop ?n ?p) = (js', Some r)" "js = take ?n ?p # js'"
        using 1(2) Some unfolding here(1) by (simp add: jpeg_at_def Let_def split: if_splits prod.splits)
      have more: "jpeg_drain (drop ?n ?p @ c) = (js' @ fst (jpeg_drain (r @ c)), snd (jpeg_drain (r @ c)))"
        using 1(1) [OF \<open>index_of jpeg_soi b = Some s\<close> Some refl rest(1,2)] .
      have cuts: "take ?n (?p @ c) = take ?n ?p" "drop ?n (?p @ c) = drop ?n ?p @ c" using n by simp_all
      have "jpeg_at (?p @ c) = (take ?n ?p # js' @ fst (jpeg_drain (r @ c)), snd (jpeg_drain (r @ c)))"
        by (simp only: jpeg_at_def eoi option.case Let_def cuts if_not_P [OF rest(1)] more prod.case)
      then show ?thesis using rest(3) by (simp add: here(2))
    qed
  qed
qed

lemma jpeg_gives_up: "jpeg_drain b = (js, None) \<Longrightarrow> jpeg_drain (b @ c) = (js, None)"
proof (induction b arbitrary: js rule: jpeg_drain.induct)
  case (1 b)
  obtain s where s: "index_of jpeg_soi b = Some s" using 1(2) by (cases "index_of jpeg_soi b") (simp_all add: jpeg_drain_at)
  let ?p = "drop s b"
  have cut: "drop s (b @ c) = ?p @ c" using index_of_bound [OF s] by simp
  have two: "2 \<le> length ?p" using index_of_bound [OF s] by (simp add: jpeg_soi_def)
  have here: "jpeg_drain b = jpeg_at ?p" "jpeg_drain (b @ c) = jpeg_at (?p @ c)"
    using s by (simp_all only: jpeg_drain_at index_of_append [OF s] cut option.case)
  show ?case
  proof (cases "index_of jpeg_eoi (drop 2 ?p)")
    case None
    then have js: "js = []" "max_host_frame < length ?p" using 1(2) unfolding here(1) by (simp_all add: jpeg_at_def split: if_splits)
    have "max_host_frame < length (take (2 + e + 2) (?p @ c))" if "index_of jpeg_eoi (drop 2 (?p @ c)) = Some e" for e
      using that index_of_new [OF None, of c e] index_of_bound [of jpeg_eoi "drop 2 ?p @ c" e] two js(2) by (simp add: jpeg_eoi_def)
    then show ?thesis using js unfolding here(2) jpeg_at_def Let_def by (auto split: option.split)
  next
    case (Some e)
    let ?n = "2 + e + 2"
    have n: "?n \<le> length ?p" using index_of_bound [OF Some] two by (simp add: jpeg_eoi_def)
    have eoi: "index_of jpeg_eoi (drop 2 (?p @ c)) = Some e" using index_of_append [OF Some, of c] two by simp
    have cuts: "take ?n (?p @ c) = take ?n ?p" "drop ?n (?p @ c) = drop ?n ?p @ c" using n by simp_all
    show ?thesis
    proof (cases "max_host_frame < length (take ?n ?p)")
      case True
      then show ?thesis using 1(2) unfolding here by (simp only: jpeg_at_def eoi Some option.case Let_def cuts if_P)
    next
      case False
      then obtain js' where rest: "jpeg_drain (drop ?n ?p) = (js', None)" "js = take ?n ?p # js'"
        using 1(2) Some unfolding here(1) by (simp add: jpeg_at_def Let_def split: if_splits prod.splits)
      have more: "jpeg_drain (drop ?n ?p @ c) = (js', None)" using 1(1) [OF s Some refl False rest(1)] .
      show ?thesis
        by (simp only: here(2) jpeg_at_def eoi option.case Let_def cuts if_not_P [OF False] more prod.case rest(2))
    qed
  qed
qed

interpretation jpeg: stream_parser jpeg_drain "\<lambda>_. True"
  by unfold_locales (simp_all add: jpeg_resumes jpeg_gives_up)

section \<open>Start codes\<close>

lemma code_hereD: "code_here b \<Longrightarrow> 3 \<le> length b \<and> start_code_length b \<le> length b"
proof (induction b rule: code_here.induct)
  case (1 x y z ds)
  then show ?case by (cases ds) (auto simp: start_code_length_def)
qed simp_all

lemma code_here_append: "4 \<le> length b \<Longrightarrow> code_here (b @ c) = code_here b"
  by (cases b rule: code_here.cases) (auto simp: Suc_le_eq)

lemma code_here_longer: "code_here b \<Longrightarrow> code_here (b @ c)"
proof (induction b rule: code_here.induct)
  case (1 x y z ds)
  then show ?case by (cases ds) auto
qed simp_all

lemma code_here_take: "4 \<le> m \<Longrightarrow> code_here (take m b) = code_here b"
  using code_here_append [of "take m b" "drop m b"] by (cases "m \<le> length b") simp_all

lemma start_code_0: "start_code b = Some 0 \<longleftrightarrow> code_here b"
  by (cases b) auto

lemma start_code_bound: "start_code b = Some i \<Longrightarrow> i + 3 \<le> length b"
  by (induction b arbitrary: i) (auto dest: code_hereD split: if_splits)

lemma start_code_here: "start_code b = Some i \<Longrightarrow> code_here (drop i b)"
  by (induction b arbitrary: i) (auto split: if_splits)

lemma start_code_append: "start_code b = Some i \<Longrightarrow> start_code (b @ c) = Some i"
proof (induction b arbitrary: i)
  case (Cons x b)
  show ?case
  proof (cases "code_here (x # b)")
    case True
    then show ?thesis using Cons.prems code_here_longer [of "x # b" c] by simp
  next
    case False
    then obtain j where j: "start_code b = Some j" "i = Suc j" using Cons.prems by auto
    then have "4 \<le> length (x # b)" using start_code_bound [OF j(1)] by simp
    then show ?thesis using False j Cons.IH code_here_append [of "x # b" c] by simp
  qed
qed simp

lemma start_code_length_append: "code_here b \<Longrightarrow> start_code_length (b @ c) = start_code_length b"
  using code_hereD [of b] by (simp add: start_code_length_def nth_append)

section \<open>Units do not depend on the chunks\<close>

lemma nal_loop_resumes: "nal_loop False b = (ns, r) \<Longrightarrow> nal_loop False (b @ c) = (ns @ fst (nal_loop False (r @ c)), snd (nal_loop False (r @ c)))"
proof (induction False b arbitrary: ns r rule: nal_loop.induct)
  case (1 b)
  let ?q = "drop (start_code_length b) b"
  show ?case
  proof (cases "start_code b = Some 0 \<and> start_code ?q \<noteq> None")
    case False
    then have "ns = []" "r = b" using 1(2) by (auto simp: nal_loop.simps [of False b] split: if_splits option.splits)
    then show ?thesis by simp
  next
    case True
    then obtain n where n: "start_code b = Some 0" "start_code ?q = Some n" by auto
    have code: "code_here b" using n(1) by (simp add: start_code_0)
    then have cut: "start_code_length (b @ c) = start_code_length b" "drop (start_code_length b) (b @ c) = ?q @ c"
      using code_hereD by (simp_all add: start_code_length_append)
    have more: "start_code (b @ c) = Some 0" "start_code (?q @ c) = Some n" using n by (simp_all only: start_code_append)
    have bound: "n \<le> length ?q" using start_code_bound [OF n(2)] by simp
    obtain ns' where rest: "nal_loop False (drop n ?q) = (ns', r)" "ns = take n ?q # ns'"
      using 1(2) n by (auto simp: nal_loop.simps [of False b] split: prod.splits)
    have "nal_loop False (drop n ?q @ c) = (ns' @ fst (nal_loop False (r @ c)), snd (nal_loop False (r @ c)))"
      using 1(1) [OF _ n(2) rest(1)] n(1) by simp
    moreover have "take n (?q @ c) = take n ?q" "drop n (?q @ c) = drop n ?q @ c" using bound by simp_all
    ultimately show ?thesis
      by (simp only: nal_loop.simps [of False "b @ c"] more cut option.case prod.case rest(2)) simp
  qed
qed

lemma nal_loop_flush: "nal_loop False b = (ns, r) \<Longrightarrow> nal_loop True b = (ns @ fst (nal_loop True r), snd (nal_loop True r))"
proof (induction False b arbitrary: ns r rule: nal_loop.induct)
  case (1 b)
  let ?q = "drop (start_code_length b) b"
  show ?case
  proof (cases "start_code b = Some 0 \<and> start_code ?q \<noteq> None")
    case False
    then have "ns = []" "r = b" using 1(2) by (auto simp: nal_loop.simps [of False b] split: if_splits option.splits)
    then show ?thesis by simp
  next
    case True
    then obtain n where n: "start_code b = Some 0" "start_code ?q = Some n" by auto
    obtain ns' where rest: "nal_loop False (drop n ?q) = (ns', r)" "ns = take n ?q # ns'"
      using 1(2) n by (auto simp: nal_loop.simps [of False b] split: prod.splits)
    have "nal_loop True (drop n ?q) = (ns' @ fst (nal_loop True r), snd (nal_loop True r))"
      using 1(1) [OF _ n(2) rest(1)] n(1) by simp
    then show ?thesis using n rest(2) by (simp add: nal_loop.simps [of True b])
  qed
qed

lemma nal_loop_code: "code_here b \<Longrightarrow> nal_loop False b = (ns, r) \<Longrightarrow> code_here r"
proof (induction False b arbitrary: ns rule: nal_loop.induct)
  case (1 b)
  let ?q = "drop (start_code_length b) b"
  show ?case
  proof (cases "start_code ?q")
    case None
    then show ?thesis using 1(2,3) by (simp add: nal_loop.simps [of False b] start_code_0)
  next
    case (Some n)
    obtain ns' where rest: "nal_loop False (drop n ?q) = (ns', r)"
      using 1(2,3) Some by (auto simp: nal_loop.simps [of False b] start_code_0 split: prod.splits)
    show ?thesis using 1(1) [OF _ Some start_code_here [OF Some] rest] 1(2) by (simp add: start_code_0)
  qed
qed

text \<open>The bytes before the first start code stay within the bound.\<close>

definition junk_bounded :: "byte_list \<Rightarrow> bool" where
  "junk_bounded b \<longleftrightarrow> length b \<le> max_host_frame \<or> start_code (take max_host_frame b) \<noteq> None"

lemma junk_bounded_code: "code_here b \<Longrightarrow> junk_bounded (b @ c)"
proof -
  assume "code_here b"
  then have "code_here (take max_host_frame (b @ c))"
    by (subst code_here_take) (simp_all only: code_here_longer, simp add: max_host_frame_def)
  then have "start_code (take max_host_frame (b @ c)) = Some 0" by (simp only: start_code_0)
  then show ?thesis by (simp add: junk_bounded_def)
qed

interpretation annexb: stream_parser "nal_drain False" junk_bounded
proof unfold_locales
  fix b c es r
  show "junk_bounded b" if "junk_bounded (b @ c)"
    using that by (auto simp: junk_bounded_def)
  assume bounded: "junk_bounded (b @ c)"
  have rest: "code_here r" "nal_loop False (drop f b) = (es, r)" if "start_code b = Some f" "nal_drain False b = (es, Some r)" for f
    using that nal_loop_code [OF start_code_here [OF that(1)], of es r] by (auto simp: nal_drain_def split: prod.splits)
  show "junk_bounded (r @ c)" if "nal_drain False b = (es, Some r)"
    using that rest bounded by (cases "start_code b") (auto simp: nal_drain_def junk_bounded_code split: if_splits)
  show "nal_drain False (b @ c) = (es @ fst (nal_drain False (r @ c)), snd (nal_drain False (r @ c)))" if "nal_drain False b = (es, Some r)"
  proof (cases "start_code b")
    case None
    then show ?thesis using that by (auto simp: nal_drain_def split: if_splits)
  next
    case (Some f)
    have "f \<le> length b" using start_code_bound [OF Some] by simp
    then have "drop f (b @ c) = drop f b @ c" by simp
    moreover have "start_code (r @ c) = Some 0" using rest(1) [OF Some that] by (simp add: start_code_0 code_here_longer)
    ultimately show ?thesis
      using nal_loop_resumes [OF rest(2) [OF Some that], of c] start_code_append [OF Some, of c]
      by (cases "nal_loop False (r @ c)") (simp add: nal_drain_def)
  qed
  show "nal_drain False (b @ c) = (es, None)" if "nal_drain False b = (es, None)"
  proof -
    have "start_code b = None" "max_host_frame < length b" using that by (auto simp: nal_drain_def split: option.splits prod.splits if_splits)
    then have False using bounded start_code_append [of "take max_host_frame b" _ "drop max_host_frame b"]
      by (auto simp: junk_bounded_def)
    then show ?thesis ..
  qed
qed

section \<open>Access units\<close>

text \<open>
  What an encoder writes: units whose bytes never look like a start code and do not end in zero (the emulation prevention
  of H.264), each after a start code of three or four bytes, every access unit led by its delimiter.
\<close>

fun emulation_free :: "byte_list \<Rightarrow> bool" where
  "emulation_free [] \<longleftrightarrow> True"
| "emulation_free [a] \<longleftrightarrow> a \<noteq> 0"
| "emulation_free [a, b] \<longleftrightarrow> b \<noteq> 0"
| "emulation_free (a # b # c # ds) \<longleftrightarrow> \<not> (a = 0 \<and> b = 0 \<and> c \<le> 1) \<and> emulation_free (b # c # ds)"

definition coded_unit :: "bool \<times> byte_list \<Rightarrow> byte_list" where
  "coded_unit ku = (if fst ku then [0] else []) @ [0, 0, 1] @ snd ku"

type_synonym access_unit = "(bool \<times> byte_list) \<times> (bool \<times> byte_list) list"

definition units_of :: "access_unit list \<Rightarrow> (bool \<times> byte_list) list" where
  "units_of as = concat (map (\<lambda>(d, us). d # us) as)"

definition access_unit_ok :: "access_unit \<Rightarrow> bool" where
  "access_unit_ok a = (case a of (d, us) \<Rightarrow> snd d \<noteq> [] \<and> nal_type (snd d) = 9 \<and> emulation_free (snd d)
     \<and> (\<forall>u\<in>set us. snd u \<noteq> [] \<and> nal_type (snd u) \<noteq> 9 \<and> emulation_free (snd u))
     \<and> sum_list (map (\<lambda>u. length (snd u) + 4) us) \<le> max_host_frame - 9)"

lemma emulation_free_end: "emulation_free u \<Longrightarrow> start_code u = None"
  by (induction u rule: emulation_free.induct) auto

lemma emulation_free_next: "emulation_free u \<Longrightarrow> start_code (u @ coded_unit k @ bs) = Some (length u)"
  by (induction u rule: emulation_free.induct) (auto simp: coded_unit_def)

lemma coded_unit_start:
  "code_here (coded_unit k @ bs)" "drop (start_code_length (coded_unit k @ bs)) (coded_unit k @ bs) = snd k @ bs"
  by (auto simp: coded_unit_def start_code_length_def)

lemma nal_loop_units: "\<forall>k\<in>set ks. emulation_free (snd k) \<Longrightarrow> nal_loop True (concat (map coded_unit ks)) = (map snd ks, [])"
proof (induction ks)
  case Nil
  show ?case by (simp add: nal_loop.simps)
next
  case (Cons k ks)
  have free: "emulation_free (snd k)" using Cons.prems by simp
  show ?case
  proof (cases ks)
    case Nil
    then show ?thesis using emulation_free_end [OF free] coded_unit_start [of k "[]"]
      by (simp add: nal_loop.simps [of True "coded_unit k"] start_code_0)
  next
    case (Cons l ls)
    let ?bs = "concat (map coded_unit ks)"
    have "start_code (snd k @ ?bs) = Some (length (snd k))" using emulation_free_next [OF free, of l] Cons by simp
    moreover have "nal_loop True ?bs = (map snd ks, [])" using Cons.IH Cons.prems by simp
    ultimately show ?thesis using coded_unit_start [of k ?bs]
      by (simp add: nal_loop.simps [of True "coded_unit k @ ?bs"] start_code_0)
  qed
qed

lemma accept_units:
  "\<forall>u\<in>set us. u \<noteq> [] \<and> nal_type u \<noteq> 9 \<Longrightarrow> sum_list (map (\<lambda>u. length u + 4) (vs @ us)) \<le> max_host_frame - 9
    \<Longrightarrow> accept_nals (us @ ns) vs = accept_nals ns (vs @ us)"
proof (induction us arbitrary: vs)
  case (Cons u us)
  have "accept_nal u vs = ([], Some (vs @ [u]))" using Cons.prems by (auto simp: accept_nal_def Suc_le_eq)
  then show ?case using Cons.IH [of "vs @ [u]"] Cons.prems by (simp add: add.assoc)
qed simp

lemma accept_access_units:
  "\<forall>a\<in>set as. access_unit_ok a \<Longrightarrow>
    \<exists>us. accept_nals (map snd (units_of as)) vs = (fst (accept_nals (map snd (units_of as)) vs), Some us)
      \<and> fst (accept_nals (map snd (units_of as)) vs) @ emit_current us
        = emit_current vs @ concat (map (\<lambda>a. emit_current (map snd (snd a))) as)"
proof (induction as arbitrary: vs)
  case Nil
  show ?case by (simp add: units_of_def)
next
  case (Cons a as)
  obtain d us where a: "a = (d, us)" by fastforce
  have ok: "snd d \<noteq> []" "nal_type (snd d) = 9" "\<forall>u\<in>set (map snd us). u \<noteq> [] \<and> nal_type u \<noteq> 9"
    "sum_list (map (\<lambda>u. length u + 4) (map snd us)) \<le> max_host_frame - 9"
    using Cons.prems a by (auto simp: access_unit_ok_def comp_def)
  have "accept_nal (snd d) vs = (emit_current vs, Some [])" using ok(1,2) by (auto simp: accept_nal_def Suc_le_eq)
  moreover have "accept_nals (map snd us @ ns) [] = accept_nals ns (map snd us)" for ns
    using accept_units [OF ok(3), of "[]" ns] ok(4) by simp
  ultimately have "accept_nals (map snd (units_of (a # as))) vs
      = (emit_current vs @ fst (accept_nals (map snd (units_of as)) (map snd us)), snd (accept_nals (map snd (units_of as)) (map snd us)))"
    by (simp add: units_of_def a)
  moreover obtain ws where "snd (accept_nals (map snd (units_of as)) (map snd us)) = Some ws"
    "fst (accept_nals (map snd (units_of as)) (map snd us)) @ emit_current ws
      = emit_current (map snd us) @ concat (map (\<lambda>a. emit_current (map snd (snd a))) as)"
    using Cons.IH [of "map snd us"] Cons.prems by (metis list.set_intros(2) snd_conv)
  ultimately show ?case by (auto simp: a)
qed

lemma accept_nals_append: "accept_nals (ms @ ns) us = (case accept_nals ms us of
    (es, None) \<Rightarrow> (es, None) | (es, Some vs) \<Rightarrow> (es @ fst (accept_nals ns vs), snd (accept_nals ns vs)))"
  by (induction ms arbitrary: us) (auto split: prod.splits option.splits)

section \<open>A whole stream\<close>

fun annexb_run :: "annexb_parser \<Rightarrow> byte_list list \<Rightarrow> (byte_list list \<times> bool) list \<times> annexb_parser option" where
  "annexb_run s [] = annexb_end s"
| "annexb_run s (c # cs) = (case annexb_push c s of
     (es, None) \<Rightarrow> (es, None)
   | (es, Some t) \<Rightarrow> (es @ fst (annexb_run t cs), snd (annexb_run t cs)))"

text \<open>The parser is the search for units followed by the assembly of access units.\<close>

lemma annexb_run_feed:
  assumes "nal_drain False (ab_pending s) = ([], Some (ab_pending s))" and "junk_bounded (ab_pending s @ concat cs)"
    and "feed (nal_drain False) (ab_pending s) cs = (ns, Some r)" and "nal_drain True r = (ns', Some q)"
    and "accept_nals (ns @ ns') (ab_current s) = (es, Some us)"
  shows "annexb_run s cs = (es @ emit_current us, Some new_annexb)"
  using assms
proof (induction cs arbitrary: s ns es)
  case Nil
  then show ?case by (simp add: annexb_end_def annexb_drain_def new_annexb_def)
next
  case (Cons c cs)
  obtain ms p ns2 where d: "nal_drain False (ab_pending s @ c) = (ms, Some p)" "feed (nal_drain False) p cs = (ns2, Some r)"
      "ns = ms @ ns2"
    using Cons.prems(3) by (cases "feed (nal_drain False) (the (snd (nal_drain False (ab_pending s @ c)))) cs")
      (auto split: prod.splits option.splits)
  obtain fs vs es2 where f: "accept_nals ms (ab_current s) = (fs, Some vs)" "accept_nals (ns2 @ ns') vs = (es2, Some us)" "es = fs @ es2"
    using Cons.prems(5) d(3) accept_nals_append [of ms "ns2 @ ns'" "ab_current s"]
    by (cases "accept_nals (ns2 @ ns') (the (snd (accept_nals ms (ab_current s))))") (auto split: prod.splits option.splits)
  have push: "annexb_push c s = (fs, Some \<lparr>ab_pending = p, ab_current = vs\<rparr>)"
  proof (cases "c = []")
    case True
    then have "ms = []" "p = ab_pending s" using d(1) Cons.prems(1) by simp_all
    then show ?thesis using True f(1) by (simp add: annexb_push_def)
  next
    case False
    then show ?thesis using d(1) f(1) by (simp add: annexb_push_def annexb_drain_def)
  qed
  have bounded: "junk_bounded ((ab_pending s @ c) @ concat cs)" using Cons.prems(2) by simp
  have "nal_drain False p = ([], Some p)" using annexb.kept_is_drained [OF annexb.small_prefix [OF bounded] d(1)] .
  moreover have "junk_bounded (p @ concat cs)" using annexb.small_rest [OF bounded d(1)] .
  ultimately have "annexb_run \<lparr>ab_pending = p, ab_current = vs\<rparr> cs = (es2 @ emit_current us, Some new_annexb)"
    using Cons.IH [of "\<lparr>ab_pending = p, ab_current = vs\<rparr>"] d(2) Cons.prems(4) f(2) by simp
  then show ?case using push f(3) by simp
qed

lemma annexb_stream:
  assumes "\<forall>a\<in>set as. access_unit_ok a" and "as \<noteq> []" and "concat cs = concat (map coded_unit (units_of as))"
  shows "annexb_run new_annexb cs = (concat (map (\<lambda>a. emit_current (map snd (snd a))) as), Some new_annexb)"
proof -
  let ?b = "concat (map coded_unit (units_of as))"
  obtain k ks where ks: "units_of as = k # ks" using assms(2) by (cases as) (auto simp: units_of_def split: prod.splits)
  have code: "code_here ?b" using coded_unit_start(1) [of k "concat (map coded_unit ks)"] ks by simp
  then have bounded: "junk_bounded (concat cs)" using junk_bounded_code [of ?b "[]"] assms(3) by simp
  obtain ns r where loop: "nal_loop False ?b = (ns, r)" by fastforce
  then have drained: "nal_drain False ?b = (ns, Some r)" using code by (simp add: nal_drain_def start_code_0 [THEN iffD2])
  have "nal_drain False [] = ([], Some [])" by (simp add: nal_drain_def)
  then have fed: "feed (nal_drain False) [] cs = (ns, Some r)"
    using annexb.feed_concat [of "[]" cs] bounded assms(3) drained by simp
  have "code_here r" using nal_loop_code [OF code loop] .
  then have r: "nal_drain True r = (fst (nal_loop True r), Some (snd (nal_loop True r)))"
    by (simp add: nal_drain_def start_code_0 [THEN iffD2] split: prod.split)
  have "\<forall>k\<in>set (units_of as). emulation_free (snd k)" using assms(1) by (fastforce simp: units_of_def access_unit_ok_def)
  then have units: "ns @ fst (nal_loop True r) = map snd (units_of as)"
    using nal_loop_units nal_loop_flush [OF loop] by (metis fst_conv)
  obtain us where us: "accept_nals (map snd (units_of as)) [] = (fst (accept_nals (map snd (units_of as)) []), Some us)"
      "fst (accept_nals (map snd (units_of as)) []) @ emit_current us = concat (map (\<lambda>a. emit_current (map snd (snd a))) as)"
    using accept_access_units [OF assms(1), of "[]"] by (auto simp: emit_current_def)
  show ?thesis
    using annexb_run_feed [of new_annexb cs ns r _ _ _ us] bounded fed r units us \<open>nal_drain False [] = ([], Some [])\<close>
    by (simp add: new_annexb_def)
qed

section \<open>The writer\<close>

lemma start_code_ones: "start_code (replicate n 1) = None"
proof (induction n)
  case (Suc n)
  have "\<not> code_here (1 # bs)" for bs by (cases bs; cases "tl bs") auto
  then show ?case using Suc by simp
qed simp

lemma writer_keeps_latest: "lw_blocked s \<Longrightarrow> lw_frame (submit_record r False ok s) = Some r \<and> lw_written (submit_record r False ok s) = lw_written s"
  by (simp add: submit_record_def)

section \<open>Properties\<close>

text \<open>The H.264 parser holds a unit without limit: whatever the bound, a single unit that is never followed by another
  start code is kept whole, although the parser throws at 8 MiB when no start code came and the JPEG parser bounds the same
  buffer. The limit on access units is tested only when the unit is complete.
\<close>

theorem unfinished_unit_is_kept:
  "annexb_push ([0, 0, 1] @ replicate n 1) new_annexb = ([], Some \<lparr>ab_pending = [0, 0, 1] @ replicate n 1, ab_current = []\<rparr>)"
proof -
  let ?b = "0 # 0 # Suc 0 # replicate n (Suc 0)"
  have "nal_loop False ?b = ([], ?b)"
    using start_code_ones [of n] by (simp add: nal_loop.simps [of False ?b] start_code_length_def)
  then show ?thesis by (simp add: annexb_push_def annexb_drain_def nal_drain_def new_annexb_def)
qed

text \<open>The writer of the host sends a stale frame after newer ones: when the pipe drains while a control record and a frame
  wait, and the control record is written without filling the pipe, the frame stays behind; frames that come later are
  written at once, and the older one follows them the next time the pipe drains.
\<close>

theorem drained_writer_sends_stale_frame:
  assumes "lw_blocked s" and "lw_control s = Some c" and "lw_frame s = Some f"
  shows "lw_written (run writer_step s [Pipe_drained True, Submit_frame g True, Submit_frame h False, Pipe_drained ok]) = lw_written s @ [c, g, h, f]"
  using assms by (simp add: writer_drain_def submit_record_def Let_def)

theorem drained_writer_sends_stale_frame_witness:
  "let s = run writer_step new_writer [Submit_frame (1 :: nat) False, Submit_frame 2 True, Submit_control 9 True] in
   lw_written (run writer_step s [Pipe_drained True, Submit_frame 3 True, Submit_frame 4 False, Pipe_drained True]) = [1, 9, 3, 4, 2]"
proof -
  let ?s = "run writer_step new_writer [Submit_frame (1 :: nat) False, Submit_frame 2 True, Submit_control 9 True]"
  have s: "lw_blocked ?s" "lw_control ?s = Some 9" "lw_frame ?s = Some 2" "lw_written ?s = [1]"
    by (simp_all add: new_writer_def submit_record_def)
  show ?thesis unfolding Let_def drained_writer_sends_stale_frame [OF s(1-3)] s(4) by simp
qed

end
