(* ===== verification/Webrtc_Media.thy ===== *)
theory Webrtc_Media
  imports Host_Media "HOL-Library.Word"
begin

text \<open>
  The receiving side of the host's records: \<open>HostRecordParser\<close>, \<open>splitAvcc\<close> and the RTP packets of \<open>sendFrame\<close> in
  \<open>src/browser-takeover/webrtc-runtime.ts\<close>, and \<open>WebSocketWindowHostRecordParser\<close> of \<open>websocket-window-host-record.ts\<close>.
  The lemmas show that both parsers report the same whatever chunks their pipe delivers, that they read back what
  \<open>Host_Media\<close> writes, and that a receiver of the packets rebuilds the units the encoder produced.
\<close>

section \<open>Records of the video host\<close>

record host_frame =
  hf_timestamp :: nat
  hf_keyframe :: bool
  hf_width :: nat
  hf_height :: nat
  hf_avcc :: byte_list

datatype host_report = Host_frame host_frame | Host_editable bool | Host_failure

text \<open>The payload of one record; \<open>None\<close>: the parser fails.\<close>

definition host_payload :: "nat \<Rightarrow> byte_list \<Rightarrow> host_report option" where
  "host_payload t p =
     (if t = 1 then
        (if length p < 9 then None
         else (let w = read_big_endian p 5 2; h = read_big_endian p 7 2 in
           if w = 0 \<or> h = 0 \<or> drop 9 p = [] then None
           else Some (Host_frame \<lparr>hf_timestamp = read_big_endian p 0 4, hf_keyframe = (p ! 4 = 1), hf_width = w, hf_height = h,
             hf_avcc = drop 9 p\<rparr>)))
      else if t = 2 then Some (Host_editable (p ! 0 = 1))
      else None)"

function host_drain :: "byte_list \<Rightarrow> host_report list \<times> byte_list option" where
  "host_drain b = (if length b < 5 then ([], Some b)
     else if max_host_frame < read_big_endian b 1 4 \<or> (b ! 0 = 2 \<and> read_big_endian b 1 4 \<noteq> 1) then ([], None)
     else if length b < 5 + read_big_endian b 1 4 then ([], Some b)
     else (case host_payload (b ! 0) (take (read_big_endian b 1 4) (drop 5 b)) of
         None \<Rightarrow> ([], None)
       | Some e \<Rightarrow> (case host_drain (drop (5 + read_big_endian b 1 4) b) of (es, r) \<Rightarrow> (e # es, r))))"
  by pat_completeness auto
termination
  by (relation "measure length") auto

declare host_drain.simps [simp del]

record host_parser =
  hp_buffer :: byte_list
  hp_failed :: bool

definition new_host_parser :: host_parser where
  "new_host_parser = \<lparr>hp_buffer = [], hp_failed = False\<rparr>"

definition host_fail :: "host_parser \<Rightarrow> host_report list \<times> host_parser" where
  "host_fail s = (if hp_failed s then ([], s) else ([Host_failure], \<lparr>hp_buffer = [], hp_failed = True\<rparr>))"

definition host_push :: "byte_list \<Rightarrow> host_parser \<Rightarrow> host_report list \<times> host_parser" where
  "host_push chunk s = (if hp_failed s \<or> chunk = [] then ([], s)
     else (case host_drain (hp_buffer s @ chunk) of
         (es, Some r) \<Rightarrow> (es, s\<lparr>hp_buffer := r\<rparr>)
       | (es, None) \<Rightarrow> (es @ fst (host_fail s), snd (host_fail s))))"

definition host_end :: "host_parser \<Rightarrow> host_report list \<times> host_parser" where
  "host_end s = (if \<not> hp_failed s \<and> hp_buffer s \<noteq> [] then host_fail s else ([], s))"

section \<open>Records of the picture host\<close>

record wss_picture =
  wp_data :: byte_list
  wp_width :: nat
  wp_height :: nat

datatype wss_report = Wss_frame wss_picture | Wss_editable bool

definition wss_payload :: "byte_list \<Rightarrow> wss_report option" where
  "wss_payload p =
     (if length p = 1 then (if p ! 0 \<noteq> 0 \<and> p ! 0 \<noteq> 1 then None else Some (Wss_editable (p ! 0 = 1)))
      else if length p < 8 then None
      else (let w = read_big_endian p 0 2; h = read_big_endian p 2 2; d = drop 4 p in
        if w < 1 \<or> h < 1 \<or> length d < 4 \<or> take 2 d \<noteq> jpeg_soi \<or> drop (length d - 2) d \<noteq> jpeg_eoi then None
        else Some (Wss_frame \<lparr>wp_data = d, wp_width = w, wp_height = h\<rparr>)))"

function wss_loop :: "byte_list \<Rightarrow> wss_report list \<times> byte_list option" where
  "wss_loop b = (if length b < 5 then ([], Some b)
     else if b ! 0 \<noteq> 2 \<or> read_big_endian b 1 4 < 1 \<or> max_host_frame < read_big_endian b 1 4 then ([], None)
     else if length b < 5 + read_big_endian b 1 4 then ([], Some b)
     else (case wss_payload (take (read_big_endian b 1 4) (drop 5 b)) of
         None \<Rightarrow> ([], None)
       | Some e \<Rightarrow> (case wss_loop (drop (5 + read_big_endian b 1 4) b) of (es, r) \<Rightarrow> (e # es, r))))"
  by pat_completeness auto
termination
  by (relation "measure length") auto

declare wss_loop.simps [simp del]

text \<open>\<open>push\<close> bounds what is pending before it looks for a record.\<close>

definition wss_drain :: "byte_list \<Rightarrow> wss_report list \<times> byte_list option" where
  "wss_drain b = (if max_host_frame + 5 < length b then ([], None) else wss_loop b)"

definition wss_push :: "byte_list \<Rightarrow> byte_list \<Rightarrow> wss_report list \<times> byte_list option" where
  "wss_push chunk pending = (if chunk = [] then ([], Some pending) else wss_drain (pending @ chunk))"

section \<open>Packets\<close>

text \<open>\<open>splitAvcc\<close>: no unit at all when a length is wrong.\<close>

function avcc_units :: "byte_list \<Rightarrow> byte_list list option" where
  "avcc_units b = (if length b < 4 then (if b = [] then Some [] else None)
     else if read_big_endian b 0 4 < 1 \<or> length b < 4 + read_big_endian b 0 4 then None
     else map_option ((#) (take (read_big_endian b 0 4) (drop 4 b))) (avcc_units (drop (4 + read_big_endian b 0 4) b)))"
  by pat_completeness auto
termination
  by (relation "measure length") auto

declare avcc_units.simps [simp del]

definition split_avcc :: "byte_list \<Rightarrow> byte_list list" where
  "split_avcc b = (case avcc_units b of None \<Rightarrow> [] | Some us \<Rightarrow> us)"

record rtp_packet =
  rp_sequence :: "16 word"
  rp_timestamp :: nat
  rp_marker :: bool
  rp_payload :: byte_list

definition rtp_payload_bytes :: nat where
  "rtp_payload_bytes = 1200"

text \<open>
  The fragments of a long unit (FU-A): two bytes, then a part of the unit after its header. For a byte \<open>h\<close> the
  indicator \<open>(h & 0xe0) | 28\<close> is \<open>h - h mod 32 + 28\<close>.
\<close>

function fragments :: "nat \<Rightarrow> bool \<Rightarrow> byte_list \<Rightarrow> byte_list list" where
  "fragments h start d = (if d = [] then []
     else (let chunk = take (rtp_payload_bytes - 2) d; rest = drop (rtp_payload_bytes - 2) d in
       ([h - h mod 32 + 28, (if start then 0x80 else 0) + (if rest = [] then 0x40 else 0) + h mod 32] @ chunk)
         # fragments h False rest))"
  by pat_completeness auto
termination
  by (relation "measure (length \<circ> snd \<circ> snd)") (auto simp: rtp_payload_bytes_def)

declare fragments.simps [simp del]

definition unit_payloads :: "byte_list \<Rightarrow> byte_list list" where
  "unit_payloads u = (if length u \<le> rtp_payload_bytes then [u] else fragments (u ! 0) True (drop 1 u))"

text \<open>Sequence numbers are 16 bits wide: \<open>(sequence + 1) & 0xffff\<close>.\<close>

fun packets_of :: "16 word \<Rightarrow> nat \<Rightarrow> byte_list list \<Rightarrow> rtp_packet list" where
  "packets_of seq t [] = []"
| "packets_of seq t (p # ps) = \<lparr>rp_sequence = seq, rp_timestamp = t, rp_marker = (ps = []), rp_payload = p\<rparr>
     # packets_of (seq + 1) t ps"

text \<open>What \<open>sendFrame\<close> sends when nothing stops it. The marker is on the last packet of the last unit.\<close>

definition frame_packets :: "16 word \<Rightarrow> host_frame \<Rightarrow> rtp_packet list" where
  "frame_packets seq f = packets_of seq (hf_timestamp f) (concat (map unit_payloads (split_avcc (hf_avcc f))))"

section \<open>Both parsers read records\<close>

definition host_size :: "byte_list \<Rightarrow> nat option" where
  "host_size h = (let n = read_big_endian h 1 4 in if max_host_frame < n \<or> (h ! 0 = 2 \<and> n \<noteq> 1) then None else Some n)"

definition wss_size :: "byte_list \<Rightarrow> nat option" where
  "wss_size h = (let n = read_big_endian h 1 4 in if h ! 0 \<noteq> 2 \<or> n < 1 \<or> max_host_frame < n then None else Some n)"

interpretation host_records: record_stream 5 host_size "\<lambda>h. host_payload (h ! 0)" host_drain
proof unfold_locales
  fix b :: byte_list
  have "read_big_endian (take 5 b) (Suc 0) 4 = read_big_endian b (Suc 0) 4" by (simp add: read_within)
  then show "host_drain b = (if length b < 5 then ([], Some b) else (case host_size (take 5 b) of None \<Rightarrow> ([], None)
      | Some n \<Rightarrow> (if length b < 5 + n then ([], Some b)
          else (case host_payload (take 5 b ! 0) (take n (drop 5 b)) of None \<Rightarrow> ([], None)
            | Some e \<Rightarrow> (case host_drain (drop (5 + n) b) of (es, r) \<Rightarrow> (e # es, r))))))"
    by (simp add: host_drain.simps [of b] host_size_def Let_def split: option.split)
qed simp

interpretation wss_records: record_stream 5 wss_size "\<lambda>_. wss_payload" wss_loop
proof unfold_locales
  fix b :: byte_list
  have "read_big_endian (take 5 b) (Suc 0) 4 = read_big_endian b (Suc 0) 4" by (simp add: read_within)
  then show "wss_loop b = (if length b < 5 then ([], Some b) else (case wss_size (take 5 b) of None \<Rightarrow> ([], None)
      | Some n \<Rightarrow> (if length b < 5 + n then ([], Some b)
          else (case wss_payload (take n (drop 5 b)) of None \<Rightarrow> ([], None)
            | Some e \<Rightarrow> (case wss_loop (drop (5 + n) b) of (es, r) \<Rightarrow> (e # es, r))))))"
    by (simp add: wss_loop.simps [of b] wss_size_def Let_def split: option.split)
qed simp

text \<open>The bound on what is pending holds the records back, not their contents.\<close>

interpretation wss: stream_parser wss_drain "\<lambda>b. length b \<le> max_host_frame + 5"
proof unfold_locales
  fix b c :: byte_list and es r
  assume small: "length (b @ c) \<le> max_host_frame + 5"
  show "wss_drain (b @ c) = (es, None)" if "wss_drain b = (es, None)"
    using that small wss_records.record_gives_up [of b es c] by (simp add: wss_drain_def)
  assume d: "wss_drain b = (es, Some r)"
  then have l: "wss_loop b = (es, Some r)" using small by (simp add: wss_drain_def)
  show r: "length (r @ c) \<le> max_host_frame + 5" using wss_records.keeps_no_more [OF l] small by simp
  show "wss_drain (b @ c) = (es @ fst (wss_drain (r @ c)), snd (wss_drain (r @ c)))"
    using small r wss_records.record_resumes [OF l, of c] by (simp add: wss_drain_def)
qed simp

section \<open>Reading back what the host writes\<close>

lemma read_record: "n < 2 ^ 32 \<Longrightarrow> read_big_endian (t # big_endian 4 n) (Suc 0) 4 = n"
  by (rule read_field [where xs = "[t]" and ys = "[]"]) simp_all

lemma host_record_split: "host_record t p @ b = (t # big_endian 4 (length p)) @ p @ b"
  by (simp add: host_record_def del: big_endian.simps)

lemma host_reads_record:
  "length p \<le> max_host_frame \<Longrightarrow> t = 2 \<longrightarrow> length p = 1 \<Longrightarrow> host_payload t p = Some e \<Longrightarrow>
    host_drain (host_record t p @ b) = (e # fst (host_drain b), snd (host_drain b))"
  unfolding host_record_split
  by (rule host_records.drain_record) (auto simp: host_size_def Let_def read_record max_host_frame_def simp del: big_endian.simps)

definition frame_of_record :: "byte_list \<Rightarrow> jsnum \<Rightarrow> bool \<Rightarrow> jsnum \<Rightarrow> jsnum \<Rightarrow> host_frame" where
  "frame_of_record avcc timestamp keyframe w h = \<lparr>hf_timestamp = nat (num_to_int timestamp) mod 2 ^ 32, hf_keyframe = keyframe,
     hf_width = nat (num_to_int w), hf_height = nat (num_to_int h), hf_avcc = avcc\<rparr>"

lemma frame_record_read:
  assumes "frame_record avcc t k w h = Inr rec"
  shows "host_drain (rec @ b) = (Host_frame (frame_of_record avcc t k w h) # fst (host_drain b), snd (host_drain b))"
proof -
  let ?t = "nat (num_to_int t) mod 2 ^ 32" and ?w = "nat (num_to_int w)" and ?h = "nat (num_to_int h)"
  let ?k = "if k then 1 else 0 :: nat"
  let ?p = "big_endian 4 ?t @ [?k] @ big_endian 2 ?w @ big_endian 2 ?h @ avcc"
  have ok: "avcc \<noteq> []" "length avcc \<le> max_host_frame - 9" "picture_size_ok w h" "rec = host_record 1 ?p"
    using assms by (auto simp: frame_record_def Suc_le_eq not_less split: if_splits)
  have size: "1 \<le> ?w" "?w < 256 ^ 2" "1 \<le> ?h" "?h < 256 ^ 2" using ok(3) by (auto simp: picture_size_ok_def)
  then have some: "0 < num_to_int w" "0 < num_to_int h" by simp_all
  have t: "read_big_endian ?p 0 4 = ?t" by (rule read_field [where xs = "[]"]) (simp_all del: big_endian.simps)
  have w: "read_big_endian ?p 5 2 = ?w"
    by (rule read_field [where xs = "big_endian 4 ?t @ [?k]"]) (use size in \<open>simp_all del: big_endian.simps\<close>)
  have h: "read_big_endian ?p 7 2 = ?h"
    by (rule read_field [where xs = "big_endian 4 ?t @ [?k] @ big_endian 2 ?w"]) (use size in \<open>simp_all del: big_endian.simps\<close>)
  have "?p ! 4 = ?k" "drop 9 ?p = avcc" "length ?p = 9 + length avcc" by (simp_all add: nth_append del: big_endian.simps)
  then have "host_payload 1 ?p = Some (Host_frame (frame_of_record avcc t k w h))"
    using t w h some ok(1) by (simp add: host_payload_def Let_def frame_of_record_def del: big_endian.simps)
  then show ?thesis unfolding ok(4) using ok(2) host_reads_record [of ?p 1] by (simp add: max_host_frame_def del: big_endian.simps)
qed

lemma editable_record_read: "host_drain (editable_record e @ b) = (Host_editable e # fst (host_drain b), snd (host_drain b))"
  unfolding editable_record_def by (rule host_reads_record) (simp_all add: host_payload_def max_host_frame_def)

lemma jpeg_record_read:
  assumes "jpeg_frame_record jpeg w h = Inr rec"
  shows "wss_loop (rec @ b) = (Wss_frame \<lparr>wp_data = jpeg, wp_width = nat (num_to_int w), wp_height = nat (num_to_int h)\<rparr>
    # fst (wss_loop b), snd (wss_loop b))"
proof -
  let ?w = "nat (num_to_int w)" and ?h = "nat (num_to_int h)"
  let ?p = "big_endian 2 ?w @ big_endian 2 ?h @ jpeg"
  have ok: "4 \<le> length jpeg" "length jpeg \<le> max_host_frame - 4" "take 2 jpeg = jpeg_soi" "drop (length jpeg - 2) jpeg = jpeg_eoi"
    "picture_size_ok w h" "rec = host_record 2 ?p"
    using assms by (auto simp: jpeg_frame_record_def not_less split: if_splits)
  have size: "0 < num_to_int w" "?w < 256 ^ 2" "0 < num_to_int h" "?h < 256 ^ 2" using ok(5) by (auto simp: picture_size_ok_def)
  have w: "read_big_endian ?p 0 2 = ?w" by (rule read_field [where xs = "[]"]) (use size in \<open>simp_all del: big_endian.simps\<close>)
  have h: "read_big_endian ?p 2 2 = ?h"
    by (rule read_field [where xs = "big_endian 2 ?w"]) (use size in \<open>simp_all del: big_endian.simps\<close>)
  have len: "drop 4 ?p = jpeg" "length ?p = 4 + length jpeg" by simp_all
  then have p: "wss_payload ?p = Some (Wss_frame \<lparr>wp_data = jpeg, wp_width = ?w, wp_height = ?h\<rparr>)"
    using w h size ok(1,3,4) by (simp add: wss_payload_def Let_def del: big_endian.simps)
  have "wss_size (2 # big_endian 4 (length ?p)) = Some (length ?p)"
    using ok(1,2) len(2) by (simp add: wss_size_def Let_def read_record max_host_frame_def del: big_endian.simps)
  then show ?thesis unfolding ok(6) host_record_split using p by (intro wss_records.drain_record) simp_all
qed

section \<open>Units and packets\<close>

definition unit_ok :: "byte_list \<Rightarrow> bool" where
  "unit_ok u \<longleftrightarrow> u \<noteq> [] \<and> length u < 2 ^ 32 \<and> u ! 0 < 256 \<and> nal_type u < 24"

lemma avcc_units_read: "\<forall>u\<in>set us. unit_ok u \<Longrightarrow> avcc_units (avcc_from_nals us) = Some us"
proof (induction us)
  case Nil
  show ?case by (simp add: avcc_from_nals_def avcc_units.simps)
next
  case (Cons u us)
  let ?r = "avcc_from_nals us"
  have b: "avcc_from_nals (u # us) = big_endian 4 (length u) @ u @ ?r" by (simp add: avcc_from_nals_def del: big_endian.simps)
  have u: "u \<noteq> []" "1 \<le> length u" "length u < 256 ^ 4" using Cons.prems by (auto simp: unit_ok_def Suc_le_eq)
  have "read_big_endian (big_endian 4 (length u) @ u @ ?r) 0 4 = length u"
    by (rule read_field [where xs = "[]"]) (use u in \<open>simp_all del: big_endian.simps\<close>)
  then show ?case unfolding b using u(1,2) Cons.IH Cons.prems
    by (simp add: avcc_units.simps [of "big_endian 4 (length u) @ u @ ?r"] del: big_endian.simps)
qed

lemma split_avcc_read: "\<forall>u\<in>set us. unit_ok u \<Longrightarrow> split_avcc (avcc_from_nals us) = us"
  by (simp add: split_avcc_def avcc_units_read)

text \<open>
  A receiver of the packets (RFC 6184): a payload whose type is 28 is a fragment, any other is a unit. A start fragment
  rebuilds the unit's header byte from the indicator and the fragment header.
\<close>

fun rebuild :: "byte_list option \<Rightarrow> byte_list list \<Rightarrow> byte_list list" where
  "rebuild cur [] = []"
| "rebuild cur (p # ps) = (if nal_type p \<noteq> 28 then p # rebuild None ps
     else (let whole = (if 128 \<le> p ! 1 then (p ! 0 - p ! 0 mod 32 + p ! 1 mod 32) # drop 2 p
                        else (case cur of None \<Rightarrow> [] | Some u \<Rightarrow> u @ drop 2 p)) in
       if 64 \<le> p ! 1 mod 128 then whole # rebuild None ps else rebuild (Some whole) ps))"

lemma fragment_byte:
  "(h - h mod 32 + 28) mod 32 = (28 :: nat)" "h - h mod 32 + 28 - 28 = h - h mod 32"
  "128 \<le> (if s then 0x80 else 0) + (if l then 0x40 else 0) + h mod 32 \<longleftrightarrow> s"
  "64 \<le> ((if s then 0x80 else 0) + (if l then 0x40 else 0) + h mod 32) mod 128 \<longleftrightarrow> l"
  "((if s then 0x80 else 0) + (if l then 0x40 else 0) + h mod 32) mod 32 = h mod 32"
proof -
  have "h - h mod 32 = 32 * (h div 32)" by (simp only: minus_mod_eq_mult_div)
  then show "(h - h mod 32 + 28) mod 32 = (28 :: nat)" by (simp only:) simp
  have "h mod 32 < 32" by simp
  then show "128 \<le> (if s then 0x80 else 0) + (if l then 0x40 else 0) + h mod 32 \<longleftrightarrow> s"
    "64 \<le> ((if s then 0x80 else 0) + (if l then 0x40 else 0) + h mod 32) mod 128 \<longleftrightarrow> l"
    "((if s then 0x80 else 0) + (if l then 0x40 else 0) + h mod 32) mod 32 = h mod 32"
    by (cases s; cases l; simp add: mod_if; fail)+
qed simp

lemma rebuild_part:
  assumes "nal_type (a # b # c) = 28" and "128 \<le> b \<longleftrightarrow> s" and "64 \<le> b mod 128 \<longleftrightarrow> l" and "a - a mod 32 + b mod 32 = h"
    and "s \<or> cur = Some u"
  shows "rebuild cur ((a # b # c) # qs) = (if l then ((if s then [h] else u) @ c) # rebuild None qs else rebuild (Some ((if s then [h] else u) @ c)) qs)"
  using assms by (cases s; cases l) (simp_all add: Let_def)

lemma rebuild_fragments:
  "d \<noteq> [] \<Longrightarrow> s \<or> cur = Some u \<Longrightarrow>
    rebuild cur (fragments h s d @ ps) = ((if s then [h] else u) @ d) # rebuild None ps"
proof (induction h s d arbitrary: cur u rule: fragments.induct)
  case (1 h s d)
  let ?c = "take (rtp_payload_bytes - 2) d" and ?r = "drop (rtp_payload_bytes - 2) d"
  let ?b = "(if s then 0x80 else 0) + (if ?r = [] then 0x40 else 0) + h mod 32"
  let ?w = "(if s then [h] else u) @ ?c"
  have frag: "fragments h s d = ([h - h mod 32 + 28, ?b] @ ?c) # fragments h False ?r"
    using 1(2) by (simp add: fragments.simps [of h s] Let_def)
  have type: "nal_type ((h - h mod 32 + 28) # ?b # ?c) = 28" by (simp only: nal_type_def nth_Cons_0 fragment_byte(1))
  have bits: "128 \<le> ?b \<longleftrightarrow> s" "64 \<le> ?b mod 128 \<longleftrightarrow> ?r = []" "?b mod 32 = h mod 32" by (rule fragment_byte)+
  have hd: "h - h mod 32 + 28 - (h - h mod 32 + 28) mod 32 + ?b mod 32 = h" by (simp only: fragment_byte(1,2) bits(3))
  have step: "rebuild cur (([h - h mod 32 + 28, ?b] @ ?c) # qs) = (if ?r = [] then ?w # rebuild None qs else rebuild (Some ?w) qs)" for qs
    unfolding append_Cons append_Nil by (rule rebuild_part [OF type bits(1,2) hd 1(3)])
  have all: "fragments h s d @ ps = ([h - h mod 32 + 28, ?b] @ ?c) # (fragments h False ?r @ ps)" by (subst frag) (rule append_Cons)
  show ?case
  proof (cases "?r = []")
    case True
    have "?w = (if s then [h] else u) @ d" using True append_take_drop_id [of "rtp_payload_bytes - 2" d] by simp
    moreover have "fragments h False ?r = []" by (subst True) (simp add: fragments.simps)
    ultimately show ?thesis unfolding all step by (simp only: True if_True append_Nil simp_thms)
  next
    case False
    have "rebuild (Some ?w) (fragments h False ?r @ ps) = ((if False then [h] else ?w) @ ?r) # rebuild None ps"
      using 1(1) [OF 1(2) refl refl False, of "Some ?w" ?w] by blast
    then have "rebuild cur (fragments h s d @ ps) = (?w @ ?r) # rebuild None ps" unfolding all step by (simp only: False if_False simp_thms)
    then show ?thesis by (simp only: append_assoc append_take_drop_id)
  qed
qed

lemma rebuild_unit: "unit_ok u \<Longrightarrow> rebuild None (unit_payloads u @ ps) = u # rebuild None ps"
proof (cases "length u \<le> rtp_payload_bytes")
  case True
  then show "unit_ok u \<Longrightarrow> ?thesis" by (simp add: unit_payloads_def unit_ok_def)
next
  case False
  then obtain h d where u: "u = h # d" "d \<noteq> []" by (cases u; cases "tl u") (auto simp: rtp_payload_bytes_def)
  then show ?thesis using False rebuild_fragments [of d True None "[]" h ps] by (simp add: unit_payloads_def)
qed

lemma rebuild_units: "\<forall>u\<in>set us. unit_ok u \<Longrightarrow> rebuild None (concat (map unit_payloads us)) = us"
  by (induction us) (simp_all add: rebuild_unit)

lemma packet_payloads [simp]: "map rp_payload (packets_of seq t ps) = ps"
  by (induction ps arbitrary: seq) simp_all

lemma packet_length [simp]: "length (packets_of seq t ps) = length ps"
  by (induction ps arbitrary: seq) simp_all

lemma packet_nth: "i < length ps \<Longrightarrow> packets_of seq t ps ! i
    = \<lparr>rp_sequence = seq + of_nat i, rp_timestamp = t, rp_marker = (i + 1 = length ps), rp_payload = ps ! i\<rparr>"
proof (induction ps arbitrary: seq i)
  case (Cons p ps)
  then show ?case by (cases i) (auto simp: algebra_simps)
qed simp

lemma fragment_sizes: "p \<in> set (fragments h s d) \<Longrightarrow> length p \<le> rtp_payload_bytes"
proof (induction h s d rule: fragments.induct)
  case (1 h s d)
  then show ?case by (cases "d = []") (auto simp: fragments.simps [of h s d] fragments.simps [of h s "[]"] Let_def rtp_payload_bytes_def)
qed

lemma payload_sizes: "p \<in> set (unit_payloads u) \<Longrightarrow> length p \<le> rtp_payload_bytes"
  by (auto simp: unit_payloads_def fragment_sizes split: if_splits)

lemma payloads_ok: "p \<in> set (concat (map unit_payloads us)) \<Longrightarrow> length p \<le> 1200"
  using payload_sizes by (auto simp: rtp_payload_bytes_def)

lemma packets_ok:
  assumes "i < length (frame_packets seq f)"
  shows "length (rp_payload (frame_packets seq f ! i)) \<le> 1200 \<and> rp_sequence (frame_packets seq f ! i) = seq + of_nat i
    \<and> (rp_marker (frame_packets seq f ! i) \<longleftrightarrow> i + 1 = length (frame_packets seq f))"
  using assms packet_nth [of i "concat (map unit_payloads (split_avcc (hf_avcc f)))" seq "hf_timestamp f"] payloads_ok [OF nth_mem, of i]
  by (simp add: frame_packets_def)

section \<open>Runs\<close>

text \<open>All the output of a host, to its end.\<close>

fun host_run :: "host_parser \<Rightarrow> byte_list list \<Rightarrow> host_report list \<times> host_parser" where
  "host_run s [] = host_end s"
| "host_run s (c # cs) = (case host_push c s of (es, t) \<Rightarrow> (es @ fst (host_run t cs), snd (host_run t cs)))"

definition failed_parser :: host_parser where
  "failed_parser = \<lparr>hp_buffer = [], hp_failed = True\<rparr>"

lemma host_run_failed: "host_run failed_parser cs = ([], failed_parser)"
  by (induction cs) (simp_all add: failed_parser_def host_end_def host_push_def)

lemma host_run_feed:
  "host_drain r = ([], Some r) \<Longrightarrow> host_run \<lparr>hp_buffer = r, hp_failed = False\<rparr> cs = (case feed host_drain r cs of
       (es, None) \<Rightarrow> (es @ [Host_failure], failed_parser)
     | (es, Some q) \<Rightarrow> (es @ fst (host_end \<lparr>hp_buffer = q, hp_failed = False\<rparr>), snd (host_end \<lparr>hp_buffer = q, hp_failed = False\<rparr>)))"
proof (induction cs arbitrary: r)
  case (Cons c cs)
  show ?case
  proof (cases "c = []")
    case True
    then show ?thesis using Cons by (simp add: host_push_def split: prod.split)
  next
    case False
    obtain es x where d: "host_drain (r @ c) = (es, x)" by fastforce
    show ?thesis
    proof (cases x)
      case None
      then show ?thesis using False d by (simp add: host_push_def host_fail_def host_run_failed flip: failed_parser_def)
    next
      case (Some q)
      then have "host_drain q = ([], Some q)" using host_records.records.kept_is_drained d by blast
      then show ?thesis using Cons.IH False d Some by (simp add: host_push_def split: prod.splits option.splits)
    qed
  qed
qed simp

lemma host_drain_empty: "host_drain [] = ([], Some [])"
  by (simp add: host_drain.simps)

lemma host_run_concat: "host_run new_host_parser cs = (case host_drain (concat cs) of
       (es, None) \<Rightarrow> (es @ [Host_failure], failed_parser)
     | (es, Some q) \<Rightarrow> (es @ fst (host_end \<lparr>hp_buffer = q, hp_failed = False\<rparr>), snd (host_end \<lparr>hp_buffer = q, hp_failed = False\<rparr>)))"
  unfolding new_host_parser_def
  using host_run_feed [OF host_drain_empty, of cs] host_records.records.feed_concat [of "[]" cs] host_drain_empty by simp

lemma host_run_records: "host_drain (concat recs) = (es, Some []) \<Longrightarrow> concat ds = concat recs \<Longrightarrow> host_run new_host_parser ds = (es, new_host_parser)"
  by (simp only: host_run_concat) (simp add: host_end_def new_host_parser_def)

lemma records_read:
  "map2 (\<lambda>(us, k) t. frame_record (avcc_from_nals us) t k w h) es ts = map Inr recs \<Longrightarrow> length ts = length es \<Longrightarrow>
    host_drain (concat recs) = (map Host_frame (map2 (\<lambda>(us, k) t. frame_of_record (avcc_from_nals us) t k w h) es ts), Some [])"
proof (induction es ts arbitrary: recs rule: list_induct2')
  case (4 e es t ts)
  then obtain rec recs' where r: "recs = rec # recs'" by (cases recs) auto
  then show ?case using 4 frame_record_read [of "avcc_from_nals (fst e)" t "snd e" w h rec "concat recs'"]
    by (auto split: prod.splits)
qed (auto simp: host_drain_empty)

lemma jpeg_record_pushed:
  assumes "jpeg_frame_record j w h = Inr r"
  shows "r \<noteq> [] \<and> wss_drain r = ([Wss_frame \<lparr>wp_data = j, wp_width = nat (num_to_int w), wp_height = nat (num_to_int h)\<rparr>], Some [])"
proof -
  have "r \<noteq> []" "length r \<le> max_host_frame + 5"
    using assms by (auto simp: jpeg_frame_record_def host_record_def max_host_frame_def split: if_splits)
  moreover have "wss_loop [] = ([], Some [])" by (simp add: wss_loop.simps)
  ultimately show ?thesis using jpeg_record_read [OF assms, of "[]"] by (simp add: wss_drain_def)
qed

text \<open>Two access units, in chunks that cut a start code and a record.\<close>

definition demo_units :: "access_unit list" where
  "demo_units = [((True, [9, 16]), [(True, [103, 1]), (False, [101, 2])]), ((True, [9, 48]), [(True, [65, 3])])]"

definition demo_stream :: "byte_list list" where
  "demo_stream = [[0, 0], [0, 1, 9, 16, 0, 0, 0, 1, 103, 1, 0], [0, 1, 101, 2, 0, 0, 0, 1, 9, 48, 0, 0, 0, 1, 65, 3]]"

definition demo_records :: "byte_list list" where
  "demo_records = [[1, 0, 0, 0, 21, 0, 0, 0, 0, 1, 2, 128, 1, 224, 0, 0, 0, 2, 103, 1, 0, 0, 0, 2, 101, 2],
     [1, 0, 0, 0, 15, 0, 0, 11, 184, 0, 2, 128, 1, 224, 0, 0, 0, 2, 65, 3]]"

definition demo_wire :: "byte_list list" where
  "demo_wire = [take 7 (concat demo_records), drop 7 (concat demo_records)]"

section \<open>Properties\<close>

text \<open>C11. Video reaches the browser unchanged: whatever chunks the pipes deliver, access units with delimiters written by an encoder
  come out of the host's parser as they went in, their records are read back with their keyframe flags, and a receiver of
  the RTP packets rebuilds the same units. Every packet holds at most 1200 bytes, sequence numbers follow one another
  in 16 bits, and only the last packet of a frame carries the marker.
\<close>

theorem video_path:
  assumes "as \<noteq> []" and "\<forall>a\<in>set as. access_unit_ok a \<and> (\<forall>u\<in>set (map snd (snd a)). unit_ok u)"
    and "concat cs = concat (map coded_unit (units_of as))" and "es = fst (annexb_run new_annexb cs)"
    and "length ts = length es" and "map2 (\<lambda>(us, k) t. frame_record (avcc_from_nals us) t k w h) es ts = map Inr recs"
    and "concat ds = concat recs"
  shows "es = concat (map (\<lambda>a. emit_current (map snd (snd a))) as)
    \<and> (\<exists>fs. host_run new_host_parser ds = (map Host_frame fs, new_host_parser)
      \<and> map hf_keyframe fs = map snd es
      \<and> map (\<lambda>f. rebuild None (map rp_payload (frame_packets seq f))) fs = map fst es
      \<and> (\<forall>f\<in>set fs. \<forall>i < length (frame_packets seq f).
           length (rp_payload (frame_packets seq f ! i)) \<le> 1200
           \<and> rp_sequence (frame_packets seq f ! i) = seq + of_nat i
           \<and> (rp_marker (frame_packets seq f ! i) \<longleftrightarrow> i + 1 = length (frame_packets seq f))))"
proof -
  have es: "es = concat (map (\<lambda>a. emit_current (map snd (snd a))) as)"
    using annexb_stream [OF _ assms(1,3)] assms(2,4) by simp
  have units: "\<forall>e\<in>set es. \<forall>u\<in>set (fst e). unit_ok u"
    unfolding es using assms(2) by (fastforce simp: emit_current_def)
  let ?fs = "map2 (\<lambda>(us, k) t. frame_of_record (avcc_from_nals us) t k w h) es ts"
  have "host_run new_host_parser ds = (map Host_frame ?fs, new_host_parser)"
    by (rule host_run_records) (use assms(7) records_read [OF assms(6,5)] in simp_all)
  moreover have "map hf_keyframe ?fs = map snd es"
    using assms(5) by (induction es ts rule: list_induct2') (auto simp: frame_of_record_def)
  moreover have "map (\<lambda>f. rebuild None (map rp_payload (frame_packets seq f))) ?fs = map fst es"
    using assms(5) units
    by (induction es ts rule: list_induct2') (auto simp: frame_of_record_def frame_packets_def split_avcc_read rebuild_units)
  moreover have "\<forall>f. \<forall>i < length (frame_packets seq f). length (rp_payload (frame_packets seq f ! i)) \<le> 1200
      \<and> rp_sequence (frame_packets seq f ! i) = seq + of_nat i
      \<and> (rp_marker (frame_packets seq f ! i) \<longleftrightarrow> i + 1 = length (frame_packets seq f))"
    using packets_ok by blast
  ultimately show ?thesis using es by blast
qed

theorem video_path_witness:
  "\<exists>fs. host_run new_host_parser demo_wire = (map Host_frame fs, new_host_parser)
    \<and> map (\<lambda>f. rebuild None (map rp_payload (frame_packets 0xffff f))) fs = [[[103, 1], [101, 2]], [[65, 3]]]"
proof -
  let ?es = "[([[103, 1], [101, 2]], True), ([[65, 3]], False)] :: (byte_list list \<times> bool) list"
  have units: "\<forall>a\<in>set demo_units. access_unit_ok a \<and> (\<forall>u\<in>set (map snd (snd a)). unit_ok u)"
    by (simp add: demo_units_def access_unit_ok_def nal_type_def unit_ok_def max_host_frame_def)
  have stream: "concat demo_stream = concat (map coded_unit (units_of demo_units))"
    by (simp add: demo_stream_def demo_units_def units_of_def coded_unit_def)
  have es: "fst (annexb_run new_annexb demo_stream) = ?es"
    using annexb_stream [OF _ _ stream] units by (simp add: demo_units_def emit_current_def nal_type_def)
  have recs: "map2 (\<lambda>(us, k) t. frame_record (avcc_from_nals us) t k (num_of_int 640) (num_of_int 480)) ?es [num_of_int 0, num_of_int 3000]
      = map Inr demo_records"
    by (simp add: frame_record_def avcc_from_nals_def max_host_frame_def picture_size_ok_def host_record_def big_endian_eval demo_records_def)
  have wire: "concat demo_wire = concat demo_records" by (simp add: demo_wire_def)
  have "demo_units \<noteq> []" by (simp add: demo_units_def)
  from video_path [OF this units stream es [symmetric] _ recs wire, where seq = "0xffff"] show ?thesis by auto
qed

text \<open>C12. How the pipe cuts the output of the video host does not matter: two ways to deliver the same bytes give the same
  frames and focus reports in the same order, fail at the same record or not at all, and leave the parser in the same state.
\<close>

theorem host_chunks_do_not_matter:
  assumes "concat cs = concat ds"
  shows "host_run new_host_parser cs = host_run new_host_parser ds"
  using host_run_concat [of cs] host_run_concat [of ds] assms by simp

theorem host_chunks_do_not_matter_witness:
  "host_run new_host_parser [[2, 0, 0], [0, 1, 1, 7], [0, 0, 0, 0]] = host_run new_host_parser [[2, 0, 0, 0, 1, 1, 7, 0, 0, 0, 0]]"
  by (rule host_chunks_do_not_matter) simp

text \<open>The limit of the picture parser depends on the chunks: two records that it accepts one after the other are refused when
  one chunk brings both and together they exceed the limit that is meant for one record.
\<close>

theorem picture_limit_depends_on_chunks:
  assumes "jpeg_frame_record j1 w1 h1 = Inr r1" and "jpeg_frame_record j2 w2 h2 = Inr r2"
    and "max_host_frame + 5 < length (r1 @ r2)"
  shows "wss_push (r1 @ r2) [] = ([], None)
    \<and> wss_push r1 [] = ([Wss_frame \<lparr>wp_data = j1, wp_width = nat (num_to_int w1), wp_height = nat (num_to_int h1)\<rparr>], Some [])
    \<and> wss_push r2 [] = ([Wss_frame \<lparr>wp_data = j2, wp_width = nat (num_to_int w2), wp_height = nat (num_to_int h2)\<rparr>], Some [])"
  using assms jpeg_record_pushed by (auto simp: wss_push_def wss_drain_def)

theorem picture_limit_depends_on_chunks_witness:
  "let j = jpeg_soi @ replicate 5000000 0 @ jpeg_eoi; r = host_record 2 ([2, 128, 1, 224] @ j) in wss_push (r @ r) [] = ([], None)"
proof -
  let ?j = "jpeg_soi @ replicate 5000000 0 @ jpeg_eoi" let ?r = "host_record 2 ([2, 128, 1, 224] @ ?j)"
  have "length ?j = 5000004" by (simp add: jpeg_soi_def jpeg_eoi_def)
  then have r: "jpeg_frame_record ?j (num_of_int 640) (num_of_int 480) = Inr ?r"
    by (simp add: jpeg_frame_record_def max_host_frame_def picture_size_ok_def host_record_def big_endian_eval
      jpeg_soi_def jpeg_eoi_def)
  have "max_host_frame + 5 < length (?r @ ?r)" by (simp add: host_record_def max_host_frame_def jpeg_soi_def jpeg_eoi_def)
  then show ?thesis using picture_limit_depends_on_chunks [OF r r] by (simp only: Let_def)
qed

end
