(* ===== verification/Webrtc_Runtime.thy ===== *)
theory Webrtc_Runtime
  imports Webrtc_Media "HOL-Library.AList"
begin

text \<open>
  \<open>SpawnedWebRtcRuntimeProvider\<close> of \<open>src/browser-takeover/webrtc-runtime.ts\<close>: prepare, start, reconnect, suspend, revoke and
  the end of a runtime, the callbacks of its peer and its host, the frames it sends and the input it passes on. Every
  await is a task, a step of its own; any number of calls may be under way, and the environment settles their awaits in
  any order. A runtime, a peer, a host process, an issued ICE session and a call are numbers.
  A runtime object outlives its entry in \<open>active\<close>: callbacks and tasks go on referring to it.
\<close>

section \<open>State\<close>

record webrtc_binding =
  mb_id :: string
  mb_intervention :: string
  mb_epoch :: int
  mb_principal :: string
  mb_client :: string
  mb_generation :: int
  mb_expires :: int
  mb_process :: "int option"
  mb_window :: "int option"

definition same_reconnect_authority :: "webrtc_binding \<Rightarrow> webrtc_binding \<Rightarrow> bool" where
  "same_reconnect_authority l r \<longleftrightarrow> mb_id l = mb_id r \<and> mb_intervention l = mb_intervention r \<and> mb_epoch l = mb_epoch r
     \<and> mb_principal l = mb_principal r \<and> mb_expires l = mb_expires r \<and> mb_process l = mb_process r \<and> mb_window l = mb_window r"

definition same_webrtc_binding :: "webrtc_binding \<Rightarrow> webrtc_binding \<Rightarrow> bool" where
  "same_webrtc_binding l r \<longleftrightarrow> mb_id l = mb_id r \<and> mb_intervention l = mb_intervention r \<and> mb_epoch l = mb_epoch r
     \<and> mb_principal l = mb_principal r \<and> mb_client l = mb_client r \<and> mb_generation l = mb_generation r
     \<and> mb_expires l = mb_expires r \<and> mb_process l = mb_process r \<and> mb_window l = mb_window r"

datatype end_cause = Expiry | Generation_replace | Explicit_revoke | Peer_gone | Host_protocol | Host_exit | Host_error
  | Target_missing | Video_drain

datatype ready_gate = Unsettled | Gate_resolved | Gate_rejected

definition settle_gate :: "bool \<Rightarrow> ready_gate \<Rightarrow> ready_gate" where
  "settle_gate ok g = (if g \<noteq> Unsettled then g else if ok then Gate_resolved else Gate_rejected)"

datatype peer_state = Peer_new | Peer_connecting | Peer_connected | Peer_disconnected | Peer_failed | Peer_closed

record media_runtime =
  mr_binding :: webrtc_binding
  mr_ice :: "nat option"
  mr_timer :: bool
  mr_host :: nat
  mr_peer :: nat
  mr_sender :: "nat option"
  mr_hooks :: nat
  mr_closing :: bool
  mr_suspended :: bool
  mr_resume_failed :: bool
  mr_connected :: bool
  mr_critical :: "nat option"
  mr_sequence :: "16 word"
  mr_idr_at :: int
  mr_draining :: bool
  mr_awaiting :: bool
  mr_pending :: "host_frame option"
  mr_preconnect :: "host_frame option"
  mr_host_ready :: "ready_gate option"
  mr_media_ready :: ready_gate
  mr_cause :: "end_cause option"

text \<open>Human input, as \<open>parseHumanInput\<close> returns it.\<close>

datatype media_input = Mi_tap jsnum jsnum | Mi_button bool jsnum jsnum | Mi_scroll jsnum jsnum | Mi_text string | Mi_key string

datatype media_result = Media_ok | Offer_invalid | Already_active | Ice_not_prepared | Start_failed | Revoke_failed

text \<open>What the provider does to the outside. \<open>Begin_input\<close>, \<open>Hook_terminal\<close> and \<open>Hook_disconnected\<close> call the hooks of a start.\<close>

datatype media_effect =
    Close_peer nat
  | Kill_host nat
  | Revoke_ice nat
  | Hook_terminal nat nat end_cause
  | Hook_disconnected nat nat
  | Tell_verifying nat
  | Frame_taken nat nat host_frame
  | Packet_sent nat nat rtp_packet
  | Idr_requested nat
  | Begin_input nat nat media_input
  | Host_input nat string
  | Unhandled_rejection
  | Returned nat media_result

text \<open>A call of \<open>start\<close> or \<open>reconnect\<close>, and who waits for \<open>prepare\<close>.\<close>

record start_call =
  sc_call :: nat
  sc_binding :: webrtc_binding
  sc_hooks :: nat

datatype after_prepare = To_caller nat | To_start start_call "nat option"

text \<open>What runs when the end of a runtime, or the revocation of prepared credentials, is over.\<close>

datatype after_end =
    End_void
  | End_prepare webrtc_binding after_prepare
  | End_start start_call "nat option"
  | End_revoke nat
  | End_revoke_next nat "string list"
  | End_resume start_call

datatype after_revoke =
    Revoke_void
  | Revoke_prepare webrtc_binding after_prepare
  | Revoke_suspend string nat
  | Revoke_end string nat
  | Revoke_end_next string nat "string list"

datatype start_stage = Host_ready_stage | Media_ready_stage | Remote_stage | Answer_stage | Local_stage

datatype media_task =
    Ending_peer nat bool after_end
  | Ending_exit nat bool after_end
  | Ending_ice nat bool after_end
  | Revoking_prepared after_revoke
  | Issuing webrtc_binding after_prepare
  | Spawning start_call nat nat nat
  | Starting start_stage start_call nat nat nat
  | Continuing start_call "nat option"
  | Ended bool after_end
  | Revoked after_revoke
  | Start_closing start_call nat
  | Start_revoking start_call
  | Resuming start_stage start_call nat nat
  | Suspending_peer nat nat
  | Suspending_ice nat

text \<open>One frame being sent: \<open>dr_left\<close> begins with the packet that \<open>sendRtp\<close> has taken.\<close>

record frame_drain =
  dr_runtime :: nat
  dr_sender :: nat
  dr_left :: "rtp_packet list"

record prepared_ice =
  pi_binding :: webrtc_binding
  pi_ice :: nat

record media_world =
  mw_active :: "(string \<times> nat) list"
  mw_prepared :: "(string \<times> prepared_ice) list"
  mw_timers :: "(string \<times> nat) list"
  mw_runtimes :: "media_runtime list"
  mw_peers :: "(peer_state \<times> nat option) list"
  mw_drains :: "frame_drain option list"
  mw_tasks :: "media_task option list"
  mw_ice_count :: nat
  mw_hosts :: nat
  mw_log :: "media_effect list"

record media_config =
  md_provider :: bool
  md_display :: bool
  md_preserve :: bool

text \<open>
  The answers of the environment during one step: the clock, the \<open>terminal\<close> hook (\<open>None\<close>: it is not defined), whether the
  critical channel is open, whether the host takes a command, whether \<open>beginInput\<close> succeeds, whether an await resolved,
  whether the process could be spawned and whether it has exited, and a fresh sequence number.
\<close>

record media_env =
  ev_now :: int
  ev_terminal :: "bool option"
  ev_open :: bool
  ev_stdin :: bool
  ev_begin :: bool
  ev_ok :: bool
  ev_spawn :: bool
  ev_exited :: bool
  ev_random :: "16 word"

text \<open>Every reference is to a runtime that exists; reading any other number gives one that has ended.\<close>

definition no_runtime :: media_runtime where
  "no_runtime = \<lparr>mr_binding = \<lparr>mb_id = [], mb_intervention = [], mb_epoch = 0, mb_principal = [], mb_client = [], mb_generation = 0,
       mb_expires = 0, mb_process = None, mb_window = None\<rparr>,
     mr_ice = None, mr_timer = False, mr_host = 0, mr_peer = 0, mr_sender = None, mr_hooks = 0,
     mr_closing = True, mr_suspended = False, mr_resume_failed = False, mr_connected = False, mr_critical = None,
     mr_sequence = 0, mr_idr_at = 0, mr_draining = False, mr_awaiting = False, mr_pending = None, mr_preconnect = None,
     mr_host_ready = None, mr_media_ready = Gate_rejected, mr_cause = None\<rparr>"

definition rt :: "media_world \<Rightarrow> nat \<Rightarrow> media_runtime" where
  "rt w i = (if i < length (mw_runtimes w) then mw_runtimes w ! i else no_runtime)"

definition change :: "nat \<Rightarrow> (media_runtime \<Rightarrow> media_runtime) \<Rightarrow> media_world \<Rightarrow> media_world" where
  "change i f w = w\<lparr>mw_runtimes := (mw_runtimes w)[i := f (rt w i)]\<rparr>"

definition emit :: "media_effect \<Rightarrow> media_world \<Rightarrow> media_world" where
  "emit e w = w\<lparr>mw_log := mw_log w @ [e]\<rparr>"

definition spawn_task :: "media_task \<Rightarrow> media_world \<Rightarrow> media_world" where
  "spawn_task t w = w\<lparr>mw_tasks := mw_tasks w @ [Some t]\<rparr>"

definition peer_up :: "media_world \<Rightarrow> nat \<Rightarrow> bool" where
  "peer_up w i \<longleftrightarrow> fst (mw_peers w ! mr_peer (rt w i)) = Peer_connected"

definition drop_key :: "string \<Rightarrow> (string \<times> 'a) list \<Rightarrow> (string \<times> 'a) list" where
  "drop_key k m = filter (\<lambda>p. fst p \<noteq> k) m"

section \<open>Frames\<close>

definition request_idr :: "media_env \<Rightarrow> nat \<Rightarrow> media_world \<Rightarrow> media_world" where
  "request_idr e i w = (if mr_closing (rt w i) \<or> ev_now e - mr_idr_at (rt w i) < 250 then w
     else (let w1 = change i (\<lambda>r. r\<lparr>mr_idr_at := ev_now e\<rparr>) w in if ev_stdin e then emit (Idr_requested i) w1 else w1))"

definition may_send :: "media_world \<Rightarrow> nat \<Rightarrow> bool" where
  "may_send w i \<longleftrightarrow> \<not> mr_closing (rt w i) \<and> peer_up w i"

text \<open>
  The loop of \<open>drainLatestFrames\<close> up to its next await: it takes the pending frame and sends its first packet, or it ends.
\<close>

definition drain_loop :: "nat \<Rightarrow> media_world \<Rightarrow> media_world" where
  "drain_loop i w = (case (mr_sender (rt w i), mr_pending (rt w i)) of
     (Some p, Some f) \<Rightarrow>
       if \<not> may_send w i then change i (\<lambda>r. r\<lparr>mr_draining := False\<rparr>) w
       else (let w1 = emit (Frame_taken i (mr_peer (rt w i)) f) (change i (\<lambda>r. r\<lparr>mr_pending := None\<rparr>) w) in
         case frame_packets (mr_sequence (rt w i)) f of
           [] \<Rightarrow> change i (\<lambda>r. r\<lparr>mr_draining := False\<rparr>) w1
         | q # qs \<Rightarrow> emit (Packet_sent i p q)
             (w1\<lparr>mw_drains := mw_drains w1 @ [Some \<lparr>dr_runtime = i, dr_sender = p, dr_left = q # qs\<rparr>]\<rparr>))
   | _ \<Rightarrow> change i (\<lambda>r. r\<lparr>mr_draining := False\<rparr>) w)"

definition start_drain :: "nat \<Rightarrow> media_world \<Rightarrow> media_world" where
  "start_drain i w = (if mr_draining (rt w i) then w else drain_loop i (change i (\<lambda>r. r\<lparr>mr_draining := True\<rparr>) w))"

definition enqueue_connected :: "media_env \<Rightarrow> host_frame \<Rightarrow> nat \<Rightarrow> media_world \<Rightarrow> media_world" where
  "enqueue_connected e f i w = (let r = rt w i in
     if \<not> may_send w i \<or> mr_sender r = None then w
     else if mr_awaiting r then
       (if \<not> hf_keyframe f then w
        else start_drain i (change i (\<lambda>r. r\<lparr>mr_awaiting := False, mr_pending := Some f\<rparr>) w))
     else (case mr_pending r of
         None \<Rightarrow> start_drain i (change i (\<lambda>r. r\<lparr>mr_pending := Some f\<rparr>) w)
       | Some g \<Rightarrow>
           if hf_keyframe g then
             (if hf_keyframe f then start_drain i (change i (\<lambda>r. r\<lparr>mr_pending := Some f\<rparr>) w) else w)
           else (let w1 = request_idr e i (change i (\<lambda>r. r\<lparr>mr_pending := None, mr_awaiting := True\<rparr>) w) in
             if \<not> hf_keyframe f then w1
             else start_drain i (change i (\<lambda>r. r\<lparr>mr_awaiting := False, mr_pending := Some f\<rparr>) w1))))"

definition write_frame :: "media_env \<Rightarrow> host_frame \<Rightarrow> nat \<Rightarrow> media_world \<Rightarrow> media_world" where
  "write_frame e f i w = (let r = rt w i; keep = (if hf_keyframe f then change i (\<lambda>r. r\<lparr>mr_preconnect := Some f\<rparr>) w else w) in
     if mr_closing r then w
     else if mr_suspended r then keep
     else if \<not> peer_up w i \<or> mr_sender r = None then keep
     else enqueue_connected e f i w)"

section \<open>The end of a runtime\<close>

text \<open>
  \<open>end\<close> up to its first await: the entry goes and the hooks are told before anything is torn down. An await of a promise
  that is already settled is a task too (\<open>Ended\<close>, \<open>Revoked\<close>).
\<close>

definition end_runtime :: "media_env \<Rightarrow> string \<Rightarrow> bool \<Rightarrow> end_cause \<Rightarrow> after_end \<Rightarrow> media_world \<Rightarrow> media_world" where
  "end_runtime e sid notify cause k w = (case map_of (mw_active w) sid of
     None \<Rightarrow> spawn_task (Ended True k) w
   | Some i \<Rightarrow> (let r = rt w i in
       if mr_closing r then spawn_task (Ended True k) w
       else (let
         w1 = (change i (\<lambda>r. r\<lparr>mr_cause := Some cause, mr_closing := True, mr_suspended := False, mr_timer := False\<rparr>) w)
           \<lparr>mw_active := drop_key sid (mw_active w)\<rparr>;
         w2 = (if notify \<and> mr_connected r \<and> ev_terminal e \<noteq> None then emit (Hook_terminal i (mr_hooks r) cause) w1 else w1);
         verifying = (notify \<and> mr_connected r \<and> ev_terminal e = Some True);
         w3 = (if verifying \<and> mr_critical r \<noteq> None \<and> ev_open e then emit (Tell_verifying i) w2
               else if notify then emit (Hook_disconnected i (mr_hooks r)) w2 else w2)
         in spawn_task (Ending_peer i notify k) (emit (Close_peer (mr_peer r)) w3))))"

text \<open>\<open>revokePrepared\<close> up to its await.\<close>

definition revoke_prepared_ice :: "string \<Rightarrow> after_revoke \<Rightarrow> media_world \<Rightarrow> media_world" where
  "revoke_prepared_ice sid k w = (case map_of (mw_prepared w) sid of
     None \<Rightarrow> spawn_task (Revoked k) w
   | Some p \<Rightarrow> spawn_task (Revoking_prepared k) (emit (Revoke_ice (pi_ice p))
       (w\<lparr>mw_prepared := drop_key sid (mw_prepared w), mw_timers := filter (\<lambda>t. t \<noteq> (sid, pi_ice p)) (mw_timers w)\<rparr>)))"

section \<open>Prepare\<close>

definition answer_prepare :: "after_prepare \<Rightarrow> media_result \<Rightarrow> media_world \<Rightarrow> media_world" where
  "answer_prepare a res w = (case a of
     To_caller n \<Rightarrow> emit (Returned n res) w
   | To_start c ex \<Rightarrow> if res = Media_ok then spawn_task (Continuing c ex) w else emit (Returned (sc_call c) res) w)"

definition prepare_call :: "media_env \<Rightarrow> webrtc_binding \<Rightarrow> after_prepare \<Rightarrow> media_world \<Rightarrow> media_world" where
  "prepare_call e b a w = (case map_of (mw_active w) (mb_id b) of
     None \<Rightarrow> revoke_prepared_ice (mb_id b) (Revoke_prepare b a) w
   | Some i \<Rightarrow> (let r = rt w i in
       if mb_generation (mr_binding r) = mb_generation b \<and> \<not> mr_suspended r then answer_prepare a Already_active w
       else if mr_suspended r then
         (if mr_resume_failed r \<or> \<not> same_reconnect_authority (mr_binding r) b then answer_prepare a Start_failed w
          else revoke_prepared_ice (mb_id b) (Revoke_prepare b a) w)
       else end_runtime e (mb_id b) False Generation_replace (End_prepare b a) w))"

text \<open>The session is stored, whether it was issued, is direct by configuration, or is direct because the provider failed.\<close>

definition store_media :: "webrtc_binding \<Rightarrow> after_prepare \<Rightarrow> media_world \<Rightarrow> media_world" where
  "store_media b a w = (let n = mw_ice_count w in
     answer_prepare a Media_ok (w\<lparr>mw_ice_count := n + 1,
       mw_prepared := AList.update (mb_id b) \<lparr>pi_binding = b, pi_ice = n\<rparr> (mw_prepared w),
       mw_timers := mw_timers w @ [(mb_id b, n)]\<rparr>))"

section \<open>Start and resume\<close>

definition start_failed :: "start_call \<Rightarrow> nat \<Rightarrow> nat \<Rightarrow> nat option \<Rightarrow> media_world \<Rightarrow> media_world" where
  "start_failed c ice p h w = (let w1 = (case h of None \<Rightarrow> w | Some x \<Rightarrow> emit (Kill_host x) w) in
     spawn_task (Start_closing c ice) (emit (Close_peer p) w1))"

definition resume_suspended :: "media_env \<Rightarrow> nat \<Rightarrow> start_call \<Rightarrow> nat \<Rightarrow> media_world \<Rightarrow> media_world" where
  "resume_suspended e i c ice w = (let p = length (mw_peers w) in
     spawn_task (Resuming Remote_stage c i p)
       (change i (\<lambda>r. r\<lparr>mr_binding := sc_binding c, mr_ice := Some ice, mr_peer := p, mr_hooks := sc_hooks c, mr_suspended := False,
           mr_resume_failed := False, mr_sequence := ev_random e, mr_idr_at := 0, mr_draining := False, mr_awaiting := True,
           mr_pending := None, mr_preconnect := None, mr_critical := None, mr_sender := None\<rparr>)
         (w\<lparr>mw_peers := mw_peers w @ [(Peer_new, Some i)]\<rparr>)))"

definition fresh_start :: "media_env \<Rightarrow> start_call \<Rightarrow> nat \<Rightarrow> media_world \<Rightarrow> media_world" where
  "fresh_start e c ice w = (let p = length (mw_peers w); w1 = w\<lparr>mw_peers := mw_peers w @ [(Peer_new, None)]\<rparr> in
     if ev_spawn e then spawn_task (Spawning c ice p (mw_hosts w)) (w1\<lparr>mw_hosts := mw_hosts w + 1\<rparr>)
     else start_failed c ice p None w1)"

text \<open>\<open>start\<close> once the preparation is there: \<open>ex\<close> is the runtime that was active when it was called.\<close>

definition start_prepared :: "media_env \<Rightarrow> start_call \<Rightarrow> nat option \<Rightarrow> media_world \<Rightarrow> media_world" where
  "start_prepared e c ex w = (let b = sc_binding c in
     case map_of (mw_prepared w) (mb_id b) of
       None \<Rightarrow> emit (Returned (sc_call c) Ice_not_prepared) w
     | Some pr \<Rightarrow>
         if \<not> same_webrtc_binding (pi_binding pr) b then emit (Returned (sc_call c) Ice_not_prepared) w
         else (let w1 = w\<lparr>mw_prepared := drop_key (mb_id b) (mw_prepared w),
             mw_timers := filter (\<lambda>t. t \<noteq> (mb_id b, pi_ice pr)) (mw_timers w)\<rparr> in
           case ex of
             Some i \<Rightarrow> if mr_suspended (rt w i) then resume_suspended e i c (pi_ice pr) w1 else fresh_start e c (pi_ice pr) w1
           | None \<Rightarrow> fresh_start e c (pi_ice pr) w1))"

definition start_ready :: "media_config \<Rightarrow> media_env \<Rightarrow> start_call \<Rightarrow> nat option \<Rightarrow> media_world \<Rightarrow> media_world" where
  "start_ready cfg e c ex w =
     (if map_of (mw_prepared w) (mb_id (sc_binding c)) = None \<and> \<not> md_provider cfg then prepare_call e (sc_binding c) (To_start c ex) w
      else start_prepared e c ex w)"

text \<open>\<open>start\<close> and \<open>reconnect\<close>; \<open>offer\<close>: the offer is one, and within its size.\<close>

definition start_media :: "media_config \<Rightarrow> media_env \<Rightarrow> bool \<Rightarrow> start_call \<Rightarrow> media_world \<Rightarrow> media_world" where
  "start_media cfg e offer c w = (let b = sc_binding c in
     if \<not> offer then emit (Returned (sc_call c) Offer_invalid) w
     else (case map_of (mw_active w) (mb_id b) of
         None \<Rightarrow> start_ready cfg e c None w
       | Some i \<Rightarrow> (let r = rt w i in
           if mb_generation (mr_binding r) = mb_generation b \<and> \<not> mr_suspended r then emit (Returned (sc_call c) Already_active) w
           else if mr_suspended r then
             (if mr_resume_failed r \<or> \<not> same_reconnect_authority (mr_binding r) b then emit (Returned (sc_call c) Start_failed) w
              else start_ready cfg e c (Some i) w)
           else end_runtime e (mb_id b) False Generation_replace (End_start c (Some i)) w)))"

text \<open>The host runs: the runtime is entered and its callbacks attached.\<close>

definition enter_runtime :: "media_config \<Rightarrow> media_env \<Rightarrow> start_call \<Rightarrow> nat \<Rightarrow> nat \<Rightarrow> nat \<Rightarrow> media_world \<Rightarrow> media_world" where
  "enter_runtime cfg e c ice p h w = (let i = length (mw_runtimes w);
       r = \<lparr>mr_binding = sc_binding c, mr_ice = Some ice, mr_timer = True, mr_host = h, mr_peer = p, mr_sender = None, mr_hooks = sc_hooks c,
         mr_closing = False, mr_suspended = False, mr_resume_failed = False, mr_connected = False, mr_critical = None,
         mr_sequence = ev_random e, mr_idr_at = 0, mr_draining = False, mr_awaiting = False, mr_pending = None, mr_preconnect = None,
         mr_host_ready = (if md_display cfg then Some Unsettled else None), mr_media_ready = Unsettled, mr_cause = None\<rparr> in
     spawn_task (Starting (if md_display cfg then Host_ready_stage else Media_ready_stage) c ice i p)
       (w\<lparr>mw_runtimes := mw_runtimes w @ [r], mw_active := AList.update (mb_id (sc_binding c)) i (mw_active w),
          mw_peers := (mw_peers w)[p := (Peer_new, Some i)]\<rparr>))"

fun next_stage :: "start_stage \<Rightarrow> start_stage option" where
  "next_stage Host_ready_stage = Some Media_ready_stage"
| "next_stage Media_ready_stage = Some Remote_stage"
| "next_stage Remote_stage = Some Answer_stage"
| "next_stage Answer_stage = Some Local_stage"
| "next_stage Local_stage = None"

text \<open>A gate is passed only when it was resolved; it fails by itself, or by its time limit.\<close>

definition stage_passed :: "media_env \<Rightarrow> media_runtime \<Rightarrow> start_stage \<Rightarrow> bool" where
  "stage_passed e r st = (case st of
     Host_ready_stage \<Rightarrow> ev_ok e \<and> mr_host_ready r = Some Gate_resolved
   | Media_ready_stage \<Rightarrow> ev_ok e \<and> mr_media_ready r = Gate_resolved
   | _ \<Rightarrow> ev_ok e)"

definition stage_over :: "start_stage \<Rightarrow> nat \<Rightarrow> nat \<Rightarrow> start_call \<Rightarrow> (start_stage \<Rightarrow> media_task) \<Rightarrow> media_world \<Rightarrow> media_world" where
  "stage_over st i p c t w = (let w1 = (if st = Remote_stage then change i (\<lambda>r. r\<lparr>mr_sender := Some p\<rparr>) w else w) in
     case next_stage st of None \<Rightarrow> emit (Returned (sc_call c) Media_ok) w1 | Some st' \<Rightarrow> spawn_task (t st') w1)"

section \<open>Suspend and revoke\<close>

definition suspend_now :: "string \<Rightarrow> nat \<Rightarrow> media_world \<Rightarrow> media_world" where
  "suspend_now sid n w = (case map_of (mw_active w) sid of
     None \<Rightarrow> emit (Returned n Media_ok) w
   | Some i \<Rightarrow> (let r = rt w i in
       if mr_closing r \<or> mr_suspended r then emit (Returned n Media_ok) w
       else spawn_task (Suspending_peer i n) (emit (Close_peer (mr_peer r))
         (change i (\<lambda>r. r\<lparr>mr_suspended := True, mr_critical := None, mr_sender := None, mr_pending := None, mr_preconnect := None,
            mr_awaiting := True\<rparr>) w))))"

definition revoke_media :: "string \<Rightarrow> nat \<Rightarrow> media_world \<Rightarrow> media_world" where
  "revoke_media sid n w = revoke_prepared_ice sid (Revoke_end sid n) w"

definition suspend_media :: "media_config \<Rightarrow> string \<Rightarrow> nat \<Rightarrow> media_world \<Rightarrow> media_world" where
  "suspend_media cfg sid n w = (if \<not> md_preserve cfg then revoke_media sid n w else revoke_prepared_ice sid (Revoke_suspend sid n) w)"

fun revoke_next :: "nat \<Rightarrow> string list \<Rightarrow> media_world \<Rightarrow> media_world" where
  "revoke_next n [] w = emit (Returned n Media_ok) w"
| "revoke_next n (sid # ids) w = revoke_prepared_ice sid (Revoke_end_next sid n ids) w"

definition revoke_intervention :: "string \<Rightarrow> nat \<Rightarrow> media_world \<Rightarrow> media_world" where
  "revoke_intervention v n w = revoke_next n (rev (remdups (rev
     (map fst (filter (\<lambda>(_, i). mb_intervention (mr_binding (rt w i)) = v) (mw_active w))
      @ map fst (filter (\<lambda>(_, p). mb_intervention (pi_binding p) = v) (mw_prepared w)))))) w"

section \<open>Settled awaits\<close>

definition after_ended :: "media_config \<Rightarrow> media_env \<Rightarrow> bool \<Rightarrow> after_end \<Rightarrow> media_world \<Rightarrow> media_world" where
  "after_ended cfg e ok k w = (case k of
     End_void \<Rightarrow> w
   | End_prepare b a \<Rightarrow> if \<not> ok then answer_prepare a Revoke_failed w else revoke_prepared_ice (mb_id b) (Revoke_prepare b a) w
   | End_start c ex \<Rightarrow> if \<not> ok then emit (Returned (sc_call c) Revoke_failed) w else start_ready cfg e c ex w
   | End_revoke n \<Rightarrow> emit (Returned n (if ok then Media_ok else Revoke_failed)) w
   | End_revoke_next n sids \<Rightarrow> if \<not> ok then emit (Returned n Revoke_failed) w else revoke_next n sids w
   | End_resume c \<Rightarrow> emit (Returned (sc_call c) Start_failed) w)"

definition after_revoked :: "media_config \<Rightarrow> media_env \<Rightarrow> bool \<Rightarrow> after_revoke \<Rightarrow> media_world \<Rightarrow> media_world" where
  "after_revoked cfg e ok k w = (case k of
     Revoke_void \<Rightarrow> if ok then w else emit Unhandled_rejection w
   | Revoke_prepare b a \<Rightarrow> if \<not> ok then answer_prepare a Revoke_failed w
       else if md_provider cfg then spawn_task (Issuing b a) w else store_media b a w
   | Revoke_suspend sid n \<Rightarrow> if \<not> ok then emit (Returned n Revoke_failed) w else suspend_now sid n w
   | Revoke_end sid n \<Rightarrow> if \<not> ok then emit (Returned n Revoke_failed) w
       else end_runtime e sid False Explicit_revoke (End_revoke n) w
   | Revoke_end_next sid n sids \<Rightarrow> if \<not> ok then emit (Returned n Revoke_failed) w
       else end_runtime e sid False Explicit_revoke (End_revoke_next n sids) w)"

text \<open>
  One task goes on. \<open>start\<close> that fails removes whatever runtime is entered under its session; the end of a runtime
  releases the credentials the runtime holds by then.
\<close>

definition run_task :: "media_config \<Rightarrow> media_env \<Rightarrow> media_task \<Rightarrow> media_world \<Rightarrow> media_world" where
  "run_task cfg e t w = (case t of
     Ending_peer i notify k \<Rightarrow>
       spawn_task (Ending_exit i notify k) (if ev_exited e then w else emit (Kill_host (mr_host (rt w i))) w)
   | Ending_exit i notify k \<Rightarrow> (let w1 = (if ev_ok e then w else emit (Kill_host (mr_host (rt w i))) w);
         w2 = (case mr_ice (rt w i) of None \<Rightarrow> w1 | Some n \<Rightarrow> emit (Revoke_ice n) w1) in
       spawn_task (Ending_ice i (ev_ok e \<or> notify) k) w2)
   | Ending_ice i ok k \<Rightarrow> after_ended cfg e ok k (change i (\<lambda>r. r\<lparr>mr_ice := None\<rparr>) w)
   | Ended ok k \<Rightarrow> after_ended cfg e ok k w
   | Revoked k \<Rightarrow> after_revoked cfg e True k w
   | Revoking_prepared k \<Rightarrow> after_revoked cfg e (ev_ok e) k w
   | Issuing b a \<Rightarrow> store_media b a w
   | Continuing c ex \<Rightarrow> start_prepared e c ex w
   | Spawning c ice p h \<Rightarrow> if ev_ok e then enter_runtime cfg e c ice p h w else start_failed c ice p (Some h) w
   | Starting st c ice i p \<Rightarrow>
       if ev_ok e then (if stage_passed e (rt w i) st then stage_over st i p c (\<lambda>st'. Starting st' c ice i p) w
         else spawn_task (Starting st c ice i p) w)
       else start_failed c ice p (Some (mr_host (rt w i))) w
   | Start_closing c ice \<Rightarrow> (let sid = mb_id (sc_binding c);
         w1 = (case map_of (mw_active w) sid of None \<Rightarrow> w | Some i \<Rightarrow> change i (\<lambda>r. r\<lparr>mr_timer := False\<rparr>) w) in
       spawn_task (Start_revoking c) (emit (Revoke_ice ice) (w1\<lparr>mw_active := drop_key sid (mw_active w1)\<rparr>)))
   | Start_revoking c \<Rightarrow> emit (Returned (sc_call c) Start_failed) w
   | Resuming st c i p \<Rightarrow>
       if ev_ok e then stage_over st i p c (\<lambda>st'. Resuming st' c i p) w
       else end_runtime e (mb_id (sc_binding c)) False Generation_replace (End_resume c) w
   | Suspending_peer i n \<Rightarrow> (let w1 = change i (\<lambda>r. r\<lparr>mr_ice := None\<rparr>) w in
       case mr_ice (rt w i) of None \<Rightarrow> emit (Returned n Media_ok) w1
       | Some x \<Rightarrow> spawn_task (Suspending_ice n) (emit (Revoke_ice x) w1))
   | Suspending_ice n \<Rightarrow> emit (Returned n Media_ok) w)"

text \<open>\<open>sendRtp\<close> of the packet under way has settled.\<close>

definition packet_settled :: "media_env \<Rightarrow> frame_drain \<Rightarrow> media_world \<Rightarrow> media_world" where
  "packet_settled e d w = (let i = dr_runtime d in
     if \<not> ev_ok e then
       (let w1 = change i (\<lambda>r. r\<lparr>mr_draining := False\<rparr>) w;
            w2 = (if mr_pending (rt w1 i) \<noteq> None \<and> may_send w1 i \<and> mr_sender (rt w1 i) \<noteq> None then start_drain i w1 else w1) in
        if mr_closing (rt w2 i) then w2 else end_runtime e (mb_id (mr_binding (rt w2 i))) True Video_drain End_void w2)
     else (case tl (dr_left d) of
         [] \<Rightarrow> drain_loop i (change i (\<lambda>r. r\<lparr>mr_sequence := rp_sequence (hd (dr_left d)) + 1\<rparr>) w)
       | q # qs \<Rightarrow>
           if \<not> may_send w i then drain_loop i w
           else emit (Packet_sent i (dr_sender d) q) (w\<lparr>mw_drains := mw_drains w @ [Some (d\<lparr>dr_left := q # qs\<rparr>)]\<rparr>)))"

section \<open>Callbacks\<close>

datatype host_signal = Host_record host_report | Host_window_ready | Host_window_failure | Host_target_missing | Host_exited | Host_broken

text \<open>\<open>attachHost\<close>.\<close>

definition host_gone :: "media_env \<Rightarrow> nat \<Rightarrow> end_cause \<Rightarrow> media_world \<Rightarrow> media_world" where
  "host_gone e i cause w = (let
     w1 = change i (\<lambda>r. r\<lparr>mr_host_ready := map_option (settle_gate False) (mr_host_ready r),
       mr_media_ready := settle_gate False (mr_media_ready r)\<rparr>) w in
     if mr_suspended (rt w i) then change i (\<lambda>r. r\<lparr>mr_resume_failed := True\<rparr>) w1
     else if mr_closing (rt w i) then w1
     else end_runtime e (mb_id (mr_binding (rt w i))) True cause End_void w1)"

definition host_event :: "media_env \<Rightarrow> nat \<Rightarrow> host_signal \<Rightarrow> media_world \<Rightarrow> media_world" where
  "host_event e i v w = (case v of
     Host_record (Host_frame f) \<Rightarrow>
       write_frame e f i (change i (\<lambda>r. r\<lparr>mr_media_ready := settle_gate True (mr_media_ready r)\<rparr>) w)
   | Host_record (Host_editable b) \<Rightarrow> w
   | Host_record Host_failure \<Rightarrow> (let
       w1 = change i (\<lambda>r. r\<lparr>mr_media_ready := settle_gate False (mr_media_ready r)\<rparr>) w in
       if mr_suspended (rt w i) then emit (Kill_host (mr_host (rt w i))) (change i (\<lambda>r. r\<lparr>mr_resume_failed := True\<rparr>) w1)
       else end_runtime e (mb_id (mr_binding (rt w i))) True Host_protocol End_void w1)
   | Host_window_ready \<Rightarrow> change i (\<lambda>r. r\<lparr>mr_host_ready := map_option (settle_gate True) (mr_host_ready r)\<rparr>) w
   | Host_window_failure \<Rightarrow> change i (\<lambda>r. r\<lparr>mr_host_ready := map_option (settle_gate False) (mr_host_ready r)\<rparr>) w
   | Host_target_missing \<Rightarrow> (let
       w1 = change i (\<lambda>r. r\<lparr>mr_host_ready := map_option (settle_gate False) (mr_host_ready r)\<rparr>) w in
       if mr_connected (rt w i) \<and> \<not> mr_closing (rt w i)
       then end_runtime e (mb_id (mr_binding (rt w i))) True Target_missing End_void w1 else w1)
   | Host_exited \<Rightarrow> host_gone e i Host_exit w
   | Host_broken \<Rightarrow> host_gone e i Host_error w)"

text \<open>
  The connection state of a peer changed. Before the peer belongs to a runtime it was given no description, and its state
  does not change.
\<close>

definition peer_event :: "media_env \<Rightarrow> nat \<Rightarrow> peer_state \<Rightarrow> media_world \<Rightarrow> media_world" where
  "peer_event e p st w = (let w0 = w\<lparr>mw_peers := (mw_peers w)[p := (st, snd (mw_peers w ! p))]\<rparr> in
     case snd (mw_peers w ! p) of
       None \<Rightarrow> w
     | Some i \<Rightarrow> (let r = rt w i in
         if mr_peer r \<noteq> p then w0
         else if st = Peer_connected then
           (let w1 = change i (\<lambda>r. r\<lparr>mr_connected := True, mr_preconnect := None\<rparr>) w0 in
            case mr_preconnect r of
              Some f \<Rightarrow> if mr_sender r \<noteq> None then enqueue_connected e f i w1
                else request_idr e i (change i (\<lambda>r. r\<lparr>mr_awaiting := True\<rparr>) w1)
            | None \<Rightarrow> request_idr e i (change i (\<lambda>r. r\<lparr>mr_awaiting := True\<rparr>) w1))
         else if st \<in> {Peer_failed, Peer_disconnected, Peer_closed} then
           (if mr_suspended r then w0 else end_runtime e (mb_id (mr_binding r)) True Peer_gone End_void w0)
         else w0))"

section \<open>Human input\<close>

definition unit_range :: "jsnum \<Rightarrow> bool" where
  "unit_range n \<longleftrightarrow> num_finite n \<and> num_le (num_of_int 0) n \<and> num_le n (num_of_int 1)"

definition scroll_range :: "jsnum \<Rightarrow> bool" where
  "scroll_range n \<longleftrightarrow> num_finite n \<and> num_le (num_of_int (- 2000)) n \<and> num_le n (num_of_int 2000)"

definition max_message_bytes :: nat where
  "max_message_bytes = 4096"

definition parse_media_input :: "(jsval \<Rightarrow> jsnum) \<Rightarrow> jsval \<Rightarrow> bool \<Rightarrow> media_input option" where
  "parse_media_input coerce v realtime = (case v of
     JObj ps \<Rightarrow> (let field = get_prop ps; x = coerce (field ''x''); y = coerce (field ''y'') in
       if realtime then
         (if field ''kind'' \<noteq> JStr ''scroll'' then None
          else (let dx = coerce (field ''deltaX''); dy = coerce (field ''deltaY'') in
            if \<not> scroll_range dx \<or> \<not> scroll_range dy then None else Some (Mi_scroll dx dy)))
       else if field ''kind'' = JStr ''tap'' then (if \<not> unit_range x \<or> \<not> unit_range y then None else Some (Mi_tap x y))
       else if field ''kind'' = JStr ''pointer_button'' \<and> field ''button'' = JStr ''primary''
           \<and> (field ''state'' = JStr ''down'' \<or> field ''state'' = JStr ''up'') then
         (if \<not> unit_range x \<or> \<not> unit_range y then None else Some (Mi_button (field ''state'' = JStr ''down'') x y))
       else if field ''kind'' = JStr ''text'' then
         (case field ''text'' of
            JStr t \<Rightarrow> if t = [] \<or> max_message_bytes < utf8_length t then None else Some (Mi_text t)
          | _ \<Rightarrow> None)
       else if field ''kind'' = JStr ''key'' \<and> (field ''key'' = JStr ''Backspace'' \<or> field ''key'' = JStr ''Enter'') then
         (case field ''key'' of JStr t \<Rightarrow> Some (Mi_key t) | _ \<Rightarrow> None)
       else None)
   | _ \<Rightarrow> None)"

text \<open>The input of the host: whether it can be written, wants to be drained, and how much waits in it.\<close>

record host_pipe =
  hq_writable :: bool
  hq_need_drain :: bool
  hq_length :: nat

definition can_write_input :: "host_pipe \<Rightarrow> nat \<Rightarrow> bool \<Rightarrow> bool" where
  "can_write_input q n realtime \<longleftrightarrow> hq_writable q \<and> \<not> (realtime \<and> hq_need_drain q)
     \<and> hq_length q + n + 1 \<le> (if realtime then 4 * 1024 else 32 * 1024)"

text \<open>\<open>handleChannelMessage\<close>; \<open>text_of\<close> is \<open>JSON.stringify\<close>.\<close>

definition channel_input ::
  "(string \<Rightarrow> jsval option) \<Rightarrow> (jsval \<Rightarrow> jsnum) \<Rightarrow> (media_input \<Rightarrow> string) \<Rightarrow> media_env \<Rightarrow> host_pipe \<Rightarrow> nat \<Rightarrow> bool \<Rightarrow> string \<Rightarrow>
   media_world \<Rightarrow> media_world" where
  "channel_input parse coerce text_of e q p realtime msg w = (case snd (mw_peers w ! p) of
     None \<Rightarrow> w
   | Some i \<Rightarrow> (let r = rt w i in
       if mr_peer r \<noteq> p \<or> mr_suspended r \<or> mr_closing r then w
       else if utf8_length msg = 0 \<or> max_message_bytes < utf8_length msg then w
       else (case parse msg of None \<Rightarrow> w
         | Some v \<Rightarrow> (case parse_media_input coerce v realtime of None \<Rightarrow> w
             | Some x \<Rightarrow>
                 if \<not> can_write_input q (utf8_length msg) realtime \<or> \<not> ev_begin e then w
                 else (let w1 = emit (Begin_input i (mr_hooks r) x) w in
                   if max_message_bytes < utf8_length (text_of x) then w1 else emit (Host_input i (text_of x)) w1)))))"

section \<open>Steps\<close>

datatype media_move =
    Do_prepare webrtc_binding nat
  | Do_start bool start_call
  | Do_suspend string nat
  | Do_revoke string nat
  | Do_revoke_intervention string nat
  | Do_task nat
  | Do_packet nat
  | Do_host nat host_signal
  | Do_peer nat peer_state
  | Do_channel nat
  | Do_loss nat
  | Do_input host_pipe nat bool string
  | Do_prepared_expired string nat
  | Do_runtime_expired nat

definition media_step ::
  "media_config \<Rightarrow> (string \<Rightarrow> jsval option) \<Rightarrow> (jsval \<Rightarrow> jsnum) \<Rightarrow> (media_input \<Rightarrow> string) \<Rightarrow> media_world \<Rightarrow> media_env \<times> media_move \<Rightarrow>
   media_world" where
  "media_step cfg parse coerce text_of w em = (let e = fst em in case snd em of
     Do_prepare b n \<Rightarrow> prepare_call e b (To_caller n) w
   | Do_start offer c \<Rightarrow> start_media cfg e offer c w
   | Do_suspend sid n \<Rightarrow> suspend_media cfg sid n w
   | Do_revoke sid n \<Rightarrow> revoke_media sid n w
   | Do_revoke_intervention v n \<Rightarrow> revoke_intervention v n w
   | Do_task k \<Rightarrow> (if k < length (mw_tasks w) then
       (case mw_tasks w ! k of None \<Rightarrow> w | Some t \<Rightarrow> run_task cfg e t (w\<lparr>mw_tasks := (mw_tasks w)[k := None]\<rparr>)) else w)
   | Do_packet k \<Rightarrow> (if k < length (mw_drains w) then
       (case mw_drains w ! k of None \<Rightarrow> w | Some d \<Rightarrow> packet_settled e d (w\<lparr>mw_drains := (mw_drains w)[k := None]\<rparr>)) else w)
   | Do_host i v \<Rightarrow> (if i < length (mw_runtimes w) then host_event e i v w else w)
   | Do_peer p st \<Rightarrow> (if p < length (mw_peers w) then peer_event e p st w else w)
   | Do_channel p \<Rightarrow> (if p < length (mw_peers w) then
       (case snd (mw_peers w ! p) of None \<Rightarrow> w | Some i \<Rightarrow> change i (\<lambda>r. r\<lparr>mr_critical := Some p\<rparr>) w) else w)
   | Do_loss i \<Rightarrow> (if i < length (mw_runtimes w) then request_idr e i w else w)
   | Do_input q p realtime msg \<Rightarrow> (if p < length (mw_peers w) then channel_input parse coerce text_of e q p realtime msg w else w)
   | Do_prepared_expired sid n \<Rightarrow> (if (sid, n) \<in> set (mw_timers w) then
       revoke_prepared_ice sid Revoke_void (w\<lparr>mw_timers := filter (\<lambda>t. t \<noteq> (sid, n)) (mw_timers w)\<rparr>) else w)
   | Do_runtime_expired i \<Rightarrow> (if i < length (mw_runtimes w) \<and> mr_timer (rt w i) then
       (let sid = mb_id (mr_binding (rt w i)); live = (case map_of (mw_active w) sid of None \<Rightarrow> False | Some j \<Rightarrow> \<not> mr_suspended (rt w j)) in
        end_runtime e sid live Expiry End_void (change i (\<lambda>r. r\<lparr>mr_timer := False\<rparr>) w)) else w))"

definition empty_media :: media_world where
  "empty_media = \<lparr>mw_active = [], mw_prepared = [], mw_timers = [], mw_runtimes = [], mw_peers = [], mw_drains = [], mw_tasks = [],
     mw_ice_count = 0, mw_hosts = 0, mw_log = []\<rparr>"

section \<open>An ended runtime\<close>

text \<open>What a runtime says to the outside, apart from being torn down.\<close>

fun voice_of :: "nat \<Rightarrow> media_effect \<Rightarrow> bool" where
  "voice_of i (Frame_taken j p f) = (j = i)"
| "voice_of i (Packet_sent j p q) = (j = i)"
| "voice_of i (Idr_requested j) = (j = i)"
| "voice_of i (Begin_input j h x) = (j = i)"
| "voice_of i (Host_input j t) = (j = i)"
| "voice_of i (Hook_terminal j h c) = (j = i)"
| "voice_of i (Hook_disconnected j h) = (j = i)"
| "voice_of i (Tell_verifying j) = (j = i)"
| "voice_of i _ = False"

definition voice :: "nat \<Rightarrow> media_world \<Rightarrow> media_effect list" where
  "voice i w = filter (voice_of i) (mw_log w)"

text \<open>The runtime has ended and has said \<open>l\<close> so far.\<close>

definition ended_at :: "nat \<Rightarrow> media_effect list \<Rightarrow> media_world \<Rightarrow> bool" where
  "ended_at i l w \<longleftrightarrow> i < length (mw_runtimes w) \<and> mr_closing (rt w i) \<and> voice i w = l"

named_theorems ended_intros \<open>operations keep an ended runtime ended and silent\<close>

lemma rt_fields [simp]:
  "rt (w\<lparr>mw_active := a\<rparr>) = rt w" "rt (w\<lparr>mw_prepared := b\<rparr>) = rt w" "rt (w\<lparr>mw_timers := c\<rparr>) = rt w" "rt (w\<lparr>mw_peers := d\<rparr>) = rt w"
  "rt (w\<lparr>mw_drains := g\<rparr>) = rt w" "rt (w\<lparr>mw_tasks := h\<rparr>) = rt w" "rt (w\<lparr>mw_ice_count := n\<rparr>) = rt w" "rt (w\<lparr>mw_hosts := m\<rparr>) = rt w"
  "rt (w\<lparr>mw_log := l\<rparr>) = rt w"
  by (simp_all add: rt_def fun_eq_iff)

lemma rt_emit [simp]: "rt (emit x w) = rt w" "rt (spawn_task t w) = rt w"
  by (simp_all add: emit_def spawn_task_def)

lemma rt_change: "rt (change i f w) j = (if j = i \<and> i < length (mw_runtimes w) then f (rt w i) else rt w j)"
  by (cases "i < length (mw_runtimes w)") (auto simp: rt_def change_def nth_list_update list_update_beyond not_less)

lemma ended_fields [simp]:
  "ended_at i l (w\<lparr>mw_active := a\<rparr>) = ended_at i l w" "ended_at i l (w\<lparr>mw_prepared := b\<rparr>) = ended_at i l w"
  "ended_at i l (w\<lparr>mw_timers := c\<rparr>) = ended_at i l w" "ended_at i l (w\<lparr>mw_peers := d\<rparr>) = ended_at i l w"
  "ended_at i l (w\<lparr>mw_drains := g\<rparr>) = ended_at i l w" "ended_at i l (w\<lparr>mw_tasks := h\<rparr>) = ended_at i l w"
  "ended_at i l (w\<lparr>mw_ice_count := n\<rparr>) = ended_at i l w" "ended_at i l (w\<lparr>mw_hosts := m\<rparr>) = ended_at i l w"
  by (simp_all add: ended_at_def voice_def)

lemma ended_spawn [simp]: "ended_at i l (spawn_task t w) = ended_at i l w"
  by (simp add: spawn_task_def)

lemma ended_change [ended_intros]: "ended_at i l w \<Longrightarrow> (\<And>r. mr_closing r \<Longrightarrow> mr_closing (f r)) \<Longrightarrow> ended_at i l (change j f w)"
  by (auto simp: ended_at_def rt_change voice_def) (auto simp: change_def)

lemma ended_emit [ended_intros]: "ended_at i l w \<Longrightarrow> \<not> voice_of i x \<Longrightarrow> ended_at i l (emit x w)"
  by (simp add: ended_at_def voice_def emit_def)

lemma ended_closing: "ended_at i l w \<Longrightarrow> mr_closing (rt w i)"
  by (auto simp: ended_at_def)

lemma ended_idr [ended_intros]: "ended_at i l w \<Longrightarrow> ended_at i l (request_idr e j w)"
  by (auto simp: request_idr_def Let_def intro!: ended_intros dest: ended_closing)

lemma ended_drain [ended_intros]: "ended_at i l w \<Longrightarrow> ended_at i l (drain_loop j w)"
  using ended_closing [of i l w] by (auto simp: drain_loop_def Let_def may_send_def intro!: ended_intros split: option.split list.split)

lemma ended_start_drain [ended_intros]: "ended_at i l w \<Longrightarrow> ended_at i l (start_drain j w)"
  by (auto simp: start_drain_def intro!: ended_intros)

lemma ended_enqueue [ended_intros]: "ended_at i l w \<Longrightarrow> ended_at i l (enqueue_connected e f j w)"
  by (auto simp: enqueue_connected_def Let_def intro!: ended_intros split: option.split)

lemma ended_write [ended_intros]: "ended_at i l w \<Longrightarrow> ended_at i l (write_frame e f j w)"
  by (auto simp: write_frame_def Let_def intro!: ended_intros)

lemma ended_end [ended_intros]: "ended_at i l w \<Longrightarrow> ended_at i l (end_runtime e sid n c k w)"
  by (auto simp: end_runtime_def Let_def intro!: ended_intros dest: ended_closing split: option.split)

lemma ended_revoke_prepared [ended_intros]: "ended_at i l w \<Longrightarrow> ended_at i l (revoke_prepared_ice sid k w)"
  by (auto simp: revoke_prepared_ice_def intro!: ended_intros split: option.split)

lemma ended_answer [ended_intros]: "ended_at i l w \<Longrightarrow> ended_at i l (answer_prepare a res w)"
  by (auto simp: answer_prepare_def intro!: ended_intros split: after_prepare.split)

lemma ended_prepare [ended_intros]: "ended_at i l w \<Longrightarrow> ended_at i l (prepare_call e b a w)"
  by (auto simp: prepare_call_def Let_def intro!: ended_intros split: option.split)

lemma ended_store [ended_intros]: "ended_at i l w \<Longrightarrow> ended_at i l (store_media b a w)"
  by (auto simp: store_media_def Let_def intro!: ended_intros)

lemma ended_failed [ended_intros]: "ended_at i l w \<Longrightarrow> ended_at i l (start_failed c ice p h w)"
  by (auto simp: start_failed_def Let_def intro!: ended_intros split: option.split)

lemma ended_resume [ended_intros]: "ended_at i l w \<Longrightarrow> ended_at i l (resume_suspended e j c ice w)"
  by (auto simp: resume_suspended_def Let_def intro!: ended_intros)

lemma ended_fresh [ended_intros]: "ended_at i l w \<Longrightarrow> ended_at i l (fresh_start e c ice w)"
  by (auto simp: fresh_start_def Let_def intro!: ended_intros)

lemma ended_start_prepared [ended_intros]: "ended_at i l w \<Longrightarrow> ended_at i l (start_prepared e c ex w)"
  by (auto simp: start_prepared_def Let_def intro!: ended_intros split: option.split)

lemma ended_ready [ended_intros]: "ended_at i l w \<Longrightarrow> ended_at i l (start_ready cfg e c ex w)"
  by (auto simp: start_ready_def intro!: ended_intros)

lemma ended_start [ended_intros]: "ended_at i l w \<Longrightarrow> ended_at i l (start_media cfg e offer c w)"
  by (auto simp: start_media_def Let_def intro!: ended_intros split: option.split)

lemma ended_enter [ended_intros]: "ended_at i l w \<Longrightarrow> ended_at i l (enter_runtime cfg e c ice p h w)"
  by (simp add: enter_runtime_def Let_def) (auto simp: ended_at_def voice_def rt_def nth_append)

lemma ended_stage [ended_intros]: "ended_at i l w \<Longrightarrow> ended_at i l (stage_over st j p c t w)"
  by (auto simp: stage_over_def Let_def intro!: ended_intros split: option.split)

lemma ended_suspend_now [ended_intros]: "ended_at i l w \<Longrightarrow> ended_at i l (suspend_now sid n w)"
  by (auto simp: suspend_now_def Let_def intro!: ended_intros split: option.split)

lemma ended_revoke_next [ended_intros]: "ended_at i l w \<Longrightarrow> ended_at i l (revoke_next n sids w)"
  by (cases sids) (auto intro!: ended_intros)

lemma ended_after_ended [ended_intros]: "ended_at i l w \<Longrightarrow> ended_at i l (after_ended cfg e ok k w)"
  by (auto simp: after_ended_def intro!: ended_intros split: after_end.split)

lemma ended_after_revoked [ended_intros]: "ended_at i l w \<Longrightarrow> ended_at i l (after_revoked cfg e ok k w)"
  by (auto simp: after_revoked_def intro!: ended_intros split: after_revoke.split)

lemma ended_task [ended_intros]: "ended_at i l w \<Longrightarrow> ended_at i l (run_task cfg e t w)"
  by (cases t) (auto simp: run_task_def Let_def intro!: ended_intros split: option.split)

lemma ended_packet [ended_intros]: "ended_at i l w \<Longrightarrow> ended_at i l (packet_settled e d w)"
  by (auto simp: packet_settled_def Let_def may_send_def intro!: ended_intros dest: ended_closing split: list.split)

lemma ended_gone [ended_intros]: "ended_at i l w \<Longrightarrow> ended_at i l (host_gone e j c w)"
  by (auto simp: host_gone_def Let_def intro!: ended_intros)

lemma ended_host [ended_intros]: "ended_at i l w \<Longrightarrow> ended_at i l (host_event e j v w)"
  by (cases v) (auto simp: host_event_def Let_def intro!: ended_intros split: host_report.split)

lemma ended_peer [ended_intros]: "ended_at i l w \<Longrightarrow> ended_at i l (peer_event e p st w)"
  by (auto simp: peer_event_def Let_def intro!: ended_intros split: option.split)

lemma ended_input [ended_intros]: "ended_at i l w \<Longrightarrow> ended_at i l (channel_input parse coerce tx e q p realtime msg w)"
  by (auto simp: channel_input_def Let_def intro!: ended_intros dest: ended_closing split: option.split)

lemma media_ended_step: "ended_at i l w \<Longrightarrow> ended_at i l (media_step cfg parse coerce tx w em)"
  by (cases "snd em") (auto simp: media_step_def Let_def suspend_media_def revoke_media_def revoke_intervention_def
      intro!: ended_intros split: option.split)

interpretation ended: guarded_machine "media_step cfg parse coerce tx" "ended_at i l" for cfg parse coerce tx i l
  by unfold_locales (rule media_ended_step)

section \<open>Frames begin with a keyframe\<close>

text \<open>The frames taken to be sent while \<open>p\<close> is the peer of the runtime.\<close>

fun frame_on :: "nat \<Rightarrow> media_effect \<Rightarrow> host_frame list" where
  "frame_on p (Frame_taken i q f) = (if q = p then [f] else [])"
| "frame_on p _ = []"

definition frames_on :: "nat \<Rightarrow> media_world \<Rightarrow> host_frame list" where
  "frames_on p w = concat (map (frame_on p) (mw_log w))"

definition key_only :: "host_frame option \<Rightarrow> bool" where
  "key_only x \<longleftrightarrow> (\<forall>f. x = Some f \<longrightarrow> hf_keyframe f)"

text \<open>Until a frame was taken for its peer, a runtime that may send waits for a keyframe or holds one.\<close>

definition video_runtime :: "media_world \<Rightarrow> nat \<Rightarrow> bool" where
  "video_runtime w i \<longleftrightarrow> key_only (mr_preconnect (rt w i)) \<and> mr_peer (rt w i) < length (mw_peers w)
     \<and> snd (mw_peers w ! mr_peer (rt w i)) = Some i
     \<and> (frames_on (mr_peer (rt w i)) w = [] \<longrightarrow> key_only (mr_pending (rt w i))
          \<and> (may_send w i \<longrightarrow> mr_awaiting (rt w i) \<or> mr_pending (rt w i) \<noteq> None))"

text \<open>The peers of the hosts that are being spawned.\<close>

fun spawn_peer :: "media_task option \<Rightarrow> nat list" where
  "spawn_peer (Some (Spawning c ice p h)) = [p]"
| "spawn_peer _ = []"

definition spawn_peers :: "media_world \<Rightarrow> nat list" where
  "spawn_peers w = concat (map spawn_peer (mw_tasks w))"

definition video_ok :: "media_world \<Rightarrow> bool" where
  "video_ok w \<longleftrightarrow> (\<forall>i < length (mw_runtimes w). video_runtime w i)
     \<and> (\<forall>p. frames_on p w \<noteq> [] \<longrightarrow> hf_keyframe (hd (frames_on p w)))
     \<and> distinct (spawn_peers w) \<and> (\<forall>p\<in>set (spawn_peers w). p < length (mw_peers w) \<and> snd (mw_peers w ! p) = None)"

named_theorems video_intros \<open>operations keep the video of every runtime in order\<close>

lemma may_send_rt: "may_send w i \<longleftrightarrow> \<not> mr_closing (rt w i) \<and> fst (mw_peers w ! mr_peer (rt w i)) = Peer_connected"
  by (simp add: may_send_def peer_up_def)

lemma video_fields [simp]:
  "video_ok (w\<lparr>mw_active := a\<rparr>) = video_ok w" "video_ok (w\<lparr>mw_prepared := b\<rparr>) = video_ok w" "video_ok (w\<lparr>mw_timers := c\<rparr>) = video_ok w"
  "video_ok (w\<lparr>mw_ice_count := n\<rparr>) = video_ok w" "video_ok (w\<lparr>mw_hosts := m\<rparr>) = video_ok w" "video_ok (w\<lparr>mw_drains := g\<rparr>) = video_ok w"
  by (simp_all add: video_ok_def video_runtime_def may_send_rt frames_on_def spawn_peers_def)

lemma spawn_peers_fields [simp]:
  "spawn_peers (change i f w) = spawn_peers w" "spawn_peers (emit x w) = spawn_peers w"
  "spawn_peers (spawn_task t w) = spawn_peers w @ spawn_peer (Some t)"
  by (simp_all add: spawn_peers_def change_def emit_def spawn_task_def)

lemma runtimes_fields [simp]:
  "length (mw_runtimes (change i f w)) = length (mw_runtimes w)" "mw_runtimes (emit x w) = mw_runtimes w"
  "mw_runtimes (spawn_task t w) = mw_runtimes w" "mw_peers (change i f w) = mw_peers w" "mw_peers (emit x w) = mw_peers w"
  "mw_peers (spawn_task t w) = mw_peers w" "mw_drains (change i f w) = mw_drains w" "mw_drains (emit x w) = mw_drains w"
  "mw_drains (spawn_task t w) = mw_drains w" "mw_tasks (change i f w) = mw_tasks w" "mw_tasks (emit x w) = mw_tasks w"
  "mw_tasks (spawn_task t w) = mw_tasks w @ [Some t]"
  by (simp_all add: change_def emit_def spawn_task_def)

lemma frames_fields [simp]:
  "frames_on p (change i f w) = frames_on p w" "frames_on p (spawn_task t w) = frames_on p w"
  "frames_on p (emit x w) = frames_on p w @ frame_on p x"
  by (simp_all add: frames_on_def change_def emit_def spawn_task_def)

lemma may_send_fields [simp]: "may_send (emit x w) = may_send w" "may_send (spawn_task t w) = may_send w"
  by (simp_all add: fun_eq_iff may_send_rt)

lemma video_spawn [video_intros]: "video_ok w \<Longrightarrow> spawn_peer (Some t) = [] \<Longrightarrow> video_ok (spawn_task t w)"
  by (simp add: video_ok_def video_runtime_def)

lemma video_emit [video_intros]: "video_ok w \<Longrightarrow> (\<And>p. frame_on p x = []) \<Longrightarrow> video_ok (emit x w)"
  by (simp add: video_ok_def video_runtime_def)

lemma video_change:
  assumes "video_ok w" and "i < length (mw_runtimes w) \<Longrightarrow> video_runtime (change i f w) i"
  shows "video_ok (change i f w)"
proof -
  have "video_runtime (change i f w) j" if "j < length (mw_runtimes w)" for j
    using assms that by (cases "j = i") (simp_all add: video_ok_def video_runtime_def rt_change may_send_rt)
  then show ?thesis using assms(1) by (simp add: video_ok_def)
qed

lemma video_runtimeD: "video_ok w \<Longrightarrow> i < length (mw_runtimes w) \<Longrightarrow> video_runtime w i"
  by (simp add: video_ok_def)

text \<open>A change that leaves the video alone, or takes it away.\<close>

lemma video_neutral [video_intros]:
  assumes "video_ok w"
    and "\<And>r. mr_preconnect (f r) \<in> {mr_preconnect r, None}" and "\<And>r. mr_peer (f r) = mr_peer r"
    and "\<And>r. mr_closing r \<Longrightarrow> mr_closing (f r)" and "\<And>r. mr_awaiting r \<Longrightarrow> mr_awaiting (f r)"
    and "\<And>r. mr_pending (f r) = mr_pending r \<or> mr_pending (f r) = None \<and> mr_awaiting (f r)"
  shows "video_ok (change i f w)"
proof (rule video_change [OF assms(1)])
  assume i: "i < length (mw_runtimes w)"
  let ?r = "rt w i"
  have v: "video_runtime w i" using assms(1) i by (rule video_runtimeD)
  have "key_only (mr_preconnect (f ?r))" using v assms(2) [of ?r] by (auto simp: video_runtime_def key_only_def)
  moreover have "key_only (mr_pending ?r) \<longrightarrow> key_only (mr_pending (f ?r))" using assms(6) [of ?r] by (auto simp: key_only_def)
  ultimately show "video_runtime (change i f w) i"
    using v i assms(3-6) [of ?r] by (auto simp: video_runtime_def rt_change may_send_rt)
qed

lemma video_preconnect [video_intros]: "video_ok w \<Longrightarrow> hf_keyframe f \<Longrightarrow> video_ok (change i (\<lambda>r. r\<lparr>mr_preconnect := Some f\<rparr>) w)"
  by (rule video_change) (auto simp: video_runtime_def rt_change may_send_rt key_only_def dest: video_runtimeD)

lemma video_idr [video_intros]: "video_ok w \<Longrightarrow> video_ok (request_idr e i w)"
  by (auto simp: request_idr_def Let_def intro!: video_intros)

lemma may_send_exists: "may_send w i \<Longrightarrow> i < length (mw_runtimes w)"
  by (auto simp: may_send_rt rt_def no_runtime_def split: if_splits)

lemma video_drain [video_intros]:
  assumes "video_ok w"
  shows "video_ok (drain_loop i w)"
proof (cases "\<exists>p f. mr_sender (rt w i) = Some p \<and> mr_pending (rt w i) = Some f \<and> may_send w i")
  case False
  then have "drain_loop i w = change i (\<lambda>r. r\<lparr>mr_draining := False\<rparr>) w" by (auto simp: drain_loop_def split: option.split)
  then show ?thesis using assms by (auto intro!: video_intros)
next
  case True
  then obtain p f where f: "mr_sender (rt w i) = Some p" "mr_pending (rt w i) = Some f" "may_send w i" by blast
  let ?q = "mr_peer (rt w i)"
  let ?w = "emit (Frame_taken i ?q f) (change i (\<lambda>r. r\<lparr>mr_pending := None\<rparr>) w)"
  have v: "video_runtime w i" using assms may_send_exists [OF f(3)] by (rule video_runtimeD)
  have key: "frames_on ?q w = [] \<Longrightarrow> hf_keyframe f" using v f(2) by (simp add: video_runtime_def key_only_def)
  have "video_runtime ?w j" if "j < length (mw_runtimes w)" for j
    using video_runtimeD [OF assms that] v by (auto simp: video_runtime_def rt_change may_send_rt)
  moreover have "hf_keyframe (hd (frames_on x ?w))" if "frames_on x ?w \<noteq> []" for x
    using that key assms by (cases "frames_on x w = []") (auto simp: video_ok_def split: if_splits)
  ultimately have "video_ok ?w" using assms by (simp add: video_ok_def)
  then show ?thesis using f by (auto simp: drain_loop_def Let_def intro!: video_intros split: list.split)
qed

lemma video_start_drain [video_intros]: "video_ok w \<Longrightarrow> video_ok (start_drain i w)"
  by (auto simp: start_drain_def intro!: video_intros)

text \<open>A keyframe may always become the pending frame, a dependent frame once frames were taken.\<close>

lemma video_pending:
  assumes "video_ok w" and "i < length (mw_runtimes w) \<Longrightarrow> hf_keyframe f \<or> frames_on (mr_peer (rt w i)) w \<noteq> []"
    and "\<And>r. mr_preconnect (g r) = mr_preconnect r" and "\<And>r. mr_peer (g r) = mr_peer r" and "\<And>r. mr_pending (g r) = Some f"
  shows "video_ok (change i g w)"
proof (rule video_change [OF assms(1)])
  assume i: "i < length (mw_runtimes w)"
  then show "video_runtime (change i g w) i"
    using video_runtimeD [OF assms(1) i] assms(2) [OF i] assms(3-5) by (auto simp: video_runtime_def rt_change key_only_def)
qed

lemma video_enqueue [video_intros]:
  assumes "video_ok w"
  shows "video_ok (enqueue_connected e f i w)"
proof -
  let ?set = "\<lambda>r. r\<lparr>mr_awaiting := False, mr_pending := Some f\<rparr>" and ?put = "\<lambda>r. r\<lparr>mr_pending := Some f\<rparr>"
  let ?w1 = "request_idr e i (change i (\<lambda>r. r\<lparr>mr_pending := None, mr_awaiting := True\<rparr>) w)"
  have w1: "video_ok ?w1" using assms by (auto intro!: video_intros)
  have key: "video_ok (start_drain i (change i g x))" if "hf_keyframe f" "video_ok x" "g = ?set \<or> g = ?put" for g x
    using that by (auto intro!: video_start_drain video_pending [of _ _ f])
  have "frames_on (mr_peer (rt w i)) w \<noteq> []" if "may_send w i" "\<not> mr_awaiting (rt w i)" "mr_pending (rt w i) = None"
    using video_runtimeD [OF assms may_send_exists [OF that(1)]] that by (auto simp: video_runtime_def)
  then have dependent: "video_ok (start_drain i (change i ?put w))" if "may_send w i" "\<not> mr_awaiting (rt w i)" "mr_pending (rt w i) = None"
    using that assms by (auto intro!: video_start_drain video_pending [of _ _ f])
  show ?thesis using assms w1 key dependent by (auto simp: enqueue_connected_def Let_def split: option.split)
qed

lemma video_write [video_intros]: "video_ok w \<Longrightarrow> video_ok (write_frame e f i w)"
  by (auto simp: write_frame_def Let_def intro!: video_intros)

lemma video_end [video_intros]: "video_ok w \<Longrightarrow> video_ok (end_runtime e sid n c k w)"
  by (auto simp: end_runtime_def Let_def intro!: video_intros split: option.split)

lemma video_revoke_prepared [video_intros]: "video_ok w \<Longrightarrow> video_ok (revoke_prepared_ice sid k w)"
  by (auto simp: revoke_prepared_ice_def intro!: video_intros split: option.split)

lemma video_answer [video_intros]: "video_ok w \<Longrightarrow> video_ok (answer_prepare a res w)"
  by (auto simp: answer_prepare_def intro!: video_intros split: after_prepare.split)

lemma video_prepare [video_intros]: "video_ok w \<Longrightarrow> video_ok (prepare_call e b a w)"
  by (auto simp: prepare_call_def Let_def intro!: video_intros split: option.split)

lemma video_store [video_intros]: "video_ok w \<Longrightarrow> video_ok (store_media b a w)"
  by (auto simp: store_media_def Let_def intro!: video_intros)

lemma video_failed [video_intros]: "video_ok w \<Longrightarrow> video_ok (start_failed c ice p h w)"
  by (auto simp: start_failed_def Let_def intro!: video_intros split: option.split)

text \<open>A new peer.\<close>

lemma video_peer: "video_ok w \<Longrightarrow> video_ok (w\<lparr>mw_peers := mw_peers w @ [(Peer_new, x)]\<rparr>)"
  by (auto simp: video_ok_def video_runtime_def may_send_rt frames_on_def nth_append less_Suc_eq spawn_peers_def)

lemma video_fresh [video_intros]:
  assumes "video_ok w"
  shows "video_ok (fresh_start e c ice w)"
proof -
  let ?w = "w\<lparr>mw_peers := mw_peers w @ [(Peer_new, None)]\<rparr>"
  have ok: "video_ok ?w" using assms by (rule video_peer)
  have "spawn_peers ?w = spawn_peers w" by (simp add: spawn_peers_def)
  then have "length (mw_peers w) \<notin> set (spawn_peers ?w)" using assms by (auto simp: video_ok_def)
  then have "video_ok (spawn_task (Spawning c ice (length (mw_peers w)) h) ?w)" for h
    using ok by (simp add: video_ok_def video_runtime_def)
  moreover have "spawn_task t (?w\<lparr>mw_hosts := n\<rparr>) = (spawn_task t ?w)\<lparr>mw_hosts := n\<rparr>" for t n by (simp add: spawn_task_def)
  ultimately show ?thesis using ok by (simp add: fresh_start_def Let_def video_failed)
qed

lemma video_resume [video_intros]:
  assumes "video_ok w"
  shows "video_ok (resume_suspended e i c ice w)"
proof -
  let ?w = "w\<lparr>mw_peers := mw_peers w @ [(Peer_new, Some i)]\<rparr>"
  have "video_ok ?w" using assms by (rule video_peer)
  then have "video_ok (change i (\<lambda>r. r\<lparr>mr_binding := sc_binding c, mr_ice := Some ice, mr_peer := length (mw_peers w), mr_hooks := sc_hooks c,
      mr_suspended := False, mr_resume_failed := False, mr_sequence := ev_random e, mr_idr_at := 0, mr_draining := False, mr_awaiting := True,
      mr_pending := None, mr_preconnect := None, mr_critical := None, mr_sender := None\<rparr>) ?w)"
    by (intro video_change) (auto simp: video_runtime_def rt_change key_only_def)
  then show ?thesis by (auto simp: resume_suspended_def Let_def intro!: video_intros)
qed

lemma video_start_prepared [video_intros]: "video_ok w \<Longrightarrow> video_ok (start_prepared e c ex w)"
  by (auto simp: start_prepared_def Let_def intro!: video_intros split: option.split)

lemma video_ready [video_intros]: "video_ok w \<Longrightarrow> video_ok (start_ready cfg e c ex w)"
  by (auto simp: start_ready_def intro!: video_intros)

lemma video_start [video_intros]: "video_ok w \<Longrightarrow> video_ok (start_media cfg e offer c w)"
  by (auto simp: start_media_def Let_def intro!: video_intros split: option.split)

lemma video_enter:
  assumes "video_ok w" and "p < length (mw_peers w)" and "snd (mw_peers w ! p) = None" and "p \<notin> set (spawn_peers w)"
  shows "video_ok (enter_runtime cfg e c ice p h w)"
proof -
  let ?i = "length (mw_runtimes w)"
  have "video_ok (w\<lparr>mw_runtimes := mw_runtimes w @ [r], mw_active := a, mw_peers := (mw_peers w)[p := (Peer_new, Some ?i)]\<rparr>)"
    if "mr_peer r = p" "mr_pending r = None" "mr_preconnect r = None" for r a
    using assms that by (auto simp: video_ok_def video_runtime_def may_send_rt frames_on_def rt_def nth_append less_Suc_eq key_only_def
        nth_list_update spawn_peers_def)
  then show ?thesis by (auto simp: enter_runtime_def Let_def intro!: video_intros)
qed

lemma video_stage [video_intros]:
  "video_ok w \<Longrightarrow> (\<And>st. spawn_peer (Some (t st)) = []) \<Longrightarrow> video_ok (stage_over st j p c t w)"
  by (auto simp: stage_over_def Let_def intro!: video_intros split: option.split)

lemma video_suspend_now [video_intros]: "video_ok w \<Longrightarrow> video_ok (suspend_now sid n w)"
  by (auto simp: suspend_now_def Let_def intro!: video_intros split: option.split)

lemma video_revoke_next [video_intros]: "video_ok w \<Longrightarrow> video_ok (revoke_next n sids w)"
  by (cases sids) (auto intro!: video_intros)

lemma video_after_ended [video_intros]: "video_ok w \<Longrightarrow> video_ok (after_ended cfg e ok k w)"
  by (auto simp: after_ended_def intro!: video_intros split: after_end.split)

lemma video_after_revoked [video_intros]: "video_ok w \<Longrightarrow> video_ok (after_revoked cfg e ok k w)"
  by (auto simp: after_revoked_def intro!: video_intros split: after_revoke.split)

lemma video_task:
  assumes "video_ok w"
    and "\<And>c ice p h. t = Spawning c ice p h \<Longrightarrow> p < length (mw_peers w) \<and> snd (mw_peers w ! p) = None \<and> p \<notin> set (spawn_peers w)"
  shows "video_ok (run_task cfg e t w)"
  using assms by (cases t) (auto simp: run_task_def Let_def intro!: video_intros video_enter split: option.split)

lemma taken_task:
  assumes "k < length (mw_tasks w)" and "mw_tasks w ! k = Some t" and "video_ok w"
  defines "v \<equiv> w\<lparr>mw_tasks := (mw_tasks w)[k := None]\<rparr>"
  shows "video_ok v"
    and "t = Spawning c ice p h \<Longrightarrow> p < length (mw_peers v) \<and> snd (mw_peers v ! p) = None \<and> p \<notin> set (spawn_peers v)"
proof -
  have split: "mw_tasks w = take k (mw_tasks w) @ Some t # drop (Suc k) (mw_tasks w)" using assms(1,2) by (metis id_take_nth_drop)
  let ?a = "concat (map spawn_peer (take k (mw_tasks w)))" and ?b = "concat (map spawn_peer (drop (Suc k) (mw_tasks w)))"
  have old: "spawn_peers w = ?a @ spawn_peer (Some t) @ ?b" unfolding spawn_peers_def by (subst split) simp
  have new: "spawn_peers v = ?a @ ?b" using assms(1) by (simp add: spawn_peers_def v_def upd_conv_take_nth_drop)
  show "video_ok v" using assms(3) old new
    by (auto simp: video_ok_def video_runtime_def may_send_rt frames_on_def v_def)
  show "p < length (mw_peers v) \<and> snd (mw_peers v ! p) = None \<and> p \<notin> set (spawn_peers v)" if "t = Spawning c ice p h"
    using assms(3) old new that by (simp add: video_ok_def) (simp add: v_def)
qed

lemma video_packet [video_intros]: "video_ok w \<Longrightarrow> video_ok (packet_settled e d w)"
  by (auto simp: packet_settled_def Let_def intro!: video_intros split: list.split)

lemma video_gone [video_intros]: "video_ok w \<Longrightarrow> video_ok (host_gone e j c w)"
  by (auto simp: host_gone_def Let_def intro!: video_intros)

lemma video_host [video_intros]: "video_ok w \<Longrightarrow> video_ok (host_event e j v w)"
  by (cases v) (auto simp: host_event_def Let_def intro!: video_intros split: host_report.split)

lemma video_input [video_intros]: "video_ok w \<Longrightarrow> video_ok (channel_input parse coerce tx e q p realtime msg w)"
  by (auto simp: channel_input_def Let_def intro!: video_intros split: option.split)

lemma video_peer_event:
  assumes "video_ok w" and "p < length (mw_peers w)"
  shows "video_ok (peer_event e p st w)"
proof (cases "snd (mw_peers w ! p)")
  case None
  then show ?thesis using assms(1) by (simp add: peer_event_def)
next
  case (Some i)
  let ?w = "w\<lparr>mw_peers := (mw_peers w)[p := (st, Some i)]\<rparr>"
  have others: "video_runtime ?w j" if "j < length (mw_runtimes w)" "j \<noteq> i \<or> mr_peer (rt w i) \<noteq> p \<or> st \<noteq> Peer_connected" for j
    using video_runtimeD [OF assms(1) that(1)] that Some assms(2)
    by (auto simp: video_runtime_def may_send_rt frames_on_def nth_list_update)
  have glob: "video_ok ?w" if "\<forall>j < length (mw_runtimes w). video_runtime ?w j"
    using assms that Some by (auto simp: video_ok_def frames_on_def spawn_peers_def nth_list_update)
  show ?thesis
  proof (cases "mr_peer (rt w i) = p \<and> st = Peer_connected")
    case False
    then have "video_ok ?w" using glob others by blast
    then show ?thesis using False Some by (auto simp: peer_event_def Let_def intro!: video_intros)
  next
    case True
    let ?on = "\<lambda>r. r\<lparr>mr_connected := True, mr_preconnect := None\<rparr>"
    let ?w1 = "change i ?on ?w"
    have ready: "video_ok (change i h ?w1)"
      if h1: "\<And>r. mr_preconnect (h r) = mr_preconnect r" and h2: "\<And>r. mr_peer (h r) = mr_peer r"
        and h3: "\<And>r. mr_pending (h r) = Some f \<and> hf_keyframe f \<or> mr_awaiting (h r) \<and> mr_pending (h r) \<in> {mr_pending r, None}" for h f
    proof -
      have "video_runtime (change i h ?w1) j" if j: "j < length (mw_runtimes w)" for j
      proof (cases "j = i")
        case False
        then show ?thesis using others [OF j] by (simp add: video_runtime_def may_send_rt rt_change)
      next
        case True
        let ?r = "?on (rt w i)"
        have v: "video_runtime w i" using video_runtimeD [OF assms(1)] j True by simp
        have here: "rt (change i h ?w1) i = h ?r" using j True by (simp add: rt_change)
        have "mr_preconnect (h ?r) = None" "mr_peer (h ?r) = p" using h1 [of ?r] h2 [of ?r] \<open>mr_peer (rt w i) = p \<and> st = Peer_connected\<close> by simp_all
        moreover have "frames_on p (change i h ?w1) = frames_on p w" by (simp add: frames_on_def change_def)
        moreover have "frames_on p w = [] \<longrightarrow> key_only (mr_pending (rt w i))"
          using v \<open>mr_peer (rt w i) = p \<and> st = Peer_connected\<close> by (simp add: video_runtime_def)
        ultimately show ?thesis
          using h3 [of ?r] assms(2) Some unfolding True video_runtime_def here by (auto simp: key_only_def)
      qed
      then show ?thesis using assms Some by (auto simp: video_ok_def frames_on_def spawn_peers_def nth_list_update change_def)
    qed
    have wait: "video_ok (request_idr e i (change i (\<lambda>r. r\<lparr>mr_awaiting := True\<rparr>) ?w1))"
      by (intro video_idr ready [of _ undefined]) auto
    have enqueue: "video_ok (enqueue_connected e f i ?w1)" if f: "mr_preconnect (rt w i) = Some f" "mr_sender (rt w i) \<noteq> None" for f
    proof (cases "may_send ?w1 i")
      case False
      have "video_runtime ?w1 j" if j: "j < length (mw_runtimes w)" for j
      proof (cases "j = i")
        case False
        then show ?thesis using others [OF j] by (simp add: video_runtime_def may_send_rt rt_change)
      next
        case True
        have v: "video_runtime w i" using video_runtimeD [OF assms(1)] j True by simp
        have fr: "frames_on x ?w1 = frames_on x w" for x by (simp add: frames_on_def change_def)
        show ?thesis using v j True Some assms(2) \<open>\<not> may_send ?w1 i\<close> \<open>mr_peer (rt w i) = p \<and> st = Peer_connected\<close>
          unfolding True video_runtime_def fr by (simp add: rt_change key_only_def)
      qed
      then have "video_ok ?w1" using assms Some by (auto simp: video_ok_def frames_on_def spawn_peers_def nth_list_update change_def)
      then show ?thesis using False by (simp add: enqueue_connected_def)
    next
      case on: True
      then have i: "i < length (mw_runtimes w)" using may_send_exists [OF on] by simp
      have key: "hf_keyframe f" using video_runtimeD [OF assms(1) i] f(1) by (simp add: video_runtime_def key_only_def)
      let ?set = "\<lambda>r. r\<lparr>mr_awaiting := False, mr_pending := Some f\<rparr>"
      have "video_ok (request_idr e i (change i (\<lambda>r. r\<lparr>mr_pending := None, mr_awaiting := True\<rparr>) ?w1))"
        by (intro video_idr ready [of _ undefined]) auto
      then have "video_ok (start_drain i (change i ?set (request_idr e i (change i (\<lambda>r. r\<lparr>mr_pending := None, mr_awaiting := True\<rparr>) ?w1))))"
        by (intro video_start_drain video_pending [of _ _ f]) (simp_all add: key)
      moreover have "video_ok (start_drain i (change i ?set ?w1))" "video_ok (start_drain i (change i (\<lambda>r. r\<lparr>mr_pending := Some f\<rparr>) ?w1))"
        by (intro video_start_drain ready [of _ f]; simp add: key)+
      moreover have "mr_sender (rt ?w1 i) \<noteq> None" using f(2) i by (simp add: rt_change)
      ultimately show ?thesis using on key by (auto simp: enqueue_connected_def Let_def split: option.split)
    qed
    show ?thesis using True Some wait enqueue by (simp add: peer_event_def Let_def split: option.split)
  qed
qed

lemma video_step: "video_ok w \<Longrightarrow> video_ok (media_step cfg parse coerce tx w em)"
  using taken_task [of _ w]
  by (cases "snd em") (auto simp: media_step_def Let_def suspend_media_def revoke_media_def revoke_intervention_def
      intro!: video_intros video_peer_event video_task split: option.split)

interpretation video: guarded_machine "media_step cfg parse coerce tx" video_ok for cfg parse coerce tx
  by unfold_locales (rule video_step)

lemma empty_video: "video_ok empty_media"
  by (simp add: video_ok_def empty_media_def spawn_peers_def frames_on_def)

section \<open>Input\<close>

fun host_input :: "media_effect \<Rightarrow> bool" where
  "host_input (Host_input i t) = True"
| "host_input _ = False"

definition inputs :: "media_world \<Rightarrow> media_effect list" where
  "inputs w = filter host_input (mw_log w)"

lemma inputs_fields [simp]:
  "inputs (w\<lparr>mw_active := a\<rparr>) = inputs w" "inputs (w\<lparr>mw_prepared := b\<rparr>) = inputs w" "inputs (w\<lparr>mw_timers := c\<rparr>) = inputs w"
  "inputs (w\<lparr>mw_peers := d\<rparr>) = inputs w" "inputs (w\<lparr>mw_drains := g\<rparr>) = inputs w" "inputs (w\<lparr>mw_tasks := h\<rparr>) = inputs w"
  "inputs (w\<lparr>mw_ice_count := n\<rparr>) = inputs w" "inputs (w\<lparr>mw_hosts := m\<rparr>) = inputs w" "inputs (w\<lparr>mw_runtimes := r\<rparr>) = inputs w"
  "inputs (change i f w) = inputs w" "inputs (spawn_task t w) = inputs w" "\<not> host_input x \<Longrightarrow> inputs (emit x w) = inputs w"
  by (simp_all add: inputs_def change_def spawn_task_def emit_def)

lemma inputs_revoke_next [simp]: "inputs (revoke_next n sids w) = inputs w"
  by (cases sids) (simp_all add: revoke_prepared_ice_def split: option.split)

lemma inputs_request_idr [simp]: "inputs (request_idr e i w) = inputs w"
  by (simp add: request_idr_def Let_def)

lemma inputs_drain_loop [simp]: "inputs (drain_loop i w) = inputs w"
  by (simp add: drain_loop_def Let_def split: option.split list.split)

lemma inputs_start_drain [simp]: "inputs (start_drain i w) = inputs w"
  by (simp add: start_drain_def)

lemma inputs_enqueue_connected [simp]: "inputs (enqueue_connected e f i w) = inputs w"
  by (simp add: enqueue_connected_def Let_def split: option.split)

lemma inputs_write_frame [simp]: "inputs (write_frame e f i w) = inputs w"
  by (simp add: write_frame_def Let_def)

lemma inputs_end_runtime [simp]: "inputs (end_runtime e sid n c k w) = inputs w"
  by (simp add: end_runtime_def Let_def split: option.split)

lemma inputs_revoke_prepared_ice [simp]: "inputs (revoke_prepared_ice sid k w) = inputs w"
  by (simp add: revoke_prepared_ice_def split: option.split)

lemma inputs_answer_prepare [simp]: "inputs (answer_prepare a res w) = inputs w"
  by (simp add: answer_prepare_def split: after_prepare.split)

lemma inputs_prepare_call [simp]: "inputs (prepare_call e b a w) = inputs w"
  by (simp add: prepare_call_def Let_def split: option.split)

lemma inputs_store_media [simp]: "inputs (store_media b a w) = inputs w"
  by (simp add: store_media_def Let_def)

lemma inputs_start_failed [simp]: "inputs (start_failed c ice p h w) = inputs w"
  by (simp add: start_failed_def Let_def split: option.split)

lemma inputs_resume_suspended [simp]: "inputs (resume_suspended e i c ice w) = inputs w"
  by (simp add: resume_suspended_def Let_def)

lemma inputs_fresh_start [simp]: "inputs (fresh_start e c ice w) = inputs w"
  by (simp add: fresh_start_def Let_def)

lemma inputs_start_prepared [simp]: "inputs (start_prepared e c ex w) = inputs w"
  by (simp add: start_prepared_def Let_def split: option.split)

lemma inputs_start_ready [simp]: "inputs (start_ready cfg e c ex w) = inputs w"
  by (simp add: start_ready_def)

lemma inputs_start_media [simp]: "inputs (start_media cfg e offer c w) = inputs w"
  by (simp add: start_media_def Let_def split: option.split)

lemma inputs_enter_runtime [simp]: "inputs (enter_runtime cfg e c ice p h w) = inputs w"
  by (simp add: enter_runtime_def Let_def)

lemma inputs_stage_over [simp]: "inputs (stage_over st j p c t w) = inputs w"
  by (simp add: stage_over_def Let_def split: option.split)

lemma inputs_suspend_now [simp]: "inputs (suspend_now sid n w) = inputs w"
  by (simp add: suspend_now_def Let_def split: option.split)

lemma inputs_after_ended [simp]: "inputs (after_ended cfg e ok k w) = inputs w"
  by (simp add: after_ended_def split: after_end.split)

lemma inputs_after_revoked [simp]: "inputs (after_revoked cfg e ok k w) = inputs w"
  by (simp add: after_revoked_def split: after_revoke.split)

lemma inputs_run_task [simp]: "inputs (run_task cfg e t w) = inputs w"
  by (cases t) (simp_all add: run_task_def Let_def split: option.split)

lemma inputs_packet_settled [simp]: "inputs (packet_settled e d w) = inputs w"
  by (simp add: packet_settled_def Let_def split: list.split)

lemma inputs_host_gone [simp]: "inputs (host_gone e i c w) = inputs w"
  by (simp add: host_gone_def Let_def)

lemma inputs_host_event [simp]: "inputs (host_event e i v w) = inputs w"
  by (cases v) (simp_all add: host_event_def Let_def split: host_report.split)

lemma inputs_peer_event [simp]: "inputs (peer_event e p st w) = inputs w"
  by (simp add: peer_event_def Let_def split: option.split)

lemma media_input_step:
  "filter host_input (mw_log (media_step cfg parse coerce text_of w em)) = filter host_input (mw_log w)
   \<or> (\<exists>i q p realtime msg v x. snd em = Do_input q p realtime msg \<and> snd (mw_peers w ! p) = Some i \<and> mr_peer (rt w i) = p
        \<and> \<not> mr_suspended (rt w i) \<and> \<not> mr_closing (rt w i) \<and> ev_begin (fst em)
        \<and> parse msg = Some v \<and> parse_media_input coerce v realtime = Some x
        \<and> mw_log (media_step cfg parse coerce text_of w em) = mw_log w @ [Begin_input i (mr_hooks (rt w i)) x, Host_input i (text_of x)])"
proof (cases "snd em")
  case (Do_input q p realtime msg)
  then show ?thesis
    by (simp add: media_step_def channel_input_def Let_def split: option.split) (auto simp: emit_def)
qed (auto simp: media_step_def Let_def suspend_media_def revoke_media_def revoke_intervention_def simp flip: inputs_def split: option.split)

section \<open>Demonstrations\<close>

definition demo_media_env :: media_env where
  "demo_media_env = \<lparr>ev_now = 1000, ev_terminal = Some False, ev_open = True, ev_stdin = True, ev_begin = True, ev_ok = True,
     ev_spawn = True, ev_exited = True, ev_random = 0\<rparr>"

definition demo_media_binding :: "int \<Rightarrow> webrtc_binding" where
  "demo_media_binding g = \<lparr>mb_id = ''s'', mb_intervention = ''i'', mb_epoch = 1, mb_principal = ''p'', mb_client = ''c'', mb_generation = g,
     mb_expires = 9000, mb_process = None, mb_window = None\<rparr>"

definition demo_media_call :: "nat \<Rightarrow> start_call" where
  "demo_media_call n = \<lparr>sc_call = n, sc_binding = demo_media_binding (int n), sc_hooks = n\<rparr>"

definition demo_media_config :: "bool \<Rightarrow> media_config" where
  "demo_media_config provider = \<lparr>md_provider = provider, md_display = False, md_preserve = True\<rparr>"

definition demo_media_frame :: "nat \<Rightarrow> bool \<Rightarrow> host_frame" where
  "demo_media_frame t key = \<lparr>hf_timestamp = t, hf_keyframe = key, hf_width = 2, hf_height = 2, hf_avcc = [0, 0, 0, 1, if key then 101 else 65]\<rparr>"

text \<open>The input is always the key Enter. The moves come with the outcome of an await.\<close>

definition demo_media_run :: "bool \<Rightarrow> media_world \<Rightarrow> (bool \<times> media_move) list \<Rightarrow> media_world" where
  "demo_media_run provider w ms = run (media_step (demo_media_config provider) (\<lambda>_. Some (JObj [(''kind'', JStr ''key''), (''key'', JStr ''Enter'')])) (\<lambda>_. NaN) (\<lambda>_. ''k'')) w
     (map (\<lambda>(ok, m). (demo_media_env\<lparr>ev_ok := ok\<rparr>, m)) ms)"

text \<open>A first start, its connection, and input for peer \<open>p\<close>.\<close>

definition demo_start :: "(bool \<times> media_move) list" where
  "demo_start = map (Pair True) [Do_start True (demo_media_call 1), Do_task 0, Do_task 1, Do_task 2]"

definition demo_connect :: "(bool \<times> media_move) list" where
  "demo_connect = map (Pair True) [Do_host 0 (Host_record (Host_frame (demo_media_frame 0 True))), Do_task 3, Do_task 4, Do_task 5, Do_task 6, Do_peer 0 Peer_connected]"

definition demo_input :: "nat \<Rightarrow> bool \<times> media_move" where
  "demo_input p = (True, Do_input \<lparr>hq_writable = True, hq_need_drain = False, hq_length = 0\<rparr> p False ''m'')"

section \<open>Properties\<close>

text \<open>C8. A runtime that has ended is silent: from the moment \<open>end\<close> marks it closing, whatever calls, callbacks, timers and settled
  awaits follow, it takes no frame, sends no packet and no IDR request, hands the host no input, and calls none of its
  hooks again.
\<close>

theorem ended_runtime_is_silent:
  assumes "i < length (mw_runtimes w)" and "mr_closing (rt w i)"
  shows "filter (voice_of i) (mw_log (run (media_step cfg parse coerce text_of) w ms)) = filter (voice_of i) (mw_log w)"
proof -
  have "ended_at i (voice i w) w" using assms by (simp add: ended_at_def)
  then have "ended_at i (voice i w) (run (media_step cfg parse coerce text_of) w ms)" by (rule ended.good_run)
  then show ?thesis by (simp add: ended_at_def voice_def)
qed

theorem ended_runtime_is_silent_witness:
  "let w = demo_media_run False empty_media (demo_start @ demo_connect @ [demo_input 0, (True, Do_peer 0 Peer_failed)]) in
   filter (voice_of 0) (mw_log (run (media_step (demo_media_config False) (\<lambda>_. None) (\<lambda>_. NaN) (\<lambda>_. ''k'')) w
     [(demo_media_env, Do_packet 0), (demo_media_env, Do_host 0 Host_exited)])) = filter (voice_of 0) (mw_log w)
   \<and> Host_input 0 ''k'' \<in> set (mw_log w) \<and> Hook_disconnected 0 1 \<in> set (mw_log w)"
proof -
  let ?w = "demo_media_run False empty_media (demo_start @ demo_connect @ [demo_input 0, (True, Do_peer 0 Peer_failed)])"
  have "let w = ?w in 0 < length (mw_runtimes w) \<and> mr_closing (rt w 0) \<and> Host_input 0 ''k'' \<in> set (mw_log w) \<and> Hook_disconnected 0 1 \<in> set (mw_log w)"
    by code_simp
  then have f: "0 < length (mw_runtimes ?w)" "mr_closing (rt ?w 0)" "Host_input 0 ''k'' \<in> set (mw_log ?w) \<and> Hook_disconnected 0 1 \<in> set (mw_log ?w)"
    unfolding Let_def by iprover+
  show ?thesis unfolding Let_def by (rule conjI [OF ended_runtime_is_silent [OF f(1,2)] f(3)])
qed

text \<open>C9. Input reaches the host only through the current peer and the current authority: a step writes input to a host only for
  a message on the peer its runtime has now, while the runtime is neither suspended nor closing, after its \<open>beginInput\<close>
  hook admitted the parsed input.
\<close>

theorem media_input_is_fenced:
  "filter host_input (mw_log (media_step cfg parse coerce text_of w em)) = filter host_input (mw_log w)
   \<or> (\<exists>i q p realtime msg v x. snd em = Do_input q p realtime msg \<and> snd (mw_peers w ! p) = Some i \<and> mr_peer (rt w i) = p
        \<and> \<not> mr_suspended (rt w i) \<and> \<not> mr_closing (rt w i) \<and> ev_begin (fst em)
        \<and> parse msg = Some v \<and> parse_media_input coerce v realtime = Some x
        \<and> mw_log (media_step cfg parse coerce text_of w em) = mw_log w @ [Begin_input i (mr_hooks (rt w i)) x, Host_input i (text_of x)])"
  by (rule media_input_step)

text \<open>C10. Video begins with a keyframe: whatever happens, the first frame that is taken to be sent while a peer is the peer of
  its runtime is a keyframe, on the first connection and after every resume.
\<close>

theorem video_begins_with_keyframe:
  "frames_on p (run (media_step cfg parse coerce text_of) empty_media ms) = []
   \<or> hf_keyframe (hd (frames_on p (run (media_step cfg parse coerce text_of) empty_media ms)))"
  using video.good_run [OF empty_video, of cfg parse coerce text_of ms] by (auto simp: video_ok_def)

end
