(* ===== verification/Webrtc_Faults.thy ===== *)
theory Webrtc_Faults
  imports Webrtc_Runtime
begin

text \<open>
  Where \<open>SpawnedWebRtcRuntimeProvider\<close> (\<open>src/browser-takeover/webrtc-runtime.ts\<close>) falls short of its own comments: a
  runtime that nothing can end any more, a gap in the video that nobody asks to be repaired, and three shorter ones shown
  on one run each. The model is that of \<open>Webrtc_Runtime\<close>.
\<close>

section \<open>A runtime out of reach\<close>

text \<open>The runtime is entered under no session, so \<open>end\<close>, which looks a runtime up by its session, never ends it.\<close>

definition orphan :: "nat \<Rightarrow> media_world \<Rightarrow> bool" where
  "orphan j w \<longleftrightarrow> j < length (mw_runtimes w) \<and> j \<notin> snd ` set (mw_active w)
     \<and> \<not> mr_closing (rt w j) \<and> \<not> mr_suspended (rt w j) \<and> \<not> mr_timer (rt w j)"

named_theorems orphan_intros \<open>operations keep an orphaned runtime running and unreachable\<close>

lemma orphan_fields [simp]:
  "orphan j (w\<lparr>mw_prepared := b\<rparr>) = orphan j w" "orphan j (w\<lparr>mw_timers := c\<rparr>) = orphan j w" "orphan j (w\<lparr>mw_peers := d\<rparr>) = orphan j w"
  "orphan j (w\<lparr>mw_drains := g\<rparr>) = orphan j w" "orphan j (w\<lparr>mw_tasks := h\<rparr>) = orphan j w" "orphan j (w\<lparr>mw_ice_count := n\<rparr>) = orphan j w"
  "orphan j (w\<lparr>mw_hosts := m\<rparr>) = orphan j w" "orphan j (w\<lparr>mw_log := l\<rparr>) = orphan j w"
  by (simp_all add: orphan_def)

lemma orphan_says [simp]: "orphan j (spawn_task t w) = orphan j w" "orphan j (emit x w) = orphan j w"
  by (simp_all add: spawn_task_def emit_def)

lemma orphan_drop_key [orphan_intros]: "orphan j w \<Longrightarrow> orphan j (w\<lparr>mw_active := drop_key sid (mw_active w)\<rparr>)"
  by (auto simp: orphan_def drop_key_def)

lemma change_keeps [simp]: "mw_active (change i f w) = mw_active w" "length (mw_runtimes (change i f w)) = length (mw_runtimes w)"
  by (simp_all add: change_def)

lemma orphan_change [orphan_intros]:
  "orphan j w \<Longrightarrow> (\<And>r. i = j \<Longrightarrow> \<not> mr_closing r \<and> \<not> mr_suspended r \<and> \<not> mr_timer r \<Longrightarrow> \<not> mr_closing (f r) \<and> \<not> mr_suspended (f r) \<and> \<not> mr_timer (f r))
    \<Longrightarrow> orphan j (change i f w)"
  by (auto simp: orphan_def rt_change)

text \<open>Whatever is found through a session is another runtime.\<close>

lemma orphan_other: "orphan j w \<Longrightarrow> map_of (mw_active w) sid = Some i \<Longrightarrow> i \<noteq> j"
  by (auto simp: orphan_def dest!: map_of_SomeD) force

lemma orphan_idr [orphan_intros]: "orphan j w \<Longrightarrow> orphan j (request_idr e i w)"
  by (auto simp: request_idr_def Let_def intro!: orphan_intros)

lemma orphan_drain [orphan_intros]: "orphan j w \<Longrightarrow> orphan j (drain_loop i w)"
  by (auto simp: drain_loop_def Let_def intro!: orphan_intros split: option.split list.split)

lemma orphan_start_drain [orphan_intros]: "orphan j w \<Longrightarrow> orphan j (start_drain i w)"
  by (auto simp: start_drain_def intro!: orphan_intros)

lemma orphan_enqueue [orphan_intros]: "orphan j w \<Longrightarrow> orphan j (enqueue_connected e f i w)"
  by (auto simp: enqueue_connected_def Let_def intro!: orphan_intros split: option.split)

lemma orphan_write [orphan_intros]: "orphan j w \<Longrightarrow> orphan j (write_frame e f i w)"
  by (auto simp: write_frame_def Let_def intro!: orphan_intros)

lemma orphan_leaves [orphan_intros]:
  assumes "orphan j w" and "map_of (mw_active w) sid = Some i"
  shows "orphan j ((change i f w)\<lparr>mw_active := drop_key sid (mw_active w)\<rparr>)"
  using orphan_drop_key [OF assms(1), of sid] orphan_other [OF assms]
  by (simp add: orphan_def rt_change)

lemma orphan_end [orphan_intros]: "orphan j w \<Longrightarrow> orphan j (end_runtime e sid n c k w)"
  by (simp add: end_runtime_def Let_def orphan_leaves split: option.split)

lemma orphan_revoke_prepared [orphan_intros]: "orphan j w \<Longrightarrow> orphan j (revoke_prepared_ice sid k w)"
  by (simp add: revoke_prepared_ice_def split: option.split)

lemma orphan_answer [orphan_intros]: "orphan j w \<Longrightarrow> orphan j (answer_prepare a res w)"
  by (simp add: answer_prepare_def split: after_prepare.split)

lemma orphan_prepare [orphan_intros]: "orphan j w \<Longrightarrow> orphan j (prepare_call e b a w)"
  by (auto simp: prepare_call_def Let_def intro!: orphan_intros split: option.split)

lemma orphan_store [orphan_intros]: "orphan j w \<Longrightarrow> orphan j (store_media b a w)"
  by (auto simp: store_media_def Let_def intro!: orphan_intros)

lemma orphan_failed [orphan_intros]: "orphan j w \<Longrightarrow> orphan j (start_failed c ice p h w)"
  by (auto simp: start_failed_def Let_def split: option.split)

lemma orphan_resume [orphan_intros]: "orphan j w \<Longrightarrow> orphan j (resume_suspended e i c ice w)"
  by (auto simp: resume_suspended_def Let_def intro!: orphan_intros)

lemma orphan_fresh [orphan_intros]: "orphan j w \<Longrightarrow> orphan j (fresh_start e c ice w)"
  by (auto simp: fresh_start_def Let_def intro!: orphan_intros)

lemma orphan_start_prepared [orphan_intros]: "orphan j w \<Longrightarrow> orphan j (start_prepared e c ex w)"
  by (auto simp: start_prepared_def Let_def intro!: orphan_intros split: option.split)

lemma orphan_ready [orphan_intros]: "orphan j w \<Longrightarrow> orphan j (start_ready cfg e c ex w)"
  by (auto simp: start_ready_def intro!: orphan_intros)

lemma orphan_start [orphan_intros]: "orphan j w \<Longrightarrow> orphan j (start_media cfg e offer c w)"
  by (auto simp: start_media_def Let_def intro!: orphan_intros split: option.split)

lemma values_update: "snd ` set (AList.update k v al) \<subseteq> insert v (snd ` set al)"
  by (induction al) auto

lemma orphan_enter [orphan_intros]: "orphan j w \<Longrightarrow> orphan j (enter_runtime cfg e c ice p h w)"
  using values_update [of "mb_id (sc_binding c)" "length (mw_runtimes w)" "mw_active w"]
  by (simp add: enter_runtime_def Let_def) (auto simp: orphan_def rt_def nth_append)

lemma orphan_stage [orphan_intros]: "orphan j w \<Longrightarrow> orphan j (stage_over st i p c t w)"
  by (auto simp: stage_over_def Let_def intro!: orphan_intros split: option.split)

lemma orphan_suspend_now [orphan_intros]: "orphan j w \<Longrightarrow> orphan j (suspend_now sid n w)"
  using orphan_other [of j w sid]
  by (auto simp: suspend_now_def Let_def intro!: orphan_intros split: option.split)

lemma orphan_revoke_next [orphan_intros]: "orphan j w \<Longrightarrow> orphan j (revoke_next n sids w)"
  by (cases sids) (auto intro!: orphan_intros)

lemma orphan_after_ended [orphan_intros]: "orphan j w \<Longrightarrow> orphan j (after_ended cfg e ok k w)"
  by (auto simp: after_ended_def intro!: orphan_intros split: after_end.split)

lemma orphan_after_revoked [orphan_intros]: "orphan j w \<Longrightarrow> orphan j (after_revoked cfg e ok k w)"
  by (auto simp: after_revoked_def intro!: orphan_intros split: after_revoke.split)

lemma orphan_task [orphan_intros]: "orphan j w \<Longrightarrow> orphan j (run_task cfg e t w)"
  by (cases t) (auto simp: run_task_def Let_def intro!: orphan_intros split: option.split)

lemma orphan_packet [orphan_intros]: "orphan j w \<Longrightarrow> orphan j (packet_settled e d w)"
  by (auto simp: packet_settled_def Let_def intro!: orphan_intros split: list.split)

lemma orphan_gone [orphan_intros]: "orphan j w \<Longrightarrow> orphan j (host_gone e i c w)"
  by (auto simp: host_gone_def Let_def intro!: orphan_intros)

lemma orphan_host [orphan_intros]: "orphan j w \<Longrightarrow> orphan j (host_event e i v w)"
  by (cases v) (auto simp: host_event_def Let_def intro!: orphan_intros split: host_report.split)

lemma orphan_peer [orphan_intros]: "orphan j w \<Longrightarrow> orphan j (peer_event e p st w)"
  by (auto simp: peer_event_def Let_def intro!: orphan_intros split: option.split)

lemma orphan_input [orphan_intros]: "orphan j w \<Longrightarrow> orphan j (channel_input parse coerce tx e q p realtime msg w)"
  by (simp add: channel_input_def Let_def split: option.split)

lemma orphan_step: "orphan j w \<Longrightarrow> orphan j (media_step cfg parse coerce tx w em)"
  by (cases "snd em") (auto simp: media_step_def Let_def suspend_media_def revoke_media_def revoke_intervention_def
      intro!: orphan_intros split: option.split)

interpretation orphan: guarded_machine "media_step cfg parse coerce tx" "orphan j" for cfg parse coerce tx j
  by unfold_locales (rule orphan_step)



section \<open>Frames on the line\<close>

text \<open>A frame whose packets all go out: the moves that settle them, one after the other.\<close>

definition packets_settle :: "media_env \<Rightarrow> nat \<Rightarrow> nat \<Rightarrow> nat \<Rightarrow> (media_env \<times> media_move) list" where
  "packets_settle e k d n = map (\<lambda>k. (e, Do_packet k)) (k # [d ..< d + n - 1])"

lemma peer_up_cong: "mw_peers w' = mw_peers w \<Longrightarrow> rt w' i = rt w i \<Longrightarrow> may_send w' i = may_send w i"
  by (simp add: may_send_rt)

lemma frame_goes_out:
  assumes "ev_ok e" and "may_send w i" and "k < length (mw_drains w)"
    and "mw_drains w ! k = Some \<lparr>dr_runtime = i, dr_sender = p, dr_left = qs\<rparr>" and "qs \<noteq> []"
  shows "\<exists>w' n. run (media_step cfg parse coerce text_of) w (packets_settle e k (length (mw_drains w)) (length qs))
        = drain_loop i (change i (\<lambda>r. r\<lparr>mr_sequence := n\<rparr>) w')
      \<and> mw_runtimes w' = mw_runtimes w \<and> mw_peers w' = mw_peers w \<and> length (mw_drains w') = length (mw_drains w) + length qs - 1
      \<and> mw_log w' = mw_log w @ map (Packet_sent i p) (tl qs)"
  using assms(2-)
proof (induction qs arbitrary: w k)
  case (Cons q qs)
  let ?w = "w\<lparr>mw_drains := (mw_drains w)[k := None]\<rparr>" and ?step = "media_step cfg parse coerce text_of"
  show ?case
  proof (cases qs)
    case Nil
    have "?step w (e, Do_packet k) = drain_loop i (change i (\<lambda>r. r\<lparr>mr_sequence := rp_sequence q + 1\<rparr>) ?w)"
      using assms(1) Cons.prems Nil by (simp add: media_step_def packet_settled_def Let_def)
    then have "run ?step w (packets_settle e k (length (mw_drains w)) (length (q # qs)))
        = drain_loop i (change i (\<lambda>r. r\<lparr>mr_sequence := rp_sequence q + 1\<rparr>) ?w)"
      by (simp add: packets_settle_def Nil)
    then show ?thesis by (intro exI [of _ ?w] exI) (auto simp: Nil)
  next
    case (Cons q' qs')
    let ?v = "emit (Packet_sent i p q') (?w\<lparr>mw_drains := mw_drains ?w @ [Some \<lparr>dr_runtime = i, dr_sender = p, dr_left = qs\<rparr>]\<rparr>)"
    have send: "may_send ?w i" using Cons.prems(1) by (simp add: may_send_rt)
    have v: "?step w (e, Do_packet k) = ?v"
      using assms(1) Cons.prems send \<open>qs = q' # qs'\<close> by (simp add: media_step_def packet_settled_def Let_def)
    have fields: "mw_runtimes ?v = mw_runtimes w" "mw_peers ?v = mw_peers w" "length (mw_drains ?v) = length (mw_drains w) + 1"
        "mw_log ?v = mw_log w @ [Packet_sent i p q']"
      by (simp_all add: emit_def)
    have "may_send ?v i" using Cons.prems(1) by (simp add: may_send_rt)
    moreover have "length (mw_drains w) < length (mw_drains ?v)"
        "mw_drains ?v ! length (mw_drains w) = Some \<lparr>dr_runtime = i, dr_sender = p, dr_left = qs\<rparr>"
      using Cons.prems by (simp_all add: emit_def nth_append)
    ultimately obtain w' n where IH: "run ?step ?v (packets_settle e (length (mw_drains w)) (length (mw_drains ?v)) (length qs))
          = drain_loop i (change i (\<lambda>r. r\<lparr>mr_sequence := n\<rparr>) w')"
        "mw_runtimes w' = mw_runtimes ?v" "mw_peers w' = mw_peers ?v" "length (mw_drains w') = length (mw_drains ?v) + length qs - 1"
        "mw_log w' = mw_log ?v @ map (Packet_sent i p) (tl qs)"
      using Cons.IH [of ?v "length (mw_drains w)"] Cons by blast
    have "packets_settle e k (length (mw_drains w)) (length (q # qs))
        = (e, Do_packet k) # packets_settle e (length (mw_drains w)) (length (mw_drains w) + 1) (length qs)"
      using upt_conv_Cons [of "length (mw_drains w)" "length (mw_drains w) + length qs"] Cons by (simp add: packets_settle_def)
    then have "run ?step w (packets_settle e k (length (mw_drains w)) (length (q # qs)))
        = drain_loop i (change i (\<lambda>r. r\<lparr>mr_sequence := n\<rparr>) w')"
      using IH(1) v by (simp add: fields)
    then show ?thesis
      using IH(2-5) by (intro exI [of _ w'] exI [of _ n]) (auto simp: Cons emit_def)
  qed
qed simp


lemma length_frame_packets: "length (frame_packets n f) = length (frame_packets 0 f)"
proof -
  have "length (packets_of n t ps) = length ps" for n t ps by (induction ps arbitrary: n) simp_all
  then show ?thesis by (simp add: frame_packets_def)
qed

lemma change_fields [simp]:
  "mw_peers (change i f w) = mw_peers w" "mw_drains (change i f w) = mw_drains w" "mw_log (change i f w) = mw_log w"
  by (simp_all add: change_def)

text \<open>What the loop does with a waiting frame.\<close>

lemma waiting_frame_goes:
  assumes "may_send w i" and "mr_sender (rt w i) = Some p" and "mr_pending (rt w i) = Some g"
  shows "rt (drain_loop i w) i = (rt w i)\<lparr>mr_pending := None, mr_draining := mr_draining (rt w i) \<and> frame_packets 0 g \<noteq> []\<rparr>
    \<and> length (mw_runtimes (drain_loop i w)) = length (mw_runtimes w) \<and> mw_peers (drain_loop i w) = mw_peers w
    \<and> (\<exists>ps. mw_log (drain_loop i w) = mw_log w @ Frame_taken i (mr_peer (rt w i)) g # map (Packet_sent i p) ps)
    \<and> (frame_packets 0 g \<noteq> [] \<longrightarrow> length (mw_drains (drain_loop i w)) = length (mw_drains w) + 1
        \<and> mw_drains (drain_loop i w) ! length (mw_drains w)
            = Some \<lparr>dr_runtime = i, dr_sender = p, dr_left = frame_packets (mr_sequence (rt w i)) g\<rparr>)"
proof -
  have i: "i < length (mw_runtimes w)" using assms(1) by (rule may_send_exists)
  show ?thesis
  proof (cases "frame_packets (mr_sequence (rt w i)) g")
    case Nil
    then have "frame_packets 0 g = []" using length_frame_packets [of "mr_sequence (rt w i)" g] by simp
    with Nil i assms show ?thesis
      by (auto simp: drain_loop_def Let_def rt_change emit_def)
  next
    case (Cons q qs)
    then have "frame_packets 0 g \<noteq> []" using length_frame_packets [of "mr_sequence (rt w i)" g] by auto
    with Cons i assms show ?thesis
      by (auto simp: drain_loop_def Let_def rt_change emit_def intro: exI [of _ "[q]"])
  qed
qed

text \<open>Effects that show neither a frame nor a request for a keyframe.\<close>

definition only_packets :: "nat \<Rightarrow> media_effect list \<Rightarrow> bool" where
  "only_packets i xs \<longleftrightarrow> (\<exists>p ps. xs = map (Packet_sent i p) ps)"

lemma only_packetsD: "only_packets i xs \<Longrightarrow> Idr_requested i \<notin> set xs \<and> concat (map (frame_on q) xs) = []"
  by (auto simp: only_packets_def)

text \<open>When the frame under way is out, the waiting one is taken; without one the loop ends.\<close>

lemma settled_frame:
  assumes "ev_ok e" and "may_send w i" and "mr_sender (rt w i) = Some p" and "mr_draining (rt w i)"
    and "k < length (mw_drains w)" and "mw_drains w ! k = Some \<lparr>dr_runtime = i, dr_sender = p, dr_left = qs\<rparr>" and "qs \<noteq> []"
    and "u = run (media_step cfg parse coerce text_of) w (packets_settle e k (length (mw_drains w)) (length qs))"
  shows "\<exists>n xs. only_packets i xs \<and> mw_peers u = mw_peers w \<and> length (mw_runtimes u) = length (mw_runtimes w) \<and>
    (case mr_pending (rt w i) of
       None \<Rightarrow> rt u i = (rt w i)\<lparr>mr_sequence := n, mr_draining := False\<rparr> \<and> mw_log u = mw_log w @ xs
     | Some g \<Rightarrow> frame_packets 0 g \<noteq> [] \<longrightarrow> (let t = length (mw_drains w) + length qs - 1 in
         rt u i = (rt w i)\<lparr>mr_sequence := n, mr_pending := None\<rparr> \<and> length (mw_drains u) = t + 1
         \<and> mw_drains u ! t = Some \<lparr>dr_runtime = i, dr_sender = p, dr_left = frame_packets n g\<rparr>
         \<and> (\<exists>ys. only_packets i ys \<and> mw_log u = mw_log w @ xs @ Frame_taken i (mr_peer (rt w i)) g # ys)))"
proof -
  have i: "i < length (mw_runtimes w)" using assms(2) by (rule may_send_exists)
  obtain w1 n where w1: "u = drain_loop i (change i (\<lambda>r. r\<lparr>mr_sequence := n\<rparr>) w1)"
      "mw_runtimes w1 = mw_runtimes w" "mw_peers w1 = mw_peers w" "length (mw_drains w1) = length (mw_drains w) + length qs - 1"
      "mw_log w1 = mw_log w @ map (Packet_sent i p) (tl qs)"
    using frame_goes_out [OF assms(1,2,5-7)] assms(8) by blast
  define v where "v = change i (\<lambda>r. r\<lparr>mr_sequence := n\<rparr>) w1"
  have v: "rt v i = (rt w i)\<lparr>mr_sequence := n\<rparr>" "mw_peers v = mw_peers w" "length (mw_runtimes v) = length (mw_runtimes w)"
      "length (mw_drains v) = length (mw_drains w) + length qs - 1" "mw_log v = mw_log w @ map (Packet_sent i p) (tl qs)"
    using i w1(2-5) by (simp_all add: v_def rt_change) (simp add: rt_def)
  have send: "may_send v i" "mr_sender (rt v i) = Some p" using assms(2,3) v(1,2) by (simp_all add: may_send_rt)
  have xs: "only_packets i (map (Packet_sent i p) (tl qs))" by (auto simp: only_packets_def)
  show ?thesis
  proof (cases "mr_pending (rt w i)")
    case None
    then have "u = change i (\<lambda>r. r\<lparr>mr_draining := False\<rparr>) v" using v(1) assms(3) by (simp add: w1(1) drain_loop_def flip: v_def)
    then show ?thesis using None v i xs by (auto simp: rt_change)
  next
    case (Some g)
    then have "mr_pending (rt v i) = Some g" using v(1) by simp
    from waiting_frame_goes [OF send this] have taken:
        "mw_peers u = mw_peers w" "length (mw_runtimes u) = length (mw_runtimes w)"
        "\<exists>ys. only_packets i ys \<and> mw_log u = mw_log v @ Frame_taken i (mr_peer (rt v i)) g # ys"
        "frame_packets 0 g \<noteq> [] \<Longrightarrow> rt u i = (rt v i)\<lparr>mr_pending := None\<rparr> \<and> length (mw_drains u) = length (mw_drains v) + 1
          \<and> mw_drains u ! length (mw_drains v) = Some \<lparr>dr_runtime = i, dr_sender = p, dr_left = frame_packets (mr_sequence (rt v i)) g\<rparr>"
      using v(1-3) assms(4) by (auto simp: w1(1) only_packets_def simp flip: v_def)
    from taken(3) obtain ys where ys: "only_packets i ys" "mw_log u = mw_log v @ Frame_taken i (mr_peer (rt v i)) g # ys" by blast
    show ?thesis
      by (rule exI [of _ n], rule exI [of _ "map (Packet_sent i p) (tl qs)"]) (use Some v taken ys xs in \<open>auto simp: Let_def\<close>)
  qed
qed

text \<open>A dependent frame on an idle line is taken at once.\<close>

lemma idle_frame_goes:
  assumes "may_send w i" and "\<not> mr_suspended (rt w i)" and "mr_sender (rt w i) = Some p" and "\<not> mr_draining (rt w i)"
    and "\<not> mr_awaiting (rt w i)" and "mr_pending (rt w i) = None" and "\<not> hf_keyframe h"
  shows "\<exists>ys. only_packets i ys \<and> mw_log (media_step cfg parse coerce text_of w (e, Do_host i (Host_record (Host_frame h))))
    = mw_log w @ Frame_taken i (mr_peer (rt w i)) h # ys"
proof -
  have i: "i < length (mw_runtimes w)" using assms(1) by (rule may_send_exists)
  define y where "y = change i (\<lambda>r. r\<lparr>mr_media_ready := settle_gate True (mr_media_ready r)\<rparr>) w"
  define z where "z = change i (\<lambda>r. r\<lparr>mr_draining := True\<rparr>) (change i (\<lambda>r. r\<lparr>mr_pending := Some h\<rparr>) y)"
  have y: "rt y i = (rt w i)\<lparr>mr_media_ready := settle_gate True (mr_media_ready (rt w i))\<rparr>" "mw_peers y = mw_peers w"
      "length (mw_runtimes y) = length (mw_runtimes w)" "mw_log y = mw_log w"
    using i by (simp_all add: y_def rt_change)
  then have send: "may_send y i" using assms(1) by (simp add: may_send_rt)
  have z: "rt z i = (rt y i)\<lparr>mr_pending := Some h, mr_draining := True\<rparr>" "mw_peers z = mw_peers w" "mw_log z = mw_log w"
    using i y by (simp_all add: z_def rt_change)
  have "media_step cfg parse coerce text_of w (e, Do_host i (Host_record (Host_frame h))) = start_drain i (change i (\<lambda>r. r\<lparr>mr_pending := Some h\<rparr>) y)"
    using i assms y send
    by (simp add: media_step_def host_event_def write_frame_def enqueue_connected_def may_send_def Let_def flip: y_def)
  also have "\<dots> = drain_loop i z" using i y assms(4) by (simp add: start_drain_def rt_change z_def)
  finally have step: "media_step cfg parse coerce text_of w (e, Do_host i (Host_record (Host_frame h))) = drain_loop i z" .
  have "may_send z i" "mr_sender (rt z i) = Some p" "mr_pending (rt z i) = Some h"
    using assms(1,3) y z by (simp_all add: may_send_rt)
  from waiting_frame_goes [OF this] step z y show ?thesis by (auto simp: only_packets_def)
qed


section \<open>Properties\<close>

text \<open>A first start that fails while the runtime of the second is already entered, and a later revocation of the session.\<close>

definition demo_late_failure :: "(bool \<times> media_move) list" where
  "demo_late_failure = demo_start
     @ map (Pair True) [Do_start True (demo_media_call 2), Do_task 4, Do_task 5, Do_task 6, Do_task 7, Do_task 8, Do_task 9]
     @ [(False, Do_task 3)]"

definition demo_revoked :: "(media_env \<times> media_move) list" where
  "demo_revoked = [(demo_media_env, Do_revoke ''s'' 3), (demo_media_env, Do_task 13), (demo_media_env, Do_task 14)]"

text \<open>A connected runtime with a frame under way and a keyframe waiting, and the packets of one more.\<close>

definition demo_waiting :: "(bool \<times> media_move) list" where
  "demo_waiting = demo_start @ demo_connect @ [(True, Do_host 0 (Host_record (Host_frame (demo_media_frame 1 True))))]"

text \<open>C33. A start that fails late puts the newer runtime out of reach. When the cleanup of a failed start goes on after its peer is
  closed, and by then the session's entry is another runtime \<open>j\<close>, the cleanup removes that entry and stops that runtime's
  expiry timer. From then on no session leads to \<open>j\<close> and nothing ends it: after whatever calls, callbacks, timers and
  settled awaits follow, revocations and the loss of its peer or host included, it is not closing, has no expiry timer,
  and still passes on every input that its \<open>beginInput\<close> hook admits.
\<close>

theorem late_failure_orphans_newer:
  assumes "k < length (mw_tasks w)" and "mw_tasks w ! k = Some (Start_closing c ice)"
    and "filter (\<lambda>p. fst p = mb_id (sc_binding c) \<or> snd p = j) (mw_active w) = [(mb_id (sc_binding c), j)]"
    and "j < length (mw_runtimes w)" and "\<not> mr_closing (rt w j)" and "\<not> mr_suspended (rt w j)"
    and "w1 = media_step cfg parse coerce text_of w (e, Do_task k)" and "w2 = run (media_step cfg parse coerce text_of) w1 ms"
  shows "map_of (mw_active w1) (mb_id (sc_binding c)) = None \<and> rt w1 j = (rt w j)\<lparr>mr_timer := False\<rparr>
    \<and> (\<forall>sid. map_of (mw_active w2) sid \<noteq> Some j) \<and> \<not> mr_closing (rt w2 j) \<and> \<not> mr_timer (rt w2 j)
    \<and> (snd (mw_peers w2 ! p) = Some j \<and> mr_peer (rt w2 j) = p \<and> p < length (mw_peers w2) \<and> ev_begin e2 \<and> parse msg = Some v
         \<and> parse_media_input coerce v realtime = Some x \<and> can_write_input q (utf8_length msg) realtime
         \<and> 0 < utf8_length msg \<and> utf8_length msg \<le> 4096 \<and> utf8_length (text_of x) \<le> 4096
       \<longrightarrow> last (mw_log (media_step cfg parse coerce text_of w2 (e2, Do_input q p realtime msg))) = Host_input j (text_of x))"
proof -
  let ?sid = "mb_id (sc_binding c)" and ?w = "w\<lparr>mw_tasks := (mw_tasks w)[k := None]\<rparr>"
  have only: "(s, i) \<in> set (mw_active w) \<Longrightarrow> s = ?sid \<or> i = j \<Longrightarrow> (s, i) = (?sid, j)" for s i
    using assms(3) filter_set [of "\<lambda>p. fst p = ?sid \<or> snd p = j" "mw_active w"] by fastforce
  have "(?sid, j) \<in> set (mw_active w)" using assms(3) filter_set [of "\<lambda>p. fst p = ?sid \<or> snd p = j" "mw_active w"] by fastforce
  then obtain i where i: "map_of (mw_active w) ?sid = Some i" using weak_map_of_SomeI by fastforce
  then have found: "map_of (mw_active w) ?sid = Some j" using only [of ?sid i] map_of_SomeD [OF i] by simp
  have w1: "w1 = spawn_task (Start_revoking c) (emit (Revoke_ice ice)
      ((change j (\<lambda>r. r\<lparr>mr_timer := False\<rparr>) ?w)\<lparr>mw_active := drop_key ?sid (mw_active w)\<rparr>))"
    using assms(1,2,7) found by (simp add: media_step_def run_task_def Let_def)
  then have rt: "rt w1 j = (rt w j)\<lparr>mr_timer := False\<rparr>" using assms(4) by (simp add: rt_change)
  have active: "mw_active w1 = drop_key ?sid (mw_active w)" by (simp add: w1 spawn_task_def emit_def)
  then have gone: "map_of (mw_active w1) ?sid = None" by (auto simp: drop_key_def map_of_eq_None_iff)
  have "length (mw_runtimes w1) = length (mw_runtimes w)" by (simp add: w1 spawn_task_def emit_def change_def)
  then have "orphan j w1"
    using assms(4-6) only by (auto simp: orphan_def rt active drop_key_def)
  then have w2: "orphan j w2" unfolding assms(8) by (rule orphan.good_run)
  then have facts: "map_of (mw_active w2) sid \<noteq> Some j" "\<not> mr_closing (rt w2 j)" "\<not> mr_suspended (rt w2 j)" "\<not> mr_timer (rt w2 j)" for sid
    using orphan_other [OF w2, of sid j] by (auto simp: orphan_def)
  show ?thesis
    using rt gone facts by (auto simp: media_step_def channel_input_def max_message_bytes_def emit_def Let_def)
qed

theorem late_failure_orphans_newer_witness:
  "let step = media_step (demo_media_config False) (\<lambda>_. None) (\<lambda>_. NaN) (\<lambda>_. ''k'');
       w1 = step (demo_media_run False empty_media demo_late_failure) (demo_media_env, Do_task 11) in
   mr_binding (rt w1 1) = demo_media_binding 2 \<and> \<not> mr_closing (rt (run step w1 demo_revoked) 1)
   \<and> Returned 3 Media_ok \<in> set (mw_log (run step w1 demo_revoked))"
proof -
  let ?step = "media_step (demo_media_config False) (\<lambda>_. None) (\<lambda>_. NaN) (\<lambda>_. ''k'')" and ?w = "demo_media_run False empty_media demo_late_failure"
  let ?w1 = "?step ?w (demo_media_env, Do_task 11)"
  have "let w = ?w in 11 < length (mw_tasks w) \<and> mw_tasks w ! 11 = Some (Start_closing (demo_media_call 1) 0)
      \<and> filter (\<lambda>p. fst p = ''s'' \<or> snd p = 1) (mw_active w) = [(''s'', 1)] \<and> 1 < length (mw_runtimes w)
      \<and> \<not> mr_closing (rt w 1) \<and> \<not> mr_suspended (rt w 1)"
    by code_simp
  then have f: "11 < length (mw_tasks ?w)" "mw_tasks ?w ! 11 = Some (Start_closing (demo_media_call 1) 0)"
      "filter (\<lambda>p. fst p = mb_id (sc_binding (demo_media_call 1)) \<or> snd p = 1) (mw_active ?w) = [(mb_id (sc_binding (demo_media_call 1)), 1)]"
      "1 < length (mw_runtimes ?w)" "\<not> mr_closing (rt ?w 1)" "\<not> mr_suspended (rt ?w 1)"
    unfolding Let_def demo_media_call_def demo_media_binding_def by simp_all
  have "let w1 = ?w1 in mr_binding (rt w1 1) = demo_media_binding 2 \<and> Returned 3 Media_ok \<in> set (mw_log (run ?step w1 demo_revoked))"
    by code_simp
  moreover have "\<not> mr_closing (rt (run ?step ?w1 demo_revoked) 1)"
    using late_failure_orphans_newer [OF f refl refl, of "demo_media_config False" "\<lambda>_. None" "\<lambda>_. NaN" "\<lambda>_. ''k''" demo_media_env demo_revoked]
    by blast
  ultimately show ?thesis unfolding Let_def by iprover
qed

text \<open>C34. A kept keyframe leaves a gap behind it. While a frame is under way and a keyframe \<open>g\<close> waits, a dependent frame \<open>f\<close> is
  dropped and nothing marks the gap: once the frame under way and the keyframe are out, the dependent frame \<open>h\<close> after it,
  which builds on the dropped one, is sent right behind the keyframe, and no fresh keyframe is requested. Whatever the
  sizes of the frames, what is taken on the peer is \<open>g\<close> and then \<open>h\<close>.
\<close>

theorem kept_keyframe_leaves_gap:
  assumes "ev_ok e" and "may_send w i" and "\<not> mr_suspended (rt w i)" and "mr_sender (rt w i) = Some p"
    and "mr_draining (rt w i)" and "\<not> mr_awaiting (rt w i)" and "mr_pending (rt w i) = Some g"
    and "k < length (mw_drains w)" and "mw_drains w ! k = Some \<lparr>dr_runtime = i, dr_sender = p, dr_left = qs\<rparr>" and "qs \<noteq> []"
    and "hf_keyframe g" and "frame_packets 0 g \<noteq> []" and "\<not> hf_keyframe f" and "\<not> hf_keyframe h"
    and "d = length (mw_drains w)"
    and "ms = (e, Do_host i (Host_record (Host_frame f))) # packets_settle e k d (length qs)
      @ packets_settle e (d + length qs - 1) (d + length qs) (length (frame_packets 0 g)) @ [(e, Do_host i (Host_record (Host_frame h)))]"
  shows "\<exists>xs. mw_log (run (media_step cfg parse coerce text_of) w ms) = mw_log w @ xs
    \<and> concat (map (frame_on (mr_peer (rt w i))) xs) = [g, h] \<and> Idr_requested i \<notin> set xs"
proof -
  let ?step = "media_step cfg parse coerce text_of"
  have i: "i < length (mw_runtimes w)" using assms(2) by (rule may_send_exists)
  define w0 where "w0 = change i (\<lambda>r. r\<lparr>mr_media_ready := settle_gate True (mr_media_ready r)\<rparr>) w"
  have w0: "rt w0 i = (rt w i)\<lparr>mr_media_ready := settle_gate True (mr_media_ready (rt w i))\<rparr>" "mw_drains w0 = mw_drains w" "mw_log w0 = mw_log w"
    using i by (simp_all add: w0_def rt_change)
  have send0: "may_send w0 i" using assms(2) w0 by (simp add: may_send_rt w0_def)
  have first: "?step w (e, Do_host i (Host_record (Host_frame f))) = w0"
    using i assms(3-7,11,13) w0 send0
    by (simp add: media_step_def host_event_def write_frame_def enqueue_connected_def may_send_def Let_def flip: w0_def)
  define u where "u = run ?step w0 (packets_settle e k d (length qs))"
  obtain n xs ys where u: "only_packets i xs" "only_packets i ys" "mw_peers u = mw_peers w0" "rt u i = (rt w0 i)\<lparr>mr_sequence := n, mr_pending := None\<rparr>"
      "length (mw_drains u) = d + length qs" "mw_drains u ! (d + length qs - 1) = Some \<lparr>dr_runtime = i, dr_sender = p, dr_left = frame_packets n g\<rparr>"
      "mw_log u = mw_log w @ xs @ Frame_taken i (mr_peer (rt w i)) g # ys"
    using settled_frame [OF assms(1) send0, of p k qs u cfg parse coerce text_of] assms(4,5,7-10,12,15) w0
    by (auto simp: u_def Let_def Suc_leI)
  have send: "may_send u i" using send0 u(3,4) by (simp add: may_send_rt)
  define t where "t = run ?step u (packets_settle e (d + length qs - 1) (d + length qs) (length (frame_packets 0 g)))"
  have "frame_packets n g \<noteq> []" using assms(12) length_frame_packets [of n g] by auto
  then obtain m zs where t: "only_packets i zs" "mw_peers t = mw_peers u" "rt t i = (rt u i)\<lparr>mr_sequence := m, mr_draining := False\<rparr>"
      "mw_log t = mw_log u @ zs"
    using settled_frame [OF assms(1) send, of p "d + length qs - 1" "frame_packets n g" t cfg parse coerce text_of]
      u assms(4,5,10) w0 length_frame_packets [of n g]
    by (auto simp: t_def)
  have "may_send t i" "\<not> mr_suspended (rt t i)" "mr_sender (rt t i) = Some p" "\<not> mr_draining (rt t i)" "\<not> mr_awaiting (rt t i)"
      "mr_pending (rt t i) = None" and peer: "mr_peer (rt t i) = mr_peer (rt w i)"
    using send t(2,3) u(4) w0 assms(3,4,6) by (simp_all add: may_send_rt)
  from idle_frame_goes [OF this(1-6) assms(14), of cfg parse coerce text_of e]
  obtain vs where vs: "only_packets i vs" "mw_log (?step t (e, Do_host i (Host_record (Host_frame h)))) = mw_log t @ Frame_taken i (mr_peer (rt w i)) h # vs"
    unfolding peer by blast
  have "run ?step w ms = ?step t (e, Do_host i (Host_record (Host_frame h)))"
    using first by (simp add: assms(16) u_def t_def)
  with vs(2) t(4) u(7) have "mw_log (run ?step w ms) = mw_log w @ xs @ Frame_taken i (mr_peer (rt w i)) g # ys @ zs @ Frame_taken i (mr_peer (rt w i)) h # vs"
    by simp
  moreover note quiet = only_packetsD [OF u(1)] only_packetsD [OF u(2)] only_packetsD [OF t(1)] only_packetsD [OF vs(1)]
  ultimately show ?thesis
    by (intro exI [of _ "xs @ Frame_taken i (mr_peer (rt w i)) g # ys @ zs @ Frame_taken i (mr_peer (rt w i)) h # vs"])
      (simp add: quiet [THEN conjunct1] quiet [THEN conjunct2])
qed

theorem kept_keyframe_leaves_gap_witness:
  "let w = demo_media_run False empty_media demo_waiting in
   \<exists>xs. mw_log (run (media_step (demo_media_config False) (\<lambda>_. None) (\<lambda>_. NaN) (\<lambda>_. ''k'')) w
       [(demo_media_env, Do_host 0 (Host_record (Host_frame (demo_media_frame 2 False)))), (demo_media_env, Do_packet 0),
        (demo_media_env, Do_packet 1), (demo_media_env, Do_host 0 (Host_record (Host_frame (demo_media_frame 3 False))))]) = mw_log w @ xs
     \<and> concat (map (frame_on 0) xs) = [demo_media_frame 1 True, demo_media_frame 3 False] \<and> Idr_requested 0 \<notin> set xs"
proof -
  let ?w = "demo_media_run False empty_media demo_waiting" and ?d = demo_media_frame
  let ?qs = "frame_packets 0 (?d 0 True)"
  have packets: "length (frame_packets 0 (?d t k)) = 1" for t k
    by (cases k) (simp_all add: frame_packets_def demo_media_frame_def split_avcc_def avcc_units.simps unit_payloads_def rtp_payload_bytes_def read_big_endian_def)
  have "let w = ?w; r = rt w 0 in may_send w 0 \<and> \<not> mr_suspended r \<and> mr_sender r = Some 0 \<and> mr_draining r \<and> \<not> mr_awaiting r
      \<and> mr_pending r = Some (?d 1 True) \<and> mr_peer r = 0 \<and> mw_drains w = [Some \<lparr>dr_runtime = 0, dr_sender = 0, dr_left = ?qs\<rparr>]"
    by code_simp
  then have f: "may_send ?w 0" "\<not> mr_suspended (rt ?w 0)" "mr_sender (rt ?w 0) = Some 0" "mr_draining (rt ?w 0)" "\<not> mr_awaiting (rt ?w 0)"
      "mr_pending (rt ?w 0) = Some (?d 1 True)" "mr_peer (rt ?w 0) = 0" "mw_drains ?w = [Some \<lparr>dr_runtime = 0, dr_sender = 0, dr_left = ?qs\<rparr>]"
    unfolding Let_def by iprover+
  have ok: "ev_ok demo_media_env" by (simp add: demo_media_env_def)
  have keys: "hf_keyframe (?d 1 True)" "\<not> hf_keyframe (?d 2 False)" "\<not> hf_keyframe (?d 3 False)" by (simp_all add: demo_media_frame_def)
  have left: "0 < length (mw_drains ?w)" "mw_drains ?w ! 0 = Some \<lparr>dr_runtime = 0, dr_sender = 0, dr_left = ?qs\<rparr>" "?qs \<noteq> []"
      "frame_packets 0 (?d 1 True) \<noteq> []"
    using f(8) packets [of 0 True] packets [of 1 True] by auto
  have ms: "[(demo_media_env, Do_host 0 (Host_record (Host_frame (?d 2 False)))), (demo_media_env, Do_packet 0),
        (demo_media_env, Do_packet 1), (demo_media_env, Do_host 0 (Host_record (Host_frame (?d 3 False))))]
      = (demo_media_env, Do_host 0 (Host_record (Host_frame (?d 2 False)))) # packets_settle demo_media_env 0 (length (mw_drains ?w)) (length ?qs)
        @ packets_settle demo_media_env (length (mw_drains ?w) + length ?qs - 1) (length (mw_drains ?w) + length ?qs)
            (length (frame_packets 0 (?d 1 True))) @ [(demo_media_env, Do_host 0 (Host_record (Host_frame (?d 3 False))))]"
    using f(8) by (simp add: packets_settle_def packets)
  from kept_keyframe_leaves_gap [OF ok f(1-6) left(1-3) keys(1) left(4) keys(2,3) refl ms,
      of "demo_media_config False" "\<lambda>_. None" "\<lambda>_. NaN" "\<lambda>_. ''k''"]
  show ?thesis unfolding Let_def f(7) .
qed

text \<open>A suspension that finishes late takes the credentials of the resumed runtime: \<open>suspend\<close> reads the ICE session after the
  old peer is closed; when the session was resumed meanwhile, it revokes the relay credentials just issued for it.
\<close>

theorem late_suspend_revokes_new_credentials:
  "let w = demo_media_run True empty_media (map (Pair True)
       [Do_prepare (demo_media_binding 1) 7, Do_task 0, Do_task 1, Do_start True (demo_media_call 1), Do_task 2]
       @ demo_connect @ map (Pair True)
       [Do_suspend ''s'' 8, Do_task 7, Do_prepare (demo_media_binding 2) 9, Do_task 9, Do_task 10,
        Do_start True (demo_media_call 2), Do_task 8]) in
   mr_binding (rt w 0) = demo_media_binding 2 \<and> \<not> mr_suspended (rt w 0) \<and> \<not> mr_closing (rt w 0) \<and> mr_ice (rt w 0) = None
   \<and> last (mw_log w) = Revoke_ice 1"
  by code_simp

text \<open>After a resume two frames can be in flight: the resume clears the flag of the loop that sends frames while a frame of
  the old peer is still being sent, and the first keyframe starts a second loop.
\<close>

theorem resume_sends_twice:
  "let w = demo_media_run False empty_media (demo_start @ demo_connect @ map (Pair True)
       [Do_suspend ''s'' 8, Do_task 7, Do_start True (demo_media_call 2), Do_task 9, Do_task 10, Do_task 11, Do_task 12, Do_task 13,
        Do_peer 1 Peer_connected, Do_host 0 (Host_record (Host_frame (demo_media_frame 1 True)))]) in
   map (map_option dr_runtime) (mw_drains w) = [Some 0, Some 0]"
  by code_simp

text \<open>A failed revocation of expired credentials is nobody's: the timer of prepared credentials starts the revocation and drops
  its promise, so a provider that refuses leaves an unhandled rejection.
\<close>

theorem expired_revocation_is_unhandled:
  "last (mw_log (demo_media_run True empty_media (map (Pair True)
     [Do_prepare (demo_media_binding 1) 7, Do_task 0, Do_task 1, Do_prepared_expired ''s'' 0] @ [(False, Do_task 2)]))) = Unhandled_rejection"
  by code_simp

end
