(* ===== verification/Spec2Isabelle.thy ===== *)
theory Spec2Isabelle
  imports Fencing Lifecycle Ownership Checkpoint Audit_Events Handoff_Runtime Worker_Channel Worker_Data Lifecycle_Route Human_Surface Takeover_Session Transport Viewer Diagnostics Terminal_Takeover Websocket_Fence Webrtc_Faults
begin

text \<open>
  A model of the TypeScript library under \<open>src/src/\<close>: handing control of a running Agent execution to a human and back,
  with fences so that at any time at most one party acts. \<open>src/dist/\<close> is its build output and is not read.

  \<^bold>\<open>Parts, and the theories that model them.\<close>
  \<^item> \<open>Handoff_Prelude\<close>: results of fallible operations (a sum, \<open>Inl\<close> the error), JavaScript numbers, strings and untyped
    values, the character classes of the regular expressions, UTF-8, constant-time comparison. \<open>Fencing\<close>: the locales
    of a machine with an invariant, with a generation that never falls, and with operations that admit a caller only at
    the current generation; each component interprets them on its own step function. \<open>Base64\<close>: encoder and strict decoder.
    \<open>Doubles\<close>: the rounding of IEEE doubles and how accurate a quotient of a difference is.
  \<^item> Authority (\<open>core/\<close>): \<open>Lifecycle\<close> is the state machine of one intervention (\<open>lifecycle.ts\<close>); \<open>Ownership\<close> the
    invocation digest, the owner table and the MCP request state (\<open>invocation.ts\<close>, \<open>owner.ts\<close>, \<open>adapter.ts\<close>,
    \<open>mcp/mrtr.ts\<close>); \<open>Checkpoint\<close> the signed file store and recovery (\<open>checkpoint.ts\<close>, \<open>hosted-recovery.ts\<close>);
    \<open>Handoff_Runtime\<close> their composition (\<open>runtime.ts\<close>); \<open>Audit_Events\<close> the audit events (\<open>audit.ts\<close>).
  \<^item> Hosted workers (\<open>core/\<close>): \<open>Worker_Registry\<close> (\<open>hosted-worker.ts\<close>), \<open>Worker_Channel\<close>
    (\<open>hosted-worker-channel.ts\<close>), \<open>Operator_Binding\<close> (\<open>hosted-operator-binding.ts\<close>), \<open>Worker_Data\<close>
    (\<open>hosted-worker-data.ts\<close>), \<open>Frame_Bridge\<close> (\<open>hosted-latest-frame-bridge.ts\<close>), \<open>Lifecycle_Route\<close>
    (\<open>hosted-lifecycle-route.ts\<close>), \<open>Human_Surface\<close> (\<open>human-surface.ts\<close>), \<open>Diagnostics\<close> (\<open>operator-diagnostics.ts\<close>).
  \<^item> Takeover sessions (\<open>browser-takeover/\<close>): \<open>Takeover_Session\<close> is the session manager (\<open>session.ts\<close>), \<open>Transport\<close>
    the plan and the coordinator of the transports (\<open>transport-fallback-policy.ts\<close>,
    \<open>managed-transport-coordinator.ts\<close>), \<open>Viewer\<close> the desktop viewer and window geometry
    (\<open>desktop-session/desktop-session.ts\<close>, \<open>target-surface/os-window.ts\<close>).
  \<^item> Terminal takeover: \<open>Terminal_Pty\<close> is the authority gate (\<open>experimental/terminal-pty.ts\<close>), \<open>Terminal_Transport\<close> the
    data channel transport (\<open>experimental/terminal-webrtc.ts\<close>), \<open>Terminal_Handoff\<close> the adapter over both
    (\<open>terminal-takeover/terminal-handoff-adapter.ts\<close>), \<open>Terminal_Takeover\<close> what the composition guarantees.
  \<^item> WebSocket takeover (\<open>browser-takeover/\<close>): \<open>Websocket_Latency\<close> (\<open>websocket-latency.ts\<close>), \<open>Websocket_Channel\<close> the
    channel (\<open>websocket-takeover.ts\<close>) and \<open>Websocket_Safety\<close> what it guarantees; \<open>Websocket_Authority\<close> is the
    authority behind the ingress (\<open>websocket-ingress.ts\<close>): handshake tickets, accepted sockets and their leases on the
    session manager, the checks of the bootstrap and upgrade requests, and the bytes of a frame, with the page's reader
    of them (\<open>websocket-browser-handoff.ts\<close>). \<open>Websocket_Fence\<close> composes one channel with its lease on the session
    manager, interleaved with everything else that happens there, and shows that a newer socket silences the older one;
    its premise is that nobody else ends uses of that client binding.
  \<^item> WebRTC takeover (\<open>browser-takeover/\<close>): \<open>Bytes\<close> holds big-endian numbers, search, and the locales of a parser that is
    fed chunks and of a stream of length-prefixed records. \<open>Host_Media\<close> is the media half of the Linux host
    (\<open>linux-webrtc-host-cli.ts\<close>): records, JPEG and H.264 stream parsers, the latest-frame writer. \<open>Webrtc_Media\<close> reads
    those records (\<open>webrtc-runtime.ts\<close>, \<open>websocket-window-host-record.ts\<close>) and cuts frames into RTP packets.
    \<open>Webrtc_Runtime\<close> is \<open>SpawnedWebRtcRuntimeProvider\<close> (\<open>webrtc-runtime.ts\<close>): every await is a task that a move settles, with
    or against the code, so calls, callbacks of host and peer, timers and settled promises interleave freely;
    \<open>Webrtc_Faults\<close> shows where it falls short of its own comments.

  \<^bold>\<open>How the code is modelled.\<close> A class is a \<open>record\<close> of its fields, a union of string literals a \<open>datatype\<close>, a method a
  function from arguments and state to a result and the new state, with every guard, throw and early return as a
  branch. A method that awaits is cut at the await: what the environment does meanwhile is an argument or a step of its
  own, and a property quantifies over all of them. Calls to injected ports (a peer, a lease, a driver, a provider) are
  appended to a log or numbered; their answers are inputs. Clock readings and fresh identifiers are arguments.

  \<^bold>\<open>Parameters.\<close> SHA-256 (\<open>sha\<close>), HMAC (\<open>hmac\<close>), the printing of numbers (\<open>nt\<close>), \<open>JSON.parse\<close> (\<open>parse\<close>) and
  \<open>Number(value)\<close> (\<open>coerce\<close>) are arguments of the definitions that use them. No property assumes more of them than it
  states as a premise.

  \<^bold>\<open>What the lemmas show.\<close> Per component an invariant (\<open>world_good\<close>, \<open>bridge_good\<close>, \<open>transport_good\<close>, \<open>ws_good\<close>, ...)
  that every operation preserves; from it the properties: control returns to the Agent only through return,
  verification and resume; a generation, a client or an epoch that was superseded is refused; the fence comes before
  anyone is told; an ended session stays ended; frames keep their order; queues stay within their limits; a checkpoint
  comes back to its owner or not at all; a channel that stopped admitting comes to rest and gives its lease back; a
  WebRTC runtime that ended stays silent and video begins with a keyframe; the bytes of the encoder reach the packets.
  Refinements and equivalences relate operations to what they promise (\<open>current_lease_exact\<close>, \<open>request_state_exact\<close>,
  \<open>write_replaces_in_one_step\<close>, \<open>inactive_means_no_session\<close>). Some properties state where the code falls short of its
  own comments (\<open>idle_publish_sends_stale_frame\<close>, \<open>blank_locator_overlaps\<close>, \<open>repeated_begin_skips_drain\<close>,
  \<open>revoked_terminal_is_stranded\<close>, \<open>terminal_output_limit\<close>, \<open>late_failure_orphans_newer\<close>,
  \<open>kept_keyframe_leaves_gap\<close>).

  \<^bold>\<open>Bounds and fuel.\<close> No definition takes fuel: loops are structural recursions, or cut into one step per await.
  \<open>ws_drive\<close> runs the channel for \<open>ws_weight\<close> steps, a measure that every step of the channel lowers.

  \<^bold>\<open>Where the model is coarser than the code.\<close> Strings are lists of Latin-1 code units, not UTF-16. Finite numbers are
  rationals; in \<open>Viewer\<close>, where the code computes with fractions, every operation is rounded as that of a double is. Elsewhere
  numbers are compared, counted or passed on; the rounding of latencies to tenths in \<open>Websocket_Latency\<close> is exact. Map
  iteration order is kept where the code depends on it.

  \<^bold>\<open>Not modelled.\<close> Code whose substance is input and output: the HTTP broker (\<open>broker.ts\<close>), the peers and host processes behind
  \<open>webrtc-runtime.ts\<close> and its metrics and diagnostics, the Linux and macOS window surfaces, the processes of the
  host programs, the managed runtime that wires them, the acceptance servers, the HTML pages, and the re-exporting index files. Read-only snapshot accessors are left
  out where they only copy fields. Of the WebSocket channel, the results of the promises and the measured durations are
  left out.
\<close>

end
